(* ===== verification/Prelude.thy ===== *)
theory Prelude
  imports Main "HOL-Library.Word"
begin

text \<open>
  Shared vocabulary of the development: the machine integers of \<^verbatim>\<open>types.h\<close>, the
  byte-addressed memory that the C code reads and writes through pointers, runs of bytes in
  that memory, little-endian loads and stores, and the generic lemmas about them that the
  component theories use.  A pointer is a \<open>u32\<close>, \<open>0\<close> is \<^verbatim>\<open>NULL\<close>, and the address
  arithmetic of the source wraps at 32 bits as it does on the machine.
\<close>

unbundle bit_operations_syntax

type_synonym u8 = "8 word"
type_synonym u16 = "16 word"
type_synonym u32 = "32 word"
type_synonym mem = "u32 \<Rightarrow> u8"

named_theorems mem_simps \<open>effect of memory updates on later reads\<close>
named_theorems kernel_defs \<open>unfolding of small kernel definitions\<close>

subsection \<open>Words as bounded counters\<close>

lemma unat_dec [simp]: "x \<noteq> 0 \<Longrightarrow> unat (x - 1 :: 'a::len word) = unat x - 1"
  by (metis unat_minus_one)

lemma unat_dec_less: "x \<noteq> 0 \<Longrightarrow> unat (x - 1 :: 'a::len word) < unat x"
  by (metis unat_dec diff_less less_numeral_extra(1) unat_gt_0)

lemma unat_inc [simp]: "(x :: 'a::len word) < y \<Longrightarrow> unat (x + 1) = unat x + 1"
  by unat_arith

lemma unat_of_nat_u32 [simp]: "n < 2 ^ 32 \<Longrightarrow> unat (of_nat n :: u32) = n"
  by (simp add: unat_of_nat take_bit_nat_eq_self)

lemma of_nat_u32_eq_iff:
  "a < 2 ^ 32 \<Longrightarrow> b < 2 ^ 32 \<Longrightarrow> (of_nat a :: u32) = of_nat b \<longleftrightarrow> a = b"
  by (metis unat_of_nat_u32)

lemma unat_u32_less [simp]: "unat (x :: u32) < 4294967296"
  using unsigned_less [of x] by simp

lemma unat_u32_le [simp]: "unat (x :: u32) \<le> 4294967296"
  by (rule less_imp_le) simp

lemma unat_of_nat_minus:
  "unat w \<le> n \<Longrightarrow> n < 2 ^ 32 \<Longrightarrow> unat (of_nat n - w :: u32) = n - unat w"
  by (simp add: unat_sub_if')

lemma unat_minus_of_nat: "n \<le> unat y \<Longrightarrow> unat (y - of_nat n :: u32) = unat y - n"
proof -
  assume le: "n \<le> unat y"
  then have "n < 2 ^ 32" using le_less_trans [OF le unat_u32_less] by simp
  with le show ?thesis by (simp add: unat_sub_if')
qed

lemma unat_of_nat_minus_wrap:
  assumes "n < unat w" shows "n \<le> unat (of_nat n - w :: u32)"
proof -
  have "n < 2 ^ 32" using order.strict_trans [OF assms unat_u32_less] by simp
  with assms unat_u32_less [of w] show ?thesis by (simp add: unat_sub_if' del: unat_u32_less)
qed

lemma unat_diff_eq_iff:
  assumes "n < 2 ^ 32"
  shows "unat (x - d :: u32) = n \<longleftrightarrow> x = d + of_nat n"
proof
  assume "unat (x - d) = n"
  then have "(of_nat n :: u32) = of_nat (unat (x - d))" by (rule arg_cong [OF sym])
  then have "of_nat n = x - d" by simp
  then show "x = d + of_nat n" by simp
qed (use assms in simp)

lemma less_unat_u32: "i < unat (n :: u32) \<Longrightarrow> i < 4294967296"
  by (rule less_trans [OF _ unat_u32_less])

subsection \<open>Runs of bytes\<close>

definition read_bytes :: "mem \<Rightarrow> u32 \<Rightarrow> nat \<Rightarrow> u8 list" where
  "read_bytes m a n = map (\<lambda>i. m (a + of_nat i)) [0..<n]"

primrec write_bytes :: "mem \<Rightarrow> u32 \<Rightarrow> u8 list \<Rightarrow> mem" where
  "write_bytes m a [] = m"
| "write_bytes m a (b # bs) = write_bytes (m(a := b)) (a + 1) bs"

text \<open>The addresses of a run of \<open>n\<close> bytes that starts at \<open>a\<close>, as the 32-bit address
  space has them: the distance of an address from \<open>a\<close> is taken modulo \<open>2 ^ 32\<close>.\<close>

definition span :: "u32 \<Rightarrow> nat \<Rightarrow> u32 set" where
  "span a n = {x. unat (x - a) < n}"

lemma in_span [simp]: "x \<in> span a n \<longleftrightarrow> unat (x - a) < n"
  by (simp add: span_def)

lemma in_span_interval:
  assumes "unat a + n \<le> 2 ^ 32"
  shows "x \<in> span a n \<longleftrightarrow> unat a \<le> unat x \<and> unat x < unat a + n"
proof (cases "unat a \<le> unat x")
  case True
  then show ?thesis by (auto simp: unat_sub_if')
next
  case False
  then have "unat (x - a) = unat x + 2 ^ 32 - unat a" by (simp add: unat_sub_if')
  with False assms show ?thesis by auto
qed

text \<open>Two runs that share no address.\<close>

definition apart :: "u32 \<Rightarrow> nat \<Rightarrow> u32 \<Rightarrow> nat \<Rightarrow> bool" where
  "apart a j b k \<longleftrightarrow> span a j \<inter> span b k = {}"

lemma apart_sym: "apart a j b k \<longleftrightarrow> apart b k a j"
  by (auto simp: apart_def)

lemma apart_below:
  assumes "unat a + j \<le> unat b" and "unat b + k \<le> 2 ^ 32"
  shows "apart a j b k"
proof -
  from assms have "unat a + j \<le> 2 ^ 32" by linarith
  with assms show ?thesis
    by (auto simp: apart_def in_span_interval simp del: in_span)
qed

lemma apart_nth:
  assumes "apart a j b k" and "i < j" and "i < 2 ^ 32"
  shows "a + of_nat i \<notin> span b k"
proof -
  have "a + of_nat i \<in> span a j" using assms(2,3) by simp
  with assms(1) show ?thesis unfolding apart_def by blast
qed

lemma sint_of_nat_u32: "n < 2 ^ 31 \<Longrightarrow> sint (of_nat n :: u32) = int n"
  by (simp add: signed_of_nat signed_take_bit_int_eq_self)

lemma span_sub:
  assumes "l + n \<le> N" and "N \<le> 2 ^ 32"
  shows "span (a + of_nat l) n \<subseteq> span a N"
proof
  fix x assume "x \<in> span (a + of_nat l) n"
  then have d: "unat (x - (a + of_nat l)) < n" by simp
  let ?d = "unat (x - (a + of_nat l))"
  have "of_nat l + (x - (a + of_nat l)) = of_nat (l + ?d)" by (simp only: of_nat_add of_nat_unat ucast_id)
  moreover have "of_nat l + (x - (a + of_nat l)) = x - a" by simp
  ultimately have "x - a = of_nat (l + ?d)" by simp
  moreover have "l + ?d < 2 ^ 32" using d assms by linarith
  ultimately have "unat (x - a) = l + ?d" by (metis unat_of_nat_u32)
  then show "x \<in> span a N" using d assms by simp
qed

lemma apart_mono:
  "apart a j b k \<Longrightarrow> span a' j' \<subseteq> span a j \<Longrightarrow> span b' k' \<subseteq> span b k \<Longrightarrow> apart a' j' b' k'"
  unfolding apart_def by blast

lemma length_read_bytes [simp]: "length (read_bytes m a n) = n"
  by (simp add: read_bytes_def)

lemma nth_read_bytes [simp]: "i < n \<Longrightarrow> read_bytes m a n ! i = m (a + of_nat i)"
  by (simp add: read_bytes_def)

lemma read_bytes_0 [simp]: "read_bytes m a 0 = []"
  by (simp add: read_bytes_def)

lemma read_bytes_Suc: "read_bytes m a (Suc n) = m a # read_bytes m (a + 1) n"
  by (simp add: read_bytes_def upt_rec [of 0 "Suc n"] map_Suc_upt [symmetric] add.assoc
        del: upt_Suc)

lemma read_bytes_add:
  "read_bytes m a (j + k) = read_bytes m a j @ read_bytes m (a + of_nat j) k"
  by (induction j arbitrary: a) (simp_all add: read_bytes_Suc ac_simps)

lemma read_bytes_cong:
  assumes "\<And>x. x \<in> span a n \<Longrightarrow> m x = m' x" and "n \<le> 2 ^ 32"
  shows "read_bytes m a n = read_bytes m' a n"
proof (rule nth_equalityI)
  fix i assume "i < length (read_bytes m a n)"
  with assms show "read_bytes m a n ! i = read_bytes m' a n ! i" by simp
qed simp

lemma write_bytes_apply:
  "length bs \<le> 2 ^ 32 \<Longrightarrow>
   write_bytes m a bs x = (if unat (x - a) < length bs then bs ! unat (x - a) else m x)"
proof (induction bs arbitrary: m a)
  case Nil
  then show ?case by simp
next
  case (Cons b bs)
  have split: "unat (x - a) = Suc (unat (x - (a + 1)))" if "x \<noteq> a"
  proof -
    from that have nz: "x - a \<noteq> 0" by simp
    then have "unat (x - a - 1) = unat (x - a) - 1" by (rule unat_dec)
    moreover from nz have "0 < unat (x - a)" by (simp add: unat_gt_0)
    ultimately show ?thesis by (simp add: diff_diff_eq)
  qed
  show ?case
  proof (cases "x = a")
    case True
    have "unat (a - (a + 1)) = 2 ^ 32 - 1"
      by (simp add: unsigned_minus_1_eq_mask mask_eq_exp_minus_1)
    with True Cons show ?thesis by simp
  next
    case False
    with split have "unat (x - a) = Suc (unat (x - (a + 1)))" by simp
    with False Cons show ?thesis by simp
  qed
qed

lemma read_write_bytes [mem_simps]:
  "length bs \<le> 2 ^ 32 \<Longrightarrow> read_bytes (write_bytes m a bs) a (length bs) = bs"
  by (rule nth_equalityI) (simp_all add: write_bytes_apply)

lemma write_bytes_other [mem_simps]:
  "length bs \<le> 2 ^ 32 \<Longrightarrow> x \<notin> span a (length bs) \<Longrightarrow> write_bytes m a bs x = m x"
  by (simp add: write_bytes_apply)

lemma write_bytes_append:
  "write_bytes m a (xs @ ys) = write_bytes (write_bytes m a xs) (a + of_nat (length xs)) ys"
  by (induction xs arbitrary: m a) (simp_all add: ac_simps)

subsection \<open>Little-endian words in memory\<close>

definition bytes16 :: "u16 \<Rightarrow> u8 list" where
  "bytes16 w = [ucast w, ucast (drop_bit 8 w)]"

definition bytes32 :: "u32 \<Rightarrow> u8 list" where
  "bytes32 w = [ucast w, ucast (drop_bit 8 w), ucast (drop_bit 16 w), ucast (drop_bit 24 w)]"

definition load32 :: "mem \<Rightarrow> u32 \<Rightarrow> u32" where
  "load32 m a = ucast (m a) OR push_bit 8 (ucast (m (a + 1)))
     OR push_bit 16 (ucast (m (a + 2))) OR push_bit 24 (ucast (m (a + 3)))"

definition store32 :: "mem \<Rightarrow> u32 \<Rightarrow> u32 \<Rightarrow> mem" where
  "store32 m a w = write_bytes m a (bytes32 w)"

lemma length_bytes32 [simp]: "length (bytes32 w) = 4"
  by (simp add: bytes32_def)

lemma length_bytes16 [simp]: "length (bytes16 w) = 2"
  by (simp add: bytes16_def)

lemma load_store32 [mem_simps]: "load32 (store32 m a w) a = w"
proof -
  have "load32 (store32 m a w) a =
      ucast (ucast w :: u8) OR push_bit 8 (ucast (ucast (drop_bit 8 w) :: u8))
      OR push_bit 16 (ucast (ucast (drop_bit 16 w) :: u8))
      OR push_bit 24 (ucast (ucast (drop_bit 24 w) :: u8))"
    by (simp add: load32_def store32_def bytes32_def add.assoc)
  also have "\<dots> = w"
  proof (rule bit_word_eqI)
    fix n assume "n < LENGTH(32)"
    then consider "n < 8" | k where "n = 8 + k" "k < 8" | k where "n = 16 + k" "k < 8"
      | k where "n = 24 + k" "k < 8"
      by (cases "n < 8"; cases "n < 16"; cases "n < 24")
        (auto dest!: le_Suc_ex simp: not_less)
    then show "bit (ucast (ucast w :: u8) OR push_bit 8 (ucast (ucast (drop_bit 8 w) :: u8))
      OR push_bit 16 (ucast (ucast (drop_bit 16 w) :: u8))
      OR push_bit 24 (ucast (ucast (drop_bit 24 w) :: u8)) :: u32) n = bit w n"
      by cases (auto simp: bit_simps)
  qed
  finally show ?thesis .
qed

lemma load32_cong:
  assumes "\<And>x. x \<in> span a 4 \<Longrightarrow> m x = m' x"
  shows "load32 m a = load32 m' a"
  using assms by (simp add: load32_def)

end
