(* ===== verification/Paging.thy ===== *)
theory Paging
  imports Prelude
begin

text \<open>
  Paging, \<^verbatim>\<open>mp3/student-distrib/page.c\<close> and \<^verbatim>\<open>page.h\<close>, with \<^verbatim>\<open>flush_tlb\<close> of
  \<^verbatim>\<open>system_calls.c\<close>.  An entry of the page directory or of a page table is the 32-bit word of
  the C union, and an assignment to one of its bit-fields replaces the bits of that field.
  The addresses at which the linker puts the three tables are fields of the state.  The flag
  \<open>tlb_stale\<close> is not a C variable: it records that a table was changed after the processor
  last reloaded \<^verbatim>\<open>cr3\<close>.  The walk of the processor through the tables is \<open>translate\<close>, against
  which the mappings that the kernel sets up are stated.
\<close>

unbundle bit_operations_syntax

subsection \<open>Bit-fields\<close>

definition set_bits :: "nat \<Rightarrow> nat \<Rightarrow> u32 \<Rightarrow> u32 \<Rightarrow> u32" where
  "set_bits lo k v w = (w AND NOT (push_bit lo (mask k))) OR push_bit lo (take_bit k v)"

definition get_bits :: "nat \<Rightarrow> nat \<Rightarrow> u32 \<Rightarrow> u32" where
  "get_bits lo k w = take_bit k (drop_bit lo w)"

lemma bit_set_bits:
  "bit (set_bits lo k v w) n \<longleftrightarrow>
     n < 32 \<and> (if lo \<le> n \<and> n < lo + k then bit v (n - lo) else bit w n)"
  by (auto simp: set_bits_def bit_simps not_le dest: bit_imp_le_length)

lemma bit_get_bits: "bit (get_bits lo k w) n \<longleftrightarrow> n < k \<and> bit w (lo + n)"
  by (simp add: get_bits_def bit_simps)

lemma get_set_bits_same [simp]:
  "lo + k \<le> 32 \<Longrightarrow> get_bits lo k (set_bits lo k v w) = take_bit k v"
  by (rule bit_word_eqI) (auto simp: bit_get_bits bit_set_bits bit_take_bit_iff)

lemma get_set_bits_other [simp]:
  "lo + k \<le> lo' \<or> lo' + k' \<le> lo \<Longrightarrow> lo + k \<le> 32 \<Longrightarrow> get_bits lo k (set_bits lo' k' v w) = get_bits lo k w"
  by (rule bit_word_eqI) (auto simp: bit_get_bits bit_set_bits)

subsection \<open>The tables\<close>

record paging =
  page_directory :: "u32 \<Rightarrow> u32"
  page_table :: "u32 \<Rightarrow> u32"
  user_video_page_table :: "u32 \<Rightarrow> u32"
  page_directory_addr :: u32
  page_table_addr :: u32
  user_video_page_table_addr :: u32
  cr0 :: u32
  cr3 :: u32
  cr4 :: u32
  tlb_stale :: bool

abbreviation KERNEL_ADDR :: u32 where "KERNEL_ADDR \<equiv> 0x400000"
abbreviation KERNEL_BOTTOM_ADDR :: u32 where "KERNEL_BOTTOM_ADDR \<equiv> 0x800000"
abbreviation USER_ADDR :: u32 where "USER_ADDR \<equiv> 0x8000000"
abbreviation USER_IMAGE :: u32 where "USER_IMAGE \<equiv> 0x08048000"
abbreviation USER_STACK_ADDR :: u32 where "USER_STACK_ADDR \<equiv> 0x8400000"
abbreviation USER_VIDEO_ADDR :: u32 where "USER_VIDEO_ADDR \<equiv> 0x8800000"
abbreviation VIDEO :: u32 where "VIDEO \<equiv> 0xB8000"

text \<open>The assignments of \<^verbatim>\<open>set_pde\<close> and \<^verbatim>\<open>set_pte\<close> to the fields of one entry, in order.\<close>

definition pde_fields :: "u32 \<Rightarrow> u32 \<Rightarrow> u32 \<Rightarrow> u32 \<Rightarrow> u32 \<Rightarrow> u32" where
  "pde_fields w address ps g u_s =
     (let w = set_bits 0 1 1 w; w = set_bits 1 1 1 w; w = set_bits 2 1 u_s w; w = set_bits 3 1 0 w;
          w = set_bits 4 1 0 w; w = set_bits 5 1 0 w; w = set_bits 6 1 0 w; w = set_bits 7 1 ps w;
          w = set_bits 8 1 g w; w = set_bits 9 3 0 w
      in set_bits 12 20 address w)"

definition pte_fields :: "u32 \<Rightarrow> u32 \<Rightarrow> u32 \<Rightarrow> u32" where
  "pte_fields w address u_s =
     (let w = set_bits 0 1 1 w; w = set_bits 1 1 1 w; w = set_bits 2 1 u_s w; w = set_bits 3 1 0 w;
          w = set_bits 4 1 0 w; w = set_bits 5 1 0 w; w = set_bits 6 1 0 w; w = set_bits 7 1 0 w;
          w = set_bits 8 1 0 w; w = set_bits 9 3 0 w
      in set_bits 12 20 address w)"

definition set_pde :: "u32 \<Rightarrow> u32 \<Rightarrow> u32 \<Rightarrow> u32 \<Rightarrow> u32 \<Rightarrow> 'a paging_scheme \<Rightarrow> 'a paging_scheme" where
  "set_pde index address ps g u_s s =
     s\<lparr>page_directory := (page_directory s)
         (index := pde_fields (page_directory s index) address ps g u_s), tlb_stale := True\<rparr>"

text \<open>\<^verbatim>\<open>set_pte\<close> on each of the two tables it is called with.\<close>

definition set_pte :: "u32 \<Rightarrow> u32 \<Rightarrow> u32 \<Rightarrow> 'a paging_scheme \<Rightarrow> 'a paging_scheme" where
  "set_pte index address u_s s =
     s\<lparr>page_table := (page_table s)(index := pte_fields (page_table s index) address u_s),
       tlb_stale := True\<rparr>"

definition set_user_pte :: "u32 \<Rightarrow> u32 \<Rightarrow> u32 \<Rightarrow> 'a paging_scheme \<Rightarrow> 'a paging_scheme" where
  "set_user_pte index address u_s s =
     s\<lparr>user_video_page_table := (user_video_page_table s)
         (index := pte_fields (user_video_page_table s index) address u_s), tlb_stale := True\<rparr>"

definition set_crs :: "'a paging_scheme \<Rightarrow> 'a paging_scheme" where
  "set_crs s = s\<lparr>cr3 := page_directory_addr s, cr4 := cr4 s OR 0x90, cr0 := cr0 s OR 0x80000000,
     tlb_stale := False\<rparr>"

definition flush_tlb :: "'a paging_scheme \<Rightarrow> 'a paging_scheme" where
  "flush_tlb s = s\<lparr>cr3 := cr3 s, tlb_stale := False\<rparr>"

text \<open>The loop that clears the directory and the first table.\<close>

fun clear_tables :: "nat \<Rightarrow> 'a paging_scheme \<Rightarrow> 'a paging_scheme" where
  "clear_tables 0 s = s"
| "clear_tables (Suc i) s =
     (let s = clear_tables i s
      in s\<lparr>page_directory := (page_directory s)(of_nat i := 0),
           page_table := (page_table s)(of_nat i := 0)\<rparr>)"

definition page_init :: "'a paging_scheme \<Rightarrow> 'a paging_scheme" where
  "page_init s =
     (let s = clear_tables 1024 s;
          s = set_pde 0 (drop_bit 12 (page_table_addr s)) 0 0 0 s;
          s = set_pte (drop_bit 12 VIDEO) (drop_bit 12 VIDEO) 0 s;
          s = set_pte (drop_bit 12 VIDEO + 2) (drop_bit 12 VIDEO + 2) 0 s;
          s = set_pte (drop_bit 12 VIDEO + 3) (drop_bit 12 VIDEO + 3) 0 s;
          s = set_pte (drop_bit 12 VIDEO + 4) (drop_bit 12 VIDEO + 4) 0 s;
          s = set_pde 1 (drop_bit 12 KERNEL_ADDR) 1 1 0 s
      in set_crs s)"

text \<open>The call of \<^verbatim>\<open>set_pde\<close> that \<^verbatim>\<open>execute\<close>, \<^verbatim>\<open>halt\<close> and \<^verbatim>\<open>pit_handler\<close> make for process
  \<open>pid\<close>, with the flush that follows it.\<close>

definition map_process :: "u32 \<Rightarrow> 'a paging_scheme \<Rightarrow> 'a paging_scheme" where
  "map_process pid s =
     flush_tlb (set_pde (drop_bit 22 USER_ADDR)
       (drop_bit 12 (KERNEL_BOTTOM_ADDR + pid * KERNEL_ADDR)) 1 0 1 s)"

text \<open>The mapping of \<^verbatim>\<open>vidmap\<close>.\<close>

definition map_user_video :: "'a paging_scheme \<Rightarrow> 'a paging_scheme" where
  "map_user_video s =
     flush_tlb (set_pde (drop_bit 22 USER_VIDEO_ADDR)
       (drop_bit 12 (user_video_page_table_addr s)) 0 0 1 s)"

subsection \<open>The walk of the processor\<close>

definition table_at :: "'a paging_scheme \<Rightarrow> u32 \<Rightarrow> (u32 \<Rightarrow> u32) option" where
  "table_at s a = (if a = page_table_addr s then Some (page_table s)
     else if a = user_video_page_table_addr s then Some (user_video_page_table s) else None)"

text \<open>Present bit 0, user bit 2, page-size bit 7, base address from bit 12.\<close>

definition walk :: "bool \<Rightarrow> 'a paging_scheme \<Rightarrow> u32 \<Rightarrow> u32 option" where
  "walk user s va =
     (let pde = page_directory s (drop_bit 22 va)
      in if get_bits 0 1 pde = 0 \<or> user \<and> get_bits 2 1 pde = 0 then None
         else if get_bits 7 1 pde = 1 then
           Some (push_bit 22 (get_bits 22 10 pde) OR take_bit 22 va)
         else case table_at s (push_bit 12 (get_bits 12 20 pde)) of
           None \<Rightarrow> None
         | Some t \<Rightarrow>
             let pte = t (take_bit 10 (drop_bit 12 va))
             in if get_bits 0 1 pte = 0 \<or> user \<and> get_bits 2 1 pte = 0 then None
                else Some (push_bit 12 (get_bits 12 20 pte) OR take_bit 12 va))"

abbreviation translate :: "'a paging_scheme \<Rightarrow> u32 \<Rightarrow> u32 option" where
  "translate \<equiv> walk False"

abbreviation translate_user :: "'a paging_scheme \<Rightarrow> u32 \<Rightarrow> u32 option" where
  "translate_user \<equiv> walk True"

text \<open>What the linker script guarantees of the table addresses.\<close>

definition layout_ok :: "'a paging_scheme \<Rightarrow> bool" where
  "layout_ok s \<longleftrightarrow> take_bit 12 (page_table_addr s) = 0 \<and>
     take_bit 12 (user_video_page_table_addr s) = 0 \<and>
     page_table_addr s \<noteq> user_video_page_table_addr s"

subsection \<open>Values of the entries\<close>

definition pde_word :: "u32 \<Rightarrow> u32 \<Rightarrow> u32 \<Rightarrow> u32 \<Rightarrow> u32" where
  "pde_word address ps g u_s = push_bit 12 address OR push_bit 8 (take_bit 1 g)
     OR push_bit 7 (take_bit 1 ps) OR push_bit 2 (take_bit 1 u_s) OR mask 2"

text \<open>Every bit of an entry is assigned, so its old value does not matter.\<close>

lemma pde_fields_word: "pde_fields w address ps g u_s = pde_word address ps g u_s"
proof (rule bit_word_eqI)
  fix n assume n: "n < LENGTH(32)"
  then consider "n = 0" | "n = 1" | "n = 2" | "n = 3" | "n = 4" | "n = 5" | "n = 6" | "n = 7"
    | "n = 8" | "9 \<le> n" "n < 12" | "12 \<le> n" by force
  then show "bit (pde_fields w address ps g u_s) n = bit (pde_word address ps g u_s) n"
    using n by cases (auto simp: pde_fields_def pde_word_def Let_def bit_set_bits bit_simps
        simp del: bit_0, auto simp: bit_0)
qed

lemma pte_fields_word: "pte_fields w address u_s = pde_word address 0 0 u_s"
  by (simp add: pte_fields_def pde_fields_def flip: pde_fields_word [of w])

lemma get_bits_base: "get_bits 22 10 w = drop_bit 10 (get_bits 12 20 w)"
  by (rule bit_word_eqI) (auto simp: bit_get_bits bit_simps)

lemma pde_word_bits [simp]:
  "get_bits 0 1 (pde_word address ps g u_s) = 1"
  "get_bits 2 1 (pde_word address ps g u_s) = take_bit 1 u_s"
  "get_bits 7 1 (pde_word address ps g u_s) = take_bit 1 ps"
  "get_bits 12 20 (pde_word address ps g u_s) = take_bit 20 address"
  by (simp_all add: pde_fields_def Let_def flip: pde_fields_word [of 0] del: take_bit_Suc One_nat_def)

lemmas pde_word_flags [simp] = pde_word_bits(1-3) [unfolded One_nat_def]

lemma pde_word_frame [simp]:
  "get_bits 22 10 (pde_word address ps g u_s) = drop_bit 10 (take_bit 20 address)"
  by (simp add: get_bits_base)

lemma get_bits_0 [simp]: "get_bits lo k 0 = 0"
  by (simp add: get_bits_def)

lemma clear_tables_lookup:
  "n \<le> 2 ^ 32 \<Longrightarrow> page_directory (clear_tables n s) i = (if unat i < n then 0 else page_directory s i)"
  "n \<le> 2 ^ 32 \<Longrightarrow> page_table (clear_tables n s) i = (if unat i < n then 0 else page_table s i)"
  by (induction n) (auto simp: Let_def less_Suc_eq unat_of_nat_u32 dest: sym)

lemma clear_tables_shape: "\<exists>d t. clear_tables n s = s\<lparr>page_directory := d, page_table := t\<rparr>"
proof (induction n)
  case 0
  show ?case by (rule exI [of _ "page_directory s"], rule exI [of _ "page_table s"]) simp
next
  case (Suc n)
  then obtain d t where "clear_tables n s = s\<lparr>page_directory := d, page_table := t\<rparr>" by blast
  then show ?case
    by (simp add: Let_def del: fun_upd_apply) (rule exI, rule exI, rule refl)
qed

lemma clear_tables_other [simp]:
  "user_video_page_table (clear_tables n s) = user_video_page_table s"
  "page_directory_addr (clear_tables n s) = page_directory_addr s"
  "page_table_addr (clear_tables n s) = page_table_addr s"
  "user_video_page_table_addr (clear_tables n s) = user_video_page_table_addr s"
  "cr0 (clear_tables n s) = cr0 s" "cr4 (clear_tables n s) = cr4 s"
  by (induction n) (simp_all add: Let_def)

subsection \<open>The mappings the kernel sets up\<close>

text \<open>The contents of the tables when process \<open>p\<close> (if any) is mapped, the video page stands for
  physical frame \<open>fr\<close>, and \<open>v\<close> says whether \<^verbatim>\<open>vidmap\<close> was called.\<close>

definition directory_entry :: "'a paging_scheme \<Rightarrow> u32 option \<Rightarrow> bool \<Rightarrow> u32 \<Rightarrow> u32" where
  "directory_entry s p v i =
     (if i = 0 then pde_word (drop_bit 12 (page_table_addr s)) 0 0 0
      else if i = 1 then pde_word 0x400 1 1 0
      else if i = 32 then (case p of None \<Rightarrow> 0 | Some pid \<Rightarrow> pde_word (0x800 + pid * 0x400) 1 0 1)
      else if i = 34 \<and> v then pde_word (drop_bit 12 (user_video_page_table_addr s)) 0 0 1 else 0)"

definition video_entry :: "u32 \<Rightarrow> u32 \<Rightarrow> u32" where
  "video_entry fr i = (if i = 0xB8 then pde_word fr 0 0 0
     else if i = 0xBA \<or> i = 0xBB \<or> i = 0xBC then pde_word i 0 0 0 else 0)"

definition video_frames :: "u32 set" where
  "video_frames = {0xB8, 0xBA, 0xBB, 0xBC}"

definition kernel_maps :: "u32 option \<Rightarrow> bool \<Rightarrow> u32 \<Rightarrow> 'a paging_scheme \<Rightarrow> bool" where
  "kernel_maps p v fr s \<longleftrightarrow> layout_ok s \<and> fr \<in> video_frames \<and>
     (\<forall>i < 1024. page_directory s i = directory_entry s p v i) \<and>
     (\<forall>i < 1024. page_table s i = video_entry fr i) \<and>
     (\<forall>i < 1024. user_video_page_table s i \<in> {0, if i = 0 then pde_word fr 0 0 1 else 0})"

lemma page_init_maps:
  assumes "layout_ok s"
    and "\<forall>i < 1024. user_video_page_table s i \<in> {0, if i = 0 then pde_word 0xB8 0 0 1 else 0}"
  shows "kernel_maps None False 0xB8 (page_init s) \<and> \<not> tlb_stale (page_init s) \<and>
    cr3 (page_init s) = page_directory_addr s"
  using assms
  by (auto simp: kernel_maps_def page_init_def Let_def set_crs_def set_pde_def set_pte_def
      clear_tables_lookup pde_fields_word pte_fields_word directory_entry_def video_entry_def
      layout_ok_def video_frames_def word_less_nat_alt)

lemma u32_less_6: "(pid :: u32) < 6 \<Longrightarrow> pid = 0 \<or> pid = 1 \<or> pid = 2 \<or> pid = 3 \<or> pid = 4 \<or> pid = 5"
proof -
  assume "pid < 6"
  then have "unat pid < 6" by (simp add: word_less_nat_alt)
  then have "unat pid = 0 \<or> unat pid = 1 \<or> unat pid = 2 \<or> unat pid = 3 \<or> unat pid = 4 \<or> unat pid = 5"
    by linarith
  moreover have "pid = of_nat (unat pid)" by simp
  ultimately show ?thesis by (elim disjE) (simp_all only:, simp_all)
qed

lemma process_frame:
  "(pid :: u32) < 6 \<Longrightarrow> drop_bit 12 (0x800000 + pid * 0x400000) = 0x800 + pid * 0x400"
  by (drule u32_less_6) (elim disjE, simp_all)

lemma map_process_maps:
  "kernel_maps p v fr s \<Longrightarrow> pid < 6 \<Longrightarrow> kernel_maps (Some pid) v fr (map_process pid s)"
  by (auto simp: kernel_maps_def map_process_def flush_tlb_def set_pde_def pde_fields_word
      process_frame directory_entry_def layout_ok_def)

lemma map_user_video_maps:
  "kernel_maps p v fr s \<Longrightarrow> kernel_maps p True fr (map_user_video s)"
  by (auto simp: kernel_maps_def map_user_video_def flush_tlb_def set_pde_def pde_fields_word
      directory_entry_def layout_ok_def)

subsection \<open>What the processor sees\<close>

lemma bit_below: "take_bit b k = (k :: u32) \<Longrightarrow> bit k n \<Longrightarrow> n < b"
  by (metis bit_take_bit_iff)

lemma drop_bit_frame:
  "take_bit 10 k = k \<Longrightarrow> drop_bit 22 (push_bit 22 k OR take_bit 22 va) = (k :: u32)"
  "take_bit 20 k = k \<Longrightarrow> drop_bit 12 (push_bit 12 k OR take_bit 12 va) = (k :: u32)"
  by (rule bit_word_eqI, auto simp: bit_simps dest: bit_below)+

lemma frame_offset:
  "push_bit 22 (drop_bit 22 va) OR take_bit 22 va = (va :: u32)"
  "push_bit 12 (drop_bit 12 va) OR take_bit 12 va = (va :: u32)"
  by (rule bit_word_eqI, auto simp: bit_simps)+

lemma directory_index: "drop_bit 22 (va :: u32) < 1024"
proof -
  have "unat (drop_bit 22 va) = unat va div 2 ^ 22" by (simp only: unat_drop_bit_eq) (simp only: drop_bit_eq_div)
  also have "\<dots> < 2 ^ 10" by (rule less_mult_imp_div_less) simp
  finally show ?thesis by (simp only: word_less_nat_alt) simp
qed

lemma table_index: "take_bit 10 (va :: u32) < 1024"
proof -
  have "unat (take_bit 10 va) = unat va mod 2 ^ 10" by (simp only: unsigned_take_bit_eq) (simp only: take_bit_eq_mod)
  also have "\<dots> < 2 ^ 10" by simp
  finally show ?thesis by (simp only: word_less_nat_alt) simp
qed

lemma aligned_base:
  assumes "take_bit 12 a = 0"
  shows "push_bit 12 (take_bit 20 (drop_bit 12 a)) = (a :: u32)"
proof (rule bit_word_eqI)
  fix n assume n: "n < LENGTH(32)"
  have "\<not> bit (take_bit 12 a) n" by (simp add: assms)
  then have "\<not> bit a n" if "n < 12" using that by (simp add: bit_take_bit_iff)
  with n show "bit (push_bit 12 (take_bit 20 (drop_bit 12 a))) n = bit a n"
    by (cases "n < 12") (auto simp: bit_simps)
qed

lemma process_frame_number:
  "(pid :: u32) < 6 \<Longrightarrow> drop_bit 10 (take_bit 20 (0x800 + pid * 0x400)) = 2 + pid"
  "(pid :: u32) < 6 \<Longrightarrow> take_bit 10 (2 + pid) = 2 + pid"
  by (drule u32_less_6, elim disjE, simp_all)+

lemma video_frame_number: "fr \<in> video_frames \<Longrightarrow> take_bit 20 fr = fr"
  by (auto simp: video_frames_def)

text \<open>The complete address map: supervisor and user view.\<close>

lemma walk_kernel_maps:
  assumes "kernel_maps p v fr s" and "\<And>pid. p = Some pid \<Longrightarrow> pid < 6"
  shows "walk user s va =
    (let d = drop_bit 22 va; t = take_bit 10 (drop_bit 12 va)
     in if d = 0 then
          (if user then None
           else if t = 0xB8 then Some (push_bit 12 fr OR take_bit 12 va)
           else if t = 0xBA \<or> t = 0xBB \<or> t = 0xBC then Some (push_bit 12 t OR take_bit 12 va)
           else None)
        else if d = 1 then (if user then None else Some va)
        else if d = 32 then map_option (\<lambda>pid. push_bit 22 (2 + pid) OR take_bit 22 va) p
        else if d = 34 \<and> v \<and> t = 0 \<and> user_video_page_table s 0 \<noteq> 0
          then Some (push_bit 12 fr OR take_bit 12 va)
        else None)"
proof -
  define d t where "d = drop_bit 22 va" and "t = take_bit 10 (drop_bit 12 va)"
  have d: "d < 1024" and t: "t < 1024" unfolding d_def t_def by (rule directory_index, rule table_index)
  have lay: "layout_ok s" and fr: "fr \<in> video_frames" using assms(1) by (simp_all add: kernel_maps_def)
  have dir: "page_directory s d = directory_entry s p v d"
    using assms(1) d by (simp add: kernel_maps_def)
  have tab: "page_table s t = video_entry fr t"
    using assms(1) t by (simp add: kernel_maps_def)
  have user: "user_video_page_table s t = 0 \<or> t = 0 \<and> user_video_page_table s t = pde_word fr 0 0 1"
    using assms(1) t by (auto simp: kernel_maps_def split: if_splits)
  have nz: "pde_word fr 0 0 1 \<noteq> 0"
    by (metis get_bits_0 pde_word_bits(1) zero_neq_one)
  consider "d = 0" | "d = 1" | "d = 32" | "d = 34" | "d \<notin> {0, 1, 32, 34}" by blast
  then show ?thesis
  proof cases
    case 1
    with dir have pde: "page_directory s 0 = pde_word (drop_bit 12 (page_table_addr s)) 0 0 0"
      by (simp add: directory_entry_def)
    have "table_at s (push_bit 12 (take_bit 20 (drop_bit 12 (page_table_addr s)))) = Some (page_table s)"
      using lay by (simp add: table_at_def layout_ok_def aligned_base)
    then have tbl: "table_at s (push_bit 12 (get_bits 12 20 (page_directory s d))) = Some (page_table s)"
      using 1 pde by simp
    have pte: "page_table s t = (if t = 0xB8 then pde_word fr 0 0 0
        else if t = 0xBA \<or> t = 0xBB \<or> t = 0xBC then pde_word t 0 0 0 else 0)"
      using tab by (simp only: video_entry_def)
    have "take_bit 20 t = t" if "t = 0xBA \<or> t = 0xBB \<or> t = 0xBC" using that by auto
    then show ?thesis
      unfolding walk_def Let_def d_def [symmetric] t_def [symmetric] tbl option.case pte
      using 1 pde video_frame_number [OF fr] by simp
  next
    case 2
    with dir have "page_directory s 1 = pde_word 0x400 1 1 0" by (simp add: directory_entry_def)
    moreover have "push_bit 22 1 OR take_bit 22 va = va" using 2 frame_offset(1) [of va] by (simp add: d_def)
    ultimately show ?thesis using 2
      unfolding walk_def Let_def d_def [symmetric] t_def [symmetric] by simp
  next
    case 3
    with dir have "page_directory s 32 = (case p of None \<Rightarrow> 0 | Some pid \<Rightarrow> pde_word (0x800 + pid * 0x400) 1 0 1)"
      by (simp add: directory_entry_def)
    with 3 assms(2) show ?thesis
      unfolding walk_def Let_def d_def [symmetric] t_def [symmetric]
      by (auto simp: process_frame_number split: option.splits)
  next
    case 4
    have pde: "page_directory s 34 =
        (if v then pde_word (drop_bit 12 (user_video_page_table_addr s)) 0 0 1 else 0)"
      using dir 4 by (simp add: directory_entry_def)
    have "table_at s (push_bit 12 (take_bit 20 (drop_bit 12 (user_video_page_table_addr s)))) =
        Some (user_video_page_table s)"
      using lay by (auto simp: table_at_def layout_ok_def aligned_base)
    with 4 pde user nz fr show ?thesis
      unfolding walk_def Let_def d_def [symmetric] t_def [symmetric]
      by (auto simp: video_frame_number)
  next
    case 5
    with dir have "page_directory s d = 0" by (simp add: directory_entry_def)
    with 5 show ?thesis
      unfolding walk_def Let_def d_def [symmetric] t_def [symmetric] by simp
  qed
qed


definition boot_paging :: paging where
  "boot_paging = \<lparr>page_directory = \<lambda>_. 0, page_table = \<lambda>_. 0, user_video_page_table = \<lambda>_. 0,
     page_directory_addr = 0x410000, page_table_addr = 0x411000, user_video_page_table_addr = 0x412000,
     cr0 = 0, cr3 = 0, cr4 = 0, tlb_stale = False\<rparr>"

lemma boot_paging_maps: "kernel_maps None False 0xB8 (page_init boot_paging)"
  using page_init_maps [of boot_paging] by (simp add: boot_paging_def layout_ok_def)


text \<open>Each process has its own memory.  The same user address under two processes is
  translated to different physical addresses, while the kernel page is translated to itself
  under both.\<close>

theorem process_frames_disjoint:
  assumes "kernel_maps p v fr s" and "pid < 6" and "pid' < 6" and "pid \<noteq> pid'"
    and "drop_bit 22 va = 32" and "drop_bit 22 va' = 32" and "drop_bit 22 ka = 1"
  shows "\<exists>pa pa'. translate (map_process pid s) va = Some pa \<and>
    translate (map_process pid' s) va' = Some pa' \<and> pa \<noteq> pa' \<and>
    drop_bit 22 pa \<noteq> 1 \<and> translate (map_process pid s) ka = Some ka"
proof -
  note maps = map_process_maps [OF assms(1,2)] map_process_maps [OF assms(1,3)]
  let ?pa = "push_bit 22 (2 + pid) OR take_bit 22 va"
  let ?pa' = "push_bit 22 (2 + pid') OR take_bit 22 va'"
  have d: "drop_bit 22 ?pa = 2 + pid" "drop_bit 22 ?pa' = 2 + pid'"
    using assms(2,3) by (simp_all add: drop_bit_frame process_frame_number del: drop_bit_or)
  then have "?pa \<noteq> ?pa'" using assms(4) by (metis add_left_cancel)
  moreover have "2 + pid \<noteq> 1"
    using u32_less_6 [OF assms(2)] by auto
  ultimately show ?thesis
    using walk_kernel_maps [OF maps(1), of False va] walk_kernel_maps [OF maps(2), of False va']
      walk_kernel_maps [OF maps(1), of False ka] assms d by (simp del: drop_bit_or)
qed

theorem process_frames_disjoint_witness:
  "\<exists>pa pa'. translate (map_process 0 (page_init boot_paging)) 0x8048000 = Some pa \<and>
    translate (map_process 5 (page_init boot_paging)) 0x83FFFFC = Some pa' \<and> pa \<noteq> pa' \<and>
    translate (map_process 0 (page_init boot_paging)) 0x401234 = Some 0x401234"
  using process_frames_disjoint [OF boot_paging_maps, of 0 5 "0x8048000" "0x83FFFFC" "0x401234"] by auto

end
