(* ===== verification/Devices.thy ===== *)
theory Devices
  imports Paging
begin

text \<open>
  Port input and output (\<^verbatim>\<open>lib.h\<close>), the interrupt controller (\<^verbatim>\<open>i8259.c\<close>), the text cursor
  (\<^verbatim>\<open>cursor.c\<close>) and the initialisation of the timer (\<^verbatim>\<open>pit_init\<close> of \<^verbatim>\<open>pit.c\<close>), all under
  \<^verbatim>\<open>mp3/student-distrib\<close>.  The state keeps a log of every port access, the most recent one
  first.  What a device answers on a read is a function of that log and the port, the field
  \<open>port_reply\<close>: it stands for the hardware, and a property that depends on a device states the
  documented behaviour of the device as a hypothesis on it.
\<close>

subsection \<open>Ports\<close>

datatype port_access = Out u16 u8 | In u16

record devices = paging +
  io :: "port_access list"
  port_reply :: "port_access list \<Rightarrow> u16 \<Rightarrow> u8"
  interrupts_on :: bool
  master_mask :: u8
  slave_mask :: u8

definition outb :: "u8 \<Rightarrow> u16 \<Rightarrow> 'a devices_scheme \<Rightarrow> 'a devices_scheme" where
  "outb data port s = s\<lparr>io := Out port data # io s\<rparr>"

definition inb :: "u16 \<Rightarrow> 'a devices_scheme \<Rightarrow> u8 \<times> 'a devices_scheme" where
  "inb port s = (port_reply s (io s) port, s\<lparr>io := In port # io s\<rparr>)"

definition cli :: "'a devices_scheme \<Rightarrow> 'a devices_scheme" where
  "cli s = s\<lparr>interrupts_on := False\<rparr>"

definition sti :: "'a devices_scheme \<Rightarrow> 'a devices_scheme" where
  "sti s = s\<lparr>interrupts_on := True\<rparr>"

subsection \<open>Interrupt controller\<close>

abbreviation MASTER_8259_PORT :: u16 where "MASTER_8259_PORT \<equiv> 0x20"
abbreviation SLAVE_8259_PORT :: u16 where "SLAVE_8259_PORT \<equiv> 0xA0"
abbreviation EOI :: u8 where "EOI \<equiv> 0x60"

definition enable_irq :: "u32 \<Rightarrow> 'a devices_scheme \<Rightarrow> 'a devices_scheme" where
  "enable_irq irq_num s =
     (if irq_num > 15 then s
      else
        let s = (if irq_num < 8
                 then s\<lparr>master_mask := master_mask s AND NOT (push_bit (unat irq_num) 1)\<rparr>
                 else s\<lparr>slave_mask := slave_mask s AND NOT (push_bit (unat (irq_num - 8)) 1)\<rparr>);
            s = outb (master_mask s) (MASTER_8259_PORT + 1) s
        in outb (slave_mask s) (SLAVE_8259_PORT + 1) s)"

definition disable_irq :: "u32 \<Rightarrow> 'a devices_scheme \<Rightarrow> 'a devices_scheme" where
  "disable_irq irq_num s =
     (if irq_num > 15 then s
      else
        let s = (if irq_num < 8
                 then s\<lparr>master_mask := master_mask s OR push_bit (unat irq_num) 1\<rparr>
                 else s\<lparr>slave_mask := slave_mask s OR push_bit (unat (irq_num - 8)) 1\<rparr>);
            s = outb (master_mask s) (MASTER_8259_PORT + 1) s
        in outb (slave_mask s) (SLAVE_8259_PORT + 1) s)"

definition send_eoi :: "u32 \<Rightarrow> 'a devices_scheme \<Rightarrow> 'a devices_scheme" where
  "send_eoi irq_num s =
     (if irq_num > 15 then s
      else if irq_num < 8 then outb (EOI OR ucast irq_num) MASTER_8259_PORT s
      else
        let s = outb (EOI OR ucast (irq_num - 8)) SLAVE_8259_PORT s
        in outb (EOI OR 2) MASTER_8259_PORT s)"

definition i8259_init :: "'a devices_scheme \<Rightarrow> 'a devices_scheme" where
  "i8259_init s =
     (let s = outb 0xFF (MASTER_8259_PORT + 1) s;
          s = outb 0xFF (SLAVE_8259_PORT + 1) s;
          s = outb 0x11 MASTER_8259_PORT s;
          s = outb 0x11 SLAVE_8259_PORT s;
          s = outb 0x20 (MASTER_8259_PORT + 1) s;
          s = outb 0x28 (SLAVE_8259_PORT + 1) s;
          s = outb 0x04 (MASTER_8259_PORT + 1) s;
          s = outb 0x02 (SLAVE_8259_PORT + 1) s;
          s = outb 0x01 (MASTER_8259_PORT + 1) s;
          s = outb 0x01 (SLAVE_8259_PORT + 1) s
      in enable_irq 2 (s\<lparr>master_mask := 0xFF, slave_mask := 0xFF\<rparr>))"

subsection \<open>Cursor\<close>

definition enable_cursor :: "u8 \<Rightarrow> u8 \<Rightarrow> 'a devices_scheme \<Rightarrow> 'a devices_scheme" where
  "enable_cursor cursor_start cursor_end s =
     (let s = outb 0x0A 0x3D4 s;
          (v, s) = inb 0x3D5 s;
          s = outb ((v AND 0xC0) OR cursor_start) 0x3D5 s;
          s = outb 0x0B 0x3D4 s;
          (v, s) = inb 0x3D5 s
      in outb ((v AND 0xE0) OR cursor_end) 0x3D5 s)"

definition disable_cursor :: "'a devices_scheme \<Rightarrow> 'a devices_scheme" where
  "disable_cursor s = outb 0x20 0x3D5 (outb 0x0A 0x3D4 s)"

definition update_cursor :: "int \<Rightarrow> int \<Rightarrow> 'a devices_scheme \<Rightarrow> 'a devices_scheme" where
  "update_cursor x y s =
     (let pos = word_of_int (y * 80 + x) :: u16;
          s = outb 0x0F 0x3D4 s;
          s = outb (ucast (pos AND 0xFF)) 0x3D5 s;
          s = outb 0x0E 0x3D4 s
      in outb (ucast (drop_bit 8 pos AND 0xFF)) 0x3D5 s)"

definition get_cursor_position :: "'a devices_scheme \<Rightarrow> u16 \<times> 'a devices_scheme" where
  "get_cursor_position s =
     (let pos = 0;
          s = outb 0x0F 0x3D4 s;
          (v, s) = inb 0x3D5 s;
          pos = pos OR ucast v;
          s = outb 0x0E 0x3D4 s;
          (v, s) = inb 0x3D5 s
      in (pos OR push_bit 8 (ucast v), s))"

subsection \<open>Timer initialisation\<close>

definition pit_init :: "'a devices_scheme \<Rightarrow> 'a devices_scheme" where
  "pit_init s =
     (let s = outb 0x37 0x43 s;
          s = outb 0x9C 0x40 s;
          s = outb 0x2E 0x40 s
      in enable_irq 0 s)"

subsection \<open>Which interrupt lines are open\<close>

definition irq_open :: "'a devices_scheme \<Rightarrow> nat \<Rightarrow> bool" where
  "irq_open s k \<longleftrightarrow> k < 16 \<and>
     \<not> (if k < 8 then bit (master_mask s) k else bit (slave_mask s) (k - 8))"

lemma irq_open_enable:
  "irq_open (enable_irq n s) k \<longleftrightarrow> irq_open s k \<or> (n \<le> 15 \<and> k = unat n)"
proof (cases "n \<le> 15")
  case True
  then have n: "unat n \<le> 15" by (simp add: word_le_nat_alt)
  have minus: "\<not> n < 8 \<Longrightarrow> unat (n - 8) = unat n - 8"
    by (simp add: unat_sub word_less_nat_alt word_le_nat_alt)
  have lt: "n < 8 \<longleftrightarrow> unat n < 8" by (simp add: word_less_nat_alt)
  show ?thesis
  proof (cases "n < 8")
    case low: True
    with True n lt show ?thesis
      by (auto simp: irq_open_def enable_irq_def outb_def Let_def not_le bit_simps dest: leD)
  next
    case False
    with True n lt minus show ?thesis
      by (auto simp: irq_open_def enable_irq_def outb_def Let_def not_le bit_simps dest: leD)
  qed
next
  case False
  then show ?thesis by (auto simp: irq_open_def enable_irq_def not_le)
qed

lemma irq_open_disable:
  "irq_open (disable_irq n s) k \<longleftrightarrow> irq_open s k \<and> \<not> (n \<le> 15 \<and> k = unat n)"
proof (cases "n \<le> 15")
  case True
  then have n: "unat n \<le> 15" by (simp add: word_le_nat_alt)
  have minus: "\<not> n < 8 \<Longrightarrow> unat (n - 8) = unat n - 8"
    by (simp add: unat_sub word_less_nat_alt word_le_nat_alt)
  have lt: "n < 8 \<longleftrightarrow> unat n < 8" by (simp add: word_less_nat_alt)
  show ?thesis
  proof (cases "n < 8")
    case low: True
    with True n lt show ?thesis
      by (auto simp: irq_open_def disable_irq_def outb_def Let_def not_le bit_simps dest: leD)
  next
    case False
    with True n lt minus show ?thesis
      by (auto simp: irq_open_def disable_irq_def outb_def Let_def not_le bit_simps dest: leD)
  qed
next
  case False
  then show ?thesis by (auto simp: irq_open_def disable_irq_def not_le)
qed

text \<open>The contract of an interrupt controller: opening and closing a line changes that line and
  no other, and numbers without a line are ignored.\<close>

locale irq_lines =
  fixes enable :: "u32 \<Rightarrow> 's \<Rightarrow> 's" and disable :: "u32 \<Rightarrow> 's \<Rightarrow> 's" and opened :: "'s \<Rightarrow> nat \<Rightarrow> bool"
  assumes enable_law: "opened (enable n s) k \<longleftrightarrow> opened s k \<or> (n \<le> 15 \<and> k = unat n)"
    and disable_law: "opened (disable n s) k \<longleftrightarrow> opened s k \<and> \<not> (n \<le> 15 \<and> k = unat n)"
begin

lemma enable_all:
  "opened (fold enable ns s) k \<longleftrightarrow> opened s k \<or> (\<exists>n \<in> set ns. n \<le> 15 \<and> k = unat n)"
  by (induction ns arbitrary: s) (auto simp: enable_law)

lemma disable_enable: "opened (disable n (enable n s)) k \<longleftrightarrow> opened (disable n s) k"
  by (auto simp: enable_law disable_law)

lemma enable_disable: "n \<le> 15 \<Longrightarrow> opened (enable n (disable n s)) (unat n)"
  by (simp add: enable_law)

end

interpretation pic: irq_lines enable_irq disable_irq irq_open
  by unfold_locales (rule irq_open_enable, rule irq_open_disable)

text \<open>The byte last written to a port.\<close>

fun last_out :: "port_access list \<Rightarrow> u16 \<Rightarrow> u8 option" where
  "last_out [] p = None"
| "last_out (Out q v # l) p = (if q = p then Some v else last_out l p)"
| "last_out (In q # l) p = last_out l p"

text \<open>The masks in memory are the masks the controllers were sent.\<close>

definition pic_synced :: "'a devices_scheme \<Rightarrow> bool" where
  "pic_synced s \<longleftrightarrow> last_out (io s) 0x21 = Some (master_mask s) \<and>
     last_out (io s) 0xA1 = Some (slave_mask s)"

lemma enable_irq_synced: "pic_synced s \<or> n \<le> 15 \<Longrightarrow> pic_synced (enable_irq n s)"
  by (auto simp: pic_synced_def enable_irq_def outb_def Let_def)

lemma disable_irq_synced: "pic_synced s \<or> n \<le> 15 \<Longrightarrow> pic_synced (disable_irq n s)"
  by (auto simp: pic_synced_def disable_irq_def outb_def Let_def)

lemma send_eoi_synced: "pic_synced s \<Longrightarrow> pic_synced (send_eoi n s)"
  by (auto simp: pic_synced_def send_eoi_def outb_def Let_def)

lemma send_eoi_masks [simp]: "irq_open (send_eoi n s) = irq_open s"
  by (auto simp: irq_open_def send_eoi_def outb_def Let_def fun_eq_iff)

lemma bit_FF: "bit (0xFF :: u8) n \<longleftrightarrow> n < 8"
proof -
  have m: "(0xFF :: u8) = mask 8" by (simp add: mask_eq_decr_exp)
  show ?thesis by (simp only: m bit_mask_iff) simp
qed

lemma i8259_init_open: "irq_open (i8259_init s) k \<longleftrightarrow> k = 2"
proof -
  have "\<not> irq_open (s\<lparr>master_mask := 0xFF, slave_mask := 0xFF\<rparr>) k" for s :: "'a devices_scheme" and k
    using bit_FF [of k] bit_FF [of "k - 8"] by (auto simp: irq_open_def)
  then show ?thesis by (simp add: i8259_init_def Let_def irq_open_enable)
qed

text \<open>The interrupt controller.  After initialisation only the cascade line 2 is open;
  enabling and disabling a line changes exactly that line, lines above 15 are ignored, and the
  masks last sent to the two controllers are always the masks kept in memory.\<close>

theorem pic_correct:
  "irq_open (i8259_init s) k = (k = 2) \<and> pic_synced (i8259_init s) \<and>
   irq_open (enable_irq n s) k = (irq_open s k \<or> (n \<le> 15 \<and> k = unat n)) \<and>
   irq_open (disable_irq n s) k = (irq_open s k \<and> \<not> (n \<le> 15 \<and> k = unat n)) \<and>
   pic_synced (enable_irq n (i8259_init s)) \<and> pic_synced (disable_irq n (i8259_init s))"
proof -
  have "pic_synced (i8259_init s)" by (simp add: i8259_init_def Let_def enable_irq_synced)
  then show ?thesis
    by (auto simp: i8259_init_open pic.enable_law pic.disable_law enable_irq_synced disable_irq_synced
        not_le)
qed

subsection \<open>The cursor registers\<close>

text \<open>The display controller as documented: a byte written to 0x3D4 selects a register, a byte
  written to 0x3D5 goes to the selected register, and a read of 0x3D5 returns it.\<close>

fun crtc_index :: "port_access list \<Rightarrow> u8" where
  "crtc_index [] = 0"
| "crtc_index (Out p v # l) = (if p = 0x3D4 then v else crtc_index l)"
| "crtc_index (In p # l) = crtc_index l"

fun crtc_reg :: "port_access list \<Rightarrow> u8 \<Rightarrow> u8" where
  "crtc_reg [] i = 0"
| "crtc_reg (Out p v # l) i = (if p = 0x3D5 \<and> crtc_index l = i then v else crtc_reg l i)"
| "crtc_reg (In p # l) i = crtc_reg l i"

definition crtc_device :: "'a devices_scheme \<Rightarrow> bool" where
  "crtc_device s \<longleftrightarrow> (\<forall>l. port_reply s l 0x3D5 = crtc_reg l (crtc_index l))"

lemma join_bytes: "(ucast (ucast (w AND 0xFF) :: u8) OR push_bit 8 (ucast (ucast (drop_bit 8 w AND 0xFF) :: u8)) :: u16) = w"
proof (rule bit_word_eqI)
  fix n assume n: "n < LENGTH(16)"
  have m: "(0xFF :: u16) = mask 8" by (simp add: mask_eq_decr_exp)
  show "bit (ucast (ucast (w AND 0xFF) :: u8) OR
      push_bit 8 (ucast (ucast (drop_bit 8 w AND 0xFF) :: u8)) :: u16) n = bit w n"
    using n by (cases "n < 8") (auto simp: m bit_simps)
qed

text \<open>A cursor position survives the trip through the display controller: what
  \<^verbatim>\<open>get_cursor_position\<close> reads after \<^verbatim>\<open>update_cursor x y\<close> is \<open>80 * y + x\<close> in 16 bits, and
  exactly that number for every position on the screen.\<close>

theorem cursor_round_trip:
  assumes "crtc_device s"
  shows "fst (get_cursor_position (update_cursor x y s)) = word_of_int (y * 80 + x) \<and>
    (0 \<le> x \<and> x \<le> 80 \<and> 0 \<le> y \<and> y \<le> 25 \<longrightarrow>
       uint (fst (get_cursor_position (update_cursor x y s))) = y * 80 + x)"
proof -
  have "fst (get_cursor_position (update_cursor x y s)) = word_of_int (y * 80 + x)"
    using assms
    by (simp add: get_cursor_position_def update_cursor_def inb_def outb_def Let_def crtc_device_def join_bytes)
  moreover have "0 \<le> k \<and> k < 2 ^ 16 \<Longrightarrow> uint (word_of_int k :: u16) = k" for k
    by (simp add: unsigned_of_int take_bit_int_eq_self)
  moreover have "0 \<le> y * 80 + x \<and> y * 80 + x < 2 ^ 16" if "0 \<le> x \<and> x \<le> 80 \<and> 0 \<le> y \<and> y \<le> 25"
    using that by auto
  ultimately show ?thesis by presburger
qed

definition reset_devices :: devices where
  "reset_devices = \<lparr>page_directory = \<lambda>_. 0, page_table = \<lambda>_. 0, user_video_page_table = \<lambda>_. 0,
     page_directory_addr = 0x410000, page_table_addr = 0x411000, user_video_page_table_addr = 0x412000,
     cr0 = 0, cr3 = 0, cr4 = 0, tlb_stale = False, io = [],
     port_reply = \<lambda>l p. if p = 0x3D5 then crtc_reg l (crtc_index l) else 0,
     interrupts_on = False, master_mask = 0, slave_mask = 0\<rparr>"

theorem cursor_round_trip_witness:
  "uint (fst (get_cursor_position (update_cursor 79 24 reset_devices))) = 1999"
proof -
  have "crtc_device reset_devices" by (simp add: crtc_device_def reset_devices_def)
  from cursor_round_trip [OF this, of 79 24] show ?thesis by simp
qed

end
