(* ===== verification/Lib_Memory.thy ===== *)
theory Lib_Memory
  imports Prelude
begin

text \<open>
  The memory routines of \<^verbatim>\<open>mp3/student-distrib/lib.c\<close>: \<^verbatim>\<open>memset\<close>, \<^verbatim>\<open>memset_word\<close>,
  \<^verbatim>\<open>memset_dword\<close>, \<^verbatim>\<open>memcpy\<close> and \<^verbatim>\<open>memmove\<close>.  They are inline assembly: each
  label of the source is one function here, its parameters are the registers the block uses,
  and \<^verbatim>\<open>rep\<close>-prefixed string instructions are loops on \<open>ecx\<close>.  The theorems compare each
  routine with the byte run it should leave in memory, for every alignment of the
  destination, and say for which overlaps of source and destination that holds.
\<close>

subsection \<open>String instructions\<close>

text \<open>\<^verbatim>\<open>stosl\<close>, \<^verbatim>\<open>stosw\<close> and \<^verbatim>\<open>movsl\<close> with the direction flag clear: one element
  is read completely before it is written.\<close>

definition stosl :: "mem \<Rightarrow> u32 \<Rightarrow> u32 \<Rightarrow> mem" where
  "stosl m edi eax = write_bytes m edi (bytes32 eax)"

definition stosw :: "mem \<Rightarrow> u32 \<Rightarrow> u32 \<Rightarrow> mem" where
  "stosw m edi eax = write_bytes m edi (bytes16 (ucast eax))"

definition movsl :: "mem \<Rightarrow> u32 \<Rightarrow> u32 \<Rightarrow> mem" where
  "movsl m esi edi = write_bytes m edi (read_bytes m esi 4)"

function rep_stosl :: "mem \<Rightarrow> u32 \<Rightarrow> u32 \<Rightarrow> u32 \<Rightarrow> mem \<times> u32" where
  "rep_stosl m eax edi ecx =
     (if ecx = 0 then (m, edi) else rep_stosl (stosl m edi eax) eax (edi + 4) (ecx - 1))"
  by pat_completeness auto
termination
  by (relation "measure (\<lambda>(m, eax, edi, ecx). unat ecx)") (auto simp: unat_gt_0)

function rep_stosw :: "mem \<Rightarrow> u32 \<Rightarrow> u32 \<Rightarrow> u32 \<Rightarrow> mem" where
  "rep_stosw m eax edi ecx =
     (if ecx = 0 then m else rep_stosw (stosw m edi eax) eax (edi + 2) (ecx - 1))"
  by pat_completeness auto
termination
  by (relation "measure (\<lambda>(m, eax, edi, ecx). unat ecx)") (auto simp: unat_gt_0)

function rep_movsl :: "mem \<Rightarrow> u32 \<Rightarrow> u32 \<Rightarrow> u32 \<Rightarrow> mem \<times> u32 \<times> u32" where
  "rep_movsl m esi edi ecx =
     (if ecx = 0 then (m, esi, edi)
      else rep_movsl (movsl m esi edi) (esi + 4) (edi + 4) (ecx - 1))"
  by pat_completeness auto
termination
  by (relation "measure (\<lambda>(m, esi, edi, ecx). unat ecx)") (auto simp: unat_gt_0)

text \<open>\<^verbatim>\<open>rep movsb\<close> upwards (direction flag clear) and downwards (after \<^verbatim>\<open>std\<close>).\<close>

function rep_movsb_up :: "mem \<Rightarrow> u32 \<Rightarrow> u32 \<Rightarrow> u32 \<Rightarrow> mem" where
  "rep_movsb_up m esi edi ecx =
     (if ecx = 0 then m
      else rep_movsb_up (m(edi := m esi)) (esi + 1) (edi + 1) (ecx - 1))"
  by pat_completeness auto
termination
  by (relation "measure (\<lambda>(m, esi, edi, ecx). unat ecx)") (auto simp: unat_gt_0)

function rep_movsb_down :: "mem \<Rightarrow> u32 \<Rightarrow> u32 \<Rightarrow> u32 \<Rightarrow> mem" where
  "rep_movsb_down m esi edi ecx =
     (if ecx = 0 then m
      else rep_movsb_down (m(edi := m esi)) (esi - 1) (edi - 1) (ecx - 1))"
  by pat_completeness auto
termination
  by (relation "measure (\<lambda>(m, esi, edi, ecx). unat ecx)") (auto simp: unat_gt_0)

declare rep_stosl.simps [simp del] rep_stosw.simps [simp del] rep_movsl.simps [simp del]
  rep_movsb_up.simps [simp del] rep_movsb_down.simps [simp del]

subsection \<open>\<^verbatim>\<open>memset\<close>\<close>

text \<open>The value passed in \<^verbatim>\<open>%eax\<close>: \<^verbatim>\<open>c &= 0xFF\<close> and then the byte in all four lanes.\<close>

definition memset_eax :: "u32 \<Rightarrow> u32" where
  "memset_eax c = (let c = c AND 0xFF
     in push_bit 24 c OR push_bit 16 c OR push_bit 8 c OR c)"

function memset_bottom :: "mem \<Rightarrow> u32 \<Rightarrow> u32 \<Rightarrow> u32 \<Rightarrow> mem" where
  "memset_bottom m eax edi edx =
     (if edx = 0 then m
      else memset_bottom (m(edi := ucast eax)) eax (edi + 1) (edx - 1))"
  by pat_completeness auto
termination
  by (relation "measure (\<lambda>(m, eax, edi, edx). unat edx)") (auto simp: unat_gt_0)

definition memset_aligned :: "mem \<Rightarrow> u32 \<Rightarrow> u32 \<Rightarrow> u32 \<Rightarrow> mem" where
  "memset_aligned m eax edi ecx =
     (let edx = ecx AND 3; (m, edi) = rep_stosl m eax edi (drop_bit 2 ecx)
      in memset_bottom m eax edi edx)"

function memset_top :: "mem \<Rightarrow> u32 \<Rightarrow> u32 \<Rightarrow> u32 \<Rightarrow> mem" where
  "memset_top m eax edi ecx =
     (if ecx = 0 then m
      else if edi AND 3 = 0 then memset_aligned m eax edi ecx
      else memset_top (m(edi := ucast eax)) eax (edi + 1) (ecx - 1))"
  by pat_completeness auto
termination
  by (relation "measure (\<lambda>(m, eax, edi, ecx). unat ecx)") (auto simp: unat_gt_0)

declare memset_bottom.simps [simp del] memset_top.simps [simp del]

definition memset :: "mem \<Rightarrow> u32 \<Rightarrow> u32 \<Rightarrow> u32 \<Rightarrow> mem" where
  "memset m s c n = memset_top m (memset_eax c) s n"

definition memset_word :: "mem \<Rightarrow> u32 \<Rightarrow> u32 \<Rightarrow> u32 \<Rightarrow> mem" where
  "memset_word m s c n = rep_stosw m c s n"

definition memset_dword :: "mem \<Rightarrow> u32 \<Rightarrow> u32 \<Rightarrow> u32 \<Rightarrow> mem" where
  "memset_dword m s c n = fst (rep_stosl m c s n)"

subsection \<open>\<^verbatim>\<open>memcpy\<close> and \<^verbatim>\<open>memmove\<close>\<close>

function memcpy_bottom :: "mem \<Rightarrow> u32 \<Rightarrow> u32 \<Rightarrow> u32 \<Rightarrow> mem" where
  "memcpy_bottom m esi edi edx =
     (if edx = 0 then m
      else memcpy_bottom (m(edi := m esi)) (esi + 1) (edi + 1) (edx - 1))"
  by pat_completeness auto
termination
  by (relation "measure (\<lambda>(m, esi, edi, edx). unat edx)") (auto simp: unat_gt_0)

definition memcpy_aligned :: "mem \<Rightarrow> u32 \<Rightarrow> u32 \<Rightarrow> u32 \<Rightarrow> mem" where
  "memcpy_aligned m esi edi ecx =
     (let edx = ecx AND 3; (m, esi, edi) = rep_movsl m esi edi (drop_bit 2 ecx)
      in memcpy_bottom m esi edi edx)"

function memcpy_top :: "mem \<Rightarrow> u32 \<Rightarrow> u32 \<Rightarrow> u32 \<Rightarrow> mem" where
  "memcpy_top m esi edi ecx =
     (if ecx = 0 then m
      else if edi AND 3 = 0 then memcpy_aligned m esi edi ecx
      else memcpy_top (m(edi := m esi)) (esi + 1) (edi + 1) (ecx - 1))"
  by pat_completeness auto
termination
  by (relation "measure (\<lambda>(m, esi, edi, ecx). unat ecx)") (auto simp: unat_gt_0)

declare memcpy_bottom.simps [simp del] memcpy_top.simps [simp del]

definition memcpy :: "mem \<Rightarrow> u32 \<Rightarrow> u32 \<Rightarrow> u32 \<Rightarrow> mem" where
  "memcpy m dest src n = memcpy_top m src dest n"

text \<open>\<^verbatim>\<open>cmp %edi, %esi; jae .memmove_go\<close> compares unsigned; the second component is the
  direction flag the routine returns with.\<close>

definition memmove :: "mem \<Rightarrow> u32 \<Rightarrow> u32 \<Rightarrow> u32 \<Rightarrow> mem \<times> bool" where
  "memmove m dest src n =
     (if src \<ge> dest then (rep_movsb_up m src dest n, False)
      else (rep_movsb_down m (src + n - 1) (dest + n - 1) n, True))"

subsection \<open>Byte by byte\<close>

text \<open>The reference for the copying routines: one byte at a time, upwards.\<close>

primrec bcopy :: "mem \<Rightarrow> u32 \<Rightarrow> u32 \<Rightarrow> nat \<Rightarrow> mem" where
  "bcopy m d s 0 = m"
| "bcopy m d s (Suc n) = bcopy (m(d := m s)) (d + 1) (s + 1) n"

lemma bcopy_add:
  "bcopy m d s (j + k) = bcopy (bcopy m d s j) (d + of_nat j) (s + of_nat j) k"
  by (induction j arbitrary: m d s) (simp_all add: ac_simps)

lemma Suc_eq_unatD: "Suc n = unat (x :: u32) \<Longrightarrow> x \<noteq> 0 \<and> n = unat (x - 1)"
  by (metis diff_Suc_1 nat.discI unat_0 unat_dec)

lemma rep_movsb_up_bcopy: "rep_movsb_up m esi edi ecx = bcopy m edi esi (unat ecx)"
proof (induction "unat ecx" arbitrary: m esi edi ecx)
  case 0
  then show ?case by (subst rep_movsb_up.simps) (simp add: unat_eq_zero)
next
  case (Suc n)
  from Suc.hyps(2) have "ecx \<noteq> 0" and n: "n = unat (ecx - 1)" by (auto dest: Suc_eq_unatD)
  then show ?case
    by (subst rep_movsb_up.simps) (simp add: Suc.hyps(1) [OF n] Suc.hyps(2) [symmetric] n [symmetric])
qed

lemma memcpy_bottom_bcopy: "memcpy_bottom m esi edi edx = bcopy m edi esi (unat edx)"
proof (induction "unat edx" arbitrary: m esi edi edx)
  case 0
  then show ?case by (subst memcpy_bottom.simps) (simp add: unat_eq_zero)
next
  case (Suc n)
  from Suc.hyps(2) have "edx \<noteq> 0" and n: "n = unat (edx - 1)" by (auto dest: Suc_eq_unatD)
  then show ?case
    by (subst memcpy_bottom.simps) (simp add: Suc.hyps(1) [OF n] Suc.hyps(2) [symmetric] n [symmetric])
qed

text \<open>A double word is moved as four bytes unless the destination starts one to three
  bytes above the source.\<close>

lemma movsl_bcopy:
  assumes "d - s \<notin> {1, 2, 3}"
  shows "movsl m s d = bcopy m d s 4"
proof -
  from assms have "d \<noteq> s + 1" "d \<noteq> s + 2" "d \<noteq> s + 3"
    by auto
  then have "s + 1 \<noteq> d" "s + 2 \<noteq> d" "s + 3 \<noteq> d" "s + 2 \<noteq> d + 1" "s + 3 \<noteq> d + 1" "s + 3 \<noteq> d + 2"
    by (auto simp: algebra_simps)
  then show ?thesis
    by (simp add: movsl_def read_bytes_def upt_rec numeral_eq_Suc add.assoc)
qed


lemma rep_movsl_bcopy:
  assumes "edi - esi \<notin> {1, 2, 3}"
  shows "rep_movsl m esi edi ecx = (bcopy m edi esi (4 * unat ecx), esi + 4 * ecx, edi + 4 * ecx)"
  using assms
proof (induction "unat ecx" arbitrary: m esi edi ecx)
  case 0
  then show ?case by (subst rep_movsl.simps) (simp add: unat_eq_zero)
next
  case (Suc n)
  from Suc.hyps(2) have nz: "ecx \<noteq> 0" and n: "n = unat (ecx - 1)" by (auto dest: Suc_eq_unatD)
  have inv: "(edi + 4) - (esi + 4) \<notin> {1, 2, 3}"
    using Suc.prems by simp
  have "4 * unat ecx = 4 + 4 * n"
    using Suc.hyps(2) by simp
  then have four: "bcopy m edi esi (4 * unat ecx) =
      bcopy (bcopy m edi esi 4) (edi + 4) (esi + 4) (4 * n)"
    by (simp add: bcopy_add)
  show ?case
    using nz by (subst rep_movsl.simps)
      (simp add: Suc.hyps(1) [OF n inv] movsl_bcopy [OF Suc.prems] four n [symmetric]
        right_diff_distrib add.assoc)
qed

lemma split_words: "4 * unat (drop_bit 2 (n :: u32)) + unat (n AND 3) = unat n"
proof -
  have "n AND 3 = n AND mask 2" by (simp add: mask_eq_exp_minus_1)
  then have "n AND 3 = n mod 4" by (simp flip: take_bit_eq_mask add: take_bit_eq_mod)
  then have "unat (n AND 3) = unat n mod 4" by (simp add: unat_mod)
  moreover have "unat (drop_bit 2 n) = unat n div 4"
    by (simp add: drop_bit_eq_div unat_div)
  ultimately show ?thesis by simp
qed

lemma memcpy_aligned_bcopy:
  assumes "unat ecx < 4 \<or> edi - esi \<notin> {1, 2, 3}"
  shows "memcpy_aligned m esi edi ecx = bcopy m edi esi (unat ecx)"
proof (cases "unat ecx < 4")
  case True
  then have "unat (drop_bit 2 ecx) = 0" and "unat (ecx AND 3) = unat ecx"
    using split_words [of ecx] by presburger+
  then have "drop_bit 2 ecx = 0" by (simp add: unat_eq_zero)
  with \<open>unat (ecx AND 3) = unat ecx\<close> show ?thesis
    by (simp add: memcpy_aligned_def rep_movsl.simps [of _ _ _ 0] memcpy_bottom_bcopy)
next
  case False
  with assms have no: "edi - esi \<notin> {1, 2, 3}" by simp
  have "memcpy_aligned m esi edi ecx =
      bcopy m edi esi (4 * unat (drop_bit 2 ecx) + unat (ecx AND 3))"
    by (simp add: memcpy_aligned_def rep_movsl_bcopy [OF no] memcpy_bottom_bcopy bcopy_add)
  then show ?thesis by (simp only: split_words)
qed

lemma memcpy_top_bcopy:
  assumes "unat ecx < 4 \<or> edi - esi \<notin> {1, 2, 3}"
  shows "memcpy_top m esi edi ecx = bcopy m edi esi (unat ecx)"
  using assms
proof (induction "unat ecx" arbitrary: m esi edi ecx)
  case 0
  then show ?case by (subst memcpy_top.simps) (simp add: unat_eq_zero)
next
  case (Suc n)
  from Suc.hyps(2) have nz: "ecx \<noteq> 0" and n: "n = unat (ecx - 1)" by (auto dest: Suc_eq_unatD)
  have inv: "unat (ecx - 1) < 4 \<or> (edi + 1) - (esi + 1) \<notin> {1, 2, 3}"
    using Suc.prems Suc.hyps(2) n by auto
  show ?case
    using nz by (subst memcpy_top.simps)
      (simp add: memcpy_aligned_bcopy [OF Suc.prems] Suc.hyps(1) [OF n inv]
        Suc.hyps(2) [symmetric] n [symmetric])
qed

subsection \<open>Copies as byte runs\<close>

text \<open>Upward copying reads each source byte before it is overwritten when the destination
  does not start inside the source run (or is the source itself).\<close>

definition copy_up_safe :: "u32 \<Rightarrow> u32 \<Rightarrow> nat \<Rightarrow> bool" where
  "copy_up_safe d s n \<longleftrightarrow> d = s \<or> n \<le> unat (d - s)"

lemma bcopy_apply:
  assumes "copy_up_safe d s n" and "n \<le> 2 ^ 32"
  shows "bcopy m d s n x = (if unat (x - d) < n then m (s + (x - d)) else m x)"
  using assms
proof (induction n arbitrary: x)
  case 0
  then show ?case by simp
next
  case (Suc n)
  have safe: "copy_up_safe d s n"
    using Suc.prems(1) by (auto simp: copy_up_safe_def)
  have step: "bcopy m d s (Suc n) = (bcopy m d s n)(d + of_nat n := bcopy m d s n (s + of_nat n))"
    using bcopy_add [of m d s n 1] by simp
  have src: "bcopy m d s n (s + of_nat n) = m (s + of_nat n)"
  proof (cases "d = s")
    case True
    then show ?thesis using Suc.IH [OF safe] Suc.prems(2) by (simp add: unat_of_nat_u32)
  next
    case False
    have "unat (s + of_nat n - d) \<ge> n"
    proof -
      have le: "Suc n \<le> unat (d - s)"
        using False Suc.prems(1) by (simp add: copy_up_safe_def)
      have eq: "s + of_nat n - d = of_nat n - (d - s)" by simp
      show ?thesis unfolding eq using le by (intro unat_of_nat_minus_wrap) simp
    qed
    then show ?thesis using Suc.IH [OF safe] Suc.prems(2) by simp
  qed
  show ?case
  proof (cases "x = d + of_nat n")
    case True
    then show ?thesis using step src Suc.prems(2) by (simp add: unat_of_nat_u32)
  next
    case False
    have "unat (x - d) \<noteq> n"
      using False Suc.prems(2) by (simp add: unat_diff_eq_iff)
    then have "unat (x - d) < Suc n \<longleftrightarrow> unat (x - d) < n" by (auto simp: less_Suc_eq)
    with False show ?thesis using step Suc.IH [OF safe] Suc.prems(2) by simp
  qed
qed

text \<open>What a copying routine leaves in memory.\<close>

definition copied :: "mem \<Rightarrow> u32 \<Rightarrow> u32 \<Rightarrow> nat \<Rightarrow> mem" where
  "copied m d s n = write_bytes m d (read_bytes m s n)"

lemma copied_apply:
  "n \<le> 2 ^ 32 \<Longrightarrow> copied m d s n x = (if unat (x - d) < n then m (s + (x - d)) else m x)"
  by (simp add: copied_def write_bytes_apply)

lemma bcopy_copied: "copy_up_safe d s n \<Longrightarrow> n \<le> 2 ^ 32 \<Longrightarrow> bcopy m d s n = copied m d s n"
  by (rule ext) (simp add: bcopy_apply copied_apply)

lemma rep_movsb_down_apply:
  assumes "n \<le> unat (s - d)" and "n < 2 ^ 32"
  shows "rep_movsb_down m (s + of_nat n - 1) (d + of_nat n - 1) (of_nat n) x =
    (if unat (x - d) < n then m (s + (x - d)) else m x)"
  using assms
proof (induction n arbitrary: m)
  case 0
  then show ?case by (subst rep_movsb_down.simps) simp
next
  case (Suc n)
  let ?m = "m(d + of_nat n := m (s + of_nat n))"
  have nz: "(of_nat (Suc n) :: u32) \<noteq> 0"
    using Suc.prems(2) of_nat_u32_eq_iff [of "Suc n" 0] by simp
  then have "rep_movsb_down m (s + of_nat (Suc n) - 1) (d + of_nat (Suc n) - 1) (of_nat (Suc n)) =
      rep_movsb_down ?m (s + of_nat n - 1) (d + of_nat n - 1) (of_nat n)"
    by (subst rep_movsb_down.simps) (simp add: algebra_simps)
  then have step: "rep_movsb_down m (s + of_nat (Suc n) - 1) (d + of_nat (Suc n) - 1) (of_nat (Suc n)) x =
      (if unat (x - d) < n then ?m (s + (x - d)) else ?m x)"
    using Suc by simp
  have far: "s + (x - d) \<noteq> d + of_nat n" if "unat (x - d) < n"
  proof
    assume "s + (x - d) = d + of_nat n"
    then have eq: "s - d = of_nat n - (x - d)" by (simp add: algebra_simps)
    have "unat (s - d) = n - unat (x - d)"
      unfolding eq using that Suc.prems(2) by (simp add: unat_of_nat_minus)
    then show False using Suc.prems(1) by simp
  qed
  have "unat (x - d) = n \<longleftrightarrow> x = d + of_nat n"
    using Suc.prems(2) by (intro unat_diff_eq_iff) simp
  with step far show ?case
    by (cases "unat (x - d) < n") (auto simp: less_Suc_eq)
qed

subsection \<open>The interface of a copying routine\<close>

text \<open>A client of \<^verbatim>\<open>memcpy\<close> or \<^verbatim>\<open>memmove\<close> relies on one law: under the routine's own
  condition \<open>ok\<close> on the two runs, the destination run becomes what the source run was and no
  other byte changes.  Consecutive copies then act as one.\<close>

locale byte_copier =
  fixes copy :: "mem \<Rightarrow> u32 \<Rightarrow> u32 \<Rightarrow> u32 \<Rightarrow> mem"
    and ok :: "u32 \<Rightarrow> u32 \<Rightarrow> nat \<Rightarrow> bool"
  assumes copy_run: "ok d s (unat n) \<Longrightarrow> copy m d s n = copied m d s (unat n)"
begin

lemma copy_read: "ok d s (unat n) \<Longrightarrow> read_bytes (copy m d s n) d (unat n) = read_bytes m s (unat n)"
proof (rule nth_equalityI)
  fix i assume "ok d s (unat n)" and "i < length (read_bytes (copy m d s n) d (unat n))"
  moreover from calculation have "i < 2 ^ 32" by (simp add: less_unat_u32)
  ultimately show "read_bytes (copy m d s n) d (unat n) ! i = read_bytes m s (unat n) ! i"
    by (simp add: copy_run copied_apply)
qed simp

lemma copy_frame: "ok d s (unat n) \<Longrightarrow> x \<notin> span d (unat n) \<Longrightarrow> copy m d s n x = m x"
  by (simp add: copy_run copied_apply)

text \<open>A copy that continues a finished run extends it.\<close>

lemma copy_extends:
  assumes "ok (d + of_nat (length bs)) s (unat n)"
    and "read_bytes (write_bytes m d bs) s (unat n) = cs"
  shows "copy (write_bytes m d bs) (d + of_nat (length bs)) s n = write_bytes m d (bs @ cs)"
  using assms by (simp add: copy_run copied_def write_bytes_append)

end

text \<open>When each routine's law applies: \<^verbatim>\<open>memcpy\<close> goes upwards, four bytes at a time on
  an aligned destination, so the destination must not start inside the source run;
  \<^verbatim>\<open>memmove\<close> chooses its direction, so only runs that wrap around the end of the address
  space are left out.\<close>

definition memmove_ok :: "u32 \<Rightarrow> u32 \<Rightarrow> nat \<Rightarrow> bool" where
  "memmove_ok d s n \<longleftrightarrow> unat d + n \<le> 2 ^ 32 \<and> unat s + n \<le> 2 ^ 32"

lemma copy_up_safe_words:
  "copy_up_safe d s n \<Longrightarrow> n < 4 \<or> d - s \<notin> {1, 2, 3}"
  by (auto simp: copy_up_safe_def)

lemma memcpy_copied:
  assumes "copy_up_safe d s (unat n)"
  shows "memcpy m d s n = copied m d s (unat n)"
  using assms copy_up_safe_words [OF assms]
  by (simp add: memcpy_def memcpy_top_bcopy bcopy_copied)

text \<open>Runs that share no address can be copied.\<close>

lemma apart_copy_up_safe:
  assumes "apart d n s n"
  shows "copy_up_safe d s n"
proof (rule ccontr)
  assume "\<not> copy_up_safe d s n"
  then have "d \<in> span s n" and "d \<in> span d n" by (auto simp: copy_up_safe_def)
  with assms show False unfolding apart_def by blast
qed

lemma memmove_copied:
  assumes "memmove_ok d s (unat n)"
  shows "fst (memmove m d s n) = copied m d s (unat n)"
proof (cases "d \<le> s")
  case True
  then have "copy_up_safe d s (unat n)"
    using assms unat_u32_less [of n]
    by (auto simp: copy_up_safe_def memmove_ok_def unat_sub_if' word_le_nat_alt unat_arith_simps)
  with True show ?thesis
    by (simp add: memmove_def rep_movsb_up_bcopy bcopy_copied)
next
  case False
  then have "unat n \<le> unat (s - d)"
    using assms by (auto simp: memmove_ok_def unat_sub_if' word_le_nat_alt not_le)
  then have "rep_movsb_down m (s + n - 1) (d + n - 1) n x =
      (if unat (x - d) < unat n then m (s + (x - d)) else m x)" for x
    using rep_movsb_down_apply [of "unat n" s d m x] by simp
  with False show ?thesis
    by (auto simp: memmove_def copied_apply fun_eq_iff)
qed

interpretation memcpy_copier: byte_copier memcpy copy_up_safe
  by unfold_locales (rule memcpy_copied)

interpretation memmove_copier: byte_copier "\<lambda>m d s n. fst (memmove m d s n)" memmove_ok
  by unfold_locales (rule memmove_copied)

subsection \<open>Filling\<close>

lemma memset_eax_bits:
  "memset_eax c = push_bit 24 (take_bit 8 c) OR push_bit 16 (take_bit 8 c)
     OR push_bit 8 (take_bit 8 c) OR take_bit 8 c"
  by (simp add: memset_eax_def take_bit_eq_mask mask_eq_exp_minus_1)

lemma memset_eax_lane:
  assumes "k \<in> {0, 8, 16, 24}"
  shows "(ucast (drop_bit k (memset_eax c)) :: u8) = ucast c"
proof (rule bit_word_eqI)
  fix i assume "i < LENGTH(8)"
  with assms consider "k = 0" | "k = 8" | "k = 16" | "k = 24" by auto
  then show "bit (ucast (drop_bit k (memset_eax c)) :: u8) i = bit (ucast c :: u8) i"
    using \<open>i < LENGTH(8)\<close> by cases (simp_all add: memset_eax_bits bit_simps)
qed

lemma memset_eax_lanes: "bytes32 (memset_eax c) = replicate 4 (ucast c)"
  using memset_eax_lane [of 0 c] memset_eax_lane [of 8 c] memset_eax_lane [of 16 c]
    memset_eax_lane [of 24 c]
  by (simp add: bytes32_def numeral_eq_Suc)

lemma memset_bottom_fill:
  "memset_bottom m eax edi edx = write_bytes m edi (replicate (unat edx) (ucast eax))"
proof (induction "unat edx" arbitrary: m edi edx)
  case 0
  then show ?case by (subst memset_bottom.simps) (simp add: unat_eq_zero)
next
  case (Suc n)
  from Suc.hyps(2) have "edx \<noteq> 0" and n: "n = unat (edx - 1)" by (auto dest: Suc_eq_unatD)
  then show ?case
    by (subst memset_bottom.simps) (simp add: Suc.hyps(1) [OF n] Suc.hyps(2) [symmetric] n [symmetric])
qed

lemma rep_stosl_fill:
  assumes "bytes32 eax = replicate 4 b"
  shows "rep_stosl m eax edi ecx =
    (write_bytes m edi (replicate (4 * unat ecx) b), edi + 4 * ecx)"
proof (induction "unat ecx" arbitrary: m edi ecx)
  case 0
  then show ?case by (subst rep_stosl.simps) (simp add: unat_eq_zero)
next
  case (Suc n)
  from Suc.hyps(2) have nz: "ecx \<noteq> 0" and n: "n = unat (ecx - 1)" by (auto dest: Suc_eq_unatD)
  have "4 * unat ecx = 4 + 4 * n" using Suc.hyps(2) by simp
  then have "replicate (4 * unat ecx) b = replicate 4 b @ replicate (4 * n) b"
    by (simp only: replicate_add)
  with nz show ?case
    by (subst rep_stosl.simps)
      (simp add: Suc.hyps(1) [OF n] stosl_def assms write_bytes_append n [symmetric]
        right_diff_distrib add.assoc)
qed

lemma memset_aligned_fill:
  assumes "bytes32 eax = replicate 4 b"
  shows "memset_aligned m eax edi ecx = write_bytes m edi (replicate (unat ecx) b)"
proof -
  have "ucast eax = b" using assms by (simp add: bytes32_def numeral_eq_Suc)
  moreover have "replicate (unat ecx) b =
      replicate (4 * unat (drop_bit 2 ecx)) b @ replicate (unat (ecx AND 3)) b"
    by (simp only: replicate_add [symmetric] split_words)
  ultimately show ?thesis
    by (simp add: memset_aligned_def rep_stosl_fill [OF assms] memset_bottom_fill write_bytes_append)
qed

lemma memset_top_fill:
  assumes "bytes32 eax = replicate 4 b"
  shows "memset_top m eax edi ecx = write_bytes m edi (replicate (unat ecx) b)"
proof (induction "unat ecx" arbitrary: m edi ecx)
  case 0
  then show ?case by (subst memset_top.simps) (simp add: unat_eq_zero)
next
  case (Suc n)
  from Suc.hyps(2) have nz: "ecx \<noteq> 0" and n: "n = unat (ecx - 1)" by (auto dest: Suc_eq_unatD)
  have b: "ucast eax = b" using assms by (simp add: bytes32_def numeral_eq_Suc)
  show ?case
    using nz by (subst memset_top.simps)
      (simp add: memset_aligned_fill [OF assms] Suc.hyps(1) [OF n] b
        Suc.hyps(2) [symmetric] n [symmetric])
qed

lemma rep_stosw_fill:
  "rep_stosw m eax edi ecx =
     write_bytes m edi (concat (replicate (unat ecx) (bytes16 (ucast eax))))"
proof (induction "unat ecx" arbitrary: m edi ecx)
  case 0
  then show ?case by (subst rep_stosw.simps) (simp add: unat_eq_zero)
next
  case (Suc n)
  from Suc.hyps(2) have "ecx \<noteq> 0" and n: "n = unat (ecx - 1)" by (auto dest: Suc_eq_unatD)
  then show ?case
    by (subst rep_stosw.simps) (simp add: Suc.hyps(1) [OF n] Suc.hyps(2) [symmetric] n [symmetric]
        stosw_def write_bytes_append)
qed

lemma rep_stosl_words:
  "fst (rep_stosl m eax edi ecx) = write_bytes m edi (concat (replicate (unat ecx) (bytes32 eax)))"
proof (induction "unat ecx" arbitrary: m edi ecx)
  case 0
  then show ?case by (subst rep_stosl.simps) (simp add: unat_eq_zero)
next
  case (Suc n)
  from Suc.hyps(2) have "ecx \<noteq> 0" and n: "n = unat (ecx - 1)" by (auto dest: Suc_eq_unatD)
  then show ?case
    by (subst rep_stosl.simps) (simp add: Suc.hyps(1) [OF n] Suc.hyps(2) [symmetric] n [symmetric]
        stosl_def write_bytes_append)
qed

subsection \<open>Properties\<close>

text \<open>\<^verbatim>\<open>memcpy\<close> is correct at every alignment and length: if the destination does not start
  strictly inside the source run, the destination run ends up equal to the old source run and
  every other byte of memory is unchanged.\<close>

theorem memcpy_correct:
  assumes "copy_up_safe dest src (unat n)"
  shows "read_bytes (memcpy m dest src n) dest (unat n) = read_bytes m src (unat n) \<and>
    (\<forall>x. x \<notin> span dest (unat n) \<longrightarrow> memcpy m dest src n x = m x)"
  using assms by (simp add: memcpy_copier.copy_read memcpy_copier.copy_frame del: in_span)

theorem memcpy_correct_witness:
  "copy_up_safe 0x2001 0x1000 (unat (7 :: u32)) \<and>
   read_bytes (memcpy (\<lambda>a. ucast a) 0x2001 0x1000 7) 0x2001 (unat (7 :: u32)) =
     [0, 1, 2, 3, 4, 5, 6] \<and>
   memcpy (\<lambda>a. ucast a) 0x2001 0x1000 7 0x2008 = 8"
proof -
  have ok: "copy_up_safe 0x2001 0x1000 (unat (7 :: u32))"
    by (simp add: copy_up_safe_def)
  have "read_bytes (\<lambda>a. ucast a) 0x1000 (unat (7 :: u32)) = [0, 1, 2, 3, 4, 5, 6 :: u8]"
    by (simp add: read_bytes_def upt_rec)
  with ok memcpy_correct [OF ok, of "\<lambda>a. ucast a"] show ?thesis by simp
qed

text \<open>\<^verbatim>\<open>memmove\<close> is correct for every overlap of its two runs, in either direction, as
  long as neither run wraps around the end of the address space.\<close>

theorem memmove_correct:
  assumes "unat dest + unat n \<le> 2 ^ 32" and "unat src + unat n \<le> 2 ^ 32"
  shows "read_bytes (fst (memmove m dest src n)) dest (unat n) = read_bytes m src (unat n) \<and>
    (\<forall>x. x \<notin> span dest (unat n) \<longrightarrow> fst (memmove m dest src n) x = m x)"
proof -
  from assms have "memmove_ok dest src (unat n)" by (simp add: memmove_ok_def)
  then show ?thesis
    by (simp add: memmove_copier.copy_read memmove_copier.copy_frame del: in_span)
qed

theorem memmove_correct_witness:
  "read_bytes (fst (memmove (\<lambda>a. ucast a) 0x1002 0x1000 5)) 0x1002 (unat (5 :: u32)) =
     [0, 1, 2, 3, 4]"
proof -
  have "read_bytes (\<lambda>a. ucast a) 0x1000 (unat (5 :: u32)) = [0, 1, 2, 3, 4 :: u8]"
    by (simp add: read_bytes_def upt_rec)
  with memmove_correct [where dest = "0x1002" and n = "5" and src = "0x1000" and m = "\<lambda>a. ucast a"] show ?thesis by simp
qed

text \<open>\<^verbatim>\<open>memset\<close> fills exactly \<open>n\<close> bytes with the low byte of \<open>c\<close>, at every alignment,
  although its main loop stores double words; \<^verbatim>\<open>memset_word\<close> and \<^verbatim>\<open>memset_dword\<close> write
  \<open>n\<close> elements of two and four bytes.\<close>

theorem memset_correct:
  "memset m s c n = write_bytes m s (replicate (unat n) (ucast c)) \<and>
   memset_word m s c n = write_bytes m s (concat (replicate (unat n) (bytes16 (ucast c)))) \<and>
   memset_dword m s c n = write_bytes m s (concat (replicate (unat n) (bytes32 c)))"
  by (simp add: memset_def memset_word_def memset_dword_def memset_top_fill [OF memset_eax_lanes]
      rep_stosw_fill rep_stosl_words)

end
