(* ===== verification/Lib_String.thy ===== *)
theory Lib_String
  imports Lib_Memory "HOL-Library.Monad_Syntax"
begin

text \<open>
  The string routines of \<^verbatim>\<open>mp3/student-distrib/lib.c\<close> over byte-addressed memory:
  \<^verbatim>\<open>strlen\<close>, \<^verbatim>\<open>strncmp\<close>, \<^verbatim>\<open>strcpy\<close>, \<^verbatim>\<open>strncpy\<close>, \<^verbatim>\<open>strrev\<close>, \<^verbatim>\<open>itoa\<close> and the text that
  \<^verbatim>\<open>printf\<close> sends to the console.  Loops that end only when a terminating zero byte is met
  are partial functions: \<open>None\<close> means that the call does not return.  \<^verbatim>\<open>int8_t\<close> is the
  signed \<^verbatim>\<open>char\<close> of the compiler, so \<^verbatim>\<open>strncmp\<close> subtracts signed bytes.
\<close>

subsection \<open>\<^verbatim>\<open>strlen\<close> and \<^verbatim>\<open>strncmp\<close>\<close>

partial_function (option) strlen_from :: "mem \<Rightarrow> u32 \<Rightarrow> u32 \<Rightarrow> u32 option" where
  "strlen_from m s len = (if m (s + len) \<noteq> 0 then strlen_from m s (len + 1) else Some len)"

definition strlen :: "mem \<Rightarrow> u32 \<Rightarrow> u32 option" where
  "strlen m s = strlen_from m s 0"

function strncmp_from :: "mem \<Rightarrow> u32 \<Rightarrow> u32 \<Rightarrow> u32 \<Rightarrow> u32 \<Rightarrow> int" where
  "strncmp_from m s1 s2 n i =
     (if i < n then
        (if m (s1 + i) \<noteq> m (s2 + i) \<or> m (s1 + i) = 0 then sint (m (s1 + i)) - sint (m (s2 + i))
         else strncmp_from m s1 s2 n (i + 1))
      else 0)"
  by pat_completeness auto
termination
  by (relation "measure (\<lambda>(m, s1, s2, n, i). unat n - unat i)") (auto simp: word_less_nat_alt)

declare strncmp_from.simps [simp del]

definition strncmp :: "mem \<Rightarrow> u32 \<Rightarrow> u32 \<Rightarrow> u32 \<Rightarrow> int" where
  "strncmp m s1 s2 n = strncmp_from m s1 s2 n 0"

subsection \<open>\<^verbatim>\<open>strcpy\<close> and \<^verbatim>\<open>strncpy\<close>\<close>

partial_function (option) strcpy_from :: "mem \<Rightarrow> u32 \<Rightarrow> u32 \<Rightarrow> u32 \<Rightarrow> mem option" where
  "strcpy_from m dest src i =
     (if m (src + i) \<noteq> 0 then strcpy_from (m(dest + i := m (src + i))) dest src (i + 1)
      else Some (m(dest + i := 0)))"

definition strcpy :: "mem \<Rightarrow> u32 \<Rightarrow> u32 \<Rightarrow> mem option" where
  "strcpy m dest src = strcpy_from m dest src 0"

function strncpy_pad :: "mem \<Rightarrow> u32 \<Rightarrow> u32 \<Rightarrow> u32 \<Rightarrow> mem" where
  "strncpy_pad m dest n i =
     (if i < n then strncpy_pad (m(dest + i := 0)) dest n (i + 1) else m)"
  by pat_completeness auto
termination
  by (relation "measure (\<lambda>(m, dest, n, i). unat n - unat i)") (auto simp: word_less_nat_alt)

function strncpy_from :: "mem \<Rightarrow> u32 \<Rightarrow> u32 \<Rightarrow> u32 \<Rightarrow> u32 \<Rightarrow> mem" where
  "strncpy_from m dest src n i =
     (if m (src + i) \<noteq> 0 \<and> i < n
      then strncpy_from (m(dest + i := m (src + i))) dest src n (i + 1)
      else strncpy_pad m dest n i)"
  by pat_completeness auto
termination
  by (relation "measure (\<lambda>(m, dest, src, n, i). unat n - unat i)") (auto simp: word_less_nat_alt)

declare strncpy_pad.simps [simp del] strncpy_from.simps [simp del]

definition strncpy :: "mem \<Rightarrow> u32 \<Rightarrow> u32 \<Rightarrow> u32 \<Rightarrow> mem" where
  "strncpy m dest src n = strncpy_from m dest src n 0"

subsection \<open>\<^verbatim>\<open>strrev\<close> and \<^verbatim>\<open>itoa\<close>\<close>

function strrev_loop :: "mem \<Rightarrow> u32 \<Rightarrow> int \<Rightarrow> int \<Rightarrow> mem" where
  "strrev_loop m s beg fin =
     (if beg < fin then
        strrev_loop (m(s + of_int fin := m (s + of_int beg), s + of_int beg := m (s + of_int fin)))
          s (beg + 1) (fin - 1)
      else m)"
  by pat_completeness auto
termination
  by (relation "measure (\<lambda>(m, s, beg, fin). nat (fin - beg))") auto

declare strrev_loop.simps [simp del]

text \<open>The length is stored in an \<^verbatim>\<open>int32_t\<close>, so it is read as a signed value.\<close>

definition strrev :: "mem \<Rightarrow> u32 \<Rightarrow> mem option" where
  "strrev m s = map_option (\<lambda>len. strrev_loop m s 0 (sint len - 1)) (strlen m s)"

text \<open>The digit table with its terminating zero byte.\<close>

definition itoa_lookup :: "u8 list" where
  "itoa_lookup = map of_char ''0123456789ABCDEFGHIJKLMNOPQRSTUVWXYZ'' @ [0]"

text \<open>The digit loop.  A zero radix divides by zero and a digit beyond the table is a read
  outside it: both are \<open>None\<close>, as is the endless loop of radix one.\<close>

partial_function (option) itoa_loop ::
  "mem \<Rightarrow> u32 \<Rightarrow> u32 \<Rightarrow> u32 \<Rightarrow> (mem \<times> u32) option" where
  "itoa_loop m newbuf newval radix =
     (if newval > 0 then
        (if radix = 0 \<or> unat (newval mod radix) \<ge> length itoa_lookup then None
         else itoa_loop (m(newbuf := itoa_lookup ! unat (newval mod radix))) (newbuf + 1)
                (newval div radix) radix)
      else Some (m, newbuf))"

definition itoa :: "mem \<Rightarrow> u32 \<Rightarrow> u32 \<Rightarrow> u32 \<Rightarrow> mem option" where
  "itoa m value buf radix =
     (if value = 0 then Some (m(buf := of_char (CHR ''0''), buf + 1 := 0))
      else do {
        (m, newbuf) \<leftarrow> itoa_loop m buf value radix;
        strrev (m(newbuf := 0)) buf
      })"

subsection \<open>\<^verbatim>\<open>puts\<close> and \<^verbatim>\<open>printf\<close>\<close>

text \<open>The bytes that \<^verbatim>\<open>puts\<close> hands to \<^verbatim>\<open>putc\<close>: those before the terminating zero.\<close>

definition puts_out :: "mem \<Rightarrow> u32 \<Rightarrow> u8 list option" where
  "puts_out m s = map_option (\<lambda>len. read_bytes m s (unat len)) (strlen m s)"

text \<open>Zero padding of \<^verbatim>\<open>%#x\<close>: \<^verbatim>\<open>while (i < 8) conv_buf[i++] = '0'\<close>.\<close>

definition pad_zeros :: "mem \<Rightarrow> u32 \<Rightarrow> nat \<Rightarrow> mem" where
  "pad_zeros m conv_buf i =
     write_bytes m (conv_buf + of_nat i) (replicate (8 - i) (of_char (CHR ''0'')))"

text \<open>One conversion, from the character after \<^verbatim>\<open>%\<close>: the memory (the converted number is
  built in the local array \<^verbatim>\<open>conv_buf\<close>), the bytes printed, the format pointer and the
  argument pointer.  \<^verbatim>\<open>#\<close> sets the alternate form and goes back to the switch.\<close>

partial_function (option) printf_conv ::
  "u32 \<Rightarrow> mem \<Rightarrow> u32 \<Rightarrow> u32 \<Rightarrow> bool \<Rightarrow> (mem \<times> u8 list \<times> u32 \<times> u32) option" where
  "printf_conv conv_buf m buf esp alternate =
     (if m buf = of_char (CHR ''%'') then Some (m, [of_char (CHR ''%'')], buf, esp)
      else if m buf = of_char (CHR ''#'') then printf_conv conv_buf m (buf + 1) esp True
      else if m buf = of_char (CHR ''x'') then
        (if \<not> alternate then do {
           m \<leftarrow> itoa m (load32 m esp) conv_buf 16;
           out \<leftarrow> puts_out m conv_buf;
           Some (m, out, buf, esp + 4)
         } else do {
           m \<leftarrow> itoa m (load32 m esp) (conv_buf + 8) 16;
           starting_index \<leftarrow> strlen m (conv_buf + 8);
           let m = pad_zeros m conv_buf (unat starting_index);
           out \<leftarrow> puts_out m (conv_buf + starting_index);
           Some (m, out, buf, esp + 4)
         })
      else if m buf = of_char (CHR ''u'') then do {
        m \<leftarrow> itoa m (load32 m esp) conv_buf 10;
        out \<leftarrow> puts_out m conv_buf;
        Some (m, out, buf, esp + 4)
      }
      else if m buf = of_char (CHR ''d'') then do {
        let value = load32 m esp;
        m \<leftarrow> (if sint value < 0 then itoa (m(conv_buf := of_char (CHR ''-''))) (- value) (conv_buf + 1) 10
               else itoa m value conv_buf 10);
        out \<leftarrow> puts_out m conv_buf;
        Some (m, out, buf, esp + 4)
      }
      else if m buf = of_char (CHR ''c'') then Some (m, [ucast (load32 m esp)], buf, esp + 4)
      else if m buf = of_char (CHR ''s'') then do {
        out \<leftarrow> puts_out m (load32 m esp);
        Some (m, out, buf, esp + 4)
      }
      else Some (m, [], buf, esp))"

partial_function (option) printf_loop ::
  "u32 \<Rightarrow> mem \<Rightarrow> u32 \<Rightarrow> u32 \<Rightarrow> u8 list \<Rightarrow> (u8 list \<times> u32) option" where
  "printf_loop conv_buf m buf esp out =
     (if m buf = 0 then Some (out, buf)
      else if m buf = of_char (CHR ''%'') then
        printf_conv conv_buf m (buf + 1) esp False \<bind>
          (\<lambda>(m, cs, buf, esp). printf_loop conv_buf m (buf + 1) esp (out @ cs))
      else printf_loop conv_buf m (buf + 1) esp (out @ [m buf]))"

text \<open>The printed bytes and the return value \<^verbatim>\<open>buf - format\<close>; \<open>esp\<close> is the address of the
  first argument after the format.\<close>

definition printf_out :: "u32 \<Rightarrow> mem \<Rightarrow> u32 \<Rightarrow> u32 \<Rightarrow> (u8 list \<times> u32) option" where
  "printf_out conv_buf m format esp =
     map_option (\<lambda>(out, buf). (out, buf - format)) (printf_loop conv_buf m format esp [])"

subsection \<open>Zero-terminated strings\<close>

text \<open>The bytes \<open>bs\<close> stand at \<open>s\<close> with a zero byte behind them.\<close>

definition is_cstr :: "mem \<Rightarrow> u32 \<Rightarrow> u8 list \<Rightarrow> bool" where
  "is_cstr m s bs \<longleftrightarrow> 0 \<notin> set bs \<and> length bs < 2 ^ 32 \<and>
     read_bytes m s (length bs) = bs \<and> m (s + of_nat (length bs)) = 0"

lemma is_cstr_nth: "is_cstr m s bs \<Longrightarrow> i < length bs \<Longrightarrow> m (s + of_nat i) = bs ! i"
  by (metis is_cstr_def nth_read_bytes)

lemma is_cstr_nonzero: "is_cstr m s bs \<Longrightarrow> i < length bs \<Longrightarrow> m (s + of_nat i) \<noteq> 0"
  by (metis is_cstr_def nth_mem nth_read_bytes)

lemma is_cstr_unique:
  assumes "is_cstr m s as" and "is_cstr m s bs"
  shows "as = bs"
proof -
  have "\<not> length as < length bs"
    using assms(1) is_cstr_nonzero [OF assms(2), of "length as"] by (auto simp: is_cstr_def)
  moreover have "\<not> length bs < length as"
    using assms(2) is_cstr_nonzero [OF assms(1), of "length bs"] by (auto simp: is_cstr_def)
  ultimately have "read_bytes m s (length as) = read_bytes m s (length bs)" by simp
  with assms show ?thesis by (simp add: is_cstr_def)
qed

lemma strlen_from_cstr:
  assumes "is_cstr m s bs" and "i \<le> length bs"
  shows "strlen_from m s (of_nat i) = Some (of_nat (length bs))"
  using assms(2)
proof (induction rule: inc_induct)
  case base
  then show ?case using assms(1) by (subst strlen_from.simps) (simp add: is_cstr_def)
next
  case (step i)
  then show ?case
    using assms(1) by (subst strlen_from.simps) (simp add: is_cstr_nonzero add.commute)
qed

lemma strlen_cstr: "is_cstr m s bs \<Longrightarrow> strlen m s = Some (of_nat (length bs))"
  using strlen_from_cstr [of m s bs 0] by (simp add: strlen_def)

lemma puts_out_cstr: "is_cstr m s bs \<Longrightarrow> puts_out m s = Some bs"
  by (simp add: puts_out_def strlen_cstr is_cstr_def)

text \<open>A string ends where \<^verbatim>\<open>strlen\<close> says it does.\<close>

lemma strlen_from_zero: "strlen_from m s i = Some len \<Longrightarrow> m (s + len) = 0"
proof (rule strlen_from.raw_induct [where P = "\<lambda>m s i len. m (s + len) = 0"])
  fix f m s i len
  assume "\<And>m s i len. f m s i = Some len \<Longrightarrow> m (s + len) = (0 :: u8)"
    and "(if m (s + i) \<noteq> 0 then f m s (i + 1) else Some i) = Some len"
  then show "m (s + len) = 0" by (auto split: if_splits)
qed

lemma strlen_no_terminator: "(\<And>x. m x \<noteq> 0) \<Longrightarrow> strlen m s = None"
  using strlen_from_zero [of m s 0] by (cases "strlen m s") (auto simp: strlen_def)

lemma is_cstr_write: "0 \<notin> set bs \<Longrightarrow> length bs < 2 ^ 32 \<Longrightarrow> is_cstr (write_bytes m s (bs @ [0])) s bs"
  by (auto simp: is_cstr_def write_bytes_apply nth_append intro!: nth_equalityI)

subsection \<open>Comparison\<close>

lemma strncmp_from_eq_0_iff:
  "strncmp_from m s1 s2 n i = 0 \<longleftrightarrow>
     takeWhile (\<lambda>b. b \<noteq> 0) (read_bytes m (s1 + i) (unat n - unat i)) =
     takeWhile (\<lambda>b. b \<noteq> 0) (read_bytes m (s2 + i) (unat n - unat i))"
proof (induction m s1 s2 n i rule: strncmp_from.induct)
  case (1 m s1 s2 n i)
  show ?case
  proof (cases "i < n")
    case True
    then have "unat n - unat i = Suc (unat n - unat (i + 1))"
      by (simp add: word_less_nat_alt)
    moreover have "sint a = sint b \<longleftrightarrow> a = b" "sint a = 0 \<longleftrightarrow> a = 0" for a b :: u8
      by (metis signed_word_eqI signed_0)+
    ultimately show ?thesis
      using True 1 by (auto simp: strncmp_from.simps [of m s1 s2 n i] read_bytes_Suc add.assoc)
  next
    case False
    then show ?thesis
      by (simp add: strncmp_from.simps [of m s1 s2 n i] word_less_nat_alt)
  qed
qed

lemma strncmp_eq_0_iff:
  "strncmp m s1 s2 n = 0 \<longleftrightarrow>
     takeWhile (\<lambda>b. b \<noteq> 0) (read_bytes m s1 (unat n)) =
     takeWhile (\<lambda>b. b \<noteq> 0) (read_bytes m s2 (unat n))"
  using strncmp_from_eq_0_iff [of m s1 s2 n 0] by (simp add: strncmp_def)

lemma takeWhile_cstr:
  assumes "is_cstr m s bs" and "n < 2 ^ 32"
  shows "takeWhile (\<lambda>b. b \<noteq> 0) (read_bytes m s n) = take n bs"
proof (cases "n \<le> length bs")
  case True
  have "read_bytes m s n = take n bs"
    using True is_cstr_nth [OF assms(1)] by (intro nth_equalityI) auto
  moreover have "0 \<notin> set (take n bs)"
    using assms(1) by (auto simp: is_cstr_def dest: in_set_takeD)
  ultimately show ?thesis by (auto simp: takeWhile_eq_all_conv)
next
  case False
  then obtain k where "n = length bs + Suc k"
    by (metis Suc_leI add_Suc_right le_Suc_ex not_le add_Suc)
  then have "read_bytes m s n = bs @ 0 # read_bytes m (s + of_nat (length bs) + 1) k"
    using assms(1) by (simp add: read_bytes_add read_bytes_Suc is_cstr_def del: add_Suc_right)
  moreover have "0 \<notin> set bs" using assms(1) by (simp add: is_cstr_def)
  ultimately show ?thesis using False by (auto simp: takeWhile_append)
qed

subsection \<open>Copying strings\<close>

lemma is_cstr_upd:
  assumes "is_cstr m s bs" and "x \<notin> span s (Suc (length bs))"
  shows "is_cstr (m(x := v)) s bs"
proof -
  have "x \<noteq> s + of_nat i" if "i \<le> length bs" for i
    using assms that by (auto simp: is_cstr_def)
  then have "(m(x := v)) (s + of_nat i) = m (s + of_nat i)" if "i \<le> length bs" for i
    using that by (metis fun_upd_other)
  moreover from this have "read_bytes (m(x := v)) s (length bs) = read_bytes m s (length bs)"
    by (intro nth_equalityI) (auto simp del: fun_upd_apply)
  ultimately show ?thesis
    using assms(1) by (simp add: is_cstr_def del: fun_upd_apply)
qed

lemma write_bytes_snoc:
  "write_bytes m a (bs @ [b]) = (write_bytes m a bs)(a + of_nat (length bs) := b)"
  by (simp add: write_bytes_append)

lemma is_cstr_write_apart:
  assumes "is_cstr m s bs" and "apart d (Suc (length bs)) s (Suc (length bs))"
    and "i \<le> length bs"
  shows "is_cstr (write_bytes m d (take i bs)) s bs"
  using assms(3)
proof (induction i)
  case 0
  then show ?case using assms(1) by simp
next
  case (Suc i)
  then have "is_cstr ((write_bytes m d (take i bs))(d + of_nat i := bs ! i)) s bs"
    using assms(1) by (intro is_cstr_upd apart_nth [OF assms(2)]) (auto simp: is_cstr_def)
  with Suc.prems show ?case
    by (simp add: take_Suc_conv_app_nth write_bytes_snoc del: fun_upd_apply)
qed

lemma strcpy_from_cstr:
  assumes "is_cstr m src bs" and "apart dest (Suc (length bs)) src (Suc (length bs))"
    and "i \<le> length bs"
  shows "strcpy_from (write_bytes m dest (take i bs)) dest src (of_nat i) =
    Some (write_bytes m dest (bs @ [0]))"
  using assms(3)
proof (induction rule: inc_induct)
  case base
  have "is_cstr (write_bytes m dest bs) src bs"
    using is_cstr_write_apart [OF assms(1,2), of "length bs"] by simp
  then show ?case
    by (subst strcpy_from.simps) (simp add: is_cstr_def write_bytes_snoc)
next
  case (step i)
  let ?m = "write_bytes m dest (take i bs)"
  have str: "is_cstr ?m src bs"
    using is_cstr_write_apart [OF assms(1,2)] step.hyps by simp
  have "?m(dest + of_nat i := ?m (src + of_nat i)) = write_bytes m dest (take (Suc i) bs)"
    using step.hyps is_cstr_nth [OF str] by (simp add: take_Suc_conv_app_nth write_bytes_snoc)
  moreover have "?m (src + of_nat i) \<noteq> 0"
    using step.hyps is_cstr_nonzero [OF str] by simp
  ultimately show ?case
    using step.IH by (subst strcpy_from.simps) (simp add: add.commute)
qed

lemma strncpy_pad_fill:
  assumes "i \<le> n"
  shows "strncpy_pad m dest n i = write_bytes m (dest + i) (replicate (unat n - unat i) 0)"
  using assms
proof (induction m dest n i rule: strncpy_pad.induct)
  case (1 m dest n i)
  show ?case
  proof (cases "i < n")
    case True
    then have "i + 1 \<le> n" by (rule inc_le)
    moreover have "unat n - unat i = Suc (unat n - unat (i + 1))"
      using True by (simp add: word_less_nat_alt)
    ultimately show ?thesis
      using True 1 by (simp add: strncpy_pad.simps [of m dest n i] add.assoc del: fun_upd_apply)
  next
    case False
    with 1(2) have "i = n" by simp
    then show ?thesis by (subst strncpy_pad.simps) simp
  qed
qed

lemma strncpy_from_cstr:
  assumes "is_cstr m src bs" and "apart dest (Suc (length bs)) src (Suc (length bs))"
    and "i \<le> min (unat n) (length bs)"
  shows "strncpy_from (write_bytes m dest (take i bs)) dest src n (of_nat i) =
    write_bytes m dest (take (unat n) bs @ replicate (unat n - length bs) 0)"
  using assms(3)
proof (induction rule: inc_induct)
  case base
  let ?k = "min (unat n) (length bs)" and ?m = "write_bytes m dest (take (min (unat n) (length bs)) bs)"
  have k: "?k < 2 ^ 32" using assms(1) by (simp add: is_cstr_def min_def)
  have "is_cstr ?m src bs" using is_cstr_write_apart [OF assms(1,2)] by simp
  then have "?m (src + of_nat ?k) = 0 \<or> \<not> of_nat ?k < n"
    using k by (auto simp: is_cstr_def min_def word_less_nat_alt)
  then have "strncpy_from ?m dest src n (of_nat ?k) = strncpy_pad ?m dest n (of_nat ?k)"
    by (subst strncpy_from.simps) auto
  also have "\<dots> = write_bytes ?m (dest + of_nat ?k) (replicate (unat n - ?k) 0)"
    using k strncpy_pad_fill [of "of_nat ?k" n ?m dest] by (simp add: word_le_nat_alt)
  also have "\<dots> = write_bytes m dest (take ?k bs @ replicate (unat n - ?k) 0)"
    by (simp add: write_bytes_append)
  finally have done_eq: "strncpy_from ?m dest src n (of_nat ?k) =
    write_bytes m dest (take ?k bs @ replicate (unat n - ?k) 0)" .
  have "take ?k bs = take (unat n) bs" "unat n - ?k = unat n - length bs"
    by (simp_all add: min_def)
  with done_eq show ?case by (simp only:)
next
  case (step i)
  let ?m = "write_bytes m dest (take i bs)"
  have str: "is_cstr ?m src bs"
    using is_cstr_write_apart [OF assms(1,2)] step.hyps by simp
  have upd: "?m(dest + of_nat i := ?m (src + of_nat i)) = write_bytes m dest (take (Suc i) bs)"
    using step.hyps is_cstr_nth [OF str]
    by (simp add: take_Suc_conv_app_nth write_bytes_snoc del: fun_upd_apply)
  have "?m (src + of_nat i) \<noteq> 0 \<and> of_nat i < n"
    using step.hyps is_cstr_nonzero [OF str] less_unat_u32 [of i n]
    by (simp add: word_less_nat_alt)
  then show ?case
    using step.IH by (subst strncpy_from.simps) (simp add: upd add.commute del: fun_upd_apply)
qed

subsection \<open>Reversal\<close>

lemma of_int_u32_eq_iff:
  assumes "0 \<le> a" "a < 2 ^ 32" "0 \<le> b" "b < 2 ^ 32"
  shows "(of_int a :: u32) = of_int b \<longleftrightarrow> a = b"
  using assms of_nat_u32_eq_iff [of "nat a" "nat b"] by (auto simp: nat_less_iff)

lemma strrev_loop_apply:
  assumes "0 \<le> b" and "e < 2 ^ 32"
  shows "strrev_loop m s b e x =
    (let k = int (unat (x - s)) in if b \<le> k \<and> k \<le> e then m (s + of_int (b + e - k)) else m x)"
  using assms
proof (induction m s b e rule: strrev_loop.induct)
  case (1 m s b e)
  let ?k = "int (unat (x - s))"
  have x: "x = s + of_int ?k" by simp
  have kb: "?k < 2 ^ 32"
    using of_nat_less_iff [of "unat (x - s)" 4294967296, where 'a = int] by simp
  show ?case
  proof (cases "b < e")
    case True
    let ?m = "m(s + of_int e := m (s + of_int b), s + of_int b := m (s + of_int e))"
    have rec: "strrev_loop m s b e x = strrev_loop ?m s (b + 1) (e - 1) x"
      using True by (subst strrev_loop.simps) simp
    have IH: "strrev_loop ?m s (b + 1) (e - 1) x =
        (if b + 1 \<le> ?k \<and> ?k \<le> e - 1 then ?m (s + of_int (b + 1 + (e - 1) - ?k)) else ?m x)"
      using 1 True by (simp add: Let_def del: fun_upd_apply)
    have m_at: "?m (s + of_int j) =
        (if j = b then m (s + of_int e) else if j = e then m (s + of_int b) else m (s + of_int j))"
      if "0 \<le> j" "j < 2 ^ 32" for j
      using that True 1(2,3) by (simp add: of_int_u32_eq_iff del: of_int_eq_iff)
    show ?thesis
    proof (cases "b + 1 \<le> ?k \<and> ?k \<le> e - 1")
      case inner: True
      then have "?m (s + of_int (b + e - ?k)) = m (s + of_int (b + e - ?k))"
        using m_at [of "b + e - ?k"] 1(2,3) by auto
      with rec IH inner show ?thesis by (simp add: Let_def del: fun_upd_apply)
    next
      case False
      have "?m x = (if ?k = b then m (s + of_int e) else if ?k = e then m (s + of_int b) else m x)"
        using m_at [of ?k] kb x by (metis of_nat_0_le_iff)
      with rec IH False True show ?thesis by (auto simp: Let_def simp del: fun_upd_apply)
    qed
  next
    case False
    then have "strrev_loop m s b e x = m x" by (subst strrev_loop.simps) simp
    moreover have "m (s + of_int (b + e - ?k)) = m x" if "b \<le> ?k" "?k \<le> e"
      using that False x by (metis add_diff_cancel_right' eq_iff linorder_not_le order.trans)
    ultimately show ?thesis by (simp add: Let_def)
  qed
qed

lemma strrev_cstr:
  assumes "is_cstr m s bs" and "length bs < 2 ^ 31"
  shows "strrev m s = Some (write_bytes m s (rev bs))"
proof -
  let ?n = "length bs"
  have sint: "sint (of_nat ?n :: u32) = int ?n"
    using assms(2) by (simp add: sint_uint unsigned_of_nat take_bit_nat_eq_self
        signed_take_bit_int_eq_self)
  have "strrev_loop m s 0 (int ?n - 1) x = write_bytes m s (rev bs) x" for x
  proof (cases "unat (x - s) < ?n")
    case True
    then have "s + of_int (int ?n - 1 - int (unat (x - s))) = s + of_nat (?n - Suc (unat (x - s)))"
      by (simp add: of_nat_diff)
    moreover have "int (unat (x - s)) < int ?n"
      using True by (simp only: of_nat_less_iff)
    moreover note True
    ultimately show ?thesis
      using assms is_cstr_nth [OF assms(1), of "?n - Suc (unat (x - s))"]
      by (simp add: strrev_loop_apply Let_def write_bytes_apply rev_nth)
  next
    case False
    have "\<not> int (unat (x - s)) < int ?n"
      using False by (metis of_nat_less_iff)
    then have "strrev_loop m s 0 (int ?n - 1) x = m x"
      using assms by (simp add: strrev_loop_apply Let_def)
    moreover have "write_bytes m s (rev bs) x = m x"
      using assms False by (simp add: write_bytes_apply)
    ultimately show ?thesis by simp
  qed
  then have "strrev_loop m s 0 (int ?n - 1) = write_bytes m s (rev bs)" by (rule ext)
  then show ?thesis by (simp add: strrev_def strlen_cstr [OF assms(1)] sint)
qed

subsection \<open>Numbers as text\<close>

text \<open>The digits of a number, least significant first, and the text that denotes it.\<close>

function digs :: "nat \<Rightarrow> nat \<Rightarrow> nat list" where
  "digs r n = (if n = 0 \<or> r < 2 then [] else n mod r # digs r (n div r))"
  by pat_completeness auto
termination
  by (relation "measure snd") auto

declare digs.simps [simp del]

definition number_text :: "nat \<Rightarrow> nat \<Rightarrow> u8 list" where
  "number_text r n = (if n = 0 then [of_char (CHR ''0'')] else rev (map ((!) itoa_lookup) (digs r n)))"

text \<open>Reading a number back: the value of a digit byte and of a text.\<close>

definition digit_value :: "u8 \<Rightarrow> nat" where
  "digit_value b = (if b \<le> 57 then unat b - 48 else unat b - 55)"

definition parse_number :: "nat \<Rightarrow> u8 list \<Rightarrow> nat" where
  "parse_number r bs = foldl (\<lambda>n b. n * r + digit_value b) 0 bs"

lemma length_itoa_lookup [simp]: "length itoa_lookup = 37"
  by (simp add: itoa_lookup_def)

lemma itoa_lookup_digit:
  assumes "d < 36"
  shows "itoa_lookup ! d \<noteq> 0" and "digit_value (itoa_lookup ! d) = d"
proof -
  have "\<forall>d \<in> set [0..<36]. itoa_lookup ! d \<noteq> 0 \<and> digit_value (itoa_lookup ! d) = d"
    by (simp add: itoa_lookup_def digit_value_def upt_rec)
  with assms show "itoa_lookup ! d \<noteq> 0" and "digit_value (itoa_lookup ! d) = d" by auto
qed

lemma set_digs: "d \<in> set (digs r n) \<Longrightarrow> 2 \<le> r \<Longrightarrow> d < r"
  by (induction r n rule: digs.induct) (subst (asm) (2) digs.simps, auto split: if_splits)

lemma length_digs: "n < r ^ k \<Longrightarrow> length (digs r n) \<le> k"
proof (induction r n arbitrary: k rule: digs.induct)
  case (1 r n)
  show ?case
  proof (cases "n = 0 \<or> r < 2")
    case True
    then show ?thesis by (subst digs.simps) simp
  next
    case False
    then obtain j where k: "k = Suc j" using 1(2) by (cases k) auto
    have "n div r < r ^ j"
      using 1(2) False unfolding k by (simp add: less_mult_imp_div_less mult.commute)
    with 1(1) False k show ?thesis by (subst digs.simps) simp
  qed
qed

lemma foldr_digs: "2 \<le> r \<Longrightarrow> foldr (\<lambda>d n. n * r + d) (digs r n) 0 = n"
proof (induction r n rule: digs.induct)
  case (1 r n)
  then show ?case by (subst digs.simps) (simp add: div_mult_mod_eq)
qed

lemma parse_number_text:
  assumes "2 \<le> r" and "r \<le> 36"
  shows "parse_number r (number_text r n) = n"
proof (cases "n = 0")
  case True
  then show ?thesis by (simp add: number_text_def parse_number_def digit_value_def)
next
  case False
  have "map (digit_value \<circ> (!) itoa_lookup) (digs r n) = digs r n"
    using assms set_digs [of _ r n] itoa_lookup_digit(2) by (intro map_idI) fastforce
  then have "foldr (\<lambda>b n. n * r + digit_value b) (map ((!) itoa_lookup) (digs r n)) 0 = n"
    using foldr_digs [OF assms(1), of n] foldr_map [of "\<lambda>d n. n * r + d" "digit_value \<circ> (!) itoa_lookup" "digs r n"]
    by (simp add: foldr_map o_def)
  with False show ?thesis by (simp add: parse_number_def number_text_def foldl_conv_foldr)
qed

lemma itoa_loop_digs:
  assumes "2 \<le> r" and "r \<le> 36"
  shows "itoa_loop m p v (of_nat r) =
    Some (write_bytes m p (map ((!) itoa_lookup) (digs r (unat v))),
          p + of_nat (length (digs r (unat v))))"
  using assms
proof (induction r "unat v" arbitrary: m p v rule: digs.induct)
  case (1 r)
  show ?case
  proof (cases "v = 0")
    case True
    then show ?thesis by (subst itoa_loop.simps, subst (1 2) digs.simps) simp
  next
    case False
    let ?r = "of_nat r :: u32"
    have r: "unat ?r = r" "?r \<noteq> 0"
      using 1(2,3) of_nat_u32_eq_iff [of r 0] by simp_all
    have dm: "unat (v mod ?r) = unat v mod r" "unat (v div ?r) = unat v div r"
      using r(1) by (simp_all add: unat_mod unat_div)
    have "unat v mod r < 37"
      using 1(2,3) mod_less_divisor [of r "unat v"] by linarith
    with False r(2) dm(1) have "itoa_loop m p v ?r =
        itoa_loop (m(p := itoa_lookup ! (unat v mod r))) (p + 1) (v div ?r) ?r"
      by (subst itoa_loop.simps) (simp add: word_gt_0 del: fun_upd_apply)
    moreover have "digs r (unat v) = unat v mod r # digs r (unat v div r)"
      using False 1(2) by (subst digs.simps) (simp add: unat_eq_zero)
    moreover have "\<not> (unat v = 0 \<or> r < 2)"
      using False 1(2) by (simp add: unat_eq_zero)
    ultimately show ?thesis
      using 1(1) [of "v div ?r"] dm(2) 1(2,3) by (simp add: add.assoc del: fun_upd_apply)
  qed
qed

lemma length_digs_u32: "2 \<le> r \<Longrightarrow> length (digs r (unat (v :: u32))) \<le> 32"
proof -
  assume "2 \<le> r"
  then have "(2 :: nat) ^ 32 \<le> r ^ 32" by (rule power_mono) simp
  then have "unat v < r ^ 32" by (intro less_le_trans [OF unat_u32_less]) simp
  then show ?thesis by (rule length_digs)
qed

lemma itoa_number_text:
  assumes "2 \<le> r" and "r \<le> 36"
  shows "itoa m v buf (of_nat r) = Some (write_bytes m buf (number_text r (unat v) @ [0]))"
proof (cases "v = 0")
  case True
  then show ?thesis by (simp add: itoa_def number_text_def del: fun_upd_apply)
next
  case False
  let ?ds = "map ((!) itoa_lookup) (digs r (unat v))"
  have nz: "0 \<notin> set ?ds"
    using assms set_digs [of _ r "unat v"] itoa_lookup_digit(1) by fastforce
  have len: "length ?ds < 2 ^ 31"
    using length_digs_u32 [OF assms(1), of v] by simp
  let ?m = "write_bytes m buf (?ds @ [0])"
  have "is_cstr ?m buf ?ds" using nz len by (intro is_cstr_write) auto
  then have "strrev ?m buf = Some (write_bytes ?m buf (rev ?ds))"
    using len by (rule strrev_cstr)
  moreover have "write_bytes ?m buf (rev ?ds) = write_bytes m buf (rev ?ds @ [0])"
    using len by (intro ext) (auto simp: write_bytes_apply nth_append)
  ultimately show ?thesis
    using False itoa_loop_digs [OF assms, of m buf v]
    by (simp add: itoa_def number_text_def write_bytes_snoc unat_eq_zero del: fun_upd_apply)
qed

lemma set_number_text:
  assumes "2 \<le> r" and "r \<le> 36" and "b \<in> set (number_text r n)"
  shows "b \<noteq> 0"
proof -
  have "d < 36" if "d \<in> set (digs r n)" for d
    using set_digs [OF that assms(1)] assms(2) by simp
  with assms(3) show ?thesis
    using itoa_lookup_digit(1) by (auto simp: number_text_def split: if_splits)
qed

lemma length_number_text:
  assumes "2 \<le> r" and "n < r ^ k" and "0 < k"
  shows "length (number_text r n) \<le> k" and "number_text r n \<noteq> []"
proof -
  have "n \<noteq> 0 \<Longrightarrow> digs r n \<noteq> []" using assms(1) by (subst digs.simps) simp
  then show "number_text r n \<noteq> []" by (simp add: number_text_def)
  show "length (number_text r n) \<le> k"
    using length_digs [OF assms(2)] assms(3) by (simp add: number_text_def)
qed

lemma write_bytes_prepend:
  assumes "length as + length bs \<le> 2 ^ 32"
  shows "write_bytes (write_bytes m (a + of_nat (length as)) bs) a as = write_bytes m a (as @ bs)"
proof (rule ext)
  fix x
  let ?y = "x - a" and ?n = "length as"
  have "unat (x - (a + of_nat ?n)) = unat ?y - ?n" if "?n \<le> unat ?y"
  proof -
    have eq: "x - (a + of_nat ?n) = ?y - of_nat ?n" by simp
    show ?thesis unfolding eq by (rule unat_minus_of_nat [OF that])
  qed
  then show "write_bytes (write_bytes m (a + of_nat ?n) bs) a as x = write_bytes m a (as @ bs) x"
    using assms by (auto simp: write_bytes_apply nth_append)
qed

lemma is_cstr_number:
  assumes "2 \<le> r" and "r \<le> 36"
  shows "is_cstr (write_bytes m a (number_text r (unat v) @ [0])) a (number_text r (unat (v :: u32)))"
proof (rule is_cstr_write)
  show "0 \<notin> set (number_text r (unat v))" using set_number_text [OF assms] by blast
  have "length (digs r (unat v)) \<le> 32" by (rule length_digs_u32 [OF assms(1)])
  then show "length (number_text r (unat v)) < 2 ^ 32" by (simp add: number_text_def)
qed

lemma parse_number_zeros:
  "parse_number r (replicate k 48 @ bs) = parse_number r bs"
  by (induction k) (simp_all add: parse_number_def digit_value_def)

lemma last_digs: "2 \<le> r \<Longrightarrow> n \<noteq> 0 \<Longrightarrow> digs r n \<noteq> [] \<and> last (digs r n) \<noteq> 0"
proof (induction r n rule: digs.induct)
  case (1 r n)
  have eq: "digs r n = n mod r # digs r (n div r)"
    using 1(2,3) by (subst digs.simps) simp
  show ?case
  proof (cases "n div r = 0")
    case True
    then have "digs r (n div r) = []" by (subst digs.simps) simp
    moreover have "n mod r = n" using True 1(2) by (simp add: div_eq_0_iff)
    ultimately show ?thesis using eq 1(3) by simp
  next
    case False
    with 1 show ?thesis by (simp add: eq)
  qed
qed

lemma hd_number_text:
  assumes "2 \<le> r" and "r \<le> 36" and "n \<noteq> 0"
  shows "hd (number_text r n) \<noteq> of_char (CHR ''0'')"
proof -
  let ?d = "last (digs r n)"
  have "digs r n \<noteq> []" and "?d \<noteq> 0" using last_digs [OF assms(1,3)] by auto
  moreover from this have "?d < 36"
    using set_digs [OF last_in_set assms(1)] assms(2) by fastforce
  ultimately have "itoa_lookup ! ?d \<noteq> of_char (CHR ''0'')"
    using itoa_lookup_digit(2) [of ?d] by (auto simp: digit_value_def)
  with \<open>digs r n \<noteq> []\<close> assms(3) show ?thesis
    by (simp add: number_text_def hd_rev last_map)
qed

text \<open>The bytes of \<^verbatim>\<open>conv_buf\<close> from \<^verbatim>\<open>starting_index\<close> after the padding of \<^verbatim>\<open>%#x\<close>.\<close>

lemma pad_zeros_number:
  fixes v cb :: u32
  defines "t \<equiv> number_text 16 (unat v)"
  shows "is_cstr (pad_zeros (write_bytes m (cb + 8) (t @ [0])) cb (length t)) (cb + of_nat (length t))
    (replicate (8 - length t) (of_char (CHR ''0'')) @ t)" and "length t \<le> 8"
proof -
  show le: "length t \<le> 8"
    unfolding t_def using unat_u32_less [of v] by (intro length_number_text) simp_all
  let ?z = "replicate (8 - length t) (of_char (CHR ''0'') :: u8)" and ?a = "cb + of_nat (length t)"
  have eq: "cb + 8 = ?a + of_nat (length ?z)"
    using le by (simp add: of_nat_diff)
  have "pad_zeros (write_bytes m (cb + 8) (t @ [0])) cb (length t) =
      write_bytes (write_bytes m (cb + 8) (t @ [0])) ?a ?z"
    by (simp add: pad_zeros_def)
  also have "\<dots> = write_bytes m ?a ((?z @ t) @ [0])"
    unfolding eq using le by (subst write_bytes_prepend) simp_all
  finally have pad: "pad_zeros (write_bytes m (cb + 8) (t @ [0])) cb (length t) =
      write_bytes m ?a ((?z @ t) @ [0])" .
  have "0 \<notin> set (?z @ t)"
    using set_number_text [of 16 _ "unat v"] by (auto simp: t_def)
  then show "is_cstr (pad_zeros (write_bytes m (cb + 8) (t @ [0])) cb (length t)) ?a (?z @ t)"
    unfolding pad using le by (intro is_cstr_write) simp_all
qed

subsection \<open>Properties\<close>

text \<open>\<^verbatim>\<open>itoa\<close> returns for every value and every radix from 2 to 36, and leaves in the
  buffer a zero-terminated text of at most 32 digits that reads back as the value, has no
  leading zero unless it is the text of zero, and is the only memory that changes.\<close>

theorem itoa_correct:
  assumes "2 \<le> radix" and "radix \<le> 36"
  shows "\<exists>m' t. itoa m value buf (of_nat radix) = Some m' \<and> is_cstr m' buf t \<and>
    parse_number radix t = unat value \<and> length t \<le> 32 \<and>
    (value \<noteq> 0 \<longrightarrow> hd t \<noteq> of_char (CHR ''0'')) \<and>
    (\<forall>x. x \<notin> span buf (Suc (length t)) \<longrightarrow> m' x = m x)"
proof -
  let ?t = "number_text radix (unat value)"
  have len: "length ?t \<le> 32"
    using length_digs_u32 [OF assms(1), of "value"] by (simp add: number_text_def)
  have "hd ?t \<noteq> of_char (CHR ''0'')" if "value \<noteq> 0"
    using that by (intro hd_number_text [OF assms]) (simp add: unat_eq_zero)
  then show ?thesis
    using itoa_number_text [OF assms, of m "value" buf] is_cstr_number [OF assms, of m buf "value"]
      parse_number_text [OF assms, of "unat value"] len
    by (auto simp: write_bytes_other intro!: exI [of _ "write_bytes m buf (?t @ [0])"] exI [of _ ?t])
qed

theorem itoa_correct_witness:
  "\<exists>m' t. itoa (\<lambda>_. 7) 0xBEEF 0x1000 (of_nat 16) = Some m' \<and> is_cstr m' 0x1000 t \<and>
    parse_number 16 t = 0xBEEF \<and> hd t \<noteq> of_char (CHR ''0'')"
  using itoa_correct [of 16 "\<lambda>_. 7" "0xBEEF" "0x1000"] by auto

text \<open>\<^verbatim>\<open>strncmp\<close> returns 0 exactly when the two strings agree up to their terminating
  zero byte or, failing that, in their first \<open>n\<close> bytes.\<close>

theorem strncmp_correct:
  "strncmp m s1 s2 n = 0 \<longleftrightarrow>
     takeWhile (\<lambda>b. b \<noteq> 0) (read_bytes m s1 (unat n)) =
     takeWhile (\<lambda>b. b \<noteq> 0) (read_bytes m s2 (unat n))"
  by (rule strncmp_eq_0_iff)

text \<open>For a source string and a destination that do not overlap, \<^verbatim>\<open>strcpy\<close> returns and
  copies the string with its terminator, and \<^verbatim>\<open>strncpy\<close> writes exactly \<open>n\<close> bytes: the first
  \<open>n\<close> bytes of the string, padded with zero bytes.\<close>

theorem strcpy_strncpy_correct:
  assumes "is_cstr m src bs" and "apart dest (Suc (length bs)) src (Suc (length bs))"
  shows "strcpy m dest src = Some (write_bytes m dest (bs @ [0])) \<and>
    strncpy m dest src n =
      write_bytes m dest (take (unat n) bs @ replicate (unat n - length bs) 0)"
  using strcpy_from_cstr [OF assms, of 0] strncpy_from_cstr [OF assms, of 0 n]
  by (simp add: strcpy_def strncpy_def)

theorem strcpy_strncpy_correct_witness:
  "strcpy (write_bytes (\<lambda>_. 0) 0x1000 [65, 66]) 0x2000 0x1000 =
     Some (write_bytes (write_bytes (\<lambda>_. 0) 0x1000 [65, 66]) 0x2000 [65, 66, 0])"
proof -
  let ?m = "write_bytes (\<lambda>_. 0) 0x1000 [65, 66 :: u8]"
  have str: "is_cstr ?m 0x1000 [65, 66]"
    by (simp add: is_cstr_def read_bytes_Suc)
  have "apart 0x2000 (Suc (length [65, 66 :: u8])) 0x1000 (Suc (length [65, 66 :: u8]))"
    by (subst apart_sym, rule apart_below) simp_all
  from strcpy_strncpy_correct [OF str this] show ?thesis by simp
qed

text \<open>\<^verbatim>\<open>%#x\<close> prints exactly eight digits that read back, in base 16, as the argument.\<close>

theorem printf_hex8:
  assumes "m buf = of_char (CHR ''#'')" and "m (buf + 1) = of_char (CHR ''x'')"
  shows "\<exists>m' out. printf_conv conv_buf m buf esp False = Some (m', out, buf + 1, esp + 4) \<and>
    length out = 8 \<and> parse_number 16 out = unat (load32 m esp)"
proof -
  let ?v = "load32 m esp"
  let ?t = "number_text 16 (unat ?v)"
  let ?m = "write_bytes m (conv_buf + 8) (?t @ [0])"
  have itoa: "itoa m ?v (conv_buf + 8) 16 = Some ?m"
    using itoa_number_text [of 16 m ?v "conv_buf + 8"] by simp
  have len: "strlen ?m (conv_buf + 8) = Some (of_nat (length ?t))"
    using is_cstr_number [of 16 m "conv_buf + 8" ?v] by (intro strlen_cstr) simp
  have pad: "is_cstr (pad_zeros ?m conv_buf (length ?t)) (conv_buf + of_nat (length ?t))
      (replicate (8 - length ?t) (of_char (CHR ''0'')) @ ?t)" and le: "length ?t \<le> 8"
    by (rule pad_zeros_number)+
  have nat: "unat (of_nat (length ?t) :: u32) = length ?t" using le by simp
  have step: "printf_conv conv_buf m buf esp False = printf_conv conv_buf m (buf + 1) esp True"
    using assms(1) by (subst printf_conv.simps) simp
  have "printf_conv conv_buf m (buf + 1) esp True =
      Some (pad_zeros ?m conv_buf (length ?t),
            replicate (8 - length ?t) (of_char (CHR ''0'')) @ ?t, buf + 1, esp + 4)"
    using assms(2) by (subst printf_conv.simps) (simp add: itoa len nat puts_out_cstr [OF pad] Let_def)
  with step show ?thesis
    using le parse_number_text [of 16 "unat ?v"] by (simp add: parse_number_zeros)
qed

theorem printf_hex8_witness:
  "\<exists>m' out. printf_conv 0x9000 (write_bytes (\<lambda>_. 0xAB) 0x100 [35, 120]) 0x100 0x200 False =
     Some (m', out, 0x101, 0x204) \<and> length out = 8 \<and> parse_number 16 out = 0xABABABAB"
proof -
  let ?m = "write_bytes (\<lambda>_. 0xAB) 0x100 [35, 120 :: u8]"
  have "?m 0x100 = of_char (CHR ''#'')" and "?m (0x100 + 1) = of_char (CHR ''x'')"
    by simp_all
  moreover have "load32 ?m 0x200 = 0xABABABAB"
    by (simp add: load32_def)
  ultimately show ?thesis
    using printf_hex8 [of ?m "0x100" "0x9000" "0x200"] by simp
qed

end
