(* ===== verification/Terminal.thy ===== *)
theory Terminal
  imports Devices Lib_String
begin

text \<open>
  The three terminals: \<^verbatim>\<open>terminal.c\<close>, and \<^verbatim>\<open>putc\<close>, \<^verbatim>\<open>clear\<close> and \<^verbatim>\<open>test_interrupts\<close> of
  \<^verbatim>\<open>lib.c\<close>, under \<^verbatim>\<open>mp3/student-distrib\<close>.  The state extends the devices by physical memory,
  the array of terminals and the two terminal numbers: \<^verbatim>\<open>cur_terminal\<close> is displayed and
  \<^verbatim>\<open>run_terminal\<close> belongs to the running process.  Every access to video memory goes through
  the page tables, so that \<^verbatim>\<open>memory_switch\<close> decides which physical frame it reaches: the
  display at 0xB8000 or the backup frame of a terminal.
\<close>

subsection \<open>State\<close>

record terminal_t =
  keyboard_buffer :: "u8 list"
  enter_pressed :: int
  cursor_x :: int
  cursor_y :: int
  index :: int

record screen = devices +
  pmem :: mem
  terminal :: "int \<Rightarrow> terminal_t"
  cur_terminal :: int
  run_terminal :: int

abbreviation NUM_COLS :: nat where "NUM_COLS \<equiv> 80"
abbreviation NUM_ROWS :: nat where "NUM_ROWS \<equiv> 25"
abbreviation ATTRIB :: u8 where "ATTRIB \<equiv> 7"

text \<open>The physical address behind a kernel address: the address itself until \<^verbatim>\<open>set_crs\<close> turns
  paging on.\<close>

definition paging_on :: "'a paging_scheme \<Rightarrow> bool" where
  "paging_on s \<longleftrightarrow> bit (cr0 s) 31"

definition access :: "'a paging_scheme \<Rightarrow> u32 \<Rightarrow> u32 option" where
  "access s va = (if paging_on s then translate s va else Some va)"

definition video_write :: "int \<Rightarrow> u8 \<Rightarrow> 'a screen_scheme \<Rightarrow> 'a screen_scheme" where
  "video_write off c s = (case access s (VIDEO + word_of_int off) of
     Some pa \<Rightarrow> s\<lparr>pmem := (pmem s)(pa := c)\<rparr> | None \<Rightarrow> s)"

definition video_read :: "int \<Rightarrow> 'a screen_scheme \<Rightarrow> u8" where
  "video_read off s = (case access s (VIDEO + word_of_int off) of Some pa \<Rightarrow> pmem s pa | None \<Rightarrow> 0)"

definition set_cursor :: "int \<Rightarrow> int \<Rightarrow> int \<Rightarrow> 'a screen_scheme \<Rightarrow> 'a screen_scheme" where
  "set_cursor tid x y s =
     s\<lparr>terminal := (terminal s)(tid := (terminal s tid)\<lparr>cursor_x := x, cursor_y := y\<rparr>)\<rparr>"

subsection \<open>Video memory of the terminals\<close>

definition memory_switch :: "int \<Rightarrow> 'a screen_scheme \<Rightarrow> 'a screen_scheme" where
  "memory_switch switch_id s =
     (if switch_id = cur_terminal s then
        let s = set_pte (drop_bit 12 VIDEO) (drop_bit 12 VIDEO) 0 s;
            s = set_user_pte (drop_bit 12 (USER_VIDEO_ADDR AND 0x003FF000)) (drop_bit 12 VIDEO) 1 s
        in flush_tlb s
      else
        let s = set_pte (drop_bit 12 VIDEO) (drop_bit 12 VIDEO + 2 + word_of_int switch_id) 0 s;
            s = set_user_pte (drop_bit 12 (USER_VIDEO_ADDR AND 0x003FF000))
                  (drop_bit 12 VIDEO + 2 + word_of_int switch_id) 1 s
        in flush_tlb s)"

definition show_cursor :: "'a screen_scheme \<Rightarrow> 'a screen_scheme" where
  "show_cursor s =
     update_cursor (cursor_x (terminal s (cur_terminal s))) (cursor_y (terminal s (cur_terminal s))) s"

definition blank_cell :: "nat \<Rightarrow> 'a screen_scheme \<Rightarrow> 'a screen_scheme" where
  "blank_cell i s = video_write (2 * int i + 1) ATTRIB (video_write (2 * int i) (of_char CHR '' '') s)"

definition clear :: "'a screen_scheme \<Rightarrow> 'a screen_scheme" where
  "clear s =
     (let s = memory_switch (cur_terminal s) s;
          s = set_cursor (cur_terminal s) 0 0 s;
          s = memory_switch (cur_terminal s) s;
          s = fold blank_cell [0..<NUM_ROWS * NUM_COLS] s;
          s = memory_switch (run_terminal s) s
      in show_cursor s)"

text \<open>The scrolling loop, which moves the characters and not their attributes.\<close>

definition scroll_cell :: "nat \<Rightarrow> 'a screen_scheme \<Rightarrow> 'a screen_scheme" where
  "scroll_cell i s =
     (if i < NUM_COLS * (NUM_ROWS - 1)
      then video_write (2 * int i) (video_read (2 * int (i + NUM_COLS)) s) s
      else blank_cell i s)"

definition scroll :: "'a screen_scheme \<Rightarrow> 'a screen_scheme" where
  "scroll s = fold scroll_cell [0..<NUM_ROWS * NUM_COLS] s"

text \<open>A new line: the cursor goes down, and when it leaves the screen the text scrolls.\<close>

definition line_feed :: "int \<Rightarrow> 'a screen_scheme \<Rightarrow> 'a screen_scheme" where
  "line_feed tid s =
     (let s = set_cursor tid 0 (cursor_y (terminal s tid) + 1) s
      in if cursor_y (terminal s tid) \<ge> int NUM_ROWS then
           let s = scroll s;
               s = set_cursor tid (cursor_x (terminal s tid)) (cursor_y (terminal s tid) - 1) s
           in if cursor_y (terminal s tid) = 255
              then set_cursor tid (cursor_x (terminal s tid)) (cursor_y (terminal s tid) + 1) s else s
         else s)"

definition put_cell :: "int \<Rightarrow> u8 \<Rightarrow> 'a screen_scheme \<Rightarrow> 'a screen_scheme" where
  "put_cell tid c s =
     (let off = (int NUM_COLS * cursor_y (terminal s tid) + cursor_x (terminal s tid)) * 2
      in video_write (off + 1) ATTRIB (video_write off c s))"

text \<open>The end of each path of \<^verbatim>\<open>putc\<close>: the cursor, then the mapping of the running terminal.\<close>

definition putc_end :: "u8 \<Rightarrow> 'a screen_scheme \<Rightarrow> 'a screen_scheme" where
  "putc_end user s = (let s = show_cursor s in if user = 1 then memory_switch (run_terminal s) s else s)"

definition putc_backspace :: "int \<Rightarrow> u8 \<Rightarrow> 'a screen_scheme \<Rightarrow> 'a screen_scheme" where
  "putc_backspace tid user s =
     (if cursor_x (terminal s tid) = 0 \<and> cursor_y (terminal s tid) = 0 then s
      else
        let s = (if cursor_x (terminal s tid) = 0
                 then set_cursor tid (int NUM_COLS) (cursor_y (terminal s tid) - 1) s else s);
            s = set_cursor tid (cursor_x (terminal s tid) - 1) (cursor_y (terminal s tid)) s;
            s = (if cursor_x (terminal s tid) = 255
                 then set_cursor tid (int NUM_COLS - 1) (cursor_y (terminal s tid) - 1) s else s);
            s = put_cell tid (of_char CHR '' '') s
        in putc_end user s)"

definition putc_newline :: "int \<Rightarrow> u8 \<Rightarrow> 'a screen_scheme \<Rightarrow> 'a screen_scheme" where
  "putc_newline tid user s = putc_end user (line_feed tid s)"

definition putc_char :: "u8 \<Rightarrow> int \<Rightarrow> u8 \<Rightarrow> 'a screen_scheme \<Rightarrow> 'a screen_scheme" where
  "putc_char c tid user s =
     (let s = (if cursor_x (terminal s tid) \<ge> int NUM_COLS then show_cursor (line_feed tid s) else s);
          s = put_cell tid c s;
          s = set_cursor tid (cursor_x (terminal s tid) + 1) (cursor_y (terminal s tid)) s
      in putc_end user s)"

definition putc :: "u8 \<Rightarrow> u8 \<Rightarrow> 'a screen_scheme \<Rightarrow> 'a screen_scheme" where
  "putc c user s =
     (let tid = (if user = 0 then run_terminal s else cur_terminal s);
          s = (if user = 1 then memory_switch (cur_terminal s) s else s)
      in if c = 8 then putc_backspace tid user s
         else if c = 10 \<or> c = 13 then putc_newline tid user s
         else putc_char c tid user s)"

text \<open>\<^verbatim>\<open>puts\<close> and \<^verbatim>\<open>printf\<close> hand their characters to \<^verbatim>\<open>putc\<close> one by one.\<close>

definition put_string :: "u8 list \<Rightarrow> 'a screen_scheme \<Rightarrow> 'a screen_scheme" where
  "put_string cs s = fold (\<lambda>c. putc c 0) cs s"

definition test_interrupts :: "'a screen_scheme \<Rightarrow> 'a screen_scheme" where
  "test_interrupts s =
     fold (\<lambda>i s. video_write (2 * int i) (video_read (2 * int i) s + 1) s) [0..<NUM_ROWS * NUM_COLS] s"

subsection \<open>The terminal driver\<close>

definition reset_buffer :: "'a screen_scheme \<Rightarrow> 'a screen_scheme" where
  "reset_buffer s =
     s\<lparr>terminal := (terminal s)(run_terminal s :=
         (terminal s (run_terminal s))\<lparr>keyboard_buffer := replicate 128 0, index := 0\<rparr>)\<rparr>"

definition terminal_open :: "u32 \<Rightarrow> int" where
  "terminal_open filename = 0"

definition terminal_close :: "int \<Rightarrow> 'a screen_scheme \<Rightarrow> int \<times> 'a screen_scheme" where
  "terminal_close fd s = (0, reset_buffer s)"

text \<open>\<^verbatim>\<open>terminal_read\<close> up to its wait for the enter key, then the copy after it.\<close>

definition terminal_read_start :: "'a screen_scheme \<Rightarrow> 'a screen_scheme" where
  "terminal_read_start s =
     (let s = reset_buffer s
      in s\<lparr>terminal := (terminal s)(run_terminal s := (terminal s (run_terminal s))\<lparr>enter_pressed := 0\<rparr>)\<rparr>)"

text \<open>The copy loop from position \<open>ct\<close> on: the bytes written so far are \<open>ret\<close> in number;
  the result is the memory, \<open>ct\<close> and \<open>ret\<close> at the end and whether a new line was met.\<close>

function copy_line :: "mem \<Rightarrow> u32 \<Rightarrow> u8 list \<Rightarrow> int \<Rightarrow> nat \<Rightarrow> mem \<times> nat \<times> bool" where
  "copy_line m buffer kb nbytes ct =
     (if int ct < nbytes then
        if ct \<ge> 128 then (m, ct, False)
        else
          let m = m(buffer + of_nat ct := kb ! ct)
          in if kb ! ct = 10 then (m, ct, True) else copy_line m buffer kb nbytes (ct + 1)
      else (m, ct, False))"
  by pat_completeness auto
termination
  by (relation "measure (\<lambda>(m, buffer, kb, nbytes, ct). nat (nbytes - int ct))") auto

declare copy_line.simps [simp del]

definition terminal_read_finish :: "mem \<Rightarrow> terminal_t \<Rightarrow> u32 \<Rightarrow> int \<Rightarrow> int \<times> mem" where
  "terminal_read_finish m t buf nbytes =
     (let (m, ct, last) = copy_line m buf (keyboard_buffer t) nbytes 0;
          ret = (if last then int ct + 1 else int ct);
          m = (if last \<and> int ct + 1 < nbytes then m(buf + of_nat ct := 0) else m)
      in (ret, m))"

text \<open>The characters written are the \<open>nbytes\<close> bytes at \<open>buf\<close> in the memory \<open>m\<close> the caller sees.\<close>

definition terminal_write :: "mem \<Rightarrow> int \<Rightarrow> u32 \<Rightarrow> int \<Rightarrow> 'a screen_scheme \<Rightarrow> int \<times> 'a screen_scheme" where
  "terminal_write m fd buf nbytes s =
     (if buf = 0 \<or> nbytes < 0 then (-1, s)
      else (nbytes, put_string (read_bytes m buf (nat nbytes)) s))"

definition terminal_init_one :: "int \<Rightarrow> 'a screen_scheme \<Rightarrow> 'a screen_scheme" where
  "terminal_init_one i s =
     (let s = s\<lparr>terminal := (terminal s)(i := (terminal s i)
                \<lparr>index := 0, enter_pressed := 0, cursor_x := 0, cursor_y := 0\<rparr>)\<rparr>;
          s = enable_cursor 0 14 s
      in update_cursor (cursor_x (terminal s i)) (cursor_y (terminal s i)) s)"

definition terminal_init :: "'a screen_scheme \<Rightarrow> int \<times> 'a screen_scheme" where
  "terminal_init s = (0, terminal_init_one 2 (terminal_init_one 1 (terminal_init_one 0 s)))"

subsection \<open>Cells of the video frames\<close>

definition cell :: "u32 \<Rightarrow> nat \<Rightarrow> u32" where
  "cell fr k = fr * 4096 + of_nat k"

lemma unat_cell:
  assumes "fr \<in> video_frames" and "k < 4096"
  shows "unat (cell fr k) = unat fr * 4096 + k"
proof -
  have fr: "unat fr \<le> 0xBC" using assms(1) by (auto simp: video_frames_def)
  have "cell fr k = of_nat (unat fr * 4096 + k)" by (simp add: cell_def)
  moreover have "unat fr * 4096 + k < 2 ^ 32" using fr assms(2) by simp
  ultimately show ?thesis by (simp only: unat_of_nat_u32)
qed

lemma cell_eq_iff [simp]:
  assumes "fr \<in> video_frames" and "fr' \<in> video_frames" and "i < 4096" and "j < 4096"
  shows "cell fr i = cell fr' j \<longleftrightarrow> fr = fr' \<and> i = j"
proof
  assume "cell fr i = cell fr' j"
  then have "unat fr * 4096 + i = unat fr' * 4096 + j"
    using unat_cell assms by metis
  moreover have "(unat fr * 4096 + i) div 4096 = unat fr" "(unat fr' * 4096 + j) div 4096 = unat fr'"
    using assms(3,4) by simp_all
  ultimately have "unat fr = unat fr'" by metis
  with \<open>unat fr * 4096 + i = unat fr' * 4096 + j\<close> show "fr = fr' \<and> i = j"
    by (simp add: word_unat_eq_iff)
qed simp

lemma take_bit_12_of_nat: "k < 4096 \<Longrightarrow> take_bit 12 (of_nat k :: u32) = of_nat k"
  by (rule word_unat_eq_iff [THEN iffD2]) (simp add: unsigned_take_bit_eq take_bit_nat_eq_self)

lemma frame_plus_offset: "push_bit 12 fr OR take_bit 12 va = fr * 4096 + take_bit 12 (va :: u32)"
proof -
  have "push_bit 12 fr AND take_bit 12 va = 0"
    by (rule bit_word_eqI) (auto simp: bit_simps)
  then have "push_bit 12 fr + take_bit 12 va = push_bit 12 fr OR take_bit 12 va"
    by (rule disjunctive_add_eq_or)
  then show ?thesis by (simp add: push_bit_eq_mult mult.commute)
qed

lemma access_video:
  assumes "paging_on s" and "kernel_maps p v fr s" and "\<And>pid. p = Some pid \<Longrightarrow> pid < 6" and "k < 4096"
  shows "access s (VIDEO + of_nat k) = Some (cell fr k)"
proof -
  let ?va = "VIDEO + of_nat k :: u32"
  have va: "?va = push_bit 12 0xB8 OR take_bit 12 (of_nat k)"
    unfolding frame_plus_offset using assms(4) by (simp add: take_bit_12_of_nat)
  have "drop_bit 12 ?va = 0xB8" unfolding va by (rule drop_bit_frame) simp
  moreover have "drop_bit 22 ?va = drop_bit 10 (drop_bit 12 ?va)" by simp
  moreover have "take_bit 12 ?va = of_nat k"
    unfolding va using assms(4) by (simp add: take_bit_or take_bit_push_bit take_bit_12_of_nat)
  ultimately show ?thesis
    using walk_kernel_maps [OF assms(2,3), of False ?va] assms(1)
      frame_plus_offset [of fr ?va]
    by (simp add: access_def cell_def del: drop_bit_drop_bit)
qed

text \<open>The mapping facts that hold while the kernel runs: paging is on, the tables have the form
  of \<open>kernel_maps\<close> with video frame \<open>fr\<close>.\<close>

definition video_at :: "u32 \<Rightarrow> 'a paging_scheme \<Rightarrow> bool" where
  "video_at fr s \<longleftrightarrow> paging_on s \<and> (\<exists>p v. kernel_maps p v fr s \<and> (\<forall>pid. p = Some pid \<longrightarrow> pid < 6))"

lemma video_at_frame: "video_at fr s \<Longrightarrow> fr \<in> video_frames"
  by (auto simp: video_at_def kernel_maps_def)

lemma video_at_access: "video_at fr s \<Longrightarrow> k < 4096 \<Longrightarrow> access s (VIDEO + of_nat k) = Some (cell fr k)"
  by (auto simp: video_at_def intro: access_video)

text \<open>The mapping does not depend on the other parts of the state.\<close>

lemma kernel_maps_cong:
  assumes "page_directory s = page_directory s'" and "page_table s = page_table s'"
    and "user_video_page_table s = user_video_page_table s'"
    and "page_table_addr s = page_table_addr s'"
    and "user_video_page_table_addr s = user_video_page_table_addr s'"
  shows "kernel_maps p v fr s = kernel_maps p v fr s'"
  using assms by (simp add: kernel_maps_def layout_ok_def directory_entry_def)

lemma video_at_updates [simp]:
  fixes s :: "'a screen_scheme"
  shows "video_at fr (pmem_update f s) = video_at fr s"
    and "video_at fr (terminal_update g s) = video_at fr s"
    and "video_at fr (io_update h s) = video_at fr s"
    and "video_at fr (cur_terminal_update i s) = video_at fr s"
    and "video_at fr (run_terminal_update i s) = video_at fr s"
proof -
  have "kernel_maps p v fr (pmem_update f s) = kernel_maps p v fr s"
    and "kernel_maps p v fr (terminal_update g s) = kernel_maps p v fr s"
    and "kernel_maps p v fr (io_update h s) = kernel_maps p v fr s"
    and "kernel_maps p v fr (cur_terminal_update i s) = kernel_maps p v fr s"
    and "kernel_maps p v fr (run_terminal_update i s) = kernel_maps p v fr s" for p v
    by (intro kernel_maps_cong; simp)+
  then show "video_at fr (pmem_update f s) = video_at fr s"
    and "video_at fr (terminal_update g s) = video_at fr s"
    and "video_at fr (io_update h s) = video_at fr s"
    and "video_at fr (cur_terminal_update i s) = video_at fr s"
    and "video_at fr (run_terminal_update i s) = video_at fr s"
    by (simp_all add: video_at_def paging_on_def)
qed

text \<open>The frame that video memory stands for, before paging is on as well.\<close>

definition video_map :: "u32 \<Rightarrow> 'a paging_scheme \<Rightarrow> bool" where
  "video_map fr s \<longleftrightarrow> (if paging_on s then video_at fr s else fr = 0xB8)"

lemma video_at_map: "video_at fr s \<longleftrightarrow> paging_on s \<and> video_map fr s"
  by (auto simp: video_map_def video_at_def)

lemma video_map_frame: "video_map fr s \<Longrightarrow> fr \<in> video_frames"
  using video_at_frame by (auto simp: video_map_def video_frames_def split: if_splits)

lemma video_map_access: "video_map fr s \<Longrightarrow> k < 4096 \<Longrightarrow> access s (VIDEO + of_nat k) = Some (cell fr k)"
  using video_at_access [of fr s k] by (auto simp: video_map_def access_def cell_def split: if_splits)

lemma video_map_updates [simp]:
  fixes s :: "'a screen_scheme"
  shows "video_map fr (pmem_update f s) = video_map fr s"
    and "video_map fr (terminal_update g s) = video_map fr s"
    and "video_map fr (io_update h s) = video_map fr s"
  by (simp_all add: video_map_def paging_on_def)

lemma video_write_cell:
  "video_map fr s \<Longrightarrow> k < 4096 \<Longrightarrow> video_write (int k) c s = s\<lparr>pmem := (pmem s)(cell fr k := c)\<rparr>"
  by (simp add: video_write_def video_map_access)

lemma video_read_cell: "video_map fr s \<Longrightarrow> k < 4096 \<Longrightarrow> video_read (int k) s = pmem s (cell fr k)"
  by (simp add: video_read_def video_map_access)

text \<open>The loops on video memory as loops on memory.\<close>

definition blank :: "u32 \<Rightarrow> nat \<Rightarrow> mem \<Rightarrow> mem" where
  "blank fr i m = m(cell fr (2 * i) := 32, cell fr (2 * i + 1) := 7)"

definition shift_up :: "u32 \<Rightarrow> nat \<Rightarrow> mem \<Rightarrow> mem" where
  "shift_up fr i m =
     (if i < 1920 then m(cell fr (2 * i) := m (cell fr (2 * (i + 80)))) else blank fr i m)"

lemma blank_cell_mem:
  "video_map fr s \<Longrightarrow> i < 2000 \<Longrightarrow> blank_cell i s = s\<lparr>pmem := blank fr i (pmem s)\<rparr>"
  using video_write_cell [of fr s "2 * i" "of_char CHR '' ''"]
    video_write_cell [of fr "s\<lparr>pmem := (pmem s)(cell fr (2 * i) := 32)\<rparr>" "2 * i + 1" 7]
  by (simp add: blank_cell_def blank_def add.commute)

lemma scroll_cell_mem:
  "video_map fr s \<Longrightarrow> i < 2000 \<Longrightarrow> scroll_cell i s = s\<lparr>pmem := shift_up fr i (pmem s)\<rparr>"
  using video_write_cell [of fr s "2 * i"] video_read_cell [of fr s "2 * (i + 80)"]
  by (simp add: scroll_cell_def shift_up_def blank_cell_mem)

lemma fold_mem:
  assumes "\<And>s i. video_map fr s \<Longrightarrow> i < 2000 \<Longrightarrow> f i s = s\<lparr>pmem := g i (pmem s)\<rparr>"
    and "video_map fr (s :: 'a screen_scheme)" and "\<forall>i \<in> set ns. i < 2000"
  shows "fold f ns s = s\<lparr>pmem := fold g ns (pmem s)\<rparr>"
  using assms(2,3)
proof (induction ns arbitrary: s)
  case (Cons i ns)
  then show ?case using assms(1) [of s i] by simp
qed simp

lemma blank_screen:
  assumes "fr \<in> video_frames" and "n \<le> 2000"
  shows "fold (blank fr) [0..<n] m x =
    (if \<exists>k < n. x = cell fr (2 * k) then 32 else if \<exists>k < n. x = cell fr (2 * k + 1) then 7 else m x)"
  using assms(2)
proof (induction n)
  case (Suc n)
  have "\<forall>k < Suc n. cell fr (2 * k) \<noteq> cell fr (2 * n + 1)"
  proof (intro allI impI)
    fix k assume "k < Suc n"
    with Suc.prems have "2 * k < 4096" "2 * n + 1 < 4096" by simp_all
    moreover have "2 * k \<noteq> 2 * n + 1" by presburger
    ultimately show "cell fr (2 * k) \<noteq> cell fr (2 * n + 1)" using assms(1) by simp
  qed
  with Suc show ?case by (auto simp: blank_def less_Suc_eq)
qed simp

lemma shift_screen_frame:
  assumes "n \<le> 2000" and "\<forall>j < 4000. x \<noteq> cell fr j"
  shows "fold (shift_up fr) [0..<n] m x = m x"
  using assms(1)
proof (induction n)
  case (Suc n)
  then have "x \<noteq> cell fr (2 * n)" "x \<noteq> cell fr (2 * n + 1)" using assms(2) by simp_all
  with Suc show ?case by (simp add: shift_up_def blank_def)
qed simp

lemma shift_screen:
  assumes "fr \<in> video_frames" and "n \<le> 2000" and "k < 2000"
  shows "fold (shift_up fr) [0..<n] m (cell fr (2 * k)) =
    (if k < n then if k < 1920 then m (cell fr (2 * (k + 80))) else 32 else m (cell fr (2 * k)))"
  using assms(2,3)
proof (induction n arbitrary: k)
  case (Suc n)
  have ne: "cell fr (2 * k) \<noteq> cell fr (2 * n + 1)"
  proof -
    have "2 * k \<noteq> 2 * n + 1" by presburger
    then show ?thesis using assms(1) Suc.prems by simp
  qed
  have eq: "cell fr (2 * k) = cell fr (2 * n) \<longleftrightarrow> k = n"
    using assms(1) Suc.prems by simp
  define M where "M = fold (shift_up fr) [0..<n] m"
  have step: "fold (shift_up fr) [0..<Suc n] m = shift_up fr n M" by (simp add: M_def)
  have ahead: "n < 1920 \<Longrightarrow> M (cell fr (2 * (n + 80))) = m (cell fr (2 * (n + 80)))"
    unfolding M_def using Suc.IH [of "n + 80"] Suc.prems by simp
  have IH: "M (cell fr (2 * k)) =
      (if k < n then if k < 1920 then m (cell fr (2 * (k + 80))) else 32 else m (cell fr (2 * k)))"
    unfolding M_def using Suc.IH [of k] Suc.prems by simp
  have "shift_up fr n M (cell fr (2 * k)) =
      (if k = n then if n < 1920 then M (cell fr (2 * (n + 80))) else 32 else M (cell fr (2 * k)))"
    using ne eq by (auto simp: shift_up_def blank_def)
  with ahead IH show ?case unfolding step by (auto simp: less_Suc_eq)
qed simp

subsection \<open>An abstract display\<close>

text \<open>The text of a terminal as 25 rows of 80 characters with a cursor, and the effect of a
  character on it.\<close>

record display =
  text_at :: "nat \<Rightarrow> u8"
  col :: int
  row :: int

definition display_feed :: "display \<Rightarrow> display" where
  "display_feed d =
     (if row d + 1 < 25 then d\<lparr>col := 0, row := row d + 1\<rparr>
      else d\<lparr>text_at := \<lambda>k. if k < 1920 then text_at d (k + 80) else if k < 2000 then 32 else text_at d k,
             col := 0\<rparr>)"

definition display_set :: "u8 \<Rightarrow> display \<Rightarrow> display" where
  "display_set c d = d\<lparr>text_at := (text_at d)(nat (80 * row d + col d) := c)\<rparr>"

definition display_putc :: "u8 \<Rightarrow> display \<Rightarrow> display" where
  "display_putc c d =
     (if c = 8 then
        (if col d = 0 \<and> row d = 0 then d
         else if col d = 0 then display_set 32 (d\<lparr>col := 79, row := row d - 1\<rparr>)
         else display_set 32 (d\<lparr>col := col d - 1\<rparr>))
      else if c = 10 \<or> c = 13 then display_feed d
      else let d = (if col d \<ge> 80 then display_feed d else d)
           in (display_set c d)\<lparr>col := col d + 1\<rparr>)"

definition shown :: "u32 \<Rightarrow> int \<Rightarrow> 'a screen_scheme \<Rightarrow> display" where
  "shown fr tid s =
     \<lparr>text_at = \<lambda>k. if k < 2000 then pmem s (cell fr (2 * k)) else 0,
      col = cursor_x (terminal s tid), row = cursor_y (terminal s tid)\<rparr>"

definition cursor_ok :: "terminal_t \<Rightarrow> bool" where
  "cursor_ok t \<longleftrightarrow> 0 \<le> cursor_x t \<and> cursor_x t \<le> 80 \<and> 0 \<le> cursor_y t \<and> cursor_y t < 25"

text \<open>A step that changes nothing but the video frame \<open>fr\<close> and the cursor of terminal \<open>tid\<close>.\<close>

definition touches :: "u32 \<Rightarrow> int \<Rightarrow> 'a screen_scheme \<Rightarrow> 'a screen_scheme \<Rightarrow> bool" where
  "touches fr tid s s' \<longleftrightarrow>
     (\<forall>x. (\<forall>j < 4000. x \<noteq> cell fr j) \<longrightarrow> pmem s' x = pmem s x) \<and>
     (\<forall>t. t \<noteq> tid \<longrightarrow> terminal s' t = terminal s t) \<and>
     keyboard_buffer (terminal s' tid) = keyboard_buffer (terminal s tid) \<and>
     enter_pressed (terminal s' tid) = enter_pressed (terminal s tid) \<and>
     index (terminal s' tid) = index (terminal s tid) \<and>
     cur_terminal s' = cur_terminal s \<and> run_terminal s' = run_terminal s \<and> cr0 s' = cr0 s"

lemma touches_refl [simp]: "touches fr tid s s"
  by (simp add: touches_def)

lemma touches_trans: "touches fr tid s s' \<Longrightarrow> touches fr tid s' s'' \<Longrightarrow> touches fr tid s s''"
  by (simp add: touches_def)

lemma set_cursor_facts [simp]:
  "shown fr tid (set_cursor tid x y s) = (shown fr tid s)\<lparr>col := x, row := y\<rparr>"
  "touches fr tid s (set_cursor tid x y s)"
  "video_map fr (set_cursor tid x y s) = video_map fr s" "video_at fr (set_cursor tid x y s) = video_at fr s"
  "cursor_x (terminal (set_cursor tid x y s) tid) = x"
  "cursor_y (terminal (set_cursor tid x y s) tid) = y"
  "cur_terminal (set_cursor tid x y s) = cur_terminal s"
  "run_terminal (set_cursor tid x y s) = run_terminal s"
  by (auto simp: set_cursor_def shown_def touches_def)

lemma scroll_facts:
  assumes "video_map fr s"
  shows "shown fr tid (scroll s) = (shown fr tid s)\<lparr>text_at :=
      \<lambda>k. if k < 1920 then text_at (shown fr tid s) (k + 80) else if k < 2000 then 32
          else text_at (shown fr tid s) k\<rparr>"
    and "touches fr tid s (scroll s)" and "video_map fr (scroll s)"
    and "terminal (scroll s) = terminal s"
proof -
  have eq: "scroll s = s\<lparr>pmem := fold (shift_up fr) [0..<2000] (pmem s)\<rparr>"
    using fold_mem [where f = scroll_cell and g = "shift_up fr" and fr = fr and ns = "[0..<2000]",
        OF scroll_cell_mem assms]
    by (simp add: scroll_def)
  show "shown fr tid (scroll s) = (shown fr tid s)\<lparr>text_at :=
      \<lambda>k. if k < 1920 then text_at (shown fr tid s) (k + 80) else if k < 2000 then 32
          else text_at (shown fr tid s) k\<rparr>"
    using shift_screen [OF video_map_frame [OF assms]] by (auto simp: shown_def eq fun_eq_iff)
  show "touches fr tid s (scroll s)"
    by (auto simp: touches_def eq shift_screen_frame)
  show "video_map fr (scroll s)" "terminal (scroll s) = terminal s" using assms by (simp_all add: eq)
qed

lemma line_feed_facts:
  assumes "video_map fr s" and "cursor_ok (terminal s tid)"
  shows "shown fr tid (line_feed tid s) = display_feed (shown fr tid s)"
    and "touches fr tid s (line_feed tid s)" and "video_map fr (line_feed tid s)"
    and "cursor_x (terminal (line_feed tid s) tid) = 0"
    and "cursor_ok (terminal (line_feed tid s) tid)"
proof -
  let ?s = "set_cursor tid 0 (cursor_y (terminal s tid) + 1) s"
  have v: "video_map fr ?s" using assms(1) by simp
  note sc = scroll_facts(1,2) [OF v, of tid] scroll_facts(3,4) [OF v]
  have y: "row (shown fr tid s) = cursor_y (terminal s tid)" by (simp add: shown_def)
  have ok: "0 \<le> cursor_y (terminal s tid)" "cursor_y (terminal s tid) < 25"
    using assms(2) by (simp_all add: cursor_ok_def)
  have t: "touches fr tid s (scroll ?s)"
    by (rule touches_trans [OF _ sc(2)]) simp
  show "shown fr tid (line_feed tid s) = display_feed (shown fr tid s)"
    using ok y sc
    by (auto simp: line_feed_def Let_def display_feed_def intro!: display.equality cong: if_cong)
  show "touches fr tid s (line_feed tid s)"
    using ok sc by (auto simp: line_feed_def Let_def intro: touches_trans [OF t])
  show "video_map fr (line_feed tid s)"
    and "cursor_x (terminal (line_feed tid s) tid) = 0"
    and "cursor_ok (terminal (line_feed tid s) tid)"
    using ok sc assms(1) by (auto simp: line_feed_def Let_def cursor_ok_def)
qed

lemma put_cell_facts:
  assumes "video_map fr s" and "cursor_ok (terminal s tid)" and "cursor_x (terminal s tid) < 80"
  shows "shown fr tid (put_cell tid c s) = display_set c (shown fr tid s)"
    and "touches fr tid s (put_cell tid c s)" and "video_map fr (put_cell tid c s)"
    and "terminal (put_cell tid c s) = terminal s"
proof -
  define k where "k = nat (80 * cursor_y (terminal s tid) + cursor_x (terminal s tid))"
  have k: "k < 2000" "80 * cursor_y (terminal s tid) + cursor_x (terminal s tid) = int k"
    using assms(2,3) by (auto simp: k_def cursor_ok_def)
  have fr: "fr \<in> video_frames" by (rule video_map_frame [OF assms(1)])
  have one: "video_write (int (2 * k)) c s = s\<lparr>pmem := (pmem s)(cell fr (2 * k) := c)\<rparr>"
    using k(1) by (intro video_write_cell [OF assms(1)]) simp
  have two: "video_write (int (2 * k + 1)) 7 (s\<lparr>pmem := (pmem s)(cell fr (2 * k) := c)\<rparr>) =
      s\<lparr>pmem := (pmem s)(cell fr (2 * k) := c, cell fr (2 * k + 1) := 7)\<rparr>"
    using k(1) assms(1) by (subst video_write_cell [of fr]) simp_all
  have eq: "put_cell tid c s = s\<lparr>pmem := (pmem s)(cell fr (2 * k) := c, cell fr (2 * k + 1) := 7)\<rparr>"
  proof -
    have "(int NUM_COLS * cursor_y (terminal s tid) + cursor_x (terminal s tid)) * 2 = int (2 * k)"
      using k(2) by simp
    moreover have "int (2 * k) + 1 = int (2 * k + 1)" by simp
    ultimately show ?thesis by (simp only: put_cell_def Let_def one two)
  qed
  have odd: "i < 2000 \<Longrightarrow> cell fr (2 * i) \<noteq> cell fr (2 * k + 1)" for i
  proof -
    assume "i < 2000"
    moreover have "2 * i \<noteq> 2 * k + 1" by presburger
    ultimately show ?thesis using fr k(1) by simp
  qed
  show "shown fr tid (put_cell tid c s) = display_set c (shown fr tid s)"
    using fr k odd by (auto simp: shown_def display_set_def eq fun_eq_iff)
  show "touches fr tid s (put_cell tid c s)"
    using k(1) by (auto simp: touches_def eq)
  show "video_map fr (put_cell tid c s)" "terminal (put_cell tid c s) = terminal s"
    using assms(1) by (simp_all add: eq)
qed

text \<open>\<^verbatim>\<open>memory_switch\<close> maps the frame of the given terminal and changes nothing else.\<close>

definition frame_of :: "'a screen_scheme \<Rightarrow> int \<Rightarrow> u32" where
  "frame_of s t = (if t = cur_terminal s then 0xB8 else 0xBA + word_of_int t)"

lemma frame_of_video: "t \<in> {0, 1, 2} \<Longrightarrow> frame_of s t \<in> video_frames"
  by (auto simp: frame_of_def video_frames_def)

lemma frame_of_inj:
  "t \<in> {0, 1, 2} \<Longrightarrow> t' \<in> {0, 1, 2} \<Longrightarrow> frame_of s t = frame_of s t' \<longleftrightarrow> t = t'"
  by (auto simp: frame_of_def)

lemma memory_switch_fields [simp]:
  "pmem (memory_switch t s) = pmem s" "terminal (memory_switch t s) = terminal s"
  "cur_terminal (memory_switch t s) = cur_terminal s" "run_terminal (memory_switch t s) = run_terminal s"
  "io (memory_switch t s) = io s" "cr0 (memory_switch t s) = cr0 s"
  "frame_of (memory_switch t s) = frame_of s" "shown fr tid (memory_switch t s) = shown fr tid s"
  "\<not> tlb_stale (memory_switch t s)"
  by (simp_all add: memory_switch_def Let_def set_pte_def set_user_pte_def flush_tlb_def frame_of_def
      shown_def fun_eq_iff)

lemma touches_memory_switch [simp]: "touches fr tid s (memory_switch t s)"
  by (simp add: touches_def)

lemma memory_switch_maps:
  "kernel_maps p v fr s \<Longrightarrow> t \<in> {0, 1, 2} \<Longrightarrow> kernel_maps p v (frame_of s t) (memory_switch t s)"
  using frame_of_video [of t s]
  by (auto simp: kernel_maps_def memory_switch_def Let_def set_pte_def set_user_pte_def flush_tlb_def
      pte_fields_word frame_of_def layout_ok_def directory_entry_def video_entry_def split: if_splits)

lemma memory_switch_video_at:
  "video_at fr s \<Longrightarrow> t \<in> {0, 1, 2} \<Longrightarrow> video_at (frame_of s t) (memory_switch t s)"
  by (auto simp: video_at_def paging_on_def intro: memory_switch_maps)

lemma show_cursor_fields [simp]:
  "pmem (show_cursor s) = pmem s" "terminal (show_cursor s) = terminal s"
  "cur_terminal (show_cursor s) = cur_terminal s" "run_terminal (show_cursor s) = run_terminal s"
  "video_at fr (show_cursor s) = video_at fr s" "video_map fr (show_cursor s) = video_map fr s" "shown fr tid (show_cursor s) = shown fr tid s"
  "frame_of (show_cursor s) = frame_of s" "cr0 (show_cursor s) = cr0 s"
  by (simp_all add: show_cursor_def update_cursor_def outb_def Let_def shown_def frame_of_def fun_eq_iff)

lemma touches_show_cursor [simp]: "touches fr tid s (show_cursor s)"
  by (simp add: touches_def)

lemma putc_end_facts [simp]:
  "shown fr tid (putc_end user s) = shown fr tid s" "touches fr tid s (putc_end user s)"
  "terminal (putc_end user s) = terminal s" "pmem (putc_end user s) = pmem s"
  "user \<noteq> 1 \<Longrightarrow> video_map fr (putc_end user s) = video_map fr s"
  by (auto simp: putc_end_def Let_def touches_def)

lemma putc_end_video_at:
  "video_at fr s \<Longrightarrow> run_terminal s \<in> {0, 1, 2} \<Longrightarrow>
     video_at (frame_of s (run_terminal s)) (putc_end 1 s)"
  unfolding putc_end_def Let_def
  using memory_switch_video_at [of fr "show_cursor s" "run_terminal s"] by simp

text \<open>What \<^verbatim>\<open>putc\<close> does before its last step.\<close>

definition putc_body :: "u8 \<Rightarrow> int \<Rightarrow> 'a screen_scheme \<Rightarrow> 'a screen_scheme" where
  "putc_body c tid s =
     (if c = 8 then
        let s = (if cursor_x (terminal s tid) = 0
                 then set_cursor tid 80 (cursor_y (terminal s tid) - 1) s else s);
            s = set_cursor tid (cursor_x (terminal s tid) - 1) (cursor_y (terminal s tid)) s
        in put_cell tid 32 s
      else if c = 10 \<or> c = 13 then line_feed tid s
      else
        let s = (if cursor_x (terminal s tid) \<ge> 80 then show_cursor (line_feed tid s) else s);
            s = put_cell tid c s
        in set_cursor tid (cursor_x (terminal s tid) + 1) (cursor_y (terminal s tid)) s)"

lemma putc_body_eq:
  assumes "cursor_ok (terminal s tid)"
  shows "(if c = 8 then putc_backspace tid user s
      else if c = 10 \<or> c = 13 then putc_newline tid user s else putc_char c tid user s) =
    (if c = 8 \<and> cursor_x (terminal s tid) = 0 \<and> cursor_y (terminal s tid) = 0 then s
     else putc_end user (putc_body c tid s))"
  using assms
  by (simp add: putc_backspace_def putc_newline_def putc_char_def putc_body_def Let_def cursor_ok_def)

lemma set_cursor_ok [simp]:
  "cursor_ok (terminal (set_cursor tid x y s) tid) \<longleftrightarrow> 0 \<le> x \<and> x \<le> 80 \<and> 0 \<le> y \<and> y < 25"
  by (simp add: cursor_ok_def)

lemma putc_body_facts:
  assumes "video_map fr s" and "cursor_ok (terminal s tid)"
    and "\<not> (c = 8 \<and> cursor_x (terminal s tid) = 0 \<and> cursor_y (terminal s tid) = 0)"
  shows "shown fr tid (putc_body c tid s) = display_putc c (shown fr tid s) \<and>
    touches fr tid s (putc_body c tid s) \<and> video_map fr (putc_body c tid s) \<and>
    cursor_ok (terminal (putc_body c tid s) tid)"
proof -
  have xy: "col (shown fr tid s) = cursor_x (terminal s tid)" "row (shown fr tid s) = cursor_y (terminal s tid)"
    by (simp_all add: shown_def)
  have ok: "0 \<le> cursor_x (terminal s tid)" "cursor_x (terminal s tid) \<le> 80"
    "0 \<le> cursor_y (terminal s tid)" "cursor_y (terminal s tid) < 25"
    using assms(2) by (simp_all add: cursor_ok_def)
  consider "c = 8" "cursor_x (terminal s tid) = 0" | "c = 8" "cursor_x (terminal s tid) \<noteq> 0"
    | "c = 10 \<or> c = 13" | "c \<noteq> 8" "c \<noteq> 10" "c \<noteq> 13" by blast
  then show ?thesis
  proof cases
    case 1
    let ?s = "set_cursor tid 79 (cursor_y (terminal s tid) - 1) (set_cursor tid 80 (cursor_y (terminal s tid) - 1) s)"
    have "cursor_ok (terminal ?s tid)" using ok assms(3) 1 by simp
    moreover have "touches fr tid s ?s" by (rule touches_trans [OF set_cursor_facts(2) set_cursor_facts(2)])
    ultimately show ?thesis
      using 1 ok xy assms(1,3) put_cell_facts [of fr ?s tid 32] touches_trans [of fr tid s ?s]
      by (auto simp: putc_body_def display_putc_def)
  next
    case 2
    let ?s = "set_cursor tid (cursor_x (terminal s tid) - 1) (cursor_y (terminal s tid)) s"
    have "cursor_ok (terminal ?s tid)" using ok 2 by simp
    moreover have "touches fr tid s ?s" by simp
    ultimately show ?thesis
      using 2 ok xy assms(1) put_cell_facts [of fr ?s tid 32] touches_trans [of fr tid s ?s]
      by (auto simp: putc_body_def display_putc_def display_set_def)
  next
    case 3
    then show ?thesis
      using line_feed_facts [OF assms(1,2)] by (auto simp: putc_body_def display_putc_def)
  next
    case 4
    define z where "z = (if cursor_x (terminal s tid) \<ge> 80 then show_cursor (line_feed tid s) else s)"
    have z: "video_map fr z" "cursor_ok (terminal z tid)" "cursor_x (terminal z tid) < 80"
      "shown fr tid z = (if col (shown fr tid s) \<ge> 80 then display_feed (shown fr tid s) else shown fr tid s)"
      "touches fr tid s z"
      using line_feed_facts [OF assms(1,2)] assms(1,2) xy touches_trans [OF line_feed_facts(2) [OF assms(1,2)]]
      by (auto simp: z_def)
    note put = put_cell_facts [OF z(1-3), of c]
    let ?u = "put_cell tid c z"
    let ?v = "set_cursor tid (cursor_x (terminal ?u tid) + 1) (cursor_y (terminal ?u tid)) ?u"
    have body: "putc_body c tid s = ?v" using 4 by (simp add: putc_body_def Let_def flip: z_def)
    have "row (shown fr tid z) = cursor_y (terminal z tid)" "col (shown fr tid z) = cursor_x (terminal z tid)"
      by (simp_all add: shown_def)
    then have "shown fr tid ?v = (display_set c (shown fr tid z))\<lparr>col := col (shown fr tid z) + 1\<rparr>"
      using put(1,4) by (simp add: display_set_def)
    moreover have "touches fr tid s ?v"
      by (rule touches_trans [OF z(5) touches_trans [OF put(2)]]) simp
    moreover have "cursor_ok (terminal ?v tid)" using z(2,3) put(4) by (simp add: cursor_ok_def)
    ultimately show ?thesis
      unfolding body using 4 z(4) put(3) by (simp add: display_putc_def Let_def)
  qed
qed

subsection \<open>Terminals on one screen\<close>

text \<open>The state between two calls: the video page stands for the frame of the running terminal
  and every cursor is on the screen.\<close>

definition screen_ok :: "'a screen_scheme \<Rightarrow> bool" where
  "screen_ok s \<longleftrightarrow> cur_terminal s \<in> {0, 1, 2} \<and> run_terminal s \<in> {0, 1, 2} \<and>
     video_at (frame_of s (run_terminal s)) s \<and> (\<forall>t \<in> {0, 1, 2}. cursor_ok (terminal s t))"

definition display_of :: "'a screen_scheme \<Rightarrow> int \<Rightarrow> display" where
  "display_of s t = shown (frame_of s t) t s"

lemma touches_frame: "touches fr tid s s' \<Longrightarrow> frame_of s' = frame_of s"
  by (auto simp: touches_def frame_of_def fun_eq_iff)

text \<open>A step in the frame of one terminal leaves the display of the others alone.\<close>

lemma touches_other:
  assumes "touches (frame_of s tid) tid s s'" and "t \<in> {0, 1, 2}" and "tid \<in> {0, 1, 2}" and "t \<noteq> tid"
  shows "display_of s' t = display_of s t"
proof -
  have "frame_of s t \<noteq> frame_of s tid" using frame_of_inj [OF assms(2,3)] assms(4) by simp
  then have "\<forall>j < 4000. cell (frame_of s t) (2 * k) \<noteq> cell (frame_of s tid) j" if "k < 2000" for k
    using that by (simp add: frame_of_video [OF assms(2)] frame_of_video [OF assms(3)])
  then show ?thesis
    using assms(1,4) by (auto simp: display_of_def touches_frame [OF assms(1)] shown_def touches_def fun_eq_iff)
qed

lemma touches_cursors:
  "touches fr tid s s' \<Longrightarrow> cursor_ok (terminal s' tid) \<Longrightarrow> \<forall>t \<in> {0, 1, 2}. cursor_ok (terminal s t) \<Longrightarrow>
     \<forall>t \<in> {0, 1, 2}. cursor_ok (terminal s' t)"
  unfolding touches_def by metis

lemma putc_run_eq:
  "putc c 0 s = (if c = 8 then putc_backspace (run_terminal s) 0 s
     else if c = 10 \<or> c = 13 then putc_newline (run_terminal s) 0 s else putc_char c (run_terminal s) 0 s)"
  by (simp add: putc_def)

lemma putc_cur_eq:
  "putc c 1 s = (let s' = memory_switch (cur_terminal s) s
     in if c = 8 then putc_backspace (cur_terminal s) 1 s'
        else if c = 10 \<or> c = 13 then putc_newline (cur_terminal s) 1 s' else putc_char c (cur_terminal s) 1 s')"
  by (simp add: putc_def Let_def)

lemma putc_map_facts:
  assumes v: "video_map fr s" and ok: "cursor_ok (terminal s (run_terminal s))"
  shows "shown fr (run_terminal s) (putc c 0 s) = display_putc c (shown fr (run_terminal s) s) \<and>
    touches fr (run_terminal s) s (putc c 0 s) \<and> video_map fr (putc c 0 s) \<and>
    cursor_ok (terminal (putc c 0 s) (run_terminal s))"
proof -
  define tid where "tid = run_terminal s"
  note ok = ok [folded tid_def]
  have eq: "putc c 0 s = (if c = 8 \<and> cursor_x (terminal s tid) = 0 \<and> cursor_y (terminal s tid) = 0 then s
      else putc_end 0 (putc_body c tid s))"
    unfolding putc_run_eq tid_def [symmetric] by (rule putc_body_eq [OF ok])
  show ?thesis
  proof (cases "c = 8 \<and> cursor_x (terminal s tid) = 0 \<and> cursor_y (terminal s tid) = 0")
    case True
    then have "putc c 0 s = s" unfolding eq by (rule if_P)
    moreover have "display_putc c (shown fr tid s) = shown fr tid s"
      using True by (simp add: display_putc_def shown_def)
    ultimately show ?thesis using v ok by (simp add: tid_def)
  next
    case False
    then have "putc c 0 s = putc_end 0 (putc_body c tid s)" unfolding eq by (rule if_not_P)
    moreover note body = putc_body_facts [OF v ok False]
    moreover from body have "touches fr tid s (putc_end 0 (putc_body c tid s))"
      by (intro touches_trans [OF _ putc_end_facts(2)]) simp
    ultimately show ?thesis by (simp add: tid_def)
  qed
qed

lemma touches_paging: "touches fr tid s s' \<Longrightarrow> paging_on s' = paging_on s"
  by (simp add: touches_def paging_on_def)

lemma putc_run_facts:
  assumes "screen_ok s"
  shows "screen_ok (putc c 0 s)" and "run_terminal (putc c 0 s) = run_terminal s"
    and "t \<in> {0, 1, 2} \<Longrightarrow> display_of (putc c 0 s) t =
      (if t = run_terminal s then display_putc c (display_of s t) else display_of s t)"
    and putc_run_touches: "touches (frame_of s (run_terminal s)) (run_terminal s) s (putc c 0 s)"
proof -
  define tid where "tid = run_terminal s"
  let ?fr = "frame_of s tid"
  have v: "video_map ?fr s" and ok: "cursor_ok (terminal s tid)" and tid: "tid \<in> {0, 1, 2}" and on: "paging_on s"
    using assms by (auto simp: screen_ok_def tid_def video_at_map)
  define s' where "s' = putc c 0 s"
  have s': "shown ?fr tid s' = display_putc c (shown ?fr tid s) \<and> touches ?fr tid s s' \<and>
      video_map ?fr s' \<and> cursor_ok (terminal s' tid)"
    unfolding s'_def using putc_map_facts v ok unfolding tid_def by blast
  then have t: "touches ?fr tid s s'" and ok': "cursor_ok (terminal s' tid)" and v': "video_at ?fr s'"
    using on touches_paging [of ?fr tid s s'] by (simp_all add: video_at_map)
  from t show "touches (frame_of s (run_terminal s)) (run_terminal s) s (putc c 0 s)"
    by (simp add: s'_def tid_def)
  have fr: "frame_of s' = frame_of s" by (rule touches_frame [OF t])
  have same: "cur_terminal s' = cur_terminal s" "run_terminal s' = run_terminal s"
    using t by (simp_all add: touches_def)
  have "\<forall>t \<in> {0, 1, 2}. cursor_ok (terminal s t)" using assms by (simp add: screen_ok_def)
  then have "\<forall>t \<in> {0, 1, 2}. cursor_ok (terminal s' t)" by (rule touches_cursors [OF t ok'])
  then show "screen_ok (putc c 0 s)" "run_terminal (putc c 0 s) = run_terminal s"
    using assms v' fr same unfolding s'_def [symmetric] by (simp_all add: screen_ok_def tid_def)
  show "display_of (putc c 0 s) t = (if t = run_terminal s then display_putc c (display_of s t) else display_of s t)"
    if "t \<in> {0, 1, 2}"
    using s' [THEN conjunct1] fr touches_other [OF t that tid]
    unfolding s'_def [symmetric] tid_def [symmetric] by (auto simp: display_of_def)
qed

lemma frame_of_cur [simp]: "frame_of s (cur_terminal s) = 0xB8"
  by (simp add: frame_of_def)

lemma putc_cur_facts:
  assumes "screen_ok s"
    and "\<not> (c = 8 \<and> cursor_x (terminal s (cur_terminal s)) = 0 \<and> cursor_y (terminal s (cur_terminal s)) = 0)"
  shows "screen_ok (putc c 1 s)"
    and "touches 0xB8 (cur_terminal s) s (putc c 1 s)"
    and "t \<in> {0, 1, 2} \<Longrightarrow> display_of (putc c 1 s) t =
      (if t = cur_terminal s then display_putc c (display_of s t) else display_of s t)"
proof -
  define tid where "tid = cur_terminal s"
  define z where "z = memory_switch tid s"
  have tid: "tid \<in> {0, 1, 2}" using assms(1) by (simp add: screen_ok_def tid_def)
  have fz: "frame_of s tid = 0xB8" by (simp add: tid_def)
  have v: "video_at 0xB8 z"
    using assms(1) memory_switch_video_at [OF _ tid] fz unfolding z_def screen_ok_def by metis
  have ok: "cursor_ok (terminal z tid)"
    using assms(1) tid by (auto simp: screen_ok_def z_def)
  have no: "\<not> (c = 8 \<and> cursor_x (terminal z tid) = 0 \<and> cursor_y (terminal z tid) = 0)"
    using assms(2) by (simp add: z_def tid_def)
  define s' where "s' = putc c 1 s"
  have eq: "s' = putc_end 1 (putc_body c tid z)"
    unfolding s'_def putc_cur_eq Let_def tid_def [symmetric] z_def [symmetric] putc_body_eq [OF ok]
    using no by (rule if_not_P)
  have vm: "video_map 0xB8 z" and on: "paging_on z" using v by (simp_all add: video_at_map)
  note body = putc_body_facts [OF vm ok no]
  have t: "touches 0xB8 tid s s'"
  proof -
    have "touches 0xB8 tid s z" by (simp add: z_def)
    moreover have "touches 0xB8 tid z (putc_body c tid z)" using body by simp
    ultimately show ?thesis unfolding eq by (rule touches_trans [OF touches_trans putc_end_facts(2)])
  qed
  have fr: "frame_of s' = frame_of s" by (rule touches_frame [OF t])
  have same: "cur_terminal s' = cur_terminal s" "run_terminal s' = run_terminal s"
    using t by (simp_all add: touches_def)
  have run: "run_terminal (putc_body c tid z) = run_terminal s" "frame_of (putc_body c tid z) = frame_of s"
    using body touches_frame [of "0xB8" tid z "putc_body c tid z"] by (auto simp: touches_def z_def)
  have "video_at (frame_of s (run_terminal s)) s'"
    using putc_end_video_at [of "0xB8" "putc_body c tid z"] body assms(1) on
      touches_paging [of "0xB8" tid z "putc_body c tid z"]
    unfolding eq run by (simp add: screen_ok_def video_at_map)
  moreover have "cursor_ok (terminal s' tid)" using body by (simp add: eq)
  then have "\<forall>t \<in> {0, 1, 2}. cursor_ok (terminal s' t)"
    using assms(1) by (intro touches_cursors [OF t]) (simp_all add: screen_ok_def)
  ultimately show "screen_ok (putc c 1 s)"
    using assms(1) fr same unfolding s'_def [symmetric] by (simp add: screen_ok_def)
  show "touches 0xB8 (cur_terminal s) s (putc c 1 s)"
    using t by (simp add: s'_def tid_def)
  have "shown 0xB8 tid s' = display_putc c (shown 0xB8 tid s)"
    using body by (simp add: eq z_def)
  then show "display_of (putc c 1 s) t =
      (if t = cur_terminal s then display_putc c (display_of s t) else display_of s t)"
    if "t \<in> {0, 1, 2}"
    using fr touches_other [OF t [folded fz] that tid] fz
    unfolding s'_def [symmetric] tid_def [symmetric] by (auto simp: display_of_def)
qed

text \<open>The contract of a character output: each character acts on an abstract view as \<open>step\<close>
  says.  A string then acts as the sequence of its characters.\<close>

locale char_sink =
  fixes put :: "u8 \<Rightarrow> 's \<Rightarrow> 's" and view :: "'s \<Rightarrow> 'd" and step :: "u8 \<Rightarrow> 'd \<Rightarrow> 'd" and ok :: "'s \<Rightarrow> bool"
  assumes put_ok: "ok s \<Longrightarrow> ok (put c s)"
    and put_view: "ok s \<Longrightarrow> view (put c s) = step c (view s)"
begin

lemma put_all_ok: "ok s \<Longrightarrow> ok (fold put cs s)"
  by (induction cs arbitrary: s) (simp_all add: put_ok)

lemma put_all_view: "ok s \<Longrightarrow> view (fold put cs s) = fold step cs (view s)"
  by (induction cs arbitrary: s) (simp_all add: put_ok put_view)

end

text \<open>The displays of the three terminals, with the terminal that output goes to.\<close>

definition all_displays :: "'a screen_scheme \<Rightarrow> int \<times> (int \<Rightarrow> display option)" where
  "all_displays s = (run_terminal s, \<lambda>t. if t \<in> {0, 1, 2} then Some (display_of s t) else None)"

definition displays_putc :: "u8 \<Rightarrow> int \<times> (int \<Rightarrow> display option) \<Rightarrow> int \<times> (int \<Rightarrow> display option)" where
  "displays_putc c d = (fst d, \<lambda>t. if t = fst d then map_option (display_putc c) (snd d t) else snd d t)"

interpretation console: char_sink "\<lambda>c. putc c 0" all_displays displays_putc screen_ok
proof
  fix s :: "'a screen_scheme" and c :: u8
  assume ok: "screen_ok s"
  show "screen_ok (putc c 0 s)" by (rule putc_run_facts(1) [OF ok])
  show "all_displays (putc c 0 s) = displays_putc c (all_displays s)"
    using putc_run_facts(2,3) [OF ok] by (auto simp: all_displays_def displays_putc_def fun_eq_iff)
qed

lemma displays_putc_all:
  "fold displays_putc cs (r, D) = (r, \<lambda>t. if t = r then map_option (fold display_putc cs) (D t) else D t)"
proof (induction cs arbitrary: D)
  case (Cons c cs)
  have "map_option (fold display_putc cs) (map_option (display_putc c) d) =
      map_option (fold display_putc (c # cs)) d" for d
    by (cases d) simp_all
  with Cons show ?case by (auto simp: displays_putc_def fun_eq_iff)
qed (auto simp: option.map_id fun_eq_iff)

lemma put_string_facts:
  assumes "screen_ok s"
  shows "screen_ok (put_string cs s)" and "run_terminal (put_string cs s) = run_terminal s"
    and "t \<in> {0, 1, 2} \<Longrightarrow> display_of (put_string cs s) t =
      (if t = run_terminal s then fold display_putc cs (display_of s t) else display_of s t)"
proof -
  have v: "all_displays (put_string cs s) = fold displays_putc cs (all_displays s)"
    unfolding put_string_def by (rule console.put_all_view [OF assms])
  show "screen_ok (put_string cs s)" unfolding put_string_def by (rule console.put_all_ok [OF assms])
  show "run_terminal (put_string cs s) = run_terminal s"
    using arg_cong [OF v, of fst] by (simp add: all_displays_def displays_putc_all)
  show "display_of (put_string cs s) t =
      (if t = run_terminal s then fold display_putc cs (display_of s t) else display_of s t)"
    if "t \<in> {0, 1, 2}"
    using arg_cong [OF v, of "\<lambda>d. snd d t"] that
    by (auto simp: all_displays_def displays_putc_all split: if_splits)
qed

text \<open>C26: output of a process.  \<^verbatim>\<open>terminal_write\<close> returns the number of bytes and shows them on
  the terminal of the running process as a 25 by 80 display would, scrolling included, whether
  that terminal is the visible one or not; the other two terminals keep their text and cursor.\<close>

theorem terminal_write_refines:
  assumes "screen_ok s" and "buf \<noteq> 0" and "0 \<le> nbytes" and "t \<in> {0, 1, 2}"
  shows "fst (terminal_write m fd buf nbytes s) = nbytes \<and>
    screen_ok (snd (terminal_write m fd buf nbytes s)) \<and>
    display_of (snd (terminal_write m fd buf nbytes s)) t =
      (if t = run_terminal s then fold display_putc (read_bytes m buf (nat nbytes)) (display_of s t)
       else display_of s t)"
  using assms(2,3) put_string_facts(1) [OF assms(1)] put_string_facts(3) [OF assms(1,4)]
  by (simp add: terminal_write_def)

definition demo_terminal :: terminal_t where
  "demo_terminal = \<lparr>keyboard_buffer = replicate 128 0, enter_pressed = 0, cursor_x = 0, cursor_y = 0, index = 0\<rparr>"

definition boot_screen :: screen where
  "boot_screen = \<lparr>page_directory = \<lambda>_. 0, page_table = \<lambda>_. 0, user_video_page_table = \<lambda>_. 0,
     page_directory_addr = 0x410000, page_table_addr = 0x411000, user_video_page_table_addr = 0x412000,
     cr0 = 0, cr3 = 0, cr4 = 0, tlb_stale = False, io = [],
     port_reply = \<lambda>l p. if p = 0x3D5 then crtc_reg l (crtc_index l) else 0,
     interrupts_on = False, master_mask = 0, slave_mask = 0,
     pmem = \<lambda>_. 0, terminal = \<lambda>_. demo_terminal, cur_terminal = 0, run_terminal = 1\<rparr>"

text \<open>Terminal 0 is displayed and a process of terminal 1 runs.\<close>

definition demo_screen :: screen where
  "demo_screen = memory_switch 1 (page_init boot_screen)"

lemma page_init_fields [simp]:
  "pmem (page_init s) = pmem s" "terminal (page_init s) = terminal s"
  "cur_terminal (page_init s) = cur_terminal s" "run_terminal (page_init s) = run_terminal s"
  "paging_on (page_init s)" "frame_of (page_init s) = frame_of s"
proof -
  obtain d t where eq: "clear_tables 1024 s = s\<lparr>page_directory := d, page_table := t\<rparr>"
    using clear_tables_shape by blast
  have "bit (cr0 s OR 0x80000000 :: u32) 31" by (simp add: bit_simps)
  then show "pmem (page_init s) = pmem s" "terminal (page_init s) = terminal s"
    "cur_terminal (page_init s) = cur_terminal s" "run_terminal (page_init s) = run_terminal s"
    "paging_on (page_init s)" "frame_of (page_init s) = frame_of s"
    by (simp_all add: page_init_def Let_def eq set_crs_def set_pde_def set_pte_def paging_on_def
        frame_of_def fun_eq_iff)
qed

lemma demo_screen_ok: "screen_ok demo_screen" "run_terminal demo_screen = 1" "cur_terminal demo_screen = 0"
proof -
  have "kernel_maps None False 0xB8 (page_init boot_screen)"
    using page_init_maps [of boot_screen] by (simp add: boot_screen_def layout_ok_def)
  then have "video_at 0xB8 (page_init boot_screen)" by (auto simp: video_at_def)
  then have "video_at (frame_of boot_screen 1) demo_screen"
    using memory_switch_video_at [of "0xB8" "page_init boot_screen" 1] by (simp add: demo_screen_def)
  then show "screen_ok demo_screen" "run_terminal demo_screen = 1" "cur_terminal demo_screen = 0"
    by (simp_all add: screen_ok_def demo_screen_def boot_screen_def demo_terminal_def cursor_ok_def)
qed

theorem terminal_write_refines_witness:
  "text_at (display_of (snd (terminal_write (\<lambda>_. 65) 1 0x1000 2 demo_screen)) 1) 1 = 65 \<and>
   display_of (snd (terminal_write (\<lambda>_. 65) 1 0x1000 2 demo_screen)) 0 = display_of demo_screen 0"
proof -
  have "read_bytes (\<lambda>_. 65) 0x1000 2 = [65, 65 :: u8]" by (simp add: numeral_2_eq_2 read_bytes_Suc)
  moreover have "pmem demo_screen = (\<lambda>_. 0)" "terminal demo_screen = (\<lambda>_. demo_terminal)"
    by (simp_all add: demo_screen_def boot_screen_def)
  then have "display_of demo_screen 1 = \<lparr>text_at = \<lambda>_. 0, col = 0, row = 0\<rparr>"
    by (simp add: display_of_def shown_def demo_terminal_def fun_eq_iff)
  ultimately show ?thesis
    using terminal_write_refines [OF demo_screen_ok(1), of "0x1000" 2 1 "\<lambda>_. 65" 1]
      terminal_write_refines [OF demo_screen_ok(1), of "0x1000" 2 0 "\<lambda>_. 65" 1] demo_screen_ok(2)
    by (simp add: display_putc_def display_set_def)
qed

text \<open>Echo of the keyboard.  A character typed by the user (\<^verbatim>\<open>putc\<close> with flag 1) appears on
  the visible terminal, the others keep their displays, and afterwards the video page stands
  again for the terminal of the running process.  The one exception is a backspace at the top
  left corner.\<close>

theorem putc_echo_refines:
  assumes "screen_ok s" and "t \<in> {0, 1, 2}"
    and "\<not> (c = 8 \<and> cursor_x (terminal s (cur_terminal s)) = 0 \<and> cursor_y (terminal s (cur_terminal s)) = 0)"
  shows "screen_ok (putc c 1 s) \<and> display_of (putc c 1 s) t =
    (if t = cur_terminal s then display_putc c (display_of s t) else display_of s t)"
  using putc_cur_facts(1) [OF assms(1,3)] putc_cur_facts(3) [OF assms(1,3,2)] by simp

theorem putc_echo_refines_witness:
  "screen_ok (putc 65 1 demo_screen) \<and> display_of (putc 65 1 demo_screen) 1 = display_of demo_screen 1"
  using putc_echo_refines [OF demo_screen_ok(1), of 1 65] demo_screen_ok(3) by simp

lemma video_at_unique: "video_at fr s \<Longrightarrow> video_at fr' s \<Longrightarrow> fr = fr'"
proof -
  assume a: "video_at fr s" "video_at fr' s"
  then have "page_table s 0xB8 = pde_word fr 0 0 0" "page_table s 0xB8 = pde_word fr' 0 0 0"
    by (auto simp: video_at_def kernel_maps_def video_entry_def)
  then have "take_bit 20 fr = take_bit 20 fr'" by (metis pde_word_bits(4))
  with a show ?thesis using video_frame_number video_at_frame by metis
qed

text \<open>The exception is a defect.  A backspace typed with the visible cursor at the top left
  corner, which happens after the screen was cleared in the middle of a line, returns before the
  mapping is restored: the running process, if it belongs to another terminal, then writes to the
  visible screen.\<close>

theorem backspace_at_origin_keeps_wrong_frame:
  assumes "screen_ok s" and "run_terminal s \<noteq> cur_terminal s"
    and "cursor_x (terminal s (cur_terminal s)) = 0" and "cursor_y (terminal s (cur_terminal s)) = 0"
  shows "video_at 0xB8 (putc 8 1 s) \<and> \<not> screen_ok (putc 8 1 s)"
proof -
  have cur: "cur_terminal s \<in> {0, 1, 2}" and run: "run_terminal s \<in> {0, 1, 2}"
    using assms(1) by (simp_all add: screen_ok_def)
  have eq: "putc 8 1 s = memory_switch (cur_terminal s) s"
    using assms(3,4) by (simp add: putc_def Let_def putc_backspace_def)
  have v: "video_at 0xB8 (putc 8 1 s)"
    using memory_switch_video_at [OF _ cur, of "frame_of s (run_terminal s)" s] assms(1)
    unfolding eq by (simp add: screen_ok_def)
  moreover have "frame_of s (run_terminal s) \<noteq> 0xB8"
    using frame_of_inj [OF run cur, of s] assms(2) by simp
  ultimately have "\<not> video_at (frame_of s (run_terminal s)) (putc 8 1 s)"
    using video_at_unique by metis
  with v show ?thesis by (simp add: screen_ok_def eq)
qed

theorem backspace_at_origin_keeps_wrong_frame_witness:
  "\<not> screen_ok (putc 8 1 demo_screen)"
  using backspace_at_origin_keeps_wrong_frame [OF demo_screen_ok(1)] demo_screen_ok(2,3)
  by (simp add: demo_screen_def boot_screen_def demo_terminal_def)

subsection \<open>Clearing the screen\<close>

lemma clear_facts:
  assumes vy: "video_map 0xB8 (memory_switch (cur_terminal s)
      (set_cursor (cur_terminal s) 0 0 (memory_switch (cur_terminal s) s)))"
  shows "touches 0xB8 (cur_terminal s) s (clear s)"
    and "k < 2000 \<Longrightarrow> pmem (clear s) (cell 0xB8 (2 * k)) = 32"
    and "cursor_x (terminal (clear s) (cur_terminal s)) = 0" "cursor_y (terminal (clear s) (cur_terminal s)) = 0"
    and "\<exists>z. clear s = show_cursor (memory_switch (run_terminal s) z) \<and> touches 0xB8 (cur_terminal s) s z \<and>
      video_map 0xB8 z"
proof -
  define tid where "tid = cur_terminal s"
  define y where "y = memory_switch tid (set_cursor tid 0 0 (memory_switch tid s))"
  note vy = vy [folded tid_def, folded y_def]
  define z where "z = y\<lparr>pmem := fold (blank 0xB8) [0..<2000] (pmem y)\<rparr>"
  have fold: "fold blank_cell [0..<2000] y = z"
    using fold_mem [where f = blank_cell and g = "blank 0xB8" and fr = "0xB8" and ns = "[0..<2000]",
        OF blank_cell_mem vy] by (simp add: z_def)
  have eq: "clear s = show_cursor (memory_switch (run_terminal s) z)"
    using fold by (simp add: clear_def Let_def y_def tid_def z_def)
  have fr: "(0xB8 :: u32) \<in> video_frames" by (simp add: video_frames_def)
  show "pmem (clear s) (cell 0xB8 (2 * k)) = 32" if "k < 2000" for k
    unfolding eq z_def using blank_screen [OF fr, of 2000 "pmem y"] that by auto
  have out: "fold (blank 0xB8) [0..<2000] m x = m x" if "\<forall>j < 4000. x \<noteq> cell 0xB8 j" for m x
  proof -
    have "x \<noteq> cell 0xB8 (2 * k)" "x \<noteq> cell 0xB8 (2 * k + 1)" if "k < 2000" for k
      using that \<open>\<forall>j < 4000. x \<noteq> cell 0xB8 j\<close> by simp_all
    then show ?thesis using blank_screen [OF fr, of 2000 m x] by auto
  qed
  have t: "touches 0xB8 tid s z"
    using out by (auto simp: touches_def z_def y_def set_cursor_def)
  then show "touches 0xB8 (cur_terminal s) s (clear s)"
    unfolding eq tid_def by (rule touches_trans [OF touches_trans [OF _ touches_memory_switch] touches_show_cursor])
  show "cursor_x (terminal (clear s) (cur_terminal s)) = 0" "cursor_y (terminal (clear s) (cur_terminal s)) = 0"
    by (simp_all add: eq z_def y_def flip: tid_def)
  show "\<exists>z. clear s = show_cursor (memory_switch (run_terminal s) z) \<and> touches 0xB8 (cur_terminal s) s z \<and>
      video_map 0xB8 z"
    using eq t vy by (intro exI [of _ z]) (simp add: tid_def z_def)
qed

lemma clear_screen:
  assumes "screen_ok s" and "t \<in> {0, 1, 2}"
  shows "screen_ok (clear s) \<and> display_of (clear s) t =
    (if t = cur_terminal s then \<lparr>text_at = \<lambda>k. if k < 2000 then 32 else 0, col = 0, row = 0\<rparr>
     else display_of s t)"
proof -
  define tid where "tid = cur_terminal s"
  define y where "y = memory_switch tid (set_cursor tid 0 0 (memory_switch tid s))"
  have tid: "tid \<in> {0, 1, 2}" using assms(1) by (simp add: screen_ok_def tid_def)
  have "video_at 0xB8 (memory_switch tid s)"
    using memory_switch_video_at [OF _ tid, of "frame_of s (run_terminal s)" s] assms(1)
    by (simp add: screen_ok_def tid_def)
  then have vy: "video_at 0xB8 y"
    using memory_switch_video_at [OF _ tid, of "0xB8" "set_cursor tid 0 0 (memory_switch tid s)"]
    by (simp add: y_def frame_of_def tid_def)
  then have vm: "video_map 0xB8 (memory_switch tid (set_cursor tid 0 0 (memory_switch tid s)))" and on: "paging_on s"
    by (simp_all add: video_at_map y_def paging_on_def set_cursor_def)
  note facts = clear_facts [OF vm [unfolded tid_def], folded tid_def]
  note t' = facts(1) and cur = facts(3,4)
  obtain z where eq: "clear s = show_cursor (memory_switch (run_terminal s) z)" and t: "touches 0xB8 tid s z"
    and vz: "video_map 0xB8 z" using facts(5) by blast
  have "video_at 0xB8 z" using vz on touches_paging [OF t] by (simp add: video_at_map)
  then have "video_at (frame_of z (run_terminal s)) (memory_switch (run_terminal s) z)"
    using assms(1) by (intro memory_switch_video_at [of "0xB8"]) (simp_all add: screen_ok_def)
  then have v: "video_at (frame_of s (run_terminal s)) (clear s)"
    using touches_frame [OF t] by (simp add: eq)
  have "\<forall>t \<in> {0, 1, 2}. cursor_ok (terminal (clear s) t)"
    using assms(1) by (intro touches_cursors [OF t']) (simp_all add: screen_ok_def cursor_ok_def cur)
  with v t' have "screen_ok (clear s)"
    using assms(1) touches_frame [OF t'] by (simp add: screen_ok_def touches_def)
  moreover have "shown 0xB8 tid (clear s) = \<lparr>text_at = \<lambda>k. if k < 2000 then 32 else 0, col = 0, row = 0\<rparr>"
    using facts(2) cur by (auto simp: shown_def fun_eq_iff)
  moreover have "t \<noteq> tid \<Longrightarrow> display_of (clear s) t = display_of s t"
    using t' by (intro touches_other [OF _ assms(2) tid]) (simp_all add: tid_def)
  ultimately show ?thesis
    using touches_frame [OF t'] by (auto simp: display_of_def tid_def)
qed

text \<open>\<^verbatim>\<open>clear\<close> blanks the visible terminal and moves its cursor to the corner, and leaves the
  other terminals and the mapping of the running terminal as they were.\<close>

theorem clear_correct:
  assumes "screen_ok s" and "t \<in> {0, 1, 2}"
  shows "screen_ok (clear s) \<and> display_of (clear s) t =
    (if t = cur_terminal s then \<lparr>text_at = \<lambda>k. if k < 2000 then 32 else 0, col = 0, row = 0\<rparr>
     else display_of s t)"
  by (rule clear_screen [OF assms])

theorem clear_correct_witness:
  "text_at (display_of (clear demo_screen) 0) 1999 = 32 \<and>
   display_of (clear demo_screen) 2 = display_of demo_screen 2"
  using clear_correct [OF demo_screen_ok(1), of 0] clear_correct [OF demo_screen_ok(1), of 2]
    demo_screen_ok(3) by simp

subsection \<open>Reading a line\<close>

lemma write_bytes_take_Suc:
  "ct < length kb \<Longrightarrow> (write_bytes m buf (take ct kb))(buf + of_nat ct := kb ! ct) =
     write_bytes m buf (take (Suc ct) kb)"
  by (simp add: take_Suc_conv_app_nth write_bytes_append)

text \<open>The copy loop stops at the new line at position \<open>p\<close>, or at the size of the request.\<close>

lemma copy_line_run:
  assumes "length kb = 128" and "p < 128" and "kb ! p = 10" and "\<forall>i < p. kb ! i \<noteq> 10"
    and "0 \<le> nbytes" and "ct \<le> p" and "int ct \<le> nbytes"
  shows "copy_line (write_bytes m buf (take ct kb)) buf kb nbytes ct =
    (if int p < nbytes then (write_bytes m buf (take (Suc p) kb), p, True)
     else (write_bytes m buf (take (nat nbytes) kb), nat nbytes, False))"
  using assms(6,7)
proof (induction "p - ct" arbitrary: ct)
  case 0
  then have "ct = p" by simp
  with assms(1-3) write_bytes_take_Suc [of p kb] 0 show ?case
    by (subst copy_line.simps) (auto simp: Let_def fun_upd_def [symmetric])
next
  case (Suc k)
  then have ct: "ct < p" "kb ! ct \<noteq> 10" using assms(4) by simp_all
  show ?case
  proof (cases "int ct < nbytes")
    case True
    then show ?thesis
      using Suc.hyps(1) [of "Suc ct"] Suc.hyps(2) ct assms(1,2) write_bytes_take_Suc [of ct kb m buf]
      by (subst copy_line.simps) (simp add: Let_def)
  next
    case False
    with Suc.prems have "nat nbytes = ct" "nbytes = int ct" by simp_all
    with ct False show ?thesis by (subst copy_line.simps) simp
  qed
qed

lemma terminal_read_line_finish:
  assumes "keyboard_buffer t = line @ 10 # rest" and "length (keyboard_buffer t) = 128"
    and "10 \<notin> set line" and "0 \<le> nbytes"
  shows "terminal_read_finish m t buf nbytes =
    (if int (length line) + 1 < nbytes then (int (length line) + 1, write_bytes m buf (line @ [0]))
     else if nbytes = int (length line) + 1 then (nbytes, write_bytes m buf (line @ [10]))
     else (nbytes, write_bytes m buf (take (nat nbytes) line)))"
proof -
  let ?kb = "keyboard_buffer t" and ?p = "length line"
  have p: "?p < 128" using assms(1,2) by simp
  have run: "copy_line m buf ?kb nbytes 0 =
    (if int ?p < nbytes then (write_bytes m buf (line @ [10]), ?p, True)
     else (write_bytes m buf (take (nat nbytes) ?kb), nat nbytes, False))"
  proof -
    have "?kb ! ?p = 10" by (simp add: assms(1))
    moreover have "\<forall>i < ?p. ?kb ! i \<noteq> 10"
      using assms(3) by (auto simp: assms(1) nth_append dest: nth_mem)
    moreover have "take (Suc ?p) ?kb = line @ [10]" by (simp add: assms(1))
    ultimately show ?thesis
      using copy_line_run [OF assms(2) p _ _ assms(4), of 0 m buf] assms(4) by simp
  qed
  have "(write_bytes m buf (line @ [10]))(buf + of_nat ?p := 0) = write_bytes m buf (line @ [0])"
    by (simp add: write_bytes_append)
  moreover have "nbytes \<le> int ?p \<Longrightarrow> take (nat nbytes) ?kb = take (nat nbytes) line"
    by (simp add: assms(1))
  ultimately show ?thesis
    unfolding terminal_read_finish_def run Let_def using assms(4) by auto
qed

text \<open>After the enter key \<^verbatim>\<open>terminal_read\<close> delivers the typed line.  A request longer than the
  line gets its characters followed by a zero byte, which the padding loop writes over the new
  line, and the count includes it; a request that ends with the line keeps the new line; a
  shorter one gets as many characters as it asked for.  Nothing outside the buffer changes.\<close>

theorem terminal_read_line:
  assumes "keyboard_buffer t = line @ 10 # rest" and "length (keyboard_buffer t) = 128"
    and "10 \<notin> set line" and "0 \<le> nbytes"
  shows "terminal_read_finish m t buf nbytes =
    (if int (length line) + 1 < nbytes then (int (length line) + 1, write_bytes m buf (line @ [0]))
     else if nbytes = int (length line) + 1 then (nbytes, write_bytes m buf (line @ [10]))
     else (nbytes, write_bytes m buf (take (nat nbytes) line)))"
  by (rule terminal_read_line_finish [OF assms])

theorem terminal_read_line_witness:
  "terminal_read_finish (\<lambda>_. 7) (demo_terminal\<lparr>keyboard_buffer := [108, 115, 10] @ replicate 125 0\<rparr>) 0x1000 100 =
    (3, write_bytes (\<lambda>_. 7) 0x1000 [108, 115, 0])"
  using terminal_read_line [of "demo_terminal\<lparr>keyboard_buffer := [108, 115, 10] @ replicate 125 0\<rparr>"
      "[108, 115]" "replicate 125 0" 100 "\<lambda>_. 7" "0x1000"]
  by simp

end
