(* ===== verification/Rtc.thy ===== *)
theory Rtc
  imports Terminal "HOL-Library.Signed_Division"
begin

text \<open>
  The real-time clock driver, \<^verbatim>\<open>mp3/student-distrib/rtc.c\<close>.  The hardware clock interrupts 1024
  times a second; the driver gives each terminal a slower virtual clock by counting interrupts.
  \<^verbatim>\<open>RTC_read\<close> waits in a loop for its terminal's flag, which \<^verbatim>\<open>rtc_handler\<close> sets, so the model
  of the loop runs the handler once for each clock interrupt that arrives while it waits.
\<close>

record rtc = screen +
  rtc_flag :: int
  rtc_counter :: u32
  freq :: "int \<Rightarrow> int"
  intr :: "int \<Rightarrow> int"

abbreviation RTC_PORT :: u16 where "RTC_PORT \<equiv> 0x70"
abbreviation RTC_CMOS_PORT :: u16 where "RTC_CMOS_PORT \<equiv> 0x71"
abbreviation RTC_IRQ :: u32 where "RTC_IRQ \<equiv> 8"

definition rtc_init :: "'a rtc_scheme \<Rightarrow> 'a rtc_scheme" where
  "rtc_init s =
     (let s = outb 0x8B RTC_PORT s;
          (prev, s) = inb RTC_CMOS_PORT s;
          s = outb 0x8B RTC_PORT s;
          s = outb (prev OR 0x40) RTC_CMOS_PORT s;
          s = s\<lparr>rtc_counter := 0\<rparr>
      in enable_irq RTC_IRQ s)"

text \<open>One step of the loop over the terminals; the divisor is \<^verbatim>\<open>1024 / freq[i]\<close>.\<close>

definition rtc_tick :: "int \<Rightarrow> 'a rtc_scheme \<Rightarrow> 'a rtc_scheme" where
  "rtc_tick i s =
     (if rtc_counter s mod word_of_int (1024 sdiv freq s i) = 0 then s\<lparr>intr := (intr s)(i := 1)\<rparr> else s)"

definition rtc_handler :: "'a rtc_scheme \<Rightarrow> 'a rtc_scheme" where
  "rtc_handler s =
     (let s = cli s;
          s = s\<lparr>rtc_counter := rtc_counter s + 1\<rparr>;
          s = rtc_tick 2 (rtc_tick 1 (rtc_tick 0 s));
          s = outb 0x0C RTC_PORT s;
          (c, s) = inb RTC_CMOS_PORT s;
          s = s\<lparr>rtc_flag := 1\<rparr>;
          s = send_eoi RTC_IRQ s
      in sti s)"

definition RTC_set_freq :: "int \<Rightarrow> 'a rtc_scheme \<Rightarrow> 'a rtc_scheme" where
  "RTC_set_freq rate s =
     (let s = cli s;
          rate = rate AND 0x0F;
          rate = (if rate < 6 then 6 else rate);
          s = outb 0x8A RTC_PORT s;
          (prev, s) = inb RTC_CMOS_PORT s;
          s = outb 0x8A RTC_PORT s;
          s = outb ((prev AND 0xF0) OR word_of_int rate) RTC_CMOS_PORT s
      in sti s)"

definition freq_to_rate :: "int \<Rightarrow> int" where
  "freq_to_rate f =
     (if f = 2 then 0x0F else if f = 4 then 0x0E else if f = 8 then 0x0D else if f = 16 then 0x0C
      else if f = 32 then 0x0B else if f = 64 then 0x0A else if f = 128 then 0x09
      else if f = 256 then 0x08 else if f = 512 then 0x07 else if f = 1024 then 0x06 else -1)"

definition RTC_open :: "u32 \<Rightarrow> 'a rtc_scheme \<Rightarrow> int \<times> 'a rtc_scheme" where
  "RTC_open filename s =
     (if filename = 0 then (-1, s)
      else (0, s\<lparr>freq := (freq s)(run_terminal s := 2), intr := (intr s)(run_terminal s := 0)\<rparr>))"

text \<open>The loop of \<^verbatim>\<open>RTC_read\<close> when \<open>n\<close> clock interrupts arrive: \<open>None\<close> if it still waits after
  the last of them.\<close>

fun rtc_wait :: "nat \<Rightarrow> 'a rtc_scheme \<Rightarrow> 'a rtc_scheme option" where
  "rtc_wait 0 s = (if intr s (run_terminal s) = 0 then None else Some s)"
| "rtc_wait (Suc n) s = (if intr s (run_terminal s) = 0 then rtc_wait n (rtc_handler s) else Some s)"

definition RTC_read :: "nat \<Rightarrow> int \<Rightarrow> u32 \<Rightarrow> int \<Rightarrow> 'a rtc_scheme \<Rightarrow> (int \<times> 'a rtc_scheme) option" where
  "RTC_read n fd buf nbytes s =
     (let s = s\<lparr>rtc_flag := 0\<rparr>
      in map_option (\<lambda>s. (0, s\<lparr>intr := (intr s)(run_terminal s := 0)\<rparr>)) (rtc_wait n s))"

text \<open>The four bytes at \<open>buf\<close> are read in the memory \<open>m\<close> the caller sees.\<close>

definition RTC_write :: "mem \<Rightarrow> int \<Rightarrow> u32 \<Rightarrow> int \<Rightarrow> 'a rtc_scheme \<Rightarrow> int \<times> 'a rtc_scheme" where
  "RTC_write m fd buf nbytes s =
     (if buf = 0 then (-1, s)
      else
        let frequency = sint (load32 m buf);
            rate = freq_to_rate frequency
        in if rate = -1 then (-1, s)
           else (0, s\<lparr>freq := (freq s)(run_terminal s := frequency)\<rparr>))"

definition RTC_close :: "int \<Rightarrow> int" where
  "RTC_close fd = 0"

subsection \<open>Rates\<close>

definition rtc_freqs :: "int set" where
  "rtc_freqs = {2, 4, 8, 16, 32, 64, 128, 256, 512, 1024}"

lemma freq_to_rate_valid: "freq_to_rate f \<noteq> -1 \<longleftrightarrow> f \<in> rtc_freqs"
  by (auto simp: freq_to_rate_def rtc_freqs_def)

text \<open>The frequencies that \<^verbatim>\<open>freq_to_rate\<close> accepts are exactly the powers of two from 2 to
  1024, and the rate it returns is the one for which the clock's documented formula
  \<open>32768 >> (rate - 1)\<close> gives the frequency.\<close>


theorem freq_to_rate_correct:
  "(freq_to_rate f \<noteq> -1 \<longleftrightarrow> (\<exists>k. 1 \<le> k \<and> k \<le> 10 \<and> f = 2 ^ k)) \<and>
   (freq_to_rate f = -1 \<or> f = 32768 div 2 ^ nat (freq_to_rate f - 1))"
proof -
  have "(\<exists>k. 1 \<le> k \<and> k \<le> 10 \<and> f = 2 ^ k) \<longleftrightarrow> (\<exists>k \<in> set [1..<11]. f = 2 ^ k)"
    by auto
  also have "\<dots> \<longleftrightarrow> f \<in> rtc_freqs" by (simp add: upt_rec rtc_freqs_def)
  finally show ?thesis by (auto simp: freq_to_rate_valid) (auto simp: rtc_freqs_def freq_to_rate_def)
qed

subsection \<open>The virtual clocks\<close>

definition freqs_ok :: "'a rtc_scheme \<Rightarrow> bool" where
  "freqs_ok s \<longleftrightarrow> (\<forall>i \<in> {0, 1, 2}. freq s i \<in> rtc_freqs)"

lemma RTC_open_freqs: "freqs_ok s \<Longrightarrow> freqs_ok (snd (RTC_open filename s))"
  by (simp add: freqs_ok_def RTC_open_def rtc_freqs_def)

lemma RTC_write_freqs: "freqs_ok s \<Longrightarrow> freqs_ok (snd (RTC_write m fd buf nbytes s))"
  using freq_to_rate_valid by (auto simp: freqs_ok_def RTC_write_def Let_def)

text \<open>The period of a virtual clock in interrupts, a power of two.\<close>

definition period :: "'a rtc_scheme \<Rightarrow> int \<Rightarrow> nat" where
  "period s i = nat (1024 div freq s i)"

lemma period_cases:
  assumes "freq s i \<in> rtc_freqs"
  shows "0 < period s i" and "period s i dvd 2 ^ 32" and "period s i \<le> 512"
    and "word_of_int (1024 sdiv freq s i) = (of_nat (period s i) :: u32)"
  using assms by (auto simp: rtc_freqs_def period_def)

lemma rtc_handler_fields:
  "rtc_counter (rtc_handler s) = rtc_counter s + 1" "run_terminal (rtc_handler s) = run_terminal s"
  "freq (rtc_handler s) = freq s"
  "i \<in> {0, 1, 2} \<Longrightarrow> intr (rtc_handler s) i =
     (if (rtc_counter s + 1) mod word_of_int (1024 sdiv freq s i) = 0 then 1 else intr s i)"
  by (auto simp: rtc_handler_def Let_def rtc_tick_def cli_def sti_def outb_def inb_def send_eoi_def)

text \<open>Interrupts still to come before the clock of terminal \<open>i\<close> strikes.\<close>

definition ticks_left :: "'a rtc_scheme \<Rightarrow> int \<Rightarrow> nat" where
  "ticks_left s i = period s i - unat (rtc_counter s) mod period s i"

lemma ticks_left_bounds:
  "freq s i \<in> rtc_freqs \<Longrightarrow> 0 < ticks_left s i \<and> ticks_left s i \<le> period s i"
  using period_cases(1) [of s i] by (simp add: ticks_left_def)

lemma counter_step:
  assumes "freq s i \<in> rtc_freqs"
  shows "(rtc_counter s + 1) mod word_of_int (1024 sdiv freq s i) = 0 \<longleftrightarrow> ticks_left s i = 1"
    and "ticks_left s i \<noteq> 1 \<Longrightarrow> ticks_left (rtc_handler s) i = ticks_left s i - 1"
proof -
  let ?d = "period s i" and ?c = "unat (rtc_counter s)"
  note d = period_cases [OF assms]
  have small: "?d < 2 ^ 32" using d(3) by simp
  have "unat (rtc_counter s + 1) = (?c + 1) mod 2 ^ 32" by (simp add: unat_word_ariths)
  then have m: "unat (rtc_counter s + 1) mod ?d = (?c + 1) mod ?d"
    using d(2) by (simp only: mod_mod_cancel)
  have wrap: "(?c + 1) mod ?d = (if ?c mod ?d = ?d - 1 then 0 else ?c mod ?d + 1)"
    using d(1) by (auto simp: mod_Suc)
  have lt: "?c mod ?d < ?d" using d(1) by simp
  have "unat ((rtc_counter s + 1) mod of_nat ?d) = (?c + 1) mod ?d"
    using m small by (simp add: unat_mod)
  then have "(rtc_counter s + 1) mod of_nat ?d = 0 \<longleftrightarrow> (?c + 1) mod ?d = 0"
    by (metis unat_eq_zero)
  then show "(rtc_counter s + 1) mod word_of_int (1024 sdiv freq s i) = 0 \<longleftrightarrow> ticks_left s i = 1"
    unfolding d(4) using wrap lt d(1) by (auto simp: ticks_left_def split: if_splits)
  assume "ticks_left s i \<noteq> 1"
  moreover have "period (rtc_handler s) i = ?d" by (simp add: period_def rtc_handler_fields)
  ultimately show "ticks_left (rtc_handler s) i = ticks_left s i - 1"
    using wrap lt m d(1) by (auto simp: ticks_left_def rtc_handler_fields split: if_splits)
qed

lemma rtc_wait_ticks:
  assumes "freqs_ok s" and "run_terminal s = i" and "i \<in> {0, 1, 2}" and "intr s i = 0"
  shows "if n < ticks_left s i then rtc_wait n s = None
    else \<exists>s'. rtc_wait n s = Some s' \<and> rtc_counter s' = rtc_counter s + of_nat (ticks_left s i) \<and>
      run_terminal s' = i \<and> freq s' = freq s"
  using assms
proof (induction n arbitrary: s)
  case 0
  then show ?case using ticks_left_bounds [of s i] by (auto simp: freqs_ok_def)
next
  case (Suc n)
  have f: "freq s i \<in> rtc_freqs" using Suc.prems by (auto simp: freqs_ok_def)
  let ?h = "rtc_handler s"
  have step: "rtc_wait (Suc n) s = rtc_wait n ?h" using Suc.prems by simp
  show ?case
  proof (cases "ticks_left s i = 1")
    case True
    then have "intr ?h i = 1"
      using counter_step(1) [OF f] Suc.prems(3) by (simp add: rtc_handler_fields)
    then have "rtc_wait n ?h = Some ?h"
      using Suc.prems(2) by (cases n) (simp_all add: rtc_handler_fields)
    then show ?thesis using True Suc.prems(2) step by (simp add: rtc_handler_fields)
  next
    case False
    then have "intr ?h i = 0"
      using counter_step(1) [OF f] Suc.prems(3,4) by (simp add: rtc_handler_fields)
    moreover have "freqs_ok ?h" using Suc.prems(1) by (simp add: freqs_ok_def rtc_handler_fields)
    moreover have "run_terminal ?h = i" using Suc.prems(2) by (simp add: rtc_handler_fields)
    ultimately have IH: "if n < ticks_left ?h i then rtc_wait n ?h = None
      else \<exists>s'. rtc_wait n ?h = Some s' \<and> rtc_counter s' = rtc_counter ?h + of_nat (ticks_left ?h i) \<and>
        run_terminal s' = i \<and> freq s' = freq ?h"
      using Suc.IH Suc.prems(3) by blast
    obtain k where k: "ticks_left s i = Suc k" using ticks_left_bounds [OF f] by (cases "ticks_left s i") auto
    have "ticks_left ?h i = k" using counter_step(2) [OF f False] k by simp
    then show ?thesis using IH k step by (auto simp: rtc_handler_fields)
  qed
qed

text \<open>A virtual clock strikes at its frequency.  With no strike pending, \<^verbatim>\<open>RTC_read\<close> waits for
  the next multiple of \<open>1024 / freq\<close> interrupts: it does not return before, it returns 0 as
  soon as that interrupt arrives, after at least 1 and at most \<open>1024 / freq\<close> of them, and it
  leaves the flag clear and the counter at a multiple, so that the next read takes a full period.\<close>

theorem RTC_read_period:
  assumes "freqs_ok s" and "run_terminal s \<in> {0, 1, 2}" and "intr s (run_terminal s) = 0"
  shows "1 \<le> ticks_left s (run_terminal s) \<and>
    ticks_left s (run_terminal s) \<le> nat (1024 div freq s (run_terminal s)) \<and>
    (if n < ticks_left s (run_terminal s) then RTC_read n fd buf nbytes s = None
     else \<exists>s'. RTC_read n fd buf nbytes s = Some (0, s') \<and> intr s' (run_terminal s) = 0 \<and>
       rtc_counter s' = rtc_counter s + of_nat (ticks_left s (run_terminal s)) \<and>
       ticks_left s' (run_terminal s) = period s (run_terminal s))"
proof -
  define i where "i = run_terminal s"
  let ?s = "s\<lparr>rtc_flag := 0\<rparr>" and ?d = "period s i" and ?c = "unat (rtc_counter s)"
  have i: "i \<in> {0, 1, 2}" using assms(2) by (simp add: i_def)
  then have f: "freq s i \<in> rtc_freqs" using assms(1) by (auto simp: freqs_ok_def)
  note d = period_cases [OF f]
  have t: "ticks_left ?s i = ticks_left s i" by (simp add: ticks_left_def period_def)
  have mult: "unat (rtc_counter s + of_nat (ticks_left s i)) mod ?d = 0"
  proof -
    have "ticks_left s i < 2 ^ 32" using ticks_left_bounds [OF f] d(3) by simp
    then have "unat (rtc_counter s + of_nat (ticks_left s i)) = (?c + ticks_left s i) mod 2 ^ 32"
      by (simp add: unat_word_ariths)
    then have "unat (rtc_counter s + of_nat (ticks_left s i)) mod ?d = (?c + ticks_left s i) mod ?d"
      using d(2) by (simp only: mod_mod_cancel)
    also have "\<dots> = (?c mod ?d + ticks_left s i) mod ?d" by (simp add: mod_add_left_eq)
    also have "?c mod ?d + ticks_left s i = ?d" using d(1) by (simp add: ticks_left_def less_imp_le)
    finally show ?thesis by simp
  qed
  have "if n < ticks_left s i then rtc_wait n ?s = None
    else \<exists>s'. rtc_wait n ?s = Some s' \<and> rtc_counter s' = rtc_counter s + of_nat (ticks_left s i) \<and>
      run_terminal s' = i \<and> freq s' = freq s"
  proof -
    have "freqs_ok ?s" "run_terminal ?s = i" "intr ?s i = 0"
      using assms by (simp_all add: freqs_ok_def i_def)
    from rtc_wait_ticks [OF this(1,2) i this(3), of n] show ?thesis
      unfolding t by (simp cong: if_cong)
  qed
  then show ?thesis
    using ticks_left_bounds [OF f] mult
    by (auto simp: RTC_read_def Let_def ticks_left_def period_def simp flip: i_def)
qed

definition demo_rtc :: rtc where
  "demo_rtc = \<lparr>page_directory = \<lambda>_. 0, page_table = \<lambda>_. 0, user_video_page_table = \<lambda>_. 0,
     page_directory_addr = 0x410000, page_table_addr = 0x411000, user_video_page_table_addr = 0x412000,
     cr0 = 0, cr3 = 0, cr4 = 0, tlb_stale = False, io = [], port_reply = \<lambda>l p. 0,
     interrupts_on = True, master_mask = 0, slave_mask = 0,
     pmem = \<lambda>_. 0, terminal = \<lambda>_. demo_terminal, cur_terminal = 0, run_terminal = 1,
     rtc_flag = 0, rtc_counter = 1000, freq = (\<lambda>_. 2)(1 := 128), intr = \<lambda>_. 0\<rparr>"

theorem RTC_read_period_witness:
  "ticks_left demo_rtc 1 = 8 \<and> RTC_read 7 3 0x1000 4 demo_rtc = None \<and>
   (\<exists>s'. RTC_read 8 3 0x1000 4 demo_rtc = Some (0, s') \<and> rtc_counter s' = 1008)"
proof -
  have ok: "freqs_ok demo_rtc" "run_terminal demo_rtc = 1" "intr demo_rtc 1 = 0"
      "rtc_counter demo_rtc = 1000"
    by (simp_all add: demo_rtc_def freqs_ok_def rtc_freqs_def)
  have "ticks_left demo_rtc 1 = 8"
    by (simp add: ticks_left_def period_def demo_rtc_def)
  with RTC_read_period [of demo_rtc 7 3 "0x1000" 4] RTC_read_period [of demo_rtc 8 3 "0x1000" 4] ok
  show ?thesis by auto
qed

end
