(* ===== verification/Output.thy ===== *)
theory Output
  imports Terminal
begin

text \<open>
  What screen output leaves alone.  A relation between states that is reflexive and transitive
  and holds across each elementary step of the driver (a byte of video memory, the cursor, the
  video mapping) holds across \<^verbatim>\<open>putc\<close>, \<^verbatim>\<open>printf\<close> and \<^verbatim>\<open>clear\<close>.  The contract is a locale; its
  instances say that output keeps the page tables, memory outside the video frames, and (for
  the keyboard) the line buffers.
\<close>

locale screen_preorder =
  fixes R :: "'a screen_scheme \<Rightarrow> 'a screen_scheme \<Rightarrow> bool"
  assumes R_refl: "R s s"
    and R_trans: "R s s' \<Longrightarrow> R s' s'' \<Longrightarrow> R s s''"
    and R_write: "R s (video_write off c s)"
    and R_cursor: "R s (set_cursor t x y s)"
    and R_show: "R s (show_cursor s)"
begin

lemma R_fold: "(\<And>i s. R s (f i s)) \<Longrightarrow> R s (fold f ns s)"
  by (induction ns arbitrary: s) (auto intro: R_trans R_refl)

lemma R_blank: "R s (blank_cell i s)"
  unfolding blank_cell_def by (rule R_trans [OF R_write R_write])

lemma R_scroll: "R s (scroll s)"
  unfolding scroll_def by (rule R_fold) (simp add: scroll_cell_def R_blank R_write)

lemma R_feed: "R s (line_feed t s)"
  by (auto simp: line_feed_def Let_def intro!: R_trans [OF _ R_cursor] R_trans [OF _ R_scroll] R_refl)

lemma R_put: "R s (put_cell t c s)"
  unfolding put_cell_def Let_def by (rule R_trans [OF R_write R_write])

text \<open>The bodies, with what their last step does left open.\<close>

lemma R_body:
  assumes fin: "\<And>s. R s (putc_end u s)"
  shows "R s (putc_backspace t u s)" and "R s (putc_newline t u s)" and "R s (putc_char c t u s)"
  unfolding putc_backspace_def putc_newline_def putc_char_def Let_def
  by (auto intro!: R_trans [OF _ fin] R_trans [OF _ R_put] R_feed R_refl
      R_trans [OF _ R_cursor] R_trans [OF _ R_show])

lemma R_putc_run: "R s (putc c 0 s)"
proof -
  have "R s (putc_end 0 s)" for s by (simp add: putc_end_def Let_def R_show)
  from R_body [OF this] show ?thesis by (simp add: putc_run_eq)
qed

lemma R_put_string: "R s (put_string cs s)"
  unfolding put_string_def by (rule R_fold) (rule R_putc_run)

end

locale screen_preorder_switch = screen_preorder +
  assumes R_switch: "R s (memory_switch t s)"
begin

lemma R_putc: "R s (putc c user s)"
proof -
  have "R s (putc_end u s)" for u s
    by (auto simp: putc_end_def Let_def intro: R_show R_trans [OF R_show R_switch])
  note body = R_body [OF this]
  show ?thesis
    unfolding putc_def Let_def
    by (auto intro: body R_trans [OF R_switch body(1)] R_trans [OF R_switch body(2)] R_trans [OF R_switch body(3)])
qed

lemma R_clear: "R s (clear s)"
  unfolding clear_def Let_def
  by (intro R_trans [OF _ R_show] R_trans [OF _ R_switch] R_trans [OF _ R_fold [OF R_blank]]
      R_trans [OF _ R_cursor] R_refl)

end

subsection \<open>Page tables\<close>

definition same_tables :: "'a screen_scheme \<Rightarrow> 'a screen_scheme \<Rightarrow> bool" where
  "same_tables s s' \<longleftrightarrow> cr0 s' = cr0 s \<and> page_directory s' = page_directory s \<and> page_table s' = page_table s \<and>
     user_video_page_table s' = user_video_page_table s \<and> page_table_addr s' = page_table_addr s \<and>
     user_video_page_table_addr s' = user_video_page_table_addr s \<and> screen.more s' = screen.more s"

interpretation tables: screen_preorder same_tables
  by unfold_locales
    (auto simp: same_tables_def video_write_def set_cursor_def show_cursor_def update_cursor_def outb_def
      Let_def split: option.splits)

subsection \<open>Memory outside the video frames\<close>

lemma page_of_cell: "fr \<in> video_frames \<Longrightarrow> k < 4096 \<Longrightarrow> unat (cell fr k) < 0x400000"
proof -
  assume fr: "fr \<in> video_frames" and k: "k < 4096"
  then have "unat fr \<le> 0xBC" by (auto simp: video_frames_def)
  with unat_cell [OF fr k] k show ?thesis by simp
qed

lemma touches_memory:
  assumes "touches fr tid s s'" and "fr \<in> video_frames" and "0x400000 \<le> unat pa"
  shows "pmem s' pa = pmem s pa"
proof -
  have "pa \<noteq> cell fr j" if "j < 4000" for j
    using page_of_cell [OF assms(2), of j] that assms(3) by auto
  then show ?thesis using assms(1) by (simp add: touches_def)
qed

lemma putc_memory: "screen_ok s \<Longrightarrow> 0x400000 \<le> unat pa \<Longrightarrow> pmem (putc c 0 s) pa = pmem s pa"
  by (rule touches_memory [OF putc_run_touches frame_of_video]) (simp_all add: screen_ok_def)

lemma put_string_memory: "screen_ok s \<Longrightarrow> 0x400000 \<le> unat pa \<Longrightarrow> pmem (put_string cs s) pa = pmem s pa"
proof (induction cs arbitrary: s)
  case (Cons c cs)
  then show ?case
    using putc_memory [OF Cons.prems, of c] putc_run_facts(1) [OF Cons.prems(1)] by (simp add: put_string_def)
qed (simp add: put_string_def)

end
