(* ===== verification/Keyboard.thy ===== *)
theory Keyboard
  imports Rtc Output
begin

text \<open>
  The keyboard driver, \<^verbatim>\<open>mp3/student-distrib/keyboard.c\<close>: the scan-code tables, the interrupt
  handler with its modifier keys, line editing and echo, and the switch between terminals on
  Alt-F1 to Alt-F3.  The handler is a partial function: \<open>None\<close> is the write past the end of
  \<^verbatim>\<open>keyboard_buffer\<close> that the code performs when the index has reached 128.
\<close>

subsection \<open>Scan codes\<close>

definition scan_code_match :: "u8 list" where
  "scan_code_match = [0, 0] @ map of_char ''1234567890-='' @ [8, 9] @ map of_char ''qwertyuiop[]'' @ [10, 0]
     @ map of_char ''asdfghjkl;'' @ [39] @ map of_char ''`'' @ [0, 92] @ map of_char ''zxcvbnm,./''
     @ [0, 0, 0, 32]"

definition scan_code_shift :: "u8 list" where
  "scan_code_shift = [0, 0] @ map of_char ''!@#$%^&*()_+'' @ [8, 9] @ map of_char ''QWERTYUIOP{}'' @ [10, 0]
     @ map of_char ''ASDFGHJKL:'' @ [34] @ map of_char ''`'' @ [0, 92] @ map of_char ''ZXCVBNM<>?''
     @ [0, 0, 0, 32]"

definition scan_code_capital :: "u8 list" where
  "scan_code_capital = [0, 0] @ map of_char ''1234567890-='' @ [8, 9] @ map of_char ''QWERTYUIOP{}'' @ [10, 0]
     @ map of_char ''ASDFGHJKL:'' @ [34] @ map of_char ''`'' @ [0, 92] @ map of_char ''ZXCVBNM<>?''
     @ [0, 0, 0, 32]"

record keyboard = rtc +
  ctrl_pressed :: u8
  shift_pressed :: u8
  capital :: u8
  caps_lock_pressed :: u8
  alt_pressed :: u8

definition keyboard_init :: "'a keyboard_scheme \<Rightarrow> 'a keyboard_scheme" where
  "keyboard_init s = enable_irq 1 s"

subsection \<open>Switching terminals\<close>

text \<open>Kernel memory as the processor sees it through the page tables, and a \<^verbatim>\<open>memcpy\<close> on it.\<close>

definition kmem :: "'a screen_scheme \<Rightarrow> mem" where
  "kmem s va = (case access s va of Some pa \<Rightarrow> pmem s pa | None \<Rightarrow> 0)"

primrec kstore :: "u32 \<Rightarrow> u8 list \<Rightarrow> 'a screen_scheme \<Rightarrow> 'a screen_scheme" where
  "kstore va [] s = s"
| "kstore va (b # bs) s = kstore (va + 1) bs
     (case access s va of Some pa \<Rightarrow> s\<lparr>pmem := (pmem s)(pa := b)\<rparr> | None \<Rightarrow> s)"

definition kernel_memcpy :: "u32 \<Rightarrow> u32 \<Rightarrow> u32 \<Rightarrow> 'a screen_scheme \<Rightarrow> 'a screen_scheme" where
  "kernel_memcpy dest src n s = kstore dest (read_bytes (memcpy (kmem s) dest src n) dest (unat n)) s"

text \<open>The body of the branch of the handler for Alt and function key \<open>k + 1\<close>.\<close>

definition switch_terminal :: "int \<Rightarrow> 'a screen_scheme \<Rightarrow> 'a screen_scheme" where
  "switch_terminal k s =
     (if cur_terminal s = k then s
      else
        let s = memory_switch (cur_terminal s) s;
            s = kernel_memcpy (VIDEO + word_of_int (cur_terminal s + 2) * 4096) VIDEO 4096 s;
            s = kernel_memcpy VIDEO (VIDEO + word_of_int (k + 2) * 4096) 4096 s;
            s = update_cursor (cursor_x (terminal s k)) (cursor_y (terminal s k)) s;
            s = s\<lparr>cur_terminal := k\<rparr>
        in memory_switch (run_terminal s) s)"

subsection \<open>Line editing\<close>

text \<open>Store a character at the index of the visible terminal and advance the index.\<close>

definition buffer_put :: "u8 \<Rightarrow> 'a screen_scheme \<Rightarrow> 'a screen_scheme option" where
  "buffer_put c s =
     (let t = terminal s (cur_terminal s)
      in if 0 \<le> index t \<and> index t < 128
         then Some (s\<lparr>terminal := (terminal s)(cur_terminal s :=
                t\<lparr>keyboard_buffer := (keyboard_buffer t)[nat (index t) := c], index := index t + 1\<rparr>)\<rparr>)
         else None)"

text \<open>A printable key: show one character, store another.\<close>

definition type_key :: "u8 \<Rightarrow> u8 \<Rightarrow> 'a screen_scheme \<Rightarrow> 'a screen_scheme option" where
  "type_key displayed stored s = buffer_put stored (putc displayed 1 s)"

definition enter_key :: "'a screen_scheme \<Rightarrow> 'a screen_scheme option" where
  "enter_key s = do {
     s \<leftarrow> buffer_put 10 (putc 10 1 s);
     Some (s\<lparr>terminal := (terminal s)(cur_terminal s := (terminal s (cur_terminal s))\<lparr>enter_pressed := 1\<rparr>)\<rparr>)
   }"

definition backspace_key :: "'a screen_scheme \<Rightarrow> 'a screen_scheme" where
  "backspace_key s =
     (if index (terminal s (cur_terminal s)) \<noteq> 0 then
        let s = putc 8 1 s;
            t = terminal s (cur_terminal s)
        in s\<lparr>terminal := (terminal s)(cur_terminal s := t\<lparr>index := index t - 1\<rparr>)\<rparr>
      else s)"

text \<open>The keys with a scan code below 58.\<close>

definition main_key :: "u8 \<Rightarrow> 'a keyboard_scheme \<Rightarrow> 'a keyboard_scheme option" where
  "main_key scan_code s =
     (let code = unat scan_code;
          ch = scan_code_match ! code;
          full = index (terminal s (cur_terminal s)) \<ge> 127
      in if ctrl_pressed s = 1 \<and> ch = of_char CHR ''l'' then Some (clear s)
         else if shift_pressed s = 1 \<and> shift_pressed s = capital s then
           if full \<and> ch \<noteq> 10 then Some s
           else if ch = 10 then enter_key s
           else if of_char CHR ''a'' \<le> ch \<and> ch \<le> of_char CHR ''z'' then type_key ch ch s
           else type_key (scan_code_shift ! code) ch s
         else if shift_pressed s = 1 \<and> shift_pressed s \<noteq> capital s then
           if full \<and> ch \<noteq> 10 then Some s
           else if ch = 10 then enter_key s
           else type_key (scan_code_shift ! code) ch s
         else if shift_pressed s \<noteq> 1 \<and> shift_pressed s \<noteq> capital s then
           if full \<and> ch \<noteq> 10 then Some s
           else if ch = 10 then enter_key s
           else type_key (scan_code_capital ! code) ch s
         else if ch = 10 then enter_key s
         else if ch \<noteq> 0 \<and> index (terminal s (cur_terminal s)) < 127 then type_key ch ch s
         else Some s)"

definition handle_scan_code :: "u8 \<Rightarrow> 'a keyboard_scheme \<Rightarrow> 'a keyboard_scheme option" where
  "handle_scan_code scan_code s =
     (if scan_code = 0x2A \<or> scan_code = 0x36 then Some (s\<lparr>shift_pressed := 1\<rparr>)
      else if scan_code = 0xAA \<or> scan_code = 0xB6 then Some (s\<lparr>shift_pressed := 0\<rparr>)
      else if scan_code = 0x1D then Some (s\<lparr>ctrl_pressed := 1\<rparr>)
      else if scan_code = 0x9D then Some (s\<lparr>ctrl_pressed := 0\<rparr>)
      else if scan_code = 0x3A then
        Some (if caps_lock_pressed s = 0
              then s\<lparr>capital := 1 - capital s, caps_lock_pressed := 1\<rparr> else s)
      else if scan_code = 0xBA then Some (s\<lparr>caps_lock_pressed := 0\<rparr>)
      else if scan_code = 0x38 then Some (s\<lparr>alt_pressed := 1\<rparr>)
      else if scan_code = 0xB8 then Some (s\<lparr>alt_pressed := 0\<rparr>)
      else if scan_code = 0x3B \<and> alt_pressed s = 1 then Some (switch_terminal 0 s)
      else if scan_code = 0x3C \<and> alt_pressed s = 1 then Some (switch_terminal 1 s)
      else if scan_code = 0x3D \<and> alt_pressed s = 1 then Some (switch_terminal 2 s)
      else if scan_code = 0x0E then Some (backspace_key s)
      else if scan_code = 0x0F \<or> scan_code = 0x01 then Some s
      else if scan_code < 58 then main_key scan_code s
      else Some s)"

definition keyboard_handler :: "'a keyboard_scheme \<Rightarrow> 'a keyboard_scheme option" where
  "keyboard_handler s =
     (let s = send_eoi 1 s;
          (scan_code, s) = inb 0x60 s
      in handle_scan_code scan_code s)"

lemma scan_code_lengths [simp]:
  "length scan_code_match = 58" "length scan_code_shift = 58" "length scan_code_capital = 58"
  by (simp_all add: scan_code_match_def scan_code_shift_def scan_code_capital_def)

subsection \<open>Identity-mapped video frames\<close>

lemma access_backup:
  assumes "video_at fr s" and "f \<in> {0xBA, 0xBB, 0xBC}" and "k < 4096"
  shows "access s (cell f k) = Some (cell f k)"
proof -
  obtain p v where maps: "kernel_maps p v fr s" "\<And>pid. p = Some pid \<Longrightarrow> pid < 6" and on: "paging_on s"
    using assms(1) by (auto simp: video_at_def)
  let ?va = "cell f k"
  have f: "take_bit 20 f = f" "drop_bit 10 f = 0" "take_bit 10 f = f" using assms(2) by auto
  have va: "?va = push_bit 12 f OR take_bit 12 (of_nat k)"
    unfolding frame_plus_offset using assms(3) by (simp add: cell_def take_bit_12_of_nat)
  have d12: "drop_bit 12 ?va = f" unfolding va by (rule drop_bit_frame) (rule f(1))
  have "drop_bit 22 ?va = drop_bit 10 (drop_bit 12 ?va)" by simp
  then have d22: "drop_bit 22 ?va = 0" unfolding d12 by (simp only: f(2))
  have off: "take_bit 12 ?va = of_nat k"
    unfolding va using assms(3) by (simp add: take_bit_or take_bit_push_bit take_bit_12_of_nat)
  have "walk False s ?va = Some (push_bit 12 f OR take_bit 12 ?va)"
    using walk_kernel_maps [OF maps, of False ?va] assms(2)
    unfolding d12 d22 f(3) by (auto simp: Let_def)
  then show ?thesis using on frame_plus_offset [of f ?va] off by (simp add: access_def cell_def)
qed

lemma access_frames:
  assumes "video_at 0xB8 s" and "f \<in> video_frames" and "k < 4096"
  shows "access s (cell f k) = Some (cell f k)"
proof (cases "f = 0xB8")
  case True
  then show ?thesis using video_at_access [OF assms(1,3)] by (simp add: cell_def)
next
  case False
  then show ?thesis using access_backup [OF assms(1)] assms(2,3) by (auto simp: video_frames_def)
qed

lemma cell_plus: "cell f k + of_nat i = cell f (k + i)"
  by (simp add: cell_def)

lemma kmem_frame:
  assumes "video_at 0xB8 s" and "f \<in> video_frames"
  shows "read_bytes (kmem s) (cell f 0) 4096 = read_bytes (pmem s) (cell f 0) 4096"
proof (rule nth_equalityI)
  fix i assume "i < length (read_bytes (kmem s) (cell f 0) 4096)"
  then have "i < 4096" by simp
  then show "read_bytes (kmem s) (cell f 0) 4096 ! i = read_bytes (pmem s) (cell f 0) 4096 ! i"
    using access_frames [OF assms, of i] by (simp add: cell_plus kmem_def)
qed simp

lemma kstore_frame:
  assumes "video_at 0xB8 (s :: 'a screen_scheme)" and "f \<in> video_frames" and "k + length bs \<le> 4096"
  shows "kstore (cell f k) bs s = s\<lparr>pmem := write_bytes (pmem s) (cell f k) bs\<rparr>"
  using assms(1,3)
proof (induction bs arbitrary: k s)
  case (Cons b bs)
  have "access s (cell f k) = Some (cell f k)"
    using access_frames [OF Cons.prems(1) assms(2)] Cons.prems(2) by simp
  moreover have "cell f k + 1 = cell f (Suc k)" using cell_plus [of f k 1] by simp
  ultimately show ?case
    using Cons.IH [of "s\<lparr>pmem := (pmem s)(cell f k := b)\<rparr>" "Suc k"] Cons.prems
    by (simp del: fun_upd_apply)
qed simp

lemma frames_apart:
  assumes "f \<in> video_frames" and "g \<in> video_frames" and "f \<noteq> g"
  shows "apart (cell f 0) 4096 (cell g 0) 4096"
proof -
  have *: "apart (cell f 0) 4096 (cell g 0) 4096"
    if "f \<in> video_frames" "g \<in> video_frames" "unat f < unat g" for f g
  proof (rule apart_below)
    show "unat (cell f 0) + 4096 \<le> unat (cell g 0)"
      using unat_cell [OF that(1), of 0] unat_cell [OF that(2), of 0] that(3) by simp
    show "unat (cell g 0) + 4096 \<le> 2 ^ 32"
      using unat_cell [OF that(2), of 0] that(2) by (auto simp: video_frames_def)
  qed
  show ?thesis
  proof (cases "unat f < unat g")
    case True
    then show ?thesis by (rule * [OF assms(1,2)])
  next
    case False
    with assms(3) have "unat g < unat f" by (simp add: word_unat_eq_iff)
    then show ?thesis using * [OF assms(2,1)] by (simp add: apart_sym)
  qed
qed

text \<open>Copying one frame to another.\<close>

lemma kernel_memcpy_frame:
  assumes "video_at 0xB8 s" and "f \<in> video_frames" and "g \<in> video_frames" and "f \<noteq> g"
  shows "kernel_memcpy (cell f 0) (cell g 0) 4096 s =
    s\<lparr>pmem := write_bytes (pmem s) (cell f 0) (read_bytes (pmem s) (cell g 0) 4096)\<rparr>"
proof -
  have "copy_up_safe (cell f 0) (cell g 0) (unat (4096 :: u32))"
    using frames_apart [OF assms(2-4)] by (intro apart_copy_up_safe) simp
  then have "read_bytes (memcpy (kmem s) (cell f 0) (cell g 0) 4096) (cell f 0) (unat (4096 :: u32)) =
      read_bytes (kmem s) (cell g 0) (unat (4096 :: u32))"
    by (rule memcpy_copier.copy_read)
  then show ?thesis
    using kstore_frame [OF assms(1,2), of 0] kmem_frame [OF assms(1,3)]
    by (simp add: kernel_memcpy_def)
qed

lemma write_frame_cell:
  assumes "f \<in> video_frames" and "g \<in> video_frames" and "k < 4096" and "length bs = 4096"
  shows "write_bytes m (cell f 0) bs (cell g k) = (if f = g then bs ! k else m (cell g k))"
proof (cases "f = g")
  case True
  have "cell g k - cell g 0 = of_nat k" by (simp add: cell_def)
  then show ?thesis using assms(3,4) True by (simp add: write_bytes_apply)
next
  case False
  have "cell g 0 + of_nat k \<notin> span (cell f 0) 4096"
    using frames_apart [OF assms(2,1)] False assms(3) by (intro apart_nth) auto
  then show ?thesis using assms(4) False by (simp add: write_bytes_apply cell_plus)
qed

subsection \<open>What a switch of terminals keeps\<close>

lemma backup_addr:
  "t \<in> {0, 1, 2} \<Longrightarrow> VIDEO + word_of_int (t + 2) * 4096 = cell (0xBA + word_of_int t) 0"
  by (auto simp: cell_def)

lemma backup_frame:
  "t \<in> {0, 1, 2} \<Longrightarrow> 0xBA + word_of_int t \<in> video_frames" "t \<in> {0, 1, 2} \<Longrightarrow> 0xBA + word_of_int t \<noteq> (0xB8 :: u32)"
  "t \<in> {0, 1, 2} \<Longrightarrow> t' \<in> {0, 1, 2} \<Longrightarrow> 0xBA + word_of_int t = (0xBA + word_of_int t' :: u32) \<longleftrightarrow> t = t'"
  by (auto simp: video_frames_def)

text \<open>The state after a switch, with memory written out.\<close>

lemma switch_terminal_state:
  assumes "screen_ok s" and "k \<in> {0, 1, 2}" and "k \<noteq> cur_terminal s"
  defines "m1 \<equiv> write_bytes (pmem s) (cell (0xBA + word_of_int (cur_terminal s)) 0) (read_bytes (pmem s) (cell 0xB8 0) 4096)"
  defines "m2 \<equiv> write_bytes m1 (cell 0xB8 0) (read_bytes m1 (cell (0xBA + word_of_int k) 0) 4096)"
  shows "pmem (switch_terminal k s) = m2" and "terminal (switch_terminal k s) = terminal s"
    and "cur_terminal (switch_terminal k s) = k" and "run_terminal (switch_terminal k s) = run_terminal s"
    and "\<exists>fr. video_at fr (switch_terminal k s)"
    and "video_at (frame_of (switch_terminal k s) (run_terminal s)) (switch_terminal k s)"
proof -
  define c where "c = cur_terminal s"
  have c: "c \<in> {0, 1, 2}" and run: "run_terminal s \<in> {0, 1, 2}"
    using assms(1) by (simp_all add: screen_ok_def c_def)
  define y where "y = memory_switch c s"
  have vy: "video_at 0xB8 y"
    using memory_switch_video_at [OF _ c, of "frame_of s (run_terminal s)" s] assms(1)
    by (simp add: y_def screen_ok_def c_def)
  have b8: "(0xB8 :: u32) \<in> video_frames" "cell 0xB8 0 = VIDEO" by (simp_all add: video_frames_def cell_def)
  define y1 where "y1 = y\<lparr>pmem := m1\<rparr>"
  have one: "kernel_memcpy (VIDEO + word_of_int (c + 2) * 4096) VIDEO 4096 y = y1"
    using kernel_memcpy_frame [OF vy backup_frame(1) [OF c] b8(1) backup_frame(2) [OF c]]
    unfolding backup_addr [OF c] b8(2) y1_def m1_def c_def [symmetric] by (simp add: y_def)
  define y2 where "y2 = y1\<lparr>pmem := m2\<rparr>"
  have v1: "video_at 0xB8 y1" using vy by (simp add: y1_def)
  have two: "kernel_memcpy VIDEO (VIDEO + word_of_int (k + 2) * 4096) 4096 y1 = y2"
    using kernel_memcpy_frame [OF v1 b8(1) backup_frame(1) [OF assms(2)] backup_frame(2) [OF assms(2), symmetric]]
    unfolding backup_addr [OF assms(2)] b8(2) y2_def m2_def by (simp add: y1_def)
  define y3 where "y3 = (update_cursor (cursor_x (terminal s k)) (cursor_y (terminal s k)) y2)\<lparr>cur_terminal := k\<rparr>"
  have terms: "terminal y2 = terminal s" "run_terminal y2 = run_terminal s" "cur_terminal y = c"
    by (simp_all add: y2_def y1_def y_def c_def)
  have eq: "switch_terminal k s = memory_switch (run_terminal s) y3"
    using assms(3) one two terms
    by (simp add: switch_terminal_def Let_def y3_def update_cursor_def outb_def flip: c_def y_def)
  have v3: "video_at 0xB8 y3" using vy by (simp add: y3_def y2_def y1_def update_cursor_def outb_def Let_def)
  show "pmem (switch_terminal k s) = m2" "terminal (switch_terminal k s) = terminal s"
    "cur_terminal (switch_terminal k s) = k" "run_terminal (switch_terminal k s) = run_terminal s"
    unfolding eq by (simp_all add: y3_def y2_def y1_def y_def update_cursor_def outb_def Let_def)
  show v: "video_at (frame_of (switch_terminal k s) (run_terminal s)) (switch_terminal k s)"
    unfolding eq using memory_switch_video_at [OF v3 run] by simp
  then show "\<exists>fr. video_at fr (switch_terminal k s)" by blast
qed

text \<open>C27: switching to another terminal changes what is on the screen and nothing else: each
  terminal keeps its text and cursor, although the visible one moves between the display and its
  backup frame, and the running process still writes to its own terminal.\<close>

theorem switch_terminal_keeps_displays:
  assumes "screen_ok s" and "k \<in> {0, 1, 2}" and "t \<in> {0, 1, 2}"
  shows "screen_ok (switch_terminal k s) \<and> cur_terminal (switch_terminal k s) = k \<and>
    display_of (switch_terminal k s) t = display_of s t"
proof (cases "k = cur_terminal s")
  case True
  then show ?thesis using assms(1) by (simp add: switch_terminal_def)
next
  case False
  let ?c = "cur_terminal s" and ?s = "switch_terminal k s"
  have c: "?c \<in> {0, 1, 2}" using assms(1) by (simp add: screen_ok_def)
  note st = switch_terminal_state [OF assms(1,2) False]
  have b8: "(0xB8 :: u32) \<in> video_frames" by (simp add: video_frames_def)
  define m1 where "m1 = write_bytes (pmem s) (cell (0xBA + word_of_int ?c) 0) (read_bytes (pmem s) (cell 0xB8 0) 4096)"
  have m1: "m1 (cell f j) = (if f = 0xBA + word_of_int ?c then pmem s (cell 0xB8 j) else pmem s (cell f j))"
    if "f \<in> video_frames" "j < 4096" for f j
    unfolding m1_def using write_frame_cell [OF backup_frame(1) [OF c] that] that(2) by (simp add: cell_plus)
  have m2: "pmem ?s (cell f j) = (if f = 0xB8 then m1 (cell (0xBA + word_of_int k) j) else m1 (cell f j))"
    if "f \<in> video_frames" "j < 4096" for f j
    unfolding st(1) m1_def [symmetric] using write_frame_cell [OF b8 that] that(2) by (simp add: cell_plus)
  have cell: "pmem ?s (cell (frame_of ?s t) j) = pmem s (cell (frame_of s t) j)" if "j < 4096" for j
  proof -
    have new: "frame_of ?s t = (if t = k then 0xB8 else 0xBA + word_of_int t)"
      by (simp add: frame_of_def st(3))
    have old: "frame_of s t = (if t = ?c then 0xB8 else 0xBA + word_of_int t)" by (simp add: frame_of_def)
    show ?thesis
      using m1 [OF _ that] m2 [OF _ that] backup_frame [OF assms(3)] backup_frame [OF assms(2)]
        backup_frame(3) [OF assms(3) c] backup_frame(3) [OF assms(2) c] b8 False
      unfolding new old by auto
  qed
  have "\<forall>t \<in> {0, 1, 2}. cursor_ok (terminal ?s t)" using assms(1) by (simp add: screen_ok_def st(2))
  then have "screen_ok ?s" using assms(1,2) st(6) by (simp add: screen_ok_def st(3,4))
  moreover have "display_of ?s t = display_of s t"
    using cell by (auto simp: display_of_def shown_def st(2) fun_eq_iff)
  ultimately show ?thesis using st(3) by simp
qed

theorem switch_terminal_keeps_displays_witness:
  "screen_ok (switch_terminal 2 demo_screen) \<and> cur_terminal (switch_terminal 2 demo_screen) = 2 \<and>
   display_of (switch_terminal 2 demo_screen) 0 = display_of demo_screen 0"
  by (rule switch_terminal_keeps_displays [OF demo_screen_ok(1)]) simp_all

subsection \<open>The typed line\<close>

text \<open>Waiting for the enter key while the given scan codes arrive, and \<^verbatim>\<open>terminal_read\<close> with it:
  \<open>None\<close> if the key has not come when the scan codes end.  \<open>view\<close> is the memory that the caller
  sees in a state, into which the line is copied.\<close>

fun wait_enter :: "u8 list \<Rightarrow> 'a keyboard_scheme \<Rightarrow> ('a keyboard_scheme \<times> u8 list) option" where
  "wait_enter [] s = (if enter_pressed (terminal s (run_terminal s)) \<noteq> 0 then Some (s, []) else None)"
| "wait_enter (c # cs) s =
     (if enter_pressed (terminal s (run_terminal s)) \<noteq> 0 then Some (s, c # cs)
      else do { s \<leftarrow> handle_scan_code c s; wait_enter cs s })"

definition terminal_read :: "u8 list \<Rightarrow> ('a keyboard_scheme \<Rightarrow> mem) \<Rightarrow> int \<Rightarrow> u32 \<Rightarrow> int \<Rightarrow>
    'a keyboard_scheme \<Rightarrow> (int \<times> mem \<times> 'a keyboard_scheme) option" where
  "terminal_read keys view fd buf nbytes s =
     (if buf = 0 \<or> nbytes < 0 then Some (-1, view s, s)
      else do {
        (s, rest) \<leftarrow> wait_enter keys (terminal_read_start s);
        let (ret, m) = terminal_read_finish (view s) (terminal s (run_terminal s)) buf nbytes;
        Some (ret, m, s)
      })"

text \<open>Output does not touch the line buffers.\<close>

definition line_state :: "'a screen_scheme \<Rightarrow> int \<Rightarrow> u8 list \<times> int \<times> int" where
  "line_state s t = (keyboard_buffer (terminal s t), index (terminal s t), enter_pressed (terminal s t))"

definition same_lines :: "'a screen_scheme \<Rightarrow> 'a screen_scheme \<Rightarrow> bool" where
  "same_lines s s' \<longleftrightarrow> line_state s' = line_state s \<and> cur_terminal s' = cur_terminal s \<and>
     run_terminal s' = run_terminal s \<and> screen.more s' = screen.more s"

lemma same_lines_refl [simp]: "same_lines s s"
  by (simp add: same_lines_def)

lemma same_lines_trans: "same_lines s s' \<Longrightarrow> same_lines s' s'' \<Longrightarrow> same_lines s s''"
  by (simp add: same_lines_def)

interpretation lines: screen_preorder_switch same_lines
  by unfold_locales
    (auto simp: same_lines_def line_state_def video_write_def set_cursor_def fun_eq_iff memory_switch_def
      set_pte_def set_user_pte_def flush_tlb_def show_cursor_def update_cursor_def outb_def Let_def
      split: option.splits)

lemma putc_lines [simp]:
  "keyboard_buffer (terminal (putc c u s) t) = keyboard_buffer (terminal s t)"
  "index (terminal (putc c u s) t) = index (terminal s t)"
  "enter_pressed (terminal (putc c u s) t) = enter_pressed (terminal s t)"
  "cur_terminal (putc c u s) = cur_terminal s" "run_terminal (putc c u s) = run_terminal s"
  using lines.R_putc [of s c u] by (auto simp: same_lines_def line_state_def fun_eq_iff)

text \<open>The line buffers are within bounds.\<close>

definition lines_ok :: "'a screen_scheme \<Rightarrow> bool" where
  "lines_ok s \<longleftrightarrow> cur_terminal s \<in> {0, 1, 2} \<and> (\<forall>t \<in> {0, 1, 2}. length (keyboard_buffer (terminal s t)) = 128 \<and>
     0 \<le> index (terminal s t) \<and> index (terminal s t) \<le> 128)"

lemma same_lines_ok: "same_lines s s' \<Longrightarrow> lines_ok s \<Longrightarrow> lines_ok s'"
  by (auto simp: same_lines_def line_state_def lines_ok_def fun_eq_iff)

lemma type_key_ok:
  assumes "lines_ok s" and "index (terminal s (cur_terminal s)) < 128"
  shows "\<exists>s'. type_key d c s = Some s' \<and> lines_ok s'" and "\<exists>s'. enter_key s = Some s' \<and> lines_ok s'"
proof -
  have "0 \<le> index (terminal s (cur_terminal s))" using assms(1) by (auto simp: lines_ok_def)
  then show "\<exists>s'. type_key d c s = Some s' \<and> lines_ok s'" "\<exists>s'. enter_key s = Some s' \<and> lines_ok s'"
    using assms by (auto simp: type_key_def enter_key_def buffer_put_def Let_def lines_ok_def)
qed

lemma backspace_key_ok: "lines_ok s \<Longrightarrow> lines_ok (backspace_key s)"
proof -
  assume ok: "lines_ok s"
  then have "0 \<le> index (terminal s (cur_terminal s))" "index (terminal s (cur_terminal s)) \<le> 128"
    by (auto simp: lines_ok_def)
  then show ?thesis using ok by (auto simp: backspace_key_def Let_def lines_ok_def)
qed

lemma main_key_ok:
  assumes "lines_ok s" and "index (terminal s (cur_terminal s)) < 128"
  shows "\<exists>s'. main_key c s = Some s' \<and> lines_ok s'"
  using assms(1) type_key_ok [OF assms] same_lines_ok [OF lines.R_clear assms(1)]
  by (auto simp: main_key_def Let_def)

lemma kstore_lines: "terminal (kstore va bs s) = terminal s" "cur_terminal (kstore va bs s) = cur_terminal s"
  "run_terminal (kstore va bs s) = run_terminal s"
  by (induction bs arbitrary: va s) (simp_all split: option.splits)

lemma switch_terminal_lines:
  "terminal (switch_terminal k s) = terminal s" "cur_terminal (switch_terminal k s) = k"
  "run_terminal (switch_terminal k s) = run_terminal s"
  by (auto simp: switch_terminal_def Let_def kernel_memcpy_def kstore_lines update_cursor_def outb_def)


subsection \<open>From keys to a line\<close>

text \<open>A key that types the character of the unshifted table.\<close>

definition plain_key :: "u8 \<Rightarrow> bool" where
  "plain_key c \<longleftrightarrow> c < 58 \<and> c \<notin> {0x2A, 0x36, 0x1D, 0x38, 0x0E, 0x0F, 0x01} \<and>
     scan_code_match ! unat c \<noteq> 0 \<and> scan_code_match ! unat c \<noteq> 10"

definition key_char :: "u8 \<Rightarrow> u8" where
  "key_char c = scan_code_match ! unat c"

definition no_modifiers :: "'a keyboard_scheme \<Rightarrow> bool" where
  "no_modifiers s \<longleftrightarrow> ctrl_pressed s = 0 \<and> shift_pressed s = 0 \<and> capital s = 0"

lemma plain_key_step:
  assumes "plain_key c" and "no_modifiers s" and "index (terminal s (cur_terminal s)) < 127"
  shows "handle_scan_code c s = type_key (key_char c) (key_char c) s"
proof -
  have "c \<noteq> 0x3B" "c \<noteq> 0x3C" "c \<noteq> 0x3D" "c \<noteq> 0xAA" "c \<noteq> 0xB6" "c \<noteq> 0x9D" "c \<noteq> 0x3A" "c \<noteq> 0xBA" "c \<noteq> 0xB8"
    using assms(1) by (auto simp: plain_key_def)
  then show ?thesis
    using assms by (simp add: handle_scan_code_def main_key_def Let_def plain_key_def key_char_def no_modifiers_def)
qed

lemma enter_key_step:
  "no_modifiers s \<Longrightarrow> handle_scan_code 0x1C s = enter_key s"
  by (simp add: handle_scan_code_def main_key_def Let_def no_modifiers_def scan_code_match_def)

lemma same_more:
  fixes s s' :: "'a keyboard_scheme"
  assumes "screen.more s' = screen.more s"
  shows "no_modifiers s' = no_modifiers s" and "rtc.more s' = rtc.more s"
  using assms by (cases s; cases s'; simp add: no_modifiers_def)+

lemma putc_modifiers [simp]: "no_modifiers (putc c u s) = no_modifiers s"
  using lines.R_putc [of s c u] by (intro same_more) (simp add: same_lines_def)

lemma no_modifiers_terminal [simp]: "no_modifiers (terminal_update f s) = no_modifiers s"
  by (simp add: no_modifiers_def)

text \<open>The visible line so far.\<close>

definition typed :: "'a keyboard_scheme \<Rightarrow> u8 list \<Rightarrow> bool" where
  "typed s line \<longleftrightarrow> no_modifiers s \<and> length (keyboard_buffer (terminal s (cur_terminal s))) = 128 \<and>
     index (terminal s (cur_terminal s)) = int (length line) \<and>
     take (length line) (keyboard_buffer (terminal s (cur_terminal s))) = line"

lemma plain_key_typed:
  assumes "typed s line" and "plain_key c" and "length line < 127"
  shows "\<exists>s'. handle_scan_code c s = Some s' \<and> typed s' (line @ [key_char c]) \<and>
    cur_terminal s' = cur_terminal s \<and> run_terminal s' = run_terminal s \<and>
    enter_pressed (terminal s' (cur_terminal s)) = enter_pressed (terminal s (cur_terminal s))"
proof -
  have "no_modifiers s" "index (terminal s (cur_terminal s)) < 127"
    using assms(1,3) by (simp_all add: typed_def)
  then have eq: "handle_scan_code c s = type_key (key_char c) (key_char c) s"
    by (rule plain_key_step [OF assms(2)])
  let ?p = "putc (key_char c) 1 s"
  show ?thesis
    unfolding eq type_key_def using assms
    by (auto simp: buffer_put_def Let_def typed_def take_Suc_conv_app_nth)
qed

lemma enter_typed:
  assumes "typed s line" and "length line < 128"
  shows "\<exists>s' rest. handle_scan_code 0x1C s = Some s' \<and> cur_terminal s' = cur_terminal s \<and>
    run_terminal s' = run_terminal s \<and> enter_pressed (terminal s' (cur_terminal s)) = 1 \<and>
    keyboard_buffer (terminal s' (cur_terminal s)) = line @ 10 # rest \<and>
    length (keyboard_buffer (terminal s' (cur_terminal s))) = 128"
proof -
  let ?kb = "keyboard_buffer (terminal s (cur_terminal s))"
  have kb: "length ?kb = 128" "take (length line) ?kb = line"
    "index (terminal s (cur_terminal s)) = int (length line)" "no_modifiers s"
    using assms(1) by (simp_all add: typed_def)
  then have "?kb[length line := 10] = line @ 10 # drop (Suc (length line)) ?kb"
    using assms(2) by (simp add: upd_conv_take_nth_drop)
  then show ?thesis
    using enter_key_step [OF kb(4)] kb assms(2) by (auto simp: enter_key_def buffer_put_def Let_def)
qed

lemma wait_enter_line:
  assumes "typed s line" and "cur_terminal s = run_terminal s"
    and "enter_pressed (terminal s (cur_terminal s)) = 0"
    and "\<forall>c \<in> set cs. plain_key c" and "length line + length cs < 128"
  shows "\<exists>s' rest. wait_enter (cs @ 0x1C # later) s = Some (s', later) \<and> run_terminal s' = run_terminal s \<and>
    keyboard_buffer (terminal s' (run_terminal s)) = line @ map key_char cs @ 10 # rest \<and>
    length (keyboard_buffer (terminal s' (run_terminal s))) = 128"
  using assms
proof (induction cs arbitrary: s line)
  case Nil
  then obtain s' rest where s': "handle_scan_code 0x1C s = Some s'" "run_terminal s' = run_terminal s"
      "enter_pressed (terminal s' (cur_terminal s)) = 1"
      "keyboard_buffer (terminal s' (cur_terminal s)) = line @ 10 # rest"
      "length (keyboard_buffer (terminal s' (cur_terminal s))) = 128"
    using enter_typed [OF Nil.prems(1)] by auto
  then have "wait_enter later s' = Some (s', later)" using Nil.prems(2) by (cases later) simp_all
  then show ?case using s' Nil.prems by auto
next
  case (Cons c cs)
  then obtain s' where s': "handle_scan_code c s = Some s'" "typed s' (line @ [key_char c])"
      "cur_terminal s' = cur_terminal s" "run_terminal s' = run_terminal s"
      "enter_pressed (terminal s' (cur_terminal s)) = 0"
    using plain_key_typed [OF Cons.prems(1), of c] by auto
  with Cons.IH [of s' "line @ [key_char c]"] Cons.prems show ?case by auto
qed

lemma plain_key_not_newline: "\<forall>c \<in> set cs. plain_key c \<Longrightarrow> 10 \<notin> set (map key_char cs)"
proof -
  assume "\<forall>c \<in> set cs. plain_key c"
  moreover have "plain_key c \<Longrightarrow> key_char c \<noteq> 10" for c by (simp only: plain_key_def key_char_def) blast
  ultimately show ?thesis by (metis imageE list.set_map)
qed

text \<open>C28: what the user types is what the program reads.  While a program on the visible terminal
  waits in \<^verbatim>\<open>terminal_read\<close>, any sequence of up to 127 plain keys followed by the enter key makes
  the call return: the buffer holds the characters of the keys in order, ended by a zero byte,
  and the count is one more than their number.\<close>

theorem terminal_read_typed_line:
  assumes "lines_ok s" and "no_modifiers s" and "run_terminal s = cur_terminal s"
    and "\<forall>c \<in> set keys. plain_key c" and "length keys \<le> 127"
    and "buf \<noteq> 0" and "int (length keys) + 1 < nbytes"
  shows "\<exists>s'. terminal_read (keys @ 0x1C # later) view fd buf nbytes s =
    Some (int (length keys) + 1, write_bytes (view s') buf (map key_char keys @ [0]), s')"
proof -
  let ?s = "terminal_read_start s"
  have run: "run_terminal ?s = cur_terminal ?s" "run_terminal ?s = run_terminal s"
    using assms(3) by (simp_all add: terminal_read_start_def reset_buffer_def Let_def)
  have no: "no_modifiers ?s"
    using assms(2) by (simp add: terminal_read_start_def reset_buffer_def Let_def no_modifiers_def)
  have "typed ?s []" "enter_pressed (terminal ?s (cur_terminal ?s)) = 0"
    using assms(3) no by (simp_all add: typed_def terminal_read_start_def reset_buffer_def Let_def)
  then obtain s' rest where s': "wait_enter (keys @ 0x1C # later) ?s = Some (s', later)"
      "run_terminal s' = run_terminal s"
      "keyboard_buffer (terminal s' (run_terminal s)) = map key_char keys @ 10 # rest"
      "length (keyboard_buffer (terminal s' (run_terminal s))) = 128"
    using wait_enter_line [of ?s "[]" keys later] run assms(4,5) by auto
  have "terminal_read_finish (view s') (terminal s' (run_terminal s)) buf nbytes =
      (int (length keys) + 1, write_bytes (view s') buf (map key_char keys @ [0]))"
    using terminal_read_line_finish [OF s'(3,4) plain_key_not_newline [OF assms(4)], of nbytes "view s'" buf] assms(7)
    by simp
  then show ?thesis
    using s' assms(6,7) by (simp add: terminal_read_def)
qed

definition demo_keyboard :: keyboard where
  "demo_keyboard = \<lparr>page_directory = \<lambda>_. 0, page_table = \<lambda>_. 0, user_video_page_table = \<lambda>_. 0,
     page_directory_addr = 0x410000, page_table_addr = 0x411000, user_video_page_table_addr = 0x412000,
     cr0 = 0, cr3 = 0, cr4 = 0, tlb_stale = False, io = [], port_reply = \<lambda>l p. 0,
     interrupts_on = True, master_mask = 0, slave_mask = 0,
     pmem = \<lambda>_. 0, terminal = \<lambda>_. demo_terminal, cur_terminal = 1, run_terminal = 1,
     rtc_flag = 0, rtc_counter = 0, freq = \<lambda>_. 2, intr = \<lambda>_. 0,
     ctrl_pressed = 0, shift_pressed = 0, capital = 0, caps_lock_pressed = 0, alt_pressed = 0\<rparr>"

lemma demo_keyboard_ok:
  "lines_ok demo_keyboard" "no_modifiers demo_keyboard" "run_terminal demo_keyboard = cur_terminal demo_keyboard"
  "index (terminal demo_keyboard (cur_terminal demo_keyboard)) < 128"
  by (simp_all add: demo_keyboard_def lines_ok_def demo_terminal_def no_modifiers_def)


theorem terminal_read_typed_line_witness:
  "\<exists>s'. terminal_read [0x26, 0x1F, 0x1C] (\<lambda>_ _. 7) 0 0x1000 128 demo_keyboard =
    Some (3, write_bytes (\<lambda>_. 7) 0x1000 [108, 115, 0], s')"
proof -
  have "\<forall>c \<in> set [0x26, 0x1F]. plain_key c" "map key_char [0x26, 0x1F] = [108, 115]"
    by (simp_all add: plain_key_def key_char_def scan_code_match_def)
  then show ?thesis
    using terminal_read_typed_line [OF demo_keyboard_ok(1-3), of "[0x26, 0x1F]" "0x1000" 128 "[]" "\<lambda>_ _. 7" 0]
    by simp
qed

subsection \<open>The full buffer\<close>

fun press_enter :: "nat \<Rightarrow> 'a keyboard_scheme \<Rightarrow> 'a keyboard_scheme option" where
  "press_enter 0 s = Some s"
| "press_enter (Suc n) s = do { s \<leftarrow> handle_scan_code 0x1C s; press_enter n s }"

lemma press_enter_index:
  assumes "no_modifiers s" and "0 \<le> index (terminal s (cur_terminal s))"
  shows "if index (terminal s (cur_terminal s)) + int n \<le> 128
    then \<exists>s'. press_enter n s = Some s' \<and> cur_terminal s' = cur_terminal s \<and>
      index (terminal s' (cur_terminal s)) = index (terminal s (cur_terminal s)) + int n
    else index (terminal s (cur_terminal s)) \<le> 128 \<longrightarrow> press_enter n s = None"
  using assms
proof (induction n arbitrary: s)
  case (Suc n)
  let ?i = "index (terminal s (cur_terminal s))"
  have e: "handle_scan_code 0x1C s = enter_key s" by (rule enter_key_step [OF Suc.prems(1)])
  show ?case
  proof (cases "?i < 128")
    case True
    then obtain s' where s': "enter_key s = Some s'" "no_modifiers s'" "cur_terminal s' = cur_terminal s"
        "index (terminal s' (cur_terminal s)) = ?i + 1"
      using Suc.prems by (auto simp: enter_key_def buffer_put_def Let_def)
    with Suc.IH [of s'] Suc.prems True show ?thesis by (auto simp: e split: if_splits)
  next
    case False
    then have "?i \<le> 128 \<Longrightarrow> enter_key s = None" by (simp add: enter_key_def buffer_put_def Let_def)
    with False show ?thesis by (auto simp: e)
  qed
qed simp

text \<open>The guard against a full buffer does not cover the enter key.  While no program reads
  the visible terminal, every press of the enter key takes another place of the 128-byte buffer,
  and the 129th from an empty buffer writes past its end.\<close>

theorem enter_key_overflows_buffer:
  assumes "no_modifiers s" and "index (terminal s (cur_terminal s)) = 0"
  shows "(\<exists>s'. press_enter 128 s = Some s' \<and> index (terminal s' (cur_terminal s)) = 128) \<and>
    press_enter 129 s = None"
  using press_enter_index [OF assms(1), of 128] press_enter_index [OF assms(1), of 129] assms(2) by auto

theorem enter_key_overflows_buffer_witness: "press_enter 129 demo_keyboard = None"
  using enter_key_overflows_buffer [OF demo_keyboard_ok(2)] by (simp add: demo_keyboard_def demo_terminal_def)

end
