(* ===== verification/Filesystem.thy ===== *)
theory Filesystem
  imports Lib_String
begin

text \<open>
  The read-only file system of \<^verbatim>\<open>mp3/student-distrib/filesystem.c\<close>.  The image is an area of
  memory: a boot block, then the index nodes, then the data blocks, each of 4096 bytes.  The
  model keeps the pointers that \<^verbatim>\<open>file_system_init\<close> computes and reads every structure field
  from memory at the offset \<^verbatim>\<open>filesystem.h\<close> gives it, so an index that runs past an array
  reads the bytes that follow it, as in C.  The file operations that need the process
  control block (\<^verbatim>\<open>file_read\<close>) take the inode and the position of the descriptor.
\<close>

subsection \<open>Layout of the image\<close>

text \<open>The globals of the file: three pointers and the index of the next directory entry.\<close>

record fs =
  boot_block_ptr :: u32
  inode_ptr :: u32
  data_block_ptr :: u32
  file_idx :: u32

record dentry_t =
  file_name :: "u8 list"
  file_type :: u32
  inode_num :: u32
  dentry_reserved :: "u8 list"

abbreviation BLOCK_SIZE :: u32 where
  "BLOCK_SIZE \<equiv> 4096"

definition dentry_at :: "mem \<Rightarrow> u32 \<Rightarrow> dentry_t" where
  "dentry_at m a = \<lparr>file_name = read_bytes m a 32, file_type = load32 m (a + 32),
     inode_num = load32 m (a + 36), dentry_reserved = read_bytes m (a + 40) 24\<rparr>"

text \<open>Fields of the boot block: three counts, 52 reserved bytes, then the entries.\<close>

definition num_dir_entries :: "mem \<Rightarrow> fs \<Rightarrow> u32" where
  "num_dir_entries m f = load32 m (boot_block_ptr f)"

definition num_inodes :: "mem \<Rightarrow> fs \<Rightarrow> u32" where
  "num_inodes m f = load32 m (boot_block_ptr f + 4)"

definition num_data_blocks :: "mem \<Rightarrow> fs \<Rightarrow> u32" where
  "num_data_blocks m f = load32 m (boot_block_ptr f + 8)"

definition dir_entry_addr :: "fs \<Rightarrow> u32 \<Rightarrow> u32" where
  "dir_entry_addr f i = boot_block_ptr f + 64 + 64 * i"

text \<open>An index node: the length in bytes, then the data block numbers.\<close>

definition inode_addr :: "fs \<Rightarrow> u32 \<Rightarrow> u32" where
  "inode_addr f i = inode_ptr f + 4096 * i"

definition inode_length :: "mem \<Rightarrow> fs \<Rightarrow> u32 \<Rightarrow> u32" where
  "inode_length m f i = load32 m (inode_addr f i)"

definition data_block_num :: "mem \<Rightarrow> fs \<Rightarrow> u32 \<Rightarrow> u32 \<Rightarrow> u32" where
  "data_block_num m f i k = load32 m (inode_addr f i + 4 + 4 * k)"

definition data_addr :: "fs \<Rightarrow> u32 \<Rightarrow> u32 \<Rightarrow> u32" where
  "data_addr f b off = data_block_ptr f + 4096 * b + off"

definition file_system_init :: "mem \<Rightarrow> u32 \<Rightarrow> fs \<Rightarrow> fs" where
  "file_system_init m fs_start_addr f =
     (let f = f\<lparr>boot_block_ptr := fs_start_addr\<rparr>;
          f = f\<lparr>inode_ptr := boot_block_ptr f + 4096\<rparr>
      in f\<lparr>data_block_ptr := inode_ptr f + 4096 * num_inodes m f\<rparr>)"

subsection \<open>The three lookup functions\<close>

text \<open>The loop over the directory: the first entry whose name compares equal.\<close>

function dentry_scan :: "mem \<Rightarrow> fs \<Rightarrow> u32 \<Rightarrow> u32 \<Rightarrow> dentry_t option" where
  "dentry_scan m f fname i =
     (if i < num_dir_entries m f then
        (if strncmp m fname (dir_entry_addr f i) 32 = 0 then Some (dentry_at m (dir_entry_addr f i))
         else dentry_scan m f fname (i + 1))
      else None)"
  by pat_completeness auto
termination
  by (relation "measure (\<lambda>(m, f, fname, i). unat (num_dir_entries m f) - unat i)")
    (auto simp: word_less_nat_alt)

declare dentry_scan.simps [simp del]

text \<open>The outer \<open>option\<close> is \<open>None\<close> when \<^verbatim>\<open>strlen\<close> does not return.  The inner one is
  \<open>None\<close> for the return value -1 and otherwise the entry copied to \<^verbatim>\<open>*dentry\<close>.\<close>

definition read_dentry_by_name :: "mem \<Rightarrow> fs \<Rightarrow> u32 \<Rightarrow> u32 \<Rightarrow> dentry_t option option" where
  "read_dentry_by_name m f fname dentry =
     (if fname = 0 \<or> dentry = 0 then Some None
      else do {
        len \<leftarrow> strlen m fname;
        if len > 32 then Some None else Some (dentry_scan m f fname 0)
      })"

definition read_dentry_by_index :: "mem \<Rightarrow> fs \<Rightarrow> u32 \<Rightarrow> u32 \<Rightarrow> dentry_t option" where
  "read_dentry_by_index m f index dentry =
     (if index \<ge> num_dir_entries m f \<or> dentry = 0 then None
      else Some (dentry_at m (dir_entry_addr f index)))"

text \<open>How many bytes of block \<open>i\<close> are wanted.\<close>

definition bytes_to_copy :: "u32 \<Rightarrow> u32 \<Rightarrow> u32 \<Rightarrow> u32 \<Rightarrow> u32 \<Rightarrow> u32" where
  "bytes_to_copy start_data_block end_data_block start_offset end_offset i =
     (if i = start_data_block \<and> i = end_data_block then end_offset - start_offset + 1
      else if i = start_data_block then BLOCK_SIZE - start_offset
      else if i = end_data_block then end_offset + 1
      else BLOCK_SIZE)"

text \<open>The block loop of \<^verbatim>\<open>read_data\<close>.  The first argument counts the iterations still to
  do; \<^verbatim>\<open>end_data_block\<close> is a quotient by 4096, so \<^verbatim>\<open>i\<close> never wraps.\<close>

fun read_blocks :: "nat \<Rightarrow> mem \<Rightarrow> fs \<Rightarrow> u32 \<Rightarrow> u32 \<Rightarrow> u32 \<Rightarrow> u32 \<Rightarrow> u32 \<Rightarrow> u32 \<Rightarrow> u32 \<Rightarrow> u32 \<Rightarrow> mem \<times> u32"
where
  "read_blocks 0 m f inode buf start_data_block end_data_block end_offset i start_offset bytes_read =
     (m, bytes_read)"
| "read_blocks (Suc k) m f inode buf start_data_block end_data_block end_offset i start_offset bytes_read =
     (let n = bytes_to_copy start_data_block end_data_block start_offset end_offset i;
          m = memcpy m (buf + bytes_read) (data_addr f (data_block_num m f inode i) start_offset) n
      in read_blocks k m f inode buf start_data_block end_data_block end_offset (i + 1) 0 (bytes_read + n))"

definition read_data :: "mem \<Rightarrow> fs \<Rightarrow> u32 \<Rightarrow> u32 \<Rightarrow> u32 \<Rightarrow> u32 \<Rightarrow> int \<times> mem" where
  "read_data m f inode offset buf len =
     (if inode \<ge> num_inodes m f \<or> buf = 0 then (-1, m)
      else if offset \<ge> inode_length m f inode then (0, m)
      else
        let len = (if offset + len > inode_length m f inode
                   then inode_length m f inode - offset else len);
            start_data_block = offset div BLOCK_SIZE;
            start_offset = offset mod BLOCK_SIZE;
            end_data_block = (offset + len - 1) div BLOCK_SIZE;
            end_offset = (offset + len - 1) mod BLOCK_SIZE;
            (m', bytes_read) =
              read_blocks (unat end_data_block + 1 - unat start_data_block) m f inode buf
                start_data_block end_data_block end_offset start_data_block start_offset 0
        in (sint bytes_read, m'))"

subsection \<open>File and directory operations\<close>

definition file_open :: "mem \<Rightarrow> fs \<Rightarrow> u32 \<Rightarrow> int option" where
  "file_open m f filename =
     (if filename = 0 then Some (-1)
      else do {
        d \<leftarrow> read_dentry_by_name m f filename 1;
        case d of None \<Rightarrow> Some (-1)
        | Some dentry \<Rightarrow> Some (if file_type dentry \<noteq> 2 then -1 else 0)
      })"

definition file_close :: "int \<Rightarrow> int" where
  "file_close fd = 0"

text \<open>\<open>inode\<close> and \<open>position\<close> are the fields of descriptor \<open>fd\<close> in the process control block.\<close>

definition file_read :: "mem \<Rightarrow> fs \<Rightarrow> (int \<Rightarrow> u32) \<Rightarrow> (int \<Rightarrow> u32) \<Rightarrow> int \<Rightarrow> u32 \<Rightarrow> int \<Rightarrow> int \<times> mem" where
  "file_read m f inode position fd buf nbytes =
     (if fd < 0 \<or> fd > 7 \<or> buf = 0 \<or> nbytes < 0 then (-1, m)
      else read_data m f (inode fd) (position fd) buf (of_int nbytes))"

definition file_write :: "int \<Rightarrow> u32 \<Rightarrow> int \<Rightarrow> int" where
  "file_write fd buf nbytes = -1"

definition dir_open :: "mem \<Rightarrow> fs \<Rightarrow> u32 \<Rightarrow> int option" where
  "dir_open m f filename =
     (if filename = 0 then Some (-1)
      else do {
        d \<leftarrow> read_dentry_by_name m f filename 1;
        case d of None \<Rightarrow> Some (-1)
        | Some dentry \<Rightarrow> Some (if file_type dentry \<noteq> 1 then -1 else 0)
      })"

definition dir_close :: "int \<Rightarrow> int" where
  "dir_close fd = 0"

text \<open>\<^verbatim>\<open>dir_read\<close> copies the whole 32-byte name whatever \<^verbatim>\<open>nbytes\<close> is, and counts in a global.\<close>

definition dir_read :: "mem \<Rightarrow> fs \<Rightarrow> int \<Rightarrow> u32 \<Rightarrow> int \<Rightarrow> int \<times> mem \<times> fs" where
  "dir_read m f fd buf nbytes =
     (if fd < 0 \<or> fd > 7 \<or> buf = 0 \<or> nbytes < 0 then (-1, m, f)
      else if file_idx f < num_dir_entries m f then
        let dentry = dentry_at m (dir_entry_addr f (file_idx f))
        in (32, write_bytes m buf (file_name dentry), f\<lparr>file_idx := file_idx f + 1\<rparr>)
      else (0, m, f\<lparr>file_idx := 0\<rparr>))"

definition dir_write :: "int \<Rightarrow> u32 \<Rightarrow> int \<Rightarrow> int" where
  "dir_write fd buf nbytes = -1"

definition get_length :: "mem \<Rightarrow> fs \<Rightarrow> u32 \<Rightarrow> int" where
  "get_length m f inode = (if inode \<ge> num_inodes m f then -1 else sint (inode_length m f inode))"

subsection \<open>Well-formed images\<close>

text \<open>The area the image occupies, and when the pointers and counts describe an area that
  does not wrap around the end of memory.\<close>

definition image_size :: "mem \<Rightarrow> fs \<Rightarrow> nat" where
  "image_size m f = 4096 * (1 + unat (num_inodes m f) + unat (num_data_blocks m f))"

definition image_ok :: "mem \<Rightarrow> fs \<Rightarrow> bool" where
  "image_ok m f \<longleftrightarrow> inode_ptr f = boot_block_ptr f + 4096 \<and>
     data_block_ptr f = inode_ptr f + 4096 * num_inodes m f \<and>
     unat (boot_block_ptr f) + image_size m f \<le> 2 ^ 32"

text \<open>An index node whose blocks are all in the image; 1023 is the size of its block array.\<close>

definition inode_ok :: "mem \<Rightarrow> fs \<Rightarrow> u32 \<Rightarrow> bool" where
  "inode_ok m f i \<longleftrightarrow> i < num_inodes m f \<and> unat (inode_length m f i) \<le> 1023 * 4096 \<and>
     (\<forall>k < (unat (inode_length m f i) + 4095) div 4096.
        data_block_num m f i (of_nat k) < num_data_blocks m f)"

text \<open>The contents of a file, position by position.\<close>

definition file_byte :: "mem \<Rightarrow> fs \<Rightarrow> u32 \<Rightarrow> nat \<Rightarrow> u8" where
  "file_byte m f i p =
     m (data_addr f (data_block_num m f i (of_nat (p div 4096))) (of_nat (p mod 4096)))"

definition file_bytes :: "mem \<Rightarrow> fs \<Rightarrow> u32 \<Rightarrow> u8 list" where
  "file_bytes m f i = map (file_byte m f i) [0..<unat (inode_length m f i)]"

lemma length_file_bytes [simp]: "length (file_bytes m f i) = unat (inode_length m f i)"
  by (simp add: file_bytes_def)

lemma file_system_init_ok:
  assumes "unat a + image_size m (file_system_init m a f) \<le> 2 ^ 32"
  shows "image_ok m (file_system_init m a f)"
  using assms by (simp add: image_ok_def file_system_init_def Let_def num_inodes_def)

text \<open>Addresses of the image as distances from its start.\<close>

lemma image_span:
  assumes "image_ok m f" and "d < image_size m f"
  shows "boot_block_ptr f + of_nat d \<in> span (boot_block_ptr f) (image_size m f)"
proof -
  have "d < 2 ^ 32" using assms by (simp add: image_ok_def)
  with assms(2) show ?thesis by simp
qed

lemma inode_entry_addr:
  assumes "image_ok m f"
  shows "inode_addr f i + 4 + 4 * of_nat k + of_nat j =
    boot_block_ptr f + of_nat (4096 * (1 + unat i) + 4 + 4 * k + j)"
  using assms by (simp add: inode_addr_def image_ok_def algebra_simps)

lemma data_byte_addr:
  assumes "image_ok m f"
  shows "data_addr f b (of_nat j) =
    boot_block_ptr f + of_nat (4096 * (1 + unat (num_inodes m f) + unat b) + j)"
  using assms by (simp add: data_addr_def image_ok_def algebra_simps)

lemma inode_entry_in_image:
  assumes "image_ok m f" and "i < num_inodes m f" and "k < 1023" and "x \<in> span (inode_addr f i + 4 + 4 * of_nat k) 4"
  shows "x \<in> span (boot_block_ptr f) (image_size m f)"
proof -
  let ?j = "unat (x - (inode_addr f i + 4 + 4 * of_nat k))"
  have j: "?j < 4" using assms(4) by simp
  have "x = inode_addr f i + 4 + 4 * of_nat k + of_nat ?j" by simp
  also have "\<dots> = boot_block_ptr f + of_nat (4096 * (1 + unat i) + 4 + 4 * k + ?j)"
    by (rule inode_entry_addr [OF assms(1)])
  finally have x: "x = boot_block_ptr f + of_nat (4096 * (1 + unat i) + 4 + 4 * k + ?j)" .
  have "4096 * (1 + unat i) + 4 + 4 * k + ?j < image_size m f"
    using assms(2,3) j by (simp add: image_size_def word_less_nat_alt del: in_span)
  then show ?thesis by (subst x) (rule image_span [OF assms(1)])
qed

lemma data_byte_in_image:
  assumes "image_ok m f" and "b < num_data_blocks m f" and "j < 4096"
  shows "data_addr f b (of_nat j) \<in> span (boot_block_ptr f) (image_size m f)"
  unfolding data_byte_addr [OF assms(1)]
  using assms(2,3) by (intro image_span [OF assms(1)]) (simp add: image_size_def word_less_nat_alt)

text \<open>The file system depends on the bytes of the image only.\<close>

lemma inode_length_in_image:
  assumes "image_ok m f" and "i < num_inodes m f" and "x \<in> span (inode_addr f i) 4"
  shows "x \<in> span (boot_block_ptr f) (image_size m f)"
proof -
  have "inode_addr f i = boot_block_ptr f + of_nat (4096 * (1 + unat i))"
    using assms(1) by (simp add: inode_addr_def image_ok_def algebra_simps)
  moreover have "4096 * (1 + unat i) + 4 \<le> image_size m f"
    using assms(2) by (simp add: image_size_def word_less_nat_alt)
  moreover have "image_size m f \<le> 2 ^ 32" using assms(1) by (simp add: image_ok_def)
  ultimately have "span (inode_addr f i) 4 \<subseteq> span (boot_block_ptr f) (image_size m f)"
    using span_sub by (simp only:)
  then show ?thesis using assms(3) by (rule subsetD)
qed

lemma image_cong:
  assumes "image_ok m f" and "\<And>x. x \<in> span (boot_block_ptr f) (image_size m f) \<Longrightarrow> m' x = m x"
  shows "num_dir_entries m' f = num_dir_entries m f" and "num_inodes m' f = num_inodes m f"
    and "num_data_blocks m' f = num_data_blocks m f" and "image_size m' f = image_size m f"
    and "image_ok m' f"
proof -
  have "load32 m' (boot_block_ptr f + of_nat d) = load32 m (boot_block_ptr f + of_nat d)" if "d \<le> 8" for d
  proof (rule load32_cong, rule assms(2))
    fix x assume "x \<in> span (boot_block_ptr f + of_nat d) 4"
    moreover have "span (boot_block_ptr f + of_nat d) 4 \<subseteq> span (boot_block_ptr f) (image_size m f)"
      using that assms(1) by (intro span_sub) (simp_all add: image_size_def image_ok_def)
    ultimately show "x \<in> span (boot_block_ptr f) (image_size m f)" by blast
  qed
  from this [of 0] this [of 4] this [of 8]
  show n: "num_dir_entries m' f = num_dir_entries m f" "num_inodes m' f = num_inodes m f"
    "num_data_blocks m' f = num_data_blocks m f"
    by (simp_all add: num_dir_entries_def num_inodes_def num_data_blocks_def)
  then show "image_size m' f = image_size m f" by (simp add: image_size_def)
  with n assms(1) show "image_ok m' f" by (simp add: image_ok_def)
qed

lemma file_cong:
  assumes "image_ok m f" and "inode_ok m f i"
    and same: "\<And>x. x \<in> span (boot_block_ptr f) (image_size m f) \<Longrightarrow> m' x = m x"
  shows "inode_length m' f i = inode_length m f i" and "inode_ok m' f i"
    and "file_bytes m' f i = file_bytes m f i"
proof -
  have i: "i < num_inodes m f" using assms(2) by (simp add: inode_ok_def)
  show len: "inode_length m' f i = inode_length m f i"
    unfolding inode_length_def by (rule load32_cong, rule same, rule inode_length_in_image [OF assms(1) i])
  let ?n = "(unat (inode_length m f i) + 4095) div 4096"
  have bound: "k < 1023" if "k < ?n" for k
  proof -
    have "unat (inode_length m f i) \<le> 1023 * 4096" using assms(2) by (simp add: inode_ok_def)
    then have "?n \<le> 1023" by linarith
    with that show ?thesis by simp
  qed
  have num: "data_block_num m' f i (of_nat k) = data_block_num m f i (of_nat k)" if "k < ?n" for k
    unfolding data_block_num_def
    by (rule load32_cong, rule same, rule inode_entry_in_image [OF assms(1) i bound [OF that]])
  show "inode_ok m' f i" using assms(2) num image_cong [OF assms(1) same] len by (simp add: inode_ok_def)
  have "file_byte m' f i p = file_byte m f i p" if p: "p < unat (inode_length m f i)" for p
  proof -
    have k: "p div 4096 < ?n" using p by simp
    then have "data_block_num m f i (of_nat (p div 4096)) < num_data_blocks m f"
      using assms(2) by (simp add: inode_ok_def)
    from data_byte_in_image [OF assms(1) this, of "p mod 4096"] show ?thesis
      by (simp add: file_byte_def num [OF k] same del: in_span)
  qed
  then show "file_bytes m' f i = file_bytes m f i" by (simp add: file_bytes_def len)
qed

subsection \<open>Reading a run of blocks\<close>

text \<open>A buffer that does not touch the image: what is written there leaves the image alone.\<close>

lemma image_unchanged:
  assumes "apart buf n (boot_block_ptr f) (image_size m f)" and "length bs \<le> n" and "n \<le> 2 ^ 32"
    and "x \<in> span (boot_block_ptr f) (image_size m f)"
  shows "write_bytes m buf bs x = m x"
proof -
  have "x \<notin> span buf n" using assms(1,4) unfolding apart_def by blast
  with assms(2,3) show ?thesis by (simp add: write_bytes_apply)
qed

lemma data_block_num_unchanged:
  assumes "image_ok m f" and "i < num_inodes m f" and "k < 1023"
    and "apart buf n (boot_block_ptr f) (image_size m f)" and "length bs \<le> n" and "n \<le> 2 ^ 32"
  shows "data_block_num (write_bytes m buf bs) f i (of_nat k) = data_block_num m f i (of_nat k)"
  unfolding data_block_num_def
  by (rule load32_cong, rule image_unchanged [OF assms(4-6)])
    (rule inode_entry_in_image [OF assms(1-3)])

text \<open>The part of block \<open>k\<close> from \<open>j\<close> on holds the file's bytes from position \<open>4096 * k + j\<close>.\<close>

lemma block_run:
  assumes "j + n \<le> 4096" and "k < 2 ^ 20"
  shows "read_bytes m (data_addr f (data_block_num m f i (of_nat k)) (of_nat j)) n =
    map (file_byte m f i) [4096 * k + j..<4096 * k + j + n]"
proof (rule nth_equalityI)
  fix p assume "p < length (read_bytes m (data_addr f (data_block_num m f i (of_nat k)) (of_nat j)) n)"
  then have p: "p < n" by simp
  have "(4096 * k + j + p) div 4096 = k" and "(4096 * k + j + p) mod 4096 = j + p"
    using assms(1) p by (simp_all add: add.assoc div_mult_self4)
  with p show "read_bytes m (data_addr f (data_block_num m f i (of_nat k)) (of_nat j)) n ! p =
      map (file_byte m f i) [4096 * k + j..<4096 * k + j + n] ! p"
    by (simp add: file_byte_def data_addr_def add.assoc)
qed simp

text \<open>The file position at which the loop starts block \<open>i\<close> when it reads positions \<open>off\<close>
  up to \<open>fin\<close>, and the arithmetic of one iteration.\<close>

definition block_pos :: "nat \<Rightarrow> nat \<Rightarrow> nat \<Rightarrow> nat" where
  "block_pos off fin i = max off (min (4096 * i) fin)"

lemma block_step:
  fixes off fin i :: nat
  defines "sb \<equiv> off div 4096" and "eb \<equiv> (fin - 1) div 4096"
  assumes "off < fin" and "sb \<le> i" and "i \<le> eb"
  shows "block_pos off fin i = 4096 * i + (if i = sb then off mod 4096 else 0)"
    and "block_pos off fin (Suc i) =
      (if i = eb then fin else 4096 * Suc i)"
    and "block_pos off fin i < block_pos off fin (Suc i)"
    and "block_pos off fin (Suc i) \<le> 4096 * Suc i"
    and "block_pos off fin (Suc i) \<le> fin"
proof -
  define r q where "r = off mod 4096" and "q = (fin - 1) mod 4096"
  have off: "off = 4096 * sb + r" and r: "r < 4096" by (simp_all add: sb_def r_def)
  have "fin - 1 = 4096 * eb + q" and q: "q < 4096" by (simp_all add: eb_def q_def)
  then have fin: "fin = 4096 * eb + q + 1" using assms(3) by simp
  show pos: "block_pos off fin i = 4096 * i + (if i = sb then off mod 4096 else 0)"
  proof (cases "i = sb")
    case True
    with off have "4096 * i \<le> off" by simp
    with assms(3) have "block_pos off fin i = off" by (simp add: block_pos_def max_def min_def)
    with True off show ?thesis unfolding r_def by presburger
  next
    case False
    with assms(4) have "Suc sb \<le> i" by simp
    with off r have "off \<le> 4096 * i" by simp
    moreover have "4096 * i \<le> fin" using assms(5) fin by simp
    ultimately have "off \<le> 4096 * i" and "4096 * i \<le> fin" by simp_all
    with False show ?thesis by (simp add: block_pos_def max_def)
  qed
  show suc: "block_pos off fin (Suc i) = (if i = eb then fin else 4096 * Suc i)"
  proof (cases "i = eb")
    case True
    with fin q have "fin \<le> 4096 * Suc i" by simp
    with True assms(3) show ?thesis by (simp add: block_pos_def max_def min_def)
  next
    case False
    with assms(5) have "Suc i \<le> eb" by simp
    with fin have "4096 * Suc i \<le> fin" by simp
    moreover have "off \<le> 4096 * Suc i" using assms(4) off r by simp
    ultimately have "off \<le> 4096 * Suc i" and "4096 * Suc i \<le> fin" by simp_all
    with False show ?thesis by (simp add: block_pos_def max_def)
  qed
  have lo: "block_pos off fin i \<le> 4096 * i + r"
    using pos by (simp add: r_def)
  have at: "i = sb \<Longrightarrow> block_pos off fin i = off"
    using pos off unfolding r_def by presburger
  show "block_pos off fin i < block_pos off fin (Suc i)"
  proof (cases "i = eb")
    case True
    have "block_pos off fin i < fin"
    proof (cases "i = sb")
      case True
      with at assms(3) show ?thesis by simp
    next
      case False
      with pos fin True show ?thesis by simp
    qed
    with suc True show ?thesis by simp
  next
    case False
    with suc lo r show ?thesis by simp
  qed
  show "block_pos off fin (Suc i) \<le> 4096 * Suc i"
    using suc fin q by (auto split: if_splits)
  show "block_pos off fin (Suc i) \<le> fin"
    using assms(3) by (simp add: block_pos_def)
qed

lemma bytes_to_copy_step:
  fixes off fin i :: nat
  defines "sb \<equiv> off div 4096" and "eb \<equiv> (fin - 1) div 4096"
  assumes "off < fin" and "sb \<le> i" and "i \<le> eb" and "fin < 2 ^ 32"
  shows "bytes_to_copy (of_nat sb) (of_nat eb) (of_nat (if i = sb then off mod 4096 else 0))
      (of_nat ((fin - 1) mod 4096)) (of_nat i) =
    of_nat (block_pos off fin (Suc i) - block_pos off fin i)"
proof -
  define r q where "r = off mod 4096" and "q = (fin - 1) mod 4096"
  have "fin - 1 = 4096 * eb + q" and q: "q < 4096" by (simp_all add: eb_def q_def)
  then have fin: "fin = 4096 * eb + q + 1" using assms(3) by simp
  have off: "off = 4096 * sb + r" and r: "r < 4096" by (simp_all add: sb_def r_def)
  have small: "sb < 2 ^ 32" "eb < 2 ^ 32" "i < 2 ^ 32"
    using fin assms(4-6) by linarith+
  then have eqs: "(of_nat i :: u32) = of_nat sb \<longleftrightarrow> i = sb" "(of_nat i :: u32) = of_nat eb \<longleftrightarrow> i = eb"
    by (simp_all add: of_nat_u32_eq_iff)
  note step = block_step [OF assms(3-5) [unfolded sb_def eb_def], folded sb_def eb_def]
  consider "i = sb" "i = eb" | "i = sb" "i \<noteq> eb" | "i \<noteq> sb" "i = eb" | "i \<noteq> sb" "i \<noteq> eb" by blast
  then show ?thesis
  proof cases
    case 1
    then have "r \<le> q" using off fin assms(3) by simp
    with 1 show ?thesis
      using eqs step(1,2) fin q by (simp add: bytes_to_copy_def of_nat_diff flip: r_def q_def)
  next
    case 2
    with eqs step(1,2) r show ?thesis by (simp add: bytes_to_copy_def of_nat_diff flip: r_def)
  next
    case 3
    with eqs step(1,2) fin q show ?thesis by (simp add: bytes_to_copy_def flip: q_def)
  next
    case 4
    with eqs step(1,2) show ?thesis by (simp add: bytes_to_copy_def)
  qed
qed

lemma block_run_in_image:
  assumes "image_ok m f" and "b < num_data_blocks m f" and "j + n \<le> 4096"
  shows "span (data_addr f b (of_nat j)) n \<subseteq> span (boot_block_ptr f) (image_size m f)"
proof -
  have "4096 * (1 + unat (num_inodes m f) + unat b) + j + n \<le> image_size m f"
    using assms(2,3) by (simp add: image_size_def word_less_nat_alt)
  moreover have "image_size m f \<le> 2 ^ 32" using assms(1) by (simp add: image_ok_def)
  ultimately show ?thesis unfolding data_byte_addr [OF assms(1)] by (rule span_sub)
qed

text \<open>One iteration: with the bytes before block \<open>k\<close> already in the buffer, the copy of the
  block appends its bytes.\<close>

lemma copy_block:
  assumes "image_ok m f" and "inode_ok m f i"
    and "apart buf N (boot_block_ptr f) (image_size m f)" and "length bs + n \<le> N" and "N < 2 ^ 32"
    and "j + n \<le> 4096" and "4096 * k + j + n \<le> unat (inode_length m f i)" and "0 < n"
  shows "memcpy (write_bytes m buf bs) (buf + of_nat (length bs))
      (data_addr f (data_block_num (write_bytes m buf bs) f i (of_nat k)) (of_nat j)) (of_nat n) =
    write_bytes m buf (bs @ map (file_byte m f i) [4096 * k + j..<4096 * k + j + n])"
proof -
  let ?m = "write_bytes m buf bs" and ?b = "data_block_num m f i (of_nat k)"
  let ?src = "data_addr f ?b (of_nat j)"
  have k: "k < 1023" and inode: "i < num_inodes m f"
    using assms(2,7,8) by (auto simp: inode_ok_def)
  have "k < (unat (inode_length m f i) + 4095) div 4096"
    using assms(7,8) by (simp add: less_eq_div_iff_mult_less_eq Suc_le_eq [symmetric])
  then have b: "?b < num_data_blocks m f"
    using assms(2) by (simp add: inode_ok_def)
  have num: "data_block_num ?m f i (of_nat k) = ?b"
    using assms(4,5) by (intro data_block_num_unchanged [OF assms(1) inode k assms(3)]) simp_all
  have n: "unat (of_nat n :: u32) = n" using assms(4,5) by simp
  have src: "span ?src n \<subseteq> span (boot_block_ptr f) (image_size m f)"
    by (rule block_run_in_image [OF assms(1) b assms(6)])
  have "span (buf + of_nat (length bs)) n \<subseteq> span buf N"
    using assms(4,5) by (intro span_sub) simp_all
  then have "apart (buf + of_nat (length bs)) n ?src n"
    by (rule apart_mono [OF assms(3) _ src])
  then have safe: "copy_up_safe (buf + of_nat (length bs)) ?src (unat (of_nat n :: u32))"
    unfolding n by (rule apart_copy_up_safe)
  have "read_bytes ?m ?src n = read_bytes m ?src n"
    using src assms(4,5) by (intro read_bytes_cong image_unchanged [OF assms(3)]) auto
  also have "\<dots> = map (file_byte m f i) [4096 * k + j..<4096 * k + j + n]"
    using k by (intro block_run [OF assms(6)]) simp
  finally have "read_bytes ?m ?src (unat (of_nat n :: u32)) =
      map (file_byte m f i) [4096 * k + j..<4096 * k + j + n]" by (simp add: n)
  then show ?thesis
    unfolding num by (rule memcpy_copier.copy_extends [OF safe])
qed

text \<open>The loop from block \<open>i\<close> on completes the buffer.\<close>

lemma read_blocks_run:
  fixes off fin :: nat
  defines "sb \<equiv> off div 4096" and "eb \<equiv> (fin - 1) div 4096"
  assumes "image_ok m f" and "inode_ok m f ino"
    and "apart buf (fin - off) (boot_block_ptr f) (image_size m f)"
    and "off < fin" and "fin \<le> unat (inode_length m f ino)"
    and "sb \<le> i" and "i \<le> Suc eb"
  shows "read_blocks (Suc eb - i)
      (write_bytes m buf (map (file_byte m f ino) [off..<block_pos off fin i])) f ino buf
      (of_nat sb) (of_nat eb) (of_nat ((fin - 1) mod 4096)) (of_nat i)
      (of_nat (if i = sb then off mod 4096 else 0)) (of_nat (block_pos off fin i - off)) =
    (write_bytes m buf (map (file_byte m f ino) [off..<fin]), of_nat (fin - off))"
  using assms(9,8)
proof (induction i rule: inc_induct)
  case base
  have "fin - 1 < 4096 * Suc eb" unfolding eb_def by (simp add: dividend_less_times_div)
  then have "block_pos off fin (Suc eb) = fin" using assms(6) by (simp add: block_pos_def)
  then show ?case by simp
next
  case (step i)
  then have le: "i \<le> eb" by simp
  have fin: "fin < 2 ^ 32" using assms(7) by (rule le_less_trans) simp
  note bs = block_step [OF assms(6), folded sb_def eb_def, OF step.prems le]
  let ?p = "block_pos off fin i" and ?q = "block_pos off fin (Suc i)"
  let ?j = "if i = sb then off mod 4096 else 0"
  have off: "off \<le> ?p" by (simp add: block_pos_def)
  have q: "?q = 4096 * i + ?j + (?q - ?p)" using bs(1,3) by linarith
  have copy: "memcpy (write_bytes m buf (map (file_byte m f ino) [off..<?p])) (buf + of_nat (?p - off))
      (data_addr f (data_block_num (write_bytes m buf (map (file_byte m f ino) [off..<?p])) f ino (of_nat i))
        (of_nat ?j)) (of_nat (?q - ?p)) =
    write_bytes m buf (map (file_byte m f ino) [off..<?p] @ map (file_byte m f ino)
      [4096 * i + ?j..<4096 * i + ?j + (?q - ?p)])"
  proof (rule copy_block [OF assms(3-5), of "map (file_byte m f ino) [off..<?p]", simplified length_map length_upt])
    show "?p - off + (?q - ?p) \<le> fin - off" using bs(3,5) off by linarith
    show "fin - off < 2 ^ 32" using fin by linarith
    show "?j + (?q - ?p) \<le> 4096" using bs(4) by (subst (asm) q) simp
    show "4096 * i + ?j + (?q - ?p) \<le> unat (inode_length m f ino)" using q bs(5) assms(7) by linarith
    show "0 < ?q - ?p" using bs(3) by simp
  qed
  also have "map (file_byte m f ino) [off..<?p] @ map (file_byte m f ino)
      [4096 * i + ?j..<4096 * i + ?j + (?q - ?p)] = map (file_byte m f ino) [off..<?q]"
    unfolding q [symmetric] bs(1) [symmetric] map_append [symmetric]
    using off bs(3) upt_add_eq_append [of off ?p "?q - ?p"] by simp
  finally have run: "memcpy (write_bytes m buf (map (file_byte m f ino) [off..<?p])) (buf + of_nat (?p - off))
      (data_addr f (data_block_num (write_bytes m buf (map (file_byte m f ino) [off..<?p])) f ino (of_nat i))
        (of_nat ?j)) (of_nat (?q - ?p)) = write_bytes m buf (map (file_byte m f ino) [off..<?q])" .
  have n: "bytes_to_copy (of_nat sb) (of_nat eb) (of_nat ?j) (of_nat ((fin - 1) mod 4096)) (of_nat i) =
      of_nat (?q - ?p)"
    using bytes_to_copy_step [OF assms(6), folded sb_def eb_def, OF step.prems le fin] .
  have read: "(of_nat (?p - off) :: u32) + of_nat (?q - ?p) = of_nat (?q - off)"
    using off bs(3) by (simp add: of_nat_diff)
  have "Suc eb - i = Suc (Suc eb - Suc i)" using le by simp
  then show ?case
    using step.IH step.prems
    by (simp only: read_blocks.simps n Let_def run read) (simp add: add.commute)
qed

text \<open>The number of bytes a read delivers.\<close>

definition read_count :: "mem \<Rightarrow> fs \<Rightarrow> u32 \<Rightarrow> u32 \<Rightarrow> u32 \<Rightarrow> nat" where
  "read_count m f inode offset len =
     min (unat len) (unat (inode_length m f inode) - unat offset)"

lemma read_data_length:
  assumes "offset < inode_length m f inode" and "unat offset + unat len < 2 ^ 32"
  shows "(if offset + len > inode_length m f inode then inode_length m f inode - offset else len) =
    of_nat (read_count m f inode offset len)"
  using assms by (auto simp: read_count_def word_less_nat_alt unat_word_ariths of_nat_diff min_def)

lemma read_data_run:
  assumes "image_ok m f" and "inode_ok m f inode" and "buf \<noteq> 0"
    and "offset < inode_length m f inode" and "0 < len" and "unat offset + unat len < 2 ^ 32"
    and "apart buf (read_count m f inode offset len) (boot_block_ptr f) (image_size m f)"
  shows "read_data m f inode offset buf len =
    (int (read_count m f inode offset len),
     write_bytes m buf (take (read_count m f inode offset len) (drop (unat offset) (file_bytes m f inode))))"
proof -
  let ?n = "read_count m f inode offset len" and ?off = "unat offset"
  let ?fin = "?off + ?n"
  have n: "0 < ?n" "?fin \<le> unat (inode_length m f inode)"
    using assms(4,5) by (auto simp: read_count_def word_less_nat_alt)
  have big: "unat (inode_length m f inode) \<le> 1023 * 4096" and inode: "inode < num_inodes m f"
    using assms(2) by (simp_all add: inode_ok_def)
  from n(2) big have "?fin \<le> 1023 * 4096" by (rule le_trans)
  then have small: "?fin < 2 ^ 31" by simp
  define l where "l = ?fin - 1"
  have l: "l < 2 ^ 31" "?off \<le> l" using small n(1) by (simp_all add: l_def)
  have e: "offset + of_nat ?n - 1 = of_nat l"
    using n(1) by (simp add: of_nat_diff l_def)
  have div: "offset div 4096 = of_nat (?off div 4096)" "offset mod 4096 = of_nat (?off mod 4096)"
      "(of_nat l :: u32) div 4096 = of_nat (l div 4096)"
      "(of_nat l :: u32) mod 4096 = of_nat (l mod 4096)"
    using l by (auto intro!: word_unat_eq_iff [THEN iffD2] simp: unat_div unat_mod)
  have sb: "?off div 4096 \<le> l div 4096" using l(2) by (rule div_le_mono)
  have un: "unat (of_nat (l div 4096) :: u32) = l div 4096"
      "unat (of_nat (?off div 4096) :: u32) = ?off div 4096"
    using l by simp_all
  have run: "read_blocks (Suc (l div 4096) - ?off div 4096) m f inode buf
      (of_nat (?off div 4096)) (of_nat (l div 4096)) (of_nat (l mod 4096))
      (of_nat (?off div 4096)) (of_nat (?off mod 4096)) 0 =
    (write_bytes m buf (map (file_byte m f inode) [?off..<?fin]), of_nat ?n)"
    using read_blocks_run [OF assms(1,2), of buf ?fin ?off "?off div 4096"] assms(7) n sb
    by (simp add: block_pos_def l_def)
  have "take ?n (drop ?off (file_bytes m f inode)) = map (file_byte m f inode) [?off..<?fin]"
    using n(2) by (simp add: file_bytes_def take_map drop_map)
  moreover have "sint (of_nat ?n :: u32) = int ?n"
    using small by (simp add: sint_of_nat_u32)
  ultimately show ?thesis
    using assms(3) inode assms(4) [folded not_le]
    by (simp add: read_data_def read_data_length [OF assms(4,6)] e div un run Let_def)
qed

text \<open>C7: within a well-formed file \<^verbatim>\<open>read_data\<close> delivers the file's bytes from
  \<^verbatim>\<open>offset\<close> on, as many as asked for or as are left, into the buffer and nowhere else, and
  returns their number.\<close>

theorem read_data_correct:
  assumes "image_ok m f" and "inode_ok m f inode" and "buf \<noteq> 0"
    and "offset < inode_length m f inode" and "0 < len" and "unat offset + unat len < 2 ^ 32"
    and "apart buf (read_count m f inode offset len) (boot_block_ptr f) (image_size m f)"
  shows "read_data m f inode offset buf len =
    (int (read_count m f inode offset len),
     write_bytes m buf (take (read_count m f inode offset len) (drop (unat offset) (file_bytes m f inode))))"
  by (rule read_data_run [OF assms])

text \<open>A small image at the address the boot loader uses: one file of three bytes in data block
  1 of 2, reached through index node 0, and a directory of two entries.\<close>

definition demo_image :: mem where
  "demo_image = (\<lambda>a.
     if a = 0x400000 then 2 else if a = 0x400004 then 1 else if a = 0x400008 then 2
     else if a = 0x401000 then 3 else if a = 0x401004 then 1
     else if a = 0x403000 then 72 else if a = 0x403001 then 105 else if a = 0x403002 then 33
     else if a = 0x400040 then 46 else if a = 0x400060 then 1
     else if a = 0x400080 then 97 else if a = 0x4000A0 then 2
     else if a = 0x500000 then 97 else 0)"

definition demo_fs :: fs where
  "demo_fs = file_system_init demo_image 0x400000
     \<lparr>boot_block_ptr = 0, inode_ptr = 0, data_block_ptr = 0, file_idx = 0\<rparr>"

lemma demo_image_at:
  "demo_image a =
     (if a = 0x400000 then 2 else if a = 0x400004 then 1 else if a = 0x400008 then 2
      else if a = 0x401000 then 3 else if a = 0x401004 then 1
      else if a = 0x403000 then 72 else if a = 0x403001 then 105 else if a = 0x403002 then 33
      else if a = 0x400040 then 46 else if a = 0x400060 then 1
      else if a = 0x400080 then 97 else if a = 0x4000A0 then 2
      else if a = 0x500000 then 97 else 0)"
  by (simp add: demo_image_def)

lemma demo_fs_simps:
  "boot_block_ptr demo_fs = 0x400000" "inode_ptr demo_fs = 0x401000"
  "data_block_ptr demo_fs = 0x402000" "file_idx demo_fs = 0"
  by (simp_all add: demo_fs_def file_system_init_def num_inodes_def load32_def demo_image_at Let_def)

lemma demo_image_counts:
  "num_dir_entries demo_image demo_fs = 2" "num_inodes demo_image demo_fs = 1"
  "num_data_blocks demo_image demo_fs = 2" "inode_length demo_image demo_fs 0 = 3"
  "image_size demo_image demo_fs = 16384"
  by (simp_all add: num_dir_entries_def num_inodes_def num_data_blocks_def inode_length_def
      inode_addr_def image_size_def load32_def demo_image_at demo_fs_simps)

lemma demo_image_ok: "image_ok demo_image demo_fs" "inode_ok demo_image demo_fs 0"
  by (auto simp: image_ok_def inode_ok_def demo_fs_simps demo_image_counts data_block_num_def
      inode_addr_def load32_def demo_image_at)

lemma demo_file: "file_bytes demo_image demo_fs 0 = [72, 105, 33]"
  by (simp add: file_bytes_def demo_image_counts upt_rec file_byte_def data_addr_def demo_fs_simps
      data_block_num_def inode_addr_def load32_def demo_image_at)

theorem read_data_correct_witness:
  "read_data demo_image demo_fs 0 1 0x800000 10 = (2, write_bytes demo_image 0x800000 [105, 33])"
proof -
  have n: "read_count demo_image demo_fs 0 1 10 = 2"
    by (simp add: read_count_def demo_image_counts)
  have "apart 0x800000 2 0x400000 16384"
    by (subst apart_sym, rule apart_below) simp_all
  then show ?thesis
    using read_data_correct [OF demo_image_ok, of "0x800000" 1 10]
    by (simp add: n demo_fs_simps demo_image_counts demo_file)
qed

subsection \<open>The directory\<close>

definition entry_name :: "mem \<Rightarrow> fs \<Rightarrow> nat \<Rightarrow> u8 list" where
  "entry_name m f i = takeWhile (\<lambda>b. b \<noteq> 0) (read_bytes m (dir_entry_addr f (of_nat i)) 32)"

lemma cstr_prefix:
  assumes "is_cstr m s bs" and "length bs \<le> n"
  shows "takeWhile (\<lambda>b. b \<noteq> 0) (read_bytes m s n) = bs"
proof (cases "length bs = n")
  case True
  with assms(1) show ?thesis by (auto simp: is_cstr_def takeWhile_eq_all_conv)
next
  case False
  with assms(2) obtain k where "n = length bs + Suc k"
    by (metis le_neq_implies_less less_imp_Suc_add add_Suc_right)
  then have "read_bytes m s n = bs @ 0 # read_bytes m (s + of_nat (length bs) + 1) k"
    using assms(1) by (simp only: read_bytes_add read_bytes_Suc) (simp add: is_cstr_def)
  moreover have "\<And>b. b \<in> set bs \<Longrightarrow> b \<noteq> 0" using assms(1) by (auto simp: is_cstr_def)
  ultimately show ?thesis by (simp add: takeWhile_append2)
qed

lemma dentry_scan_find:
  assumes "is_cstr m fname s" and "length s \<le> 32" and "i \<le> unat (num_dir_entries m f)"
  shows "dentry_scan m f fname (of_nat i) =
    map_option (\<lambda>i. dentry_at m (dir_entry_addr f (of_nat i)))
      (find (\<lambda>i. entry_name m f i = s) [i..<unat (num_dir_entries m f)])"
  using assms(3)
proof (induction i rule: inc_induct)
  case base
  then show ?case by (simp add: dentry_scan.simps)
next
  case (step i)
  have i: "i < 2 ^ 32" by (rule less_trans [OF step.hyps(2)]) simp
  then have "(of_nat i :: u32) < num_dir_entries m f"
    using step.hyps(2) by (simp add: word_less_nat_alt)
  moreover have "strncmp m fname (dir_entry_addr f (of_nat i)) 32 = 0 \<longleftrightarrow> entry_name m f i = s"
    using cstr_prefix [OF assms(1,2)] by (auto simp: strncmp_eq_0_iff entry_name_def)
  ultimately show ?case
    using step by (subst dentry_scan.simps) (auto simp: upt_conv_Cons add.commute)
qed

lemma read_dentry_lookup:
  assumes "is_cstr m fname s" and "fname \<noteq> 0" and "dentry \<noteq> 0"
  shows "read_dentry_by_name m f fname dentry = Some (if length s > 32 then None
    else map_option (\<lambda>i. dentry_at m (dir_entry_addr f (of_nat i)))
      (find (\<lambda>i. entry_name m f i = s) [0..<unat (num_dir_entries m f)]))"
proof -
  have "length s < 2 ^ 32" using assms(1) by (simp add: is_cstr_def)
  then have "(of_nat (length s) :: u32) > 32 \<longleftrightarrow> length s > 32" by (simp add: word_less_nat_alt)
  then show ?thesis
    using assms(2,3) strlen_cstr [OF assms(1)] dentry_scan_find [OF assms(1), of 0]
    by (simp add: read_dentry_by_name_def)
qed

text \<open>Looking up a string finds the first directory entry with that name, and fails for a
  name that no entry has and for one of more than 32 bytes.\<close>

theorem read_dentry_by_name_correct:
  assumes "is_cstr m fname s" and "fname \<noteq> 0" and "dentry \<noteq> 0"
  shows "read_dentry_by_name m f fname dentry = Some (if length s > 32 then None
    else map_option (\<lambda>i. dentry_at m (dir_entry_addr f (of_nat i)))
      (find (\<lambda>i. entry_name m f i = s) [0..<unat (num_dir_entries m f)]))"
  by (rule read_dentry_lookup [OF assms])

theorem read_dentry_by_name_correct_witness:
  "\<exists>d. read_dentry_by_name demo_image demo_fs 0x500000 1 = Some (Some d) \<and> file_type d = 2"
proof -
  have str: "is_cstr demo_image 0x500000 [97]"
    by (simp add: is_cstr_def demo_image_at read_bytes_Suc)
  have "is_cstr demo_image 0x400040 [46]" "is_cstr demo_image 0x400080 [97]"
    by (simp_all add: is_cstr_def demo_image_at read_bytes_Suc)
  then have "entry_name demo_image demo_fs 0 = [46]" "entry_name demo_image demo_fs (Suc 0) = [97]"
    by (auto simp: entry_name_def dir_entry_addr_def demo_fs_simps dest: cstr_prefix [where n = 32])
  then show ?thesis
    using read_dentry_by_name_correct [OF str, where f = demo_fs and dentry = 1]
    by (simp add: demo_image_counts upt_rec dir_entry_addr_def demo_fs_simps
        demo_image_at dentry_at_def load32_def)
qed

text \<open>Repeated directory reads, as a client lists a directory: the return value and the buffer
  after each call.\<close>

fun dir_reads :: "nat \<Rightarrow> mem \<Rightarrow> fs \<Rightarrow> int \<Rightarrow> u32 \<Rightarrow> int \<Rightarrow> (int \<times> u8 list) list \<times> fs" where
  "dir_reads 0 m f fd buf nbytes = ([], f)"
| "dir_reads (Suc k) m f fd buf nbytes =
     (let (r, m, f) = dir_read m f fd buf nbytes;
          (rs, f) = dir_reads k m f fd buf nbytes
      in ((r, read_bytes m buf 32) # rs, f))"

lemma dir_entry_in_boot:
  assumes "unat (num_dir_entries m f) \<le> 63" and "i < unat (num_dir_entries m f)"
  shows "span (dir_entry_addr f (of_nat i)) 32 \<subseteq> span (boot_block_ptr f) 4096"
proof -
  have "span (boot_block_ptr f + of_nat (64 + 64 * i)) 32 \<subseteq> span (boot_block_ptr f) 4096"
    using assms by (intro span_sub) simp_all
  then show ?thesis by (simp add: dir_entry_addr_def add.assoc)
qed

lemma boot_unchanged:
  assumes "apart buf 32 (boot_block_ptr f) 4096" and "length bs \<le> 32"
    and "x \<in> span (boot_block_ptr f) 4096"
  shows "write_bytes m buf bs x = m x"
proof -
  have "x \<notin> span buf 32" using assms(1,3) unfolding apart_def by blast
  with assms(2) show ?thesis by (simp add: write_bytes_apply)
qed

lemma dir_after_write:
  assumes "apart buf 32 (boot_block_ptr f) 4096" and "length bs \<le> 32"
    and "unat (num_dir_entries m f) \<le> 63"
  shows "num_dir_entries (write_bytes m buf bs) f = num_dir_entries m f"
    and "i < unat (num_dir_entries m f) \<Longrightarrow>
      read_bytes (write_bytes m buf bs) (dir_entry_addr f (of_nat i)) 32 =
      read_bytes m (dir_entry_addr f (of_nat i)) 32"
proof -
  show "num_dir_entries (write_bytes m buf bs) f = num_dir_entries m f"
    unfolding num_dir_entries_def
    by (rule load32_cong, rule boot_unchanged [OF assms(1,2)]) simp
  assume "i < unat (num_dir_entries m f)"
  then show "read_bytes (write_bytes m buf bs) (dir_entry_addr f (of_nat i)) 32 =
      read_bytes m (dir_entry_addr f (of_nat i)) 32"
    using dir_entry_in_boot [OF assms(3)]
    by (intro read_bytes_cong boot_unchanged [OF assms(1,2)]) (auto simp del: in_span)
qed

lemma file_idx_irrelevant [simp]:
  "num_dir_entries m (f\<lparr>file_idx := i\<rparr>) = num_dir_entries m f"
  "dir_entry_addr (f\<lparr>file_idx := i\<rparr>) = dir_entry_addr f"
  by (simp_all add: num_dir_entries_def dir_entry_addr_def fun_eq_iff)

lemma dir_reads_from:
  assumes "apart buf 32 (boot_block_ptr f) 4096" and "buf \<noteq> 0" and "0 \<le> fd" and "fd \<le> 7"
    and "0 \<le> nbytes" and "unat (num_dir_entries m f) = n" and "n \<le> 63" and "i \<le> n"
  shows "\<exists>last. dir_reads (Suc (n - i)) m (f\<lparr>file_idx := of_nat i\<rparr>) fd buf nbytes =
    (map (\<lambda>k. (32, read_bytes m (dir_entry_addr f (of_nat k)) 32)) [i..<n] @ [(0, last)],
     f\<lparr>file_idx := 0\<rparr>)"
  using assms(8,6)
proof (induction i arbitrary: m rule: inc_induct)
  case base
  then have "num_dir_entries m f = of_nat n" by (metis of_nat_unat ucast_id)
  then show ?case using assms(2-5) by (auto simp: dir_read_def)
next
  case (step i)
  let ?bs = "read_bytes m (dir_entry_addr f (of_nat i)) 32"
  let ?m = "write_bytes m buf ?bs"
  have lt: "(of_nat i :: u32) < num_dir_entries m f"
    using step.hyps step.prems assms(7) by (simp add: word_less_nat_alt)
  have after: "num_dir_entries ?m f = num_dir_entries m f"
      "\<And>k. k < n \<Longrightarrow> read_bytes ?m (dir_entry_addr f (of_nat k)) 32 =
         read_bytes m (dir_entry_addr f (of_nat k)) 32"
    using dir_after_write [OF assms(1), of ?bs m] step.prems assms(7) by simp_all
  have ms: "map (\<lambda>k. (32 :: int, read_bytes ?m (dir_entry_addr f (of_nat k)) 32)) [Suc i..<n] =
      map (\<lambda>k. (32, read_bytes m (dir_entry_addr f (of_nat k)) 32)) [Suc i..<n]"
    using after(2) by (intro map_cong) simp_all
  obtain last where IH: "dir_reads (Suc (n - Suc i)) ?m (f\<lparr>file_idx := of_nat (Suc i)\<rparr>) fd buf nbytes =
      (map (\<lambda>k. (32, read_bytes m (dir_entry_addr f (of_nat k)) 32)) [Suc i..<n] @ [(0, last)],
       f\<lparr>file_idx := 0\<rparr>)"
    using step.IH [of ?m] step.prems after(1) unfolding ms by auto
  have "dir_read m (f\<lparr>file_idx := of_nat i\<rparr>) fd buf nbytes =
      (32, ?m, f\<lparr>file_idx := of_nat (Suc i)\<rparr>)"
    using assms(2-5) lt by (simp add: dir_read_def dentry_at_def add.commute)
  moreover have "Suc (n - i) = Suc (Suc (n - Suc i))" using step.hyps by simp
  moreover have "read_bytes ?m buf 32 = ?bs" using read_write_bytes [of ?bs m buf] by simp
  ultimately show ?case
    using IH step.hyps(2) by (simp add: upt_conv_Cons del: dir_reads.simps(2))
      (simp add: dir_reads.simps(2) [where k = "Suc (n - Suc i)"] del: dir_reads.simps(2))
qed

text \<open>Reading an open directory from its start returns every entry's name once, in order,
  then 0, and leaves the directory ready to be read again.\<close>

theorem dir_read_lists_directory:
  assumes "apart buf 32 (boot_block_ptr f) 4096" and "buf \<noteq> 0" and "fd \<in> {0..7}" and "0 \<le> nbytes"
    and "num_dir_entries m f \<le> 63" and "file_idx f = 0"
  shows "\<exists>last. dir_reads (Suc (unat (num_dir_entries m f))) m f fd buf nbytes =
    (map (\<lambda>k. (32, read_bytes m (dir_entry_addr f (of_nat k)) 32)) [0..<unat (num_dir_entries m f)]
       @ [(0, last)], f)"
proof -
  have "f\<lparr>file_idx := 0\<rparr> = f" using assms(6) by simp
  then show ?thesis
    using dir_reads_from [OF assms(1,2), of fd nbytes m _ 0] assms(3-5)
    by (simp add: word_le_nat_alt)
qed

theorem dir_read_lists_directory_witness:
  "\<exists>c. dir_reads 3 demo_image demo_fs 2 0x800000 32 =
    ([(32, read_bytes demo_image 0x400040 32), (32, read_bytes demo_image 0x400080 32), (0, c)], demo_fs)"
proof -
  have "apart 0x800000 32 0x400000 4096"
    by (subst apart_sym, rule apart_below) simp_all
  then show ?thesis
    using dir_read_lists_directory [of "0x800000" demo_fs 2 32 demo_image]
    by (simp add: demo_fs_simps demo_image_counts upt_rec dir_entry_addr_def numeral_3_eq_3
        del: dir_reads.simps)
qed

end
