(* ===== verification/Process.thy ===== *)
theory Process
  imports Keyboard Filesystem
begin

text \<open>
  Processes: the data of \<^verbatim>\<open>system_calls.h\<close> and the helpers of \<^verbatim>\<open>system_calls.c\<close> (under
  \<^verbatim>\<open>mp3/student-distrib\<close>) that locate a process control block.  A control block sits at the
  low end of an 8 KB slot below 8 MB, and its process' kernel stack grows down from the high
  end of the same slot, so the stack pointer identifies the process.  Function pointers are
  values of datatypes with one constructor per function that the code stores.  The kernel
  state is the last extension of the record: control blocks by address, the process and
  scheduling tables, the task-state fields and the registers \<^verbatim>\<open>esp\<close> and \<^verbatim>\<open>ebp\<close>.
\<close>

subsection \<open>Data\<close>

datatype open_fn = Invalid_open | Rtc_open | Dir_open | File_open
datatype close_fn = Invalid_close | Rtc_close | Dir_close | File_close
datatype read_fn = Invalid_read | Terminal_read | Rtc_read | Dir_read | File_read
datatype write_fn = Invalid_write | Terminal_write | Rtc_write | Dir_write | File_write

record file_operations_table =
  op_open :: open_fn
  op_close :: close_fn
  op_read :: read_fn
  op_write :: write_fn

record file_descriptor =
  file_operations :: file_operations_table
  fd_inode :: u32
  file_position :: u32
  flags :: u32

text \<open>A signal handler: the two default functions, or an address that the process gave.\<close>

datatype sig_handler = KILL_handler | IGNORE_handler | User_handler u32

record sigaction =
  sig_flag :: int
  sig_mask :: int
  handler :: sig_handler

record pcb =
  file_descriptor_array :: "file_descriptor list"
  parent_pid :: u32
  pcb_pid :: u32
  pcb_esp :: u32
  pcb_ebp :: u32
  run_ebp :: u32
  pcb_args :: "u8 list"
  signals :: "sigaction list"

record kernel = keyboard +
  pcbs :: "u32 \<Rightarrow> pcb"
  pid_bitmap :: "u8 list"
  schedule :: "int list"
  tss_ss0 :: u16
  tss_esp0 :: u32
  esp_reg :: u32
  ebp_reg :: u32
  kfs :: fs

subsection \<open>Control blocks and kernel stacks\<close>

definition get_pcb_ptr :: "int \<Rightarrow> u32" where
  "get_pcb_ptr n = word_of_int (0x800000 - (n + 1) * 0x2000)"

definition get_pid :: "'a kernel_scheme \<Rightarrow> int" where
  "get_pid s = (0x800000 - sint (esp_reg s)) sdiv 0x2000"

definition get_cur_pcb_ptr :: "'a kernel_scheme \<Rightarrow> u32" where
  "get_cur_pcb_ptr s = get_pcb_ptr ((0x800000 - sint (esp_reg s)) sdiv 0x2000)"

abbreviation cur_pcb :: "'a kernel_scheme \<Rightarrow> pcb" where
  "cur_pcb s \<equiv> pcbs s (get_cur_pcb_ptr s)"

definition update_pcb :: "u32 \<Rightarrow> (pcb \<Rightarrow> pcb) \<Rightarrow> 'a kernel_scheme \<Rightarrow> 'a kernel_scheme" where
  "update_pcb a g s = s\<lparr>pcbs := (pcbs s)(a := g (pcbs s a))\<rparr>"

definition update_fd :: "nat \<Rightarrow> (file_descriptor \<Rightarrow> file_descriptor) \<Rightarrow> pcb \<Rightarrow> pcb" where
  "update_fd i g p = p\<lparr>file_descriptor_array :=
     (file_descriptor_array p)[i := g (file_descriptor_array p ! i)]\<rparr>"

text \<open>The kernel stack of process \<open>n\<close>: the upper part of its slot, above the control block.\<close>

definition on_stack :: "int \<Rightarrow> u32 \<Rightarrow> bool" where
  "on_stack n sp \<longleftrightarrow> 0x800000 - (n + 1) * 0x2000 < uint sp \<and> uint sp \<le> 0x800000 - n * 0x2000 - 4"

lemma sint_small: "uint (w :: u32) < 2 ^ 31 \<Longrightarrow> sint w = uint w"
  unfolding sint_uint
  by (rule signed_take_bit_int_eq_self) (simp_all add: order_trans [OF _ unsigned_greater_eq])

lemma on_stack_slot:
  assumes "on_stack n sp" and "0 \<le> n" and "n \<le> 1000"
  shows "(0x800000 - sint sp) sdiv 0x2000 = n"
proof -
  have s: "sint sp = uint sp" using assms by (intro sint_small) (simp add: on_stack_def)
  have "n * 0x2000 \<le> 0x800000 - uint sp" "0x800000 - uint sp < (n + 1) * 0x2000"
    using assms by (simp_all add: on_stack_def)
  then have "(0x800000 - uint sp) div 0x2000 = n"
    by (intro int_div_pos_eq [where r = "0x800000 - uint sp - n * 0x2000"]) simp_all
  moreover have "0 < 0x800000 - uint sp" using assms by (simp add: on_stack_def)
  ultimately show ?thesis by (simp add: s signed_divide_int_def)
qed

lemma get_pid_on_stack: "on_stack n (esp_reg s) \<Longrightarrow> 0 \<le> n \<Longrightarrow> n \<le> 1000 \<Longrightarrow> get_pid s = n"
  and get_cur_pcb_ptr_on_stack:
    "on_stack n (esp_reg s) \<Longrightarrow> 0 \<le> n \<Longrightarrow> n \<le> 1000 \<Longrightarrow> get_cur_pcb_ptr s = get_pcb_ptr n"
  by (simp_all add: get_pid_def get_cur_pcb_ptr_def on_stack_slot)

lemma uint_get_pcb_ptr: "0 \<le> n \<Longrightarrow> n \<le> 1000 \<Longrightarrow> uint (get_pcb_ptr n) = 0x800000 - (n + 1) * 0x2000"
  by (simp only: get_pcb_ptr_def unsigned_of_int) (simp add: take_bit_int_eq_self)

lemma get_pcb_ptr_inj:
  "0 \<le> n \<Longrightarrow> n \<le> 1000 \<Longrightarrow> 0 \<le> k \<Longrightarrow> k \<le> 1000 \<Longrightarrow> get_pcb_ptr n = get_pcb_ptr k \<longleftrightarrow> n = k"
proof
  assume "0 \<le> n" "n \<le> 1000" "0 \<le> k" "k \<le> 1000" and "get_pcb_ptr n = get_pcb_ptr k"
  then have "0x800000 - (n + 1) * 0x2000 = 0x800000 - (k + 1) * (0x2000 :: int)"
    using uint_get_pcb_ptr by metis
  then show "n = k" by simp
qed simp

text \<open>The stack pointer identifies the process.  Anywhere on the kernel stack of a process
  from 0 to 5, \<^verbatim>\<open>get_pid\<close> returns its number and \<^verbatim>\<open>get_cur_pcb_ptr\<close> its control block; the control
  blocks of different processes are at least 8 KB apart, all inside the kernel's 4 MB page, and
  no stack reaches down to another slot.\<close>

theorem pcb_layout:
  assumes "n \<in> {0..5}" and "on_stack n (esp_reg s)"
  shows "get_pid s = n \<and> get_cur_pcb_ptr s = get_pcb_ptr n \<and>
    drop_bit 22 (get_pcb_ptr n) = 1 \<and>
    (\<forall>k. k \<in> {0..5} \<and> k \<noteq> n \<longrightarrow> 0x2000 \<le> \<bar>uint (get_pcb_ptr n) - uint (get_pcb_ptr k)\<bar> \<and>
       \<not> on_stack k (esp_reg s))"
proof -
  have n: "0 \<le> n" "n \<le> 1000" using assms(1) by auto
  have "n = 0 \<or> n = 1 \<or> n = 2 \<or> n = 3 \<or> n = 4 \<or> n = 5" using assms(1) by auto
  then have "drop_bit 22 (get_pcb_ptr n) = 1" by (auto simp: get_pcb_ptr_def)
  moreover have "0x2000 \<le> \<bar>uint (get_pcb_ptr n) - uint (get_pcb_ptr k)\<bar> \<and> \<not> on_stack k (esp_reg s)"
    if "k \<in> {0..5}" "k \<noteq> n" for k
    using that n assms(2) by (auto simp: uint_get_pcb_ptr on_stack_def)
  ultimately show ?thesis
    using get_pid_on_stack [OF assms(2) n] get_cur_pcb_ptr_on_stack [OF assms(2) n] by blast
qed

definition empty_fd :: file_descriptor where
  "empty_fd = \<lparr>file_operations = \<lparr>op_open = Invalid_open, op_close = Invalid_close, op_read = Invalid_read,
     op_write = Invalid_write\<rparr>, fd_inode = 0, file_position = 0, flags = 0\<rparr>"

definition empty_pcb :: pcb where
  "empty_pcb = \<lparr>file_descriptor_array = replicate 8 empty_fd, parent_pid = 0, pcb_pid = 0, pcb_esp = 0,
     pcb_ebp = 0, run_ebp = 0, pcb_args = replicate 128 0,
     signals = replicate 5 \<lparr>sig_flag = 0, sig_mask = 0, handler = IGNORE_handler\<rparr>\<rparr>"

text \<open>The state the linker leaves: all variables at their initial values.\<close>

definition boot_kernel :: kernel where
  "boot_kernel = \<lparr>page_directory = \<lambda>_. 0, page_table = \<lambda>_. 0, user_video_page_table = \<lambda>_. 0,
     page_directory_addr = 0x410000, page_table_addr = 0x411000, user_video_page_table_addr = 0x412000,
     cr0 = 0, cr3 = 0, cr4 = 0, tlb_stale = False, io = [], port_reply = \<lambda>l p. 0,
     interrupts_on = False, master_mask = 0, slave_mask = 0,
     pmem = demo_image, terminal = \<lambda>_. demo_terminal, cur_terminal = 0, run_terminal = 0,
     rtc_flag = 0, rtc_counter = 0, freq = \<lambda>_. 2, intr = \<lambda>_. 0,
     ctrl_pressed = 0, shift_pressed = 0, capital = 0, caps_lock_pressed = 0, alt_pressed = 0,
     pcbs = \<lambda>_. empty_pcb, pid_bitmap = [0, 0, 0, 0, 0, 0], schedule = [-1, -1, -1],
     tss_ss0 = 0, tss_esp0 = 0, esp_reg = 0x7FBFF0, ebp_reg = 0x7FBFF8, kfs = demo_fs\<rparr>"

theorem pcb_layout_witness:
  "get_pid boot_kernel = 2 \<and> get_cur_pcb_ptr boot_kernel = 0x7FA000"
proof -
  have "on_stack 2 (esp_reg boot_kernel)" by (simp add: on_stack_def boot_kernel_def)
  from pcb_layout [OF _ this] show ?thesis by (simp add: get_pcb_ptr_def)
qed

subsection \<open>Memory as a process sees it\<close>

text \<open>\<open>kmem s\<close> is memory behind the page tables.  A routine of the library works on that view;
  \<open>commit\<close> puts the view it leaves back into physical memory: a physical byte takes the value
  of the address it is mapped at, if that address was written.  \<open>aliases\<close> are the addresses at
  which the kernel may map a physical byte: its own, the process page, and the two video pages.\<close>

definition aliases :: "u32 \<Rightarrow> u32 list" where
  "aliases pa = [pa, push_bit 22 32 OR take_bit 22 pa, VIDEO + take_bit 12 pa, USER_VIDEO_ADDR + take_bit 12 pa]"

definition commit :: "mem \<Rightarrow> 'a screen_scheme \<Rightarrow> 'a screen_scheme" where
  "commit m s = s\<lparr>pmem := \<lambda>pa.
     (case find (\<lambda>va. access s va = Some pa \<and> m va \<noteq> kmem s va) (aliases pa) of
        Some va \<Rightarrow> m va | None \<Rightarrow> pmem s pa)\<rparr>"

lemma walk_pmem [simp]: "walk user (pmem_update f s) = walk user s"
proof -
  have "table_at (pmem_update f s) = table_at s" by (simp add: table_at_def fun_eq_iff)
  then show ?thesis by (intro ext) (simp add: walk_def Let_def cong: if_cong)
qed

lemma access_commit [simp]: "access (commit m s) = access s"
  by (rule ext) (simp add: access_def paging_on_def commit_def)

lemma commit_at:
  assumes "access s va = Some pa" and "va \<in> set (aliases pa)"
    and "\<And>va'. access s va' = Some pa \<Longrightarrow> va' = va"
  shows "kmem (commit m s) va = m va"
proof -
  let ?P = "\<lambda>va'. access s va' = Some pa \<and> m va' \<noteq> kmem s va'"
  have "(case find ?P (aliases pa) of Some va \<Rightarrow> m va | None \<Rightarrow> pmem s pa) = m va"
  proof (cases "find ?P (aliases pa)")
    case None
    then have "m va = kmem s va" using assms(1,2) by (auto simp: find_None_iff)
    with None assms(1) show ?thesis by (simp add: kmem_def)
  next
    case (Some va')
    then have "access s va' = Some pa" by (auto simp: find_Some_iff)
    from assms(3) [OF this] Some show ?thesis by simp
  qed
  then have "pmem (commit m s) pa = m va" by (simp add: commit_def)
  moreover have "access (commit m s) va = Some pa" using assms(1) by simp
  ultimately show ?thesis unfolding kmem_def by simp
qed

lemma commit_unmapped:
  assumes "\<And>va. access s va \<noteq> Some pa"
  shows "pmem (commit m s) pa = pmem s pa"
  using assms by (simp add: commit_def aliases_def)

text \<open>Paging is on, with process \<open>p\<close> mapped, if any.\<close>

definition mapped :: "u32 option \<Rightarrow> 'a paging_scheme \<Rightarrow> bool" where
  "mapped p s \<longleftrightarrow> paging_on s \<and> (\<forall>n. p = Some n \<longrightarrow> n < 6) \<and> (\<exists>v fr. kernel_maps p v fr s)"

lemma mapped_access:
  assumes "mapped p s"
  shows "drop_bit 22 va = 1 \<Longrightarrow> access s va = Some va"
    and "drop_bit 22 va = 32 \<Longrightarrow>
      access s va = map_option (\<lambda>n. push_bit 22 (2 + n) OR take_bit 22 va) p"
  using assms walk_kernel_maps [of p _ _ s False va]
  by (auto simp: mapped_def access_def Let_def)

lemma frame_number: "(n :: u32) < 6 \<Longrightarrow> drop_bit 22 (push_bit 22 (2 + n) OR take_bit 22 va) = 2 + n"
  by (intro drop_bit_frame) (rule process_frame_number)

lemma video_frame_low:
  "fr \<in> video_frames \<Longrightarrow> drop_bit 22 (push_bit 12 fr OR take_bit 12 va) = (0 :: u32)"
proof -
  assume "fr \<in> video_frames"
  moreover from this have "drop_bit 12 (push_bit 12 fr OR take_bit 12 va) = fr"
    by (intro drop_bit_frame video_frame_number)
  moreover have "drop_bit 22 x = drop_bit 10 (drop_bit 12 x)" for x :: u32 by simp
  ultimately show ?thesis by (auto simp: video_frames_def simp del: drop_bit_or drop_bit_drop_bit)
qed

text \<open>Where an address can lead: the directory index of the result, case by case.\<close>

lemma mapped_cases:
  assumes "mapped p s" and "access s va = Some pa"
  obtains "drop_bit 22 pa = 0" | "drop_bit 22 va = 1" "pa = va"
    | n where "p = Some n" "n < 6" "drop_bit 22 va = 32" "pa = push_bit 22 (2 + n) OR take_bit 22 va"
        "drop_bit 22 pa = 2 + n"
proof -
  obtain v fr where maps: "kernel_maps p v fr s" and p: "\<And>n. p = Some n \<Longrightarrow> n < 6" and on: "paging_on s"
    using assms(1) by (auto simp: mapped_def)
  have fr: "fr \<in> video_frames" using maps by (simp add: kernel_maps_def)
  have vf: "t = 0xBA \<or> t = 0xBB \<or> t = 0xBC \<Longrightarrow> t \<in> video_frames" for t by (auto simp: video_frames_def)
  have w: "walk False s va = Some pa" using assms(2) on by (simp add: access_def)
  show thesis
    using that w walk_kernel_maps [OF maps p, of False va] video_frame_low [OF fr, of va]
      video_frame_low [OF vf] frame_number p
    by (auto simp: Let_def simp del: drop_bit_or split: if_splits)
qed

lemma frame_not_kernel: "(n :: u32) < 6 \<Longrightarrow> 2 + n \<noteq> 1 \<and> 2 + n \<noteq> 0"
  by (auto dest: u32_less_6)

lemma take_bit_22_frame: "take_bit 22 (push_bit 22 k OR take_bit 22 va) = take_bit 22 (va :: u32)"
  by (simp add: take_bit_or take_bit_push_bit)

lemma commit_kernel:
  assumes "mapped p s" and "drop_bit 22 va = 1"
  shows "kmem (commit m s) va = m va"
proof (rule commit_at)
  show "access s va = Some va" by (rule mapped_access(1) [OF assms])
  show "va' = va" if "access s va' = Some va" for va'
    using assms(2) frame_not_kernel by (rule_tac mapped_cases [OF assms(1) that]) auto
qed (simp add: aliases_def)

lemma commit_user:
  assumes "mapped (Some n) s" and "drop_bit 22 va = 32"
  shows "kmem (commit m s) va = m va"
proof (rule commit_at)
  let ?pa = "push_bit 22 (2 + n) OR take_bit 22 va"
  have n: "n < 6" using assms(1) by (simp add: mapped_def)
  have va: "va = push_bit 22 32 OR take_bit 22 va" using frame_offset(1) [of va] assms(2) by simp
  show a: "access s va = Some ?pa" using mapped_access(2) [OF assms] by simp
  show "va \<in> set (aliases ?pa)" unfolding aliases_def take_bit_22_frame using va by simp
  show "va' = va" if "access s va' = Some ?pa" for va'
  proof (rule mapped_cases [OF assms(1) that])
    fix k assume "drop_bit 22 va' = 32" and "Some n = Some k" and pa: "?pa = push_bit 22 (2 + k) OR take_bit 22 va'"
    then have "take_bit 22 va = take_bit 22 va'" by (metis take_bit_22_frame)
    with \<open>drop_bit 22 va' = 32\<close> va show "va' = va" using frame_offset(1) [of va'] by simp
  qed (use frame_number [OF n] frame_not_kernel [OF n] in \<open>auto simp del: drop_bit_or\<close>)
qed

text \<open>The memory of a process that is not mapped.\<close>

lemma commit_other_process:
  assumes "mapped p s" and "drop_bit 22 pa = 2 + k" and "k < 6" and "p \<noteq> Some k"
  shows "pmem (commit m s) pa = pmem s pa"
proof (rule commit_unmapped)
  fix va show "access s va \<noteq> Some pa"
  proof
    assume "access s va = Some pa"
    then show False
      using assms(2,4) frame_not_kernel [OF assms(3)] by (rule_tac mapped_cases [OF assms(1)]) auto
  qed
qed

text \<open>Steps that keep the page tables keep the mapping.\<close>

lemma mapped_cong:
  assumes "cr0 s = cr0 s'" "page_directory s = page_directory s'" "page_table s = page_table s'"
    "user_video_page_table s = user_video_page_table s'"
    "page_table_addr s = page_table_addr s'"
    "user_video_page_table_addr s = user_video_page_table_addr s'"
  shows "mapped p s = mapped p s'"
  using kernel_maps_cong [OF assms(2-6)] assms(1) by (simp add: mapped_def paging_on_def)

lemma mapped_commit [simp]: "mapped p (commit m s) = mapped p s"
  by (rule mapped_cong) (simp_all add: commit_def)

lemma mapped_map_process: "mapped p s \<Longrightarrow> n < 6 \<Longrightarrow> mapped (Some n) (map_process n s)"
proof -
  assume "mapped p s" and n: "n < 6"
  then obtain v fr where "kernel_maps p v fr s" and on: "paging_on s" by (auto simp: mapped_def)
  then have "kernel_maps (Some n) v fr (map_process n s)" using n by (intro map_process_maps)
  moreover have "cr0 (map_process n s) = cr0 s" by (simp add: map_process_def flush_tlb_def set_pde_def)
  ultimately show ?thesis using on n by (auto simp: mapped_def paging_on_def)
qed

end
