(* ===== verification/Syscalls.thy ===== *)
theory Syscalls
  imports Process
begin

text \<open>
  The system calls of \<^verbatim>\<open>mp3/student-distrib/system_calls.c\<close>.  A call yields \<open>None\<close> when the C code
  leaves what the language defines or does not return: a write outside a local array, or a
  wait that the given events do not end.  Otherwise it yields how control continues, as a value
  of \<open>control\<close>, and the new state.  The events are the scan codes and the clock interrupts that
  arrive while the call waits.  Local arrays of \<^verbatim>\<open>execute\<close> are given by their addresses or
  contents in the record \<open>locals\<close>, since the compiler chooses them.
\<close>

datatype control = Return int | Enter_user u32 u32 | Resume u32 u32 int

record events =
  keys :: "u8 list"
  ticks :: nat

subsection \<open>Functions behind the descriptors\<close>

definition invalid_read :: "int \<Rightarrow> u32 \<Rightarrow> int \<Rightarrow> int" where
  "invalid_read fd buf nbytes = -1"

definition invalid_write :: "int \<Rightarrow> u32 \<Rightarrow> int \<Rightarrow> int" where
  "invalid_write fd buf nbytes = -1"

definition invalid_open :: "u32 \<Rightarrow> int" where
  "invalid_open filename = -1"

definition invalid_close :: "int \<Rightarrow> int" where
  "invalid_close fd = -1"

definition call_read :: "events \<Rightarrow> read_fn \<Rightarrow> int \<Rightarrow> u32 \<Rightarrow> int \<Rightarrow> 'a kernel_scheme \<Rightarrow>
    (int \<times> 'a kernel_scheme) option" where
  "call_read ev fn fd buf nbytes s =
     (case fn of
        Invalid_read \<Rightarrow> Some (invalid_read fd buf nbytes, s)
      | Terminal_read \<Rightarrow> do {
          (r, m, s) \<leftarrow> terminal_read (keys ev) kmem fd buf nbytes s;
          Some (r, commit m s)
        }
      | Rtc_read \<Rightarrow> RTC_read (ticks ev) fd buf nbytes s
      | Dir_read \<Rightarrow>
          let (r, m, f) = dir_read (kmem s) (kfs s) fd buf nbytes
          in Some (r, commit m (s\<lparr>kfs := f\<rparr>))
      | File_read \<Rightarrow>
          let (r, m) = file_read (kmem s) (kfs s)
                (\<lambda>fd. fd_inode (file_descriptor_array (cur_pcb s) ! nat fd))
                (\<lambda>fd. file_position (file_descriptor_array (cur_pcb s) ! nat fd)) fd buf nbytes
          in Some (r, commit m s))"

definition call_write :: "write_fn \<Rightarrow> int \<Rightarrow> u32 \<Rightarrow> int \<Rightarrow> 'a kernel_scheme \<Rightarrow> int \<times> 'a kernel_scheme" where
  "call_write fn fd buf nbytes s =
     (case fn of
        Invalid_write \<Rightarrow> (invalid_write fd buf nbytes, s)
      | Terminal_write \<Rightarrow> terminal_write (kmem s) fd buf nbytes s
      | Rtc_write \<Rightarrow> RTC_write (kmem s) fd buf nbytes s
      | Dir_write \<Rightarrow> (dir_write fd buf nbytes, s)
      | File_write \<Rightarrow> (file_write fd buf nbytes, s))"

definition call_open :: "open_fn \<Rightarrow> u32 \<Rightarrow> 'a kernel_scheme \<Rightarrow> (int \<times> 'a kernel_scheme) option" where
  "call_open fn filename s =
     (case fn of
        Invalid_open \<Rightarrow> Some (invalid_open filename, s)
      | Rtc_open \<Rightarrow> Some (RTC_open filename s)
      | Dir_open \<Rightarrow> map_option (\<lambda>r. (r, s)) (dir_open (kmem s) (kfs s) filename)
      | File_open \<Rightarrow> map_option (\<lambda>r. (r, s)) (file_open (kmem s) (kfs s) filename))"

definition call_close :: "close_fn \<Rightarrow> int \<Rightarrow> int" where
  "call_close fn fd =
     (case fn of Invalid_close \<Rightarrow> invalid_close fd | Rtc_close \<Rightarrow> RTC_close fd
      | Dir_close \<Rightarrow> dir_close fd | File_close \<Rightarrow> file_close fd)"

subsection \<open>Descriptors\<close>

definition sys_read :: "events \<Rightarrow> int \<Rightarrow> u32 \<Rightarrow> int \<Rightarrow> 'a kernel_scheme \<Rightarrow> (int \<times> 'a kernel_scheme) option" where
  "sys_read ev fd buf nbytes s =
     (if fd < 0 \<or> fd \<ge> 8 \<or> buf = 0 \<or> nbytes \<le> 0 then Some (-1, s)
      else
        let cur = get_cur_pcb_ptr s;
            d = file_descriptor_array (pcbs s cur) ! nat fd
        in if flags d = 0 then Some (-1, s)
           else do {
             (r, s) \<leftarrow> call_read ev (op_read (file_operations d)) fd buf nbytes s;
             let byte_read = (word_of_int r :: u32);
             let s = update_pcb cur (update_fd (nat fd)
                   (\<lambda>d. d\<lparr>file_position := file_position d + byte_read\<rparr>)) s;
             Some (sint byte_read, s)
           })"

definition sys_write :: "int \<Rightarrow> u32 \<Rightarrow> int \<Rightarrow> 'a kernel_scheme \<Rightarrow> int \<times> 'a kernel_scheme" where
  "sys_write fd buf nbytes s =
     (if fd < 0 \<or> fd \<ge> 8 \<or> buf = 0 \<or> nbytes \<le> 0 then (-1, s)
      else
        let d = file_descriptor_array (cur_pcb s) ! nat fd
        in if flags d = 0 then (-1, s)
           else
             let (r, s) = call_write (op_write (file_operations d)) fd buf nbytes s;
                 byte_write = (word_of_int r :: u32)
             in (sint byte_write, s))"

text \<open>The loop of \<^verbatim>\<open>open\<close>: the first descriptor whose flags are 0.\<close>

definition free_fd :: "file_descriptor list \<Rightarrow> nat option" where
  "free_fd fds = find (\<lambda>i. flags (fds ! i) = 0) [0..<8]"

definition open_ops :: "u32 \<Rightarrow> file_operations_table option" where
  "open_ops filetype =
     (if filetype = 0 then Some \<lparr>op_open = Rtc_open, op_close = Rtc_close, op_read = Rtc_read, op_write = Rtc_write\<rparr>
      else if filetype = 1 then Some \<lparr>op_open = Dir_open, op_close = Dir_close, op_read = Dir_read, op_write = Dir_write\<rparr>
      else if filetype = 2 then Some \<lparr>op_open = File_open, op_close = File_close, op_read = File_read, op_write = File_write\<rparr>
      else None)"

definition sys_open :: "u32 \<Rightarrow> 'a kernel_scheme \<Rightarrow> (int \<times> 'a kernel_scheme) option" where
  "sys_open filename s =
     (if filename = 0 then Some (-1, s)
      else do {
        found \<leftarrow> read_dentry_by_name (kmem s) (kfs s) filename 1;
        case found of None \<Rightarrow> Some (-1, s)
        | Some dentry \<Rightarrow>
            let cur = get_cur_pcb_ptr s
            in (case free_fd (file_descriptor_array (pcbs s cur)) of None \<Rightarrow> Some (-1, s)
               | Some i \<Rightarrow>
                   (case open_ops (file_type dentry) of
                      None \<Rightarrow> Some (-1, update_pcb cur (update_fd i (\<lambda>d. d\<lparr>flags := 0\<rparr>)) s)
                    | Some ops \<Rightarrow> do {
                        let s = update_pcb cur (update_fd i (\<lambda>d. d\<lparr>flags := 1, file_position := 0,
                              fd_inode := inode_num dentry, file_operations := ops\<rparr>)) s;
                        (r, s) \<leftarrow> call_open (op_open ops) filename s;
                        Some (int i, s)
                      }))
      })"

definition sys_close :: "int \<Rightarrow> 'a kernel_scheme \<Rightarrow> int \<times> 'a kernel_scheme" where
  "sys_close fd s =
     (if fd \<le> 1 \<or> fd \<ge> 8 then (-1, s)
      else
        let cur = get_cur_pcb_ptr s;
            d = file_descriptor_array (pcbs s cur) ! nat fd
        in if flags d = 0 then (-1, s)
           else
             let r = call_close (op_close (file_operations d)) fd
             in (0, update_pcb cur (update_fd (nat fd) (\<lambda>d. d\<lparr>flags := 0\<rparr>)) s))"

subsection \<open>Arguments, video memory and signals\<close>

text \<open>\<open>beyond\<close> stands for the kernel memory after the argument array.  The length is that of the
  string in the array; an array with no zero byte makes \<^verbatim>\<open>strlen\<close> run on, and the model stops.\<close>

definition args_length :: "u8 list \<Rightarrow> nat option" where
  "args_length bs = find (\<lambda>i. bs ! i = 0) [0..<length bs]"

definition getargs :: "u8 list \<Rightarrow> u32 \<Rightarrow> int \<Rightarrow> 'a kernel_scheme \<Rightarrow> (int \<times> 'a kernel_scheme) option" where
  "getargs beyond buf nbytes s =
     (let bs = pcb_args (cur_pcb s)
      in if buf = 0 \<or> nbytes \<le> 0 \<or> hd bs = 0 then Some (-1, s)
         else if sint buf < sint USER_ADDR \<or> sint buf > sint USER_STACK_ADDR then Some (-1, s)
         else do {
           n \<leftarrow> args_length bs;
           if int n > nbytes then Some (-1, s)
           else Some (0, commit (write_bytes (kmem s) buf (take (nat nbytes) (bs @ beyond))) s)
         })"

definition vidmap :: "u32 \<Rightarrow> 'a kernel_scheme \<Rightarrow> int \<times> 'a kernel_scheme" where
  "vidmap screen_start s =
     (if screen_start = 0 \<or> screen_start < USER_ADDR \<or> screen_start > USER_STACK_ADDR then (-1, s)
      else
        let s = map_user_video s
        in (0, commit (store32 (kmem s) screen_start USER_VIDEO_ADDR) s))"

definition set_signal :: "nat \<Rightarrow> sig_handler \<Rightarrow> pcb \<Rightarrow> pcb" where
  "set_signal i h p = p\<lparr>signals := (signals p)[i := (signals p ! i)\<lparr>handler := h\<rparr>]\<rparr>"

definition set_handler :: "int \<Rightarrow> u32 \<Rightarrow> 'a kernel_scheme \<Rightarrow> int \<times> 'a kernel_scheme" where
  "set_handler signum handler_address s =
     (let cur = get_cur_pcb_ptr s;
          s = (if handler_address = 0 then
                 if signum = 0 \<or> signum = 1 \<or> signum = 2 then update_pcb cur (set_signal (nat signum) KILL_handler) s
                 else if signum = 3 \<or> signum = 4 then update_pcb cur (set_signal (nat signum) IGNORE_handler) s
                 else s
               else s)
      in if signum < 0 \<or> signum > 4 then (-1, s)
         else (0, update_pcb cur (set_signal (nat signum) (User_handler handler_address)) s))"

definition unmask_all :: "pcb \<Rightarrow> pcb" where
  "unmask_all p = p\<lparr>signals := map (\<lambda>a. a\<lparr>sig_mask := 0\<rparr>) (signals p)\<rparr>"

text \<open>The hardware context is 68 bytes at \<^verbatim>\<open>ebp + 20\<close>; its field \<^verbatim>\<open>esp\<close> is at offset 60.\<close>

definition sigreturn :: "'a kernel_scheme \<Rightarrow> int \<times> 'a kernel_scheme" where
  "sigreturn s =
     (let cur = get_cur_pcb_ptr s;
          ctx = ebp_reg s + 20;
          user_esp = load32 (kmem s) (ctx + 60);
          s = commit (memcpy (kmem s) ctx (user_esp + 4) 68) s
      in (0, update_pcb cur unmask_all s))"

definition IGNORE :: "'a kernel_scheme \<Rightarrow> int \<times> 'a kernel_scheme" where
  "IGNORE s = (0, update_pcb (get_cur_pcb_ptr s) unmask_all s)"

subsection \<open>Parsing a command\<close>

function skip_spaces :: "u8 list \<Rightarrow> nat \<Rightarrow> nat" where
  "skip_spaces cmd i = (if i < length cmd \<and> cmd ! i = 32 then skip_spaces cmd (i + 1) else i)"
  by pat_completeness auto
termination by (relation "measure (\<lambda>(cmd, i). length cmd - i)") auto

text \<open>The loop that copies the file name: \<open>None\<close> is the return of -1 for a name of more than 32
  characters.\<close>

function parse_name :: "u8 list \<Rightarrow> nat \<Rightarrow> u8 list \<Rightarrow> (nat \<times> u8 list) option" where
  "parse_name cmd i name =
     (if i < length cmd \<and> cmd ! i \<noteq> 32 \<and> cmd ! i \<noteq> 0 then
        if length name \<ge> 32 then None else parse_name cmd (i + 1) (name @ [cmd ! i])
      else Some (i, name))"
  by pat_completeness auto
termination by (relation "measure (\<lambda>(cmd, i, name). length cmd - i)") auto

text \<open>The loop that copies the argument, with \<open>args\<close> the array; \<open>None\<close> is a store outside it.\<close>

function parse_args :: "u8 list \<Rightarrow> nat \<Rightarrow> u8 list \<Rightarrow> nat \<Rightarrow> (u8 list \<times> nat) option" where
  "parse_args cmd i args j =
     (if i < length cmd \<and> cmd ! i \<noteq> 0 \<and> cmd ! i \<noteq> 32 then
        if j < length args then parse_args cmd (i + 1) (args[j := cmd ! i]) (j + 1) else None
      else Some (args, j))"
  by pat_completeness auto
termination by (relation "measure (\<lambda>(cmd, i, args, j). length cmd - i)") auto

declare skip_spaces.simps [simp del] parse_name.simps [simp del] parse_args.simps [simp del]

datatype parsed = Parse_error | Parse_overflow | Parsed "u8 list" "u8 list"

definition parse_command :: "u8 list \<Rightarrow> u8 list \<Rightarrow> parsed" where
  "parse_command args cmd =
     (let i = skip_spaces cmd 0
      in if i = length cmd then Parse_error
         else (case parse_name cmd i [] of
           None \<Rightarrow> Parse_error
         | Some (i, name) \<Rightarrow>
             if length name \<ge> 32 then Parse_overflow
             else
               let i = skip_spaces cmd i;
                   args = (if i = length cmd then args[0 := 0] else args)
               in (case parse_args cmd i args 0 of
                    None \<Rightarrow> Parse_overflow
                  | Some (args, j) \<Rightarrow>
                      if j < length args then Parsed name (args[j := 0]) else Parse_overflow)))"

subsection \<open>Starting a process\<close>

record locals =
  l_args :: "u8 list"
  l_filename :: u32
  l_header :: u32

definition message :: "string \<Rightarrow> u8 list" where
  "message t = map of_char t @ [10]"

definition free_pid :: "u8 list \<Rightarrow> nat option" where
  "free_pid bitmap = find (\<lambda>i. bitmap ! i = 0) [0..<6]"

text \<open>The slot of \<^verbatim>\<open>schedule\<close> that the new process takes.\<close>

fun take_slot :: "u32 \<Rightarrow> u32 \<Rightarrow> int list \<Rightarrow> int list" where
  "take_slot parent n [] = []"
| "take_slot parent n (x # xs) =
     (if x = -1 \<or> word_of_int x = parent then uint n # xs else x # take_slot parent n xs)"

definition stdin_fd :: "file_descriptor \<Rightarrow> file_descriptor" where
  "stdin_fd d = \<lparr>file_operations = \<lparr>op_open = Invalid_open, op_close = Invalid_close, op_read = Terminal_read,
     op_write = Invalid_write\<rparr>, fd_inode = 0, file_position = 0, flags = 1\<rparr>"

definition stdout_fd :: "file_descriptor \<Rightarrow> file_descriptor" where
  "stdout_fd d = \<lparr>file_operations = \<lparr>op_open = Invalid_open, op_close = Invalid_close, op_read = Invalid_read,
     op_write = Terminal_write\<rparr>, fd_inode = 0, file_position = 0, flags = 1\<rparr>"

definition default_signals :: "sigaction list" where
  "default_signals = map (\<lambda>i. \<lparr>sig_flag = 0, sig_mask = 0,
     handler = (if i < 3 then KILL_handler else IGNORE_handler)\<rparr>) [0..<5]"

definition init_pcb :: "u32 \<Rightarrow> u32 \<Rightarrow> u8 list \<Rightarrow> pcb \<Rightarrow> pcb" where
  "init_pcb n parent args p =
     update_fd 1 stdout_fd (update_fd 0 stdin_fd
       (p\<lparr>pcb_pid := n, parent_pid := parent, pcb_args := args, signals := default_signals\<rparr>))"

definition magic_ok :: "u8 list \<Rightarrow> bool" where
  "magic_ok h \<longleftrightarrow> h ! 0 = 0x7F \<and> h ! 1 = 0x45 \<and> h ! 2 = 0x4C \<and> h ! 3 = 0x46"

definition header_entry :: "u8 list \<Rightarrow> u32" where
  "header_entry h = push_bit 24 (ucast (h ! 27)) OR push_bit 16 (ucast (h ! 26))
     OR push_bit 8 (ucast (h ! 25)) OR ucast (h ! 24)"

text \<open>\<^verbatim>\<open>execute\<close> after the process number is found: the parent (none for the three base
  shells), control block and paging, load, switch.\<close>

definition parent_of :: "nat \<Rightarrow> 'a kernel_scheme \<Rightarrow> u32" where
  "parent_of i s = (if i = 0 \<or> i = 1 \<or> i = 2 then 255 else word_of_int (get_pid s))"

definition new_process :: "u8 list \<Rightarrow> nat \<Rightarrow> 'a kernel_scheme \<Rightarrow> 'a kernel_scheme" where
  "new_process args i s =
     (let n = of_nat i;
          parent = parent_of i s;
          s = s\<lparr>pid_bitmap := (pid_bitmap s)[i := 1]\<rparr>;
          s = s\<lparr>schedule := take_slot parent n (schedule s)\<rparr>;
          s = update_pcb (get_pcb_ptr (int i)) (init_pcb n parent args) s
      in map_process n s)"

definition load_program :: "u32 \<Rightarrow> 'a kernel_scheme \<Rightarrow> 'a kernel_scheme" where
  "load_program inode s =
     commit (snd (read_data (kmem s) (kfs s) inode 0 USER_IMAGE (USER_STACK_ADDR - USER_IMAGE))) s"

definition launch :: "u8 list \<Rightarrow> u8 list \<Rightarrow> u32 \<Rightarrow> nat \<Rightarrow> 'a kernel_scheme \<Rightarrow> control \<times> 'a kernel_scheme" where
  "launch args header inode i s =
     (let s = load_program inode (new_process args i s);
          s = s\<lparr>tss_ss0 := 0x18, tss_esp0 := KERNEL_BOTTOM_ADDR - of_nat i * 0x2000 - 4\<rparr>;
          s = update_pcb (get_pcb_ptr (int i)) (\<lambda>p. p\<lparr>pcb_ebp := ebp_reg s, pcb_esp := esp_reg s\<rparr>) s
      in (Enter_user (header_entry header) (USER_STACK_ADDR - 4), sti s))"

text \<open>\<^verbatim>\<open>execute\<close> on the characters of the command.\<close>

definition execute_cmd :: "locals \<Rightarrow> u8 list \<Rightarrow> 'a kernel_scheme \<Rightarrow> (control \<times> 'a kernel_scheme) option" where
  "execute_cmd l cmd s =
     (case parse_command (l_args l) cmd of
        Parse_error \<Rightarrow> Some (Return (-1), s)
      | Parse_overflow \<Rightarrow> None
      | Parsed name args \<Rightarrow> do {
          let s = commit (write_bytes (kmem s) (l_filename l) (name @ [0])) s;
          found \<leftarrow> read_dentry_by_name (kmem s) (kfs s) (l_filename l) 1;
          case found of None \<Rightarrow> Some (Return (-1), s)
          | Some dentry \<Rightarrow>
              let (r, m) = read_data (kmem s) (kfs s) (inode_num dentry) 0 (l_header l) 40;
                  s = commit m s;
                  header = read_bytes (kmem s) (l_header l) 40
              in if r \<noteq> 40 then Some (Return (-1), s)
                 else if \<not> magic_ok header then Some (Return (-1), s)
                 else (case free_pid (pid_bitmap s) of
                   None \<Rightarrow> Some (Return (-1),
                     put_string (message ''----------------------------------------------------''
                       @ message ''|            Maximum process number reached        |''
                       @ message ''----------------------------------------------------'') s)
                 | Some i \<Rightarrow> Some (launch args header (inode_num dentry) i s))
        })"

definition execute :: "locals \<Rightarrow> u32 \<Rightarrow> 'a kernel_scheme \<Rightarrow> (control \<times> 'a kernel_scheme) option" where
  "execute l command s =
     (if command = 0 then Some (Return (-1), s)
      else do {
        n \<leftarrow> strlen (kmem s) command;
        execute_cmd l (read_bytes (kmem s) command (unat n)) s
      })"

subsection \<open>Ending a process\<close>

text \<open>The loop that closes the open descriptors.  No close function changes the state.\<close>

definition close_all :: "pcb \<Rightarrow> pcb" where
  "close_all p = p\<lparr>file_descriptor_array :=
     map (\<lambda>d. if flags d = 1 then d\<lparr>flags := 0\<rparr> else d) (file_descriptor_array p)\<rparr>"

text \<open>\<^verbatim>\<open>halt\<close> from the closing of the descriptors on.\<close>

definition halt_finish :: "int \<Rightarrow> u32 \<Rightarrow> 'a kernel_scheme \<Rightarrow> control \<times> 'a kernel_scheme" where
  "halt_finish ret cur s =
     (let s = update_pcb cur close_all s;
          p = pcbs s cur;
          s = s\<lparr>schedule := map (\<lambda>x. if word_of_int x = pcb_pid p then sint (parent_pid p) else x) (schedule s)\<rparr>;
          s = map_process (parent_pid p) s;
          s = s\<lparr>tss_ss0 := 0x18, tss_esp0 := KERNEL_BOTTOM_ADDR - parent_pid p * 0x2000 - 4\<rparr>
      in (Resume (pcb_ebp p) (pcb_esp p) ret, s))"

definition halt :: "locals \<Rightarrow> u8 \<Rightarrow> 'a kernel_scheme \<Rightarrow> (control \<times> 'a kernel_scheme) option" where
  "halt l status s =
     (let s = putc 10 0 s;
          ret = (if status = 1 then 255 + 1 else 0);
          cur = get_cur_pcb_ptr s;
          n = pcb_pid (pcbs s cur);
          s = s\<lparr>pid_bitmap := (pid_bitmap s)[unat n := 0]\<rparr>
      in if n = 0 \<or> n = 1 \<or> n = 2 then do {
           let s = put_string (message ''----------------------------------------------------''
                 @ message ''|               Cannot exit base shell             |''
                 @ message ''----------------------------------------------------'') s;
           (c, s) \<leftarrow> execute_cmd l (map of_char ''shell'') s;
           case c of Return r \<Rightarrow> Some (halt_finish ret cur s) | _ \<Rightarrow> Some (c, s)
         }
         else Some (halt_finish ret cur s))"

definition KILL :: "locals \<Rightarrow> 'a kernel_scheme \<Rightarrow> (control \<times> 'a kernel_scheme) option" where
  "KILL l s = halt l 0 (update_pcb (get_cur_pcb_ptr s) unmask_all s)"

subsection \<open>Tables of slots\<close>

text \<open>Descriptors and process numbers are allocated alike: the first free slot of a table of
  fixed size.  The contract of such a table, and what follows from it for its clients.\<close>

lemma find_upt_Some:
  "find P [0..<n] = Some i \<Longrightarrow> i < n \<and> P i \<and> (\<forall>j < i. \<not> P j)"
  by (auto simp: find_Some_iff)

lemma find_upt_None: "find P [0..<n] = None \<Longrightarrow> i < n \<Longrightarrow> \<not> P i"
  by (auto simp: find_None_iff)

locale slot_table =
  fixes slots :: nat and valid :: "'t \<Rightarrow> bool" and used :: "'t \<Rightarrow> nat \<Rightarrow> bool"
    and alloc :: "'t \<Rightarrow> nat option" and claim :: "nat \<Rightarrow> 't \<Rightarrow> 't" and release :: "nat \<Rightarrow> 't \<Rightarrow> 't"
  assumes alloc_Some: "alloc t = Some i \<Longrightarrow> i < slots \<and> \<not> used t i \<and> (\<forall>j < i. used t j)"
    and alloc_None: "alloc t = None \<Longrightarrow> i < slots \<Longrightarrow> used t i"
    and claim_valid: "valid t \<Longrightarrow> valid (claim i t)"
    and release_valid: "valid t \<Longrightarrow> valid (release i t)"
    and claim_used: "valid t \<Longrightarrow> i < slots \<Longrightarrow> used (claim i t) j \<longleftrightarrow> j = i \<or> used t j"
    and release_used: "valid t \<Longrightarrow> i < slots \<Longrightarrow> used (release i t) j \<longleftrightarrow> j \<noteq> i \<and> used t j"
begin

definition free_slots :: "'t \<Rightarrow> nat set" where
  "free_slots t = {i. i < slots \<and> \<not> used t i}"

lemma alloc_iff: "alloc t = None \<longleftrightarrow> free_slots t = {}"
  using alloc_Some alloc_None by (cases "alloc t") (auto simp: free_slots_def)

lemma alloc_least: "alloc t = Some i \<Longrightarrow> i = Min (free_slots t)"
proof -
  assume a: "alloc t = Some i"
  have "finite (free_slots t)" by (simp add: free_slots_def)
  moreover have "i \<in> free_slots t" using alloc_Some [OF a] by (simp add: free_slots_def)
  moreover have "\<forall>j \<in> free_slots t. i \<le> j" using alloc_Some [OF a] by (auto simp: free_slots_def not_less [symmetric])
  ultimately show ?thesis by (intro Min_eqI [symmetric]) auto
qed

lemma free_claim: "valid t \<Longrightarrow> i < slots \<Longrightarrow> free_slots (claim i t) = free_slots t - {i}"
  by (auto simp: free_slots_def claim_used)

lemma free_release: "valid t \<Longrightarrow> i < slots \<Longrightarrow> free_slots (release i t) = insert i (free_slots t)"
  by (auto simp: free_slots_def release_used)

lemma release_claim:
  "valid t \<Longrightarrow> alloc t = Some i \<Longrightarrow> alloc (release i (claim i t)) = Some i"
proof -
  assume v: "valid t" and a: "alloc t = Some i"
  then have i: "i < slots" "i \<in> free_slots t" using alloc_Some [OF a] by (simp_all add: free_slots_def)
  have fs: "free_slots (release i (claim i t)) = free_slots t"
    using i by (auto simp: free_release [OF claim_valid [OF v] i(1)] free_claim [OF v i(1)])
  then obtain j where j: "alloc (release i (claim i t)) = Some j"
    using alloc_iff i(2) by (cases "alloc (release i (claim i t))") auto
  then show ?thesis using alloc_least [OF j] alloc_least [OF a] fs by simp
qed

end

interpretation fds: slot_table 8 "\<lambda>fds. length fds = 8" "\<lambda>fds i. i < 8 \<longrightarrow> flags (fds ! i) \<noteq> 0" free_fd
  "\<lambda>i fds. fds[i := (fds ! i)\<lparr>flags := 1\<rparr>]" "\<lambda>i fds. fds[i := (fds ! i)\<lparr>flags := 0\<rparr>]"
proof
  fix fds :: "file_descriptor list" and i j :: nat
  show "free_fd fds = Some i \<Longrightarrow> i < 8 \<and> \<not> (i < 8 \<longrightarrow> flags (fds ! i) \<noteq> 0) \<and>
      (\<forall>j < i. j < 8 \<longrightarrow> flags (fds ! j) \<noteq> 0)"
    by (auto simp: free_fd_def dest: find_upt_Some)
  show "free_fd fds = None \<Longrightarrow> i < 8 \<Longrightarrow> i < 8 \<longrightarrow> flags (fds ! i) \<noteq> 0"
    by (auto simp: free_fd_def dest: find_upt_None)
qed (auto simp: nth_list_update)

interpretation pids: slot_table 6 "\<lambda>b. length b = 6" "\<lambda>b i. i < 6 \<longrightarrow> b ! i \<noteq> 0" free_pid
  "\<lambda>i b. b[i := 1]" "\<lambda>i b. b[i := 0]"
proof
  fix b :: "u8 list" and i j :: nat
  show "free_pid b = Some i \<Longrightarrow> i < 6 \<and> \<not> (i < 6 \<longrightarrow> b ! i \<noteq> 0) \<and> (\<forall>j < i. j < 6 \<longrightarrow> b ! j \<noteq> 0)"
    by (auto simp: free_pid_def dest: find_upt_Some)
  show "free_pid b = None \<Longrightarrow> i < 6 \<Longrightarrow> i < 6 \<longrightarrow> b ! i \<noteq> 0"
    by (auto simp: free_pid_def dest: find_upt_None)
qed (auto simp: nth_list_update)

subsection \<open>Commands\<close>

definition word_chars :: "u8 list \<Rightarrow> bool" where
  "word_chars w \<longleftrightarrow> 32 \<notin> set w \<and> 0 \<notin> set w"

lemma skip_spaces_run:
  "post = [] \<or> hd post \<noteq> 32 \<Longrightarrow> skip_spaces (pre @ replicate n 32 @ post) (length pre) = length pre + n"
proof (induction n arbitrary: pre)
  case 0
  then show ?case by (subst skip_spaces.simps) (cases post; simp add: nth_append)
next
  case (Suc n)
  from Suc.IH [of "pre @ [32]"] Suc.prems show ?case
    by (subst skip_spaces.simps) (simp add: nth_append)
qed

lemma parse_name_run:
  assumes "word_chars w" and "post = [] \<or> hd post = 32" and "length acc + length w \<le> 32"
  shows "parse_name (pre @ w @ post) (length pre) acc = Some (length pre + length w, acc @ w)"
  using assms(1,3)
proof (induction w arbitrary: pre acc)
  case Nil
  then show ?case using assms(2) by (subst parse_name.simps) (cases post; simp add: nth_append)
next
  case (Cons c w)
  from Cons.IH [of "acc @ [c]" "pre @ [c]"] Cons.prems show ?case
    by (subst parse_name.simps) (simp add: nth_append word_chars_def)
qed

lemma parse_name_long:
  "word_chars w \<Longrightarrow> length acc \<le> 32 \<Longrightarrow> length acc + length w > 32 \<Longrightarrow>
   parse_name (pre @ w @ post) (length pre) acc = None"
proof (induction w arbitrary: pre acc)
  case Nil
  then show ?case by simp
next
  case (Cons c w)
  from Cons.IH [of "acc @ [c]" "pre @ [c]"] Cons.prems show ?case
    by (subst parse_name.simps) (simp add: nth_append word_chars_def)
qed

lemma parse_args_run:
  assumes "word_chars w" and "post = [] \<or> hd post = 32" and "j + length w \<le> length args"
  shows "parse_args (pre @ w @ post) (length pre) args j =
    Some (take j args @ w @ drop (j + length w) args, j + length w)"
  using assms(1,3)
proof (induction w arbitrary: pre args j)
  case Nil
  then show ?case using assms(2) by (subst parse_args.simps) (cases post; simp add: nth_append)
next
  case (Cons c w)
  from Cons.IH [of "Suc j" "args[j := c]" "pre @ [c]"] Cons.prems show ?case
    by (subst parse_args.simps) (simp add: nth_append word_chars_def take_Suc_conv_app_nth)
qed

lemma terminate_word:
  assumes "length arg < length args"
  shows "(arg @ drop (length arg) (if arg = [] then args[0 := 0] else args))[length arg := 0] =
    arg @ 0 # drop (Suc (length arg)) args"
proof (cases "arg = []")
  case True
  with assms show ?thesis by (cases args) auto
next
  case False
  with assms show ?thesis by (simp add: list_update_append Cons_nth_drop_Suc [symmetric])
qed

lemma parse_command_run:
  assumes "word_chars name" and "0 < length name" and "length name \<le> 31"
    and "word_chars arg" and "length arg < length args"
    and "arg \<noteq> [] \<longrightarrow> 0 < b" and "arg = [] \<longrightarrow> rest = []" and "rest = [] \<or> hd rest = 32"
  shows "parse_command args (replicate a 32 @ name @ replicate b 32 @ arg @ rest) =
    Parsed name (arg @ 0 # drop (Suc (length arg)) args)"
proof -
  let ?tail = "replicate b 32 @ arg @ rest"
  let ?cmd = "replicate a 32 @ name @ ?tail"
  have hd_name: "hd name \<noteq> 32" using assms(1,2) by (cases name) (auto simp: word_chars_def)
  have one: "skip_spaces ?cmd 0 = a"
    using skip_spaces_run [of "name @ ?tail" "[]" a] hd_name assms(2) by simp
  have tail: "?tail = [] \<or> hd ?tail = 32"
    using assms(6,7) by (cases b; cases arg) auto
  have two: "parse_name ?cmd a [] = Some (a + length name, name)"
    using parse_name_run [OF assms(1) tail, of "[]" "replicate a 32"] assms(3) by simp
  have "arg @ rest = [] \<or> hd (arg @ rest) \<noteq> 32"
    using assms(4,7) by (cases arg) (auto simp: word_chars_def)
  then have three: "skip_spaces ?cmd (a + length name) = a + length name + b"
    using skip_spaces_run [of "arg @ rest" "replicate a 32 @ name" b] by simp
  have last: "a + length name + b = length ?cmd \<longleftrightarrow> arg = []"
    using assms(7) by auto
  let ?args = "if arg = [] then args[0 := 0] else args"
  have "parse_args ?cmd (a + length name + b) ?args 0 = Some (arg @ drop (length arg) ?args, length arg)"
    using parse_args_run [OF assms(4,8), of 0 ?args "replicate a 32 @ name @ replicate b 32"] assms(5)
    by (simp add: add.assoc)
  moreover have "(arg @ drop (length arg) ?args)[length arg := 0] = arg @ 0 # drop (Suc (length arg)) args"
    by (rule terminate_word [OF assms(5)])
  ultimately show ?thesis
    using one two three last assms(2,3,5) by (auto simp: parse_command_def Let_def)
qed

text \<open>A command is split into its first word, the program, and its second word, the argument.
  Leading spaces and the spaces between the two are skipped; the argument is stored with a
  terminating zero byte; everything after the second word is dropped.\<close>

theorem parse_command_words:
  assumes "word_chars name" and "0 < length name" and "length name \<le> 31"
    and "word_chars arg" and "length arg < length args"
    and "arg \<noteq> [] \<longrightarrow> 0 < b" and "arg = [] \<longrightarrow> rest = []" and "rest = [] \<or> hd rest = 32"
  shows "parse_command args (replicate a 32 @ name @ replicate b 32 @ arg @ rest) =
    Parsed name (arg @ 0 # drop (Suc (length arg)) args)"
  by (rule parse_command_run [OF assms])

theorem parse_command_words_witness:
  "parse_command [9, 9, 9, 9, 9, 9] [32, 99, 97, 116, 32, 32, 102, 48, 32, 120] =
     Parsed [99, 97, 116] [102, 48, 0, 9, 9, 9]"
  using parse_command_words [of "[99, 97, 116]" "[102, 48]" "[9, 9, 9, 9, 9, 9]" "Suc (Suc 0)" "[32, 120]" "Suc 0"]
  by (simp add: word_chars_def)

text \<open>A program name of 32 characters, which \<^verbatim>\<open>filename[32]\<close> has no room to terminate, is
  not refused: the loop refuses only a 33rd character, and the terminating zero byte is stored
  one past the end of the array.\<close>

theorem parse_command_name_overflow:
  assumes "word_chars name" and "rest = [] \<or> hd rest = 32"
  shows "(length name = 32 \<longrightarrow> parse_command args (name @ rest) = Parse_overflow) \<and>
    (length name > 32 \<longrightarrow> parse_command args (name @ rest) = Parse_error)"
proof -
  have hd_name: "hd name \<noteq> 32" if "name \<noteq> []" using assms(1) that by (cases name) (auto simp: word_chars_def)
  then have start: "skip_spaces (name @ rest) 0 = 0" if "name \<noteq> []"
    using skip_spaces_run [of "name @ rest" "[]" 0] that by simp
  show ?thesis
  proof (intro conjI impI)
    assume n: "length name = 32"
    then have "parse_name (name @ rest) 0 [] = Some (32, name)"
      using parse_name_run [OF assms, of "[]" "[]"] by simp
    with n start show "parse_command args (name @ rest) = Parse_overflow"
      by (fastforce simp: parse_command_def Let_def)
  next
    assume n: "length name > 32"
    then have "parse_name (name @ rest) 0 [] = None"
      using parse_name_long [OF assms(1), of "[]" "[]"] by simp
    with n start show "parse_command args (name @ rest) = Parse_error"
      by (fastforce simp: parse_command_def Let_def)
  qed
qed

theorem parse_command_name_overflow_witness:
  "parse_command [9] (replicate 32 97) = Parse_overflow \<and> parse_command [9] (replicate 33 97) = Parse_error"
  using parse_command_name_overflow [of "replicate 32 97" "[]" "[9]"]
    parse_command_name_overflow [of "replicate 33 97" "[]" "[9]"]
  by (simp add: word_chars_def)

end
