(* ===== verification/Files.thy ===== *)
theory Files
  imports Syscalls
begin

text \<open>
  What a process gets from the descriptor calls of \<^verbatim>\<open>system_calls.c\<close>: \<^verbatim>\<open>open\<close> hands out the
  lowest free descriptor, \<^verbatim>\<open>close\<close> gives it back, and successive \<^verbatim>\<open>read\<close>s of a file deliver its
  bytes in order.  The theory composes the descriptor table, the file system, and the memory
  of the process behind the page tables.
\<close>

subsection \<open>Parts of the state that a step does not touch\<close>

lemma access_cong:
  assumes "cr0 s = cr0 s'" "page_directory s = page_directory s'" "page_table s = page_table s'"
    "user_video_page_table s = user_video_page_table s'" "page_table_addr s = page_table_addr s'"
    "user_video_page_table_addr s = user_video_page_table_addr s'"
  shows "access s = access s'"
proof -
  have "table_at s = table_at s'" using assms by (simp add: table_at_def fun_eq_iff)
  then have "walk u s = walk u s'" for u using assms by (intro ext) (simp add: walk_def Let_def cong: if_cong)
  then show ?thesis using assms by (intro ext) (simp add: access_def paging_on_def)
qed

lemma kmem_cong:
  assumes "access s = access s'" and "pmem s = pmem s'"
  shows "kmem s = kmem s'"
  using assms by (intro ext) (simp add: kmem_def split: option.split)

lemma access_kernel [simp]:
  "access (pcbs_update f s) = access s" "access (pid_bitmap_update g s) = access s"
  "access (schedule_update h s) = access s" "access (tss_ss0_update i s) = access s"
  "access (tss_esp0_update j s) = access s" "access (kfs_update k s) = access s"
  "access (interrupts_on_update l s) = access s"
  by (rule access_cong; simp)+

lemma kmem_kernel [simp]:
  "kmem (pcbs_update f s) = kmem s" "kmem (pid_bitmap_update g s) = kmem s"
  "kmem (schedule_update h s) = kmem s" "kmem (tss_ss0_update i s) = kmem s"
  "kmem (tss_esp0_update j s) = kmem s" "kmem (kfs_update k s) = kmem s"
  "kmem (interrupts_on_update l s) = kmem s"
  by (rule kmem_cong; simp)+

lemma mapped_kernel [simp]:
  "mapped p (pcbs_update f s) = mapped p s" "mapped p (pid_bitmap_update g s) = mapped p s"
  "mapped p (schedule_update h s) = mapped p s" "mapped p (tss_ss0_update i s) = mapped p s"
  "mapped p (tss_esp0_update j s) = mapped p s" "mapped p (kfs_update k s) = mapped p s"
  "mapped p (interrupts_on_update l s) = mapped p s"
  by (rule mapped_cong; simp)+

lemma update_pcb_simps [simp]:
  "kmem (update_pcb a g s) = kmem s" "mapped p (update_pcb a g s) = mapped p s"
  "kfs (update_pcb a g s) = kfs s" "pmem (update_pcb a g s) = pmem s"
  "get_cur_pcb_ptr (update_pcb a g s) = get_cur_pcb_ptr s" "get_pid (update_pcb a g s) = get_pid s"
  "pid_bitmap (update_pcb a g s) = pid_bitmap s" "schedule (update_pcb a g s) = schedule s"
  "esp_reg (update_pcb a g s) = esp_reg s" "ebp_reg (update_pcb a g s) = ebp_reg s"
  "run_terminal (update_pcb a g s) = run_terminal s"
  "pcbs (update_pcb a g s) = (pcbs s)(a := g (pcbs s a))"
  by (simp_all add: update_pcb_def get_cur_pcb_ptr_def get_pid_def)

lemma commit_simps [simp]:
  "kfs (commit m s) = kfs s" "pcbs (commit m s) = pcbs s"
  "get_cur_pcb_ptr (commit m s) = get_cur_pcb_ptr s" "get_pid (commit m s) = get_pid s"
  "pid_bitmap (commit m s) = pid_bitmap s" "schedule (commit m s) = schedule s"
  "esp_reg (commit m s) = esp_reg s" "ebp_reg (commit m s) = ebp_reg s"
  "run_terminal (commit m t) = run_terminal t"
  by (simp_all add: commit_def get_cur_pcb_ptr_def get_pid_def)

lemma update_fd_simps [simp]:
  "file_descriptor_array (update_fd i g p) = (file_descriptor_array p)[i := g (file_descriptor_array p ! i)]"
  "parent_pid (update_fd i g p) = parent_pid p" "pcb_pid (update_fd i g p) = pcb_pid p"
  "pcb_esp (update_fd i g p) = pcb_esp p" "pcb_ebp (update_fd i g p) = pcb_ebp p"
  "pcb_args (update_fd i g p) = pcb_args p" "signals (update_fd i g p) = signals p"
  by (simp_all add: update_fd_def)

subsection \<open>Opening and closing\<close>

abbreviation open_files :: "'a kernel_scheme \<Rightarrow> file_descriptor list" where
  "open_files s \<equiv> file_descriptor_array (cur_pcb s)"

definition opened :: "dentry_t \<Rightarrow> file_operations_table \<Rightarrow> file_descriptor" where
  "opened d ops = \<lparr>file_operations = ops, fd_inode = inode_num d, file_position = 0, flags = 1\<rparr>"

text \<open>The functions behind \<^verbatim>\<open>open\<close> return whenever the name was found, and change nothing but
  the frequency of the clock.\<close>

lemma call_open_returns:
  assumes "filename \<noteq> 0" and "read_dentry_by_name (kmem s) (kfs s) filename 1 = Some (Some d)"
    and "open_ops (file_type d) = Some ops"
  shows "\<exists>r s'. call_open (op_open ops) filename s = Some (r, s') \<and> pcbs s' = pcbs s \<and> esp_reg s' = esp_reg s"
  using assms
  by (auto simp: call_open_def open_ops_def file_open_def dir_open_def RTC_open_def Let_def
      RTC_set_freq_def outb_def inb_def
      split: if_splits prod.splits)

lemma cur_pcb_ptr_cong: "esp_reg s = esp_reg s' \<Longrightarrow> get_cur_pcb_ptr s = get_cur_pcb_ptr s'"
  by (simp add: get_cur_pcb_ptr_def)

lemma sys_open_run:
  assumes "filename \<noteq> 0" and "read_dentry_by_name (kmem s) (kfs s) filename 1 = Some (Some d)"
    and "open_ops (file_type d) = Some ops" and "free_fd (open_files s) = Some i"
    and "length (open_files s) = 8"
  shows "\<exists>s'. sys_open filename s = Some (int i, s') \<and> get_cur_pcb_ptr s' = get_cur_pcb_ptr s \<and>
    open_files s' = (open_files s)[i := opened d ops]"
proof -
  let ?g = "\<lambda>fd. fd\<lparr>flags := 1, file_position := 0, fd_inode := inode_num d, file_operations := ops\<rparr>"
  let ?s = "update_pcb (get_cur_pcb_ptr s) (update_fd i ?g) s"
  have "read_dentry_by_name (kmem ?s) (kfs ?s) filename 1 = Some (Some d)" using assms(2) by simp
  from call_open_returns [OF assms(1) this assms(3)] obtain r s' where
    s': "call_open (op_open ops) filename ?s = Some (r, s')" "pcbs s' = pcbs ?s" "esp_reg s' = esp_reg ?s"
    by blast
  have "sys_open filename s = Some (int i, s')"
    using assms(1-4) s'(1) by (simp add: sys_open_def Let_def)
  moreover have cur: "get_cur_pcb_ptr s' = get_cur_pcb_ptr s"
    using s'(3) by (simp add: get_cur_pcb_ptr_def)
  moreover have "?g fd = opened d ops" for fd by (cases fd) (simp add: opened_def)
  ultimately show ?thesis using s'(2) cur by simp
qed

definition free_descriptors :: "'a kernel_scheme \<Rightarrow> nat set" where
  "free_descriptors s = {i. i < 8 \<and> flags (open_files s ! i) = 0}"

lemma free_descriptors_slots: "free_descriptors s = fds.free_slots (open_files s)"
  by (auto simp: free_descriptors_def fds.free_slots_def)

lemma free_fd_least: "free_fd (open_files s) = Some i \<Longrightarrow> i = Min (free_descriptors s)"
  and free_fd_iff: "free_fd (open_files s) = None \<longleftrightarrow> free_descriptors s = {}"
  by (simp_all add: free_descriptors_slots fds.alloc_least fds.alloc_iff)

text \<open>\<^verbatim>\<open>open\<close> on every branch.  A name that is not in the directory and a full table give -1
  and change nothing; otherwise the lowest free descriptor is returned, and it stands for the
  file, at position 0 and with the operations of its type, while the others are as before.\<close>

theorem open_lowest_descriptor:
  assumes "filename \<noteq> 0" and "read_dentry_by_name (kmem s) (kfs s) filename 1 = Some found"
    and "length (open_files s) = 8"
  shows "(found = None \<or> free_descriptors s = {} \<longrightarrow> sys_open filename s = Some (-1, s)) \<and>
    (\<forall>d ops. found = Some d \<and> open_ops (file_type d) = Some ops \<and> free_descriptors s \<noteq> {} \<longrightarrow>
      (\<exists>s'. sys_open filename s = Some (int (Min (free_descriptors s)), s') \<and>
        open_files s' = (open_files s)[Min (free_descriptors s) := opened d ops]))"
proof (intro conjI allI impI)
  assume "found = None \<or> free_descriptors s = {}"
  then show "sys_open filename s = Some (-1, s)"
    using assms(1,2) free_fd_iff [of s] by (auto simp: sys_open_def Let_def split: option.split)
next
  fix d ops
  assume a: "found = Some d \<and> open_ops (file_type d) = Some ops \<and> free_descriptors s \<noteq> {}"
  then obtain i where i: "free_fd (open_files s) = Some i" using free_fd_iff [of s] by auto
  then have "i = Min (free_descriptors s)" by (rule free_fd_least)
  with sys_open_run [OF assms(1) _ _ i assms(3), of d ops] a assms(2)
  show "\<exists>s'. sys_open filename s = Some (int (Min (free_descriptors s)), s') \<and>
      open_files s' = (open_files s)[Min (free_descriptors s) := opened d ops]" by auto
qed

text \<open>A descriptor from 2 to 7 that \<^verbatim>\<open>open\<close> returned can be closed, once: the first \<^verbatim>\<open>close\<close>
  gives 0 and makes exactly that descriptor free again, so that the free descriptors are those
  before the \<^verbatim>\<open>open\<close>; a second \<^verbatim>\<open>close\<close> gives -1 and changes nothing.\<close>

theorem open_close_round_trip:
  assumes "filename \<noteq> 0" and "read_dentry_by_name (kmem s) (kfs s) filename 1 = Some (Some d)"
    and "open_ops (file_type d) = Some ops" and "length (open_files s) = 8"
    and "sys_open filename s = Some (fd, s')" and "2 \<le> fd"
  shows "\<exists>s''. sys_close fd s' = (0, s'') \<and> free_descriptors s'' = free_descriptors s \<and>
    sys_close fd s'' = (-1, s'')"
proof -
  obtain i where i: "free_fd (open_files s) = Some i"
    using assms(1,2,5,6) by (cases "free_fd (open_files s)") (auto simp: sys_open_def Let_def)
  from sys_open_run [OF assms(1-3) i assms(4)] assms(5)
  have fd: "fd = int i" and cur: "get_cur_pcb_ptr s' = get_cur_pcb_ptr s"
    and files: "open_files s' = (open_files s)[i := opened d ops]" by auto
  have i8: "i < 8" "flags (open_files s ! i) = 0" using fds.alloc_Some [OF i] by auto
  let ?s = "update_pcb (get_cur_pcb_ptr s') (update_fd i (\<lambda>d. d\<lparr>flags := 0\<rparr>)) s'"
  have open_i: "open_files s' ! i = opened d ops" using files i8 assms(4) by simp
  then have "sys_close fd s' = (0, ?s)"
    using fd assms(6) i8 by (simp add: sys_close_def Let_def opened_def)
  moreover have after: "open_files ?s = (open_files s)[i := (opened d ops)\<lparr>flags := 0\<rparr>]"
    using files open_i by simp
  moreover have "free_descriptors ?s = free_descriptors s"
    unfolding free_descriptors_def after using i8 assms(4) by (auto simp: nth_list_update)
  moreover have "sys_close fd ?s = (-1, ?s)"
    using fd assms(6) i8 assms(4) after by (simp add: sys_close_def Let_def)
  ultimately show ?thesis by blast
qed

lemma boot_kernel_view: "kmem boot_kernel = demo_image" "kfs boot_kernel = demo_fs"
  "get_cur_pcb_ptr boot_kernel = 0x7FA000" "open_files boot_kernel = replicate 8 empty_fd"
proof -
  have "access boot_kernel = Some" by (intro ext) (simp add: access_def paging_on_def boot_kernel_def)
  then show "kmem boot_kernel = demo_image" by (intro ext) (simp add: kmem_def, simp add: boot_kernel_def)
  show "get_cur_pcb_ptr boot_kernel = 0x7FA000"
    using get_cur_pcb_ptr_on_stack [of 2 boot_kernel]
    by (simp add: on_stack_def boot_kernel_def get_pcb_ptr_def)
qed (simp_all add: boot_kernel_def empty_pcb_def)

lemma demo_lookup:
  "read_dentry_by_name demo_image demo_fs 0x500000 1 = Some (Some (dentry_at demo_image 0x400080))"
  "file_type (dentry_at demo_image 0x400080) = 2" "inode_num (dentry_at demo_image 0x400080) = 0"
proof -
  have str: "is_cstr demo_image 0x500000 [97]"
    by (simp add: is_cstr_def demo_image_at read_bytes_Suc)
  have "is_cstr demo_image 0x400040 [46]" "is_cstr demo_image 0x400080 [97]"
    by (simp_all add: is_cstr_def demo_image_at read_bytes_Suc)
  then have "entry_name demo_image demo_fs 0 = [46]" "entry_name demo_image demo_fs (Suc 0) = [97]"
    by (auto simp: entry_name_def dir_entry_addr_def demo_fs_simps dest: cstr_prefix [where n = 32])
  then show "read_dentry_by_name demo_image demo_fs 0x500000 1 = Some (Some (dentry_at demo_image 0x400080))"
    using read_dentry_lookup [OF str, where f = demo_fs and dentry = 1]
    by (simp add: demo_image_counts upt_rec dir_entry_addr_def demo_fs_simps)
qed (simp_all add: dentry_at_def load32_def demo_image_at)

text \<open>A state with descriptors 0 and 1 in use.\<close>

definition demo_process :: kernel where
  "demo_process = update_pcb 0x7FA000 (update_fd 1 stdout_fd \<circ> update_fd 0 stdin_fd) boot_kernel"

lemma demo_process_view: "kmem demo_process = demo_image" "kfs demo_process = demo_fs"
  "get_cur_pcb_ptr demo_process = 0x7FA000"
  "open_files demo_process = [stdin_fd empty_fd, stdout_fd empty_fd] @ replicate 6 empty_fd"
proof -
  show cur: "get_cur_pcb_ptr demo_process = 0x7FA000"
    by (simp add: demo_process_def boot_kernel_view)
  show "open_files demo_process = [stdin_fd empty_fd, stdout_fd empty_fd] @ replicate 6 empty_fd"
    unfolding cur
    by (simp add: demo_process_def boot_kernel_def empty_pcb_def numeral_eq_Suc)
qed (simp_all add: demo_process_def boot_kernel_view)

lemma demo_process_free: "free_descriptors demo_process = {2..7}"
proof -
  have "flags (open_files demo_process ! i) = 0 \<longleftrightarrow> 2 \<le> i" if "i < 8" for i
    using that unfolding demo_process_view(4)
    by (auto simp: nth_append nth_Cons' stdin_fd_def stdout_fd_def empty_fd_def)
  then show ?thesis by (auto simp: free_descriptors_def)
qed

theorem open_lowest_descriptor_witness:
  "\<exists>s'. sys_open 0x500000 demo_process = Some (2, s') \<and> file_position (open_files s' ! 2) = 0"
proof -
  have "{2..7} = {2 :: nat, 3, 4, 5, 6, 7}" by auto
  then have m: "Min (free_descriptors demo_process) = 2" by (simp add: demo_process_free)
  obtain ops where ops: "open_ops 2 = Some ops" by (simp add: open_ops_def)
  have eight: "length (open_files demo_process) = 8" unfolding demo_process_view(4) by simp
  from open_lowest_descriptor [OF _ _ this, of "0x500000" "Some (dentry_at demo_image 0x400080)"]
  obtain s' where "sys_open 0x500000 demo_process = Some (2, s')"
    "open_files s' = (open_files demo_process)[2 := opened (dentry_at demo_image 0x400080) ops]"
    by (auto simp: demo_process_view(1,2) demo_lookup demo_process_free m [unfolded demo_process_free] ops)
  then show ?thesis using eight by (simp add: opened_def)
qed

theorem open_close_round_trip_witness:
  "\<exists>s' s''. sys_open 0x500000 demo_process = Some (2, s') \<and> sys_close 2 s' = (0, s'') \<and>
    sys_close 2 s'' = (-1, s'')"
proof -
  obtain ops where ops: "open_ops 2 = Some ops" by (simp add: open_ops_def)
  have eight: "length (open_files demo_process) = 8" unfolding demo_process_view(4) by simp
  have "free_fd (open_files demo_process) = Some 2"
    unfolding demo_process_view(4)
    by (simp add: free_fd_def upt_rec stdin_fd_def stdout_fd_def empty_fd_def nth_Cons')
  from sys_open_run [OF _ _ _ this, of "0x500000" "dentry_at demo_image 0x400080" ops]
  obtain s' where s': "sys_open 0x500000 demo_process = Some (2, s')"
    using eight by (auto simp: demo_process_view(1,2) demo_lookup ops)
  from open_close_round_trip [OF _ _ _ _ s', of "dentry_at demo_image 0x400080" ops]
  have "\<exists>s''. sys_close 2 s' = (0, s'') \<and> sys_close 2 s'' = (-1, s'')"
    using eight by (auto simp: demo_process_view(1,2) demo_lookup ops)
  with s' show ?thesis by blast
qed

subsection \<open>Reading a file\<close>

lemma page_number: "unat (drop_bit 22 (x :: u32)) = unat x div 2 ^ 22"
  by (simp only: unat_drop_bit_eq) (simp only: drop_bit_eq_div)

lemma page_iff:
  assumes "k < 1024"
  shows "drop_bit 22 (x :: u32) = of_nat k \<longleftrightarrow> 0x400000 * k \<le> unat x \<and> unat x < 0x400000 * (k + 1)"
proof -
  have "unat (of_nat k :: u32) = k" using assms by simp
  then have "drop_bit 22 x = of_nat k \<longleftrightarrow> unat x div 2 ^ 22 = k"
    by (simp only: word_unat_eq_iff page_number)
  also have "\<dots> \<longleftrightarrow> 0x400000 * k \<le> unat x \<and> unat x < 0x400000 * (k + 1)"
    using dividend_less_times_div [of "2 ^ 22" "unat x"] times_div_less_eq_dividend [of "2 ^ 22" "unat x"]
    by (auto intro: div_nat_eqI)
  finally show ?thesis .
qed

lemmas kernel_page = page_iff [of 1, simplified]
lemmas user_page = page_iff [of 32, simplified]

text \<open>A run of bytes in the page of the process, and a file system that lies in the kernel's.\<close>

definition user_range :: "u32 \<Rightarrow> nat \<Rightarrow> bool" where
  "user_range buf n \<longleftrightarrow> 0x8000000 \<le> unat buf \<and> unat buf + n \<le> 0x8400000"

definition mounted :: "'a kernel_scheme \<Rightarrow> bool" where
  "mounted s \<longleftrightarrow> image_ok (kmem s) (kfs s) \<and> 0x400000 \<le> unat (boot_block_ptr (kfs s)) \<and>
     unat (boot_block_ptr (kfs s)) + image_size (kmem s) (kfs s) \<le> 0x800000"

lemma user_range_page: "user_range buf n \<Longrightarrow> x \<in> span buf n \<Longrightarrow> drop_bit 22 x = 32"
  by (auto simp: user_range_def user_page in_span_interval simp del: in_span)

lemma mounted_page:
  "mounted s \<Longrightarrow> x \<in> span (boot_block_ptr (kfs s)) (image_size (kmem s) (kfs s)) \<Longrightarrow> drop_bit 22 x = 1"
  by (auto simp: mounted_def kernel_page in_span_interval simp del: in_span)

lemma user_kernel_apart:
  assumes "user_range buf n" and "mounted s"
  shows "apart buf n (boot_block_ptr (kfs s)) (image_size (kmem s) (kfs s))"
  using assms by (subst apart_sym, intro apart_below) (auto simp: user_range_def mounted_def)

text \<open>The file system survives a step that keeps the kernel page.\<close>

lemma mounted_step:
  assumes "mounted s" and "kfs s' = kfs s" and "\<forall>x. drop_bit 22 x = 1 \<longrightarrow> kmem s' x = kmem s x"
  shows "mounted s'"
    and "inode_ok (kmem s) (kfs s) i \<Longrightarrow> inode_ok (kmem s') (kfs s') i"
    and "inode_ok (kmem s) (kfs s) i \<Longrightarrow> file_bytes (kmem s') (kfs s') i = file_bytes (kmem s) (kfs s) i"
proof -
  have ok: "image_ok (kmem s) (kfs s)" using assms(1) by (simp add: mounted_def)
  have same: "x \<in> span (boot_block_ptr (kfs s)) (image_size (kmem s) (kfs s)) \<Longrightarrow> kmem s' x = kmem s x" for x
    using assms(3) mounted_page [OF assms(1)] by blast
  show "mounted s'" using assms(1,2) image_cong [OF ok same] by (simp add: mounted_def)
  assume i: "inode_ok (kmem s) (kfs s) i"
  show "inode_ok (kmem s') (kfs s') i" "file_bytes (kmem s') (kfs s') i = file_bytes (kmem s) (kfs s) i"
    using file_cong [OF ok i same] assms(2) by simp_all
qed

text \<open>Descriptor \<open>fd\<close> stands for file \<open>inode\<close> at position \<open>pos\<close>.\<close>

definition file_at :: "int \<Rightarrow> u32 \<Rightarrow> nat \<Rightarrow> 'a kernel_scheme \<Rightarrow> bool" where
  "file_at fd inode pos s \<longleftrightarrow> 0 \<le> fd \<and> fd < 8 \<and> length (open_files s) = 8 \<and>
     (let d = open_files s ! nat fd
      in flags d \<noteq> 0 \<and> op_read (file_operations d) = File_read \<and> fd_inode d = inode \<and>
         file_position d = of_nat pos)"

definition file_process :: "u32 \<Rightarrow> int \<Rightarrow> u32 \<Rightarrow> nat \<Rightarrow> 'a kernel_scheme \<Rightarrow> bool" where
  "file_process p fd inode pos s \<longleftrightarrow> mapped (Some p) s \<and> mounted s \<and>
     inode_ok (kmem s) (kfs s) inode \<and> file_at fd inode pos s"

lemma user_range_bounds: "user_range buf n \<Longrightarrow> buf \<noteq> 0 \<and> n \<le> 0x400000"
  by (auto simp: user_range_def)

lemma read_data_into:
  assumes mnt: "mounted s" and ino: "inode_ok (kmem s) (kfs s) inode" and buf0: "buf \<noteq> 0"
    and away: "apart buf n (boot_block_ptr (kfs s)) (image_size (kmem s) (kfs s))"
    and n: "0 < n" and n_small: "n \<le> 0x400000"
    and pos: "pos \<le> length (file_bytes (kmem s) (kfs s) inode)"
  defines "bs \<equiv> take n (drop pos (file_bytes (kmem s) (kfs s) inode))"
  shows "read_data (kmem s) (kfs s) inode (of_nat pos) buf (of_nat n) =
    (int (length bs), write_bytes (kmem s) buf bs)"
proof -
  let ?m = "kmem s" and ?f = "kfs s"
  let ?len = "unat (inode_length ?m ?f inode)"
  have len: "?len \<le> 1023 * 4096" using ino by (simp add: inode_ok_def)
  have lpos: "pos \<le> ?len" using pos by simp
  have bs: "length bs = min n (?len - pos)" by (simp add: bs_def)
  have pos32: "unat (of_nat pos :: u32) = pos" using lpos len by simp
  have n32: "unat (of_nat n :: u32) = n" using n_small by simp
  show ?thesis
  proof (cases "pos < ?len")
    case True
    have cnt: "read_count ?m ?f inode (of_nat pos) (of_nat n) = length bs"
      by (simp only: read_count_def pos32 n32 bs)
    have sub: "apart buf (length bs) (boot_block_ptr ?f) (image_size ?m ?f)"
      using away bs by (rule_tac apart_mono) (auto simp: span_def)
    have take: "take (length bs) (drop (unat (of_nat pos :: u32)) (file_bytes ?m ?f inode)) = bs"
      unfolding pos32 by (simp add: bs bs_def min_def)
    show ?thesis
      using read_data_run [OF _ ino buf0, of "of_nat pos" "of_nat n"] mnt True n n_small lpos len sub
      unfolding cnt take
      by (simp add: mounted_def word_less_nat_alt pos32 n32)
  next
    case False
    then have "length bs = 0" using lpos bs by simp
    with False buf0 ino show ?thesis
      by (simp add: read_data_def inode_ok_def not_le [symmetric] word_le_nat_alt pos32)
  qed
qed

lemma read_data_user:
  assumes "mounted s" and "inode_ok (kmem s) (kfs s) inode" and buf: "user_range buf (nat n)"
    and n: "0 < n" and "pos \<le> length (file_bytes (kmem s) (kfs s) inode)"
  defines "bs \<equiv> take (nat n) (drop pos (file_bytes (kmem s) (kfs s) inode))"
  shows "read_data (kmem s) (kfs s) inode (of_nat pos) buf (of_int n) =
    (int (length bs), write_bytes (kmem s) buf bs)"
proof -
  have "(of_int n :: u32) = of_nat (nat n)" using n by simp
  then show ?thesis
    using read_data_into [OF assms(1,2) _ user_kernel_apart [OF buf assms(1)] _ _ assms(5)] n
      user_range_bounds [OF buf] by (simp add: bs_def)
qed

text \<open>Bytes put into the page of the process are seen there, and the kernel's page is as before.\<close>

lemma commit_write_user:
  assumes maps: "mapped (Some p) s" and buf: "user_range buf (length bs)"
  defines "s' \<equiv> commit (write_bytes (kmem s) buf bs) s"
  shows "read_bytes (kmem s') buf (length bs) = bs" and "drop_bit 22 x = 1 \<Longrightarrow> kmem s' x = kmem s x"
proof -
  have n: "length bs \<le> 2 ^ 32" using user_range_bounds [OF buf] by simp
  have "read_bytes (kmem s') buf (length bs) = read_bytes (write_bytes (kmem s) buf bs) buf (length bs)"
    using n commit_user [OF maps user_range_page [OF buf]] unfolding s'_def by (intro read_bytes_cong) auto
  then show "read_bytes (kmem s') buf (length bs) = bs" using n by (simp add: read_write_bytes)
  assume x: "drop_bit 22 x = 1"
  then have "x \<notin> span buf (length bs)" using user_range_page [OF buf, of x] by auto
  then show "kmem s' x = kmem s x" using commit_kernel [OF maps x] n by (simp add: s'_def write_bytes_apply)
qed

text \<open>One call of \<^verbatim>\<open>read\<close> on a file.\<close>

lemma sys_read_file:
  assumes s: "file_process p fd inode pos s" and buf: "user_range buf (nat n)" and n: "0 < n"
    and pos: "pos \<le> length (file_bytes (kmem s) (kfs s) inode)"
  defines "bs \<equiv> take (nat n) (drop pos (file_bytes (kmem s) (kfs s) inode))"
  shows "\<exists>s'. sys_read ev fd buf n s = Some (int (length bs), s') \<and>
    read_bytes (kmem s') buf (length bs) = bs \<and>
    file_process p fd inode (pos + length bs) s' \<and>
    file_bytes (kmem s') (kfs s') inode = file_bytes (kmem s) (kfs s) inode"
proof -
  have maps: "mapped (Some p) s" and mnt: "mounted s" and ino: "inode_ok (kmem s) (kfs s) inode"
    and at: "file_at fd inode pos s" using s by (simp_all add: file_process_def)
  note bounds = user_range_bounds [OF buf]
  note read = read_data_user [OF mnt ino buf n pos, folded bs_def]
  have lb: "length bs \<le> nat n" by (simp add: bs_def)
  have range: "user_range buf (length bs)" using buf lb by (simp add: user_range_def)
  let ?s = "update_pcb (get_cur_pcb_ptr s) (update_fd (nat fd)
      (\<lambda>d. d\<lparr>file_position := file_position d + word_of_int (int (length bs))\<rparr>))
      (commit (write_bytes (kmem s) buf bs) s)"
  have "sys_read ev fd buf n s = Some (int (length bs), ?s)"
    using at n bounds read lb
    by (simp add: sys_read_def file_at_def call_read_def file_read_def Let_def sint_of_nat_u32)
  moreover have "read_bytes (kmem ?s) buf (length bs) = bs"
    using commit_write_user(1) [OF maps range] by simp
  moreover have fs: "kfs ?s = kfs s" by simp
  have kern: "\<forall>x. drop_bit 22 x = 1 \<longrightarrow> kmem ?s x = kmem s x"
    using commit_write_user(2) [OF maps range] by simp
  note step = mounted_step [OF mnt fs kern]
  have "nat fd < length (open_files s)" using at by (auto simp: file_at_def)
  then have "file_at fd inode (pos + length bs) ?s" using at by (simp add: file_at_def Let_def)
  then have "file_process p fd inode (pos + length bs) ?s"
    using maps step(1) step(2) [OF ino] by (simp add: file_process_def)
  moreover have "file_bytes (kmem ?s) (kfs ?s) inode = file_bytes (kmem s) (kfs s) inode"
    by (rule step(3) [OF ino])
  ultimately show ?thesis by blast
qed

text \<open>The loop with which a program reads a file to its end, in pieces of \<open>n\<close> bytes: the bytes
  it finds in its buffer, call after call.\<close>

fun read_all :: "nat \<Rightarrow> events \<Rightarrow> int \<Rightarrow> u32 \<Rightarrow> int \<Rightarrow> 'a kernel_scheme \<Rightarrow> (u8 list \<times> 'a kernel_scheme) option"
where
  "read_all 0 ev fd buf n s = None"
| "read_all (Suc k) ev fd buf n s = do {
     (cnt, s) \<leftarrow> sys_read ev fd buf n s;
     if cnt = 0 then Some ([], s)
     else if cnt = -1 then None
     else do {
       (bs, s') \<leftarrow> read_all k ev fd buf n s;
       Some (read_bytes (kmem s) buf (nat cnt) @ bs, s')
     }
   }"

lemma read_all_run:
  assumes "file_process p fd inode pos s" and "user_range buf (nat n)" and "0 < n"
    and "pos \<le> length (file_bytes (kmem s) (kfs s) inode)"
    and "length (file_bytes (kmem s) (kfs s) inode) - pos + nat n \<le> k * nat n"
  shows "\<exists>s'. read_all k ev fd buf n s = Some (drop pos (file_bytes (kmem s) (kfs s) inode), s')"
  using assms
proof (induction k arbitrary: pos s)
  case 0
  then show ?case by simp
next
  case (Suc k)
  let ?file = "file_bytes (kmem s) (kfs s) inode"
  let ?bs = "take (nat n) (drop pos ?file)"
  from sys_read_file [OF Suc.prems(1-4)] obtain s' where
    s': "sys_read ev fd buf n s = Some (int (length ?bs), s')" "read_bytes (kmem s') buf (length ?bs) = ?bs"
      "file_process p fd inode (pos + length ?bs) s'" "file_bytes (kmem s') (kfs s') inode = ?file"
    by blast
  show ?case
  proof (cases "pos = length ?file")
    case True
    then show ?thesis using s'(1) by simp
  next
    case False
    then have "0 < k" using Suc.prems(3-5) by (cases k) auto
    then have "nat n \<le> k * nat n" by simp
    with False have len: "0 < length ?bs" "pos + length ?bs \<le> length ?file"
      "length ?file - (pos + length ?bs) + nat n \<le> k * nat n"
      using Suc.prems(3-5) by (auto simp: min_def)
    from Suc.IH [OF s'(3) Suc.prems(2,3)] len obtain s'' where
      "read_all k ev fd buf n s' = Some (drop (pos + length ?bs) ?file, s'')"
      unfolding s'(4) by blast
    moreover have "?bs @ drop (pos + length ?bs) ?file = drop pos ?file"
      using append_take_drop_id [of "length ?bs" "drop pos ?file"] by (simp add: min_def add.commute split: if_splits)
    ultimately show ?thesis using s'(1,2) len(1) by (auto simp del: take_eq_Nil length_take)
  qed
qed

text \<open>C8: reading a file to its end.  A process that reads an open file from position 0 with a
  buffer of \<open>n\<close> bytes gets, after one call more than the number of whole pieces and the last part,
  exactly the bytes of the file, in order and each once.\<close>

theorem read_all_delivers_file:
  assumes "file_process p fd inode 0 s" and "user_range buf (nat n)" and "0 < n"
  shows "\<exists>s'. read_all (length (file_bytes (kmem s) (kfs s) inode) div nat n + 2) ev fd buf n s =
    Some (file_bytes (kmem s) (kfs s) inode, s')"
proof -
  let ?len = "length (file_bytes (kmem s) (kfs s) inode)"
  have "?len + nat n \<le> (?len div nat n + 2) * nat n"
    using assms(3) dividend_less_div_times [of "nat n" ?len] by simp
  with read_all_run [OF assms, of "?len div nat n + 2" ev] show ?thesis by simp
qed

text \<open>The same state once paging is on and process 2 is mapped.\<close>

definition demo_running :: kernel where
  "demo_running = map_process 2 (page_init demo_process)"

lemma demo_running_maps: "mapped (Some 2) demo_running"
proof -
  have "kernel_maps None False 0xB8 (page_init demo_process)"
    using page_init_maps [of demo_process]
    by (simp add: demo_process_def boot_kernel_def layout_ok_def update_pcb_def)
  then have "mapped None (page_init demo_process)" by (auto simp: mapped_def)
  then show ?thesis unfolding demo_running_def by (rule mapped_map_process) simp
qed

lemma kmem_kernel_page: "mapped p s \<Longrightarrow> drop_bit 22 x = 1 \<Longrightarrow> kmem s x = pmem s x"
  by (simp add: kmem_def mapped_access(1))

lemma demo_running_fields:
  "kfs demo_running = demo_fs" "pmem demo_running = demo_image" "pcbs demo_running = pcbs demo_process"
  "esp_reg demo_running = esp_reg boot_kernel"
proof -
  obtain d t where "clear_tables 1024 demo_process = demo_process\<lparr>page_directory := d, page_table := t\<rparr>"
    using clear_tables_shape by blast
  then have "kfs demo_running = kfs demo_process" "pmem demo_running = pmem demo_process"
    "pcbs demo_running = pcbs demo_process" "esp_reg demo_running = esp_reg demo_process"
    by (simp_all add: demo_running_def map_process_def flush_tlb_def page_init_def Let_def set_crs_def
        set_pde_def set_pte_def)
  then show "kfs demo_running = demo_fs" "pmem demo_running = demo_image"
    "pcbs demo_running = pcbs demo_process" "esp_reg demo_running = esp_reg boot_kernel"
    by (simp_all add: demo_process_def boot_kernel_def update_pcb_def)
qed

lemma demo_running_files:
  "get_cur_pcb_ptr demo_running = 0x7FA000" "mounted demo_running"
  "inode_ok (kmem demo_running) (kfs demo_running) 0"
  "file_bytes (kmem demo_running) (kfs demo_running) 0 = [72, 105, 33]"
proof -
  show "get_cur_pcb_ptr demo_running = 0x7FA000"
    using boot_kernel_view(3) by (simp add: get_cur_pcb_ptr_def demo_running_fields)
  have same: "kmem demo_running x = demo_image x"
    if "x \<in> span (boot_block_ptr demo_fs) (image_size demo_image demo_fs)" for x
  proof -
    have "drop_bit 22 x = 1"
      using that by (simp add: kernel_page demo_fs_simps demo_image_counts in_span_interval del: in_span)
    then show ?thesis using kmem_kernel_page [OF demo_running_maps] by (simp add: demo_running_fields)
  qed
  note img = image_cong [OF demo_image_ok(1) same] and contents = file_cong [OF demo_image_ok same]
  show "mounted demo_running"
    using img by (simp add: mounted_def demo_running_fields demo_image_counts demo_fs_simps)
  show "inode_ok (kmem demo_running) (kfs demo_running) 0"
    "file_bytes (kmem demo_running) (kfs demo_running) 0 = [72, 105, 33]"
    using contents by (simp_all add: demo_running_fields demo_file)
qed

definition demo_reader :: kernel where
  "demo_reader = update_pcb 0x7FA000 (update_fd 2 (\<lambda>d. opened (dentry_at demo_image 0x400080)
     \<lparr>op_open = File_open, op_close = File_close, op_read = File_read, op_write = File_write\<rparr>)) demo_running"

lemma demo_reader_process: "file_process 2 2 0 0 demo_reader"
  "file_bytes (kmem demo_reader) (kfs demo_reader) 0 = [72, 105, 33]"
proof -
  have cur: "get_cur_pcb_ptr demo_reader = 0x7FA000" by (simp add: demo_reader_def demo_running_files)
  have "file_descriptor_array (pcbs demo_running 0x7FA000) =
      [stdin_fd empty_fd, stdout_fd empty_fd] @ replicate 6 empty_fd"
    using demo_process_view(4) unfolding demo_process_view(3) by (simp add: demo_running_fields)
  then have "file_at 2 0 0 demo_reader"
    by (simp add: file_at_def cur) (simp add: demo_reader_def opened_def demo_lookup numeral_eq_Suc)
  moreover have "mounted demo_reader"
    using demo_running_files(2) by (simp add: demo_reader_def mounted_def)
  ultimately show "file_process 2 2 0 0 demo_reader"
    using demo_running_maps demo_running_files(3) by (simp add: file_process_def demo_reader_def)
  show "file_bytes (kmem demo_reader) (kfs demo_reader) 0 = [72, 105, 33]"
    using demo_running_files(4) by (simp add: demo_reader_def)
qed

theorem read_all_delivers_file_witness:
  "\<exists>s'. read_all 3 \<lparr>keys = [], ticks = 0\<rparr> 2 0x8048000 2 demo_reader = Some ([72, 105, 33], s')"
  using read_all_delivers_file [OF demo_reader_process(1), of "0x8048000" 2 "\<lparr>keys = [], ticks = 0\<rparr>"]
  by (simp add: demo_reader_process(2) user_range_def numeral_3_eq_3 del: read_all.simps)

end
