(* ===== verification/Exec.thy ===== *)
theory Exec
  imports Files
begin

text \<open>
  Starting and ending programs: what \<^verbatim>\<open>execute\<close> and \<^verbatim>\<open>halt\<close> of \<^verbatim>\<open>system_calls.c\<close> do to the
  process table, the schedule, the page directory and memory.
\<close>

subsection \<open>Stores to kernel memory\<close>

lemma commit_same:
  assumes "\<And>va. access s va = Some pa \<Longrightarrow> m va = kmem s va"
  shows "pmem (commit m s) pa = pmem s pa"
proof -
  have "find (\<lambda>va. access s va = Some pa \<and> m va \<noteq> kmem s va) (aliases pa) = None"
    using assms by (auto simp: find_None_iff)
  then show ?thesis by (simp add: commit_def)
qed

definition kernel_range :: "u32 \<Rightarrow> nat \<Rightarrow> bool" where
  "kernel_range a n \<longleftrightarrow> 0x400000 \<le> unat a \<and> unat a + n \<le> 0x800000"

lemma kernel_range_page: "kernel_range a n \<Longrightarrow> x \<in> span a n \<Longrightarrow> drop_bit 22 x = 1"
  by (auto simp: kernel_range_def kernel_page in_span_interval simp del: in_span)

lemma kernel_range_bounds: "kernel_range a n \<Longrightarrow> a \<noteq> 0 \<and> n \<le> 0x400000"
  by (auto simp: kernel_range_def)

lemma commit_write_kernel:
  assumes maps: "mapped p s" and a: "kernel_range a (length bs)"
  defines "s' \<equiv> commit (write_bytes (kmem s) a bs) s"
  shows "drop_bit 22 x = 1 \<Longrightarrow> kmem s' x = write_bytes (kmem s) a bs x"
    and "read_bytes (kmem s') a (length bs) = bs"
    and "drop_bit 22 pa \<noteq> 1 \<Longrightarrow> pmem s' pa = pmem s pa"
proof -
  have n: "length bs \<le> 2 ^ 32" using kernel_range_bounds [OF a] by simp
  show k: "drop_bit 22 x = 1 \<Longrightarrow> kmem s' x = write_bytes (kmem s) a bs x" for x
    unfolding s'_def by (rule commit_kernel [OF maps])
  have "read_bytes (kmem s') a (length bs) = read_bytes (write_bytes (kmem s) a bs) a (length bs)"
    using n k [OF kernel_range_page [OF a]] by (intro read_bytes_cong) auto
  then show "read_bytes (kmem s') a (length bs) = bs" using n by (simp add: read_write_bytes)
  assume pa: "drop_bit 22 pa \<noteq> 1"
  show "pmem s' pa = pmem s pa"
    unfolding s'_def
  proof (rule commit_same)
    fix va assume "access s va = Some pa"
    then have "drop_bit 22 va \<noteq> 1" using mapped_access(1) [OF maps, of va] pa by auto
    then have "va \<notin> span a (length bs)" using kernel_range_page [OF a, of va] by auto
    then show "write_bytes (kmem s) a bs va = kmem s va" using n by (simp add: write_bytes_apply)
  qed
qed

text \<open>A store away from the file system leaves it as it was.\<close>

definition off_image :: "u32 \<Rightarrow> nat \<Rightarrow> 'a kernel_scheme \<Rightarrow> bool" where
  "off_image a n s \<longleftrightarrow> kernel_range a n \<and> apart a n (boot_block_ptr (kfs s)) (image_size (kmem s) (kfs s))"

lemma image_kept:
  assumes maps: "mapped p s" and mnt: "mounted s" and a: "off_image a (length bs) s"
  defines "s' \<equiv> commit (write_bytes (kmem s) a bs) s"
  assumes x: "x \<in> span (boot_block_ptr (kfs s)) (image_size (kmem s) (kfs s))"
  shows "kmem s' x = kmem s x"
proof -
  have r: "kernel_range a (length bs)" using a by (simp add: off_image_def)
  have "x \<notin> span a (length bs)" using a x unfolding off_image_def apart_def by blast
  then show ?thesis
    using commit_write_kernel(1) [OF maps r mounted_page [OF mnt x]] kernel_range_bounds [OF r]
    by (simp add: s'_def write_bytes_apply)
qed

definition same_image :: "'a kernel_scheme \<Rightarrow> 'a kernel_scheme \<Rightarrow> bool" where
  "same_image s s' \<longleftrightarrow> kfs s' = kfs s \<and>
     (\<forall>x \<in> span (boot_block_ptr (kfs s)) (image_size (kmem s) (kfs s)). kmem s' x = kmem s x)"

lemma same_image_kernel_page:
  "mounted s \<Longrightarrow> kfs s' = kfs s \<Longrightarrow> (\<And>x. drop_bit 22 x = 1 \<Longrightarrow> kmem s' x = kmem s x) \<Longrightarrow> same_image s s'"
  using mounted_page unfolding same_image_def by blast

lemma same_image_mounted:
  assumes img: "same_image s s'" and mnt: "mounted s"
  shows "mounted s'" and "image_size (kmem s') (kfs s') = image_size (kmem s) (kfs s)"
    and "inode_ok (kmem s) (kfs s) i \<Longrightarrow>
      inode_ok (kmem s') (kfs s') i \<and> file_bytes (kmem s') (kfs s') i = file_bytes (kmem s) (kfs s) i"
proof -
  have ok: "image_ok (kmem s) (kfs s)" using mnt by (simp add: mounted_def)
  have f: "kfs s' = kfs s" using img by (simp add: same_image_def)
  have same: "x \<in> span (boot_block_ptr (kfs s)) (image_size (kmem s) (kfs s)) \<Longrightarrow> kmem s' x = kmem s x" for x
    using img unfolding same_image_def by blast
  note img = image_cong [OF ok same]
  show "mounted s'" "image_size (kmem s') (kfs s') = image_size (kmem s) (kfs s)"
    using mnt f img by (simp_all add: mounted_def)
  assume i: "inode_ok (kmem s) (kfs s) i"
  show "inode_ok (kmem s') (kfs s') i \<and> file_bytes (kmem s') (kfs s') i = file_bytes (kmem s) (kfs s) i"
    using file_cong [OF ok i same] f by simp
qed

lemma same_image_trans: "same_image s s' \<Longrightarrow> same_image s' s'' \<Longrightarrow> mounted s \<Longrightarrow> same_image s s''"
  using same_image_mounted(2) [of s s'] by (simp add: same_image_def del: in_span)

subsection \<open>Looking up the program\<close>

text \<open>The directory as a table: the first entry with a given name.\<close>

definition dir_lookup :: "mem \<Rightarrow> fs \<Rightarrow> u8 list \<Rightarrow> dentry_t option" where
  "dir_lookup m f name = map_option (\<lambda>i. dentry_at m (dir_entry_addr f (of_nat i)))
     (find (\<lambda>i. entry_name m f i = name) [0..<unat (num_dir_entries m f)])"

lemma find_cong_set: "(\<And>x. x \<in> set xs \<Longrightarrow> P x = Q x) \<Longrightarrow> find P xs = find Q xs"
  by (induction xs) auto

lemma dir_lookup_cong:
  assumes ok: "image_ok m f" and small: "unat (num_dir_entries m f) \<le> 63"
    and same: "\<And>x. x \<in> span (boot_block_ptr f) (image_size m f) \<Longrightarrow> m' x = m x"
  shows "dir_lookup m' f name = dir_lookup m f name"
proof -
  have n: "num_dir_entries m' f = num_dir_entries m f" by (rule image_cong(1) [OF ok same])
  have entry: "m' x = m x" if "x \<in> span (dir_entry_addr f (of_nat i)) 64" "i < unat (num_dir_entries m f)" for x i
  proof (rule same)
    have "span (boot_block_ptr f + of_nat (64 + 64 * i)) 64 \<subseteq> span (boot_block_ptr f) (image_size m f)"
      using that(2) small ok by (intro span_sub) (simp_all add: image_size_def image_ok_def)
    then show "x \<in> span (boot_block_ptr f) (image_size m f)"
      using that(1) by (auto simp: dir_entry_addr_def add.assoc simp del: in_span)
  qed
  have part: "x \<in> span (dir_entry_addr f (of_nat i)) 64"
    if "x \<in> span (dir_entry_addr f (of_nat i) + of_nat d) k" "d + k \<le> 64" for x i d k
    using span_sub [OF that(2), of "dir_entry_addr f (of_nat i)"] that(1) by auto
  have run: "read_bytes m' (dir_entry_addr f (of_nat i) + of_nat d) k =
      read_bytes m (dir_entry_addr f (of_nat i) + of_nat d) k"
    if "i < unat (num_dir_entries m f)" "d + k \<le> 64" for i d k
    by (rule read_bytes_cong) (use entry [OF part [OF _ that(2)] that(1)] that(2) in simp_all)
  have load: "load32 m' (dir_entry_addr f (of_nat i) + of_nat d) = load32 m (dir_entry_addr f (of_nat i) + of_nat d)"
    if "i < unat (num_dir_entries m f)" "d + 4 \<le> 64" for i d
    by (rule load32_cong) (rule entry [OF part [OF _ that(2)] that(1)])
  have name: "entry_name m' f i = entry_name m f i" if "i < unat (num_dir_entries m f)" for i
    using run [OF that, of 0 32] by (simp add: entry_name_def)
  have dentry: "dentry_at m' (dir_entry_addr f (of_nat i)) = dentry_at m (dir_entry_addr f (of_nat i))"
    if "i < unat (num_dir_entries m f)" for i
    using run [OF that, of 0 32] load [OF that, of 32] load [OF that, of 36] run [OF that, of 40 24]
    by (simp add: dentry_at_def)
  have "find (\<lambda>i. entry_name m' f i = name) [0..<unat (num_dir_entries m f)] =
      find (\<lambda>i. entry_name m f i = name) [0..<unat (num_dir_entries m f)]"
    using name by (intro find_cong_set) simp
  then show ?thesis
    unfolding dir_lookup_def n using dentry
    by (auto simp: find_Some_iff intro!: option.map_cong split: option.splits)
qed

lemma parse_name_word:
  "parse_name cmd i acc = Some (j, name) \<Longrightarrow> word_chars acc \<Longrightarrow> word_chars name"
proof (induction cmd i acc rule: parse_name.induct)
  case (1 cmd i acc)
  from 1 show ?case by (subst (asm) (2) parse_name.simps) (auto simp: word_chars_def split: if_splits)
qed

lemma parse_args_length: "parse_args cmd i args j = Some (args', k) \<Longrightarrow> length args' = length args"
proof (induction cmd i args j rule: parse_args.induct)
  case (1 cmd i args j)
  from 1 show ?case by (subst (asm) (2) parse_args.simps) (auto split: if_splits)
qed

lemma parse_command_shape:
  assumes "parse_command args cmd = Parsed name args'"
  shows "word_chars name" and "length name < 32" and "length args' = length args"
  using assms parse_name_word [of cmd _ "[]"] parse_args_length [of cmd]
  by (auto simp: parse_command_def Let_def word_chars_def split: if_splits option.splits)

lemma program_lookup:
  assumes maps: "mapped p s" and mnt: "mounted s" and small: "unat (num_dir_entries (kmem s) (kfs s)) \<le> 63"
    and name: "word_chars name" "length name < 32" and a: "off_image a 32 s"
  defines "s' \<equiv> commit (write_bytes (kmem s) a (name @ [0])) s"
  shows "read_dentry_by_name (kmem s') (kfs s') a 1 = Some (dir_lookup (kmem s) (kfs s) name)"
    and "x \<in> span (boot_block_ptr (kfs s)) (image_size (kmem s) (kfs s)) \<Longrightarrow> kmem s' x = kmem s x"
    and "drop_bit 22 pa \<noteq> 1 \<Longrightarrow> pmem s' pa = pmem s pa"
proof -
  let ?bs = "name @ [0]"
  have off: "off_image a (length ?bs) s"
    using a name(2) unfolding off_image_def
    by (auto simp: kernel_range_def elim!: apart_mono)
  then have r: "kernel_range a (length ?bs)" by (simp add: off_image_def)
  show same: "kmem s' x = kmem s x" if "x \<in> span (boot_block_ptr (kfs s)) (image_size (kmem s) (kfs s))" for x
    unfolding s'_def by (rule image_kept [OF maps mnt off that])
  show "drop_bit 22 pa \<noteq> 1 \<Longrightarrow> pmem s' pa = pmem s pa"
    unfolding s'_def by (rule commit_write_kernel(3) [OF maps r])
  have "read_bytes (kmem s') a (length ?bs) = ?bs"
    unfolding s'_def by (rule commit_write_kernel(2) [OF maps r])
  then have "is_cstr (kmem s') a name"
    using name read_bytes_add [of "kmem s'" a "length name" 1]
    by (simp add: is_cstr_def word_chars_def read_bytes_Suc)
  then have "read_dentry_by_name (kmem s') (kfs s') a 1 = Some (dir_lookup (kmem s') (kfs s') name)"
    using read_dentry_lookup [of "kmem s'" a name 1 "kfs s'"] kernel_range_bounds [OF r] name(2)
    by (simp add: dir_lookup_def)
  moreover have "kfs s' = kfs s" by (simp add: s'_def)
  moreover have "image_ok (kmem s) (kfs s)" using mnt by (simp add: mounted_def)
  ultimately show "read_dentry_by_name (kmem s') (kfs s') a 1 = Some (dir_lookup (kmem s) (kfs s) name)"
    using dir_lookup_cong [OF _ small same] by simp
qed

lemma screen_ok_cong:
  assumes "cr0 s = cr0 s'" "page_directory s = page_directory s'" "page_table s = page_table s'"
    "user_video_page_table s = user_video_page_table s'"
    "page_table_addr s = page_table_addr s'"
    "user_video_page_table_addr s = user_video_page_table_addr s'"
    and "terminal s = terminal s'" "cur_terminal s = cur_terminal s'" "run_terminal s = run_terminal s'"
  shows "screen_ok s = screen_ok s'"
proof -
  have "video_at fr s = video_at fr s'" for fr
    using kernel_maps_cong [OF assms(2-6)] assms(1) by (simp add: video_at_def paging_on_def)
  moreover have "frame_of s = frame_of s'" using assms(8) by (simp add: frame_of_def fun_eq_iff)
  ultimately show ?thesis using assms(7-9) by (simp add: screen_ok_def)
qed

lemma screen_ok_kernel [simp]:
  "screen_ok (pcbs_update f s) = screen_ok s" "screen_ok (pid_bitmap_update g s) = screen_ok s"
  "screen_ok (schedule_update h s) = screen_ok s" "screen_ok (esp_reg_update j s) = screen_ok s"
  "screen_ok (ebp_reg_update j s) = screen_ok s" "screen_ok (tss_esp0_update j s) = screen_ok s"
  "screen_ok (tss_ss0_update k s) = screen_ok s" "screen_ok (interrupts_on_update l s) = screen_ok s"
  by (rule screen_ok_cong; simp)+

lemma screen_ok_commit [simp]: "screen_ok (commit m s) = screen_ok s"
  by (rule screen_ok_cong) (simp_all add: commit_def)

lemma screen_ok_update_pcb [simp]: "screen_ok (update_pcb a g s) = screen_ok s"
  by (simp add: update_pcb_def)

lemma screen_ok_map_process:
  assumes "screen_ok s" and "n < 6"
  shows "screen_ok (map_process n s)"
proof -
  have "video_at fr (map_process n s)" if "video_at fr s" for fr
    using that assms(2) map_process_maps [of _ _ fr s n]
    by (fastforce simp: video_at_def paging_on_def map_process_def flush_tlb_def set_pde_def)
  moreover have "terminal (map_process n s) = terminal s" "cur_terminal (map_process n s) = cur_terminal s"
    "run_terminal (map_process n s) = run_terminal s"
    by (simp_all add: map_process_def flush_tlb_def set_pde_def)
  ultimately show ?thesis using assms(1) by (simp add: screen_ok_def frame_of_def)
qed


lemma mapped_registers [simp]:
  "mapped p (esp_reg_update j s) = mapped p s" "mapped p (ebp_reg_update j s) = mapped p s"
  by (rule mapped_cong; simp)+

subsection \<open>Entering a program\<close>

lemma map_process_fields [simp]:
  "pmem (map_process n s) = pmem s" "run_terminal (map_process n s) = run_terminal s"
  "kfs (map_process n k) = kfs k" "pcbs (map_process n k) = pcbs k"
  "pid_bitmap (map_process n k) = pid_bitmap k" "schedule (map_process n k) = schedule k"
  "esp_reg (map_process n k) = esp_reg k" "ebp_reg (map_process n k) = ebp_reg k"
  by (simp_all add: map_process_def flush_tlb_def set_pde_def)

lemma new_process_fields:
  "pmem (new_process args i s) = pmem s" "kfs (new_process args i s) = kfs s"
  "pid_bitmap (new_process args i s) = (pid_bitmap s)[i := 1]"
  "schedule (new_process args i s) = take_slot (parent_of i s) (of_nat i) (schedule s)"
  "pcbs (new_process args i s) = (pcbs s)(get_pcb_ptr (int i) :=
     init_pcb (of_nat i) (parent_of i s) args (pcbs s (get_pcb_ptr (int i))))"
  "esp_reg (new_process args i s) = esp_reg s" "ebp_reg (new_process args i s) = ebp_reg s"
  by (simp_all add: new_process_def Let_def)

lemma new_process_screen: "mapped p s \<Longrightarrow> i < 6 \<Longrightarrow> screen_ok s \<Longrightarrow> screen_ok (new_process args i s)"
  unfolding new_process_def Let_def
  by (rule screen_ok_map_process) (simp_all add: word_less_nat_alt)

lemma new_process_mapped: "mapped p s \<Longrightarrow> i < 6 \<Longrightarrow> mapped (Some (of_nat i)) (new_process args i s)"
  unfolding new_process_def Let_def
  by (rule mapped_map_process [where p = p]) (simp_all add: word_less_nat_alt)

text \<open>What a program finds at its start: the part of its file that fits.\<close>

definition program_image :: "mem \<Rightarrow> fs \<Rightarrow> u32 \<Rightarrow> u8 list" where
  "program_image m f inode = take 0x3B8000 (file_bytes m f inode)"

lemma load_program_run:
  assumes maps: "mapped (Some n) s" and mnt: "mounted s" and ino: "inode_ok (kmem s) (kfs s) inode"
  defines "bs \<equiv> program_image (kmem s) (kfs s) inode"
  shows "read_bytes (kmem (load_program inode s)) USER_IMAGE (length bs) = bs"
    and "drop_bit 22 x = 1 \<Longrightarrow> kmem (load_program inode s) x = kmem s x"
    and "drop_bit 22 pa = 2 + k \<Longrightarrow> k < 6 \<Longrightarrow> k \<noteq> n \<Longrightarrow> pmem (load_program inode s) pa = pmem s pa"
proof -
  have "read_data (kmem s) (kfs s) inode 0 USER_IMAGE (of_int 0x3B8000) =
      (int (length bs), write_bytes (kmem s) USER_IMAGE bs)"
    using read_data_user [OF mnt ino, of USER_IMAGE "0x3B8000" 0]
    by (simp add: user_range_def bs_def program_image_def)
  then have eq: "load_program inode s = commit (write_bytes (kmem s) USER_IMAGE bs) s"
    by (simp add: load_program_def)
  have range: "user_range USER_IMAGE (length bs)"
    by (simp add: user_range_def bs_def program_image_def)
  show "read_bytes (kmem (load_program inode s)) USER_IMAGE (length bs) = bs"
    "drop_bit 22 x = 1 \<Longrightarrow> kmem (load_program inode s) x = kmem s x"
    unfolding eq by (rule commit_write_user [OF maps range])+
  show "drop_bit 22 pa = 2 + k \<Longrightarrow> k < 6 \<Longrightarrow> k \<noteq> n \<Longrightarrow> pmem (load_program inode s) pa = pmem s pa"
    unfolding eq by (rule commit_other_process [OF maps]) auto
qed

lemma load_program_fields:
  "pid_bitmap (load_program inode s) = pid_bitmap s" "schedule (load_program inode s) = schedule s"
  "pcbs (load_program inode s) = pcbs s" "kfs (load_program inode s) = kfs s"
  "esp_reg (load_program inode s) = esp_reg s" "ebp_reg (load_program inode s) = ebp_reg s"
  "mapped p (load_program inode s) = mapped p s" "screen_ok (load_program inode s) = screen_ok s"
  "run_terminal (load_program inode s) = run_terminal s"
  by (simp_all add: load_program_def)

text \<open>The state in which a program is entered.\<close>

definition entered :: "u8 list \<Rightarrow> u8 list \<Rightarrow> nat \<Rightarrow> 'a kernel_scheme \<Rightarrow> 'a kernel_scheme \<Rightarrow> bool" where
  "entered args bs i s s' \<longleftrightarrow>
     mapped (Some (of_nat i)) s' \<and>
     read_bytes (kmem s') USER_IMAGE (length bs) = bs \<and>
     (\<forall>k pa. k < 6 \<and> k \<noteq> i \<and> drop_bit 22 pa = 2 + of_nat k \<longrightarrow> pmem s' pa = pmem s pa) \<and>
     pid_bitmap s' = (pid_bitmap s)[i := 1] \<and>
     schedule s' = take_slot (parent_of i s) (of_nat i) (schedule s) \<and>
     pcbs s' = (pcbs s)(get_pcb_ptr (int i) :=
       (init_pcb (of_nat i) (parent_of i s) args (pcbs s (get_pcb_ptr (int i))))
         \<lparr>pcb_ebp := ebp_reg s, pcb_esp := esp_reg s\<rparr>) \<and>
     on_stack (int i) (tss_esp0 s') \<and>
     run_terminal s' = run_terminal s \<and> (screen_ok s \<longrightarrow> screen_ok s') \<and> same_image s s'"

lemma stack_top: "i < 6 \<Longrightarrow> on_stack (int i) (KERNEL_BOTTOM_ADDR - of_nat i * 0x2000 - 4)"
proof -
  assume "i < 6"
  then have "i = 0 \<or> i = 1 \<or> i = 2 \<or> i = 3 \<or> i = 4 \<or> i = 5" by arith
  then show ?thesis by (elim disjE) (simp_all add: on_stack_def)
qed

lemma launch_run:
  assumes maps: "mapped p s" and mnt: "mounted s" and ino: "inode_ok (kmem s) (kfs s) inode" and i: "i < 6"
  shows "\<exists>s'. launch args header inode i s = (Enter_user (header_entry header) (USER_STACK_ADDR - 4), s') \<and>
    entered args (program_image (kmem s) (kfs s) inode) i s s'"
proof -
  let ?s1 = "new_process args i s"
  have maps1: "mapped (Some (of_nat i)) ?s1" by (rule new_process_mapped [OF maps i])
  have kern: "\<forall>x. drop_bit 22 x = 1 \<longrightarrow> kmem ?s1 x = kmem s x"
    using kmem_kernel_page [OF maps] kmem_kernel_page [OF maps1] by (simp add: new_process_fields)
  note step = mounted_step [OF mnt new_process_fields(2) kern]
  have term1: "run_terminal ?s1 = run_terminal s" by (simp add: new_process_def Let_def)
  note screen1 = new_process_screen [OF maps i, of args]
  have img: "program_image (kmem ?s1) (kfs ?s1) inode = program_image (kmem s) (kfs s) inode"
    by (simp only: program_image_def step(3) [OF ino])
  note load = load_program_run [OF maps1 step(1) step(2) [OF ino], unfolded img]
  have k6: "(of_nat k :: u32) < 6" "k \<noteq> i \<Longrightarrow> (of_nat k :: u32) \<noteq> of_nat i" if "k < 6" for k
    using that i by (simp_all add: word_less_nat_alt of_nat_u32_eq_iff)
  let ?s' = "sti (update_pcb (get_pcb_ptr (int i)) (\<lambda>p. p\<lparr>pcb_ebp := ebp_reg s, pcb_esp := esp_reg s\<rparr>)
      ((load_program inode ?s1)\<lparr>tss_ss0 := 0x18, tss_esp0 := KERNEL_BOTTOM_ADDR - of_nat i * 0x2000 - 4\<rparr>))"
  have "launch args header inode i s = (Enter_user (header_entry header) (USER_STACK_ADDR - 4), ?s')"
    by (simp add: launch_def Let_def load_program_fields new_process_fields)
  moreover have "entered args (program_image (kmem s) (kfs s) inode) i s ?s'"
    unfolding entered_def
  proof (intro conjI allI impI)
    show "pmem ?s' pa = pmem s pa" if "k < 6 \<and> k \<noteq> i \<and> drop_bit 22 pa = 2 + of_nat k" for k pa
      using load(3) [of pa "of_nat k"] k6 that by (simp add: sti_def new_process_fields)
    show "on_stack (int i) (tss_esp0 ?s')"
      using stack_top [OF i] by (simp add: sti_def update_pcb_def)
    show "screen_ok ?s'" if "screen_ok s" using screen1 [OF that] by (simp add: sti_def load_program_fields)
    have "kmem ?s' x = kmem s x" if "drop_bit 22 x = 1" for x
      using load(2) [OF that] kern that by (simp add: sti_def)
    then show "same_image s ?s'"
      by (intro same_image_kernel_page [OF mnt]) (simp_all add: sti_def load_program_fields new_process_fields)
  qed (use load(1) maps1 term1 in \<open>simp_all add: sti_def load_program_fields new_process_fields\<close>)
  ultimately show ?thesis by blast
qed

subsection \<open>The whole call\<close>

lemma commit_tss [simp]: "tss_esp0 (commit m s) = tss_esp0 s"
  by (simp add: commit_def)

text \<open>A step that works in kernel memory away from the file system.\<close>

definition quiet :: "'a kernel_scheme \<Rightarrow> 'a kernel_scheme \<Rightarrow> bool" where
  "quiet s s' \<longleftrightarrow> tss_esp0 s' = tss_esp0 s \<and> pcbs s' = pcbs s \<and> pid_bitmap s' = pid_bitmap s \<and>
     schedule s' = schedule s \<and> esp_reg s' = esp_reg s \<and> ebp_reg s' = ebp_reg s \<and>
     (\<forall>p. mapped p s' = mapped p s) \<and> run_terminal s' = run_terminal s \<and> screen_ok s' = screen_ok s \<and>
     same_image s s' \<and> (\<forall>pa. drop_bit 22 pa \<noteq> 1 \<longrightarrow> pmem s' pa = pmem s pa)"

lemma quiet_store:
  assumes "mapped p s" and "mounted s" and a: "off_image a (length bs) s"
  shows "quiet s (commit (write_bytes (kmem s) a bs) s)"
proof -
  have "kernel_range a (length bs)" using a by (simp add: off_image_def)
  then show ?thesis
    using commit_write_kernel(3) [OF assms(1)] image_kept [OF assms]
    by (simp add: quiet_def same_image_def del: in_span)
qed

lemma off_image_le: "off_image a n s \<Longrightarrow> k \<le> n \<Longrightarrow> off_image a k s"
  by (auto simp: off_image_def kernel_range_def elim!: apart_mono)

lemma quiet_mounted:
  assumes "quiet s s'" and "mounted s"
  shows "mounted s'" and "off_image a n s' = off_image a n s"
    and "inode_ok (kmem s) (kfs s) i \<Longrightarrow>
      inode_ok (kmem s') (kfs s') i \<and> file_bytes (kmem s') (kfs s') i = file_bytes (kmem s) (kfs s) i"
proof -
  have img: "same_image s s'" using assms(1) by (simp add: quiet_def)
  note m = same_image_mounted [OF img assms(2)]
  show "mounted s'" by (rule m(1))
  show "off_image a n s' = off_image a n s" using m(2) img by (simp add: off_image_def same_image_def)
  show "inode_ok (kmem s) (kfs s) i \<Longrightarrow>
      inode_ok (kmem s') (kfs s') i \<and> file_bytes (kmem s') (kfs s') i = file_bytes (kmem s) (kfs s) i"
    by (rule m(3))
qed

lemma quiet_trans: "quiet s s' \<Longrightarrow> quiet s' s'' \<Longrightarrow> mounted s \<Longrightarrow> quiet s s''"
  unfolding quiet_def using same_image_trans by fastforce

lemma header_step:
  assumes maps: "mapped p s" and mnt: "mounted s" and ino: "inode_ok (kmem s) (kfs s) inode"
    and a: "off_image a 40 s"
  defines "bs \<equiv> take 40 (file_bytes (kmem s) (kfs s) inode)"
  shows "\<exists>m. read_data (kmem s) (kfs s) inode 0 a 40 = (int (length bs), m) \<and> quiet s (commit m s) \<and>
    read_bytes (kmem (commit m s)) a (length bs) = bs"
proof -
  have off: "off_image a (length bs) s" by (rule off_image_le [OF a]) (simp add: bs_def)
  have "kernel_range a 40" using a by (simp add: off_image_def)
  then have "read_data (kmem s) (kfs s) inode 0 a 40 = (int (length bs), write_bytes (kmem s) a bs)"
    using read_data_into [OF mnt ino, of a 40 0] a kernel_range_bounds
    by (simp add: bs_def off_image_def)
  moreover have "read_bytes (kmem (commit (write_bytes (kmem s) a bs) s)) a (length bs) = bs"
    using commit_write_kernel(2) [OF maps] off by (simp add: off_image_def)
  ultimately show ?thesis using quiet_store [OF maps mnt off] by blast
qed

text \<open>When the local arrays of \<^verbatim>\<open>execute\<close> and the file system are where they should be, and the
  contents of the first 40 bytes of a program.\<close>

definition can_execute :: "locals \<Rightarrow> 'a kernel_scheme \<Rightarrow> bool" where
  "can_execute l s \<longleftrightarrow> mounted s \<and> unat (num_dir_entries (kmem s) (kfs s)) \<le> 63 \<and>
     off_image (l_filename l) 32 s \<and> off_image (l_header l) 40 s"

definition program_header :: "'a kernel_scheme \<Rightarrow> dentry_t \<Rightarrow> u8 list" where
  "program_header s d = take 40 (file_bytes (kmem s) (kfs s) (inode_num d))"

definition free_pids :: "'a kernel_scheme \<Rightarrow> nat set" where
  "free_pids s = {i. i < 6 \<and> pid_bitmap s ! i = 0}"

lemma free_pid_least: "free_pid (pid_bitmap s) = Some i \<Longrightarrow> i = Min (free_pids s)"
  and free_pid_iff: "free_pid (pid_bitmap s) = None \<longleftrightarrow> free_pids s = {}"
proof -
  have "free_pids s = pids.free_slots (pid_bitmap s)" by (auto simp: free_pids_def pids.free_slots_def)
  then show "free_pid (pid_bitmap s) = Some i \<Longrightarrow> i = Min (free_pids s)"
    and "free_pid (pid_bitmap s) = None \<longleftrightarrow> free_pids s = {}"
    by (simp_all add: pids.alloc_least pids.alloc_iff)
qed

definition full_message :: "u8 list" where
  "full_message = message ''----------------------------------------------------''
     @ message ''|            Maximum process number reached        |''
     @ message ''----------------------------------------------------''"

text \<open>The call once the file was found: the first 40 bytes decide, then the process table.\<close>

lemma execute_cmd_found:
  assumes maps: "mapped p s" and ok: "can_execute l s"
    and parse: "parse_command (l_args l) cmd = Parsed name args"
    and d: "dir_lookup (kmem s) (kfs s) name = Some d" and ino: "inode_ok (kmem s) (kfs s) (inode_num d)"
  shows "\<exists>s2. quiet s s2 \<and> execute_cmd l cmd s =
    (if length (program_header s d) = 40 \<and> magic_ok (program_header s d)
     then (case free_pid (pid_bitmap s) of
         None \<Rightarrow> Some (Return (-1), put_string full_message s2)
       | Some i \<Rightarrow> Some (launch args (program_header s d) (inode_num d) i s2))
     else Some (Return (-1), s2))"
proof -
  have mnt: "mounted s" and small: "unat (num_dir_entries (kmem s) (kfs s)) \<le> 63"
    and off: "off_image (l_filename l) 32 s" "off_image (l_header l) 40 s"
    using ok by (simp_all add: can_execute_def)
  note name = parse_command_shape(1,2) [OF parse]
  define s1 where "s1 = commit (write_bytes (kmem s) (l_filename l) (name @ [0])) s"
  have q1: "quiet s s1"
    unfolding s1_def using name(2) by (intro quiet_store [OF maps mnt] off_image_le [OF off(1)]) simp
  have look: "read_dentry_by_name (kmem s1) (kfs s1) (l_filename l) 1 = Some (Some d)"
    unfolding s1_def program_lookup(1) [OF maps mnt small name off(1)] d ..
  note m1 = quiet_mounted [OF q1 mnt]
  have ino1: "inode_ok (kmem s1) (kfs s1) (inode_num d)"
    and file1: "file_bytes (kmem s1) (kfs s1) (inode_num d) = file_bytes (kmem s) (kfs s) (inode_num d)"
    using m1(3) [OF ino] by simp_all
  have maps1: "mapped p s1" using maps q1 by (simp add: quiet_def)
  define h where "h = program_header s d"
  obtain m where m: "read_data (kmem s1) (kfs s1) (inode_num d) 0 (l_header l) 40 = (int (length h), m)"
    and q2': "quiet s1 (commit m s1)"
    and hd2: "read_bytes (kmem (commit m s1)) (l_header l) (length h) = h"
    using header_step [OF maps1 m1(1) ino1, of "l_header l"] off(2) m1(2)
    unfolding file1 program_header_def [symmetric] h_def [symmetric] by auto
  define s2 where "s2 = commit m s1"
  have q2: "quiet s s2" unfolding s2_def by (rule quiet_trans [OF q1 q2' mnt])
  have "pid_bitmap s2 = pid_bitmap s" using q2 by (simp add: quiet_def)
  then have "execute_cmd l cmd s =
    (if length h = 40 \<and> magic_ok h
     then (case free_pid (pid_bitmap s) of
         None \<Rightarrow> Some (Return (-1), put_string full_message s2)
       | Some i \<Rightarrow> Some (launch args h (inode_num d) i s2))
     else Some (Return (-1), s2))"
    using look m hd2
    by (auto simp: execute_cmd_def parse Let_def full_message_def split: option.split simp flip: s1_def s2_def)
  with q2 show ?thesis unfolding h_def by blast
qed

lemma execute_cmd_run:
  assumes maps: "mapped p s" and ok: "can_execute l s"
    and parse: "parse_command (l_args l) cmd = Parsed name args"
    and d: "dir_lookup (kmem s) (kfs s) name = Some d" and ino: "inode_ok (kmem s) (kfs s) (inode_num d)"
    and header: "length (program_header s d) = 40" "magic_ok (program_header s d)"
    and i: "free_pid (pid_bitmap s) = Some i"
  shows "\<exists>s'. execute_cmd l cmd s =
      Some (Enter_user (header_entry (program_header s d)) (USER_STACK_ADDR - 4), s') \<and>
    entered args (program_image (kmem s) (kfs s) (inode_num d)) i s s'"
proof -
  have mnt: "mounted s" using ok by (simp add: can_execute_def)
  obtain s2 where q2: "quiet s s2"
    and run: "execute_cmd l cmd s = Some (launch args (program_header s d) (inode_num d) i s2)"
    using execute_cmd_found [OF maps ok parse d ino] header i by auto
  note m2 = quiet_mounted [OF q2 mnt]
  have maps2: "mapped p s2" using maps q2 by (simp add: quiet_def)
  have i6: "i < 6" using pids.alloc_Some [OF i] by simp
  have file2: "program_image (kmem s2) (kfs s2) (inode_num d) = program_image (kmem s) (kfs s) (inode_num d)"
    using m2(3) [OF ino] by (simp add: program_image_def)
  from launch_run [OF maps2 m2(1) _ i6, of "inode_num d" args "program_header s d"] m2(3) [OF ino]
  obtain s' where s': "launch args (program_header s d) (inode_num d) i s2 =
      (Enter_user (header_entry (program_header s d)) (USER_STACK_ADDR - 4), s')"
    "entered args (program_image (kmem s) (kfs s) (inode_num d)) i s2 s'"
    unfolding file2 by blast
  have "entered args (program_image (kmem s) (kfs s) (inode_num d)) i s s'"
    using s'(2) q2 frame_not_kernel same_image_trans [of s s2 s'] mnt
    by (auto simp: entered_def quiet_def parent_of_def get_pid_def word_less_nat_alt)
  with run s'(1) show ?thesis by simp
qed

text \<open>C2: starting a program.  A command whose first word names an executable file, with a free
  process number left, does not return: user mode is entered at the address in the file's
  header with the stack at the top of the 4 MB page.  The process gets the lowest free number;
  its page holds the file from the load address on; the pages of all other processes are as
  they were; its control block has the argument, the parent, the two open descriptors, the
  default handlers and the frame to return to; and the task state points to its own stack.\<close>

theorem execute_starts_program:
  assumes "mapped p s" and "can_execute l s" and "parse_command (l_args l) cmd = Parsed name args"
    and "dir_lookup (kmem s) (kfs s) name = Some d" and "inode_ok (kmem s) (kfs s) (inode_num d)"
    and "length (program_header s d) = 40" and "magic_ok (program_header s d)" and "free_pids s \<noteq> {}"
  shows "\<exists>s'. execute_cmd l cmd s =
      Some (Enter_user (header_entry (program_header s d)) (USER_STACK_ADDR - 4), s') \<and>
    entered args (program_image (kmem s) (kfs s) (inode_num d)) (Min (free_pids s)) s s'"
proof -
  obtain i where i: "free_pid (pid_bitmap s) = Some i"
    using assms(8) free_pid_iff [of s] by (cases "free_pid (pid_bitmap s)") auto
  from execute_cmd_run [OF assms(1-7) i] show ?thesis unfolding free_pid_least [OF i] .
qed

subsection \<open>Failures\<close>

lemma kernel_fields_more:
  fixes s s' :: "'a kernel_scheme"
  assumes "screen.more s' = screen.more s"
  shows "pcbs s' = pcbs s" "pid_bitmap s' = pid_bitmap s" "schedule s' = schedule s"
    "tss_ss0 s' = tss_ss0 s" "tss_esp0 s' = tss_esp0 s" "esp_reg s' = esp_reg s" "ebp_reg s' = ebp_reg s"
    "kfs s' = kfs s"
  using assms by (cases s; cases s'; simp)+

lemma same_tables_mapped: "same_tables s s' \<Longrightarrow> mapped p s' = mapped p s"
  by (rule mapped_cong) (simp_all add: same_tables_def)

lemma put_string_fields [simp]:
  "pcbs (put_string cs s) = pcbs s" "pid_bitmap (put_string cs s) = pid_bitmap s"
  "schedule (put_string cs s) = schedule s" "tss_ss0 (put_string cs s) = tss_ss0 s"
  "tss_esp0 (put_string cs s) = tss_esp0 s" "esp_reg (put_string cs s) = esp_reg s"
  "ebp_reg (put_string cs s) = ebp_reg s" "kfs (put_string cs s) = kfs s"
  "mapped p (put_string cs s') = mapped p s'"
  using kernel_fields_more [of "put_string cs s" s] tables.R_put_string [of s cs]
    same_tables_mapped [OF tables.R_put_string]
  by (simp_all add: same_tables_def)

lemma put_char_fields [simp]:
  "pcbs (putc c 0 s) = pcbs s" "pid_bitmap (putc c 0 s) = pid_bitmap s" "schedule (putc c 0 s) = schedule s"
  "esp_reg (putc c 0 s) = esp_reg s" "ebp_reg (putc c 0 s) = ebp_reg s" "kfs (putc c 0 s) = kfs s"
  "mapped p (putc c 0 s') = mapped p s'" "run_terminal (putc c 0 s') = run_terminal s'"
  using kernel_fields_more [of "putc c 0 s" s] tables.R_putc_run [of s c]
    same_tables_mapped [OF tables.R_putc_run]
  by (simp_all add: same_tables_def)

text \<open>C32: a command that does not start a program gives -1 whatever the reason (no word, a name
  that is too long or not in the directory, a file that is too short or has no magic number, no
  free process number) and leaves the process table, the control blocks, the schedule, the
  task state and the page tables as they were.\<close>

theorem execute_failure_keeps_processes:
  assumes "execute_cmd l cmd s = Some (Return r, s')"
  shows "r = -1 \<and> pcbs s' = pcbs s \<and> pid_bitmap s' = pid_bitmap s \<and> schedule s' = schedule s \<and>
    tss_esp0 s' = tss_esp0 s \<and> mapped p s' = mapped p s"
proof -
  have commit: "tss_esp0 (commit m t) = tss_esp0 t" for m and t :: "'a kernel_scheme"
    by (simp add: commit_def)
  show ?thesis
    using assms
    by (auto simp: execute_cmd_def Let_def launch_def commit split: parsed.splits option.splits
        bind_splits prod.splits if_splits)
qed

subsection \<open>Ending a program\<close>

definition own_pcb :: "nat \<Rightarrow> 'a kernel_scheme \<Rightarrow> pcb" where
  "own_pcb i s = pcbs s (get_pcb_ptr (int i))"

lemma halt_finish_run:
  assumes "mapped p s" and "parent_pid (pcbs s cur) < 6"
  shows "\<exists>s'. halt_finish ret cur s = (Resume (pcb_ebp (pcbs s cur)) (pcb_esp (pcbs s cur)) ret, s') \<and>
    mapped (Some (parent_pid (pcbs s cur))) s' \<and>
    on_stack (uint (parent_pid (pcbs s cur))) (tss_esp0 s') \<and>
    pid_bitmap s' = pid_bitmap s \<and> pmem s' = pmem s \<and> kfs s' = kfs s \<and>
    run_terminal s' = run_terminal s \<and> (screen_ok s \<longrightarrow> screen_ok s') \<and>
    pcbs s' = (pcbs s)(cur := close_all (pcbs s cur)) \<and>
    schedule s' = map (\<lambda>x. if word_of_int x = pcb_pid (pcbs s cur) then sint (parent_pid (pcbs s cur)) else x)
      (schedule s)"
proof -
  let ?p = "parent_pid (pcbs s cur)"
  have "mapped (Some ?p) (map_process ?p s)" if "mapped p s" for p and s :: "'a kernel_scheme"
    using that assms(2) by (rule mapped_map_process)
  from this [of p "(update_pcb cur close_all s)\<lparr>schedule := map (\<lambda>x. if word_of_int x = pcb_pid (pcbs s cur)
      then sint ?p else x) (schedule s)\<rparr>"] assms(1)
  have "mapped (Some ?p) (map_process ?p ((update_pcb cur close_all s)\<lparr>schedule :=
      map (\<lambda>x. if word_of_int x = pcb_pid (pcbs s cur) then sint ?p else x) (schedule s)\<rparr>))" by simp
  moreover have "screen_ok (map_process ?p ((update_pcb cur close_all s)\<lparr>schedule :=
      map (\<lambda>x. if word_of_int x = pcb_pid (pcbs s cur) then sint ?p else x) (schedule s)\<rparr>))" if "screen_ok s"
    using that assms(2) by (intro screen_ok_map_process) simp_all
  moreover have "on_stack (uint ?p) (KERNEL_BOTTOM_ADDR - ?p * 0x2000 - 4)"
    using u32_less_6 [OF assms(2)] by (elim disjE) (simp_all add: on_stack_def)
  ultimately show ?thesis by (simp add: halt_finish_def Let_def close_all_def cong: if_cong)
qed

lemma halt_child:
  assumes "mapped p s" and "screen_ok s" and "i \<in> {3, 4, 5}" and "on_stack (int i) (esp_reg s)"
    and "pcb_pid (own_pcb i s) = of_nat i" and "parent_pid (own_pcb i s) < 6"
  shows "\<exists>s'. halt l status s =
      Some (Resume (pcb_ebp (own_pcb i s)) (pcb_esp (own_pcb i s)) (if status = 1 then 256 else 0), s') \<and>
    pid_bitmap s' = (pid_bitmap s)[i := 0] \<and>
    (\<forall>d \<in> set (file_descriptor_array (own_pcb i s')). flags d \<noteq> 1) \<and>
    schedule s' = map (\<lambda>x. if word_of_int x = (of_nat i :: u32) then sint (parent_pid (own_pcb i s)) else x)
      (schedule s) \<and>
    mapped (Some (parent_pid (own_pcb i s))) s' \<and>
    on_stack (uint (parent_pid (own_pcb i s))) (tss_esp0 s') \<and>
    (\<forall>pa. 0x400000 \<le> unat pa \<longrightarrow> pmem s' pa = pmem s pa) \<and>
    pcbs s' = (pcbs s)(get_pcb_ptr (int i) := close_all (own_pcb i s)) \<and> screen_ok s' \<and>
    run_terminal s' = run_terminal s \<and> kfs s' = kfs s"
proof -
  let ?a = "get_pcb_ptr (int i)"
  let ?s = "(putc 10 0 s)\<lparr>pid_bitmap := (pid_bitmap s)[i := 0]\<rparr>"
  let ?ret = "if status = 1 then 255 + 1 else 0"
  have cur: "get_cur_pcb_ptr (putc 10 0 s) = ?a"
    using get_cur_pcb_ptr_on_stack [of "int i" "putc 10 0 s"] assms(3,4) by auto
  have "(of_nat i :: u32) \<notin> {0, 1, 2}" "unat (of_nat i :: u32) = i" using assms(3) by auto
  then have halt: "halt l status s = Some (halt_finish ?ret ?a ?s)"
    using assms(5) by (simp add: halt_def Let_def cur own_pcb_def)
  have "mapped p ?s" using assms(1) by simp
  from halt_finish_run [OF this, of ?a ?ret] assms(6)
  obtain s' where s': "halt_finish ?ret ?a ?s = (Resume (pcb_ebp (own_pcb i s)) (pcb_esp (own_pcb i s)) ?ret, s')"
    "mapped (Some (parent_pid (own_pcb i s))) s'" "on_stack (uint (parent_pid (own_pcb i s))) (tss_esp0 s')"
    "pid_bitmap s' = (pid_bitmap s)[i := 0]" "pmem s' = pmem (putc 10 0 s)"
    "pcbs s' = (pcbs s)(?a := close_all (own_pcb i s))"
    "schedule s' = map (\<lambda>x. if word_of_int x = pcb_pid (own_pcb i s) then sint (parent_pid (own_pcb i s)) else x)
      (schedule s)"
    "run_terminal s' = run_terminal s" "kfs s' = kfs s" "screen_ok (putc 10 0 s) \<longrightarrow> screen_ok s'"
    by (auto simp: own_pcb_def)
  have "\<forall>d \<in> set (file_descriptor_array (own_pcb i s')). flags d \<noteq> 1"
    using s'(6) by (auto simp: own_pcb_def close_all_def)
  moreover have "\<forall>pa. 0x400000 \<le> unat pa \<longrightarrow> pmem s' pa = pmem s pa"
    using s'(5) putc_memory [OF assms(2)] by simp
  ultimately show ?thesis using halt s' assms(5) putc_run_facts(1) [OF assms(2)] by simp
qed

text \<open>C3: ending a program that was started from a shell.  \<^verbatim>\<open>halt\<close> does not return to its caller:
  control goes to the frame that \<^verbatim>\<open>execute\<close> saved, with the value 256 for status 1 (the status
  the exception handlers use) and 0 for every other status.  The process number is free again,
  all descriptors are closed, the parent takes the place in the schedule, its page is mapped and
  the task state points to its stack; no program's memory changes.\<close>

theorem halt_returns_to_parent:
  assumes "mapped p s" and "screen_ok s" and "i \<in> {3, 4, 5}" and "on_stack (int i) (esp_reg s)"
    and "pcb_pid (own_pcb i s) = of_nat i" and "parent_pid (own_pcb i s) < 6"
  shows "\<exists>s'. halt l status s =
      Some (Resume (pcb_ebp (own_pcb i s)) (pcb_esp (own_pcb i s)) (if status = 1 then 256 else 0), s') \<and>
    pid_bitmap s' = (pid_bitmap s)[i := 0] \<and>
    (\<forall>d \<in> set (file_descriptor_array (own_pcb i s')). flags d \<noteq> 1) \<and>
    schedule s' = map (\<lambda>x. if word_of_int x = (of_nat i :: u32) then sint (parent_pid (own_pcb i s)) else x)
      (schedule s) \<and>
    mapped (Some (parent_pid (own_pcb i s))) s' \<and>
    on_stack (uint (parent_pid (own_pcb i s))) (tss_esp0 s') \<and>
    (\<forall>pa. 0x400000 \<le> unat pa \<longrightarrow> pmem s' pa = pmem s pa)"
  using halt_child [OF assms, of l status] by blast

lemma small_word_eq: "0 \<le> x \<Longrightarrow> x \<le> 5 \<Longrightarrow> k < 6 \<Longrightarrow> (word_of_int x :: u32) = of_nat k \<longleftrightarrow> x = int k"
proof -
  assume "0 \<le> x" "x \<le> 5" "k < 6"
  then have "word_of_int x = (of_nat (nat x) :: u32)" by simp
  moreover have "(of_nat (nat x) :: u32) = of_nat k \<longleftrightarrow> nat x = k"
    using \<open>x \<le> 5\<close> \<open>k < 6\<close> by (intro of_nat_u32_eq_iff) simp_all
  ultimately show ?thesis using \<open>0 \<le> x\<close> by auto
qed

lemma take_slot_back:
  assumes "set xs \<subseteq> {0..5}" and "distinct xs" and "int q \<in> set xs" and "int i \<notin> set xs" and "i < 6" and "q < 6"
  shows "map (\<lambda>x. if word_of_int x = (of_nat i :: u32) then sint (of_nat q :: u32) else x)
    (take_slot (of_nat q) (of_nat i) xs) = xs"
  using assms(1-4)
proof (induction xs)
  case (Cons x xs)
  have q: "sint (of_nat q :: u32) = int q" using assms(6) by (intro sint_of_nat_u32) simp
  have i: "uint (of_nat i :: u32) = int i" using assms(5) by (simp add: unsigned_of_nat take_bit_nat_eq_self)
  have keep: "map (\<lambda>x. if word_of_int x = (of_nat i :: u32) then sint (of_nat q :: u32) else x) ys = ys"
    if "set ys \<subseteq> {0..5}" "int i \<notin> set ys" for ys
    using that small_word_eq [of _ i] assms(5) by (intro map_idI) (auto dest!: subsetD)
  have x: "0 \<le> x" "x \<le> 5" using Cons.prems(1) by auto
  note xq = small_word_eq [OF x assms(6)] and xi = small_word_eq [OF x assms(5)]
  show ?case
  proof (cases "x = int q")
    case True
    then show ?thesis using keep [of xs] Cons.prems q i xq by simp
  next
    case False
    then have "take_slot (of_nat q) (of_nat i) (x # xs) = x # take_slot (of_nat q) (of_nat i) xs"
      using x xq by simp
    moreover have "x \<noteq> int i" using Cons.prems(4) by auto
    ultimately show ?thesis using Cons False xi by simp
  qed
qed simp


subsection \<open>A concrete run\<close>

text \<open>An image whose file, called shell, is an executable of 44 bytes with entry point 0x08048094, and a shell
  as process 0 with its siblings 1 and 2.\<close>

definition demo_program :: mem where
  "demo_program = (\<lambda>a. if a = 0x401000 then 44
     else if a = 0x403000 then 0x7F else if a = 0x403001 then 0x45
     else if a = 0x403002 then 0x4C else if a = 0x403003 then 0x46
     else if a = 0x403018 then 0x94 else if a = 0x403019 then 0x80
     else if a = 0x40301A then 0x04 else if a = 0x40301B then 0x08
     else if a = 0x400080 then 115 else if a = 0x400081 then 104 else if a = 0x400082 then 101
     else if a = 0x400083 then 108 else if a = 0x400084 then 108 else demo_image a)"

lemma demo_program_at:
  "demo_program a = (if a = 0x401000 then 44
     else if a = 0x403000 then 0x7F else if a = 0x403001 then 0x45
     else if a = 0x403002 then 0x4C else if a = 0x403003 then 0x46
     else if a = 0x403018 then 0x94 else if a = 0x403019 then 0x80
     else if a = 0x40301A then 0x04 else if a = 0x40301B then 0x08
     else if a = 0x400080 then 115 else if a = 0x400081 then 104 else if a = 0x400082 then 101
     else if a = 0x400083 then 108 else if a = 0x400084 then 108 else demo_image a)"
  by (simp add: demo_program_def)

lemma demo_program_counts:
  "num_dir_entries demo_program demo_fs = 2" "num_inodes demo_program demo_fs = 1"
  "num_data_blocks demo_program demo_fs = 2" "inode_length demo_program demo_fs 0 = 44"
  "image_size demo_program demo_fs = 16384"
  by (simp_all add: num_dir_entries_def num_inodes_def num_data_blocks_def inode_length_def
      inode_addr_def image_size_def load32_def demo_program_at demo_image_at demo_fs_simps)

lemma demo_program_ok: "image_ok demo_program demo_fs" "inode_ok demo_program demo_fs 0"
  by (auto simp: image_ok_def inode_ok_def demo_fs_simps demo_program_counts data_block_num_def
      inode_addr_def load32_def demo_program_at demo_image_at)

lemma demo_program_byte: "k < 44 \<Longrightarrow> file_bytes demo_program demo_fs 0 ! k = demo_program (0x403000 + of_nat k)"
  by (simp add: file_bytes_def demo_program_counts file_byte_def data_addr_def demo_fs_simps
      data_block_num_def inode_addr_def load32_def demo_program_at [of "0x401004"]
      demo_program_at [of "0x401005"] demo_program_at [of "0x401006"] demo_program_at [of "0x401007"] demo_image_at)

lemma demo_program_lookup:
  "dir_lookup demo_program demo_fs [115, 104, 101, 108, 108] = Some (dentry_at demo_program 0x400080)"
  "inode_num (dentry_at demo_program 0x400080) = 0"
proof -
  have "is_cstr demo_program 0x400040 [46]" "is_cstr demo_program 0x400080 [115, 104, 101, 108, 108]"
    by (simp_all add: is_cstr_def demo_program_at demo_image_at read_bytes_Suc)
  then have "entry_name demo_program demo_fs 0 = [46]" "entry_name demo_program demo_fs (Suc 0) = [115, 104, 101, 108, 108]"
    by (auto simp: entry_name_def dir_entry_addr_def demo_fs_simps dest: cstr_prefix [where n = 32])
  then show "dir_lookup demo_program demo_fs [115, 104, 101, 108, 108] = Some (dentry_at demo_program 0x400080)"
    by (simp add: dir_lookup_def demo_program_counts upt_rec dir_entry_addr_def demo_fs_simps)
qed (simp add: dentry_at_def load32_def demo_program_at demo_image_at)

definition demo_start :: kernel where
  "demo_start = boot_kernel\<lparr>pmem := demo_program, schedule := [0, 1, 2], pid_bitmap := [1, 1, 1, 0, 0, 0],
     esp_reg := 0x7FFF00, ebp_reg := 0x7FFF80\<rparr>"

definition demo_shell :: kernel where
  "demo_shell = map_process 0 (page_init demo_start)"

definition demo_locals :: locals where
  "demo_locals = \<lparr>l_args = replicate 128 9, l_filename = 0x7FFE00, l_header = 0x7FFE40\<rparr>"

lemma demo_shell_maps: "kernel_maps (Some 0) False 0xB8 demo_shell" "paging_on demo_shell"
proof -
  have "kernel_maps None False 0xB8 (page_init demo_start)"
    using page_init_maps [of demo_start] by (simp add: demo_start_def boot_kernel_def layout_ok_def)
  then show "kernel_maps (Some 0) False 0xB8 demo_shell"
    unfolding demo_shell_def by (rule map_process_maps) simp
  have "paging_on (page_init demo_start)" by simp
  then show "paging_on demo_shell"
    by (simp add: demo_shell_def paging_on_def map_process_def flush_tlb_def set_pde_def)
qed

lemma demo_shell_fields:
  "kfs demo_shell = demo_fs" "pmem demo_shell = demo_program" "pcbs demo_shell = (\<lambda>_. empty_pcb)"
  "esp_reg demo_shell = 0x7FFF00" "ebp_reg demo_shell = 0x7FFF80" "schedule demo_shell = [0, 1, 2]"
  "pid_bitmap demo_shell = [1, 1, 1, 0, 0, 0]" "terminal demo_shell = (\<lambda>_. demo_terminal)"
  "cur_terminal demo_shell = 0" "run_terminal demo_shell = 0"
proof -
  obtain d t where "clear_tables 1024 demo_start = demo_start\<lparr>page_directory := d, page_table := t\<rparr>"
    using clear_tables_shape by blast
  then show "kfs demo_shell = demo_fs" "pmem demo_shell = demo_program" "pcbs demo_shell = (\<lambda>_. empty_pcb)"
    "esp_reg demo_shell = 0x7FFF00" "ebp_reg demo_shell = 0x7FFF80" "schedule demo_shell = [0, 1, 2]"
    "pid_bitmap demo_shell = [1, 1, 1, 0, 0, 0]" "terminal demo_shell = (\<lambda>_. demo_terminal)"
    "cur_terminal demo_shell = 0" "run_terminal demo_shell = 0"
    by (simp_all add: demo_shell_def map_process_def flush_tlb_def page_init_def Let_def set_crs_def
        set_pde_def set_pte_def demo_start_def boot_kernel_def)
qed

lemma demo_shell_mapped: "mapped (Some 0) demo_shell"
  using demo_shell_maps by (auto simp: mapped_def)

lemma demo_shell_image:
  "x \<in> span (boot_block_ptr demo_fs) (image_size demo_program demo_fs) \<Longrightarrow> kmem demo_shell x = demo_program x"
proof -
  assume x: "x \<in> span (boot_block_ptr demo_fs) (image_size demo_program demo_fs)"
  then have "drop_bit 22 x = 1"
    by (simp add: kernel_page demo_fs_simps demo_program_counts in_span_interval del: in_span)
  then show ?thesis using kmem_kernel_page [OF demo_shell_mapped] by (simp add: demo_shell_fields)
qed

lemma demo_shell_program:
  "can_execute demo_locals demo_shell"
  "dir_lookup (kmem demo_shell) (kfs demo_shell) [115, 104, 101, 108, 108] = Some (dentry_at demo_program 0x400080)"
  "inode_ok (kmem demo_shell) (kfs demo_shell) 0"
  "file_bytes (kmem demo_shell) (kfs demo_shell) 0 = file_bytes demo_program demo_fs 0"
proof -
  note same = demo_shell_image
  note img = image_cong [OF demo_program_ok(1) same] and contents = file_cong [OF demo_program_ok same]
  have "off_image a n demo_shell" if "0x404000 \<le> unat a" "unat a + n \<le> 0x800000" for a n
  proof -
    have "apart a n 0x400000 16384" using that by (subst apart_sym, intro apart_below) simp_all
    then show ?thesis
      using that img by (simp add: off_image_def kernel_range_def demo_shell_fields demo_fs_simps demo_program_counts)
  qed
  then show "can_execute demo_locals demo_shell"
    using img by (simp add: can_execute_def mounted_def demo_shell_fields demo_program_counts demo_fs_simps
        demo_locals_def)
  show "dir_lookup (kmem demo_shell) (kfs demo_shell) [115, 104, 101, 108, 108] = Some (dentry_at demo_program 0x400080)"
    using dir_lookup_cong [OF demo_program_ok(1) _ same] demo_program_lookup
    by (simp add: demo_program_counts demo_shell_fields)
  show "inode_ok (kmem demo_shell) (kfs demo_shell) 0"
    "file_bytes (kmem demo_shell) (kfs demo_shell) 0 = file_bytes demo_program demo_fs 0"
    using contents by (simp_all add: demo_shell_fields)
qed

lemma demo_header:
  "length (program_header demo_shell (dentry_at demo_program 0x400080)) = 40"
  "magic_ok (program_header demo_shell (dentry_at demo_program 0x400080))"
  "header_entry (program_header demo_shell (dentry_at demo_program 0x400080)) = 0x08048094"
proof -
  have "program_header demo_shell (dentry_at demo_program 0x400080) = take 40 (file_bytes demo_program demo_fs 0)"
    by (simp add: program_header_def demo_program_lookup demo_shell_program)
  then show "length (program_header demo_shell (dentry_at demo_program 0x400080)) = 40"
    "magic_ok (program_header demo_shell (dentry_at demo_program 0x400080))"
    "header_entry (program_header demo_shell (dentry_at demo_program 0x400080)) = 0x08048094"
    by (simp_all add: demo_program_counts magic_ok_def header_entry_def demo_program_byte demo_program_at)
qed

lemma demo_parse: "parse_command (l_args demo_locals) [115, 104, 101, 108, 108] = Parsed [115, 104, 101, 108, 108] (0 # replicate 127 9)"
  using parse_command_run [of "[115, 104, 101, 108, 108]" "[]" "replicate 128 9" 0 "[]" 0]
  by (simp add: word_chars_def demo_locals_def)

theorem execute_starts_program_witness:
  "\<exists>s'. execute_cmd demo_locals [115, 104, 101, 108, 108] demo_shell = Some (Enter_user 0x08048094 0x83FFFFC, s') \<and>
    pid_bitmap s' = [1, 1, 1, 1, 0, 0] \<and> schedule s' = [3, 1, 2] \<and> parent_pid (own_pcb 3 s') = 0"
proof -
  have "free_pids demo_shell = {3, 4, 5}"
    by (auto simp: free_pids_def demo_shell_fields less_Suc_eq numeral_eq_Suc)
  then have m: "free_pids demo_shell \<noteq> {}" "Min (free_pids demo_shell) = 3" by simp_all
  have "get_pid demo_shell = 0"
    using get_pid_on_stack [of 0 demo_shell] by (simp add: on_stack_def demo_shell_fields)
  then show ?thesis
    using execute_starts_program [OF demo_shell_mapped demo_shell_program(1) demo_parse demo_shell_program(2)
        _ demo_header(1,2) m(1)]
    unfolding m(2) demo_header(3) demo_program_lookup(2)
    using demo_shell_program(3)
    by (auto simp: entered_def own_pcb_def init_pcb_def parent_of_def demo_shell_fields)
qed

theorem execute_failure_keeps_processes_witness:
  "\<exists>s'. execute_cmd demo_locals [32] demo_shell = Some (Return (-1), s') \<and> pid_bitmap s' = pid_bitmap demo_shell"
proof -
  have "parse_command (l_args demo_locals) [32] = Parse_error"
    using skip_spaces_run [of "[]" "[]" 1] by (simp add: parse_command_def)
  then have run: "execute_cmd demo_locals [32] demo_shell = Some (Return (-1), demo_shell)"
    by (simp add: execute_cmd_def)
  then show ?thesis using execute_failure_keeps_processes [OF run] by blast
qed

lemma demo_shell_screen: "screen_ok demo_shell"
proof -
  have "video_at 0xB8 demo_shell" using demo_shell_maps by (auto simp: video_at_def)
  then show ?thesis
    by (simp add: screen_ok_def demo_shell_fields frame_of_def demo_terminal_def cursor_ok_def)
qed

text \<open>The program after it was started, on its own stack.\<close>

definition demo_child :: "kernel \<Rightarrow> kernel" where
  "demo_child s' = demo_shell\<lparr>pcbs := pcbs s', pid_bitmap := pid_bitmap s', schedule := schedule s',
     esp_reg := 0x7F9F00\<rparr>"

lemma demo_child_ok:
  "mapped (Some 0) (demo_child s')" "screen_ok (demo_child s')" "on_stack (int 3) (esp_reg (demo_child s'))"
  "own_pcb 3 (demo_child s') = own_pcb 3 s'"
  using demo_shell_mapped demo_shell_screen
  by (simp_all add: demo_child_def on_stack_def own_pcb_def)

lemma demo_entered:
  "\<exists>s' bs. execute_cmd demo_locals [115, 104, 101, 108, 108] demo_shell = Some (Enter_user 0x08048094 0x83FFFFC, s') \<and>
    entered (0 # replicate 127 9) bs 3 demo_shell s'"
proof -
  have "free_pid (pid_bitmap demo_shell) = Some 3"
    by (simp add: free_pid_def demo_shell_fields upt_rec)
  then show ?thesis
    using execute_cmd_run [OF demo_shell_mapped demo_shell_program(1) demo_parse demo_shell_program(2)
        _ demo_header(1,2)]
    unfolding demo_header(3) demo_program_lookup(2)
    using demo_shell_program(3) by auto
qed

theorem halt_returns_to_parent_witness:
  "\<exists>s' t. halt demo_locals 1 (demo_child s') = Some (Resume 0x7FFF80 0x7FFF00 256, t) \<and>
    pid_bitmap t = [1, 1, 1, 0, 0, 0]"
proof -
  obtain s' bs where s': "entered (0 # replicate 127 9) bs 3 demo_shell s'" using demo_entered by blast
  have "get_pid demo_shell = 0"
    using get_pid_on_stack [of 0 demo_shell] by (simp add: on_stack_def demo_shell_fields)
  then have own: "pcb_pid (own_pcb 3 s') = 3" "parent_pid (own_pcb 3 s') = 0"
    "pcb_ebp (own_pcb 3 s') = 0x7FFF80" "pcb_esp (own_pcb 3 s') = 0x7FFF00"
    "pid_bitmap s' = [1, 1, 1, 1, 0, 0]"
    using s' by (simp_all add: entered_def own_pcb_def init_pcb_def parent_of_def demo_shell_fields)
  have "pid_bitmap (demo_child s') = [1, 1, 1, 1, 0, 0]" by (simp add: demo_child_def own)
  with halt_returns_to_parent [OF demo_child_ok(1,2) _ demo_child_ok(3), of s' demo_locals 1]
  have "\<exists>t. halt demo_locals 1 (demo_child s') = Some (Resume 0x7FFF80 0x7FFF00 256, t) \<and>
      pid_bitmap t = [1, 1, 1, 0, 0, 0]"
    by (auto simp: demo_child_ok(4) own)
  then show ?thesis by blast
qed


end
