(* ===== verification/Services.thy ===== *)
theory Services
  imports Exec
begin

text \<open>
  The remaining calls of \<^verbatim>\<open>system_calls.c\<close> that a program makes about itself: \<^verbatim>\<open>getargs\<close>,
  \<^verbatim>\<open>vidmap\<close> and \<^verbatim>\<open>set_handler\<close>.
\<close>

subsection \<open>The argument string\<close>

lemma args_length_terminated:
  assumes "0 \<notin> set arg"
  shows "args_length (arg @ 0 # junk) = Some (length arg)"
proof -
  have "find (\<lambda>i. (arg @ 0 # junk) ! i = 0) [0..<length (arg @ 0 # junk)] = Some (length arg)"
  proof (subst find_Some_iff, intro exI conjI allI impI)
    fix j assume "j < length arg"
    then have "arg ! j \<noteq> 0" using assms by (metis nth_mem)
    with \<open>j < length arg\<close> show "(arg @ 0 # junk) ! ([0..<length (arg @ 0 # junk)] ! j) \<noteq> 0"
      by (simp add: nth_append del: upt_Suc)
  qed (simp_all add: nth_append del: upt_Suc)
  then show ?thesis by (simp add: args_length_def del: upt_Suc)
qed

lemma user_range_signed:
  assumes "user_range buf n"
  shows "sint USER_ADDR \<le> sint buf" and "sint buf \<le> sint USER_STACK_ADDR"
proof -
  have n: "unat buf \<le> 0x8400000" "0x8000000 \<le> unat buf" using assms by (auto simp: user_range_def)
  have "uint buf = int (unat buf)" by (simp only: unat_eq_nat_uint) simp
  with n have "uint buf \<le> 0x8400000" "0x8000000 \<le> uint buf" by linarith+
  moreover from this have "sint buf = uint buf" by (intro sint_small) simp
  moreover have "sint USER_ADDR = 0x8000000" "sint USER_STACK_ADDR = 0x8400000"
    by (simp_all add: sint_small)
  ultimately show "sint USER_ADDR \<le> sint buf" "sint buf \<le> sint USER_STACK_ADDR" by linarith+
qed

text \<open>\<^verbatim>\<open>getargs\<close> on the array that \<^verbatim>\<open>execute\<close> stored.  It fails for an empty argument and for
  a buffer shorter than the argument; otherwise the whole buffer is filled: with the argument,
  its terminating zero byte if there is room for it, and then with whatever follows in kernel
  memory, past the end of the array when the buffer is larger than 128 bytes.\<close>

theorem getargs_copies_argument:
  assumes "mapped (Some p) s" and "user_range buf (nat n)" and "0 < n"
    and "pcb_args (cur_pcb s) = arg @ 0 # junk" and "0 \<notin> set arg" and "nat n \<le> length (arg @ 0 # junk @ beyond)"
  shows "\<exists>r s'. getargs beyond buf n s = Some (r, s') \<and>
    (if arg = [] \<or> n < int (length arg) then r = -1 \<and> s' = s
     else r = 0 \<and> read_bytes (kmem s') buf (nat n) = take (nat n) (arg @ 0 # junk @ beyond))"
proof -
  note len = args_length_terminated [OF assms(5), of junk] and sg = user_range_signed [OF assms(2)]
  have buf0: "buf \<noteq> 0" using user_range_bounds [OF assms(2)] by simp
  have hd: "hd (arg @ 0 # junk) = 0 \<longleftrightarrow> arg = []" using assms(5) by (cases arg) auto
  define bs where "bs = take (nat n) ((arg @ 0 # junk) @ beyond)"
  have "length bs = nat n" using assms(6) by (simp add: bs_def)
  with commit_write_user(1) [OF assms(1), of buf bs] assms(2)
  have "read_bytes (kmem (commit (write_bytes (kmem s) buf bs) s)) buf (nat n) = bs" by simp
  moreover have "bs = take (nat n) (arg @ 0 # junk @ beyond)" by (simp add: bs_def)
  ultimately show ?thesis
    using sg buf0 assms(3) hd len by (auto simp: getargs_def Let_def assms(4) simp flip: bs_def simp del: take_append)
qed

definition demo_args :: kernel where
  "demo_args = update_pcb 0x7FA000 (\<lambda>p. p\<lparr>pcb_args := [102, 48] @ 0 # replicate 125 9\<rparr>) demo_running"

theorem getargs_copies_argument_witness:
  "\<exists>s'. getargs [7, 7] 0x8048000 130 demo_args = Some (0, s') \<and>
    read_bytes (kmem s') 0x8048000 130 = [102, 48, 0] @ replicate 125 9 @ [7, 7]"
proof -
  have cur: "get_cur_pcb_ptr demo_args = 0x7FA000" by (simp add: demo_args_def demo_running_files)
  have maps: "mapped (Some 2) demo_args" using demo_running_maps by (simp add: demo_args_def)
  have args: "pcb_args (cur_pcb demo_args) = [102, 48] @ 0 # replicate 125 9"
    unfolding cur by (simp add: demo_args_def)
  from getargs_copies_argument [OF maps _ _ args, of "0x8048000" 130 "[7, 7]"]
  show ?thesis by (auto simp: user_range_def)
qed

subsection \<open>Video memory\<close>

lemma walk_user_video:
  assumes maps: "kernel_maps (Some p) True fr s" and "p < 6" and "user_video_page_table s 0 \<noteq> 0" and "k < 4096"
  shows "translate_user s (USER_VIDEO_ADDR + of_nat k) = Some (cell fr k)"
proof -
  let ?va = "USER_VIDEO_ADDR + of_nat k :: u32"
  have va: "?va = push_bit 12 0x8800 OR take_bit 12 (of_nat k)"
    unfolding frame_plus_offset using assms(4) by (simp add: take_bit_12_of_nat)
  have "drop_bit 12 ?va = 0x8800" unfolding va by (rule drop_bit_frame) simp
  moreover have "drop_bit 22 ?va = drop_bit 10 (drop_bit 12 ?va)" by simp
  moreover have "take_bit 12 ?va = of_nat k"
    unfolding va using assms(4) by (simp add: take_bit_or take_bit_push_bit take_bit_12_of_nat)
  ultimately show ?thesis
    using walk_kernel_maps [OF maps, of True ?va] assms(2,3) frame_plus_offset [of fr ?va]
    by (simp add: cell_def del: drop_bit_drop_bit)
qed

text \<open>C31: \<^verbatim>\<open>vidmap\<close> gives the program the screen of its own terminal: the pointer it stores is
  mapped, for user mode, to the frame the terminal's output goes to, and nothing outside the
  page of the program and that frame becomes reachable.\<close>

theorem vidmap_maps_own_screen:
  assumes "kernel_maps (Some p) v fr s" and "paging_on s" and "p < 6" and "user_video_page_table s 0 \<noteq> 0"
    and "user_range ptr 4" and "k < 4096"
  shows "\<exists>s'. vidmap ptr s = (0, s') \<and> load32 (kmem s') ptr = USER_VIDEO_ADDR \<and>
    translate_user s' (USER_VIDEO_ADDR + of_nat k) = Some (cell fr k) \<and>
    kernel_maps (Some p) True fr s'"
proof -
  let ?s = "map_user_video s"
  let ?s' = "commit (store32 (kmem ?s) ptr USER_VIDEO_ADDR) ?s"
  have maps: "kernel_maps (Some p) True fr ?s" by (rule map_user_video_maps [OF assms(1)])
  have ptr: "ptr \<noteq> 0" "\<not> ptr < USER_ADDR" "\<not> USER_STACK_ADDR < ptr"
    using assms(5) by (auto simp: user_range_def word_less_nat_alt)
  then have "vidmap ptr s = (0, ?s')" by (simp add: vidmap_def Let_def)
  moreover have "mapped (Some p) ?s"
    using maps assms(2,3) by (auto simp: mapped_def paging_on_def map_user_video_def flush_tlb_def set_pde_def)
  then have "load32 (kmem ?s') ptr = load32 (store32 (kmem ?s) ptr USER_VIDEO_ADDR) ptr"
    using user_range_page [OF assms(5)] commit_user by (intro load32_cong) blast
  then have "load32 (kmem ?s') ptr = USER_VIDEO_ADDR" by (simp add: load_store32)
  moreover have k: "kernel_maps (Some p) True fr ?s'"
    using maps kernel_maps_cong [of ?s' ?s] by (simp add: commit_def)
  moreover have "user_video_page_table ?s' 0 \<noteq> 0"
    using assms(4) by (simp add: commit_def map_user_video_def flush_tlb_def set_pde_def)
  then have "translate_user ?s' (USER_VIDEO_ADDR + of_nat k) = Some (cell fr k)"
    by (rule walk_user_video [OF k assms(3) _ assms(6)])
  ultimately show ?thesis by blast
qed

definition demo_vidmap :: kernel where
  "demo_vidmap = memory_switch 0 demo_shell"

theorem vidmap_maps_own_screen_witness:
  "\<exists>s'. vidmap 0x8050000 demo_vidmap = (0, s') \<and> load32 (kmem s') 0x8050000 = 0x8800000 \<and>
    translate_user s' (0x8800000 + of_nat 4) = Some (cell 0xB8 4)"
proof -
  have "kernel_maps (Some 0) False 0xB8 demo_vidmap"
    using memory_switch_maps [OF demo_shell_maps(1), of 0]
    by (simp add: demo_vidmap_def frame_of_def demo_shell_fields)
  moreover have "paging_on demo_vidmap"
    using demo_shell_maps(2)
    by (simp add: demo_vidmap_def memory_switch_def Let_def set_pte_def set_user_pte_def flush_tlb_def paging_on_def)
  moreover have "pde_word 0xB8 0 0 1 \<noteq> 0" by (metis get_bits_0 pde_word_bits(1) zero_neq_one)
  then have "user_video_page_table demo_vidmap 0 \<noteq> 0"
    by (simp add: demo_vidmap_def memory_switch_def Let_def set_pte_def set_user_pte_def flush_tlb_def
        demo_shell_fields pte_fields_word)
  ultimately show ?thesis
    using vidmap_maps_own_screen [of 0 False "0xB8" demo_vidmap "0x8050000" 4]
    by (auto simp: user_range_def)
qed

subsection \<open>Signal handlers\<close>

text \<open>\<^verbatim>\<open>set_handler\<close> for signals 0 to 4 installs the given address and returns 0, for every
  address: a null pointer, which is meant to restore the default action, is installed as the
  handler too.  Other signal numbers give -1 and change nothing.\<close>

theorem set_handler_installs_null:
  assumes "length (signals (cur_pcb s)) = 5"
  shows "if signum \<in> {0..4}
    then \<exists>s'. set_handler signum addr s = (0, s') \<and>
      map handler (signals (cur_pcb s')) = (map handler (signals (cur_pcb s)))[nat signum := User_handler addr]
    else set_handler signum addr s = (-1, s)"
proof (cases "signum \<in> {0..4}")
  case True
  then have n: "nat signum < 5" "\<not> (signum < 0 \<or> 4 < signum)" by auto
  let ?cur = "get_cur_pcb_ptr s"
  have "\<exists>s' h. set_handler signum addr s =
      (0, update_pcb ?cur (set_signal (nat signum) (User_handler addr)) s') \<and>
      get_cur_pcb_ptr s' = ?cur \<and>
      signals (pcbs s' ?cur) = (signals (cur_pcb s))[nat signum := (signals (cur_pcb s) ! nat signum)\<lparr>handler := h\<rparr>]"
  proof -
    have same: "signals (cur_pcb s) = (signals (cur_pcb s))[nat signum := (signals (cur_pcb s) ! nat signum)
        \<lparr>handler := handler (signals (cur_pcb s) ! nat signum)\<rparr>]" by simp
    consider "addr \<noteq> 0" | "addr = 0" "signum \<in> {0, 1, 2}" | "addr = 0" "signum \<in> {3, 4}"
      using True by fastforce
    then show ?thesis
    proof cases
      case 1
      with n same show ?thesis by (intro exI [of _ s] exI [of _ "handler (signals (cur_pcb s) ! nat signum)"])
          (simp add: set_handler_def Let_def)
    next
      case 2
      with n show ?thesis
        by (intro exI [of _ "update_pcb ?cur (set_signal (nat signum) KILL_handler) s"] exI [of _ KILL_handler])
          (auto simp: set_handler_def Let_def set_signal_def)
    next
      case 3
      with n show ?thesis
        by (intro exI [of _ "update_pcb ?cur (set_signal (nat signum) IGNORE_handler) s"] exI [of _ IGNORE_handler])
          (auto simp: set_handler_def Let_def set_signal_def)
    qed
  qed
  then show ?thesis using True n assms by (auto simp: set_signal_def map_update)
next
  case False
  then show ?thesis by (auto simp: set_handler_def Let_def)
qed

theorem set_handler_installs_null_witness:
  "handler (signals (cur_pcb (snd (set_handler 0 0 boot_kernel))) ! 0) = User_handler 0"
proof -
  have sig: "signals (cur_pcb boot_kernel) = replicate 5 \<lparr>sig_flag = 0, sig_mask = 0, handler = IGNORE_handler\<rparr>"
    by (simp add: boot_kernel_def empty_pcb_def)
  then obtain s' where s': "set_handler 0 0 boot_kernel = (0, s')"
    "map handler (signals (cur_pcb s')) = (map handler (signals (cur_pcb boot_kernel)))[0 := User_handler 0]"
    using set_handler_installs_null [of boot_kernel 0 0] by auto
  have "length (map handler (signals (cur_pcb s'))) = 5" unfolding s'(2) using sig by simp
  then have "handler (signals (cur_pcb s') ! 0) = map handler (signals (cur_pcb s')) ! 0" by simp
  then show ?thesis using s' sig by simp
qed

end
