(* ===== verification/Scheduler.thy ===== *)
theory Scheduler
  imports Services
begin

text \<open>
  The scheduler: \<^verbatim>\<open>pit_handler\<close> of \<^verbatim>\<open>mp3/student-distrib/pit.c\<close>.  On every timer interrupt the
  kernel leaves the frame of the running process in its control block, goes on to the next of
  the three terminals and continues the process scheduled there, or starts a shell on a
  terminal that has none yet.  The value is how the handler ends: in the frame that was saved
  for the next process, or by entering a fresh shell.
\<close>

datatype dispatch = Continue u32 | Started control

text \<open>The handler from the mapping of the next process on.\<close>

definition pit_switch :: "int \<Rightarrow> 'a kernel_scheme \<Rightarrow> dispatch \<times> 'a kernel_scheme" where
  "pit_switch new_pid s =
     (let s = map_process (word_of_int new_pid) s;
          s = memory_switch (run_terminal s) s;
          s = s\<lparr>tss_ss0 := 0x18, tss_esp0 := get_pcb_ptr (new_pid - 1) - 4\<rparr>
      in (Continue (run_ebp (pcbs s (get_pcb_ptr new_pid))), s))"

text \<open>The handler up to the choice of the next process: the frame of the interrupted one is
  saved, and the next terminal's turn begins.\<close>

definition pit_save :: "'a kernel_scheme \<Rightarrow> 'a kernel_scheme" where
  "pit_save s =
     (let s = send_eoi 0 s;
          cur = get_cur_pcb_ptr s;
          s = update_pcb cur (\<lambda>p. p\<lparr>run_ebp := ebp_reg s\<rparr>) s
      in s\<lparr>run_terminal := (run_terminal s + 1) smod 3\<rparr>)"

definition pit_handler :: "locals \<Rightarrow> 'a kernel_scheme \<Rightarrow> (dispatch \<times> 'a kernel_scheme) option" where
  "pit_handler l s =
     (let s = pit_save s;
          new_pid = schedule s ! nat (run_terminal s)
      in if new_pid = -1 then do {
           let s = memory_switch (run_terminal s) s;
           (c, s) \<leftarrow> execute_cmd l (map of_char ''shell'') s;
           case c of Return r \<Rightarrow> Some (pit_switch new_pid s) | _ \<Rightarrow> Some (Started c, s)
         }
         else Some (pit_switch new_pid s))"

subsection \<open>Switching processes\<close>

lemma next_terminal: "(t :: int) \<in> {0, 1, 2} \<Longrightarrow> (t + 1) smod 3 = (t + 1) mod 3"
  by (auto simp: signed_modulo_int_def)

lemma send_eoi_shape: "\<exists>l. send_eoi n s = s\<lparr>io := l\<rparr>"
  by (auto simp: send_eoi_def outb_def Let_def intro: exI [of _ "io s"])

lemma memory_switch_shape:
  "\<exists>t u tl. memory_switch i s = s\<lparr>page_table := t, user_video_page_table := u, tlb_stale := tl\<rparr>"
  by (auto simp: memory_switch_def Let_def set_pte_def set_user_pte_def flush_tlb_def)

lemma memory_switch_kernel [simp]:
  "pcbs (memory_switch i s) = pcbs s" "pid_bitmap (memory_switch i s) = pid_bitmap s"
  "schedule (memory_switch i s) = schedule s" "kfs (memory_switch i s) = kfs s"
  "esp_reg (memory_switch i s) = esp_reg s" "ebp_reg (memory_switch i s) = ebp_reg s"
  "get_pid (memory_switch i s) = get_pid s"
  by (simp_all add: memory_switch_def Let_def set_pte_def set_user_pte_def flush_tlb_def get_pid_def)

text \<open>What every state of the kernel has: terminals in range, cursors on the screen, and some
  video frame mapped.\<close>

definition console_ok :: "'a screen_scheme \<Rightarrow> bool" where
  "console_ok s \<longleftrightarrow> cur_terminal s \<in> {0, 1, 2} \<and> run_terminal s \<in> {0, 1, 2} \<and>
     (\<forall>t \<in> {0, 1, 2}. cursor_ok (terminal s t))"

lemma memory_switch_screen:
  assumes "mapped p s" and "console_ok s"
  shows "screen_ok (memory_switch (run_terminal s) s)" and "mapped p (memory_switch (run_terminal s) s)"
proof -
  obtain v fr where maps: "kernel_maps p v fr s" "\<And>n. p = Some n \<Longrightarrow> n < 6" and on: "paging_on s"
    using assms(1) by (auto simp: mapped_def)
  have t: "run_terminal s \<in> {0, 1, 2}" using assms(2) by (simp add: console_ok_def)
  have "video_at fr s" using maps on by (auto simp: video_at_def)
  from memory_switch_video_at [OF this t] assms(2)
  show "screen_ok (memory_switch (run_terminal s) s)" by (simp add: screen_ok_def console_ok_def)
  from memory_switch_maps [OF maps(1) t] maps(2) on
  show "mapped p (memory_switch (run_terminal s) s)" by (auto simp: mapped_def paging_on_def)
qed

lemma stack_below: "0 \<le> n \<Longrightarrow> n < 6 \<Longrightarrow> on_stack n (get_pcb_ptr (n - 1) - 4)"
proof -
  assume "0 \<le> n" "n < 6"
  then have "n = 0 \<or> n = 1 \<or> n = 2 \<or> n = 3 \<or> n = 4 \<or> n = 5" by auto
  then show ?thesis by (elim disjE) (simp_all add: on_stack_def get_pcb_ptr_def)
qed

text \<open>The state in which process \<open>n\<close> goes on: its page, its screen and its kernel stack are in
  place, and memory, the control blocks and the tables are as before.\<close>

definition switched_to :: "int \<Rightarrow> 'a kernel_scheme \<Rightarrow> 'a kernel_scheme \<Rightarrow> bool" where
  "switched_to n s s' \<longleftrightarrow> mapped (Some (word_of_int n)) s' \<and> screen_ok s' \<and> on_stack n (tss_esp0 s') \<and>
     run_terminal s' = run_terminal s \<and> pmem s' = pmem s \<and> pcbs s' = pcbs s \<and> kfs s' = kfs s \<and>
     pid_bitmap s' = pid_bitmap s \<and> schedule s' = schedule s"

lemma pit_switch_run:
  assumes "mapped p s" and "console_ok s" and n: "0 \<le> n" "n < 6"
  shows "\<exists>s'. pit_switch n s = (Continue (run_ebp (pcbs s (get_pcb_ptr n))), s') \<and> switched_to n s s'"
proof -
  let ?s1 = "map_process (word_of_int n) s"
  let ?s2 = "memory_switch (run_terminal ?s1) ?s1"
  let ?s3 = "?s2\<lparr>tss_ss0 := 0x18, tss_esp0 := get_pcb_ptr (n - 1) - 4\<rparr>"
  have "(word_of_int n :: u32) = of_nat (nat n)" using n by simp
  moreover have "nat n < 6" using n by simp
  ultimately have "(word_of_int n :: u32) < 6" by (simp add: word_less_nat_alt)
  with assms(1) have maps1: "mapped (Some (word_of_int n)) ?s1" by (rule mapped_map_process)
  have "console_ok ?s1" using assms(2) by (simp add: console_ok_def map_process_def flush_tlb_def set_pde_def)
  note sw = memory_switch_screen [OF maps1 this]
  have "switched_to n s ?s3"
    using sw stack_below [OF n] by (simp add: switched_to_def)
  then show ?thesis by (simp add: pit_switch_def Let_def)
qed

lemma pit_save_fields:
  fixes s :: "'a kernel_scheme"
  assumes "run_terminal s \<in> {0, 1, 2}"
  shows "run_terminal (pit_save s) = (run_terminal s + 1) mod 3"
    "pcbs (pit_save s) = (pcbs s)(get_cur_pcb_ptr s := (cur_pcb s)\<lparr>run_ebp := ebp_reg s\<rparr>)"
    "pid_bitmap (pit_save s) = pid_bitmap s" "schedule (pit_save s) = schedule s"
    "pmem (pit_save s) = pmem s" "kfs (pit_save s) = kfs s" "kmem (pit_save s) = kmem s"
    "mapped p (pit_save s) = mapped p s" "console_ok s \<Longrightarrow> console_ok (pit_save s)"
    "esp_reg (pit_save s) = esp_reg s" "ebp_reg (pit_save s) = ebp_reg s"
proof -
  obtain io' where eoi: "send_eoi 0 s = s\<lparr>io := io'\<rparr>" using send_eoi_shape by blast
  have cur: "get_cur_pcb_ptr (s\<lparr>io := io'\<rparr>) = get_cur_pcb_ptr s" by (simp add: get_cur_pcb_ptr_def)
  have eq: "pit_save s = s\<lparr>io := io', pcbs := (pcbs s)(get_cur_pcb_ptr s := (cur_pcb s)\<lparr>run_ebp := ebp_reg s\<rparr>),
      run_terminal := (run_terminal s + 1) mod 3\<rparr>"
    using next_terminal [OF assms] by (simp add: pit_save_def Let_def eoi cur update_pcb_def)
  show "run_terminal (pit_save s) = (run_terminal s + 1) mod 3"
    "pcbs (pit_save s) = (pcbs s)(get_cur_pcb_ptr s := (cur_pcb s)\<lparr>run_ebp := ebp_reg s\<rparr>)"
    "pid_bitmap (pit_save s) = pid_bitmap s" "schedule (pit_save s) = schedule s"
    "pmem (pit_save s) = pmem s" "kfs (pit_save s) = kfs s"
    "esp_reg (pit_save s) = esp_reg s" "ebp_reg (pit_save s) = ebp_reg s"
    by (simp_all add: eq)
  have "access (pit_save s) = access s" by (rule access_cong) (simp_all add: eq)
  then show "kmem (pit_save s) = kmem s" by (rule kmem_cong) (simp add: eq)
  show "mapped p (pit_save s) = mapped p s" by (rule mapped_cong) (simp_all add: eq)
  show "console_ok (pit_save s)" if "console_ok s" using that by (auto simp: console_ok_def eq)
qed

lemma pit_handler_run:
  assumes "mapped p s" and "console_ok s" and "next = schedule s ! nat ((run_terminal s + 1) mod 3)"
    and "0 \<le> next" and "next < 6"
  shows "\<exists>s'. pit_handler l s = Some (Continue (run_ebp (pcbs (pit_save s) (get_pcb_ptr next))), s') \<and>
    switched_to next (pit_save s) s' \<and> run_terminal s' = (run_terminal s + 1) mod 3 \<and>
    pcbs s' = (pcbs s)(get_cur_pcb_ptr s := (cur_pcb s)\<lparr>run_ebp := ebp_reg s\<rparr>) \<and>
    pmem s' = pmem s"
proof -
  have t: "run_terminal s \<in> {0, 1, 2}" using assms(2) by (simp add: console_ok_def)
  note f = pit_save_fields [OF t]
  have "mapped p (pit_save s)" "console_ok (pit_save s)" using assms(1,2) f by simp_all
  from pit_switch_run [OF this assms(4,5)] obtain s' where
    s': "pit_switch next (pit_save s) = (Continue (run_ebp (pcbs (pit_save s) (get_pcb_ptr next))), s')"
      "switched_to next (pit_save s) s'" by blast
  have "schedule (pit_save s) ! nat (run_terminal (pit_save s)) = next" using f assms(3) by simp
  then have "pit_handler l s = Some (pit_switch next (pit_save s))"
    using assms(4) by (simp add: pit_handler_def Let_def)
  with s' f show ?thesis by (auto simp: switched_to_def)
qed

text \<open>C11: a timer interrupt with a process on the next terminal.  The handler saves the frame of
  the interrupted process in its control block, the next of the three terminals takes its turn,
  and control goes to the frame saved for the process scheduled there: its page is mapped, its
  terminal's screen is the one that output goes to, its kernel stack is the one the processor
  will use; no memory and no other control block changes.\<close>

theorem timer_switches_to_next_terminal:
  assumes "mapped p s" and "console_ok s" and "next = schedule s ! nat ((run_terminal s + 1) mod 3)"
    and "0 \<le> next" and "next < 6"
  shows "\<exists>s'. pit_handler l s = Some (Continue (run_ebp (pcbs (pit_save s) (get_pcb_ptr next))), s') \<and>
    switched_to next (pit_save s) s' \<and> run_terminal s' = (run_terminal s + 1) mod 3 \<and>
    pcbs s' = (pcbs s)(get_cur_pcb_ptr s := (cur_pcb s)\<lparr>run_ebp := ebp_reg s\<rparr>) \<and>
    pmem s' = pmem s"
  by (rule pit_handler_run [OF assms])

theorem timer_switches_to_next_terminal_witness:
  "\<exists>s'. pit_handler demo_locals demo_shell = Some (Continue 0, s') \<and> run_terminal s' = 1 \<and>
    mapped (Some 1) s' \<and> on_stack 1 (tss_esp0 s')"
proof -
  have "console_ok demo_shell"
    by (simp add: console_ok_def demo_shell_fields demo_terminal_def cursor_ok_def)
  from timer_switches_to_next_terminal [OF demo_shell_mapped this, of 1 demo_locals]
  obtain s' where s': "pit_handler demo_locals demo_shell =
      Some (Continue (run_ebp (pcbs (pit_save demo_shell) (get_pcb_ptr 1))), s')"
    "switched_to 1 (pit_save demo_shell) s'" "run_terminal s' = 1"
    by (auto simp: demo_shell_fields)
  have "get_cur_pcb_ptr demo_shell = get_pcb_ptr 0"
    using get_cur_pcb_ptr_on_stack [of 0 demo_shell] by (simp add: on_stack_def demo_shell_fields)
  then have "run_ebp (pcbs (pit_save demo_shell) (get_pcb_ptr 1)) = 0"
    using pit_save_fields(2) [of demo_shell]
    by (simp add: demo_shell_fields empty_pcb_def get_pcb_ptr_inj)
  with s' show ?thesis by (simp add: switched_to_def)
qed

end
