(* ===== verification/System.thy ===== *)
theory System
  imports Scheduler
begin

text \<open>
  The kernel as a whole: the calls that start and end programs, the timer interrupt, and
  everything else the kernel does, as steps of one state machine.  The invariant says which
  process runs: the one scheduled on the running terminal, with its page mapped and its kernel
  stack in the task state, while each of the others can be continued in a frame on its own stack.
\<close>

subsection \<open>Frames and registers\<close>

text \<open>A frame pointer from which \<^verbatim>\<open>leave\<close> and \<^verbatim>\<open>ret\<close> lead to a stack pointer on the stack of \<open>n\<close>.\<close>

definition frame_ok :: "int \<Rightarrow> u32 \<Rightarrow> bool" where
  "frame_ok n e \<longleftrightarrow> 0x800000 - (n + 1) * 0x2000 < uint e \<and> uint e + 8 \<le> 0x800000 - n * 0x2000 - 4"

lemma frame_ok_stack:
  assumes "frame_ok n e" and "0 \<le> n" and "n < 6"
  shows "on_stack n (e + 8)"
proof -
  have "uint e + 8 < 2 ^ 32" using assms by (simp add: frame_ok_def)
  then have "uint (e + 8) = uint e + 8" by (simp add: uint_word_ariths)
  then show ?thesis using assms by (simp add: frame_ok_def on_stack_def)
qed

text \<open>The registers after a call that does not return to its caller.  The next entry from user
  mode starts on the stack that the task state names.\<close>

fun resume_at :: "control \<Rightarrow> 'a kernel_scheme \<Rightarrow> 'a kernel_scheme" where
  "resume_at (Return r) s = s"
| "resume_at (Enter_user entry sp) s = s\<lparr>esp_reg := tss_esp0 s\<rparr>"
| "resume_at (Resume bp sp r) s = s\<lparr>esp_reg := bp + 8, ebp_reg := load32 (kmem s) bp\<rparr>"

fun dispatch_at :: "dispatch \<Rightarrow> 'a kernel_scheme \<Rightarrow> 'a kernel_scheme" where
  "dispatch_at (Continue bp) s = s\<lparr>esp_reg := bp + 8, ebp_reg := load32 (kmem s) bp\<rparr>"
| "dispatch_at (Started c) s = resume_at c s"

subsection \<open>The tree of processes\<close>

text \<open>The abstract picture: which processes each terminal runs (\<open>xs\<close>), which process numbers are in
  use (\<open>U\<close>), and who started whom (\<open>par\<close>).  Every process above the three base shells waits for
  at most one child and is not scheduled while it waits.\<close>

definition tree_ok :: "int list \<Rightarrow> nat set \<Rightarrow> (nat \<Rightarrow> nat) \<Rightarrow> bool" where
  "tree_ok xs U par \<longleftrightarrow> distinct xs \<and> set xs \<subseteq> int ` U \<and> {0, 1, 2} \<subseteq> U \<and> U \<subseteq> {..<6} \<and>
     (\<forall>n \<in> U. 3 \<le> n \<longrightarrow> par n \<in> U \<and> par n \<noteq> n \<and> int (par n) \<notin> set xs) \<and> inj_on par (U \<inter> {3..})"

lemma tree_start:
  assumes t: "tree_ok xs U par" and k: "k < length xs" "xs ! k = int a" and i: "i \<notin> U" "i < 6" and par': "par' i = a"
    and same: "\<And>n. n \<in> U \<Longrightarrow> 3 \<le> n \<Longrightarrow> par' n = par n"
  shows "tree_ok (xs[k := int i]) (insert i U) par'"
proof -
  have a: "int a \<in> set xs" using k nth_mem by metis
  then have aU: "a \<in> U" using t by (auto simp: tree_ok_def)
  have new: "int i \<notin> set xs" using t i(1) by (auto simp: tree_ok_def)
  have sub: "set (xs[k := int i]) = insert (int i) (set xs - {int a})"
    using t k by (simp add: tree_ok_def set_update_distinct)
  have d: "distinct (xs[k := int i])" using t new by (intro distinct_list_update) (auto simp: tree_ok_def)
  have "par n \<noteq> a" if "n \<in> U" "3 \<le> n" for n using t that a by (auto simp: tree_ok_def)
  then have "par' i \<noteq> par' n" if "n \<in> U \<inter> {3..}" for n
    using par' same [of n] that by (metis IntD1 IntD2 atLeast_iff)
  then have "par' i \<notin> par' ` (U \<inter> {3..})" by blast
  moreover have "inj_on par' (U \<inter> {3..})" using t same by (auto simp: tree_ok_def inj_on_def)
  ultimately have "inj_on par' (insert i (U \<inter> {3..}))" by auto
  then have "inj_on par' (insert i U \<inter> {3..})" by (rule inj_on_subset) auto
  moreover have "par' n \<in> insert i U \<and> par' n \<noteq> n \<and> int (par' n) \<notin> set (xs[k := int i])"
    if "n \<in> insert i U" "3 \<le> n" for n
  proof (cases "n = i")
    case True
    then show ?thesis using par' aU i(1) sub by auto
  next
    case False
    then have "n \<in> U" using that(1) by simp
    moreover have "par n \<noteq> i" using t \<open>n \<in> U\<close> that(2) i(1) by (auto simp: tree_ok_def)
    ultimately show ?thesis using t same that(2) sub by (auto simp: tree_ok_def)
  qed
  ultimately show ?thesis using t i d sub by (auto simp: tree_ok_def)
qed

lemma tree_end:
  assumes t: "tree_ok xs U par" and k: "k < length xs" "xs ! k = int a" and a3: "3 \<le> a"
    and same: "\<And>n. n \<in> U \<Longrightarrow> n \<noteq> a \<Longrightarrow> 3 \<le> n \<Longrightarrow> par' n = par n"
  shows "tree_ok (xs[k := int (par a)]) (U - {a}) par'"
proof -
  have a: "int a \<in> set xs" using k nth_mem by metis
  then have aU: "a \<in> U" using t by (auto simp: tree_ok_def)
  have q: "par a \<in> U" "par a \<noteq> a" "int (par a) \<notin> set xs" using t aU a3 by (auto simp: tree_ok_def)
  have sub: "set (xs[k := int (par a)]) = insert (int (par a)) (set xs - {int a})"
    using t k by (simp add: tree_ok_def set_update_distinct)
  have d: "distinct (xs[k := int (par a)])" using t q(3) by (intro distinct_list_update) (auto simp: tree_ok_def)
  have "inj_on par' ((U - {a}) \<inter> {3..})" using t same by (auto simp: tree_ok_def inj_on_def)
  moreover have "par' n \<in> U - {a} \<and> par' n \<noteq> n \<and> int (par' n) \<notin> set (xs[k := int (par a)])"
    if n: "n \<in> U - {a}" "3 \<le> n" for n
  proof -
    have p: "par' n = par n" "par n \<in> U" "par n \<noteq> n" "int (par n) \<notin> set xs"
      using t n same by (auto simp: tree_ok_def)
    moreover have "par n \<noteq> par a" using t n aU a3 unfolding tree_ok_def inj_on_def by fastforce
    ultimately show ?thesis using a sub by auto
  qed
  ultimately show ?thesis using t q d sub a3 by (auto simp: tree_ok_def)
qed

lemma tree_bounds:
  assumes "tree_ok xs U par" and "x \<in> set xs"
  shows "0 \<le> x \<and> x < 6"
proof -
  obtain n where "x = int n" "n \<in> U" "U \<subseteq> {..<6}" using assms by (auto simp: tree_ok_def)
  then have "x = int n" "n < 6" by auto
  then show ?thesis by simp
qed

subsection \<open>The invariant\<close>

definition active :: "'a kernel_scheme \<Rightarrow> int" where
  "active s = schedule s ! nat (run_terminal s)"

definition used :: "'a kernel_scheme \<Rightarrow> nat set" where
  "used s = {n. n < 6 \<and> pid_bitmap s ! n \<noteq> 0}"

definition parent :: "'a kernel_scheme \<Rightarrow> nat \<Rightarrow> nat" where
  "parent s n = unat (parent_pid (own_pcb n s))"

text \<open>The control blocks agree with the tree: each has its own number, and the process that started
  it waits in a frame on its own stack.\<close>

definition procs_ok :: "'a kernel_scheme \<Rightarrow> bool" where
  "procs_ok s \<longleftrightarrow> length (pid_bitmap s) = 6 \<and> length (schedule s) = 3 \<and>
     tree_ok (schedule s) (used s) (parent s) \<and>
     (\<forall>n \<in> used s. pcb_pid (own_pcb n s) = of_nat n \<and>
        (3 \<le> n \<longrightarrow> frame_ok (int (parent s n)) (pcb_ebp (own_pcb n s))))"

definition saved_ok :: "'a kernel_scheme \<Rightarrow> bool" where
  "saved_ok s \<longleftrightarrow> (\<forall>x \<in> set (schedule s). x \<noteq> active s \<longrightarrow> frame_ok x (run_ebp (own_pcb (nat x) s)))"

definition running_ok :: "'a kernel_scheme \<Rightarrow> bool" where
  "running_ok s \<longleftrightarrow> mapped (Some (word_of_int (active s))) s \<and> screen_ok s \<and>
     on_stack (active s) (tss_esp0 s) \<and> on_stack (active s) (esp_reg s)"

text \<open>The file system holds the shell, and every entry of the directory has a proper index node.\<close>

definition shell_name :: "u8 list" where
  "shell_name = map of_char ''shell''"

definition shell_ready :: "'a kernel_scheme \<Rightarrow> bool" where
  "shell_ready s \<longleftrightarrow> mounted s \<and> unat (num_dir_entries (kmem s) (kfs s)) \<le> 63 \<and>
     (\<forall>name d. dir_lookup (kmem s) (kfs s) name = Some d \<longrightarrow> inode_ok (kmem s) (kfs s) (inode_num d)) \<and>
     (\<exists>d. dir_lookup (kmem s) (kfs s) shell_name = Some d \<and>
        length (program_header s d) = 40 \<and> magic_ok (program_header s d))"

definition system_ok :: "'a kernel_scheme \<Rightarrow> bool" where
  "system_ok s \<longleftrightarrow> procs_ok s \<and> saved_ok s \<and> running_ok s \<and> shell_ready s"

lemma shell_ready_image:
  assumes "shell_ready s" and "same_image s s'"
  shows "shell_ready s'"
proof -
  have mnt: "mounted s" and small: "unat (num_dir_entries (kmem s) (kfs s)) \<le> 63"
    using assms(1) by (simp_all add: shell_ready_def)
  have ok: "image_ok (kmem s) (kfs s)" using mnt by (simp add: mounted_def)
  have f: "kfs s' = kfs s" using assms(2) by (simp add: same_image_def)
  have same: "x \<in> span (boot_block_ptr (kfs s)) (image_size (kmem s) (kfs s)) \<Longrightarrow> kmem s' x = kmem s x" for x
    using assms(2) unfolding same_image_def by blast
  have look: "dir_lookup (kmem s') (kfs s') name = dir_lookup (kmem s) (kfs s) name" for name
    unfolding f by (rule dir_lookup_cong [OF ok small same])
  note m = same_image_mounted [OF assms(2) mnt]
  have n: "num_dir_entries (kmem s') (kfs s') = num_dir_entries (kmem s) (kfs s)"
    using image_cong(1) [OF ok same] f by simp
  have head: "program_header s' d = program_header s d" if "dir_lookup (kmem s) (kfs s) name = Some d" for name d
    using that assms(1) m(3) by (fastforce simp: shell_ready_def program_header_def)
  show ?thesis
    unfolding shell_ready_def look n using assms(1) m(1,3) head by (fastforce simp: shell_ready_def)
qed

lemma shell_ready_execute:
  "shell_ready s \<Longrightarrow> off_image (l_filename l) 32 s \<Longrightarrow> off_image (l_header l) 40 s \<Longrightarrow> can_execute l s"
  by (simp add: shell_ready_def can_execute_def)

definition locals_ok :: "locals \<Rightarrow> 'a kernel_scheme \<Rightarrow> bool" where
  "locals_ok l s \<longleftrightarrow> off_image (l_filename l) 32 s \<and> off_image (l_header l) 40 s \<and> 0 < length (l_args l)"

lemma locals_ok_image: "same_image s s' \<Longrightarrow> mounted s \<Longrightarrow> locals_ok l s' = locals_ok l s"
  using same_image_mounted(2) [of s s'] by (simp add: locals_ok_def off_image_def same_image_def)

subsection \<open>Steps\<close>

text \<open>What the rest of the kernel and the programs may change: memory outside the file system,
  the screen, descriptors and arguments, but not who runs where.\<close>

definition keeps :: "'a kernel_scheme \<Rightarrow> 'a kernel_scheme \<Rightarrow> bool" where
  "keeps s s' \<longleftrightarrow> pid_bitmap s' = pid_bitmap s \<and> schedule s' = schedule s \<and>
     run_terminal s' = run_terminal s \<and> tss_esp0 s' = tss_esp0 s \<and> esp_reg s' = esp_reg s \<and>
     (\<forall>p. mapped p s \<longrightarrow> mapped p s') \<and> (screen_ok s \<longrightarrow> screen_ok s') \<and> same_image s s' \<and>
     (\<forall>n. pcb_pid (own_pcb n s') = pcb_pid (own_pcb n s) \<and> parent_pid (own_pcb n s') = parent_pid (own_pcb n s) \<and>
        pcb_ebp (own_pcb n s') = pcb_ebp (own_pcb n s) \<and> run_ebp (own_pcb n s') = run_ebp (own_pcb n s))"

inductive step :: "'a kernel_scheme \<Rightarrow> 'a kernel_scheme \<Rightarrow> bool" where
  Call: "on_stack (active s) sp \<Longrightarrow> step s (s\<lparr>esp_reg := sp, ebp_reg := bp\<rparr>)"
| Work: "keeps s s' \<Longrightarrow> step s s'"
| Execute: "frame_ok (active s) (ebp_reg s) \<Longrightarrow> locals_ok l s \<Longrightarrow>
    execute_cmd l cmd s = Some (c, s') \<Longrightarrow> step s (resume_at c s')"
| Halt: "locals_ok l s \<Longrightarrow> halt l status s = Some (c, s') \<Longrightarrow> step s (resume_at c s')"
| Tick: "frame_ok (active s) (ebp_reg s) \<Longrightarrow> locals_ok l s \<Longrightarrow>
    pit_handler l s = Some (d, s') \<Longrightarrow> step s (dispatch_at d s')"

inductive_cases stepE: "step s s'"

lemma keeps_system:
  assumes "system_ok s" and "keeps s s'"
  shows "system_ok s'"
proof -
  have act: "active s' = active s" using assms(2) by (simp add: keeps_def active_def)
  have "used s' = used s" "parent s' = parent s"
    using assms(2) by (simp_all add: used_def parent_def keeps_def fun_eq_iff)
  then have "procs_ok s' = procs_ok s" using assms(2) by (simp add: procs_ok_def keeps_def)
  moreover have "saved_ok s' = saved_ok s" using assms(2) act by (simp add: saved_ok_def keeps_def)
  moreover have "running_ok s \<Longrightarrow> running_ok s'" using assms(2) act by (simp add: running_ok_def keeps_def)
  moreover have "shell_ready s \<Longrightarrow> shell_ready s'"
    using assms(2) shell_ready_image [of s s'] by (simp add: keeps_def)
  ultimately show ?thesis using assms(1) by (simp add: system_ok_def)
qed

subsection \<open>Starting a program\<close>

lemma registers_irrelevant [simp]:
  "procs_ok (esp_reg_update f s) = procs_ok s" "procs_ok (ebp_reg_update f s) = procs_ok s"
  "saved_ok (esp_reg_update f s) = saved_ok s" "saved_ok (ebp_reg_update f s) = saved_ok s"
  "shell_ready (esp_reg_update f s) = shell_ready s" "shell_ready (ebp_reg_update f s) = shell_ready s"
proof -
  have acc: "access (esp_reg_update f s) = access s" "access (ebp_reg_update f s) = access s"
    by (rule access_cong; simp)+
  have "kmem (esp_reg_update f s) = kmem s" "kmem (ebp_reg_update f s) = kmem s"
    by (rule kmem_cong; simp add: acc)+
  then show "shell_ready (esp_reg_update f s) = shell_ready s" "shell_ready (ebp_reg_update f s) = shell_ready s"
    by (simp_all add: shell_ready_def mounted_def program_header_def)
  have own: "own_pcb n (esp_reg_update f s) = own_pcb n s" "own_pcb n (ebp_reg_update f s) = own_pcb n s" for n
    by (simp_all add: own_pcb_def)
  then have "parent (esp_reg_update f s) = parent s" "parent (ebp_reg_update f s) = parent s"
    by (simp_all add: parent_def fun_eq_iff)
  with own show "procs_ok (esp_reg_update f s) = procs_ok s" "procs_ok (ebp_reg_update f s) = procs_ok s"
    "saved_ok (esp_reg_update f s) = saved_ok s" "saved_ok (ebp_reg_update f s) = saved_ok s"
    by (simp_all add: procs_ok_def used_def saved_ok_def active_def)
qed

lemma running_terminal: "running_ok s \<Longrightarrow> run_terminal s \<in> {0, 1, 2}"
  by (simp add: running_ok_def screen_ok_def)

lemma system_active:
  assumes "procs_ok s" and "running_ok s"
  obtains a where "active s = int a" "a < 6" "a \<in> used s" "nat (run_terminal s) < length (schedule s)"
    "schedule s ! nat (run_terminal s) = int a" "int a \<in> set (schedule s)" "get_pid s = int a"
proof -
  have k: "nat (run_terminal s) < length (schedule s)"
    using assms running_terminal [OF assms(2)] by (auto simp: procs_ok_def)
  then have mem: "active s \<in> set (schedule s)" unfolding active_def by (rule nth_mem)
  then obtain a where a: "active s = int a" "a \<in> used s"
    using assms(1) by (auto simp: procs_ok_def tree_ok_def)
  then have "a < 6" by (simp add: used_def)
  moreover have "get_pid s = int a"
    using assms(2) a \<open>a < 6\<close> by (intro get_pid_on_stack) (simp_all add: running_ok_def)
  ultimately show ?thesis using that a k mem by (simp add: active_def)
qed

lemma take_slot_update:
  assumes "distinct xs" and "\<forall>x \<in> set xs. 0 \<le> x \<and> x < 6" and "k < length xs" and "xs ! k = int q" and "i < 6"
  shows "take_slot (of_nat q) (of_nat i) xs = xs[k := int i]"
  using assms(1-4)
proof (induction xs arbitrary: k)
  case (Cons x xs)
  have x: "0 \<le> x" "x \<le> 5" using Cons.prems(2) by auto
  have q: "q < 6" using Cons.prems(2-4) by (metis nth_mem of_nat_less_iff of_nat_numeral)
  have i: "uint (of_nat i :: u32) = int i" using assms(5) by (simp add: unsigned_of_nat take_bit_nat_eq_self)
  show ?case
  proof (cases k)
    case 0
    then show ?thesis using Cons.prems(4) i by simp
  next
    case (Suc j)
    then have "int q \<in> set xs" using Cons.prems(3,4) nth_mem [of j xs] by simp
    then have "x \<noteq> int q" using Cons.prems(1) by auto
    then have "take_slot (of_nat q) (of_nat i) (x # xs) = x # take_slot (of_nat q) (of_nat i) xs"
      using x small_word_eq [OF x q] by simp
    then show ?thesis using Cons.IH [of j] Cons.prems Suc by simp
  qed
qed simp

lemma take_slot_none:
  assumes "\<forall>x \<in> set xs. 0 \<le> x \<and> x < 6"
  shows "take_slot 255 n xs = xs"
  using assms
proof (induction xs)
  case (Cons x xs)
  then have "(word_of_int x :: u32) = of_nat (nat x)" "nat x < 6" by auto
  moreover have "(of_nat k :: u32) \<noteq> of_nat 255" if "k < 6" for k
    using that of_nat_u32_eq_iff [of k 255] by simp
  ultimately have "(word_of_int x :: u32) \<noteq> 255" by (metis of_nat_numeral)
  then show ?case using Cons by simp
qed simp

lemma own_pcb_update:
  assumes "pcbs s' = (pcbs s)(get_pcb_ptr (int i) := p)" and "i < 6" and "n < 6"
  shows "own_pcb n s' = (if n = i then p else own_pcb n s)"
  using assms get_pcb_ptr_inj [of "int n" "int i"] by (simp add: own_pcb_def)

text \<open>A program started by another one takes its place on the terminal.\<close>

lemma entered_system:
  assumes sys: "system_ok s" and ent: "entered args bs i s s'" and free: "free_pid (pid_bitmap s) = Some i"
    and frame: "frame_ok (active s) (ebp_reg s)"
  shows "system_ok (s'\<lparr>esp_reg := tss_esp0 s'\<rparr>)"
proof -
  have run: "running_ok s" and procs: "procs_ok s" and saved: "saved_ok s"
    and tree: "tree_ok (schedule s) (used s) (parent s)"
    using sys by (simp_all add: system_ok_def procs_ok_def)
  obtain a where a: "active s = int a" "a < 6" "a \<in> used s" "nat (run_terminal s) < length (schedule s)"
    "schedule s ! nat (run_terminal s) = int a" "int a \<in> set (schedule s)" "get_pid s = int a"
    by (rule system_active [OF procs run])
  define k where "k = nat (run_terminal s)"
  have i: "i < 6" "i \<notin> used s" using pids.alloc_Some [OF free] by (auto simp: used_def)
  moreover have "{0, 1, 2} \<subseteq> used s" using tree by (simp add: tree_ok_def)
  ultimately have "i \<notin> {0, 1, 2}" by blast
  then have i3: "3 \<le> i" by auto
  then have "parent_of i s = of_nat a" using a(7) by (simp add: parent_of_def)
  note e' = ent [unfolded entered_def this]
  have e: "mapped (Some (of_nat i)) s'" "on_stack (int i) (tss_esp0 s')" "screen_ok s \<longrightarrow> screen_ok s'"
    "same_image s s'" and rt: "run_terminal s' = run_terminal s" and bm: "pid_bitmap s' = (pid_bitmap s)[i := 1]"
    using e' by simp_all
  have sched: "schedule s' = (schedule s)[k := int i]"
    using e' take_slot_update [OF _ _ a(4,5) i(1)] tree tree_bounds [OF tree] by (simp add: tree_ok_def k_def)
  have act: "active s' = int i" using a(4) by (simp add: active_def rt sched k_def)
  have "pcbs s' = (pcbs s)(get_pcb_ptr (int i) := (init_pcb (of_nat i) (of_nat a) args (own_pcb i s))
      \<lparr>pcb_ebp := ebp_reg s, pcb_esp := esp_reg s\<rparr>)"
    using e' by (simp add: own_pcb_def)
  note own = own_pcb_update [OF this i(1)]
  have len: "length (pid_bitmap s) = 6" "length (schedule s) = 3" using procs by (simp_all add: procs_ok_def)
  have used': "used s' = insert i (used s)" using i(1) len by (auto simp: used_def bm nth_list_update)
  have par: "parent s' i = a" "n \<in> used s \<Longrightarrow> parent s' n = parent s n" for n
    using own [of i] own [of n] i a(2) by (auto simp: parent_def init_pcb_def used_def)
  have "tree_ok (schedule s') (used s') (parent s')"
    unfolding sched used' k_def by (rule tree_start [where par' = "parent s'", OF tree a(4,5) i(2,1)]) (simp_all add: par)
  moreover have "pcb_pid (own_pcb n s') = of_nat n \<and>
      (3 \<le> n \<longrightarrow> frame_ok (int (parent s' n)) (pcb_ebp (own_pcb n s')))" if "n \<in> used s'" for n
  proof (cases "n = i")
    case True
    then show ?thesis using own [OF i(1)] par(1) frame a(1) by (simp add: init_pcb_def)
  next
    case False
    then have n: "n \<in> used s" "own_pcb n s' = own_pcb n s"
      using that own [of n] by (auto simp: used') (auto simp: used_def)
    with par(2) [OF n(1)] procs show ?thesis by (simp add: procs_ok_def)
  qed
  ultimately have "procs_ok s'" using len by (simp add: procs_ok_def bm sched)
  moreover have "saved_ok s'"
    unfolding saved_ok_def act sched
  proof (intro ballI impI)
    fix x assume "x \<in> set ((schedule s)[k := int i])" and "x \<noteq> int i"
    then have "x \<in> set (schedule s)" "x \<noteq> active s"
      using tree a by (simp_all add: tree_ok_def set_update_distinct k_def)
    moreover have "own_pcb (nat x) s' = own_pcb (nat x) s"
      using own [of "nat x"] tree_bounds [OF tree \<open>x \<in> set (schedule s)\<close>] \<open>x \<noteq> int i\<close> by auto
    ultimately show "frame_ok x (run_ebp (own_pcb (nat x) s'))" using saved by (simp add: saved_ok_def)
  qed
  moreover have "shell_ready s'" using sys e by (auto simp: system_ok_def intro: shell_ready_image)
  ultimately show ?thesis
    using e act run by (simp add: system_ok_def running_ok_def active_def)
qed

subsection \<open>Commands\<close>

lemma keeps_trans: "keeps s s' \<Longrightarrow> keeps s' s'' \<Longrightarrow> mounted s \<Longrightarrow> keeps s s''"
  using same_image_trans [of s s' s''] by (auto simp: keeps_def)

lemma quiet_keeps: "quiet s s' \<Longrightarrow> keeps s s'"
  by (simp add: quiet_def keeps_def own_pcb_def)

lemma put_string_keeps:
  assumes "mapped p s" and "mounted s" and "screen_ok s"
  shows "keeps s (put_string cs s)"
proof -
  have "kmem (put_string cs s) x = kmem s x" if "drop_bit 22 x = 1" for x
  proof -
    have "0x400000 \<le> unat x" using that by (simp add: kernel_page)
    then show ?thesis
      using that assms put_string_memory [OF assms(3)] kmem_kernel_page [of p s x]
        kmem_kernel_page [of p "put_string cs s" x] by simp
  qed
  then have "same_image s (put_string cs s)" by (intro same_image_kernel_page [OF assms(2)]) simp_all
  then show ?thesis
    using put_string_facts(1,2) [OF assms(3)] by (simp add: keeps_def own_pcb_def)
qed

lemma put_char_keeps: "mapped p s \<Longrightarrow> mounted s \<Longrightarrow> screen_ok s \<Longrightarrow> keeps s (putc c 0 s)"
  using put_string_keeps [of p s "[c]"] by (simp add: put_string_def)

text \<open>A command either starts a program or changes nothing that matters here.\<close>

lemma execute_cmd_cases:
  assumes maps: "mapped p s" and shell: "shell_ready s" and scr: "screen_ok s" and l: "locals_ok l s"
    and run: "execute_cmd l cmd s = Some (c, s')"
  shows "(\<exists>r. c = Return r \<and> keeps s s') \<or>
    (\<exists>e sp args bs i. c = Enter_user e sp \<and> free_pid (pid_bitmap s) = Some i \<and> entered args bs i s s')"
proof (cases "parse_command (l_args l) cmd")
  case Parse_error
  then show ?thesis using run by (auto simp: execute_cmd_def keeps_def same_image_def)
next
  case Parse_overflow
  then show ?thesis using run by (simp add: execute_cmd_def)
next
  case (Parsed name args)
  have mnt: "mounted s" and small: "unat (num_dir_entries (kmem s) (kfs s)) \<le> 63"
    and off: "off_image (l_filename l) 32 s" "off_image (l_header l) 40 s"
    using shell l by (simp_all add: shell_ready_def locals_ok_def)
  note name = parse_command_shape(1,2) [OF Parsed]
  define s1 where "s1 = commit (write_bytes (kmem s) (l_filename l) (name @ [0])) s"
  have q1: "quiet s s1"
    unfolding s1_def using name(2) by (intro quiet_store [OF maps mnt] off_image_le [OF off(1)]) simp
  have look: "read_dentry_by_name (kmem s1) (kfs s1) (l_filename l) 1 = Some (dir_lookup (kmem s) (kfs s) name)"
    unfolding s1_def by (rule program_lookup(1) [OF maps mnt small name off(1)])
  show ?thesis
  proof (cases "dir_lookup (kmem s) (kfs s) name")
    case None
    then show ?thesis
      using run look q1 quiet_keeps by (auto simp: execute_cmd_def Parsed Let_def simp flip: s1_def)
  next
    case (Some d)
    have ino: "inode_ok (kmem s) (kfs s) (inode_num d)" using shell Some by (simp add: shell_ready_def)
    show ?thesis
    proof (cases "length (program_header s d) = 40 \<and> magic_ok (program_header s d) \<and>
        free_pid (pid_bitmap s) \<noteq> None")
      case True
      then obtain i where i: "free_pid (pid_bitmap s) = Some i" by blast
      have "can_execute l s" using mnt small off by (simp add: can_execute_def)
      from execute_cmd_run [OF maps this Parsed Some ino _ _ i] True run
      have "c = Enter_user (header_entry (program_header s d)) (USER_STACK_ADDR - 4)"
        "entered args (program_image (kmem s) (kfs s) (inode_num d)) i s s'" by auto
      then show ?thesis using i by blast
    next
      case False
      have "can_execute l s" using mnt small off by (simp add: can_execute_def)
      from execute_cmd_found [OF maps this Parsed Some ino] False run
      obtain s2 cs where "quiet s s2" "c = Return (-1)" "s' = s2 \<or> s' = put_string cs s2"
        by (auto split: if_splits option.splits)
      moreover from this have "keeps s2 (put_string cs s2)"
        using quiet_mounted(1) [OF _ mnt] maps scr by (intro put_string_keeps) (auto simp: quiet_def)
      ultimately show ?thesis using keeps_trans [OF quiet_keeps _ mnt] quiet_keeps by blast
    qed
  qed
qed

lemma execute_system:
  assumes sys: "system_ok s" and frame: "frame_ok (active s) (ebp_reg s)" and l: "locals_ok l s"
    and run: "execute_cmd l cmd s = Some (c, s')"
  shows "system_ok (resume_at c s')"
proof -
  have "mapped (Some (word_of_int (active s))) s" "shell_ready s" "screen_ok s"
    using sys by (simp_all add: system_ok_def running_ok_def)
  from execute_cmd_cases [OF this l run] show ?thesis
    using keeps_system [OF sys] entered_system [OF sys _ _ frame] by auto
qed

subsection \<open>Ending a program\<close>

lemma tree_cong:
  "tree_ok xs U par \<Longrightarrow> (\<And>n. n \<in> U \<Longrightarrow> 3 \<le> n \<Longrightarrow> par' n = par n) \<Longrightarrow> tree_ok xs U par'"
  by (auto simp: tree_ok_def inj_on_def)

lemma schedule_swap:
  assumes "distinct xs" and "\<forall>x \<in> set xs. 0 \<le> x \<and> x < 6" and "k < length xs" and "xs ! k = int a" and "a < 6"
  shows "map (\<lambda>x. if word_of_int x = (of_nat a :: u32) then q else x) xs = xs[k := q]"
proof (rule nth_equalityI)
  fix j assume j: "j < length (map (\<lambda>x. if word_of_int x = (of_nat a :: u32) then q else x) xs)"
  then have x: "0 \<le> xs ! j" "xs ! j \<le> 5" using assms(2) by (force dest: nth_mem)+
  have "xs ! j = int a \<longleftrightarrow> j = k" using assms(1,3,4) j nth_eq_iff_index_eq [of xs j k] by simp
  then show "map (\<lambda>x. if word_of_int x = (of_nat a :: u32) then q else x) xs ! j = xs[k := q] ! j"
    using j assms(3) small_word_eq [OF x assms(5)] by (auto simp: nth_list_update)
qed simp

lemma close_all_fields [simp]:
  "pcb_pid (close_all p) = pcb_pid p" "parent_pid (close_all p) = parent_pid p"
  "pcb_ebp (close_all p) = pcb_ebp p" "run_ebp (close_all p) = run_ebp p"
  by (simp_all add: close_all_def)

lemma same_image_pmem:
  assumes "mapped p s" and "mapped q s'" and "mounted s" and "kfs s' = kfs s"
    and "\<forall>pa. 0x400000 \<le> unat pa \<longrightarrow> pmem s' pa = pmem s pa"
  shows "same_image s s'"
proof (rule same_image_kernel_page [OF assms(3,4)])
  fix x :: u32 assume x: "drop_bit 22 x = 1"
  then have "0x400000 \<le> unat x" by (simp add: kernel_page)
  then show "kmem s' x = kmem s x"
    using assms(5) kmem_kernel_page [OF assms(1) x] kmem_kernel_page [OF assms(2) x] by simp
qed

lemma halt_child_system:
  assumes sys: "system_ok s" and a: "active s = int a" "3 \<le> a" and run: "halt l status s = Some (c, s')"
  shows "system_ok (resume_at c s')"
proof -
  have r: "running_ok s" and procs: "procs_ok s" and saved: "saved_ok s"
    and tree: "tree_ok (schedule s) (used s) (parent s)"
    using sys by (simp_all add: system_ok_def procs_ok_def)
  have k: "a < 6" "a \<in> used s" "nat (run_terminal s) < length (schedule s)"
    "schedule s ! nat (run_terminal s) = int a"
    using system_active [OF procs r] a(1) by auto
  define q where "q = parent s a"
  have own: "pcb_pid (own_pcb a s) = of_nat a" "frame_ok (int q) (pcb_ebp (own_pcb a s))"
    using procs k(2) a(2) by (auto simp: procs_ok_def q_def)
  have qU: "q \<in> used s" "q \<noteq> a" "int q \<notin> set (schedule s)" using tree k(2) a(2) by (auto simp: tree_ok_def q_def)
  then have q6: "q < 6" by (simp add: used_def)
  have pq: "parent_pid (own_pcb a s) = of_nat q" by (simp add: q_def parent_def)
  have sq: "sint (of_nat q :: u32) = int q" "uint (of_nat q :: u32) = int q" "(of_nat q :: u32) < 6"
    using q6 by (simp_all add: sint_of_nat_u32 unsigned_of_nat take_bit_nat_eq_self word_less_nat_alt)
  have maps: "mapped (Some (of_nat a)) s" and scr: "screen_ok s" and mnt: "mounted s"
    using r sys a(1) by (simp_all add: running_ok_def system_ok_def shell_ready_def)
  have "a \<in> {3, 4, 5}" "on_stack (int a) (esp_reg s)" using a k(1) r by (auto simp: running_ok_def)
  from halt_child [OF maps scr this own(1), unfolded pq sq, OF sq(3), of l status] run
  have c: "c = Resume (pcb_ebp (own_pcb a s)) (pcb_esp (own_pcb a s)) (if status = 1 then 256 else 0)"
    and bm: "pid_bitmap s' = (pid_bitmap s)[a := 0]"
    and sched': "schedule s' = map (\<lambda>x. if word_of_int x = (of_nat a :: u32) then int q else x) (schedule s)"
    and s': "mapped (Some (of_nat q)) s'" "on_stack (int q) (tss_esp0 s')" "screen_ok s'"
      "run_terminal s' = run_terminal s" "kfs s' = kfs s"
      "\<forall>pa. 0x400000 \<le> unat pa \<longrightarrow> pmem s' pa = pmem s pa"
    and pcbs': "pcbs s' = (pcbs s)(get_pcb_ptr (int a) := close_all (own_pcb a s))"
    by auto
  have sched: "schedule s' = (schedule s)[nat (run_terminal s) := int q]"
    unfolding sched' using schedule_swap [OF _ _ k(3,4,1)] tree tree_bounds [OF tree] by (simp add: tree_ok_def)
  have act: "active s' = int q" using k(3) by (simp add: active_def s'(4) sched)
  have len: "length (pid_bitmap s) = 6" "length (schedule s) = 3" using procs by (simp_all add: procs_ok_def)
  have used': "used s' = used s - {a}" using k(1) len by (auto simp: used_def bm nth_list_update)
  note own' = own_pcb_update [OF pcbs' k(1)]
  have fields: "pcb_pid (own_pcb n s') = pcb_pid (own_pcb n s)" "parent s' n = parent s n"
    "pcb_ebp (own_pcb n s') = pcb_ebp (own_pcb n s)" "run_ebp (own_pcb n s') = run_ebp (own_pcb n s)"
    if "n < 6" for n using own' [OF that] by (simp_all add: parent_def)
  have "tree_ok (schedule s') (used s') (parent s')"
    unfolding sched used' q_def
    by (rule tree_end [where par' = "parent s'", OF tree k(3,4) a(2)]) (simp add: fields(2) used_def)
  moreover have "pcb_pid (own_pcb n s') = of_nat n \<and> (3 \<le> n \<longrightarrow> frame_ok (int (parent s' n)) (pcb_ebp (own_pcb n s')))"
    if "n \<in> used s'" for n
  proof -
    have n: "n \<in> used s" using that used' by blast
    then have "n < 6" by (simp add: used_def)
    then show ?thesis using procs n fields by (simp add: procs_ok_def)
  qed
  ultimately have "procs_ok s'"
    using len by (simp add: procs_ok_def bm sched)
  moreover have "saved_ok s'"
    unfolding saved_ok_def act sched
  proof (intro ballI impI)
    fix x assume "x \<in> set ((schedule s)[nat (run_terminal s) := int q])" and "x \<noteq> int q"
    then have x: "x \<in> set (schedule s)" "x \<noteq> active s"
      using tree k a(1) by (simp_all add: tree_ok_def set_update_distinct)
    moreover have "nat x < 6" using tree_bounds [OF tree x(1)] by auto
    ultimately show "frame_ok x (run_ebp (own_pcb (nat x) s'))" using saved fields(4) by (simp add: saved_ok_def)
  qed
  moreover have "shell_ready s'"
    using same_image_pmem [OF maps s'(1) mnt s'(5,6)] sys by (auto simp: system_ok_def intro: shell_ready_image)
  moreover have "on_stack (int q) (pcb_ebp (own_pcb a s) + 8)" using frame_ok_stack [OF own(2)] q6 by simp
  ultimately show ?thesis
    using s' act by (simp add: c system_ok_def running_ok_def active_def)
qed

text \<open>The end of a base shell: it is started again in its own place.\<close>

lemma free_pid_released:
  assumes "length (pid_bitmap s) = 6" and "{0, 1, 2} \<subseteq> used s" and "a < 3"
  shows "free_pid ((pid_bitmap s)[a := 0]) = Some a"
proof (cases "free_pid ((pid_bitmap s)[a := 0])")
  case None
  from pids.alloc_None [OF None, of a] show ?thesis using assms by simp
next
  case (Some i)
  have i: "i < 6" "(pid_bitmap s)[a := 0] ! i = 0" "\<forall>j < i. (pid_bitmap s)[a := 0] ! j \<noteq> 0"
    using pids.alloc_Some [OF Some] by simp_all
  have "\<not> a < i" using i(3) assms by auto
  moreover have "i \<notin> used s" if "i < a" using i(2) that by (simp add: used_def)
  moreover have "i \<in> used s" if "i < a"
  proof -
    have "i \<in> {0, 1, 2}" using that assms(3) by auto
    then show ?thesis using assms(2) by blast
  qed
  ultimately have "i = a" by (metis linorder_neqE_nat)
  with Some show ?thesis by simp
qed

lemma entered_shell_system:
  assumes sys: "system_ok s" and a: "active s = int a" "a < 3" and ent: "entered args bs a t s'"
    and t: "pid_bitmap t = (pid_bitmap s)[a := 0]" "schedule t = schedule s" "pcbs t = pcbs s"
      "run_terminal t = run_terminal s" "screen_ok t" "same_image s t"
  shows "system_ok (s'\<lparr>esp_reg := tss_esp0 s'\<rparr>)"
proof -
  have run: "running_ok s" and procs: "procs_ok s" and saved: "saved_ok s" and mnt: "mounted s"
    and tree: "tree_ok (schedule s) (used s) (parent s)"
    using sys by (simp_all add: system_ok_def procs_ok_def shell_ready_def)
  have aU: "a \<in> used s" using system_active [OF procs run] a(1) by auto
  have len: "length (pid_bitmap s) = 6" "length (schedule s) = 3" using procs by (simp_all add: procs_ok_def)
  have "parent_of a t = 255" using a(2) by (auto simp: parent_of_def)
  note e' = ent [unfolded entered_def this]
  have e: "mapped (Some (of_nat a)) s'" "on_stack (int a) (tss_esp0 s')" "screen_ok s'" "same_image t s'"
    "run_terminal s' = run_terminal s" "pid_bitmap s' = (pid_bitmap s)[a := 1]"
    using e' t by simp_all
  have sched: "schedule s' = schedule s" using e' t(2) take_slot_none tree_bounds [OF tree] by simp
  have act: "active s' = int a" using a(1) by (simp add: active_def e(5) sched)
  have used': "used s' = used s" using aU len by (auto simp: used_def e(6) nth_list_update)
  have "pcbs s' = (pcbs s)(get_pcb_ptr (int a) := (init_pcb (of_nat a) 255 args (own_pcb a t))
      \<lparr>pcb_ebp := ebp_reg t, pcb_esp := esp_reg t\<rparr>)"
    using e' by (simp add: own_pcb_def t(3))
  note own = own_pcb_update [OF this]
  have other: "own_pcb n s' = own_pcb n s" if "n < 6" "n \<noteq> a" for n using own that a(2) by simp
  have pid: "pcb_pid (own_pcb a s') = of_nat a" using own a(2) by (simp add: init_pcb_def)
  have "tree_ok (schedule s') (used s') (parent s')"
    unfolding sched used' by (rule tree_cong [OF tree]) (use a(2) other in \<open>simp add: parent_def used_def\<close>)
  moreover have "pcb_pid (own_pcb n s') = of_nat n \<and>
      (3 \<le> n \<longrightarrow> frame_ok (int (parent s' n)) (pcb_ebp (own_pcb n s')))" if "n \<in> used s'" for n
  proof (cases "n = a")
    case False
    have n: "n \<in> used s" using that used' by simp
    then have "n < 6" by (simp add: used_def)
    with False n show ?thesis using other [of n] procs by (simp add: procs_ok_def parent_def)
  qed (use pid a(2) in simp)
  ultimately have "procs_ok s'" using len by (simp add: procs_ok_def e(6) sched)
  moreover have "saved_ok s'"
    unfolding saved_ok_def act sched
  proof (intro ballI impI)
    fix x assume x: "x \<in> set (schedule s)" "x \<noteq> int a"
    then have "own_pcb (nat x) s' = own_pcb (nat x) s" using tree_bounds [OF tree x(1)] by (intro other) auto
    with x saved a(1) show "frame_ok x (run_ebp (own_pcb (nat x) s'))" by (simp add: saved_ok_def)
  qed
  moreover have "shell_ready s'"
    using same_image_trans [OF t(6) e(4) mnt] sys by (auto simp: system_ok_def intro: shell_ready_image)
  ultimately show ?thesis using e act by (simp add: system_ok_def running_ok_def active_def)
qed

lemma shell_parse:
  assumes "0 < length args"
  shows "parse_command args (map of_char ''shell'') = Parsed shell_name (0 # drop 1 args)"
  using parse_command_run [of shell_name "[]" args 0 "[]" 0] assms by (simp add: shell_name_def word_chars_def)

lemma bitmap_irrelevant:
  fixes s :: "'a kernel_scheme"
  shows "mapped p (pid_bitmap_update f s) = mapped p s" "screen_ok (pid_bitmap_update f s) = screen_ok s"
    "kmem (pid_bitmap_update f s) = kmem s"
proof -
  show "mapped p (pid_bitmap_update f s) = mapped p s" by (rule mapped_cong) simp_all
  have "access (pid_bitmap_update f s) = access s" by (rule access_cong) simp_all
  then show "kmem (pid_bitmap_update f s) = kmem s" by (rule kmem_cong) simp
qed simp

lemma halt_shell_system:
  assumes sys: "system_ok s" and a: "active s = int a" "a < 3" and l: "locals_ok l s"
    and run: "halt l status s = Some (c, s')"
  shows "system_ok (resume_at c s')"
proof -
  have r: "running_ok s" and procs: "procs_ok s" and shell: "shell_ready s" and mnt: "mounted s"
    and tree: "tree_ok (schedule s) (used s) (parent s)"
    using sys by (simp_all add: system_ok_def procs_ok_def shell_ready_def)
  have maps: "mapped (Some (of_nat a)) s" and scr: "screen_ok s" and stack: "on_stack (int a) (esp_reg s)"
    using r a(1) by (simp_all add: running_ok_def)
  define s0 where "s0 = putc 10 0 s"
  define s1 where "s1 = s0\<lparr>pid_bitmap := (pid_bitmap s0)[a := 0]\<rparr>"
  define s2 where "s2 = put_string (message ''----------------------------------------------------''
                 @ message ''|               Cannot exit base shell             |''
                 @ message ''----------------------------------------------------'') s1"
  have k0: "keeps s s0" unfolding s0_def by (rule put_char_keeps [OF maps mnt scr])
  then have m0: "mapped (Some (of_nat a)) s0" "screen_ok s0" "same_image s s0" using maps scr by (simp_all add: keeps_def)
  note mnt0 = same_image_mounted(1) [OF m0(3) mnt]
  have i1: "same_image s0 s1" by (simp add: s1_def same_image_def bitmap_irrelevant)
  have m1: "mapped (Some (of_nat a)) s1" "screen_ok s1" using m0 by (simp_all add: s1_def bitmap_irrelevant)
  have k2: "keeps s1 s2"
    unfolding s2_def by (rule put_string_keeps [OF m1(1) same_image_mounted(1) [OF i1 mnt0] m1(2)])
  have img: "same_image s s2"
    using same_image_trans [OF same_image_trans [OF m0(3) i1 mnt]] k2 mnt by (simp add: keeps_def)
  have m2: "mapped (Some (of_nat a)) s2" "screen_ok s2" using m1 k2 by (simp_all add: keeps_def)
  have pcbs2: "pcbs s2 = pcbs s" by (simp add: s2_def s1_def s0_def)
  have f2: "pid_bitmap s2 = (pid_bitmap s)[a := 0]" "schedule s2 = schedule s" "run_terminal s2 = run_terminal s"
    using k0 k2 by (simp_all add: keeps_def s1_def)
  have cur: "get_cur_pcb_ptr s0 = get_pcb_ptr (int a)"
    using get_cur_pcb_ptr_on_stack [of "int a" s0] stack a(2) k0 by (simp add: keeps_def)
  have "a \<in> used s" using system_active [OF procs r] a(1) by auto
  then have pid: "pcb_pid (pcbs s0 (get_pcb_ptr (int a))) = of_nat a"
    using procs by (simp add: s0_def procs_ok_def flip: own_pcb_def)
  have a3: "a = 0 \<or> a = 1 \<or> a = 2" using a(2) by auto
  then have base: "(of_nat a :: u32) = 0 \<or> (of_nat a :: u32) = 1 \<or> (of_nat a :: u32) = 2"
    "unat (of_nat a :: u32) = a" by auto
  have free: "free_pid (pid_bitmap s2) = Some a"
    unfolding f2(1) using procs tree a(2) by (intro free_pid_released) (simp_all add: procs_ok_def tree_ok_def)
  have ready: "shell_ready s2" by (rule shell_ready_image [OF shell img])
  then obtain d where d: "dir_lookup (kmem s2) (kfs s2) shell_name = Some d"
    "length (program_header s2 d) = 40" "magic_ok (program_header s2 d)"
    "inode_ok (kmem s2) (kfs s2) (inode_num d)" by (auto simp: shell_ready_def)
  have l2: "locals_ok l s2" using l locals_ok_image [OF img mnt] by simp
  then have can: "can_execute l s2" and arg: "0 < length (l_args l)"
    using shell_ready_execute [OF ready] by (simp_all add: locals_ok_def)
  from execute_cmd_run [OF m2(1) can shell_parse [OF arg] d(1,4,2,3) free] obtain t bs where
    t: "execute_cmd l (map of_char ''shell'') s2 = Some (Enter_user (header_entry (program_header s2 d)) (USER_STACK_ADDR - 4), t)"
    and ent: "entered (0 # drop 1 (l_args l)) bs a s2 t" by blast
  have "halt l status s = Some (Enter_user (header_entry (program_header s2 d)) (USER_STACK_ADDR - 4), t)"
    unfolding halt_def Let_def s0_def [symmetric] cur pid base(2) s1_def [symmetric] s2_def [symmetric] t
    using base(1) by simp
  with run have "c = Enter_user (header_entry (program_header s2 d)) (USER_STACK_ADDR - 4)" "s' = t" by simp_all
  then show ?thesis
    using entered_shell_system [OF sys a ent f2(1,2) pcbs2 f2(3) m2(2) img] by simp
qed

lemma halt_system:
  assumes sys: "system_ok s" and l: "locals_ok l s" and run: "halt l status s = Some (c, s')"
  shows "system_ok (resume_at c s')"
proof -
  have "procs_ok s" "running_ok s" using sys by (simp_all add: system_ok_def)
  then obtain a where a: "active s = int a" by (rule system_active)
  show ?thesis
    using halt_shell_system [OF sys a _ l run] halt_child_system [OF sys a _ run] by (cases "a < 3") simp_all
qed

subsection \<open>The timer\<close>

lemma tick_system:
  assumes sys: "system_ok s" and frame: "frame_ok (active s) (ebp_reg s)"
    and run: "pit_handler l s = Some (d, s')"
  shows "system_ok (dispatch_at d s')"
proof -
  have r: "running_ok s" and procs: "procs_ok s" and saved: "saved_ok s" and mnt: "mounted s"
    and tree: "tree_ok (schedule s) (used s) (parent s)"
    using sys by (simp_all add: system_ok_def procs_ok_def shell_ready_def)
  obtain a where a: "active s = int a" "a < 6" "a \<in> used s" "nat (run_terminal s) < length (schedule s)"
    "schedule s ! nat (run_terminal s) = int a" "int a \<in> set (schedule s)" "get_pid s = int a"
    by (rule system_active [OF procs r])
  have maps: "mapped (Some (of_nat a)) s" and con: "console_ok s" and t: "run_terminal s \<in> {0, 1, 2}"
    using r a(1) by (simp_all add: running_ok_def screen_ok_def console_ok_def)
  note f = pit_save_fields [OF t]
  define x where "x = schedule s ! nat ((run_terminal s + 1) mod 3)"
  have len: "length (schedule s) = 3" using procs by (simp add: procs_ok_def)
  have kx: "nat ((run_terminal s + 1) mod 3) < 3" "nat ((run_terminal s + 1) mod 3) \<noteq> nat (run_terminal s)"
    using t by auto
  have x: "x \<in> set (schedule s)" unfolding x_def by (rule nth_mem) (use kx(1) len in simp)
  have xa: "x \<noteq> int a"
    using tree kx a(4,5) len nth_eq_iff_index_eq [of "schedule s" "nat ((run_terminal s + 1) mod 3)" "nat (run_terminal s)"]
    by (simp add: x_def tree_ok_def)
  have x6: "0 \<le> x" "x < 6" using tree_bounds [OF tree x] by simp_all
  from pit_handler_run [OF maps con x_def x6, of l] run
  have d: "d = Continue (run_ebp (pcbs (pit_save s) (get_pcb_ptr x)))" and sw: "switched_to x (pit_save s) s'"
    by auto
  have cur: "get_cur_pcb_ptr s = get_pcb_ptr (int a)"
    using get_cur_pcb_ptr_on_stack [of "int a" s] r a(1,2) by (simp add: running_ok_def)
  have "pcbs s' = (pcbs s)(get_pcb_ptr (int a) := (own_pcb a s)\<lparr>run_ebp := ebp_reg s\<rparr>)"
    using sw f cur by (simp add: switched_to_def own_pcb_def)
  note own = own_pcb_update [OF this a(2)]
  have fields: "pcb_pid (own_pcb n s') = pcb_pid (own_pcb n s)" "parent s' n = parent s n"
    "pcb_ebp (own_pcb n s') = pcb_ebp (own_pcb n s)" if "n < 6" for n
    using own [OF that] by (simp_all add: parent_def)
  have same: "pid_bitmap s' = pid_bitmap s" "schedule s' = schedule s" "pmem s' = pmem s" "kfs s' = kfs s"
    "run_terminal s' = (run_terminal s + 1) mod 3"
    using sw f by (simp_all add: switched_to_def)
  have used': "used s' = used s" by (simp add: used_def same)
  have act: "active s' = x" by (simp add: active_def same x_def)
  have "tree_ok (schedule s') (used s') (parent s')"
    unfolding same used' by (rule tree_cong [OF tree]) (simp add: fields used_def)
  moreover have "pcb_pid (own_pcb n s') = of_nat n \<and>
      (3 \<le> n \<longrightarrow> frame_ok (int (parent s' n)) (pcb_ebp (own_pcb n s')))" if "n \<in> used s'" for n
  proof -
    have n: "n \<in> used s" using that used' by simp
    then have "n < 6" by (simp add: used_def)
    then show ?thesis using procs n fields by (simp add: procs_ok_def)
  qed
  ultimately have "procs_ok s'" using procs by (simp add: procs_ok_def same)
  moreover have "saved_ok s'"
    unfolding saved_ok_def act same
  proof (intro ballI impI)
    fix y assume y: "y \<in> set (schedule s)" "y \<noteq> x"
    then have y6: "0 \<le> y" "nat y < 6" using tree_bounds [OF tree y(1)] by auto
    show "frame_ok y (run_ebp (own_pcb (nat y) s'))"
      using own [OF y6(2)] y y6(1) frame saved a(1) by (auto simp: saved_ok_def)
  qed
  moreover have "shell_ready s'"
    using same_image_pmem [OF maps _ mnt same(4)] sw same(3) sys
    by (auto simp: system_ok_def switched_to_def intro: shell_ready_image)
  moreover have "on_stack x (run_ebp (pcbs (pit_save s) (get_pcb_ptr x)) + 8)"
  proof -
    have "pcbs (pit_save s) (get_pcb_ptr x) = own_pcb (nat x) s"
      using f(2) cur x6 a(2) xa get_pcb_ptr_inj [of x "int a"] by (simp add: own_pcb_def)
    then show ?thesis
      using saved x xa a(1) x6 by (intro frame_ok_stack) (simp_all add: saved_ok_def)
  qed
  ultimately show ?thesis
    using sw act by (simp add: d switched_to_def system_ok_def running_ok_def active_def)
qed

subsection \<open>Work that changes no process\<close>

text \<open>A program in user mode writes only to its own page.\<close>

lemma user_work_keeps:
  assumes maps: "mapped (Some n) s" and mnt: "mounted s"
    and m: "\<And>pa. drop_bit 22 pa \<noteq> 2 + n \<Longrightarrow> m pa = pmem s pa"
  shows "keeps s (s\<lparr>pmem := m\<rparr>)"
proof -
  let ?s = "s\<lparr>pmem := m\<rparr>"
  have n: "n < 6" using maps by (auto simp: mapped_def)
  have maps': "mapped p ?s = mapped p s" for p by (rule mapped_cong) simp_all
  have scr: "screen_ok ?s = screen_ok s" by (rule screen_ok_cong) simp_all
  have "same_image s ?s"
  proof (rule same_image_kernel_page [OF mnt])
    fix x :: u32 assume x: "drop_bit 22 x = 1"
    then have "m x = pmem s x" using m n frame_not_kernel by simp
    then show "kmem ?s x = kmem s x" using kmem_kernel_page [OF maps x] kmem_kernel_page [of "Some n" ?s x] maps maps' x by simp
  qed simp
  with maps' scr show ?thesis by (simp add: keeps_def own_pcb_def)
qed

text \<open>Opening and closing files and installing handlers change other parts of the control block.\<close>

lemma update_pcb_keeps:
  assumes "\<And>p. pcb_pid (g p) = pcb_pid p \<and> parent_pid (g p) = parent_pid p \<and> pcb_ebp (g p) = pcb_ebp p \<and> run_ebp (g p) = run_ebp p"
  shows "keeps s (update_pcb a g s)"
proof -
  have acc: "access (update_pcb a g s) = access s" by (rule access_cong) (simp_all add: update_pcb_def)
  then have "kmem (update_pcb a g s) = kmem s" by (rule kmem_cong) (simp add: update_pcb_def)
  moreover have "mapped p (update_pcb a g s) = mapped p s" for p by (rule mapped_cong) (simp_all add: update_pcb_def)
  ultimately show ?thesis using assms by (simp add: keeps_def same_image_def own_pcb_def update_pcb_def)
qed

subsection \<open>Every run of the kernel\<close>

lemma step_system: "step s s' \<Longrightarrow> system_ok s \<Longrightarrow> system_ok s'"
proof (induction rule: step.induct)
  case (Call s sp bp)
  then show ?case by (simp add: system_ok_def running_ok_def active_def)
qed (auto intro: keeps_system execute_system halt_system tick_system)

lemma reachable_system: "step\<^sup>*\<^sup>* s s' \<Longrightarrow> system_ok s \<Longrightarrow> system_ok s'"
  by (induction rule: rtranclp_induct) (auto intro: step_system)


subsection \<open>A concrete run\<close>

text \<open>Three shells, each interrupted on its own stack, of which the first runs.\<close>

definition demo_pcbs :: "u32 \<Rightarrow> pcb" where
  "demo_pcbs a = (if a = 0x7FE000 then empty_pcb\<lparr>pcb_pid := 0\<rparr>
     else if a = 0x7FC000 then empty_pcb\<lparr>pcb_pid := 1, run_ebp := 0x7FDF00\<rparr>
     else empty_pcb\<lparr>pcb_pid := 2, run_ebp := 0x7FBF00\<rparr>)"

definition demo_system :: kernel where
  "demo_system = demo_shell\<lparr>pcbs := demo_pcbs, tss_esp0 := 0x7FFFFC\<rparr>"

lemma demo_system_fields:
  "pcbs demo_system = demo_pcbs" "tss_esp0 demo_system = 0x7FFFFC" "schedule demo_system = [0, 1, 2]"
  "pid_bitmap demo_system = [1, 1, 1, 0, 0, 0]" "run_terminal demo_system = 0"
  "esp_reg demo_system = 0x7FFF00" "ebp_reg demo_system = 0x7FFF80" "kfs demo_system = demo_fs"
  by (simp_all add: demo_system_def demo_shell_fields)

lemma demo_system_ready: "shell_ready demo_system" "locals_ok demo_locals demo_system"
proof -
  have "access demo_system = access demo_shell" by (rule access_cong) (simp_all add: demo_system_def)
  then have k: "kmem demo_system = kmem demo_shell" by (rule kmem_cong) (simp add: demo_system_def)
  have f: "kfs demo_system = kfs demo_shell" by (simp add: demo_system_def)
  have "can_execute demo_locals demo_system" using demo_shell_program(1) by (simp add: can_execute_def mounted_def off_image_def k f)
  then show "locals_ok demo_locals demo_system" by (simp add: can_execute_def locals_ok_def demo_locals_def)
  have dirs: "\<exists>x \<in> {0x400040, 0x400080}. d = dentry_at demo_program x"
    if d: "dir_lookup (kmem demo_shell) (kfs demo_shell) name = Some d" for name d
  proof -
    have "dir_lookup demo_program demo_fs name = Some d"
      using dir_lookup_cong [OF demo_program_ok(1) _ demo_shell_image, of name] d
      by (simp add: demo_program_counts demo_shell_fields)
    then show ?thesis
      by (auto simp: dir_lookup_def demo_program_counts upt_rec dir_entry_addr_def demo_fs_simps split: if_splits)
  qed
  have "inode_num (dentry_at demo_program 0x400040) = 0"
    by (simp add: dentry_at_def load32_def demo_program_at demo_image_at)
  then have "inode_ok (kmem demo_shell) (kfs demo_shell) (inode_num d)"
    if "dir_lookup (kmem demo_shell) (kfs demo_shell) name = Some d" for name d
    using dirs [OF that] demo_program_lookup(2) demo_shell_program(3) by auto
  moreover have "dir_lookup (kmem demo_shell) (kfs demo_shell) shell_name = Some (dentry_at demo_program 0x400080)"
    using demo_shell_program(2) by (simp add: shell_name_def)
  ultimately show "shell_ready demo_system"
    using \<open>can_execute demo_locals demo_system\<close> demo_header(1,2)
    by (auto simp: shell_ready_def can_execute_def program_header_def k f)
qed

lemma demo_system_ok: "system_ok demo_system"
proof -
  have used: "used demo_system = {0, 1, 2}"
    by (auto simp: used_def demo_system_fields less_Suc_eq numeral_eq_Suc)
  have act: "active demo_system = 0" by (simp add: active_def demo_system_fields)
  have "procs_ok demo_system"
    by (simp add: procs_ok_def tree_ok_def used demo_system_fields own_pcb_def get_pcb_ptr_def demo_pcbs_def)
  moreover have "saved_ok demo_system"
    by (simp add: saved_ok_def act demo_system_fields own_pcb_def get_pcb_ptr_def demo_pcbs_def frame_ok_def)
  moreover have "running_ok demo_system"
  proof -
    have "mapped p demo_system = mapped p demo_shell" for p by (rule mapped_cong) (simp_all add: demo_system_def)
    then show ?thesis
      using demo_shell_mapped demo_shell_screen
      by (simp add: running_ok_def act on_stack_def demo_system_fields) (simp add: demo_system_def)
  qed
  ultimately show ?thesis using demo_system_ready by (simp add: system_ok_def)
qed


end
