(* ===== verification/Interrupts.thy ===== *)
theory Interrupts
  imports System
begin

text \<open>
  How control enters the kernel: the interrupt descriptor table of \<^verbatim>\<open>mp3/student-distrib/idt.c\<close>,
  with the descriptors of \<^verbatim>\<open>x86_desc.h\<close> and the entry points of \<^verbatim>\<open>assembly_linkage.S\<close>, the
  exception handlers, and the dispatch of system calls by number.  Descriptors have the fields
  of the source at their widths; what the processor reads is the 64-bit value of the union.
\<close>

subsection \<open>Descriptors\<close>

abbreviation KERNEL_CS :: "16 word" where "KERNEL_CS \<equiv> 0x0010"
abbreviation KERNEL_TSS :: "16 word" where "KERNEL_TSS \<equiv> 0x0030"
abbreviation KERNEL_LDT :: "16 word" where "KERNEL_LDT \<equiv> 0x0038"
abbreviation TSS_SIZE :: u32 where "TSS_SIZE \<equiv> 104"
abbreviation NUM_VEC :: nat where "NUM_VEC \<equiv> 256"

record idt_desc_t =
  offset_15_00 :: "16 word"
  seg_selector :: "16 word"
  reserved4 :: "8 word"
  reserved3 :: "1 word"
  reserved2 :: "1 word"
  reserved1 :: "1 word"
  gate_size :: "1 word"
  reserved0 :: "1 word"
  gate_dpl :: "2 word"
  gate_present :: "1 word"
  offset_31_16 :: "16 word"

record seg_desc_t =
  seg_lim_15_00 :: "16 word"
  base_15_00 :: "16 word"
  base_23_16 :: "8 word"
  seg_type :: "4 word"
  seg_sys :: "1 word"
  seg_dpl :: "2 word"
  seg_present :: "1 word"
  seg_lim_19_16 :: "4 word"
  seg_avail :: "1 word"
  seg_reserved :: "1 word"
  seg_opsize :: "1 word"
  seg_granularity :: "1 word"
  base_31_24 :: "8 word"

text \<open>The union's \<^verbatim>\<open>val\<close>: the fields packed from the lowest bit on.\<close>

definition idt_val :: "idt_desc_t \<Rightarrow> 64 word" where
  "idt_val d = ucast (offset_15_00 d) OR push_bit 16 (ucast (seg_selector d)) OR push_bit 32 (ucast (reserved4 d)) OR
     push_bit 40 (ucast (reserved3 d)) OR push_bit 41 (ucast (reserved2 d)) OR push_bit 42 (ucast (reserved1 d)) OR
     push_bit 43 (ucast (gate_size d)) OR push_bit 44 (ucast (reserved0 d)) OR push_bit 45 (ucast (gate_dpl d)) OR
     push_bit 47 (ucast (gate_present d)) OR push_bit 48 (ucast (offset_31_16 d))"

definition seg_val :: "seg_desc_t \<Rightarrow> 64 word" where
  "seg_val d = ucast (seg_lim_15_00 d) OR push_bit 16 (ucast (base_15_00 d)) OR push_bit 32 (ucast (base_23_16 d)) OR
     push_bit 40 (ucast (seg_type d)) OR push_bit 44 (ucast (seg_sys d)) OR push_bit 45 (ucast (seg_dpl d)) OR
     push_bit 47 (ucast (seg_present d)) OR push_bit 48 (ucast (seg_lim_19_16 d)) OR push_bit 52 (ucast (seg_avail d)) OR
     push_bit 53 (ucast (seg_reserved d)) OR push_bit 54 (ucast (seg_opsize d)) OR
     push_bit 55 (ucast (seg_granularity d)) OR push_bit 56 (ucast (base_31_24 d))"

definition SET_IDT_ENTRY :: "u32 \<Rightarrow> idt_desc_t \<Rightarrow> idt_desc_t" where
  "SET_IDT_ENTRY addr str =
     str\<lparr>offset_31_16 := ucast (drop_bit 16 (addr AND 0xFFFF0000)),
         offset_15_00 := ucast (addr AND 0xFFFF), gate_present := 1\<rparr>"

text \<open>\<^verbatim>\<open>SET_LDT_PARAMS\<close> and \<^verbatim>\<open>SET_TSS_PARAMS\<close> are the same assignments.\<close>

definition SET_LDT_PARAMS :: "u32 \<Rightarrow> u32 \<Rightarrow> seg_desc_t \<Rightarrow> seg_desc_t" where
  "SET_LDT_PARAMS addr lim str =
     str\<lparr>base_31_24 := ucast (drop_bit 24 (addr AND 0xFF000000)),
         base_23_16 := ucast (drop_bit 16 (addr AND 0x00FF0000)), base_15_00 := ucast (addr AND 0x0000FFFF),
         seg_lim_19_16 := ucast (drop_bit 16 (lim AND 0x000F0000)), seg_lim_15_00 := ucast (lim AND 0x0000FFFF)\<rparr>"

definition SET_TSS_PARAMS :: "u32 \<Rightarrow> u32 \<Rightarrow> seg_desc_t \<Rightarrow> seg_desc_t" where
  "SET_TSS_PARAMS addr lim str =
     str\<lparr>base_31_24 := ucast (drop_bit 24 (addr AND 0xFF000000)),
         base_23_16 := ucast (drop_bit 16 (addr AND 0x00FF0000)), base_15_00 := ucast (addr AND 0x0000FFFF),
         seg_lim_19_16 := ucast (drop_bit 16 (lim AND 0x000F0000)), seg_lim_15_00 := ucast (lim AND 0x0000FFFF)\<rparr>"

subsection \<open>The table\<close>

text \<open>The entry points; where the linker put them is a parameter of \<^verbatim>\<open>idt_init\<close>.\<close>

datatype linkage =
    divided_error_handler_linkage | debug_handler_linkage | nmi_handler_linkage | breakpoint_handler_linkage
  | overflow_handler_linkage | bounds_check_handler_linkage | invalid_opcode_handler_linkage
  | device_not_available_handler_linkage | double_fault_handler_linkage
  | coprocessor_segment_overrun_handler_linkage | invalid_tss_handler_linkage
  | segment_not_present_handler_linkage | stack_exception_handler_linkage
  | general_protection_fault_handler_linkage | page_fault_handler_linkage | reserved_handler_linkage
  | floating_point_error_handler_linkage | alignment_check_handler_linkage | machine_check_handler_linkage
  | simd_floating_point_handler_linkage | pit_handler_linkage | keyboard_handler_linkage | rtc_handler_linkage
  | system_call_handler_linkage

definition idt_handlers :: "(nat \<times> linkage) list" where
  "idt_handlers =
     [(0, divided_error_handler_linkage), (1, debug_handler_linkage), (2, nmi_handler_linkage),
      (3, breakpoint_handler_linkage), (4, overflow_handler_linkage), (5, bounds_check_handler_linkage),
      (6, invalid_opcode_handler_linkage), (7, device_not_available_handler_linkage),
      (8, double_fault_handler_linkage), (9, coprocessor_segment_overrun_handler_linkage),
      (10, invalid_tss_handler_linkage), (11, segment_not_present_handler_linkage),
      (12, stack_exception_handler_linkage), (13, general_protection_fault_handler_linkage),
      (14, page_fault_handler_linkage), (15, reserved_handler_linkage),
      (16, floating_point_error_handler_linkage), (17, alignment_check_handler_linkage),
      (18, machine_check_handler_linkage), (19, simd_floating_point_handler_linkage),
      (0x20, pit_handler_linkage), (0x21, keyboard_handler_linkage), (0x28, rtc_handler_linkage),
      (0x80, system_call_handler_linkage)]"

text \<open>The body of the loop for entry \<open>i\<close>.\<close>

definition idt_default :: "nat \<Rightarrow> idt_desc_t \<Rightarrow> idt_desc_t" where
  "idt_default i d =
     (let d = d\<lparr>seg_selector := KERNEL_CS, reserved4 := 0, reserved2 := 1, reserved1 := 1, gate_size := 1,
                reserved0 := 0\<rparr>;
          d = (if i = 0x80 then d\<lparr>reserved3 := 1, gate_dpl := 3\<rparr> else d\<lparr>reserved3 := 0, gate_dpl := 0\<rparr>)
      in d\<lparr>gate_present := 0\<rparr>)"

definition idt_init :: "(linkage \<Rightarrow> u32) \<Rightarrow> idt_desc_t list \<Rightarrow> idt_desc_t list" where
  "idt_init addr idt =
     (let idt = fold (\<lambda>i idt. idt[i := idt_default i (idt ! i)]) [0..<NUM_VEC] idt
      in fold (\<lambda>(v, h) idt. idt[v := SET_IDT_ENTRY (addr h) (idt ! v)]) idt_handlers idt)"

subsection \<open>Handlers\<close>

text \<open>The number and the message that each exception handler passes on.\<close>

fun exception_info :: "linkage \<Rightarrow> (u8 \<times> string) option" where
  "exception_info divided_error_handler_linkage = Some (0, ''Divided Error'')"
| "exception_info debug_handler_linkage = Some (1, ''Debug Exception'')"
| "exception_info nmi_handler_linkage = Some (2, ''NMI Interrupt'')"
| "exception_info breakpoint_handler_linkage = Some (3, ''Breakpoint'')"
| "exception_info overflow_handler_linkage = Some (4, ''Overflow'')"
| "exception_info bounds_check_handler_linkage = Some (5, ''Bound Range Exceeded'')"
| "exception_info invalid_opcode_handler_linkage = Some (6, ''Invalid Opcode'')"
| "exception_info device_not_available_handler_linkage = Some (7, ''Device Not Available'')"
| "exception_info double_fault_handler_linkage = Some (8, ''Double Fault'')"
| "exception_info coprocessor_segment_overrun_handler_linkage = Some (9, ''Coprocessor Segment Overrun'')"
| "exception_info invalid_tss_handler_linkage = Some (10, ''Invalid TSS'')"
| "exception_info segment_not_present_handler_linkage = Some (11, ''Segment Not Present'')"
| "exception_info stack_exception_handler_linkage = Some (12, ''Stack Segment Fault'')"
| "exception_info general_protection_fault_handler_linkage = Some (13, ''General Protection'')"
| "exception_info page_fault_handler_linkage = Some (14, ''Page Fault'')"
| "exception_info reserved_handler_linkage = Some (15, ''Reserved'')"
| "exception_info floating_point_error_handler_linkage = Some (16, ''x87 Floating Point Exception'')"
| "exception_info alignment_check_handler_linkage = Some (17, ''Alignment Check'')"
| "exception_info machine_check_handler_linkage = Some (18, ''Machine Check'')"
| "exception_info simd_floating_point_handler_linkage = Some (19, ''SIMD Floating Point Exception'')"
| "exception_info h = None"

definition handle_exception :: "locals \<Rightarrow> u8 \<Rightarrow> string \<Rightarrow> 'a kernel_scheme \<Rightarrow> (control \<times> 'a kernel_scheme) option" where
  "handle_exception l vector msg s =
     (let s = put_string (map of_char ''Exception '' @ number_text 10 (unat vector) @ map of_char '': ''
                @ message msg) s
      in halt l 1 s)"

text \<open>The system call entry: the number in \<^verbatim>\<open>eax\<close> is compared as a signed value, the arguments
  are \<^verbatim>\<open>ebx\<close>, \<^verbatim>\<open>ecx\<close> and \<^verbatim>\<open>edx\<close>.\<close>

definition jump_table ::
  "locals \<Rightarrow> events \<Rightarrow> u8 list \<Rightarrow> nat \<Rightarrow> u32 \<Rightarrow> u32 \<Rightarrow> u32 \<Rightarrow> 'a kernel_scheme \<Rightarrow> (control \<times> 'a kernel_scheme) option" where
  "jump_table l ev junk n ebx ecx edx s =
     (if n = 1 then halt l (ucast ebx) s
      else if n = 2 then execute l ebx s
      else if n = 3 then map_option (\<lambda>(r, s). (Return r, s)) (sys_read ev (sint ebx) ecx (sint edx) s)
      else if n = 4 then (case sys_write (sint ebx) ecx (sint edx) s of (r, s) \<Rightarrow> Some (Return r, s))
      else if n = 5 then map_option (\<lambda>(r, s). (Return r, s)) (sys_open ebx s)
      else if n = 6 then (case sys_close (sint ebx) s of (r, s) \<Rightarrow> Some (Return r, s))
      else if n = 7 then map_option (\<lambda>(r, s). (Return r, s)) (getargs junk ebx (sint ecx) s)
      else if n = 8 then (case vidmap ebx s of (r, s) \<Rightarrow> Some (Return r, s))
      else if n = 9 then (case set_handler (sint ebx) ecx s of (r, s) \<Rightarrow> Some (Return r, s))
      else if n = 10 then (case sigreturn s of (r, s) \<Rightarrow> Some (Return r, s))
      else None)"

definition system_call ::
  "locals \<Rightarrow> events \<Rightarrow> u8 list \<Rightarrow> u32 \<Rightarrow> u32 \<Rightarrow> u32 \<Rightarrow> u32 \<Rightarrow> 'a kernel_scheme \<Rightarrow> (control \<times> 'a kernel_scheme) option" where
  "system_call l ev junk eax ebx ecx edx s =
     (if sint eax \<le> 0 then Some (Return (-1), s)
      else if sint eax > 10 then Some (Return (-1), s)
      else jump_table l ev junk (unat eax) ebx ecx edx s)"

subsection \<open>What the processor reads\<close>

text \<open>A gate and a segment as the processor decodes them from the descriptor's 64 bits.\<close>

record gate =
  g_offset :: u32
  g_selector :: "16 word"
  g_type :: "4 word"
  g_dpl :: "2 word"
  g_present :: bool

definition processor_gate :: "64 word \<Rightarrow> gate" where
  "processor_gate v = \<lparr>g_offset = ucast (take_bit 16 v) OR push_bit 16 (ucast (drop_bit 48 v)),
     g_selector = ucast (drop_bit 16 v), g_type = ucast (drop_bit 40 v), g_dpl = ucast (drop_bit 45 v),
     g_present = bit v 47\<rparr>"

definition seg_base :: "64 word \<Rightarrow> u32" where
  "seg_base v = ucast (take_bit 24 (drop_bit 16 v)) OR push_bit 24 (ucast (drop_bit 56 v))"

definition seg_limit :: "64 word \<Rightarrow> u32" where
  "seg_limit v = ucast (take_bit 16 v) OR push_bit 16 (ucast (take_bit 4 (drop_bit 48 v)))"

lemma bit_beyond:
  "16 \<le> n \<Longrightarrow> \<not> bit (a :: 16 word) n" "8 \<le> n \<Longrightarrow> \<not> bit (b :: 8 word) n" "4 \<le> n \<Longrightarrow> \<not> bit (c :: 4 word) n"
  "2 \<le> n \<Longrightarrow> \<not> bit (d :: 2 word) n" "1 \<le> n \<Longrightarrow> \<not> bit (e :: 1 word) n"
  by (auto dest: bit_imp_le_length)

lemma bit_idt_val:
  "bit (idt_val d) n \<longleftrightarrow>
    (if n < 16 then bit (offset_15_00 d) n else if n < 32 then bit (seg_selector d) (n - 16)
     else if n < 40 then bit (reserved4 d) (n - 32) else if n < 41 then bit (reserved3 d) (n - 40)
     else if n < 42 then bit (reserved2 d) (n - 41) else if n < 43 then bit (reserved1 d) (n - 42)
     else if n < 44 then bit (gate_size d) (n - 43) else if n < 45 then bit (reserved0 d) (n - 44)
     else if n < 47 then bit (gate_dpl d) (n - 45) else if n < 48 then bit (gate_present d) (n - 47)
     else bit (offset_31_16 d) (n - 48))"
  by (simp add: idt_val_def bit_simps bit_beyond not_less) (auto dest: bit_imp_le_length)

lemma idt_val_fields:
  "ucast (take_bit 16 (idt_val d)) = (ucast (offset_15_00 d) :: u32)"
  "ucast (drop_bit 48 (idt_val d)) = (ucast (offset_31_16 d) :: u32)"
  "ucast (drop_bit 16 (idt_val d)) = seg_selector d"
  "ucast (drop_bit 45 (idt_val d)) = gate_dpl d"
  by (rule bit_word_eqI, simp add: bit_idt_val bit_simps bit_beyond not_less)+

lemma idt_val_type:
  "ucast (drop_bit 40 (idt_val d)) =
    (ucast (reserved3 d) OR push_bit 1 (ucast (reserved2 d)) OR push_bit 2 (ucast (reserved1 d)) OR
     push_bit 3 (ucast (gate_size d)) :: 4 word)"
  by (rule bit_word_eqI) (auto simp: bit_idt_val bit_simps bit_beyond not_less simp del: push_bit_Suc One_nat_def dest: bit_imp_le_length)

lemma bit_seg_val:
  "bit (seg_val d) n \<longleftrightarrow>
    (if n < 16 then bit (seg_lim_15_00 d) n else if n < 32 then bit (base_15_00 d) (n - 16)
     else if n < 40 then bit (base_23_16 d) (n - 32) else if n < 44 then bit (seg_type d) (n - 40)
     else if n < 45 then bit (seg_sys d) (n - 44) else if n < 47 then bit (seg_dpl d) (n - 45)
     else if n < 48 then bit (seg_present d) (n - 47) else if n < 52 then bit (seg_lim_19_16 d) (n - 48)
     else if n < 53 then bit (seg_avail d) (n - 52) else if n < 54 then bit (seg_reserved d) (n - 53)
     else if n < 55 then bit (seg_opsize d) (n - 54) else if n < 56 then bit (seg_granularity d) (n - 55)
     else bit (base_31_24 d) (n - 56))"
  by (simp add: seg_val_def bit_simps bit_beyond not_less) (auto dest: bit_imp_le_length)

lemma byte_masks:
  "(0xFF000000 :: u32) = push_bit 24 (mask 8)" "(0xFF0000 :: u32) = push_bit 16 (mask 8)"
  "(0xF0000 :: u32) = push_bit 16 (mask 4)" "(0xFFFF :: u32) = mask 16" "(0xFFFF0000 :: u32) = push_bit 16 (mask 16)"
  by (simp_all add: mask_eq_exp_minus_1 push_bit_eq_mult)

lemma seg_params_base: "seg_base (seg_val (SET_LDT_PARAMS a lim d)) = a"
  unfolding seg_base_def SET_LDT_PARAMS_def byte_masks
  by (rule bit_word_eqI) (auto simp: bit_seg_val bit_simps bit_beyond not_less)

lemma seg_params_limit: "lim < 0x100000 \<Longrightarrow> seg_limit (seg_val (SET_LDT_PARAMS a lim d)) = lim"
proof (rule bit_word_eqI)
  fix n assume lim: "lim < 0x100000" and n: "n < LENGTH(32)"
  have "take_bit 20 lim = lim" using lim by (simp add: word_unat_eq_iff unsigned_take_bit_eq word_less_nat_alt take_bit_nat_eq_self)
  then have "bit lim n \<longleftrightarrow> n < 20 \<and> bit lim n" by (metis bit_take_bit_iff)
  then show "bit (seg_limit (seg_val (SET_LDT_PARAMS a lim d))) n \<longleftrightarrow> bit lim n"
    using n unfolding seg_limit_def SET_LDT_PARAMS_def byte_masks
    by (auto simp: bit_seg_val bit_simps bit_beyond not_less)
qed

lemma SET_TSS_PARAMS_eq: "SET_TSS_PARAMS = SET_LDT_PARAMS"
  by (simp add: fun_eq_iff SET_TSS_PARAMS_def SET_LDT_PARAMS_def)

subsection \<open>The table after \<^verbatim>\<open>idt_init\<close>\<close>

lemma fold_update_each:
  "length xs = n \<Longrightarrow> k \<le> n \<Longrightarrow> fold (\<lambda>i xs. xs[i := f i (xs ! i)]) [0..<k] xs =
    map (\<lambda>i. if i < k then f i (xs ! i) else xs ! i) [0..<n]"
proof (induction k)
  case 0
  then show ?case using map_nth [of xs] by simp
next
  case (Suc k)
  then show ?case by (auto simp: nth_list_update intro!: nth_equalityI)
qed

lemma fold_update_assoc:
  "distinct (map fst kvs) \<Longrightarrow> v < length xs \<Longrightarrow>
    fold (\<lambda>(k, h) xs. xs[k := g h (xs ! k)]) kvs xs ! v =
    (case map_of kvs v of None \<Rightarrow> xs ! v | Some h \<Rightarrow> g h (xs ! v))"
proof (induction kvs arbitrary: xs)
  case (Cons kv kvs)
  obtain k h where kv: "kv = (k, h)" by force
  have "map_of kvs k = None" using Cons.prems(1) by (simp add: kv map_of_eq_None_iff)
  then show ?case using Cons by (auto simp: kv nth_list_update split: option.split)
qed simp

lemma distinct_handlers: "distinct (map fst idt_handlers)"
  by (simp add: idt_handlers_def)

lemma idt_init_entry:
  assumes "length idt = NUM_VEC" and "v < NUM_VEC"
  shows "idt_init addr idt ! v = (case map_of idt_handlers v of None \<Rightarrow> idt_default v (idt ! v)
     | Some h \<Rightarrow> SET_IDT_ENTRY (addr h) (idt_default v (idt ! v)))"
proof -
  have "fold (\<lambda>i idt. idt[i := idt_default i (idt ! i)]) [0..<NUM_VEC] idt =
      map (\<lambda>i. idt_default i (idt ! i)) [0..<NUM_VEC]"
    using fold_update_each [OF assms(1) order_refl, of idt_default] by (simp cong: map_cong)
  then show ?thesis
    unfolding idt_init_def Let_def using assms(2) fold_update_assoc [OF distinct_handlers, of v _ "\<lambda>h. SET_IDT_ENTRY (addr h)"]
    by (simp split: option.split)
qed

lemma entry_gate:
  "processor_gate (idt_val (SET_IDT_ENTRY a (idt_default v d))) =
    \<lparr>g_offset = a, g_selector = KERNEL_CS, g_type = (if v = 0x80 then 15 else 14),
     g_dpl = (if v = 0x80 then 3 else 0), g_present = True\<rparr>"
proof -
  have "ucast (ucast (a AND 0xFFFF) :: 16 word) OR push_bit 16 (ucast (ucast (drop_bit 16 (a AND 0xFFFF0000)) :: 16 word)) = a"
    unfolding byte_masks by (rule bit_word_eqI) (auto simp: bit_simps not_less)
  then show ?thesis
    by (simp add: processor_gate_def idt_val_fields idt_val_type bit_idt_val SET_IDT_ENTRY_def idt_default_def Let_def)
qed

lemma default_gate: "\<not> g_present (processor_gate (idt_val (idt_default v d)))"
  by (simp add: processor_gate_def bit_idt_val idt_default_def Let_def)

text \<open>A software interrupt \<^verbatim>\<open>int n\<close> in user mode: the processor compares the privilege of the gate
  with that of the program before anything else.  The result is the code it runs: the address
  in the gate or the handler of a fault.\<close>

definition user_interrupt :: "idt_desc_t list \<Rightarrow> nat \<Rightarrow> u32" where
  "user_interrupt idt n =
     (let g = processor_gate (idt_val (idt ! n)); gate = (\<lambda>v. g_offset (processor_gate (idt_val (idt ! v))))
      in if g_dpl g < 3 then gate 13 else if \<not> g_present g then gate 11 else g_offset g)"

text \<open>C29: the interrupt table.  After \<^verbatim>\<open>idt_init\<close> the processor finds for each of the twenty exceptions,
  the timer, the keyboard, the clock and the system call a present gate that leads to its entry
  point in the kernel's code segment; all are interrupt gates closed to programs except vector
  0x80, a trap gate open to them; every other vector is not present.  So from user mode only
  \<^verbatim>\<open>int 0x80\<close> reaches its own handler; every other number raises a general protection fault.\<close>

theorem idt_init_gates:
  assumes "length idt = NUM_VEC" and "v < NUM_VEC"
  shows "(case map_of idt_handlers v of
      None \<Rightarrow> \<not> g_present (processor_gate (idt_val (idt_init addr idt ! v)))
    | Some h \<Rightarrow> processor_gate (idt_val (idt_init addr idt ! v)) =
        \<lparr>g_offset = addr h, g_selector = KERNEL_CS, g_type = (if v = 0x80 then 15 else 14),
         g_dpl = (if v = 0x80 then 3 else 0), g_present = True\<rparr>) \<and>
    user_interrupt (idt_init addr idt) v =
      addr (if v = 0x80 then system_call_handler_linkage else general_protection_fault_handler_linkage)"
proof
  note entry = idt_init_entry [OF assms(1)]
  show "case map_of idt_handlers v of
      None \<Rightarrow> \<not> g_present (processor_gate (idt_val (idt_init addr idt ! v)))
    | Some h \<Rightarrow> processor_gate (idt_val (idt_init addr idt ! v)) =
        \<lparr>g_offset = addr h, g_selector = KERNEL_CS, g_type = (if v = 0x80 then 15 else 14),
         g_dpl = (if v = 0x80 then 3 else 0), g_present = True\<rparr>"
    using entry [OF assms(2), of addr]
    by (cases "map_of idt_handlers v") (simp_all add: default_gate entry_gate del: if_split cong: if_cong)
  have gp: "map_of idt_handlers 13 = Some general_protection_fault_handler_linkage"
    and sys: "map_of idt_handlers 0x80 = Some system_call_handler_linkage"
    by (simp_all add: idt_handlers_def)
  have fault: "g_offset (processor_gate (idt_val (idt_init addr idt ! 13))) = addr general_protection_fault_handler_linkage"
    using entry [of 13 addr] by (simp add: gp entry_gate)
  have dpl: "g_dpl (processor_gate (idt_val (idt_init addr idt ! v))) = (if v = 0x80 then 3 else 0)"
    using entry [OF assms(2), of addr]
    by (simp add: processor_gate_def idt_val_fields SET_IDT_ENTRY_def idt_default_def Let_def split: option.split)
  show "user_interrupt (idt_init addr idt) v =
      addr (if v = 0x80 then system_call_handler_linkage else general_protection_fault_handler_linkage)"
    using entry [OF assms(2), of addr] dpl fault by (simp add: user_interrupt_def Let_def sys entry_gate)
qed

text \<open>An address for every entry point, as a linker could choose them.\<close>

definition demo_addr :: "linkage \<Rightarrow> u32" where
  "demo_addr h = (if h = system_call_handler_linkage then 0x401000 else
     if h = general_protection_fault_handler_linkage then 0x402000 else 0x403000)"

definition empty_gate :: idt_desc_t where
  "empty_gate = \<lparr>offset_15_00 = 0, seg_selector = 0, reserved4 = 0, reserved3 = 0, reserved2 = 0, reserved1 = 0,
     gate_size = 0, reserved0 = 0, gate_dpl = 0, gate_present = 0, offset_31_16 = 0\<rparr>"

theorem idt_init_gates_witness:
  "user_interrupt (idt_init demo_addr (replicate 256 empty_gate)) 128 = 0x401000 \<and>
   user_interrupt (idt_init demo_addr (replicate 256 empty_gate)) 3 = 0x402000"
  using idt_init_gates [of "replicate 256 empty_gate" 128 demo_addr] idt_init_gates [of "replicate 256 empty_gate" 3 demo_addr]
  by (simp add: demo_addr_def)

subsection \<open>Exceptions\<close>

text \<open>C30: an exception in a program that was started from a shell ends it.  Whatever the exception,
  the handler prints its message and control goes to the frame that \<^verbatim>\<open>execute\<close> saved with the
  value 256; the number of the program is free, its parent takes its place in the schedule and
  is mapped, and no program's memory changes.\<close>

theorem exception_ends_program:
  assumes "exception_info h = Some (vector, msg)" and "mapped p s" and "screen_ok s" and "i \<in> {3, 4, 5}"
    and "on_stack (int i) (esp_reg s)" and "pcb_pid (own_pcb i s) = of_nat i" and "parent_pid (own_pcb i s) < 6"
  shows "\<exists>s'. handle_exception l vector msg s =
      Some (Resume (pcb_ebp (own_pcb i s)) (pcb_esp (own_pcb i s)) 256, s') \<and>
    pid_bitmap s' = (pid_bitmap s)[i := 0] \<and>
    schedule s' = map (\<lambda>x. if word_of_int x = (of_nat i :: u32) then sint (parent_pid (own_pcb i s)) else x)
      (schedule s) \<and>
    mapped (Some (parent_pid (own_pcb i s))) s' \<and>
    (\<forall>pa. 0x400000 \<le> unat pa \<longrightarrow> pmem s' pa = pmem s pa)"
proof -
  define t where "t = put_string (map of_char ''Exception '' @ number_text 10 (unat vector) @ map of_char '': ''
                @ message msg) s"
  have own: "own_pcb i t = own_pcb i s" "esp_reg t = esp_reg s" "pid_bitmap t = pid_bitmap s" "schedule t = schedule s"
    by (simp_all add: own_pcb_def t_def)
  have maps: "mapped p t" using assms(2) by (simp add: t_def)
  have scr: "screen_ok t" unfolding t_def by (rule put_string_facts(1) [OF assms(3)])
  have same: "\<forall>pa. 0x400000 \<le> unat pa \<longrightarrow> pmem t pa = pmem s pa"
    unfolding t_def using put_string_memory [OF assms(3)] by blast
  have run: "handle_exception l vector msg s = halt l 1 t" by (simp only: handle_exception_def Let_def t_def)
  show ?thesis
    using halt_child [OF maps scr assms(4), unfolded own, OF assms(5-7), of l 1] same unfolding run by auto
qed

theorem exception_ends_program_witness:
  "\<exists>s' t. handle_exception demo_locals 14 ''Page Fault'' (demo_child s') = Some (Resume 0x7FFF80 0x7FFF00 256, t) \<and>
    pid_bitmap t = [1, 1, 1, 0, 0, 0]"
proof -
  obtain s' bs where s': "entered (0 # replicate 127 9) bs 3 demo_shell s'" using demo_entered by blast
  have "get_pid demo_shell = 0"
    using get_pid_on_stack [of 0 demo_shell] by (simp add: on_stack_def demo_shell_fields)
  then have own: "pcb_pid (own_pcb 3 s') = 3" "parent_pid (own_pcb 3 s') = 0"
    "pcb_ebp (own_pcb 3 s') = 0x7FFF80" "pcb_esp (own_pcb 3 s') = 0x7FFF00"
    "pid_bitmap (demo_child s') = [1, 1, 1, 1, 0, 0]"
    using s' by (simp_all add: entered_def own_pcb_def init_pcb_def parent_of_def demo_shell_fields demo_child_def)
  with exception_ends_program [of page_fault_handler_linkage 14 "''Page Fault''", OF _ demo_child_ok(1,2) _ demo_child_ok(3),
      of s' demo_locals]
  have "\<exists>t. handle_exception demo_locals 14 ''Page Fault'' (demo_child s') = Some (Resume 0x7FFF80 0x7FFF00 256, t) \<and>
      pid_bitmap t = [1, 1, 1, 0, 0, 0]"
    by (auto simp: demo_child_ok(4))
  then show ?thesis by blast
qed

end
