(* ===== verification/Boot.thy ===== *)
theory Boot
  imports Interrupts
begin

text \<open>
  The start of the system: \<^verbatim>\<open>entry\<close> of \<^verbatim>\<open>mp3/student-distrib/kernel.c\<close>, from the call by the boot
  loader to the first shell.  The structures of \<^verbatim>\<open>multiboot.h\<close> are read from memory; addresses
  that the linker chose are a parameter.  Until \<^verbatim>\<open>page_init\<close> an address is a physical address.
\<close>

subsection \<open>State\<close>

record machine = kernel +
  idt :: "idt_desc_t list"
  idt_loaded :: bool
  ldt_desc_ptr :: seg_desc_t
  tss_desc_ptr :: seg_desc_t
  tss_ldt_selector :: "16 word"
  ldt_register :: "16 word"
  task_register :: "16 word"

text \<open>Where the linker put the entry points, the local descriptor table and the task state.\<close>

record layout =
  linkage_addr :: "linkage \<Rightarrow> u32"
  ldt_addr :: u32
  tss_addr :: u32

abbreviation MULTIBOOT_BOOTLOADER_MAGIC :: u32 where "MULTIBOOT_BOOTLOADER_MAGIC \<equiv> 0x2BADB002"
abbreviation ldt_size :: u32 where "ldt_size \<equiv> 31"
abbreviation tss_size :: u32 where "tss_size \<equiv> 103"

text \<open>A word of the structure at \<open>p\<close>, and a flag of the boot information at \<open>p\<close>.\<close>

definition word_at :: "'a screen_scheme \<Rightarrow> u32 \<Rightarrow> u32 \<Rightarrow> u32" where
  "word_at s p off = load32 (kmem s) (p + off)"

abbreviation mbi_flags :: "'a screen_scheme \<Rightarrow> u32 \<Rightarrow> u32" where "mbi_flags s p \<equiv> word_at s p 0"
abbreviation mods_count :: "'a screen_scheme \<Rightarrow> u32 \<Rightarrow> u32" where "mods_count s p \<equiv> word_at s p 20"
abbreviation mods_addr :: "'a screen_scheme \<Rightarrow> u32 \<Rightarrow> u32" where "mods_addr s p \<equiv> word_at s p 24"
abbreviation mmap_length :: "'a screen_scheme \<Rightarrow> u32 \<Rightarrow> u32" where "mmap_length s p \<equiv> word_at s p 44"
abbreviation mmap_addr :: "'a screen_scheme \<Rightarrow> u32 \<Rightarrow> u32" where "mmap_addr s p \<equiv> word_at s p 48"

definition CHECK_FLAG :: "u32 \<Rightarrow> nat \<Rightarrow> bool" where
  "CHECK_FLAG fl n \<longleftrightarrow> fl AND push_bit n 1 \<noteq> 0"

subsection \<open>Printing\<close>

text \<open>The parts of a \<^verbatim>\<open>printf\<close> call: literal text and the conversions the kernel uses.\<close>

datatype piece = Lit string | Num u32 | Hex u32 | Hex8 u32

fun printed :: "piece \<Rightarrow> u8 list" where
  "printed (Lit t) = map of_char t"
| "printed (Num v) = number_text 10 (unat v)"
| "printed (Hex v) = number_text 16 (unat v)"
| "printed (Hex8 v) = (let t = number_text 16 (unat v) in replicate (8 - length t) (of_char (CHR ''0'')) @ t)"

definition kprint :: "piece list \<Rightarrow> 'a screen_scheme \<Rightarrow> 'a screen_scheme" where
  "kprint ps s = put_string (concat (map printed ps)) s"

definition new_line :: piece where
  "new_line = Lit [CHR 0x0A]"

subsection \<open>The boot information\<close>

text \<open>One round of the loop over the modules; a byte of the module is a signed character.\<close>

definition print_module :: "nat \<Rightarrow> u32 \<Rightarrow> 'a screen_scheme \<Rightarrow> 'a screen_scheme" where
  "print_module mod_count md s =
     (let s = kprint [Lit ''Module '', Num (of_nat mod_count), Lit '' loaded at address: 0x'', Hex8 (word_at s md 0), new_line] s;
          s = kprint [Lit ''Module '', Num (of_nat mod_count), Lit '' ends at address: 0x'', Hex8 (word_at s md 4), new_line] s;
          s = kprint [Lit ''First few bytes of module:'', new_line] s;
          s = fold (\<lambda>i s. kprint [Lit ''0x'', Hex (scast (kmem s (word_at s md 0 + of_nat i))), Lit '' ''] s) [0..<16] s
      in kprint [new_line] s)"

function print_modules :: "u32 \<Rightarrow> nat \<Rightarrow> u32 \<Rightarrow> 'a screen_scheme \<Rightarrow> 'a screen_scheme" where
  "print_modules mbi mod_count md s =
     (if mod_count < unat (mods_count s mbi)
      then print_modules mbi (mod_count + 1) (md + 16) (print_module mod_count md s) else s)"
  by pat_completeness auto
termination
proof (relation "measure (\<lambda>(mbi, mod_count, md, s). 2 ^ 32 - mod_count)")
  fix mbi md mod_count and s :: "'a screen_scheme"
  assume "mod_count < unat (mods_count s mbi)"
  moreover have "unat (mods_count s mbi) < 2 ^ 32" using unsigned_less [of "mods_count s mbi", where ?'a = nat] by simp
  ultimately have "mod_count < 2 ^ 32" by linarith
  then show "((mbi, mod_count + 1, md + 16, print_module mod_count md s), mbi, mod_count, md, s)
      \<in> measure (\<lambda>(mbi, mod_count, md, s). 2 ^ 32 - mod_count)" by simp
qed simp

declare print_modules.simps [simp del]

text \<open>The memory map, whose entries carry their own size: the loop need not end.\<close>

definition print_region :: "u32 \<Rightarrow> 'a screen_scheme \<Rightarrow> 'a screen_scheme" where
  "print_region mm s =
     kprint [Lit ''    size = 0x'', Hex (word_at s mm 0), Lit '', base_addr = 0x'', Hex8 (word_at s mm 8),
       Hex8 (word_at s mm 4), new_line, Lit ''    type = 0x'', Hex (word_at s mm 20), Lit '',  length    = 0x'',
       Hex8 (word_at s mm 16), Hex8 (word_at s mm 12), new_line] s"

partial_function (option) print_mmap :: "u32 \<Rightarrow> u32 \<Rightarrow> 'a screen_scheme \<Rightarrow> 'a screen_scheme option" where
  "print_mmap mbi mm s =
     (if mm < mmap_addr s mbi + mmap_length s mbi
      then let s = print_region mm s in print_mmap mbi (mm + word_at s mm 0 + 4) s
      else Some s)"

text \<open>The part of \<^verbatim>\<open>entry\<close> that examines the boot information.  The Boolean says whether the boot
  goes on.\<close>

definition mount_modules :: "u32 \<Rightarrow> 'a kernel_scheme \<Rightarrow> 'a kernel_scheme" where
  "mount_modules mbi s =
     (if CHECK_FLAG (mbi_flags s mbi) 3 then
        let md = mods_addr s mbi;
            s = s\<lparr>kfs := file_system_init (kmem s) (word_at s md 0) (kfs s)\<rparr>
        in print_modules mbi 0 md s
      else s)"

definition print_memory :: "u32 \<Rightarrow> 'a screen_scheme \<Rightarrow> 'a screen_scheme option" where
  "print_memory mbi s =
     (if CHECK_FLAG (mbi_flags s mbi) 6 then
        let s = kprint [Lit ''mmap_addr = 0x'', Hex8 (mmap_addr s mbi), Lit '', mmap_length = 0x'',
                  Hex (mmap_length s mbi), new_line] s
        in print_mmap mbi (mmap_addr s mbi) s
      else Some s)"

definition print_flags :: "u32 \<Rightarrow> 'a screen_scheme \<Rightarrow> 'a screen_scheme option" where
  "print_flags mbi s =
     (let s = kprint [Lit ''flags = 0x'', Hex8 (mbi_flags s mbi), new_line] s;
          s = (if CHECK_FLAG (mbi_flags s mbi) 0
               then kprint [Lit ''mem_lower = '', Num (word_at s mbi 4), Lit ''KB, mem_upper = '',
                      Num (word_at s mbi 8), Lit ''KB'', new_line] s else s);
          s = (if CHECK_FLAG (mbi_flags s mbi) 1
               then kprint [Lit ''boot_device = 0x'', Hex8 (word_at s mbi 12), new_line] s else s)
      in if CHECK_FLAG (mbi_flags s mbi) 2
         then map_option (\<lambda>t. put_string (map of_char ''cmdline = '' @ t @ [10]) s)
                (puts_out (kmem s) (word_at s mbi 16))
         else Some s)"

definition boot_info :: "u32 \<Rightarrow> 'a kernel_scheme \<Rightarrow> (bool \<times> 'a kernel_scheme) option" where
  "boot_info mbi s = do {
     s \<leftarrow> print_flags mbi s;
     let s = mount_modules mbi s;
     if CHECK_FLAG (mbi_flags s mbi) 4 \<and> CHECK_FLAG (mbi_flags s mbi) 5
     then Some (False, kprint [Lit ''Both bits 4 and 5 are set.'', new_line] s)
     else do {
       let s = (if CHECK_FLAG (mbi_flags s mbi) 5
          then kprint [Lit ''elf_sec: num = '', Num (word_at s mbi 28), Lit '', size = 0x'', Hex8 (word_at s mbi 32),
                 Lit '', addr = 0x'', Hex8 (word_at s mbi 36), Lit '', shndx = 0x'', Hex8 (word_at s mbi 40), new_line] s
          else s);
       s \<leftarrow> print_memory mbi s;
       Some (True, s)
     }
   }"

subsection \<open>Descriptors, devices and the first shell\<close>

definition ldt_entry :: "layout \<Rightarrow> seg_desc_t \<Rightarrow> seg_desc_t" where
  "ldt_entry k d =
     SET_LDT_PARAMS (ldt_addr k) ldt_size
       (d\<lparr>seg_granularity := 0, seg_opsize := 1, seg_reserved := 0, seg_avail := 0, seg_present := 1,
          seg_dpl := 0, seg_sys := 0, seg_type := 2\<rparr>)"

definition tss_entry :: "layout \<Rightarrow> seg_desc_t \<Rightarrow> seg_desc_t" where
  "tss_entry k d =
     SET_TSS_PARAMS (tss_addr k) tss_size
       (d\<lparr>seg_granularity := 0, seg_opsize := 0, seg_reserved := 0, seg_avail := 0,
          seg_lim_19_16 := ucast (TSS_SIZE AND 0x000F0000), seg_present := 1, seg_dpl := 0, seg_sys := 0,
          seg_type := 9, seg_lim_15_00 := ucast (TSS_SIZE AND 0x0000FFFF)\<rparr>)"

text \<open>The two local variables \<^verbatim>\<open>the_ldt_desc\<close> and \<^verbatim>\<open>the_tss_desc\<close> start with whatever is on the
  stack, \<open>junk\<close>.\<close>

definition load_segments :: "layout \<Rightarrow> seg_desc_t \<Rightarrow> 'a machine_scheme \<Rightarrow> 'a machine_scheme" where
  "load_segments k junk s =
     (let s = s\<lparr>ldt_desc_ptr := ldt_entry k junk, ldt_register := KERNEL_LDT\<rparr>
      in s\<lparr>tss_desc_ptr := tss_entry k junk, tss_ldt_selector := KERNEL_LDT, tss_ss0 := 0x18, tss_esp0 := 0x800000,
           task_register := KERNEL_TSS\<rparr>)"

definition load_idt :: "layout \<Rightarrow> 'a machine_scheme \<Rightarrow> 'a machine_scheme" where
  "load_idt k s = s\<lparr>idt := idt_init (linkage_addr k) (idt s), idt_loaded := True\<rparr>"

definition launch_tests :: "'a machine_scheme \<Rightarrow> 'a machine_scheme" where
  "launch_tests s = s"

definition boot_devices :: "layout \<Rightarrow> seg_desc_t \<Rightarrow> 'a machine_scheme \<Rightarrow> 'a machine_scheme" where
  "boot_devices k junk s =
     (let s = load_segments k junk s;
          s = load_idt k s;
          s = i8259_init s;
          s = keyboard_init s;
          s = rtc_init s;
          s = page_init s;
          s = snd (terminal_init s);
          s = pit_init s;
          s = clear s
      in launch_tests s)"

text \<open>How \<^verbatim>\<open>entry\<close> ends: it returns to the boot code, or the first program runs (a \<open>Return\<close> here is
  the final loop of \<^verbatim>\<open>hlt\<close> instructions).\<close>

datatype boot = Stopped | Running control

definition entry ::
  "layout \<Rightarrow> seg_desc_t \<Rightarrow> locals \<Rightarrow> u32 \<Rightarrow> u32 \<Rightarrow> 'a machine_scheme \<Rightarrow> (boot \<times> 'a machine_scheme) option" where
  "entry k junk l magic addr s = do {
     let s = clear s;
     if magic \<noteq> MULTIBOOT_BOOTLOADER_MAGIC
     then Some (Stopped, kprint [Lit ''Invalid magic number: 0x'', Hex8 magic, new_line] s)
     else do {
       (go, s) \<leftarrow> boot_info addr s;
       if go then do {
         let s = boot_devices k junk s;
         (c, s) \<leftarrow> execute_cmd l (map of_char ''shell'') s;
         Some (Running c, s)
       } else Some (Stopped, s)
     }
   }"

subsection \<open>Starting the three shells\<close>

text \<open>The state when \<open>n\<close> shells have been started, one per terminal, and the last of them runs.\<close>

definition starting :: "nat \<Rightarrow> 'a kernel_scheme \<Rightarrow> bool" where
  "starting n s \<longleftrightarrow> pid_bitmap s = replicate n 1 @ replicate (6 - n) 0 \<and>
     schedule s = map int [0..<n] @ replicate (3 - n) (-1) \<and> run_terminal s = int n - 1 \<and>
     (\<forall>i < n. pcb_pid (own_pcb i s) = of_nat i) \<and> (\<forall>i < n - 1. frame_ok (int i) (run_ebp (own_pcb i s))) \<and>
     mapped (Some (of_nat (n - 1))) s \<and> screen_ok s \<and> on_stack (int n - 1) (tss_esp0 s) \<and>
     on_stack (int n - 1) (esp_reg s) \<and> shell_ready s"

text \<open>The state just before shell \<open>n\<close> is started.\<close>

definition shells :: "nat \<Rightarrow> 'a kernel_scheme \<Rightarrow> bool" where
  "shells n s \<longleftrightarrow> pid_bitmap s = replicate n 1 @ replicate (6 - n) 0 \<and>
     schedule s = map int [0..<n] @ replicate (3 - n) (-1) \<and> run_terminal s = int n \<and>
     (\<forall>i < n. pcb_pid (own_pcb i s) = of_nat i \<and> frame_ok (int i) (run_ebp (own_pcb i s))) \<and>
     screen_ok s \<and> shell_ready s"

lemma less_3_cases: "(n :: nat) < 3 \<Longrightarrow> n = 0 \<or> n = 1 \<or> n = 2"
  by auto

lemma shells_free: "n < 3 \<Longrightarrow> free_pid (replicate n 1 @ replicate (6 - n) (0 :: u8)) = Some n"
  by (drule less_3_cases) (auto simp: free_pid_def upt_rec numeral_eq_Suc)

lemma slots:
  "map int [0..<0] @ replicate (3 - 0) (-1) = [-1, -1, -1]" "map int [0..<1] @ replicate (3 - 1) (-1) = [0, -1, -1]"
  "map int [0..<2] @ replicate (3 - 2) (-1) = [0, 1, -1]" "map int [0..<3] @ replicate (3 - 3) (-1) = [0, 1, 2]"
  by (simp_all add: numeral_3_eq_3 numeral_2_eq_2)

lemma shells_slot:
  assumes "n < 3"
  shows "take_slot 255 (of_nat n) (map int [0..<n] @ replicate (3 - n) (-1)) =
     map int [0..<n + 1] @ replicate (3 - (n + 1)) (-1)"
proof -
  have *: "0 + 1 = (1 :: nat)" "1 + 1 = (2 :: nat)" "2 + 1 = (3 :: nat)" by simp_all
  show ?thesis using less_3_cases [OF assms] by (elim disjE) (simp_all only: slots *, simp_all)
qed

lemma shells_execute:
  assumes sh: "shells n t" and n: "n < 3" and maps: "mapped p t" and l: "locals_ok l t"
  shows "\<exists>e sp s'. execute_cmd l (map of_char ''shell'') t = Some (Enter_user e sp, s') \<and>
    starting (Suc n) (s'\<lparr>esp_reg := tss_esp0 s'\<rparr>)"
proof -
  have t: "pid_bitmap t = replicate n 1 @ replicate (6 - n) 0"
    "schedule t = map int [0..<n] @ replicate (3 - n) (-1)" "run_terminal t = int n" "screen_ok t" "shell_ready t"
    and pids: "\<And>i. i < n \<Longrightarrow> pcb_pid (own_pcb i t) = of_nat i \<and> frame_ok (int i) (run_ebp (own_pcb i t))"
    using sh by (simp_all add: shells_def)
  obtain d where d: "dir_lookup (kmem t) (kfs t) shell_name = Some d" "length (program_header t d) = 40"
    "magic_ok (program_header t d)" "inode_ok (kmem t) (kfs t) (inode_num d)"
    using t(5) by (auto simp: shell_ready_def)
  have can: "can_execute l t" and arg: "0 < length (l_args l)"
    using shell_ready_execute [OF t(5)] l by (simp_all add: locals_ok_def)
  have free: "free_pid (pid_bitmap t) = Some n" unfolding t(1) by (rule shells_free [OF n])
  obtain s' bs where run: "execute_cmd l (map of_char ''shell'') t =
      Some (Enter_user (header_entry (program_header t d)) (USER_STACK_ADDR - 4), s')"
    and ent: "entered (0 # drop 1 (l_args l)) bs n t s'"
    using execute_cmd_run [OF maps can shell_parse [OF arg] d(1,4,2,3) free] by blast
  have "parent_of n t = 255" using less_3_cases [OF n] by (auto simp: parent_of_def)
  note e' = ent [unfolded entered_def this]
  have e: "mapped (Some (of_nat n)) s'" "on_stack (int n) (tss_esp0 s')" "screen_ok s'" "same_image t s'"
    "run_terminal s' = int n" using e' t by simp_all
  have bits: "pid_bitmap s' = replicate (Suc n) 1 @ replicate (6 - Suc n) 0"
    using e' t(1) less_3_cases [OF n] by (auto simp: numeral_eq_Suc)
  have sched: "schedule s' = map int [0..<Suc n] @ replicate (3 - Suc n) (-1)"
    using e' t(2) shells_slot [OF n] by (simp del: upt_Suc)
  have "pcbs s' = (pcbs t)(get_pcb_ptr (int n) := (init_pcb (of_nat n) 255 (0 # drop 1 (l_args l)) (own_pcb n t))
      \<lparr>pcb_ebp := ebp_reg t, pcb_esp := esp_reg t\<rparr>)"
    using e' by (simp add: own_pcb_def)
  note own = own_pcb_update [OF this]
  have pid: "pcb_pid (own_pcb i s') = of_nat i" if "i < Suc n" for i
    using own [of i] pids [of i] that n by (cases "i = n") (simp_all add: init_pcb_def)
  have fr: "frame_ok (int i) (run_ebp (own_pcb i s'))" if "i < n" for i
    using own [of i] pids [OF that] that n by simp
  have "shell_ready s'" by (rule shell_ready_image [OF t(5) e(4)])
  with e bits sched pid fr have "starting (Suc n) (s'\<lparr>esp_reg := tss_esp0 s'\<rparr>)"
    by (simp add: starting_def own_pcb_def del: upt_Suc replicate_Suc)
  with run show ?thesis by blast
qed

lemma memory_switch_image: "mapped p s \<Longrightarrow> console_ok s \<Longrightarrow> mounted s \<Longrightarrow> same_image s (memory_switch (run_terminal s) s)"
  by (rule same_image_pmem) (auto intro: memory_switch_screen)

lemma tick_starts_shell:
  assumes st: "starting n s" and n: "0 < n" "n < 3" and frame: "frame_ok (int n - 1) (ebp_reg s)" and l: "locals_ok l s"
  shows "\<exists>e sp s'. pit_handler l s = Some (Started (Enter_user e sp), s') \<and>
    starting (Suc n) (s'\<lparr>esp_reg := tss_esp0 s'\<rparr>)"
proof -
  have s: "pid_bitmap s = replicate n 1 @ replicate (6 - n) 0"
    "schedule s = map int [0..<n] @ replicate (3 - n) (-1)" "run_terminal s = int n - 1"
    "mapped (Some (of_nat (n - 1))) s" "screen_ok s" "on_stack (int n - 1) (esp_reg s)" "shell_ready s"
    and pids: "\<And>i. i < n \<Longrightarrow> pcb_pid (own_pcb i s) = of_nat i"
    and frames: "\<And>i. i < n - 1 \<Longrightarrow> frame_ok (int i) (run_ebp (own_pcb i s))"
    using st by (simp_all add: starting_def)
  have mnt: "mounted s" using s(7) by (simp add: shell_ready_def)
  have rt: "run_terminal s \<in> {0, 1, 2}" using s(5) by (simp add: screen_ok_def)
  have con: "console_ok s" using s(5) by (simp add: screen_ok_def console_ok_def)
  note f = pit_save_fields [OF rt]
  define u where "u = pit_save s"
  have rtu: "run_terminal u = int n" using f(1) n s(3) by (simp add: u_def)
  define t where "t = memory_switch (run_terminal u) u"
  have u: "mapped (Some (of_nat (n - 1))) u" "console_ok u" "same_image s u"
    using f s(4) con by (simp_all add: u_def same_image_def)
  note mu = same_image_mounted(1) [OF u(3) mnt]
  have t: "screen_ok t" "mapped (Some (of_nat (n - 1))) t" "same_image u t"
    unfolding t_def using memory_switch_screen [OF u(1,2)] memory_switch_image [OF u(1,2) mu] by simp_all
  have img: "same_image s t" by (rule same_image_trans [OF u(3) t(3) mnt])
  have cur: "get_cur_pcb_ptr s = get_pcb_ptr (int (n - 1))"
    using get_cur_pcb_ptr_on_stack [of "int n - 1" s] s(6) n by (simp add: of_nat_diff)
  have "pcbs t = (pcbs s)(get_pcb_ptr (int (n - 1)) := (own_pcb (n - 1) s)\<lparr>run_ebp := ebp_reg s\<rparr>)"
    using f(2) cur by (simp add: t_def u_def own_pcb_def)
  note own = own_pcb_update [OF this]
  have each: "pcb_pid (own_pcb i t) = of_nat i \<and> frame_ok (int i) (run_ebp (own_pcb i t))" if "i < n" for i
    using own [of i] pids [OF that] frames [of i] frame that n by (cases "i = n - 1") (simp_all add: of_nat_diff)
  have sh: "shells n t"
    using s f t(1) rtu each shell_ready_image [OF s(7) img] by (simp add: shells_def t_def u_def)
  have lt: "locals_ok l t" using l locals_ok_image [OF img mnt] by simp
  obtain e sp s' where run: "execute_cmd l (map of_char ''shell'') t = Some (Enter_user e sp, s')"
    and st': "starting (Suc n) (s'\<lparr>esp_reg := tss_esp0 s'\<rparr>)"
    using shells_execute [OF sh n(2) t(2) lt] by blast
  have "schedule u ! nat (run_terminal u) = -1"
    using s(2) f(4) n by (simp add: rtu nth_append flip: u_def)
  then have "pit_handler l s = Some (Started (Enter_user e sp), s')"
    unfolding pit_handler_def Let_def u_def [symmetric] t_def [symmetric] run by simp
  with st' show ?thesis by blast
qed

lemma starting_system:
  assumes "starting 3 s"
  shows "system_ok s"
proof -
  have s: "schedule s = [0, 1, 2]" "pid_bitmap s = [1, 1, 1, 0, 0, 0]" "run_terminal s = 2" "shell_ready s"
    "mapped (Some 2) s" "screen_ok s" "on_stack 2 (tss_esp0 s)" "on_stack 2 (esp_reg s)"
    and pids: "\<And>i. i < 3 \<Longrightarrow> pcb_pid (own_pcb i s) = of_nat i"
    and frames: "\<And>i. i < 2 \<Longrightarrow> frame_ok (int i) (run_ebp (own_pcb i s))"
    using assms slots(4) by (simp_all add: starting_def numeral_eq_Suc)
  have act: "active s = 2" by (simp add: active_def s)
  have used: "used s = {0, 1, 2}" by (auto simp: used_def s less_Suc_eq numeral_eq_Suc)
  have "procs_ok s"
    using pids [of 0] pids [of 1] pids [of 2] by (simp add: procs_ok_def tree_ok_def used s)
  moreover have "saved_ok s" using frames [of 0] frames [of 1] by (simp add: saved_ok_def act s)
  ultimately show ?thesis using s by (simp add: system_ok_def running_ok_def act)
qed

subsection \<open>Output before paging\<close>

text \<open>What the kernel finds when it starts: paging off and the first terminal shown.\<close>

definition early :: "'a screen_scheme \<Rightarrow> bool" where
  "early s \<longleftrightarrow> \<not> paging_on s \<and> cur_terminal s = 0 \<and> run_terminal s = 0 \<and> layout_ok s \<and>
     (\<forall>i < 1024. user_video_page_table s i \<in> {0, if i = 0 then pde_word 0xB8 0 0 1 else 0})"

text \<open>What output leaves alone at that time: everything beyond the screen, and memory from 4 MB on.\<close>

definition same_core :: "'a screen_scheme \<Rightarrow> 'a screen_scheme \<Rightarrow> bool" where
  "same_core s s' \<longleftrightarrow> page_table_addr s' = page_table_addr s \<and>
     user_video_page_table_addr s' = user_video_page_table_addr s \<and>
     (\<forall>i. i \<noteq> 0 \<longrightarrow> user_video_page_table s' i = user_video_page_table s i) \<and> screen.more s' = screen.more s"

interpretation core: screen_preorder_switch same_core
  by unfold_locales
    (auto simp: same_core_def video_write_def set_cursor_def show_cursor_def update_cursor_def outb_def
      memory_switch_def set_pte_def set_user_pte_def flush_tlb_def Let_def split: option.splits)

definition printed_over :: "'a screen_scheme \<Rightarrow> 'a screen_scheme \<Rightarrow> bool" where
  "printed_over s s' \<longleftrightarrow> early s' \<and> cursor_ok (terminal s' 0) \<and> screen.more s' = screen.more s \<and>
     (\<forall>pa. 0x400000 \<le> unat pa \<longrightarrow> pmem s' pa = pmem s pa)"

lemma printed_over_trans: "printed_over s s' \<Longrightarrow> printed_over s' s'' \<Longrightarrow> printed_over s s''"
  by (simp add: printed_over_def)

lemma early_map: "early s \<Longrightarrow> video_map 0xB8 s"
  by (simp add: early_def video_map_def)

lemma early_memory:
  assumes "touches 0xB8 0 s s'" and "0x400000 \<le> unat pa"
  shows "pmem s' pa = pmem s pa"
  by (rule touches_memory [OF assms(1) _ assms(2)]) (simp add: video_frames_def)

lemma putc_early:
  assumes "early s" and "cursor_ok (terminal s 0)"
  shows "printed_over s (putc c 0 s)"
proof -
  have run: "run_terminal s = 0" using assms(1) by (simp add: early_def)
  note facts = putc_map_facts [OF early_map [OF assms(1)], unfolded run, OF assms(2), of c]
  have t: "touches 0xB8 0 s (putc c 0 s)" using facts by simp
  have tab: "same_tables s (putc c 0 s)" by (rule tables.R_putc_run)
  have "early (putc c 0 s)"
    using assms(1) t tab touches_paging [OF t] by (simp add: early_def touches_def same_tables_def layout_ok_def)
  then show ?thesis
    using facts tab early_memory [OF t] by (simp add: printed_over_def same_tables_def)
qed

lemma put_string_early: "early s \<Longrightarrow> cursor_ok (terminal s 0) \<Longrightarrow> printed_over s (put_string cs s)"
proof (induction cs arbitrary: s)
  case Nil
  then show ?case by (simp add: printed_over_def put_string_def)
next
  case (Cons c cs)
  note one = putc_early [OF Cons.prems, of c]
  then have "printed_over (putc c 0 s) (put_string cs (putc c 0 s))"
    by (intro Cons.IH) (simp_all add: printed_over_def)
  then show ?case using printed_over_trans [OF one] by (simp add: put_string_def)
qed

lemma clear_early:
  assumes "early s"
  shows "printed_over s (clear s)"
proof -
  have e: "\<not> paging_on s" "cur_terminal s = 0" "run_terminal s = 0" "layout_ok s"
    "\<And>i. i < 1024 \<Longrightarrow> i \<noteq> 0 \<Longrightarrow> user_video_page_table s i = 0"
    using assms by (auto simp: early_def)
  have vm: "video_map 0xB8 (memory_switch (cur_terminal s) (set_cursor (cur_terminal s) 0 0 (memory_switch (cur_terminal s) s)))"
    using e(1) by (simp add: video_map_def paging_on_def set_cursor_def)
  note facts = clear_facts [OF vm, unfolded e(2)]
  obtain z where z: "clear s = show_cursor (memory_switch 0 z)" "touches 0xB8 0 s z" using facts(5) e(3) by auto
  have core: "same_core s (clear s)" by (rule core.R_clear)
  have "cur_terminal z = 0" using z(2) e(2) by (simp add: touches_def)
  then have "user_video_page_table (memory_switch 0 z) 0 = pde_word 0xB8 0 0 1"
    by (simp add: memory_switch_def Let_def set_pte_def set_user_pte_def flush_tlb_def pte_fields_word)
  then have "user_video_page_table (clear s) 0 = pde_word 0xB8 0 0 1"
    by (simp add: z(1) show_cursor_def update_cursor_def outb_def Let_def)
  then have "early (clear s)"
    using e core facts(1) touches_paging [OF facts(1)]
    by (auto simp: early_def same_core_def touches_def layout_ok_def)
  then show ?thesis
    using facts(3,4) core early_memory [OF facts(1)] by (simp add: printed_over_def same_core_def cursor_ok_def)
qed

text \<open>The examination of the boot information only prints and notes where the file system is.\<close>

definition info_over :: "'a kernel_scheme \<Rightarrow> 'a kernel_scheme \<Rightarrow> bool" where
  "info_over s s' \<longleftrightarrow> early s' \<and> cursor_ok (terminal s' 0) \<and> pid_bitmap s' = pid_bitmap s \<and> schedule s' = schedule s \<and>
     (\<forall>pa. 0x400000 \<le> unat pa \<longrightarrow> pmem s' pa = pmem s pa)"

lemma info_over_trans: "info_over s s' \<Longrightarrow> info_over s' s'' \<Longrightarrow> info_over s s''"
  by (simp add: info_over_def)

lemma info_over_printed: "printed_over s s' \<Longrightarrow> info_over s s'"
  by (cases s; cases s') (simp add: printed_over_def info_over_def)

lemma put_string_info:
  assumes "info_over s t"
  shows "info_over s (put_string cs t)"
  by (rule info_over_trans [OF assms info_over_printed [OF put_string_early]]) (use assms in \<open>simp_all add: info_over_def\<close>)

lemma kprint_info: "info_over s t \<Longrightarrow> info_over s (kprint ps t)"
  by (simp add: kprint_def put_string_info)

lemma fold_kprint_info: "info_over s t \<Longrightarrow> info_over s (fold (\<lambda>i u. kprint (f i u) u) ns t)"
  by (induction ns arbitrary: t) (simp_all add: kprint_info)

lemma print_module_info: "info_over s t \<Longrightarrow> info_over s (print_module i md t)"
  unfolding print_module_def Let_def by (intro kprint_info fold_kprint_info)

lemma print_modules_info: "info_over s t \<Longrightarrow> info_over s (print_modules mbi i md t)"
proof (induction mbi i md t rule: print_modules.induct)
  case (1 mbi i md t)
  then show ?case using print_module_info by (subst print_modules.simps) auto
qed

lemma print_mmap_info:
  fixes t :: "'a kernel_scheme"
  assumes "print_mmap mbi mm t = Some t'" and "info_over s t"
  shows "info_over s t'"
proof -
  have "info_over s t \<longrightarrow> info_over s t'"
  proof (rule print_mmap.raw_induct [OF _ assms(1)])
    fix rest :: "u32 \<Rightarrow> u32 \<Rightarrow> 'a kernel_scheme \<Rightarrow> 'a kernel_scheme option" and mbi mm u u'
    assume IH: "\<And>mbi mm u u'. rest mbi mm u = Some u' \<Longrightarrow> info_over s u \<longrightarrow> info_over s u'"
      and run: "(if mm < mmap_addr u mbi + mmap_length u mbi
        then let s = print_region mm u in rest mbi (mm + word_at s mm 0 + 4) s else Some u) = Some u'"
    show "info_over s u \<longrightarrow> info_over s u'"
    proof
      assume u: "info_over s u"
      then have "info_over s (print_region mm u)" unfolding print_region_def by (rule kprint_info)
      then show "info_over s u'" using run IH u by (auto simp: Let_def split: if_splits)
    qed
  qed
  with assms(2) show ?thesis by blast
qed

lemma boot_info_over:
  assumes "boot_info mbi s = Some (go, s')" and e: "early s" "cursor_ok (terminal s 0)"
  shows "info_over s s'"
proof -
  have s: "info_over s s" using e by (simp add: info_over_def)
  have flags: "info_over s u'" if "print_flags mbi u = Some u'" "info_over s u" for u u'
    using that unfolding print_flags_def Let_def by (auto intro: kprint_info put_string_info split: if_splits)
  have mods: "info_over s (mount_modules mbi u)" if "info_over s u" for u
  proof -
    have "info_over s (u\<lparr>kfs := f\<rparr>)" for f
      using that by (simp add: info_over_def early_def layout_ok_def paging_on_def)
    then show ?thesis using that by (simp add: mount_modules_def Let_def print_modules_info)
  qed
  have memory: "info_over s u'" if "print_memory mbi u = Some u'" "info_over s u" for u u'
    using that by (auto simp: print_memory_def Let_def intro: print_mmap_info kprint_info split: if_splits)
  show ?thesis
    using assms(1) flags [OF _ s] mods memory
    by (auto simp: boot_info_def Let_def split: if_splits option.splits bind_splits intro: kprint_info)
qed

subsection \<open>Devices, paging and the first shell\<close>

lemmas port_defs = i8259_init_def keyboard_init_def rtc_init_def pit_init_def enable_irq_def outb_def inb_def
  enable_cursor_def update_cursor_def Let_def

text \<open>What the initialisation of devices and tables leaves alone.\<close>

definition same_memory :: "'a kernel_scheme \<Rightarrow> 'a kernel_scheme \<Rightarrow> bool" where
  "same_memory s s' \<longleftrightarrow> pmem s' = pmem s \<and> cur_terminal s' = cur_terminal s \<and> run_terminal s' = run_terminal s \<and>
     pid_bitmap s' = pid_bitmap s \<and> schedule s' = schedule s \<and> kfs s' = kfs s"

definition same_paging :: "'a kernel_scheme \<Rightarrow> 'a kernel_scheme \<Rightarrow> bool" where
  "same_paging s s' \<longleftrightarrow> cr0 s' = cr0 s \<and> page_directory s' = page_directory s \<and> page_table s' = page_table s \<and>
     user_video_page_table s' = user_video_page_table s \<and> page_table_addr s' = page_table_addr s \<and>
     user_video_page_table_addr s' = user_video_page_table_addr s"

lemma device_inits:
  fixes s :: "'a kernel_scheme"
  shows "same_memory s (i8259_init s)" "same_paging s (i8259_init s)"
    "same_memory s (keyboard_init s)" "same_paging s (keyboard_init s)"
    "same_memory s (rtc_init s)" "same_paging s (rtc_init s)"
    "same_memory s (pit_init s)" "same_paging s (pit_init s)" "terminal (pit_init s) = terminal s"
    "same_memory s (terminal_init_one i s)" "same_paging s (terminal_init_one i s)"
    "terminal (terminal_init_one i s) =
       (terminal s)(i := (terminal s i)\<lparr>index := 0, enter_pressed := 0, cursor_x := 0, cursor_y := 0\<rparr>)"
  by (simp_all add: same_memory_def same_paging_def terminal_init_one_def port_defs)

lemma load_tables:
  fixes s :: "'a machine_scheme"
  shows "same_memory s (load_segments k junk s)" "same_paging s (load_segments k junk s)"
    "same_memory s (load_idt k s)" "same_paging s (load_idt k s)"
  by (simp_all add: same_memory_def same_paging_def load_segments_def load_idt_def)

lemma same_memory_trans: "same_memory s s' \<Longrightarrow> same_memory s' s'' \<Longrightarrow> same_memory s s''"
  and same_paging_trans: "same_paging s s' \<Longrightarrow> same_paging s' s'' \<Longrightarrow> same_paging s s''"
  by (simp_all add: same_memory_def same_paging_def)

lemma page_init_memory: "same_memory s (page_init s)"
proof -
  obtain d t where "clear_tables 1024 s = s\<lparr>page_directory := d, page_table := t\<rparr>"
    using clear_tables_shape by blast
  then show ?thesis by (simp add: same_memory_def page_init_def Let_def set_pde_def set_pte_def set_crs_def)
qed

lemma mapped_memory_switch: "mapped p s \<Longrightarrow> t \<in> {0, 1, 2} \<Longrightarrow> mapped p (memory_switch t s)"
  using memory_switch_maps by (fastforce simp: mapped_def paging_on_def)

lemma fold_blank_terminals [simp]: "run_terminal (fold blank_cell ns u) = run_terminal u"
  by (induction ns arbitrary: u) (simp_all add: blank_cell_def video_write_def split: option.split)

lemma clear_mapped:
  fixes s :: "'a kernel_scheme"
  assumes "mapped p s" and "cur_terminal s \<in> {0, 1, 2}" and "run_terminal s \<in> {0, 1, 2}"
  shows "mapped p (clear s)"
proof -
  have tab: "mapped p (fold blank_cell ns u) = mapped p u" for ns and u :: "'a kernel_scheme"
    by (rule same_tables_mapped [OF tables.R_fold [OF tables.R_blank]])
  have "mapped p (set_cursor t x y u) = mapped p u" for t x y and u :: "'a kernel_scheme"
    by (rule same_tables_mapped [OF tables.R_cursor])
  moreover have "mapped p (show_cursor u) = mapped p u" for u :: "'a kernel_scheme"
    by (rule same_tables_mapped [OF tables.R_show])
  ultimately show ?thesis
    using assms(1) tab unfolding clear_def Let_def
    by (simp add: mapped_memory_switch [OF _ assms(2)] mapped_memory_switch [OF _ assms(3)])
qed

lemma clear_memory:
  assumes "screen_ok s" and "cur_terminal s = 0" and "0x400000 \<le> unat pa"
  shows "pmem (clear s) pa = pmem s pa"
proof -
  have "video_at 0xB8 (memory_switch 0 s)"
    using memory_switch_video_at [of _ s 0] assms(1,2) by (auto simp: screen_ok_def frame_of_def)
  then have "video_at 0xB8 (memory_switch 0 (set_cursor 0 0 0 (memory_switch 0 s)))"
    using memory_switch_video_at [of "0xB8" "set_cursor 0 0 0 (memory_switch 0 s)" 0] assms(2)
    by (simp add: frame_of_def)
  then have "touches 0xB8 0 s (clear s)" using clear_facts(1) [of s] assms(2) by (simp add: video_at_map)
  then show ?thesis by (rule early_memory [OF _ assms(3)])
qed

lemma boot_devices_ready:
  fixes s :: "'a machine_scheme"
  assumes e: "early s" and ready: "shell_ready s" and bits: "pid_bitmap s = replicate 6 0" "schedule s = [-1, -1, -1]"
  shows "shells 0 (boot_devices k junk s)" and "mapped None (boot_devices k junk s)"
    and "same_image s (boot_devices k junk s)"
proof -
  define a where "a = rtc_init (keyboard_init (i8259_init (load_idt k (load_segments k junk s))))"
  define b where "b = page_init a"
  define c where "c = pit_init (snd (terminal_init b))"
  have boot: "boot_devices k junk s = clear c"
    by (simp add: boot_devices_def Let_def launch_tests_def a_def b_def c_def)
  have a: "same_memory s a" "same_paging s a"
    unfolding a_def
    by (rule same_memory_trans [OF _ device_inits(5)] same_memory_trans [OF _ device_inits(3)]
        same_memory_trans [OF _ device_inits(1)] same_memory_trans [OF load_tables(1,3)]
        same_paging_trans [OF _ device_inits(6)] same_paging_trans [OF _ device_inits(4)]
        same_paging_trans [OF _ device_inits(2)] same_paging_trans [OF load_tables(2,4)])+
  have "layout_ok a" "\<forall>i < 1024. user_video_page_table a i \<in> {0, if i = 0 then pde_word 0xB8 0 0 1 else 0}"
    using a(2) e by (simp_all add: same_paging_def early_def layout_ok_def)
  then have maps: "kernel_maps None False 0xB8 b" unfolding b_def using page_init_maps by blast
  have b: "same_memory s b" unfolding b_def by (rule same_memory_trans [OF a(1) page_init_memory])
  have on: "paging_on b" by (simp add: b_def)
  have c: "same_memory s c" "same_paging b c"
    unfolding c_def terminal_init_def snd_conv
    by (rule same_memory_trans [OF _ device_inits(7)] same_memory_trans [OF _ device_inits(10)]
        same_paging_trans [OF _ device_inits(8)] same_paging_trans [OF _ device_inits(11)] b device_inits(11))+
  have cursors: "\<forall>t \<in> {0, 1, 2}. cursor_ok (terminal c t)"
    by (simp add: c_def terminal_init_def device_inits cursor_ok_def)
  have "kernel_maps None False 0xB8 c" "paging_on c"
    using maps on c(2) kernel_maps_cong [of c b] by (simp_all add: same_paging_def paging_on_def)
  then have mc: "mapped None c" and "video_at 0xB8 c" by (auto simp: mapped_def video_at_def)
  moreover have cur: "cur_terminal c = 0" "run_terminal c = 0" using c(1) e by (simp_all add: same_memory_def early_def)
  ultimately have scr: "screen_ok c" using cursors by (simp add: screen_ok_def frame_of_def)
  have mt: "mapped None (clear c)" by (rule clear_mapped [OF mc]) (simp_all add: cur)
  have more: "screen.more (clear c) = screen.more c" using core.R_clear [of c] by (simp add: same_core_def)
  then have fields: "pid_bitmap (clear c) = pid_bitmap s" "schedule (clear c) = schedule s" "kfs (clear c) = kfs s"
    using c(1) by (cases "clear c"; cases c; simp add: same_memory_def)+
  have rt: "run_terminal (clear c) = 0" using cur(2) by (simp add: clear_def Let_def)
  show "mapped None (boot_devices k junk s)" using mt by (simp add: boot)
  have "kmem s = pmem s" using e by (simp add: kmem_def access_def early_def fun_eq_iff)
  moreover have "mounted s" using ready by (simp add: shell_ready_def)
  ultimately show img: "same_image s (boot_devices k junk s)"
    unfolding boot
    using kmem_kernel_page [OF mt] clear_memory [OF scr cur(1)] c(1) fields(3)
    by (intro same_image_kernel_page) (simp_all add: same_memory_def kernel_page)
  have "screen_ok (clear c)" using clear_screen [OF scr, of 0] by simp
  with fields bits rt shell_ready_image [OF ready img] show "shells 0 (boot_devices k junk s)"
    using slots(1) by (simp add: shells_def boot)
qed

lemma boot_run:
  assumes e: "early s" and info: "boot_info addr (clear s) = Some (True, s1)" and ready: "shell_ready s1"
    and l: "locals_ok l s1" and bits: "pid_bitmap s = replicate 6 0" "schedule s = [-1, -1, -1]"
  shows "\<exists>ent sp s'. entry k junk l MULTIBOOT_BOOTLOADER_MAGIC addr s = Some (Running (Enter_user ent sp), s') \<and>
    starting 1 (s'\<lparr>esp_reg := tss_esp0 s'\<rparr>)"
proof -
  have c: "early (clear s)" "cursor_ok (terminal (clear s) 0)" "info_over s (clear s)"
    using clear_early [OF e] info_over_printed by (auto simp: printed_over_def)
  have o: "info_over s s1" by (rule info_over_trans [OF c(3) boot_info_over [OF info c(1,2)]])
  have e1: "early s1" and b1: "pid_bitmap s1 = replicate 6 0" "schedule s1 = [-1, -1, -1]"
    using o bits by (simp_all add: info_over_def)
  note dev = boot_devices_ready [OF e1 ready b1, of k junk]
  have mnt: "mounted s1" using ready by (simp add: shell_ready_def)
  have "locals_ok l (boot_devices k junk s1)" using l locals_ok_image [OF dev(3) mnt] by simp
  from shells_execute [OF dev(1) _ dev(2) this] obtain ent sp s' where
    run: "execute_cmd l (map of_char ''shell'') (boot_devices k junk s1) = Some (Enter_user ent sp, s')"
    and st: "starting (Suc 0) (s'\<lparr>esp_reg := tss_esp0 s'\<rparr>)" by auto
  have "entry k junk l MULTIBOOT_BOOTLOADER_MAGIC addr s = Some (Running (Enter_user ent sp), s')"
    using run by (simp add: entry_def Let_def info)
  with st show ?thesis by (auto simp del: One_nat_def simp: One_nat_def [symmetric])
qed

text \<open>C5: the boot.  Started by a boot loader with the right magic number, with a file system module
  that holds the shell and no process yet, the kernel prints what it was told, sets up its
  tables, its devices and paging, and enters the shell as process 0 of the first terminal, on
  its own page and its own kernel stack.\<close>

theorem boot_starts_shell:
  assumes "early s" and "boot_info addr (clear s) = Some (True, s1)" and "shell_ready s1"
    and "locals_ok l s1" and "pid_bitmap s = replicate 6 0" and "schedule s = [-1, -1, -1]"
  shows "\<exists>ent sp s'. entry k junk l MULTIBOOT_BOOTLOADER_MAGIC addr s = Some (Running (Enter_user ent sp), s') \<and>
    starting 1 (s'\<lparr>esp_reg := tss_esp0 s'\<rparr>)"
  by (rule boot_run [OF assms])

text \<open>C6: the next two timer interrupts.  While the terminals after the running one have no process,
  an interrupt in a shell, taken in a frame on its own stack, saves that frame and starts a
  shell on the next terminal; after the second one every terminal runs its shell and the
  invariant of the running system holds.\<close>

theorem ticks_start_shells:
  assumes "starting n s" and "n \<in> {1, 2}" and "frame_ok (int n - 1) (ebp_reg s)" and "locals_ok l s"
  shows "\<exists>ent sp s'. pit_handler l s = Some (Started (Enter_user ent sp), s') \<and>
    starting (n + 1) (s'\<lparr>esp_reg := tss_esp0 s'\<rparr>) \<and> (n = 2 \<longrightarrow> system_ok (s'\<lparr>esp_reg := tss_esp0 s'\<rparr>))"
proof -
  have n: "0 < n" "n < 3" using assms(2) by auto
  obtain ent sp s' where run: "pit_handler l s = Some (Started (Enter_user ent sp), s')"
    and st: "starting (n + 1) (s'\<lparr>esp_reg := tss_esp0 s'\<rparr>)"
    using tick_starts_shell [OF assms(1) n assms(3,4)] by auto
  have "system_ok (s'\<lparr>esp_reg := tss_esp0 s'\<rparr>)" if "n = 2"
    using starting_system [of "s'\<lparr>esp_reg := tss_esp0 s'\<rparr>"] st that by simp
  with run st show ?thesis by blast
qed

subsection \<open>A concrete boot\<close>

text \<open>The boot information at 0x405000 names one module, the file system of the earlier runs.\<close>

definition demo_memory :: mem where
  "demo_memory a = (if a = 0x405000 then 8 else if a = 0x405014 then 1
     else if a = 0x405019 then 0x51 else if a = 0x40501A then 0x40
     else if a = 0x405102 then 0x40
     else demo_program a)"

definition null_seg :: seg_desc_t where
  "null_seg = \<lparr>seg_lim_15_00 = 0, base_15_00 = 0, base_23_16 = 0, seg_type = 0, seg_sys = 0, seg_dpl = 0,
     seg_present = 0, seg_lim_19_16 = 0, seg_avail = 0, seg_reserved = 0, seg_opsize = 0, seg_granularity = 0,
     base_31_24 = 0\<rparr>"

definition demo_layout :: layout where
  "demo_layout = \<lparr>linkage_addr = demo_addr, ldt_addr = 0x413000, tss_addr = 0x414000\<rparr>"

definition demo_machine :: machine where
  "demo_machine = kernel.extend (boot_kernel\<lparr>pmem := demo_memory, esp_reg := 0x7FFF00, ebp_reg := 0x7FFF80\<rparr>)
     (machine.fields (replicate 256 empty_gate) False null_seg null_seg 0 0 0)"

lemma demo_memory_at:
  "demo_memory 0x405000 = 8" "demo_memory 0x405001 = 0" "demo_memory 0x405002 = 0" "demo_memory 0x405003 = 0"
  "demo_memory 0x405018 = 0" "demo_memory 0x405019 = 0x51" "demo_memory 0x40501A = 0x40" "demo_memory 0x40501B = 0"
  "demo_memory 0x405100 = 0" "demo_memory 0x405101 = 0" "demo_memory 0x405102 = 0x40" "demo_memory 0x405103 = 0"
  "demo_memory 0x400004 = 1" "demo_memory 0x400005 = 0" "demo_memory 0x400006 = 0" "demo_memory 0x400007 = 0"
  by (simp_all add: demo_memory_def demo_program_at demo_image_at)

lemma demo_memory_image: "unat x < 0x405000 \<Longrightarrow> demo_memory x = demo_program x"
  by (auto simp: demo_memory_def)

lemma six_zeros: "replicate 6 (0 :: u8) = [0, 0, 0, 0, 0, 0]"
  by (simp add: numeral_eq_Suc)

lemma demo_machine_fields:
  "pmem demo_machine = demo_memory" "pid_bitmap demo_machine = replicate 6 0" "schedule demo_machine = [-1, -1, -1]"
  "kfs demo_machine = demo_fs" "early demo_machine"
  by (simp_all add: demo_machine_def kernel.defs machine.defs boot_kernel_def early_def layout_ok_def paging_on_def
      six_zeros)

lemma early_kmem: "early s \<Longrightarrow> kmem s = pmem s"
  by (simp add: kmem_def access_def early_def fun_eq_iff)

lemma demo_words:
  assumes "info_over demo_machine u"
  shows "word_at u 0x405000 0 = 8" "word_at u 0x405000 24 = 0x405100" "word_at u 0x405100 0 = 0x400000"
    "load32 (kmem u) 0x400004 = 1"
proof -
  have m: "0x400000 \<le> unat x \<Longrightarrow> kmem u x = demo_memory x" for x
    using assms early_kmem [of u] by (simp add: info_over_def demo_machine_fields)
  then show "word_at u 0x405000 0 = 8" "word_at u 0x405000 24 = 0x405100" "word_at u 0x405100 0 = 0x400000"
    "load32 (kmem u) 0x400004 = 1"
    by (simp_all add: word_at_def load32_def demo_memory_at)
qed

lemma same_core_kfs: "same_core u u' \<Longrightarrow> kfs u' = kfs u"
  by (cases u; cases u') (simp add: same_core_def)

lemma kprint_kfs [simp]: "kfs (kprint ps u) = kfs u" and clear_kfs [simp]: "kfs (clear u) = kfs u"
  unfolding kprint_def by (rule same_core_kfs [OF core.R_put_string], rule same_core_kfs [OF core.R_clear])

lemma fold_kprint_kfs [simp]: "kfs (fold (\<lambda>i u. kprint (f i u) u) ns v) = kfs v"
  by (induction ns arbitrary: v) simp_all

lemma print_modules_kfs [simp]: "kfs (print_modules mbi i md u) = kfs u"
proof (induction mbi i md u rule: print_modules.induct)
  case (1 mbi i md u)
  have "kfs (print_module i md u) = kfs u" by (simp add: print_module_def Let_def)
  with 1 show ?case by (subst print_modules.simps) simp
qed

lemma demo_boot_info:
  "\<exists>s1. boot_info 0x405000 (clear demo_machine) = Some (True, s1) \<and> info_over demo_machine s1 \<and> kfs s1 = demo_fs"
proof -
  have u0: "info_over demo_machine (clear demo_machine)"
    using clear_early [OF demo_machine_fields(5)] info_over_printed by blast
  define u1 where "u1 = kprint [Lit ''flags = 0x'', Hex8 (mbi_flags (clear demo_machine) 0x405000), new_line] (clear demo_machine)"
  have u1: "info_over demo_machine u1" unfolding u1_def by (rule kprint_info [OF u0])
  define u2 where "u2 = print_modules 0x405000 0 0x405100 (u1\<lparr>kfs := demo_fs\<rparr>)"
  have "info_over demo_machine (u1\<lparr>kfs := demo_fs\<rparr>)"
    using u1 by (simp add: info_over_def early_def layout_ok_def paging_on_def)
  then have u2: "info_over demo_machine u2" unfolding u2_def by (rule print_modules_info)
  have no: "\<not> CHECK_FLAG 8 0" "\<not> CHECK_FLAG 8 1" "\<not> CHECK_FLAG 8 2" "CHECK_FLAG 8 3" "\<not> CHECK_FLAG 8 4"
    "\<not> CHECK_FLAG 8 5" "\<not> CHECK_FLAG 8 6"
    by (simp_all add: CHECK_FLAG_def)
  have "file_system_init (kmem u1) 0x400000 (kfs u1) = demo_fs"
    using demo_words(4) [OF u1]
    by (intro fs.equality) (simp_all add: file_system_init_def Let_def num_inodes_def demo_fs_simps u1_def demo_machine_fields)
  then have m: "mount_modules 0x405000 u1 = u2"
    using demo_words [OF u1] no by (simp add: mount_modules_def Let_def u2_def)
  have "print_flags 0x405000 (clear demo_machine) = Some u1"
    unfolding print_flags_def Let_def u1_def [symmetric] using demo_words(1) [OF u1] no by simp
  then have "boot_info 0x405000 (clear demo_machine) = Some (True, u2)"
    unfolding boot_info_def print_memory_def Let_def using demo_words(1) [OF u2] no m by simp
  moreover have "kfs u2 = demo_fs" by (simp add: u2_def)
  ultimately show ?thesis using u2 by blast
qed

lemma demo_info_image:
  assumes o: "info_over demo_machine u" and f: "kfs u = demo_fs"
  shows "shell_ready u" and "locals_ok demo_locals u"
proof -
  have m: "kmem u x = demo_program x" if "0x400000 \<le> unat x" "unat x < 0x405000" for x
    using o early_kmem [of u] that demo_memory_image by (simp add: info_over_def demo_machine_fields)
  have maps: "mapped (Some (word_of_int (active demo_system))) demo_system" and ready: "shell_ready demo_system"
    and l: "locals_ok demo_locals demo_system"
    using demo_system_ok demo_system_ready by (simp_all add: system_ok_def running_ok_def)
  have ks: "kmem demo_system x = demo_program x" if "0x400000 \<le> unat x" "unat x < 0x405000" for x
  proof -
    have "drop_bit 22 x = 1" using that by (simp add: kernel_page)
    then show ?thesis using kmem_kernel_page [OF maps] by (simp add: demo_system_def demo_shell_fields)
  qed
  have "image_size (kmem demo_system) (kfs demo_system) = 16384"
    using image_cong(4) [OF demo_program_ok(1), of "kmem demo_system"] ks
    by (auto simp: demo_system_fields demo_program_counts demo_fs_simps in_span_interval simp del: in_span)
  moreover have off: "\<not> paging_on u" using o by (simp add: info_over_def early_def)
  then have k: "kmem (kernel.truncate u) = kmem u" and kf: "kfs (kernel.truncate u) = kfs u"
    by (simp_all add: kernel.truncate_def kmem_def access_def paging_on_def fun_eq_iff)
  ultimately have img: "same_image demo_system (kernel.truncate u)"
    using m ks f by (auto simp: same_image_def demo_system_fields demo_fs_simps in_span_interval simp del: in_span)
  have mnt: "mounted demo_system" using ready by (simp add: shell_ready_def)
  show "shell_ready u"
    using shell_ready_image [OF ready img] by (simp add: shell_ready_def mounted_def program_header_def k kf)
  show "locals_ok demo_locals u"
    using l locals_ok_image [OF img mnt, of demo_locals] by (simp add: locals_ok_def off_image_def k kf)
qed

theorem boot_starts_shell_witness:
  "\<exists>ent sp s'. entry demo_layout null_seg demo_locals MULTIBOOT_BOOTLOADER_MAGIC 0x405000 demo_machine =
      Some (Running (Enter_user ent sp), s') \<and> starting 1 (s'\<lparr>esp_reg := tss_esp0 s'\<rparr>)"
proof -
  obtain s1 where s1: "boot_info 0x405000 (clear demo_machine) = Some (True, s1)" "info_over demo_machine s1"
    "kfs s1 = demo_fs" using demo_boot_info by blast
  show ?thesis
    by (rule boot_starts_shell [OF demo_machine_fields(5) s1(1) demo_info_image [OF s1(2,3)] demo_machine_fields(2,3)])
qed

text \<open>The first shell, alone.\<close>

definition demo_first :: kernel where
  "demo_first = demo_system\<lparr>pid_bitmap := [1, 0, 0, 0, 0, 0], schedule := [0, -1, -1]\<rparr>"

theorem ticks_start_shells_witness:
  "\<exists>ent sp s'. pit_handler demo_locals demo_first = Some (Started (Enter_user ent sp), s') \<and>
    schedule s' = [0, 1, -1]"
proof -
  have acc: "access demo_first = access demo_system" by (rule access_cong) (simp_all add: demo_first_def)
  then have k: "kmem demo_first = kmem demo_system" by (rule kmem_cong) (simp add: demo_first_def)
  have img: "same_image demo_system demo_first" by (simp add: same_image_def k demo_first_def)
  have maps: "mapped p demo_first = mapped p demo_system" for p by (rule mapped_cong) (simp_all add: demo_first_def)
  have scr: "screen_ok demo_first = screen_ok demo_system" by (rule screen_ok_cong) (simp_all add: demo_first_def)
  have mnt: "mounted demo_system" using demo_system_ready(1) by (simp add: shell_ready_def)
  have ready: "shell_ready demo_first" "locals_ok demo_locals demo_first"
    using demo_system_ready(2) shell_ready_image [OF demo_system_ready(1) img] locals_ok_image [OF img mnt] by simp_all
  have act: "active demo_system = 0" by (simp add: active_def demo_system_fields)
  have run: "mapped (Some 0) demo_system" "screen_ok demo_system"
    using demo_system_ok by (simp_all add: system_ok_def running_ok_def act)
  have fields: "schedule demo_first = [0, -1, -1]" "pid_bitmap demo_first = [1, 0, 0, 0, 0, 0]"
    "run_terminal demo_first = 0" "tss_esp0 demo_first = 0x7FFFFC" "esp_reg demo_first = 0x7FFF00"
    "ebp_reg demo_first = 0x7FFF80" "pcbs demo_first = demo_pcbs"
    by (simp_all add: demo_first_def demo_system_fields)
  have bits: "replicate 1 1 @ replicate (6 - 1) 0 = ([1, 0, 0, 0, 0, 0] :: u8 list)"
    by (simp add: numeral_eq_Suc)
  have "starting 1 demo_first"
    unfolding starting_def bits slots(2) using run ready
    by (simp add: fields maps scr on_stack_def own_pcb_def get_pcb_ptr_def demo_pcbs_def)
  moreover have "frame_ok (int 1 - 1) (ebp_reg demo_first)" by (simp add: fields frame_ok_def)
  moreover have "(1 :: nat) + 1 = 2" by simp
  ultimately obtain ent sp s' where
    "pit_handler demo_locals demo_first = Some (Started (Enter_user ent sp), s')"
    "starting 2 (s'\<lparr>esp_reg := tss_esp0 s'\<rparr>)"
    using ticks_start_shells [of 1 demo_first, OF _ _ _ ready(2)] by (metis insertI1)
  moreover from this(2) have "schedule s' = [0, 1, -1]" using slots(3) by (simp add: starting_def)
  ultimately show ?thesis by blast
qed

end
