(* ===== verification/Photo.thy ===== *)
theory Photo
  imports Prelude "HOL-Library.Multiset"
begin

text \<open>
  The photos of the adventure game: \<^verbatim>\<open>mp2/photo.c\<close>.  A room photo is read from a file of 16-bit
  pixels and shown with 192 palette colours of its own: the 128 most frequent cells of the fourth
  level of a colour octree, and the 64 cells of its second level for all other pixels.  The
  standard library's \<^verbatim>\<open>qsort\<close> leaves the order of equal elements open, so it is a parameter, as is
  whether an allocation succeeds.
\<close>

subsection \<open>Data\<close>

record photo_header_t =
  hdr_width :: u16
  hdr_height :: u16

record photo_t =
  photo_hdr :: photo_header_t
  palette :: "(u8 \<times> u8 \<times> u8) list"
  photo_img :: "u8 list"

record image_t =
  image_hdr :: photo_header_t
  image_img :: "u8 list"

record color_t =
  color_index :: int
  color_count :: int
  sum_r :: int
  sum_g :: int
  sum_b :: int
  red :: u16
  green :: u16
  blue :: u16

text \<open>The comparison that \<^verbatim>\<open>qsort\<close> is called with: more frequent colours first.\<close>

definition compare :: "color_t \<Rightarrow> color_t \<Rightarrow> int" where
  "compare a b = color_count b - color_count a"

subsection \<open>Colours of a pixel\<close>

text \<open>The three channels of a 5:6:5 pixel at six bits each.\<close>

definition r6 :: "u16 \<Rightarrow> u16" where
  "r6 pixel = push_bit 1 (drop_bit 11 (pixel AND 0xF800))"

definition g6 :: "u16 \<Rightarrow> u16" where
  "g6 pixel = drop_bit 5 (pixel AND 0x07E0)"

definition b6 :: "u16 \<Rightarrow> u16" where
  "b6 pixel = push_bit 1 (pixel AND 0x001F)"

definition idx4 :: "u16 \<Rightarrow> u16" where
  "idx4 pixel = drop_bit 2 (r6 pixel) * 256 + drop_bit 2 (g6 pixel) * 16 + drop_bit 2 (b6 pixel)"

definition idx2 :: "u16 \<Rightarrow> u16" where
  "idx2 pixel = drop_bit 4 (r6 pixel) * 16 + drop_bit 4 (g6 pixel) * 4 + drop_bit 4 (b6 pixel)"

text \<open>Counting a pixel in cell \<open>i\<close> of a level.\<close>

definition add_colour :: "nat \<Rightarrow> u16 \<Rightarrow> color_t list \<Rightarrow> color_t list" where
  "add_colour i pixel cs =
     cs[i := (cs ! i)\<lparr>color_count := color_count (cs ! i) + 1, sum_r := sum_r (cs ! i) + uint (r6 pixel),
            sum_g := sum_g (cs ! i) + uint (g6 pixel), sum_b := sum_b (cs ! i) + uint (b6 pixel)\<rparr>]"

subsection \<open>Reading\<close>

definition cell_4 :: "nat \<Rightarrow> color_t" where
  "cell_4 i = \<lparr>color_index = int i, color_count = 0, sum_r = 0, sum_g = 0, sum_b = 0, red = 0, green = 0, blue = 0\<rparr>"

text \<open>The initial second level.  The store to the field \<^verbatim>\<open>red\<close> goes to \<^verbatim>\<open>level_2[i]\<close>, where \<^verbatim>\<open>i\<close> is
  4096 after the loop before, outside the array, so \<^verbatim>\<open>red\<close> keeps what was on the stack.\<close>

definition cell_2 :: "color_t \<Rightarrow> nat \<Rightarrow> color_t" where
  "cell_2 junk j = \<lparr>color_index = int j, color_count = 0, sum_r = 0, sum_g = 0, sum_b = 0, red = red junk,
     green = drop_bit 9 (of_nat j AND 0x7E0), blue = drop_bit 3 (of_nat j AND 0x1F)\<rparr>"

text \<open>The positions in the order of the file: rows from bottom to top, each from left to right.\<close>

definition file_order :: "nat \<Rightarrow> nat \<Rightarrow> nat list" where
  "file_order w h = concat (map (\<lambda>y. map (\<lambda>x. w * y + x) [0..<w]) (rev [0..<h]))"

record reading =
  in_file :: "u8 list"
  level_4 :: "color_t list"
  pixels :: "u16 list"
  prev_idx :: "u16 list"

definition read_pixel :: "nat \<Rightarrow> reading \<Rightarrow> reading option" where
  "read_pixel k s =
     (case in_file s of
        lo # hi # rest \<Rightarrow>
          let pixel = ucast lo OR push_bit 8 (ucast hi)
          in Some (s\<lparr>in_file := rest, level_4 := add_colour (unat (idx4 pixel)) pixel (level_4 s),
                     pixels := (pixels s)[k := pixel], prev_idx := (prev_idx s)[k := idx4 pixel]\<rparr>)
      | _ \<Rightarrow> None)"

fun read_pixels :: "nat list \<Rightarrow> reading \<Rightarrow> reading option" where
  "read_pixels [] s = Some s"
| "read_pixels (k # ks) s = (case read_pixel k s of None \<Rightarrow> None | Some s \<Rightarrow> read_pixels ks s)"

subsection \<open>Choosing the palette\<close>

definition mean :: "color_t \<Rightarrow> u8 \<times> u8 \<times> u8" where
  "mean c = (word_of_int (sum_r c div color_count c), word_of_int (sum_g c div color_count c),
     word_of_int (sum_b c div color_count c))"

text \<open>The loop over the sorted fourth level: the position of every cell, and the colours of the
  first 128.  Sums and counts are not negative.\<close>

definition rank_cell :: "color_t list \<Rightarrow> nat \<Rightarrow> u16 list \<times> (u8 \<times> u8 \<times> u8) list \<Rightarrow> u16 list \<times> (u8 \<times> u8 \<times> u8) list" where
  "rank_cell cs i st =
     (case st of (sorted_list, pal) \<Rightarrow>
        ((sorted_list[nat (color_index (cs ! i)) := of_nat i]),
         (if color_count (cs ! i) \<noteq> 0 \<and> i < 128 then pal[i := mean (cs ! i)] else pal)))"

definition rank_cells :: "color_t list \<Rightarrow> (u8 \<times> u8 \<times> u8) list \<Rightarrow> u16 list \<times> (u8 \<times> u8 \<times> u8) list" where
  "rank_cells cs pal = fold (rank_cell cs) [0..<4096] (replicate 4096 0, pal)"

text \<open>The pixels whose cell was chosen.\<close>

definition mark_pixel :: "u16 list \<Rightarrow> u16 list \<Rightarrow> nat \<Rightarrow> u8 list \<times> bool list \<Rightarrow> u8 list \<times> bool list" where
  "mark_pixel sorted_list prev i st =
     (case st of (img, in4) \<Rightarrow>
        let p = sorted_list ! unat (prev ! i)
        in if p < 128 then (img[i := ucast (p + 64)], in4[i := True]) else (img, in4))"

text \<open>The other pixels, by the second level.\<close>

definition second_pixel :: "u16 list \<Rightarrow> bool list \<Rightarrow> nat \<Rightarrow> color_t list \<times> u8 list \<Rightarrow> color_t list \<times> u8 list" where
  "second_pixel pix in4 k st =
     (case st of (cs, img) \<Rightarrow>
        if \<not> in4 ! k
        then (add_colour (unat (idx2 (pix ! k))) (pix ! k) cs, img[k := ucast (idx2 (pix ! k) + 192)])
        else (cs, img))"

definition second_colour :: "color_t list \<Rightarrow> nat \<Rightarrow> (u8 \<times> u8 \<times> u8) list \<Rightarrow> (u8 \<times> u8 \<times> u8) list" where
  "second_colour cs i pal =
     (let c = cs ! i;
          c = (if color_count c \<noteq> 0
               then c\<lparr>red := word_of_int (sum_r c div color_count c), green := word_of_int (sum_g c div color_count c),
                      blue := word_of_int (sum_b c div color_count c)\<rparr> else c)
      in pal[i + 128 := (ucast (red c), ucast (green c), ucast (blue c))])"

text \<open>\<^verbatim>\<open>read_photo\<close> after the pixels were read.\<close>

definition quantize :: "(color_t list \<Rightarrow> color_t list) \<Rightarrow> color_t \<Rightarrow> nat \<Rightarrow> nat \<Rightarrow> reading \<Rightarrow> photo_t \<Rightarrow> photo_t" where
  "quantize qsort junk w h s p =
     (let cs = qsort (level_4 s);
          (sorted_list, pal) = rank_cells cs (palette p);
          (img, in4) = fold (mark_pixel sorted_list (prev_idx s)) [0..<w * h] (photo_img p, replicate (w * h) False);
          (cs2, img) = fold (second_pixel (pixels s) in4) (file_order w h) (map (cell_2 junk) [0..<64], img);
          pal = fold (second_colour cs2) [0..<64] pal
      in p\<lparr>palette := pal, photo_img := img\<rparr>)"

text \<open>The header: two 16-bit numbers.\<close>

fun read_header :: "u8 list \<Rightarrow> (photo_header_t \<times> u8 list) option" where
  "read_header (a # b # c # d # rest) =
     Some (\<lparr>hdr_width = ucast a OR push_bit 8 (ucast b), hdr_height = ucast c OR push_bit 8 (ucast d)\<rparr>, rest)"
| "read_header _ = None"

abbreviation MAX_PHOTO_WIDTH :: u16 where "MAX_PHOTO_WIDTH \<equiv> 1024"
abbreviation MAX_PHOTO_HEIGHT :: u16 where "MAX_PHOTO_HEIGHT \<equiv> 1024"
abbreviation MAX_OBJECT_WIDTH :: u16 where "MAX_OBJECT_WIDTH \<equiv> 160"
abbreviation MAX_OBJECT_HEIGHT :: u16 where "MAX_OBJECT_HEIGHT \<equiv> 100"

text \<open>\<^verbatim>\<open>malloc n\<close> says whether \<open>n\<close> bytes can be had; \<open>pal\<close> and \<open>junk\<close> are what fresh memory holds.  The
  result is \<open>None\<close> where the unchecked third allocation fails, \<open>Some None\<close> for the null pointer.\<close>

definition read_photo ::
  "(nat \<Rightarrow> bool) \<Rightarrow> (color_t list \<Rightarrow> color_t list) \<Rightarrow> (u8 \<times> u8 \<times> u8) list \<Rightarrow> color_t \<Rightarrow> u8 list option \<Rightarrow> photo_t option option" where
  "read_photo malloc qsort pal junk file =
     (case file of None \<Rightarrow> Some None
      | Some bytes \<Rightarrow>
        if \<not> malloc 584 then Some None
        else (case read_header bytes of None \<Rightarrow> Some None
        | Some (hdr, rest) \<Rightarrow>
            let w = unat (hdr_width hdr); h = unat (hdr_height hdr)
            in if MAX_PHOTO_WIDTH < hdr_width hdr \<or> MAX_PHOTO_HEIGHT < hdr_height hdr \<or> \<not> malloc (w * h)
               then Some None
               else if \<not> malloc (2 * h * w) \<and> 0 < w * h then None
               else (case read_pixels (file_order w h)
                     \<lparr>in_file = rest, level_4 = map cell_4 [0..<4096], pixels = replicate (w * h) 0,
                      prev_idx = replicate (w * h) 0\<rparr> of
                   None \<Rightarrow> Some None
                 | Some s \<Rightarrow> Some (Some (quantize qsort junk w h s
                     \<lparr>photo_hdr = hdr, palette = pal, photo_img = replicate (w * h) 0\<rparr>)))))"

definition photo_height :: "photo_t \<Rightarrow> u32" where
  "photo_height p = ucast (hdr_height (photo_hdr p))"

definition photo_width :: "photo_t \<Rightarrow> u32" where
  "photo_width p = ucast (hdr_width (photo_hdr p))"

definition image_height :: "image_t \<Rightarrow> u32" where
  "image_height im = ucast (hdr_height (image_hdr im))"

definition image_width :: "image_t \<Rightarrow> u32" where
  "image_width im = ucast (hdr_width (image_hdr im))"

text \<open>\<^verbatim>\<open>read_obj_image\<close>: one byte for a pixel, stored as it is.  \<open>junk\<close> is what the fresh image holds.\<close>

fun read_bytes_at :: "nat list \<Rightarrow> u8 list \<Rightarrow> u8 list \<Rightarrow> u8 list option" where
  "read_bytes_at [] bytes img = Some img"
| "read_bytes_at (k # ks) (b # bytes) img = read_bytes_at ks bytes (img[k := b])"
| "read_bytes_at (k # ks) [] img = None"

definition read_obj_image :: "(nat \<Rightarrow> bool) \<Rightarrow> (nat \<Rightarrow> u8 list) \<Rightarrow> u8 list option \<Rightarrow> image_t option" where
  "read_obj_image malloc junk file =
     (case file of None \<Rightarrow> None
      | Some bytes \<Rightarrow>
        if \<not> malloc 8 then None
        else (case read_header bytes of None \<Rightarrow> None
        | Some (hdr, rest) \<Rightarrow>
            let w = unat (hdr_width hdr); h = unat (hdr_height hdr)
            in if MAX_OBJECT_WIDTH < hdr_width hdr \<or> MAX_OBJECT_HEIGHT < hdr_height hdr \<or> \<not> malloc (w * h) then None
               else (case read_bytes_at (file_order w h) rest (junk (w * h)) of None \<Rightarrow> None
               | Some img \<Rightarrow> Some \<lparr>image_hdr = hdr, image_img = img\<rparr>)))"

subsection \<open>Means of channels\<close>

lemma mean_bounds:
  assumes "xs \<noteq> []" and "\<And>x. x \<in> set xs \<Longrightarrow> lo \<le> x \<and> x \<le> hi"
  shows "lo \<le> sum_list xs div int (length xs)" and "sum_list xs div int (length xs) \<le> (hi :: int)"
proof -
  have "lo * int (length xs) \<le> sum_list xs \<and> sum_list xs \<le> hi * int (length xs)"
    using assms(2) by (induction xs) (auto simp: algebra_simps, force+)
  moreover have n: "0 < int (length xs)" using assms(1) by simp
  ultimately show "lo \<le> sum_list xs div int (length xs)" "sum_list xs div int (length xs) \<le> hi"
    using zdiv_mono1 [of "lo * int (length xs)" "sum_list xs" "int (length xs)"]
      zdiv_mono1 [of "sum_list xs" "hi * int (length xs)" "int (length xs)"] by simp_all
qed

lemma low_bits: "take_bit 6 w = w \<Longrightarrow> unat (w :: u16) < 64"
  using unsigned_take_bit_eq [of 6 w, where ?'a = nat] take_bit_nat_less_exp [of 6 "unat w"] by simp

lemma channel_less [simp]: "unat (r6 px) < 64" "unat (g6 px) < 64" "unat (b6 px) < 64"
proof -
  have masks: "(0xF800 :: u16) = push_bit 11 (mask 5)" "(0x07E0 :: u16) = push_bit 5 (mask 6)" "(0x001F :: u16) = mask 5"
    by (simp_all add: mask_eq_exp_minus_1 push_bit_eq_mult)
  have "take_bit 6 (r6 px) = r6 px" "take_bit 6 (g6 px) = g6 px" "take_bit 6 (b6 px) = b6 px"
    unfolding r6_def g6_def b6_def masks
    by (rule bit_word_eqI; auto simp: bit_simps simp del: push_bit_Suc One_nat_def dest: bit_imp_le_length)+
  then show "unat (r6 px) < 64" "unat (g6 px) < 64" "unat (b6 px) < 64" by (simp_all add: low_bits)
qed

lemma unat_drop: "unat (drop_bit n w :: u16) = unat w div 2 ^ n"
  by (subst unat_drop_bit_eq) (rule drop_bit_eq_div)

lemma div_less: "(n :: nat) < 64 \<Longrightarrow> n div 4 < 16 \<and> n div 16 < 4"
  by (simp add: div_less_iff_less_mult)

lemma channel_div_less: "unat (r6 px) div 4 < 16" "unat (g6 px) div 4 < 16" "unat (b6 px) div 4 < 16"
    "unat (r6 px) div 16 < 4" "unat (g6 px) div 16 < 4" "unat (b6 px) div 16 < 4"
  using channel_less [of px] by (simp_all only: div_less)

lemma unat_of_parts:
  fixes a b c :: u16
  assumes "unat a < 16" and "unat b < 16" and "unat c < 16"
  shows "unat (a * 256 + b * 16 + c) = unat a * 256 + unat b * 16 + unat c"
    "unat (a * 16 + b * 4 + c) = unat a * 16 + unat b * 4 + unat c"
  using assms by (simp_all add: unat_word_ariths)

lemma unat_idx4: "unat (idx4 px) = unat (r6 px) div 4 * 256 + unat (g6 px) div 4 * 16 + unat (b6 px) div 4"
  using channel_div_less [of px] unfolding idx4_def
  by (subst unat_of_parts(1)) (simp_all add: unat_drop)

lemma unat_idx2: "unat (idx2 px) = unat (r6 px) div 16 * 16 + unat (g6 px) div 16 * 4 + unat (b6 px) div 16"
  using channel_div_less [of px] unfolding idx2_def
  by (subst unat_of_parts(2)) (auto simp: unat_drop)

lemma idx_less [simp]: "unat (idx4 px) < 4096" "unat (idx2 px) < 64"
  using channel_div_less [of px] unfolding unat_idx4 unat_idx2 by linarith+

text \<open>Pixels of one cell agree in the high bits of every channel.\<close>

lemma digits_eq:
  assumes "a * m * m + b * m + c = a' * m * m + b' * m + (c' :: nat)" and "b < m" "c < m" "b' < m" "c' < m"
  shows "a = a' \<and> b = b' \<and> c = c'"
proof -
  have "(a * m + b) * m + c = (a' * m + b') * m + c'" using assms(1) by (simp add: algebra_simps)
  then have "((a * m + b) * m + c) div m = ((a' * m + b') * m + c') div m"
    "((a * m + b) * m + c) mod m = ((a' * m + b') * m + c') mod m" by simp_all
  then have c: "c = c'" and ab: "a * m + b = a' * m + b'" using assms by simp_all
  then have "(a * m + b) div m = (a' * m + b') div m" "(a * m + b) mod m = (a' * m + b') mod m" by simp_all
  then show ?thesis using c assms by simp
qed

lemma same_cell4:
  assumes "idx4 p = idx4 q"
  shows "unat (r6 p) div 4 = unat (r6 q) div 4 \<and> unat (g6 p) div 4 = unat (g6 q) div 4 \<and> unat (b6 p) div 4 = unat (b6 q) div 4"
proof (rule digits_eq [where m = 16])
  show "unat (r6 p) div 4 * 16 * 16 + unat (g6 p) div 4 * 16 + unat (b6 p) div 4 =
      unat (r6 q) div 4 * 16 * 16 + unat (g6 q) div 4 * 16 + unat (b6 q) div 4"
    using arg_cong [OF assms, of unat] unfolding unat_idx4 by simp
qed (rule channel_div_less)+

lemma same_cell2:
  assumes "idx2 p = idx2 q"
  shows "unat (r6 p) div 16 = unat (r6 q) div 16 \<and> unat (g6 p) div 16 = unat (g6 q) div 16 \<and> unat (b6 p) div 16 = unat (b6 q) div 16"
proof (rule digits_eq [where m = 4])
  show "unat (r6 p) div 16 * 4 * 4 + unat (g6 p) div 16 * 4 + unat (b6 p) div 16 =
      unat (r6 q) div 16 * 4 * 4 + unat (g6 q) div 16 * 4 + unat (b6 q) div 16"
    using arg_cong [OF assms, of unat] unfolding unat_idx2 by simp
qed (rule channel_div_less)+


lemma bucket_int: "unat (v :: u16) div d = unat w div d \<Longrightarrow> uint v div int d = uint w div int d"
  by (metis uint_nat zdiv_int)

lemma uint_less_numeral: "unat (v :: u16) < numeral n \<Longrightarrow> uint v < numeral n"
  by (metis of_nat_less_iff of_nat_numeral uint_nat)

text \<open>The mean of a channel over pixels that agree in its high bits is near each of them.\<close>

lemma mean_near:
  assumes "k \<in> set ks" and same: "\<And>j. j \<in> set ks \<Longrightarrow> unat (f j :: u16) div d = unat (f k) div d \<and> unat (f j) < 64"
    and "0 < d"
  defines "m \<equiv> (\<Sum>j\<leftarrow>ks. uint (f j)) div int (length ks)"
  shows "0 \<le> m \<and> m < 64 \<and> \<bar>m - uint (f k)\<bar> < int d"
proof -
  have ne: "map (\<lambda>j. uint (f j)) ks \<noteq> []" using assms(1) by auto
  let ?lo = "int d * (uint (f k) div int d)"
  have low: "?lo \<le> uint (f j)" and high: "uint (f j) \<le> ?lo + (int d - 1)" and "uint (f j) \<le> 63" if "j \<in> set ks" for j
  proof -
    have j: "uint (f j) div int d = uint (f k) div int d" "uint (f j) < 64"
      using same [OF that] bucket_int uint_less_numeral by blast+
    have "uint (f j) mod int d < int d" "0 \<le> uint (f j) mod int d" using assms(3) by simp_all
    then show "?lo \<le> uint (f j)" "uint (f j) \<le> ?lo + (int d - 1)"
      using mult_div_mod_eq [of "int d" "uint (f j)"] unfolding j(1) by linarith+
    show "uint (f j) \<le> 63" using j(2) by simp
  qed
  have "0 \<le> m" "?lo \<le> m" "m \<le> ?lo + (int d - 1)" "m \<le> 63"
    using mean_bounds [OF ne, of 0 63] mean_bounds [OF ne, of ?lo "?lo + (int d - 1)"] \<open>\<And>j. j \<in> set ks \<Longrightarrow> uint (f j) \<le> 63\<close> low high
    unfolding m_def by auto
  moreover have "?lo \<le> uint (f k)" "uint (f k) \<le> ?lo + (int d - 1)" using low high assms(1) by blast+
  ultimately show ?thesis by linarith
qed

subsection \<open>Counting colours\<close>

lemma length_add_colour [simp]: "length (add_colour i px cs) = length cs"
  by (simp add: add_colour_def)

lemma length_count_colours [simp]: "length (fold (\<lambda>k. add_colour (ix k) (px k)) ks cs) = length cs"
  by (induction ks arbitrary: cs) simp_all

lemma count_colours:
  fixes px :: "'a \<Rightarrow> u16" and ix :: "'a \<Rightarrow> nat"
  assumes "i < length cs"
  defines "K \<equiv> \<lambda>ks. filter (\<lambda>k. ix k = i) ks" and "S \<equiv> \<lambda>f ks. \<Sum>k\<leftarrow>ks. uint (f (px k) :: u16)"
  shows "fold (\<lambda>k. add_colour (ix k) (px k)) ks cs ! i =
    (cs ! i)\<lparr>color_count := color_count (cs ! i) + int (length (K ks)), sum_r := sum_r (cs ! i) + S r6 (K ks),
      sum_g := sum_g (cs ! i) + S g6 (K ks), sum_b := sum_b (cs ! i) + S b6 (K ks)\<rparr>"
  using assms(1)
proof (induction ks arbitrary: cs)
  case Nil
  then show ?case by (simp add: K_def S_def)
next
  case (Cons k ks)
  show ?case
  proof (cases "ix k = i")
    case True
    then show ?thesis using Cons.prems by (simp add: Cons.IH) (simp add: add_colour_def K_def S_def)
  next
    case False
    then show ?thesis using Cons.prems by (simp add: Cons.IH) (simp add: add_colour_def K_def)
  qed
qed

subsection \<open>Reading the pixels\<close>

text \<open>The 16-bit numbers of a file, low byte first.\<close>

fun file_pixels :: "u8 list \<Rightarrow> u16 list" where
  "file_pixels (lo # hi # bs) = (ucast lo OR push_bit 8 (ucast hi)) # file_pixels bs"
| "file_pixels _ = []"

lemma read_pixels_result:
  assumes "read_pixels ks s = Some s'" and "distinct ks" and "\<forall>k\<in>set ks. k < length (pixels s) \<and> k < length (prev_idx s)"
  shows "length (pixels s') = length (pixels s) \<and> length (prev_idx s') = length (prev_idx s) \<and>
    (\<forall>k. k \<notin> set ks \<longrightarrow> pixels s' ! k = pixels s ! k \<and> prev_idx s' ! k = prev_idx s ! k) \<and>
    (\<forall>k\<in>set ks. prev_idx s' ! k = idx4 (pixels s' ! k)) \<and>
    map (\<lambda>k. pixels s' ! k) ks = take (length ks) (file_pixels (in_file s)) \<and>
    level_4 s' = fold (\<lambda>k. add_colour (unat (idx4 (pixels s' ! k))) (pixels s' ! k)) ks (level_4 s)"
  using assms
proof (induction ks arbitrary: s)
  case (Cons k ks)
  obtain s1 where 1: "read_pixel k s = Some s1" "read_pixels ks s1 = Some s'"
    using Cons.prems(1) by (auto split: option.splits)
  obtain lo hi bs where bs: "in_file s = lo # hi # bs"
    using 1(1) unfolding read_pixel_def by (auto split: list.splits)
  let ?px = "ucast lo OR push_bit 8 (ucast hi) :: u16"
  have s1: "s1 = s\<lparr>in_file := bs, level_4 := add_colour (unat (idx4 ?px)) ?px (level_4 s),
      pixels := (pixels s)[k := ?px], prev_idx := (prev_idx s)[k := idx4 ?px]\<rparr>"
    using 1(1) unfolding read_pixel_def bs by (simp add: Let_def)
  have "\<forall>k\<in>set ks. k < length (pixels s1) \<and> k < length (prev_idx s1)" and k: "k \<notin> set ks"
    using Cons.prems(2,3) by (simp_all add: s1)
  note IH = Cons.IH [OF 1(2) _ this(1)]
  have "pixels s' ! k = ?px" "prev_idx s' ! k = idx4 ?px"
    using IH k Cons.prems(2,3) by (simp_all add: s1)
  moreover have "map (\<lambda>k. pixels s' ! k) (k # ks) = take (length (k # ks)) (file_pixels (in_file s))"
    using IH \<open>pixels s' ! k = ?px\<close> Cons.prems(2) by (simp add: s1 bs)
  ultimately show ?case using IH Cons.prems(2) by (simp add: s1)
qed simp

lemma read_pixels_total:
  "2 * length ks \<le> length (in_file s) \<Longrightarrow> \<exists>s'. read_pixels ks s = Some s'"
proof (induction ks arbitrary: s)
  case (Cons k ks)
  obtain lo hi bs where "in_file s = lo # hi # bs"
    using Cons.prems by (cases "in_file s" rule: file_pixels.cases) auto
  then show ?case using Cons by (auto simp: read_pixel_def Let_def)
qed simp

lemma read_pixels_short:
  "length (in_file s) < 2 * length ks \<Longrightarrow> read_pixels ks s = None"
proof (induction ks arbitrary: s)
  case (Cons k ks)
  then show ?case by (cases "in_file s" rule: file_pixels.cases) (auto simp: read_pixel_def Let_def)
qed simp

text \<open>The order of the file runs through all positions once.\<close>

lemma file_order_Suc: "file_order w (Suc h) = map (\<lambda>x. w * h + x) [0..<w] @ file_order w h"
  by (simp add: file_order_def)

lemma row_Un: "{n..<n + w} \<union> {..<n} = {..<n + (w :: nat)}"
  by auto

lemma file_order_positions: "set (file_order w h) = {..<w * h} \<and> distinct (file_order w h) \<and> length (file_order w h) = w * h"
proof (induction h)
  case (Suc h)
  have row: "map (\<lambda>x. w * h + x) [0..<w] = [w * h..<w * h + w]"
    by (rule nth_equalityI) simp_all
  have "set (file_order w (Suc h)) = {..<w * h + w}"
    using Suc row_Un [of "w * h" w] unfolding file_order_Suc row set_append set_upt by simp
  moreover have "distinct (file_order w (Suc h))"
    using Suc unfolding file_order_Suc row distinct_append set_upt by (simp add: disjoint_iff)
  moreover have "length (file_order w (Suc h)) = w * h + w" using Suc unfolding file_order_Suc row by simp
  ultimately show ?case by (simp add: add.commute)
qed (simp add: file_order_def)

lemma set_file_order [simp]: "set (file_order w h) = {..<w * h}"
  and distinct_file_order [simp]: "distinct (file_order w h)"
  and length_file_order [simp]: "length (file_order w h) = w * h"
  using file_order_positions by blast+

lemma file_order_nth:
  "y < h \<Longrightarrow> x < w \<Longrightarrow> file_order w h ! (w * (h - 1 - y) + x) = w * y + x"
proof (induction h)
  case (Suc h)
  show ?case
  proof (cases "y = h")
    case False
    then have "w * (h - y) + x = w + (w * (h - 1 - y) + x)"
      using Suc.prems by (cases "h - y") auto
    then show ?thesis using Suc False unfolding file_order_Suc by (simp add: nth_append)
  qed (use Suc.prems in \<open>simp add: file_order_Suc nth_append\<close>)
qed simp


subsection \<open>The loops of the palette\<close>

lemma rank_cells_prefix:
  assumes "n \<le> length cs" and "distinct (map color_index cs)" and "\<forall>c\<in>set cs. 0 \<le> color_index c \<and> nat (color_index c) < length sl"
    and "128 \<le> length pal"
  shows "case fold (rank_cell cs) [0..<n] (sl, pal) of (sl', pal') \<Rightarrow>
    length sl' = length sl \<and> length pal' = length pal \<and> (\<forall>i<n. sl' ! nat (color_index (cs ! i)) = of_nat i) \<and>
    (\<forall>i<n. i < 128 \<longrightarrow> color_count (cs ! i) \<noteq> 0 \<longrightarrow> pal' ! i = mean (cs ! i))"
  using assms(1)
proof (induction n)
  case (Suc n)
  have n: "n < length cs" using Suc.prems by simp
  obtain sl1 pal1 where 1: "fold (rank_cell cs) [0..<n] (sl, pal) = (sl1, pal1)" by fastforce
  have other: "nat (color_index (cs ! i)) \<noteq> nat (color_index (cs ! n))" if "i < n" for i
  proof -
    have "color_index (cs ! i) \<noteq> color_index (cs ! n)"
      using assms(2) that n nth_eq_iff_index_eq [of "map color_index cs" i n] by simp
    moreover have "0 \<le> color_index (cs ! i)" "0 \<le> color_index (cs ! n)" using assms(3) that n by simp_all
    ultimately show ?thesis by simp
  qed
  have "nat (color_index (cs ! n)) < length sl" using assms(3) n by simp
  then show ?case using Suc.IH n other other [symmetric] assms(4) by (auto simp: 1 rank_cell_def nth_list_update less_Suc_eq)
qed simp

lemma mark_pixels_prefix:
  assumes "n \<le> length img" and "n \<le> length in4"
  shows "case fold (mark_pixel sl prev) [0..<n] (img, in4) of (img', in4') \<Rightarrow>
    length img' = length img \<and> length in4' = length in4 \<and>
    (\<forall>i<n. in4' ! i = (in4 ! i \<or> sl ! unat (prev ! i) < 128) \<and>
      (sl ! unat (prev ! i) < 128 \<longrightarrow> img' ! i = ucast (sl ! unat (prev ! i) + 64))) \<and> (\<forall>i\<ge>n. in4' ! i = in4 ! i)"
  using assms
proof (induction n)
  case (Suc n)
  obtain img1 in1 where 1: "fold (mark_pixel sl prev) [0..<n] (img, in4) = (img1, in1)" by fastforce
  then show ?case using Suc by (auto simp: mark_pixel_def Let_def nth_list_update less_Suc_eq split: if_splits)
qed simp

lemma second_pixels:
  assumes "\<forall>k\<in>set ks. k < length img"
  shows "case fold (second_pixel px in4) ks (cs, img) of (cs', img') \<Rightarrow>
    cs' = fold (\<lambda>k. add_colour (unat (idx2 (px ! k))) (px ! k)) (filter (\<lambda>k. \<not> in4 ! k) ks) cs \<and>
    length img' = length img \<and>
    (\<forall>k. img' ! k = (if k \<in> set ks \<and> \<not> in4 ! k then ucast (idx2 (px ! k) + 192) else img ! k))"
  using assms
proof (induction ks arbitrary: cs img)
  case (Cons k ks)
  obtain cs1 img1 where 1: "second_pixel px in4 k (cs, img) = (cs1, img1)" by fastforce
  have "length img1 = length img" "\<forall>j. img1 ! j = (if j = k \<and> \<not> in4 ! k then ucast (idx2 (px ! k) + 192) else img ! j)"
    "cs1 = (if in4 ! k then cs else add_colour (unat (idx2 (px ! k))) (px ! k) cs)"
    using 1 Cons.prems by (auto simp: second_pixel_def nth_list_update split: if_splits)
  then show ?case using Cons.IH [of img1 cs1] Cons.prems 1 by (auto split: prod.splits)
qed simp

text \<open>The colour of the second level that goes into the palette.\<close>

definition second_rgb :: "color_t \<Rightarrow> u8 \<times> u8 \<times> u8" where
  "second_rgb c =
     (if color_count c \<noteq> 0
      then (word_of_int (sum_r c div color_count c), word_of_int (sum_g c div color_count c), word_of_int (sum_b c div color_count c))
      else (ucast (red c), ucast (green c), ucast (blue c)))"

lemma low_byte_of_int: "(ucast (word_of_int k :: u16) :: u8) = word_of_int k"
  by transfer simp

lemma second_colour_eq: "second_colour cs i pal = pal[i + 128 := second_rgb (cs ! i)]"
  by (simp add: second_colour_def second_rgb_def Let_def low_byte_of_int)

lemma second_colours_prefix:
  assumes "length pal = 192" and "n \<le> 64"
  shows "length (fold (second_colour cs) [0..<n] pal) = 192 \<and>
    (\<forall>i<n. fold (second_colour cs) [0..<n] pal ! (i + 128) = second_rgb (cs ! i)) \<and>
    (\<forall>i<128. fold (second_colour cs) [0..<n] pal ! i = pal ! i)"
  using assms(2)
proof (induction n)
  case (Suc n)
  then show ?case using assms(1) by (auto simp: second_colour_eq nth_list_update less_Suc_eq)
qed (simp add: assms(1))


subsection \<open>The chosen colours\<close>

text \<open>What \<^verbatim>\<open>qsort\<close> is relied on for: the same elements, in an order the comparison accepts.\<close>

definition qsort_ok :: "('a \<Rightarrow> 'a \<Rightarrow> int) \<Rightarrow> ('a list \<Rightarrow> 'a list) \<Rightarrow> bool" where
  "qsort_ok cmp qsort \<longleftrightarrow> (\<forall>xs. mset (qsort xs) = mset xs \<and> sorted_wrt (\<lambda>a b. cmp a b \<le> 0) (qsort xs))"

lemma sorted_cells:
  assumes "qsort_ok compare qsort" and "length cs = n" and "\<forall>i<n. color_index (cs ! i) = int i"
  shows "length (qsort cs) = n" and "distinct (map color_index (qsort cs))"
    and "\<forall>c\<in>set (qsort cs). 0 \<le> color_index c \<and> nat (color_index c) < n"
    and "\<forall>j<n. \<exists>i<n. qsort cs ! i = cs ! j"
    and "\<forall>i j. i < j \<longrightarrow> j < n \<longrightarrow> color_count (qsort cs ! j) \<le> color_count (qsort cs ! i)"
    and "\<forall>i<n. cs ! nat (color_index (qsort cs ! i)) = qsort cs ! i"
proof -
  have same: "mset (qsort cs) = mset cs" and sorted: "sorted_wrt (\<lambda>a b. compare a b \<le> 0) (qsort cs)"
    using assms(1) by (simp_all add: qsort_ok_def)
  show len: "length (qsort cs) = n" using mset_eq_length [OF same] assms(2) by simp
  have set_eq: "set (qsort cs) = set cs" using mset_eq_setD [OF same] .
  have "map color_index cs = map int [0..<n]" using assms(2,3) by (auto intro: nth_equalityI)
  then have "distinct (map color_index cs)" by (simp add: distinct_map)
  moreover have "mset (map color_index (qsort cs)) = mset (map color_index cs)" using same by simp
  ultimately show "distinct (map color_index (qsort cs))" by (metis mset_eq_imp_distinct_iff)
  show "\<forall>c\<in>set (qsort cs). 0 \<le> color_index c \<and> nat (color_index c) < n"
    unfolding set_eq using assms(2,3) by (auto simp: in_set_conv_nth)
  show "\<forall>j<n. \<exists>i<n. qsort cs ! i = cs ! j"
    using set_eq assms(2) len by (metis in_set_conv_nth)
  show "\<forall>i j. i < j \<longrightarrow> j < n \<longrightarrow> color_count (qsort cs ! j) \<le> color_count (qsort cs ! i)"
    using sorted_wrt_nth_less [OF sorted] len by (simp add: compare_def)
  show "\<forall>i<n. cs ! nat (color_index (qsort cs ! i)) = qsort cs ! i"
  proof (intro allI impI)
    fix i assume "i < n"
    then have "qsort cs ! i \<in> set cs" using set_eq len nth_mem by metis
    then obtain j where "j < n" "cs ! j = qsort cs ! i" using assms(2) by (auto simp: in_set_conv_nth)
    then show "cs ! nat (color_index (qsort cs ! i)) = qsort cs ! i" using assms(3) by (metis nat_int)
  qed
qed

text \<open>A palette colour within \<open>d\<close> of a pixel in every channel, and the number of pixels that share
  the fourth-level cell of a pixel.\<close>

definition near :: "int \<Rightarrow> u8 \<times> u8 \<times> u8 \<Rightarrow> u16 \<Rightarrow> bool" where
  "near d c px \<longleftrightarrow> (case c of (r, g, b) \<Rightarrow>
     \<bar>uint r - uint (r6 px)\<bar> < d \<and> \<bar>uint g - uint (g6 px)\<bar> < d \<and> \<bar>uint b - uint (b6 px)\<bar> < d)"

definition frequency :: "u16 list \<Rightarrow> u16 \<Rightarrow> nat" where
  "frequency pxs px = length (filter (\<lambda>q. idx4 q = idx4 px) pxs)"

lemma uint_small_byte: "0 \<le> m \<Longrightarrow> m < 64 \<Longrightarrow> uint (word_of_int m :: u8) = m"
  by (simp add: unsigned_of_int take_bit_int_eq_self)

lemma near_mean:
  assumes "k \<in> set ks" and "0 < d"
    and "\<And>j. j \<in> set ks \<Longrightarrow> unat (r6 (px j)) div d = unat (r6 (px k)) div d \<and> unat (g6 (px j)) div d = unat (g6 (px k)) div d \<and>
      unat (b6 (px j)) div d = unat (b6 (px k)) div d"
  shows "near (int d) (word_of_int ((\<Sum>j\<leftarrow>ks. uint (r6 (px j))) div int (length ks)),
    word_of_int ((\<Sum>j\<leftarrow>ks. uint (g6 (px j))) div int (length ks)),
    word_of_int ((\<Sum>j\<leftarrow>ks. uint (b6 (px j))) div int (length ks))) (px k)"
  using mean_near [OF assms(1), of "\<lambda>j. r6 (px j)" d] mean_near [OF assms(1), of "\<lambda>j. g6 (px j)" d]
    mean_near [OF assms(1), of "\<lambda>j. b6 (px j)" d] assms(2,3)
  by (simp add: near_def uint_small_byte)

lemma frequency_positions:
  assumes "length pxs = w * h"
  shows "length (filter (\<lambda>k. unat (idx4 (pxs ! k)) = unat (idx4 px)) (file_order w h)) = frequency pxs px"
proof -
  have "{k. unat (idx4 (pxs ! k)) = unat (idx4 px)} \<inter> {..<w * h} = {k. k < w * h \<and> idx4 (pxs ! k) = idx4 px}"
    by (simp only: word_unat_eq_iff lessThan_def) blast
  then show ?thesis unfolding distinct_length_filter [OF distinct_file_order] set_file_order
    by (simp add: frequency_def length_filter_conv_card assms)
qed


text \<open>The chosen and the other pixels after the whole computation.\<close>

lemma rank_less: "i < 4096 \<Longrightarrow> (of_nat i :: u16) < 128 \<longleftrightarrow> i < 128"
  by (simp add: word_less_nat_alt unat_of_nat)

lemma img_first: "i < 128 \<Longrightarrow> unat (ucast (of_nat i + 64 :: u16) :: u8) = i + 64"
  by (simp add: unsigned_ucast_eq take_bit_eq_mod unat_word_ariths unat_of_nat)

lemma img_second: "unat (ucast (idx2 px + 192) :: u8) = unat (idx2 px) + 192"
  using idx_less(2) [of px] by (simp add: unsigned_ucast_eq take_bit_eq_mod unat_word_ariths del: idx_less)

lemma level_4_cells:
  assumes "level_4 s = fold (\<lambda>k. add_colour (unat (idx4 (px k))) (px k)) ks (map cell_4 [0..<4096])"
  shows "length (level_4 s) = 4096" and "i < 4096 \<Longrightarrow> level_4 s ! i = (cell_4 i)
    \<lparr>color_count := int (length (filter (\<lambda>k. unat (idx4 (px k)) = i) ks)),
     sum_r := (\<Sum>k\<leftarrow>filter (\<lambda>k. unat (idx4 (px k)) = i) ks. uint (r6 (px k))),
     sum_g := (\<Sum>k\<leftarrow>filter (\<lambda>k. unat (idx4 (px k)) = i) ks. uint (g6 (px k))),
     sum_b := (\<Sum>k\<leftarrow>filter (\<lambda>k. unat (idx4 (px k)) = i) ks. uint (b6 (px k)))\<rparr>"
  using assms by (simp_all add: count_colours del: upt_rec_numeral) (simp add: cell_4_def)

lemma near_first:
  assumes "level_4 s = fold (\<lambda>k. add_colour (unat (idx4 (px k))) (px k)) ks (map cell_4 [0..<4096])" and "k \<in> set ks"
  shows "color_count (level_4 s ! unat (idx4 (px k))) \<noteq> 0" and "near 4 (mean (level_4 s ! unat (idx4 (px k)))) (px k)"
proof -
  let ?K = "filter (\<lambda>j. unat (idx4 (px j)) = unat (idx4 (px k))) ks"
  have k: "k \<in> set ?K" using assms(2) by simp
  note cell = level_4_cells(2) [OF assms(1) idx_less(1) [of "px k"]]
  show "color_count (level_4 s ! unat (idx4 (px k))) \<noteq> 0" unfolding cell using k length_pos_if_in_set by fastforce
  have same: "unat (r6 (px j)) div 4 = unat (r6 (px k)) div 4 \<and> unat (g6 (px j)) div 4 = unat (g6 (px k)) div 4 \<and>
      unat (b6 (px j)) div 4 = unat (b6 (px k)) div 4" if "j \<in> set ?K" for j
    using that same_cell4 [of "px j" "px k"] by (simp only: word_unat_eq_iff set_filter mem_Collect_eq)
  show "near 4 (mean (level_4 s ! unat (idx4 (px k)))) (px k)"
    using near_mean [where px = px, OF k _ same] unfolding cell mean_def by simp
qed

lemma near_second:
  assumes "k \<in> set ks"
  shows "near 16 (second_rgb (fold (\<lambda>k. add_colour (unat (idx2 (px k))) (px k)) ks (map (cell_2 junk) [0..<64]) !
    unat (idx2 (px k)))) (px k)"
proof -
  let ?K = "filter (\<lambda>j. unat (idx2 (px j)) = unat (idx2 (px k))) ks"
  have k: "k \<in> set ?K" using assms by simp
  have l: "unat (idx2 (px k)) < length (map (cell_2 junk) [0..<64])" by simp
  have n: "length ?K \<noteq> 0" using k length_pos_if_in_set by fastforce
  have old: "map (cell_2 junk) [0..<64] ! unat (idx2 (px k)) = cell_2 junk (unat (idx2 (px k)))" by simp
  have same: "unat (r6 (px j)) div 16 = unat (r6 (px k)) div 16 \<and> unat (g6 (px j)) div 16 = unat (g6 (px k)) div 16 \<and>
      unat (b6 (px j)) div 16 = unat (b6 (px k)) div 16" if "j \<in> set ?K" for j
    using that same_cell2 [of "px j" "px k"] by (simp only: word_unat_eq_iff set_filter mem_Collect_eq)
  show ?thesis
    using near_mean [where px = px, OF k _ same] n unfolding count_colours [OF l] old second_rgb_def
    by (simp add: cell_2_def del: length_0_conv)
qed

lemma quantize_pixels:
  fixes junk :: color_t
  assumes qs: "qsort_ok compare qsort" and "length (pixels s) = w * h" and prev: "\<forall>k<w * h. prev_idx s ! k = idx4 (pixels s ! k)"
    and level: "level_4 s = fold (\<lambda>k. add_colour (unat (idx4 (pixels s ! k))) (pixels s ! k)) (file_order w h) (map cell_4 [0..<4096])"
    and pal: "length (palette p) = 192" and img: "length (photo_img p) = w * h"
  defines "p' \<equiv> quantize qsort junk w h s p" and "cs \<equiv> qsort (level_4 s)"
  shows "\<forall>k<w * h. \<exists>i<4096. cs ! i = level_4 s ! unat (idx4 (pixels s ! k)) \<and>
    (if i < 128 then unat (photo_img p' ! k) = i + 64 \<and> near 4 (palette p' ! i) (pixels s ! k)
     else unat (photo_img p' ! k) = unat (idx2 (pixels s ! k)) + 192 \<and>
       near 16 (palette p' ! (unat (idx2 (pixels s ! k)) + 128)) (pixels s ! k))"
proof (intro allI impI)
  fix k assume k: "k < w * h"
  let ?px = "pixels s ! k"
  let ?j = "unat (idx4 ?px)"
  have index: "\<forall>i<4096. color_index (level_4 s ! i) = int i" using level_4_cells(2) [OF level] by (simp add: cell_4_def)
  note sorted = sorted_cells [OF qs level_4_cells(1) [OF level] index, folded cs_def]
  obtain sl pl where ranks: "rank_cells cs (palette p) = (sl, pl)" by fastforce
  obtain img1 in4 where marks: "fold (mark_pixel sl (prev_idx s)) [0..<w * h] (photo_img p, replicate (w * h) False) = (img1, in4)"
    by fastforce
  obtain cs2 img2 where second: "fold (second_pixel (pixels s) in4) (file_order w h) (map (cell_2 junk) [0..<64], img1) = (cs2, img2)"
    by fastforce
  have p': "palette p' = fold (second_colour cs2) [0..<64] pl" "photo_img p' = img2"
    unfolding p'_def quantize_def cs_def [symmetric] Let_def by (simp_all only: ranks marks second prod.case) simp_all
  have R: "length pl = 192" "\<forall>i<4096. sl ! nat (color_index (cs ! i)) = of_nat i"
    "\<forall>i<4096. i < 128 \<longrightarrow> color_count (cs ! i) \<noteq> 0 \<longrightarrow> pl ! i = mean (cs ! i)"
    using rank_cells_prefix [of 4096 cs "replicate 4096 0" "palette p"] sorted(1,2,3) pal
    unfolding rank_cells_def [symmetric] ranks by (simp_all del: upt_rec_numeral)
  obtain i where i: "i < 4096" "cs ! i = level_4 s ! ?j" using sorted(4) idx_less(1) by blast
  have rank: "sl ! unat (prev_idx s ! k) = of_nat i"
  proof -
    have "nat (color_index (cs ! i)) = ?j" using index idx_less(1) unfolding i(2) by simp
    then show ?thesis using R(2) i(1) prev k by metis
  qed
  have M: "length img1 = w * h" "in4 ! k = (i < 128)" "i < 128 \<longrightarrow> img1 ! k = ucast (of_nat i + 64 :: u16)"
    using mark_pixels_prefix [of "w * h" "photo_img p" "replicate (w * h) False" sl "prev_idx s"] img k rank rank_less [OF i(1)]
    unfolding marks by simp_all
  have S: "cs2 = fold (\<lambda>k. add_colour (unat (idx2 (pixels s ! k))) (pixels s ! k)) (filter (\<lambda>k. \<not> in4 ! k) (file_order w h))
      (map (cell_2 junk) [0..<64])" "img2 ! k = (if \<not> in4 ! k then ucast (idx2 ?px + 192) else img1 ! k)"
    using second_pixels [of "file_order w h" img1 "pixels s" in4 "map (cell_2 junk) [0..<64]"] M(1) k
    unfolding second by (simp_all del: upt_rec_numeral)
  have C: "\<forall>i<64. palette p' ! (i + 128) = second_rgb (cs2 ! i)" "\<forall>i<128. palette p' ! i = pl ! i"
    using second_colours_prefix [OF R(1), of 64 cs2] unfolding p' by blast+
  have "near 4 (palette p' ! i) ?px \<and> unat (photo_img p' ! k) = i + 64" if "i < 128"
    using near_first [OF level, of k] C(2) R(3) i that k M S(2) img_first [OF that] by (simp add: p')
  moreover have "near 16 (palette p' ! (unat (idx2 ?px) + 128)) ?px \<and> unat (photo_img p' ! k) = unat (idx2 ?px) + 192" if "\<not> i < 128"
  proof -
    have "k \<in> set (filter (\<lambda>k. \<not> in4 ! k) (file_order w h))" using that M(2) k by simp
    then have "near 16 (second_rgb (cs2 ! unat (idx2 ?px))) ?px" unfolding S(1) by (rule near_second)
    moreover have "palette p' ! (unat (idx2 ?px) + 128) = second_rgb (cs2 ! unat (idx2 ?px))"
      using C(1) idx_less(2) by blast
    moreover have "photo_img p' ! k = ucast (idx2 ?px + 192)" using S(2) M(2) that by (simp add: p'(2))
    ultimately show ?thesis by (simp only: img_second simp_thms)
  qed
  ultimately show "\<exists>i<4096. cs ! i = level_4 s ! ?j \<and>
    (if i < 128 then unat (photo_img p' ! k) = i + 64 \<and> near 4 (palette p' ! i) ?px
     else unat (photo_img p' ! k) = unat (idx2 ?px) + 192 \<and> near 16 (palette p' ! (unat (idx2 ?px) + 128)) ?px)"
    using i by (intro exI [of _ i]) simp
qed


text \<open>A photo that was read comes from a complete file.\<close>

lemma read_photo_cases:
  assumes "read_photo malloc qsort pal junk (Some bytes) = Some (Some p)"
  obtains hdr rest s w h where "read_header bytes = Some (hdr, rest)" "w = unat (hdr_width hdr)" "h = unat (hdr_height hdr)"
    "read_pixels (file_order w h) \<lparr>in_file = rest, level_4 = map cell_4 [0..<4096], pixels = replicate (w * h) 0,
      prev_idx = replicate (w * h) 0\<rparr> = Some s"
    "p = quantize qsort junk w h s \<lparr>photo_hdr = hdr, palette = pal, photo_img = replicate (w * h) 0\<rparr>"
  using assms unfolding read_photo_def
  by (auto simp: Let_def split: if_splits option.splits)

lemma quantize_hdr: "photo_hdr (quantize qsort junk w h s p) = photo_hdr p"
  by (simp add: quantize_def Let_def split: prod.split)

lemma read_header_rest: "read_header bytes = Some (hdr, rest) \<Longrightarrow> rest = drop 4 bytes \<and> 4 \<le> length bytes"
  by (cases bytes rule: read_header.cases) auto

lemma frequency_map: "frequency (map f ks) px = length (filter (\<lambda>k. unat (idx4 (f k)) = unat (idx4 px)) ks)"
  by (simp only: frequency_def filter_map length_map comp_def word_unat_eq_iff)

lemma read_photo_pixels:
  assumes qs: "qsort_ok compare qsort" and read: "read_photo malloc qsort pal junk (Some bytes) = Some (Some p)" and pal: "length pal = 192"
  defines "w \<equiv> unat (hdr_width (photo_hdr p))" and "h \<equiv> unat (hdr_height (photo_hdr p))"
  obtains s :: reading where "length (pixels s) = w * h"
    "\<And>x y. x < w \<Longrightarrow> y < h \<Longrightarrow> pixels s ! (w * y + x) = file_pixels (drop 4 bytes) ! (w * (h - 1 - y) + x)"
    "\<And>px. frequency (take (w * h) (file_pixels (drop 4 bytes))) px = frequency (pixels s) px"
    "\<And>i. i < 4096 \<Longrightarrow> color_index (level_4 s ! i) = int i" "length (level_4 s) = 4096"
    "\<And>px. color_count (level_4 s ! unat (idx4 px)) = int (frequency (pixels s) px)"
    "\<And>i. i < 4096 \<Longrightarrow> 0 < color_count (level_4 s ! i) \<Longrightarrow> \<exists>px\<in>set (pixels s). unat (idx4 px) = i"
    "\<forall>k<w * h. \<exists>i<4096. qsort (level_4 s) ! i = level_4 s ! unat (idx4 (pixels s ! k)) \<and>
      (if i < 128 then unat (photo_img p ! k) = i + 64 \<and> near 4 (palette p ! i) (pixels s ! k)
       else unat (photo_img p ! k) = unat (idx2 (pixels s ! k)) + 192 \<and>
         near 16 (palette p ! (unat (idx2 (pixels s ! k)) + 128)) (pixels s ! k))"
proof -
  from read obtain hdr rest s w' h' where
    1: "read_header bytes = Some (hdr, rest)" "w' = unat (hdr_width hdr)" "h' = unat (hdr_height hdr)" and
    s: "read_pixels (file_order w' h') \<lparr>in_file = rest, level_4 = map cell_4 [0..<4096], pixels = replicate (w' * h') 0,
      prev_idx = replicate (w' * h') 0\<rparr> = Some s" and
    p: "p = quantize qsort junk w' h' s \<lparr>photo_hdr = hdr, palette = pal, photo_img = replicate (w' * h') 0\<rparr>"
    by (rule read_photo_cases)
  have wh: "w' = w" "h' = h" using 1 by (simp_all add: w_def h_def p quantize_hdr)
  have rest: "rest = drop 4 bytes" using read_header_rest [OF 1(1)] by simp
  have R: "length (pixels s) = w * h" "\<forall>k<w * h. prev_idx s ! k = idx4 (pixels s ! k)"
    "map (\<lambda>k. pixels s ! k) (file_order w h) = take (w * h) (file_pixels rest)"
    "level_4 s = fold (\<lambda>k. add_colour (unat (idx4 (pixels s ! k))) (pixels s ! k)) (file_order w h) (map cell_4 [0..<4096])"
    using read_pixels_result [OF s] by (simp_all add: wh del: upt_rec_numeral)
  show thesis
  proof (rule that [OF R(1)])
    fix x y assume "x < w" "y < h"
    have "x + w * (h - 1 - y) < w * Suc (h - 1 - y)" using \<open>x < w\<close> by simp
    also have "\<dots> \<le> w * h" using \<open>y < h\<close> by (intro mult_le_mono2) simp
    finally have m: "w * (h - 1 - y) + x < w * h" by (simp add: add.commute)
    then have "pixels s ! (w * y + x) = map (\<lambda>k. pixels s ! k) (file_order w h) ! (w * (h - 1 - y) + x)"
      using file_order_nth \<open>x < w\<close> \<open>y < h\<close> by simp
    also have "\<dots> = file_pixels rest ! (w * (h - 1 - y) + x)" unfolding R(3) using m by simp
    finally show "pixels s ! (w * y + x) = file_pixels (drop 4 bytes) ! (w * (h - 1 - y) + x)" by (simp only: rest)
  next
    show "frequency (take (w * h) (file_pixels (drop 4 bytes))) px = frequency (pixels s) px" for px
      unfolding rest [symmetric] R(3) [symmetric] frequency_map by (rule frequency_positions [OF R(1)])
    show "color_index (level_4 s ! i) = int i" if "i < 4096" for i
      using level_4_cells(2) [OF R(4) that] by (simp add: cell_4_def)
    show "length (level_4 s) = 4096" by (rule level_4_cells(1) [OF R(4)])
    show "color_count (level_4 s ! unat (idx4 px)) = int (frequency (pixels s) px)" for px
      using level_4_cells(2) [OF R(4) idx_less(1) [of px]] frequency_positions [OF R(1)] by simp
    show "\<exists>px\<in>set (pixels s). unat (idx4 px) = i" if "i < 4096" "0 < color_count (level_4 s ! i)" for i
      using that(2) R(1) unfolding level_4_cells(2) [OF R(4) that(1)]
      by (auto simp: filter_empty_conv intro!: bexI [of _ "pixels s ! _"] nth_mem)
  next
    show "\<forall>k<w * h. \<exists>i<4096. qsort (level_4 s) ! i = level_4 s ! unat (idx4 (pixels s ! k)) \<and>
      (if i < 128 then unat (photo_img p ! k) = i + 64 \<and> near 4 (palette p ! i) (pixels s ! k)
       else unat (photo_img p ! k) = unat (idx2 (pixels s ! k)) + 192 \<and>
         near 16 (palette p ! (unat (idx2 (pixels s ! k)) + 128)) (pixels s ! k))"
      unfolding p [unfolded wh] by (rule quantize_pixels [OF qs R(1,2,4)]) (simp_all add: pal)
  qed
qed


text \<open>A file is accepted when its header is within the limits and all pixels are there.\<close>

definition complete_photo :: "u8 list \<Rightarrow> bool" where
  "complete_photo bytes \<longleftrightarrow> (case read_header bytes of None \<Rightarrow> False
     | Some (hdr, rest) \<Rightarrow> hdr_width hdr \<le> MAX_PHOTO_WIDTH \<and> hdr_height hdr \<le> MAX_PHOTO_HEIGHT \<and>
         2 * (unat (hdr_width hdr) * unat (hdr_height hdr)) \<le> length rest)"

lemma read_photo_result:
  "case read_photo (\<lambda>_. True) qsort pal junk (Some bytes) of
     None \<Rightarrow> False | Some None \<Rightarrow> \<not> complete_photo bytes
   | Some (Some p) \<Rightarrow> complete_photo bytes \<and> read_header bytes = Some (photo_hdr p, drop 4 bytes)"
proof (cases "read_header bytes")
  case None
  then show ?thesis by (simp add: read_photo_def complete_photo_def)
next
  case (Some hr)
  obtain hdr rest where hr: "read_header bytes = Some (hdr, rest)" using Some by (cases hr) simp
  have rest: "rest = drop 4 bytes" using read_header_rest [OF hr] by simp
  let ?w = "unat (hdr_width hdr)" and ?h = "unat (hdr_height hdr)"
  let ?s = "\<lparr>in_file = rest, level_4 = map cell_4 [0..<4096], pixels = replicate (?w * ?h) 0, prev_idx = replicate (?w * ?h) 0\<rparr>"
  have sizes: "(read_pixels (file_order ?w ?h) ?s = None) = (length rest < 2 * (?w * ?h))"
    using read_pixels_total [of "file_order ?w ?h" ?s] read_pixels_short [of ?s "file_order ?w ?h"]
    by (cases "length rest < 2 * (?w * ?h)") (simp_all add: not_less del: upt_rec_numeral)
  show ?thesis
  proof (cases "read_pixels (file_order ?w ?h) ?s")
    case None
    then show ?thesis using sizes by (simp add: read_photo_def complete_photo_def hr Let_def not_le del: upt_rec_numeral)
  next
    case (Some s)
    then show ?thesis using sizes
      by (simp add: read_photo_def complete_photo_def hr Let_def quantize_hdr rest not_le not_less del: upt_rec_numeral)
  qed
qed

text \<open>With memory available, \<^verbatim>\<open>read_photo\<close> returns a photo exactly for a complete file within the size
  limits, with the size of the header; for every other file it returns the null pointer.\<close>

theorem read_photo_outcome:
  "case read_photo (\<lambda>_. True) qsort pal junk (Some bytes) of
     None \<Rightarrow> False | Some None \<Rightarrow> \<not> complete_photo bytes
   | Some (Some p) \<Rightarrow> complete_photo bytes \<and> read_header bytes = Some (photo_hdr p, drop 4 bytes)"
  by (rule read_photo_result)

text \<open>The colour number shown at column \<open>x\<close>, row \<open>y\<close> from the top, and the pixel of the file that
  belongs there: the file has the bottom row first.\<close>

definition shown :: "photo_t \<Rightarrow> nat \<Rightarrow> nat \<Rightarrow> nat" where
  "shown p x y = unat (photo_img p ! (unat (hdr_width (photo_hdr p)) * y + x))"

definition file_pixel :: "u8 list \<Rightarrow> photo_t \<Rightarrow> nat \<Rightarrow> nat \<Rightarrow> u16" where
  "file_pixel bytes p x y = file_pixels (drop 4 bytes) !
     (unat (hdr_width (photo_hdr p)) * (unat (hdr_height (photo_hdr p)) - 1 - y) + x)"

definition in_photo :: "photo_t \<Rightarrow> nat \<Rightarrow> nat \<Rightarrow> bool" where
  "in_photo p x y \<longleftrightarrow> x < unat (hdr_width (photo_hdr p)) \<and> y < unat (hdr_height (photo_hdr p))"

definition photo_frequency :: "u8 list \<Rightarrow> photo_t \<Rightarrow> u16 \<Rightarrow> nat" where
  "photo_frequency bytes p px =
     frequency (take (unat (hdr_width (photo_hdr p)) * unat (hdr_height (photo_hdr p))) (file_pixels (drop 4 bytes))) px"

definition photo_cells :: "u8 list \<Rightarrow> photo_t \<Rightarrow> u16 set" where
  "photo_cells bytes p =
     idx4 ` set (take (unat (hdr_width (photo_hdr p)) * unat (hdr_height (photo_hdr p))) (file_pixels (drop 4 bytes)))"

lemma frequency_pos: "0 < frequency pxs px \<longleftrightarrow> idx4 px \<in> idx4 ` set pxs"
  by (auto simp: frequency_def filter_empty_conv image_iff) metis

lemma position_less: "x < w \<Longrightarrow> y < h \<Longrightarrow> w * y + x < w * (h :: nat)"
proof -
  assume "x < w" "y < h"
  then have "w * y + x < w * Suc y" by simp
  also have "\<dots> \<le> w * h" using \<open>y < h\<close> by (intro mult_le_mono2) simp
  finally show ?thesis .
qed

lemma read_photo_ranks:
  assumes "qsort_ok compare qsort" and "read_photo malloc qsort pal junk (Some bytes) = Some (Some p)" and "length pal = 192"
  obtains f :: "nat \<Rightarrow> int" and g :: "nat \<Rightarrow> u16" where "\<And>i j. i < j \<Longrightarrow> j < 4096 \<Longrightarrow> f j \<le> f i"
    "inj_on g {..<4096}" "\<And>i. i < 4096 \<Longrightarrow> 0 < f i \<Longrightarrow> g i \<in> photo_cells bytes p"
    "\<And>x y. in_photo p x y \<Longrightarrow> 0 < photo_frequency bytes p (file_pixel bytes p x y)"
    "\<And>x y. in_photo p x y \<Longrightarrow> \<exists>i<4096. f i = int (photo_frequency bytes p (file_pixel bytes p x y)) \<and>
      (if i < 128 then shown p x y = i + 64 \<and> near 4 (palette p ! i) (file_pixel bytes p x y)
       else 192 \<le> shown p x y \<and> near 16 (palette p ! (shown p x y - 64)) (file_pixel bytes p x y))"
proof (rule read_photo_pixels [OF assms])
  fix s :: reading
  let ?w = "unat (hdr_width (photo_hdr p))" and ?h = "unat (hdr_height (photo_hdr p))"
  assume len: "length (pixels s) = ?w * ?h"
    and at: "\<And>x y. x < ?w \<Longrightarrow> y < ?h \<Longrightarrow> pixels s ! (?w * y + x) = file_pixels (drop 4 bytes) ! (?w * (?h - 1 - y) + x)"
    and freq: "\<And>px. frequency (take (?w * ?h) (file_pixels (drop 4 bytes))) px = frequency (pixels s) px"
    and cells: "\<And>i. i < 4096 \<Longrightarrow> color_index (level_4 s ! i) = int i" "length (level_4 s) = 4096"
    and count: "\<And>px. color_count (level_4 s ! unat (idx4 px)) = int (frequency (pixels s) px)"
    and some: "\<And>i. i < 4096 \<Longrightarrow> 0 < color_count (level_4 s ! i) \<Longrightarrow> \<exists>px\<in>set (pixels s). unat (idx4 px) = i"
    and ranks: "\<forall>k<?w * ?h. \<exists>i<4096. qsort (level_4 s) ! i = level_4 s ! unat (idx4 (pixels s ! k)) \<and>
      (if i < 128 then unat (photo_img p ! k) = i + 64 \<and> near 4 (palette p ! i) (pixels s ! k)
       else unat (photo_img p ! k) = unat (idx2 (pixels s ! k)) + 192 \<and>
         near 16 (palette p ! (unat (idx2 (pixels s ! k)) + 128)) (pixels s ! k))"
  let ?cs = "qsort (level_4 s)"
  have "\<forall>i<4096. color_index (level_4 s ! i) = int i" using cells(1) by blast
  note sorted = sorted_cells [OF assms(1) cells(2) this]
  have cells_eq: "idx4 ` set (pixels s) = photo_cells bytes p"
  proof (rule subset_antisym)
    have "idx4 px \<in> idx4 ` set (pixels s) \<longleftrightarrow> idx4 px \<in> photo_cells bytes p" for px
      using freq [of px] unfolding photo_cells_def frequency_pos [symmetric] by simp
    then show "idx4 ` set (pixels s) \<subseteq> photo_cells bytes p" "photo_cells bytes p \<subseteq> idx4 ` set (pixels s)"
      unfolding photo_cells_def by blast+
  qed
  have index: "0 \<le> color_index (?cs ! i)" "nat (color_index (?cs ! i)) < 4096" if "i < 4096" for i
    using sorted(1,3) that by simp_all
  show thesis
  proof (rule that [of "\<lambda>i. color_count (?cs ! i)" "\<lambda>i. of_nat (nat (color_index (?cs ! i)))"])
    show "inj_on (\<lambda>i. of_nat (nat (color_index (?cs ! i))) :: u16) {..<4096}"
    proof (rule inj_onI)
      fix i j assume ij: "i \<in> {..<4096}" "j \<in> {..<4096}"
        and eq: "(of_nat (nat (color_index (?cs ! i))) :: u16) = of_nat (nat (color_index (?cs ! j)))"
      have "unat (of_nat (nat (color_index (?cs ! k))) :: u16) = nat (color_index (?cs ! k))" if "k < 4096" for k
        using index(2) [OF that] by (simp add: unat_of_nat)
      then have "color_index (?cs ! i) = color_index (?cs ! j)"
        using ij arg_cong [OF eq, of unat] index by (metis eq_nat_nat_iff lessThan_iff)
      then show "i = j"
        using nth_eq_iff_index_eq [OF sorted(2), of i j] sorted(1) ij by simp
    qed
    show "of_nat (nat (color_index (?cs ! i))) \<in> photo_cells bytes p" if i: "i < 4096" and pos: "0 < color_count (?cs ! i)" for i
    proof -
      have "0 < color_count (level_4 s ! nat (color_index (?cs ! i)))" using pos sorted(6) i by simp
      then obtain px where px: "px \<in> set (pixels s)" "unat (idx4 px) = nat (color_index (?cs ! i))"
        using some index(2) [OF i] by blast
      have "of_nat (nat (color_index (?cs ! i))) = idx4 px" unfolding px(2) [symmetric] by simp
      then show ?thesis unfolding cells_eq [symmetric] using px(1) by simp
    qed
    show "0 < photo_frequency bytes p (file_pixel bytes p x y)" if "in_photo p x y" for x y
    proof -
      have xy: "x < ?w" "y < ?h" using that by (simp_all add: in_photo_def)
      have "file_pixel bytes p x y \<in> set (pixels s)"
        unfolding file_pixel_def at [OF xy, symmetric] using position_less [OF xy] len by simp
      then show ?thesis unfolding photo_frequency_def freq frequency_pos by simp
    qed
    show "color_count (qsort (level_4 s) ! j) \<le> color_count (qsort (level_4 s) ! i)" if "i < j" "j < 4096" for i j
      using sorted(5) that by blast
  next
    fix x y assume "in_photo p x y"
    then have xy: "x < ?w" "y < ?h" by (simp_all add: in_photo_def)
    have px: "pixels s ! (?w * y + x) = file_pixel bytes p x y" using at [OF xy] by (simp add: file_pixel_def)
    obtain i where "i < 4096" "qsort (level_4 s) ! i = level_4 s ! unat (idx4 (file_pixel bytes p x y))"
      "if i < 128 then shown p x y = i + 64 \<and> near 4 (palette p ! i) (file_pixel bytes p x y)
       else shown p x y = unat (idx2 (file_pixel bytes p x y)) + 192 \<and>
         near 16 (palette p ! (unat (idx2 (file_pixel bytes p x y)) + 128)) (file_pixel bytes p x y)"
      using ranks [rule_format, OF position_less [OF xy]] unfolding px shown_def [symmetric] by blast
    then show "\<exists>i<4096. color_count (qsort (level_4 s) ! i) = int (photo_frequency bytes p (file_pixel bytes p x y)) \<and>
        (if i < 128 then shown p x y = i + 64 \<and> near 4 (palette p ! i) (file_pixel bytes p x y)
         else 192 \<le> shown p x y \<and> near 16 (palette p ! (shown p x y - 64)) (file_pixel bytes p x y))"
      using count freq by (intro exI [of _ i]) (simp add: photo_frequency_def add.commute)
  qed
qed

text \<open>C23: Every pixel of a photo that \<^verbatim>\<open>read_photo\<close> returns is shown, at its place counted from the top
  although the file runs from the bottom, in one of the 192 colours of the photo's own palette, and that colour
  differs from the colour in the file by less than 4 of 64 steps in every channel when it is one of the 128
  chosen colours, and by less than 16 steps otherwise.\<close>

theorem read_photo_colours:
  assumes "qsort_ok compare qsort" and "read_photo malloc qsort pal junk (Some bytes) = Some (Some p)" and "length pal = 192"
    and "in_photo p x y"
  shows "64 \<le> shown p x y \<and> shown p x y < 256 \<and>
    near (if shown p x y < 192 then 4 else 16) (palette p ! (shown p x y - 64)) (file_pixel bytes p x y)"
proof (rule read_photo_ranks [OF assms(1-3)])
  fix f :: "nat \<Rightarrow> int" and g :: "nat \<Rightarrow> u16"
  assume "\<And>x y. in_photo p x y \<Longrightarrow> \<exists>i<4096. f i = int (photo_frequency bytes p (file_pixel bytes p x y)) \<and>
      (if i < 128 then shown p x y = i + 64 \<and> near 4 (palette p ! i) (file_pixel bytes p x y)
       else 192 \<le> shown p x y \<and> near 16 (palette p ! (shown p x y - 64)) (file_pixel bytes p x y))"
  then obtain i where "if i < 128 then shown p x y = i + 64 \<and> near 4 (palette p ! i) (file_pixel bytes p x y)
       else 192 \<le> shown p x y \<and> near 16 (palette p ! (shown p x y - 64)) (file_pixel bytes p x y)"
    using assms(4) by blast
  moreover have "shown p x y < 256" unfolding shown_def by (rule order_less_le_trans [OF unsigned_less]) simp
  ultimately show ?thesis by (cases "i < 128") simp_all
qed

text \<open>The 128 colours of its own that a photo gets go to the most frequent cells: a pixel whose cell is
  more frequent in the photo than that of a pixel shown with a chosen colour is itself shown with a chosen colour.\<close>

theorem read_photo_most_frequent:
  assumes "qsort_ok compare qsort" and "read_photo malloc qsort pal junk (Some bytes) = Some (Some p)" and "length pal = 192"
    and "in_photo p x y" and "shown p x y < 192" and "in_photo p x' y'"
    and "photo_frequency bytes p (file_pixel bytes p x y) < photo_frequency bytes p (file_pixel bytes p x' y')"
  shows "shown p x' y' < 192"
proof (rule read_photo_ranks [OF assms(1-3)])
  fix f :: "nat \<Rightarrow> int" and g :: "nat \<Rightarrow> u16"
  assume mono: "\<And>i j. i < j \<Longrightarrow> j < 4096 \<Longrightarrow> f j \<le> f i"
    and ranks: "\<And>x y. in_photo p x y \<Longrightarrow> \<exists>i<4096. f i = int (photo_frequency bytes p (file_pixel bytes p x y)) \<and>
      (if i < 128 then shown p x y = i + 64 \<and> near 4 (palette p ! i) (file_pixel bytes p x y)
       else 192 \<le> shown p x y \<and> near 16 (palette p ! (shown p x y - 64)) (file_pixel bytes p x y))"
  obtain i where "i < 128" "f i = int (photo_frequency bytes p (file_pixel bytes p x y))"
    using ranks [OF assms(4)] assms(5) by (auto split: if_splits)
  moreover obtain j where j: "j < 4096" "f j = int (photo_frequency bytes p (file_pixel bytes p x' y'))"
      "j < 128 \<longrightarrow> shown p x' y' = j + 64"
    using ranks [OF assms(6)] by (metis (full_types))
  ultimately have "j < 128" using mono [of i j] assms(7) by (cases "j < 128") simp_all
  then show ?thesis using j(3) by simp
qed

lemma few_cells_chosen:
  assumes "qsort_ok compare qsort" and "read_photo malloc qsort pal junk (Some bytes) = Some (Some p)" and "length pal = 192"
    and "card (photo_cells bytes p) \<le> 128" and "in_photo p x y"
  shows "shown p x y < 192 \<and> near 4 (palette p ! (shown p x y - 64)) (file_pixel bytes p x y)"
proof (rule read_photo_ranks [OF assms(1-3)])
  fix f :: "nat \<Rightarrow> int" and g :: "nat \<Rightarrow> u16"
  assume mono: "\<And>i j. i < j \<Longrightarrow> j < 4096 \<Longrightarrow> f j \<le> f i"
    and g: "inj_on g {..<4096}" "\<And>i. i < 4096 \<Longrightarrow> 0 < f i \<Longrightarrow> g i \<in> photo_cells bytes p"
    and pos: "\<And>x y. in_photo p x y \<Longrightarrow> 0 < photo_frequency bytes p (file_pixel bytes p x y)"
    and ranks: "\<And>x y. in_photo p x y \<Longrightarrow> \<exists>i<4096. f i = int (photo_frequency bytes p (file_pixel bytes p x y)) \<and>
      (if i < 128 then shown p x y = i + 64 \<and> near 4 (palette p ! i) (file_pixel bytes p x y)
       else 192 \<le> shown p x y \<and> near 16 (palette p ! (shown p x y - 64)) (file_pixel bytes p x y))"
  obtain i where i: "i < 4096" "f i = int (photo_frequency bytes p (file_pixel bytes p x y))"
      "i < 128 \<longrightarrow> shown p x y = i + 64 \<and> near 4 (palette p ! i) (file_pixel bytes p x y)"
    using ranks [OF assms(5)] by (metis (full_types))
  have "i < 128"
  proof (rule ccontr)
    assume large: "\<not> i < 128"
    have "0 < f j" if "j \<le> 128" for j using mono [of j i] pos [OF assms(5)] i(1,2) large that by (cases "j = i") auto
    then have "g ` {..128} \<subseteq> photo_cells bytes p" using g(2) by auto
    moreover have "{..128} \<subseteq> {..<4096 :: nat}" by auto
    then have "card (g ` {..128}) = 129" using card_image [OF inj_on_subset [OF g(1), of "{..128}"]] by simp
    moreover have "finite (photo_cells bytes p)" by (simp add: photo_cells_def)
    ultimately show False using card_mono [of "photo_cells bytes p" "g ` {..128}"] assms(4) by simp
  qed
  then show ?thesis using i(3) by simp
qed

text \<open>A photo with at most 128 different colour cells loses almost nothing: every pixel is shown with a
  chosen colour that differs from its own by less than 4 of 64 steps in every channel.\<close>

theorem read_photo_few_cells:
  assumes "qsort_ok compare qsort" and "read_photo malloc qsort pal junk (Some bytes) = Some (Some p)" and "length pal = 192"
    and "card (photo_cells bytes p) \<le> 128" and "in_photo p x y"
  shows "shown p x y < 192 \<and> near 4 (palette p ! (shown p x y - 64)) (file_pixel bytes p x y)"
  by (rule few_cells_chosen [OF assms])

subsection \<open>Object images\<close>

definition complete_image :: "u8 list \<Rightarrow> bool" where
  "complete_image bytes \<longleftrightarrow> (case read_header bytes of None \<Rightarrow> False
     | Some (hdr, rest) \<Rightarrow> hdr_width hdr \<le> MAX_OBJECT_WIDTH \<and> hdr_height hdr \<le> MAX_OBJECT_HEIGHT \<and>
         unat (hdr_width hdr) * unat (hdr_height hdr) \<le> length rest)"

lemma read_bytes_at_result:
  assumes "distinct ks" and "\<forall>k\<in>set ks. k < length img"
  shows "case read_bytes_at ks bytes img of None \<Rightarrow> length bytes < length ks
    | Some img' \<Rightarrow> length ks \<le> length bytes \<and> length img' = length img \<and> map ((!) img') ks = take (length ks) bytes \<and>
        (\<forall>k. k \<notin> set ks \<longrightarrow> img' ! k = img ! k)"
  using assms
proof (induction ks bytes img rule: read_bytes_at.induct)
  case (2 k ks b bytes img)
  then show ?case by (auto split: option.splits)
qed auto

lemma read_obj_image_result:
  assumes "\<And>n. length (junk n) = n"
  shows "case read_obj_image (\<lambda>_. True) junk (Some bytes) of None \<Rightarrow> \<not> complete_image bytes
    | Some im \<Rightarrow> complete_image bytes \<and> read_header bytes = Some (image_hdr im, drop 4 bytes) \<and>
        (\<forall>x y. x < unat (hdr_width (image_hdr im)) \<longrightarrow> y < unat (hdr_height (image_hdr im)) \<longrightarrow>
          image_img im ! (unat (hdr_width (image_hdr im)) * y + x) =
          bytes ! (4 + unat (hdr_width (image_hdr im)) * (unat (hdr_height (image_hdr im)) - 1 - y) + x))"
proof (cases "read_header bytes")
  case None
  then show ?thesis by (simp add: read_obj_image_def complete_image_def)
next
  case (Some hr)
  obtain hdr where hr: "read_header bytes = Some (hdr, drop 4 bytes)" and four: "4 \<le> length bytes"
  proof (cases hr)
    case (Pair hdr rest)
    then show thesis using that [of hdr] read_header_rest [of bytes hdr rest] Some by simp
  qed
  let ?w = "unat (hdr_width hdr)" and ?h = "unat (hdr_height hdr)" and ?rest = "drop 4 bytes"
  have R: "case read_bytes_at (file_order ?w ?h) ?rest (junk (?w * ?h)) of None \<Rightarrow> length ?rest < ?w * ?h
      | Some img \<Rightarrow> ?w * ?h \<le> length ?rest \<and> map ((!) img) (file_order ?w ?h) = take (?w * ?h) ?rest"
    using read_bytes_at_result [of "file_order ?w ?h" "junk (?w * ?h)" ?rest] assms by (auto split: option.splits)
  show ?thesis
  proof (cases "read_bytes_at (file_order ?w ?h) ?rest (junk (?w * ?h))")
    case None
    then show ?thesis using R by (simp add: read_obj_image_def complete_image_def hr Let_def not_le not_less)
  next
    case (Some img)
    have "img ! (?w * y + x) = bytes ! (4 + ?w * (?h - 1 - y) + x)" if xy: "x < ?w" "y < ?h" for x y
    proof -
      have m: "?w * (?h - 1 - y) + x < ?w * ?h" using xy by (intro position_less) simp_all
      have "img ! (?w * y + x) = map ((!) img) (file_order ?w ?h) ! (?w * (?h - 1 - y) + x)"
        using file_order_nth [OF xy(2,1)] m by simp
      also have "\<dots> = ?rest ! (?w * (?h - 1 - y) + x)" using R m by (simp add: Some)
      finally show ?thesis using four by (simp add: add.assoc)
    qed
    then show ?thesis using R by (simp add: read_obj_image_def complete_image_def hr Let_def not_le not_less Some)
  qed
qed

text \<open>\<^verbatim>\<open>read_obj_image\<close> returns an image exactly for a complete file within the limits, and the byte
  of every pixel is the one the file has for it, with the rows turned over.\<close>

theorem read_obj_image_outcome:
  assumes "\<And>n. length (junk n) = n"
  shows "case read_obj_image (\<lambda>_. True) junk (Some bytes) of None \<Rightarrow> \<not> complete_image bytes
    | Some im \<Rightarrow> complete_image bytes \<and> read_header bytes = Some (image_hdr im, drop 4 bytes) \<and>
        (\<forall>x y. x < unat (hdr_width (image_hdr im)) \<longrightarrow> y < unat (hdr_height (image_hdr im)) \<longrightarrow>
          image_img im ! (unat (hdr_width (image_hdr im)) * y + x) =
          bytes ! (4 + unat (hdr_width (image_hdr im)) * (unat (hdr_height (image_hdr im)) - 1 - y) + x))"
  by (rule read_obj_image_result [OF assms])

theorem read_obj_image_outcome_witness:
  "\<exists>im. read_obj_image (\<lambda>_. True) (\<lambda>n. replicate n 0) (Some [2, 0, 2, 0, 5, 6, 7, 8]) = Some im \<and> image_img im ! 0 = 7"
proof -
  have c: "complete_image [2, 0, 2, 0, 5, 6, 7, 8]" "read_header [2, 0, 2, 0, 5, 6, 7, 8] = Some (\<lparr>hdr_width = 2, hdr_height = 2\<rparr>, [5, 6, 7, 8])"
    by (simp_all add: complete_image_def)
  obtain im where im: "read_obj_image (\<lambda>_. True) (\<lambda>n. replicate n 0) (Some [2, 0, 2, 0, 5, 6, 7, 8]) = Some im"
    using read_obj_image_outcome [of "\<lambda>n. replicate n 0" "[2, 0, 2, 0, 5, 6, 7, 8]"] c by (auto split: option.splits)
  have h: "image_hdr im = \<lparr>hdr_width = 2, hdr_height = 2\<rparr>"
    using read_obj_image_outcome [of "\<lambda>n. replicate n 0" "[2, 0, 2, 0, 5, 6, 7, 8]"] by (simp add: im c(2))
  have "image_img im ! (2 * 0 + 0) = 7"
    using read_obj_image_outcome [of "\<lambda>n. replicate n 0" "[2, 0, 2, 0, 5, 6, 7, 8]"]
    by (auto simp: im h dest!: spec [where x = 0])
  then show ?thesis using im by simp
qed

subsection \<open>A photo of three pixels\<close>

text \<open>A red pixel and two blue ones.\<close>

definition tiny :: "u8 list" where
  "tiny = [3, 0, 1, 0, 0, 0xF8, 0x1F, 0, 0x1F, 0]"

abbreviation sort_cells :: "color_t list \<Rightarrow> color_t list" where
  "sort_cells \<equiv> sort_key (\<lambda>c. - color_count c)"

lemma sort_cells_ok: "qsort_ok compare sort_cells"
proof -
  have "sorted_wrt (\<lambda>a b. compare a b \<le> 0) (sort_cells cs)" for cs
    using sorted_sort_key [of "\<lambda>c. - color_count c" cs] by (simp add: sorted_map compare_def)
  then show ?thesis by (simp add: qsort_ok_def)
qed

lemma tiny_header: "read_header tiny = Some (\<lparr>hdr_width = 3, hdr_height = 1\<rparr>, drop 4 tiny)"
  by (simp add: tiny_def)

lemma tiny_pixels: "file_pixels (drop 4 tiny) = [0xF800, 0x1F, 0x1F]"
  by (simp add: tiny_def)

lemma tiny_read:
  obtains p where "read_photo (\<lambda>_. True) sort_cells (replicate 192 (0, 0, 0)) (cell_4 0) (Some tiny) = Some (Some p)"
    "hdr_width (photo_hdr p) = 3" "hdr_height (photo_hdr p) = 1"
proof -
  have "complete_photo tiny" by (simp add: complete_photo_def tiny_header) (simp add: tiny_def)
  then obtain p where p: "read_photo (\<lambda>_. True) sort_cells (replicate 192 (0, 0, 0)) (cell_4 0) (Some tiny) = Some (Some p)"
    and "\<lparr>hdr_width = 3, hdr_height = 1\<rparr> = photo_hdr p"
    using read_photo_result [where qsort = sort_cells and bytes = tiny and pal = "replicate 192 (0, 0, 0)" and junk = "cell_4 0"]
    by (auto simp: tiny_header split: option.splits)
  then show thesis using that by (metis photo_header_t.select_convs(1,2))
qed

theorem read_photo_colours_witness:
  "\<exists>p. read_photo (\<lambda>_. True) sort_cells (replicate 192 (0, 0, 0)) (cell_4 0) (Some tiny) = Some (Some p) \<and>
     64 \<le> shown p 1 0 \<and> shown p 1 0 < 256 \<and> near (if shown p 1 0 < 192 then 4 else 16) (palette p ! (shown p 1 0 - 64)) 0x1F"
proof (rule tiny_read)
  fix p assume p: "read_photo (\<lambda>_. True) sort_cells (replicate 192 (0, 0, 0)) (cell_4 0) (Some tiny) = Some (Some p)"
    and size: "hdr_width (photo_hdr p) = 3" "hdr_height (photo_hdr p) = 1"
  have "in_photo p 1 0" by (simp add: in_photo_def size)
  moreover have "file_pixel tiny p 1 0 = 0x1F" by (simp add: file_pixel_def size tiny_pixels)
  ultimately show ?thesis using p read_photo_colours [OF sort_cells_ok p length_replicate, of 1 0] by metis
qed

lemma tiny_cells:
  assumes "hdr_width (photo_hdr p) = 3" and "hdr_height (photo_hdr p) = 1"
  shows "in_photo p 0 0" and "in_photo p 1 0" and "card (photo_cells tiny p) \<le> 128"
    and "photo_frequency tiny p (file_pixel tiny p 0 0) < photo_frequency tiny p (file_pixel tiny p 1 0)"
  by (simp_all add: in_photo_def photo_cells_def photo_frequency_def frequency_def file_pixel_def assms tiny_pixels idx4_def
      r6_def g6_def b6_def card_insert_if)

theorem read_photo_most_frequent_witness:
  "\<exists>p. read_photo (\<lambda>_. True) sort_cells (replicate 192 (0, 0, 0)) (cell_4 0) (Some tiny) = Some (Some p) \<and> shown p 1 0 < 192"
proof (rule tiny_read)
  fix p assume p: "read_photo (\<lambda>_. True) sort_cells (replicate 192 (0, 0, 0)) (cell_4 0) (Some tiny) = Some (Some p)"
    and size: "hdr_width (photo_hdr p) = 3" "hdr_height (photo_hdr p) = 1"
  note tiny = tiny_cells [OF size]
  have "shown p 0 0 < 192" using few_cells_chosen [OF sort_cells_ok p length_replicate tiny(3,1)] by blast
  then show ?thesis using p read_photo_most_frequent [OF sort_cells_ok p length_replicate tiny(1) _ tiny(2,4)] by blast
qed

theorem read_photo_few_cells_witness:
  "\<exists>p. read_photo (\<lambda>_. True) sort_cells (replicate 192 (0, 0, 0)) (cell_4 0) (Some tiny) = Some (Some p) \<and>
     near 4 (palette p ! (shown p 0 0 - 64)) 0xF800"
proof (rule tiny_read)
  fix p assume p: "read_photo (\<lambda>_. True) sort_cells (replicate 192 (0, 0, 0)) (cell_4 0) (Some tiny) = Some (Some p)"
    and size: "hdr_width (photo_hdr p) = 3" "hdr_height (photo_hdr p) = 1"
  note tiny = tiny_cells [OF size]
  have "file_pixel tiny p 0 0 = 0xF800" by (simp add: file_pixel_def size tiny_pixels)
  then show ?thesis using p read_photo_few_cells [OF sort_cells_ok p length_replicate tiny(3,1)] by metis
qed

end
