(* ===== verification/World.thy ===== *)
theory World
  imports Photo
begin

text \<open>
  The world of the adventure game: \<^verbatim>\<open>mp2/world.c\<close>.  Rooms and objects are two arrays; the objects in
  a room form a linked list through their \<^verbatim>\<open>next\<close> pointers, which is modelled as it is, with pointers
  as array positions and \<open>None\<close> for the null pointer.  Every player command is a function on the
  world that also gives the kind of action and the player's new room.  \<^verbatim>\<open>rand\<close> is a parameter: the
  world carries the sequence of its future values.
\<close>

subsection \<open>Identifiers\<close>

abbreviation (input) R_INVENTORY :: nat where "R_INVENTORY \<equiv> 0"
abbreviation (input) R_IN_391LAB :: nat where "R_IN_391LAB \<equiv> 1"
abbreviation (input) R_BY_391LAB :: nat where "R_BY_391LAB \<equiv> 2"
abbreviation (input) R_IN_IEEE :: nat where "R_IN_IEEE \<equiv> 3"
abbreviation (input) R_BY_IEEE :: nat where "R_BY_IEEE \<equiv> 4"
abbreviation (input) R_IN_395LAB :: nat where "R_IN_395LAB \<equiv> 5"
abbreviation (input) R_BY_395LAB :: nat where "R_BY_395LAB \<equiv> 6"
abbreviation (input) R_EVT_STAIR :: nat where "R_EVT_STAIR \<equiv> 7"
abbreviation (input) R_IN_CLEANR :: nat where "R_IN_CLEANR \<equiv> 8"
abbreviation (input) R_BY_CLEANR :: nat where "R_BY_CLEANR \<equiv> 9"
abbreviation (input) R_EVRT_VEND :: nat where "R_EVRT_VEND \<equiv> 10"
abbreviation (input) R_ALMAMATER :: nat where "R_ALMAMATER \<equiv> 11"
abbreviation (input) R_IN_COCOMR :: nat where "R_IN_COCOMR \<equiv> 12"
abbreviation (input) R_BY_COCOMR :: nat where "R_BY_COCOMR \<equiv> 13"
abbreviation (input) R_BY_ZAS :: nat where "R_BY_ZAS \<equiv> 14"
abbreviation (input) R_EAST_EVRT :: nat where "R_EAST_EVRT \<equiv> 15"
abbreviation (input) R_EVRT_BSMT :: nat where "R_EVRT_BSMT \<equiv> 16"
abbreviation (input) R_WEST_BONE :: nat where "R_WEST_BONE \<equiv> 17"
abbreviation (input) R_CIRCLE_N :: nat where "R_CIRCLE_N \<equiv> 18"
abbreviation (input) R_CIRCLE_SW :: nat where "R_CIRCLE_SW \<equiv> 19"
abbreviation (input) R_EAST_BONE :: nat where "R_EAST_BONE \<equiv> 20"
abbreviation (input) R_BARDEEN :: nat where "R_BARDEEN \<equiv> 21"
abbreviation (input) R_LIB_BACK :: nat where "R_LIB_BACK \<equiv> 22"
abbreviation (input) R_RESERVE :: nat where "R_RESERVE \<equiv> 23"
abbreviation (input) R_TALBOT_NW :: nat where "R_TALBOT_NW \<equiv> 24"
abbreviation (input) R_TALBOT_SW :: nat where "R_TALBOT_SW \<equiv> 25"
abbreviation (input) R_TALBOT :: nat where "R_TALBOT \<equiv> 26"
abbreviation (input) R_SPRINGFLD :: nat where "R_SPRINGFLD \<equiv> 27"
abbreviation (input) R_CARIBOU :: nat where "R_CARIBOU \<equiv> 28"
abbreviation (input) R_KENNEY :: nat where "R_KENNEY \<equiv> 29"
abbreviation (input) R_DCL :: nat where "R_DCL \<equiv> 30"
abbreviation (input) R_LIB_FRONT :: nat where "R_LIB_FRONT \<equiv> 31"
abbreviation (input) R_KENNEY_E :: nat where "R_KENNEY_E \<equiv> 32"
abbreviation (input) R_NEWMARK :: nat where "R_NEWMARK \<equiv> 33"
abbreviation (input) R_MNTL_NW :: nat where "R_MNTL_NW \<equiv> 34"
abbreviation (input) R_MNTL_SW :: nat where "R_MNTL_SW \<equiv> 35"
abbreviation (input) R_MNTLLOBBY :: nat where "R_MNTLLOBBY \<equiv> 36"
abbreviation (input) R_MNTL_LAB1 :: nat where "R_MNTL_LAB1 \<equiv> 37"
abbreviation (input) R_MNTL_LAB2 :: nat where "R_MNTL_LAB2 \<equiv> 38"
abbreviation (input) R_MNTL_LAB3 :: nat where "R_MNTL_LAB3 \<equiv> 39"
abbreviation (input) R_CSL_VIEW :: nat where "R_CSL_VIEW \<equiv> 40"
abbreviation (input) R_CSL_DOOR :: nat where "R_CSL_DOOR \<equiv> 41"
abbreviation (input) R_CSL_LOBBY :: nat where "R_CSL_LOBBY \<equiv> 42"
abbreviation (input) R_CSL_UPPER :: nat where "R_CSL_UPPER \<equiv> 43"
abbreviation (input) R_CSLLOUNGE :: nat where "R_CSLLOUNGE \<equiv> 44"
abbreviation (input) R_BECK_LOT :: nat where "R_BECK_LOT \<equiv> 45"
abbreviation (input) R_BECKMAN :: nat where "R_BECKMAN \<equiv> 46"
abbreviation (input) R_BECK_DOOR :: nat where "R_BECK_DOOR \<equiv> 47"
abbreviation (input) R_BECKLOBBY :: nat where "R_BECKLOBBY \<equiv> 48"
abbreviation (input) R_BECK_MRI :: nat where "R_BECK_MRI \<equiv> 49"
abbreviation (input) R_GARAGE :: nat where "R_GARAGE \<equiv> 50"
abbreviation (input) R_CAR_SITE :: nat where "R_CAR_SITE \<equiv> 51"
abbreviation (input) R_ALLERTON :: nat where "R_ALLERTON \<equiv> 52"
abbreviation (input) R_FU_DOGS :: nat where "R_FU_DOGS \<equiv> 53"
abbreviation (input) R_STATUE :: nat where "R_STATUE \<equiv> 54"
abbreviation (input) R_SUNSINGER :: nat where "R_SUNSINGER \<equiv> 55"
abbreviation (input) R_WILLARD :: nat where "R_WILLARD \<equiv> 56"
abbreviation (input) R_WILL_SIDE :: nat where "R_WILL_SIDE \<equiv> 57"
abbreviation (input) R_REM_PLANE :: nat where "R_REM_PLANE \<equiv> 58"
abbreviation (input) R_COCKPIT :: nat where "R_COCKPIT \<equiv> 59"
abbreviation (input) R_OVER_WILL :: nat where "R_OVER_WILL \<equiv> 60"
abbreviation (input) R_AIR_RIO :: nat where "R_AIR_RIO \<equiv> 61"
abbreviation (input) R_REM_ICE :: nat where "R_REM_ICE \<equiv> 62"
abbreviation (input) R_REM_LAB :: nat where "R_REM_LAB \<equiv> 63"
abbreviation (input) N_ROOMS :: nat where "N_ROOMS \<equiv> 64"

abbreviation (input) O_BOARD :: nat where "O_BOARD \<equiv> 0"
abbreviation (input) O_JETPACK :: nat where "O_JETPACK \<equiv> 1"
abbreviation (input) O_TUX :: nat where "O_TUX \<equiv> 2"
abbreviation (input) O_MP2 :: nat where "O_MP2 \<equiv> 3"
abbreviation (input) O_BOOK_C :: nat where "O_BOOK_C \<equiv> 4"
abbreviation (input) O_BOOK_WODE :: nat where "O_BOOK_WODE \<equiv> 5"
abbreviation (input) O_GPS_BAD :: nat where "O_GPS_BAD \<equiv> 6"
abbreviation (input) O_GPS_GOOD :: nat where "O_GPS_GOOD \<equiv> 7"
abbreviation (input) O_GPS_SPEC :: nat where "O_GPS_SPEC \<equiv> 8"
abbreviation (input) O_BUNNYSUIT :: nat where "O_BUNNYSUIT \<equiv> 9"
abbreviation (input) O_BATT_EMPTY :: nat where "O_BATT_EMPTY \<equiv> 10"
abbreviation (input) O_BATT_FULL :: nat where "O_BATT_FULL \<equiv> 11"
abbreviation (input) O_BATT_CAR :: nat where "O_BATT_CAR \<equiv> 12"
abbreviation (input) O_MTN_DEW :: nat where "O_MTN_DEW \<equiv> 13"
abbreviation (input) O_FISH :: nat where "O_FISH \<equiv> 14"
abbreviation (input) O_ICARD :: nat where "O_ICARD \<equiv> 15"
abbreviation (input) O_CAR_KEY :: nat where "O_CAR_KEY \<equiv> 16"
abbreviation (input) O_ROBOT_DEAD :: nat where "O_ROBOT_DEAD \<equiv> 17"
abbreviation (input) O_ROBOT_LIVE :: nat where "O_ROBOT_LIVE \<equiv> 18"
abbreviation (input) O_MIMO_CARD :: nat where "O_MIMO_CARD \<equiv> 19"
abbreviation (input) N_OBJECTS :: nat where "N_OBJECTS \<equiv> 20"

abbreviation (input) FLAG_HAS_EATEN :: nat where "FLAG_HAS_EATEN \<equiv> 0"
abbreviation (input) FLAG_WEARING_SUIT :: nat where "FLAG_WEARING_SUIT \<equiv> 1"
abbreviation (input) FLAG_CAR_OPEN :: nat where "FLAG_CAR_OPEN \<equiv> 2"
abbreviation (input) FLAG_CAR_FIXED :: nat where "FLAG_CAR_FIXED \<equiv> 3"
abbreviation (input) FLAG_LURED_TUX :: nat where "FLAG_LURED_TUX \<equiv> 4"
abbreviation (input) NUM_FLAGS :: nat where "NUM_FLAGS \<equiv> 5"

abbreviation (input) SWAP_CIRCLE :: nat where "SWAP_CIRCLE \<equiv> 0"
abbreviation (input) SWAP_CAR :: nat where "SWAP_CAR \<equiv> 1"
abbreviation (input) N_SWAPS :: nat where "N_SWAPS \<equiv> 2"

record object_t =
  obj_name :: "string option"
  obj_next :: "nat option"
  obj_loc :: "nat option"
  obj_x :: u16
  obj_y :: u16
  obj_img :: "image_t option"

record room_t =
  room_name :: "string option"
  view :: "photo_t option"
  contents :: "nat option"
  room_left :: "nat option"
  room_enter :: "nat option"
  room_right :: "nat option"

record world =
  room :: "nat \<Rightarrow> room_t"
  object :: "nat \<Rightarrow> object_t"
  player_flags :: "u32 list"
  swap_photo :: "nat \<Rightarrow> photo_t option"
  rands :: "nat \<Rightarrow> nat"
  status_msg :: string

datatype tc_action_t = TC_ALLOW_EDIT | TC_DISCARD_TEXT | TC_REDRAW_ROOM | TC_CHANGE_ROOM

definition room_data :: "(nat \<times> string \<times> string \<times> nat option \<times> nat option \<times> nat option) list" where
  "room_data = [
    (R_INVENTORY, ''Inventory'', ''images/backpack.photo'', None, None, None),
    (R_IN_391LAB, ''391 Lab'', ''images/391lab.photo'', None, Some R_BY_391LAB, None),
    (R_BY_391LAB, ''Outside of 391'', ''images/outside391.photo'', Some R_BY_ZAS, Some R_IN_391LAB, Some R_BY_IEEE),
    (R_IN_IEEE, ''IEEE Office'', ''images/ieee.photo'', None, Some R_BY_IEEE, None),
    (R_BY_IEEE, ''Outside IEEE'', ''images/byieee.photo'', Some R_BY_391LAB, Some R_IN_IEEE, Some R_BY_395LAB),
    (R_IN_395LAB, ''395 Lab'', ''images/395lab.photo'', None, Some R_BY_395LAB, None),
    (R_BY_395LAB, ''Outside of 395'', ''images/outside395.photo'', Some R_BY_IEEE, None, Some R_EVT_STAIR),
    (R_EVT_STAIR, ''Everitt Stairs'', ''images/evtstair.photo'', Some R_BY_395LAB, Some R_EAST_EVRT, Some R_BY_CLEANR),
    (R_IN_CLEANR, ''In Cleanroom'', ''images/cleanr.photo'', None, Some R_BY_CLEANR, None),
    (R_BY_CLEANR, ''By the Cleanroom'', ''images/outclean.photo'', Some R_EVT_STAIR, None, Some R_EVRT_VEND),
    (R_EVRT_VEND, ''Vending Machine'', ''images/vend.photo'', Some R_BY_CLEANR, Some R_EVRT_BSMT, None),
    (R_ALMAMATER, ''Alma Mater'', ''images/almamater.photo'', Some R_EAST_EVRT, Some R_EAST_EVRT, Some R_BY_COCOMR),
    (R_IN_COCOMR, ''Cocomero'', ''images/incoco.photo'', None, Some R_BY_COCOMR, None),
    (R_BY_COCOMR, ''Near Cocomero'', ''images/bycoco.photo'', Some R_ALMAMATER, Some R_IN_COCOMR, Some R_BY_ZAS),
    (R_BY_ZAS, ''The Ruins'', ''images/ruins.photo'', Some R_BY_COCOMR, None, None),
    (R_EAST_EVRT, ''East of Everitt'', ''images/eeast.photo'', Some R_ALMAMATER, Some R_EVT_STAIR, Some R_EVRT_BSMT),
    (R_EVRT_BSMT, ''Basement Entry'', ''images/basement.photo'', Some R_EAST_EVRT, Some R_EVRT_VEND, Some R_CIRCLE_SW),
    (R_WEST_BONE, ''Boneyard Creek'', ''images/bonew.photo'', Some R_CIRCLE_SW, None, Some R_CIRCLE_N),
    (R_CIRCLE_N, ''Boneyard Bridge'', ''images/circlen1.photo'', Some R_WEST_BONE, Some R_TALBOT_NW, Some R_EAST_BONE),
    (R_CIRCLE_SW, ''Boneyard Bridge'', ''images/circlesw.photo'', Some R_EAST_BONE, Some R_EVRT_BSMT, Some R_CIRCLE_N),
    (R_EAST_BONE, ''Boneyard Creek'', ''images/bonee.photo'', Some R_CIRCLE_N, None, Some R_CIRCLE_SW),
    (R_BARDEEN, ''Bardeen Quad'', ''images/bardeen.photo'', Some R_LIB_BACK, Some R_EAST_BONE, Some R_TALBOT_SW),
    (R_LIB_BACK, ''Grainger Library'', ''images/graingerback.photo'', Some R_DCL, Some R_RESERVE, Some R_BARDEEN),
    (R_RESERVE, ''Grainger Reserves'', ''images/reserve.photo'', None, Some R_LIB_BACK, Some R_LIB_FRONT),
    (R_TALBOT_NW, ''Talbot Lab'', ''images/talbotnw.photo'', Some R_CIRCLE_SW, Some R_TALBOT, Some R_TALBOT_SW),
    (R_TALBOT_SW, ''Talbot Lab'', ''images/talbotsw.photo'', Some R_TALBOT_NW, Some R_TALBOT, Some R_SPRINGFLD),
    (R_TALBOT, ''Talbot Lab'', ''images/talbot.photo'', None, Some R_TALBOT_NW, None),
    (R_SPRINGFLD, ''Springfield Avenue'', ''images/springfield.photo'', Some R_TALBOT_SW, Some R_CARIBOU, Some R_KENNEY),
    (R_CARIBOU, ''Caribou'', ''images/caribou.photo'', None, Some R_SPRINGFLD, None),
    (R_KENNEY, ''Kenney Gym'', ''images/kenney.photo'', Some R_SPRINGFLD, None, Some R_DCL),
    (R_DCL, ''DCL'', ''images/dcl.photo'', Some R_KENNEY, Some R_KENNEY_E, Some R_LIB_FRONT),
    (R_LIB_FRONT, ''Grainger Library'', ''images/graingerfront.photo'', Some R_DCL, Some R_RESERVE, Some R_TALBOT_SW),
    (R_KENNEY_E, ''East of Kenney'', ''images/kenneye.photo'', Some R_DCL, Some R_DCL, Some R_NEWMARK),
    (R_NEWMARK, ''Newmark Lab'', ''images/newmark.photo'', Some R_MNTL_NW, None, Some R_KENNEY_E),
    (R_MNTL_NW, ''MNTL'', ''images/mntlnw.photo'', Some R_NEWMARK, Some R_MNTLLOBBY, Some R_CSL_VIEW),
    (R_MNTL_SW, ''MNTL'', ''images/mntlsw.photo'', Some R_MNTL_NW, Some R_MNTLLOBBY, Some R_BECKMAN),
    (R_MNTLLOBBY, ''Lobby of MNTL'', ''images/mntllobby.photo'', Some R_MNTL_LAB1, Some R_MNTL_SW, Some R_MNTL_LAB2),
    (R_MNTL_LAB1, (''Kevin'' @ [CHR 0x27] @ ''s Lab in MNTL''), ''images/mntllab1.photo'', None, None, Some R_MNTLLOBBY),
    (R_MNTL_LAB2, ''MNTL Laser Lab'', ''images/mntllab2.photo'', Some R_MNTLLOBBY, Some R_MNTL_LAB3, None),
    (R_MNTL_LAB3, ''MNTL Laser Lab'', ''images/mntllab3.photo'', None, Some R_MNTL_LAB2, None),
    (R_CSL_VIEW, ''CSL'', ''images/csl.photo'', Some R_BECK_LOT, Some R_CSL_DOOR, Some R_MNTL_NW),
    (R_CSL_DOOR, ''CSL Main Entrance'', ''images/csldoor.photo'', Some R_BECK_LOT, None, Some R_MNTL_NW),
    (R_CSL_LOBBY, ''CSL Lobby'', ''images/csllobby.photo'', Some R_CSL_UPPER, Some R_CSL_DOOR, None),
    (R_CSL_UPPER, ''Upper Floor of CSL'', ''images/cslupper.photo'', None, Some R_CSLLOUNGE, Some R_CSL_LOBBY),
    (R_CSLLOUNGE, ''CSL Lounge'', ''images/csllounge.photo'', None, Some R_CSL_UPPER, None),
    (R_BECK_LOT, ''Beckman Circle Lot'', ''images/becklot.photo'', Some R_BECKMAN, Some R_GARAGE, Some R_CSL_VIEW),
    (R_BECKMAN, ''Beckman Institute'', ''images/beckman.photo'', Some R_MNTL_SW, Some R_BECK_DOOR, Some R_BECK_LOT),
    (R_BECK_DOOR, ''Beckman Institute'', ''images/beckdoor.photo'', Some R_MNTL_SW, None, Some R_BECK_LOT),
    (R_BECKLOBBY, ''Beckman Lobby'', ''images/becklobby.photo'', None, Some R_BECK_MRI, Some R_BECK_DOOR),
    (R_BECK_MRI, ''An MRI Lab'', ''images/beckmri.photo'', None, Some R_BECKLOBBY, None),
    (R_GARAGE, ''Campus Parking'', ''images/garage.photo'', Some R_BECK_LOT, Some R_CAR_SITE, None),
    (R_CAR_SITE, (''Use Someone'' @ [CHR 0x27] @ ''s Car?''), ''images/carclosed.photo'', None, Some R_GARAGE, None),
    (R_ALLERTON, ''Allerton Mansion'', ''images/allerton.photo'', Some R_FU_DOGS, None, Some R_SUNSINGER),
    (R_FU_DOGS, ''Fu Dog Statues'', ''images/fudogs.photo'', None, Some R_STATUE, Some R_ALLERTON),
    (R_STATUE, ''A Tall Statue'', ''images/statue.photo'', None, Some R_FU_DOGS, None),
    (R_SUNSINGER, ''The Sun Singer'', ''images/sunsinger.photo'', Some R_ALLERTON, None, None),
    (R_WILLARD, ''Willard Airport'', ''images/willard.photo'', None, Some R_WILL_SIDE, None),
    (R_WILL_SIDE, ''Willard Tower'', ''images/willardside.photo'', Some R_REM_PLANE, None, Some R_WILLARD),
    (R_REM_PLANE, ''Sensor-Laden Plane'', ''images/rsenseplane.photo'', Some R_COCKPIT, None, Some R_WILL_SIDE),
    (R_COCKPIT, ''Plane Cockpit'', ''images/cockpit.photo'', None, None, Some R_REM_PLANE),
    (R_OVER_WILL, ''Flying over Willard'', ''images/overwillard.photo'', None, Some R_COCKPIT, Some R_AIR_RIO),
    (R_AIR_RIO, ''Rio de Janeiro'', ''images/riofromair.photo'', Some R_OVER_WILL, None, Some R_REM_ICE),
    (R_REM_ICE, ''Ice Fields'', ''images/rsenseice.photo'', Some R_AIR_RIO, Some R_REM_LAB, None),
    (R_REM_LAB, ''Remote Sensing Lab'', ''images/rsenselab.photo'', None, Some R_REM_ICE, None)]"

definition obj_data :: "(nat \<times> string \<times> string \<times> nat option \<times> int \<times> int) list" where
  "obj_data = [
    (O_BOARD, ''board'', ''images/board.obj'', Some R_IN_IEEE, -1, -1),
    (O_JETPACK, ''jetpack'', ''images/jetpack.obj'', Some R_TALBOT, -1, -1),
    (O_TUX, ''tux'', ''images/tux.obj'', Some R_REM_LAB, 250, 100),
    (O_MP2, ''mp2'', ''images/mp2.obj'', Some R_CSLLOUNGE, -1, -1),
    (O_BOOK_C, ''book'', ''images/book.obj'', None, -1, -1),
    (O_BOOK_WODE, ''book'', ''images/book2.obj'', None, -1, -1),
    (O_GPS_BAD, ''gps'', ''images/gpsbad.obj'', Some R_TALBOT, -1, -1),
    (O_GPS_GOOD, ''gps'', ''images/gpsgood.obj'', None, -1, -1),
    (O_GPS_SPEC, ''spec'', ''images/gpsspec.obj'', Some R_CSL_UPPER, -1, -1),
    (O_BUNNYSUIT, ''bunnysuit'', ''images/bunnysuit.obj'', Some R_ALMAMATER, 230, 250),
    (O_BATT_EMPTY, ''battery'', ''images/battery.obj'', None, -1, -1),
    (O_BATT_FULL, ''battery'', ''images/battery.obj'', None, -1, -1),
    (O_BATT_CAR, ''battery'', ''images/batteryincar.obj'', None, -1, -1),
    (O_MTN_DEW, ''dew'', ''images/dew.obj'', None, -1, -1),
    (O_FISH, ''fish'', ''images/fish.obj'', Some R_EAST_BONE, 80, 260),
    (O_ICARD, ''Icard'', ''images/icard.obj'', Some R_BARDEEN, -1, -1),
    (O_CAR_KEY, ''key'', ''images/key.obj'', Some R_CARIBOU, -1, -1),
    (O_ROBOT_DEAD, ''robot'', ''images/robot.obj'', Some R_MNTL_LAB3, -1, -1),
    (O_ROBOT_LIVE, ''robot'', ''images/robot.obj'', None, -1, -1),
    (O_MIMO_CARD, ''mimo'', ''images/mimo.obj'', Some R_STATUE, -1, -1)]"

definition swap_data :: "(nat \<times> string) list" where
  "swap_data = [(SWAP_CIRCLE, ''images/circlen2.photo''), (SWAP_CAR, ''images/caropen.photo'')]"

subsection \<open>Library routines and the status line\<close>

definition tolower :: "char \<Rightarrow> char" where
  "tolower c = (if 65 \<le> (of_char c :: nat) \<and> (of_char c :: nat) \<le> 90 then char_of (of_char c + 32 :: nat) else c)"

text \<open>\<^verbatim>\<open>0 == strcasecmp (a, b)\<close>.\<close>

definition same_word :: "string \<Rightarrow> string \<Rightarrow> bool" where
  "same_word a b \<longleftrightarrow> map tolower a = map tolower b"

text \<open>\<^verbatim>\<open>rand\<close>.\<close>

definition rand :: "world \<Rightarrow> nat \<times> world" where
  "rand w = (rands w 0, w\<lparr>rands := \<lambda>n. rands w (Suc n)\<rparr>)"

text \<open>\<^verbatim>\<open>show_status\<close> keeps 40 characters of a message.\<close>

definition show_status :: "string \<Rightarrow> world \<Rightarrow> world" where
  "show_status s w = w\<lparr>status_msg := take 40 s\<rparr>"

subsection \<open>Small changes\<close>

abbreviation set_room :: "nat \<Rightarrow> room_t \<Rightarrow> world \<Rightarrow> world" where
  "set_room r v w \<equiv> w\<lparr>room := (room w)(r := v)\<rparr>"

abbreviation set_object :: "nat \<Rightarrow> object_t \<Rightarrow> world \<Rightarrow> world" where
  "set_object ob v w \<equiv> w\<lparr>object := (object w)(ob := v)\<rparr>"

definition do_photo_swap :: "nat \<Rightarrow> nat \<Rightarrow> world \<Rightarrow> world" where
  "do_photo_swap r which w =
     (let tmp = view (room w r); w = set_room r ((room w r)\<lparr>view := swap_photo w which\<rparr>) w
      in w\<lparr>swap_photo := (swap_photo w)(which := tmp)\<rparr>)"

definition player_flag_is_set :: "nat \<Rightarrow> world \<Rightarrow> bool" where
  "player_flag_is_set fnum w \<longleftrightarrow> player_flags w ! (fnum div 32) AND push_bit (fnum mod 32) 1 \<noteq> 0"

definition player_set_flag :: "nat \<Rightarrow> world \<Rightarrow> world" where
  "player_set_flag fnum w =
     w\<lparr>player_flags := (player_flags w)[fnum div 32 := player_flags w ! (fnum div 32) OR push_bit (fnum mod 32) 1]\<rparr>"

subsection \<open>The lists of objects\<close>

text \<open>The objects met from a pointer on, at most \<open>n\<close> of them.\<close>

fun follow :: "nat \<Rightarrow> (nat \<Rightarrow> nat option) \<Rightarrow> nat option \<Rightarrow> nat list" where
  "follow 0 nx p = []"
| "follow (Suc n) nx None = []"
| "follow (Suc n) nx (Some ob) = ob # follow n nx (nx ob)"

definition contents_list :: "world \<Rightarrow> nat \<Rightarrow> nat list" where
  "contents_list w r = follow N_OBJECTS (\<lambda>ob. obj_next (object w ob)) (contents (room w r))"

definition find_in_room :: "nat \<Rightarrow> string \<Rightarrow> world \<Rightarrow> nat option" where
  "find_in_room r arg w = find (\<lambda>ob. same_word arg (the (obj_name (object w ob)))) (contents_list w r)"

text \<open>The pointers that \<^verbatim>\<open>remove_object\<close> walks over: the head of a list, then the \<^verbatim>\<open>next\<close> fields.\<close>

datatype link = Contents nat | Next nat

fun get_link :: "link \<Rightarrow> world \<Rightarrow> nat option" where
  "get_link (Contents r) w = contents (room w r)"
| "get_link (Next ob) w = obj_next (object w ob)"

fun set_link :: "link \<Rightarrow> nat option \<Rightarrow> world \<Rightarrow> world" where
  "set_link (Contents r) p w = set_room r ((room w r)\<lparr>contents := p\<rparr>) w"
| "set_link (Next ob) p w = set_object ob ((object w ob)\<lparr>obj_next := p\<rparr>) w"

fun unlink :: "nat \<Rightarrow> nat \<Rightarrow> link \<Rightarrow> world \<Rightarrow> world" where
  "unlink 0 ob l w = w"
| "unlink (Suc n) ob l w =
     (case get_link l w of None \<Rightarrow> w
      | Some p \<Rightarrow> if ob = p then set_link l (obj_next (object w ob)) w else unlink n ob (Next p) w)"

definition remove_object :: "nat \<Rightarrow> world \<Rightarrow> world" where
  "remove_object ob w =
     (case obj_loc (object w ob) of None \<Rightarrow> w
      | Some r \<Rightarrow>
          let w = unlink N_OBJECTS ob (Contents r) w
          in set_object ob ((object w ob)\<lparr>obj_loc := None\<rparr>) w)"

definition insert_object_at :: "nat \<Rightarrow> nat \<Rightarrow> int \<Rightarrow> int \<Rightarrow> world \<Rightarrow> world" where
  "insert_object_at ob r x y w =
     (let w = remove_object ob w;
          w = set_object ob ((object w ob)\<lparr>obj_x := word_of_int x, obj_y := word_of_int y, obj_loc := Some r,
                obj_next := contents (room w r)\<rparr>) w
      in set_room r ((room w r)\<lparr>contents := Some ob\<rparr>) w)"

text \<open>\<^verbatim>\<open>rand () % range\<close> for a positive range, zero for any other.\<close>

definition random_below :: "int \<Rightarrow> world \<Rightarrow> int \<times> world" where
  "random_below rg w = (if rg \<le> 0 then (0, w) else (case rand w of (v, w) \<Rightarrow> (int v mod rg, w)))"

definition insert_object :: "nat \<Rightarrow> nat \<Rightarrow> world \<Rightarrow> world" where
  "insert_object ob r w =
     (let rg = uint (photo_width (the (view (room w r)))) - uint (image_width (the (obj_img (object w ob))));
          (xpos, w) = random_below rg w;
          space = uint (photo_height (the (view (room w r))));
          img_ht = uint (image_height (the (obj_img (object w ob))));
          rg = space div 4 - img_ht;
          (ypos, w) = (if rg \<le> 0 then random_below (space - img_ht) w
                       else (case random_below rg w of (v, w) \<Rightarrow> (v + 3 * space div 4, w)))
      in insert_object_at ob r xpos ypos w)"

text \<open>The places of the inventory, in the order they are tried: four rows of three.\<close>

definition inventory_places :: "(int \<times> int) list" where
  "inventory_places = [(x, y). y \<leftarrow> [10, 60, 110, 160], x \<leftarrow> [10, 110, 210]]"

definition place_taken :: "world \<Rightarrow> int \<times> int \<Rightarrow> bool" where
  "place_taken w pos \<longleftrightarrow> (case pos of (x, y) \<Rightarrow>
     list_ex (\<lambda>conf. x = uint (obj_x (object w conf)) \<and> y = uint (obj_y (object w conf))) (contents_list w R_INVENTORY))"

definition move_object_to_inventory :: "nat \<Rightarrow> world \<Rightarrow> world" where
  "move_object_to_inventory ob w =
     (case find (\<lambda>pos. \<not> place_taken w pos) inventory_places of
        Some (x, y) \<Rightarrow> insert_object_at ob R_INVENTORY x y w
      | None \<Rightarrow> insert_object ob R_INVENTORY w)"

definition obj_special_get :: "nat \<Rightarrow> string \<Rightarrow> world \<Rightarrow> nat option \<times> world" where
  "obj_special_get r arg w =
     (if r = R_RESERVE \<and> same_word ''book'' arg \<and> player_flag_is_set FLAG_HAS_EATEN w \<and> obj_loc (object w O_BOOK_C) = None
      then (Some O_BOOK_C, show_status ''You check out the C book.'' w)
      else if r = R_RESERVE \<and> same_word ''book'' arg \<and> \<not> player_flag_is_set FLAG_HAS_EATEN w \<and>
        obj_loc (object w O_BOOK_WODE) = None
      then (Some O_BOOK_WODE, show_status ''Here's a nice Wodehouse collection.'' w)
      else if r = R_CAR_SITE \<and> obj_loc (object w O_BATT_CAR) = Some r
      then (Some O_BATT_EMPTY, remove_object O_BATT_CAR w)
      else (None, w))"

subsection \<open>The linked lists represent lists\<close>

primrec linked :: "(nat \<Rightarrow> nat option) \<Rightarrow> nat option \<Rightarrow> nat list \<Rightarrow> bool" where
  "linked nx p [] \<longleftrightarrow> p = None"
| "linked nx p (x # xs) \<longleftrightarrow> p = Some x \<and> linked nx (nx x) xs"

lemma follow_linked: "linked nx p xs \<Longrightarrow> follow n nx p = take n xs"
proof (induction xs arbitrary: n p)
  case Nil
  then show ?case by (cases n) simp_all
next
  case (Cons x xs)
  then show ?case by (cases n) simp_all
qed

lemma linked_cong: "(\<And>x. x \<in> set xs \<Longrightarrow> nx x = nx' x) \<Longrightarrow> linked nx p xs \<longleftrightarrow> linked nx' p xs"
  by (induction xs arbitrary: p) auto

abbreviation nexts :: "world \<Rightarrow> nat \<Rightarrow> nat option" where
  "nexts w \<equiv> \<lambda>ob. obj_next (object w ob)"

text \<open>The lists \<open>L\<close> of all rooms: every object is in the list of the room its \<^verbatim>\<open>loc\<close> names, once, and in
  no other.\<close>

definition lists :: "world \<Rightarrow> (nat \<Rightarrow> nat list) \<Rightarrow> bool" where
  "lists w L \<longleftrightarrow> (\<forall>r. linked (nexts w) (contents (room w r)) (L r) \<and> distinct (L r) \<and>
     set (L r) = {ob. obj_loc (object w ob) = Some r}) \<and> (\<forall>ob\<ge>N_OBJECTS. obj_loc (object w ob) = None)"

lemma lists_length: "lists w L \<Longrightarrow> length (L r) \<le> N_OBJECTS"
proof -
  assume L: "lists w L"
  have "set (L r) \<subseteq> {..<N_OBJECTS}" using L by (force simp: lists_def not_less [symmetric])
  then have "card (set (L r)) \<le> N_OBJECTS" using card_mono [of "{..<N_OBJECTS}" "set (L r)"] by simp
  then show ?thesis using L distinct_card [of "L r"] by (simp add: lists_def)
qed

lemma contents_list_lists: "lists w L \<Longrightarrow> contents_list w r = L r"
  using lists_length [of w L r] follow_linked [of "nexts w" "contents (room w r)" "L r" N_OBJECTS]
  by (simp add: contents_list_def lists_def)

lemma lists_member: "lists w L \<Longrightarrow> ob \<in> set (contents_list w r) \<longleftrightarrow> obj_loc (object w ob) = Some r"
  by (simp only: contents_list_lists) (simp add: lists_def)

text \<open>What unlinking leaves alone.\<close>

lemma set_link_fields [simp]:
  "obj_loc (object (set_link l p w) x) = obj_loc (object w x)" "obj_name (object (set_link l p w) x) = obj_name (object w x)"
  "obj_img (object (set_link l p w) x) = obj_img (object w x)" "obj_x (object (set_link l p w) x) = obj_x (object w x)"
  "obj_y (object (set_link l p w) x) = obj_y (object w x)" "view (room (set_link l p w) r) = view (room w r)"
  "room_left (room (set_link l p w) r) = room_left (room w r)" "room_enter (room (set_link l p w) r) = room_enter (room w r)"
  "room_right (room (set_link l p w) r) = room_right (room w r)" "room_name (room (set_link l p w) r) = room_name (room w r)"
  "player_flags (set_link l p w) = player_flags w" "swap_photo (set_link l p w) = swap_photo w"
  "rands (set_link l p w) = rands w" "status_msg (set_link l p w) = status_msg w"
  by (cases l; simp)+

lemma unlink_fields [simp]:
  "obj_loc (object (unlink n ob l w) x) = obj_loc (object w x)" "obj_name (object (unlink n ob l w) x) = obj_name (object w x)"
  "obj_img (object (unlink n ob l w) x) = obj_img (object w x)" "obj_x (object (unlink n ob l w) x) = obj_x (object w x)"
  "obj_y (object (unlink n ob l w) x) = obj_y (object w x)" "view (room (unlink n ob l w) r) = view (room w r)"
  "room_left (room (unlink n ob l w) r) = room_left (room w r)" "room_enter (room (unlink n ob l w) r) = room_enter (room w r)"
  "room_right (room (unlink n ob l w) r) = room_right (room w r)" "room_name (room (unlink n ob l w) r) = room_name (room w r)"
  "player_flags (unlink n ob l w) = player_flags w" "swap_photo (unlink n ob l w) = swap_photo w"
  "rands (unlink n ob l w) = rands w" "status_msg (unlink n ob l w) = status_msg w"
  by (induction n ob l w rule: unlink.induct; simp split: option.split)+

lemma get_set_link [simp]: "get_link m (set_link l p w) = (if m = l then p else get_link m w)"
  by (cases l; cases m) auto

lemma nexts_get_link: "obj_next (object w x) = get_link (Next x) w"
  by simp

lemma unlink_linked:
  assumes "linked (nexts w) (get_link l w) xs" and "distinct xs" and "ob \<in> set xs" and "length xs \<le> n"
    and "\<forall>x\<in>set xs. l \<noteq> Next x"
  shows "linked (nexts (unlink n ob l w)) (get_link l (unlink n ob l w)) (remove1 ob xs) \<and>
    (\<forall>m. m \<noteq> l \<longrightarrow> m \<notin> Next ` set xs \<longrightarrow> get_link m (unlink n ob l w) = get_link m w)"
  using assms
proof (induction xs arbitrary: l n)
  case (Cons x xs)
  obtain k where n: "n = Suc k" using Cons.prems(4) by (cases n) simp_all
  have x: "get_link l w = Some x" and xs: "linked (nexts w) (nexts w x) xs" using Cons.prems(1) by simp_all
  show ?case
  proof (cases "x = ob")
    case True
    have "linked (nexts (set_link l (nexts w ob) w)) p xs \<longleftrightarrow> linked (nexts w) p xs" for p
      using Cons.prems(5) by (intro linked_cong) (auto simp: nexts_get_link simp del: get_link.simps)
    then show ?thesis using True xs by (simp add: n x)
  next
    case False
    then have un: "unlink n ob l w = unlink k ob (Next x) w" by (simp add: n x)
    have IH: "linked (nexts (unlink k ob (Next x) w)) (get_link (Next x) (unlink k ob (Next x) w)) (remove1 ob xs) \<and>
        (\<forall>m. m \<noteq> Next x \<longrightarrow> m \<notin> Next ` set xs \<longrightarrow> get_link m (unlink k ob (Next x) w) = get_link m w)"
      using Cons.prems False xs by (intro Cons.IH) (auto simp: n)
    have "get_link l (unlink k ob (Next x) w) = Some x" using IH Cons.prems(5) x by auto
    then show ?thesis using IH False unfolding un by auto
  qed
qed simp

lemma remove_object_fields [simp]:
  "obj_name (object (remove_object ob w) x) = obj_name (object w x)" "obj_img (object (remove_object ob w) x) = obj_img (object w x)"
  "view (room (remove_object ob w) r) = view (room w r)" "room_left (room (remove_object ob w) r) = room_left (room w r)"
  "room_enter (room (remove_object ob w) r) = room_enter (room w r)" "room_right (room (remove_object ob w) r) = room_right (room w r)"
  "room_name (room (remove_object ob w) r) = room_name (room w r)" "player_flags (remove_object ob w) = player_flags w"
  "obj_loc (object (remove_object ob w) x) = (if x = ob then None else obj_loc (object w x))"
  "obj_x (object (remove_object ob w) x) = obj_x (object w x)" "obj_y (object (remove_object ob w) x) = obj_y (object w x)"
  "rands (remove_object ob w) = rands w" "swap_photo (remove_object ob w) = swap_photo w"
  "status_msg (remove_object ob w) = status_msg w"
  by (auto simp: remove_object_def Let_def split: option.split)

lemma remove1_filter: "distinct xs \<Longrightarrow> remove1 ob xs = filter (\<lambda>x. x \<noteq> ob) xs"
  by (induction xs) (auto intro!: filter_True [symmetric])

text \<open>Removing and inserting an object in terms of the lists.\<close>

lemma lists_remove:
  assumes "lists w L"
  shows "lists (remove_object ob w) (\<lambda>r. filter (\<lambda>x. x \<noteq> ob) (L r))"
proof (cases "obj_loc (object w ob)")
  case None
  then have "ob \<notin> set (L r)" for r using assms by (simp add: lists_def)
  then have "filter (\<lambda>x. x \<noteq> ob) (L r) = L r" for r by (metis (mono_tags, lifting) filter_True)
  then show ?thesis using assms None by (simp add: remove_object_def)
next
  case (Some r)
  let ?u = "unlink N_OBJECTS ob (Contents r) w"
  have L: "linked (nexts w) (contents (room w s)) (L s)" "distinct (L s)" "set (L s) = {ob. obj_loc (object w ob) = Some s}" for s
    using assms by (simp_all add: lists_def)
  have U: "linked (nexts ?u) (contents (room ?u r)) (filter (\<lambda>x. x \<noteq> ob) (L r))"
    "\<And>m. m \<noteq> Contents r \<Longrightarrow> m \<notin> Next ` set (L r) \<Longrightarrow> get_link m ?u = get_link m w"
    using unlink_linked [of w "Contents r" "L r" ob N_OBJECTS] L(1,2) [of r] L(3) Some lists_length [OF assms]
    by (simp_all add: remove1_filter)
  have other: "linked (nexts ?u) (contents (room ?u s)) (filter (\<lambda>x. x \<noteq> ob) (L s))" if "s \<noteq> r" for s
  proof -
    have "ob \<notin> set (L s)" using L(3) Some that by simp
    then have "filter (\<lambda>x. x \<noteq> ob) (L s) = L s" by (metis (mono_tags, lifting) filter_True)
    moreover have "contents (room ?u s) = contents (room w s)" using U(2) [of "Contents s"] that by auto
    moreover have "nexts ?u x = nexts w x" if "x \<in> set (L s)" for x
      using U(2) [of "Next x"] that \<open>s \<noteq> r\<close> L(3) by (auto simp: image_iff)
    ultimately show ?thesis using L(1) linked_cong [of "L s" "nexts ?u" "nexts w"] by simp
  qed
  have rem: "remove_object ob w = set_object ob ((object ?u ob)\<lparr>obj_loc := None\<rparr>) ?u"
    using Some by (simp add: remove_object_def Let_def)
  have nx: "nexts (remove_object ob w) = nexts ?u" and ct: "contents (room (remove_object ob w) s) = contents (room ?u s)" for s
    by (auto simp: rem)
  have "linked (nexts ?u) (contents (room ?u s)) (filter (\<lambda>x. x \<noteq> ob) (L s))" for s
    using U(1) other by (cases "s = r") simp_all
  then show ?thesis unfolding lists_def nx ct using L(2,3) assms by (auto simp: lists_def)
qed

lemma insert_object_at_fields [simp]:
  "obj_name (object (insert_object_at ob r x y w) z) = obj_name (object w z)"
  "obj_img (object (insert_object_at ob r x y w) z) = obj_img (object w z)"
  "view (room (insert_object_at ob r x y w) s) = view (room w s)"
  "room_left (room (insert_object_at ob r x y w) s) = room_left (room w s)"
  "room_enter (room (insert_object_at ob r x y w) s) = room_enter (room w s)"
  "room_right (room (insert_object_at ob r x y w) s) = room_right (room w s)"
  "room_name (room (insert_object_at ob r x y w) s) = room_name (room w s)"
  "player_flags (insert_object_at ob r x y w) = player_flags w"
  "obj_loc (object (insert_object_at ob r x y w) z) = (if z = ob then Some r else obj_loc (object w z))"
  "obj_x (object (insert_object_at ob r x y w) z) = (if z = ob then word_of_int x else obj_x (object w z))"
  "obj_y (object (insert_object_at ob r x y w) z) = (if z = ob then word_of_int y else obj_y (object w z))"
  "swap_photo (insert_object_at ob r x y w) = swap_photo w" "status_msg (insert_object_at ob r x y w) = status_msg w"
  by (simp_all add: insert_object_at_def Let_def)

lemma lists_insert_at:
  assumes "lists w L" and "ob < N_OBJECTS"
  shows "lists (insert_object_at ob r x y w)
    (\<lambda>s. if s = r then ob # filter (\<lambda>x. x \<noteq> ob) (L r) else filter (\<lambda>x. x \<noteq> ob) (L s))"
proof -
  let ?v = "remove_object ob w"
  let ?i = "insert_object_at ob r x y w"
  have R: "linked (nexts ?v) (contents (room ?v s)) (filter (\<lambda>x. x \<noteq> ob) (L s))" for s
    using lists_remove [OF assms(1), of ob] unfolding lists_def by blast
  have nx: "obj_next (object ?i z) = (if z = ob then contents (room ?v r) else obj_next (object ?v z))" for z
    by (simp add: insert_object_at_def Let_def)
  have ct: "contents (room ?i s) = (if s = r then Some ob else contents (room ?v s))" for s
    by (auto simp: insert_object_at_def Let_def)
  have "linked (nexts ?i) p (filter (\<lambda>x. x \<noteq> ob) (L s)) \<longleftrightarrow> linked (nexts ?v) p (filter (\<lambda>x. x \<noteq> ob) (L s))" for p s
    by (rule linked_cong) (simp add: nx)
  then show ?thesis using assms R unfolding lists_def ct by (auto simp: nx lists_def)
qed

subsection \<open>Placing objects\<close>

lemma rand_update [simp]: "lists (w\<lparr>rands := f\<rparr>) L \<longleftrightarrow> lists w L" "lists (w\<lparr>status_msg := m\<rparr>) L \<longleftrightarrow> lists w L"
    "lists (w\<lparr>player_flags := fl\<rparr>) L \<longleftrightarrow> lists w L" "lists (w\<lparr>swap_photo := sp\<rparr>) L \<longleftrightarrow> lists w L"
  by (simp_all add: lists_def)

lemma random_below_form: "\<exists>v f. random_below rg w = (v, w\<lparr>rands := f\<rparr>)"
  by (cases "rg \<le> 0") (auto simp: random_below_def rand_def intro: exI [of _ "rands w"])

lemma insert_object_form: "\<exists>x y f. insert_object ob r w = insert_object_at ob r x y (w\<lparr>rands := f\<rparr>)"
proof -
  obtain x f where 1: "random_below (uint (photo_width (the (view (room w r)))) - uint (image_width (the (obj_img (object w ob))))) w =
      (x, w\<lparr>rands := f\<rparr>)"
    using random_below_form by blast
  have 2: "\<exists>v g. random_below rg (w\<lparr>rands := f\<rparr>) = (v, w\<lparr>rands := g\<rparr>)" for rg
    using random_below_form [of rg "w\<lparr>rands := f\<rparr>"] by simp
  show ?thesis
  proof (cases "uint (photo_height (the (view (room w r)))) div 4 - uint (image_height (the (obj_img (object w ob)))) \<le> 0")
    case True
    obtain y g where "random_below (uint (photo_height (the (view (room w r)))) - uint (image_height (the (obj_img (object w ob)))))
        (w\<lparr>rands := f\<rparr>) = (y, w\<lparr>rands := g\<rparr>)" using 2 by blast
    then show ?thesis using 1 True by (auto simp: insert_object_def Let_def)
  next
    case False
    obtain y g where "random_below (uint (photo_height (the (view (room w r)))) div 4 - uint (image_height (the (obj_img (object w ob)))))
        (w\<lparr>rands := f\<rparr>) = (y, w\<lparr>rands := g\<rparr>)" using 2 by blast
    then show ?thesis using 1 False by (auto simp: insert_object_def Let_def)
  qed
qed

lemma move_object_form: "\<exists>x y f. move_object_to_inventory ob w = insert_object_at ob R_INVENTORY x y (w\<lparr>rands := f\<rparr>)"
proof (cases "find (\<lambda>pos. \<not> place_taken w pos) inventory_places")
  case None
  then show ?thesis using insert_object_form by (simp add: move_object_to_inventory_def)
next
  case (Some pos)
  obtain x y where "pos = (x, y)" by (cases pos)
  then show ?thesis using Some
    by (intro exI [of _ x] exI [of _ y] exI [of _ "rands w"]) (simp add: move_object_to_inventory_def)
qed

text \<open>What an operation changes in the game, as opposed to the pictures.\<close>

definition inserted :: "nat \<Rightarrow> nat \<Rightarrow> world \<Rightarrow> world \<Rightarrow> bool" where
  "inserted ob r w w' \<longleftrightarrow> (\<exists>x y f. w' = insert_object_at ob r x y (w\<lparr>rands := f\<rparr>))"

lemma inserted_insert: "inserted ob r w (insert_object ob r w)"
  using insert_object_form by (simp add: inserted_def)

lemma inserted_at: "inserted ob r w (insert_object_at ob r x y w)"
  unfolding inserted_def by (intro exI [of _ x] exI [of _ y] exI [of _ "rands w"]) simp

lemma inserted_move: "inserted ob R_INVENTORY w (move_object_to_inventory ob w)"
  using move_object_form by (simp add: inserted_def)

lemma inserted_fields:
  assumes "inserted ob r w w'"
  shows "obj_name (object w' z) = obj_name (object w z)" "obj_img (object w' z) = obj_img (object w z)"
    "view (room w' s) = view (room w s)" "room_left (room w' s) = room_left (room w s)"
    "room_enter (room w' s) = room_enter (room w s)" "room_right (room w' s) = room_right (room w s)"
    "room_name (room w' s) = room_name (room w s)" "player_flags w' = player_flags w" "swap_photo w' = swap_photo w"
    "obj_loc (object w' z) = (if z = ob then Some r else obj_loc (object w z))"
  using assms by (auto simp: inserted_def)

lemmas move_fields [simp] = inserted_fields [OF inserted_move]
lemmas insert_fields [simp] = inserted_fields [OF inserted_insert]

lemma lists_inserted:
  assumes "inserted ob r w w'" and "lists w L" and "ob < N_OBJECTS"
  shows "lists w' (\<lambda>s. if s = r then ob # filter (\<lambda>x. x \<noteq> ob) (L r) else filter (\<lambda>x. x \<noteq> ob) (L s))"
proof -
  obtain x y f where w': "w' = insert_object_at ob r x y (w\<lparr>rands := f\<rparr>)" using assms(1) by (auto simp: inserted_def)
  have "lists (w\<lparr>rands := f\<rparr>) L" using assms(2) by simp
  then show ?thesis unfolding w' by (rule lists_insert_at [OF _ assms(3)])
qed

lemma set_room_fields [simp]:
  "lists (set_room r ((room w r)\<lparr>room_enter := e\<rparr>) w) L \<longleftrightarrow> lists w L"
  "lists (set_room r ((room w r)\<lparr>view := v\<rparr>) w) L \<longleftrightarrow> lists w L"
  by (auto simp: lists_def)

lemma swap_fields [simp]:
  "object (do_photo_swap r k w) = object w" "player_flags (do_photo_swap r k w) = player_flags w"
  "room_left (room (do_photo_swap r k w) s) = room_left (room w s)" "room_enter (room (do_photo_swap r k w) s) = room_enter (room w s)"
  "room_right (room (do_photo_swap r k w) s) = room_right (room w s)" "room_name (room (do_photo_swap r k w) s) = room_name (room w s)"
  "lists (do_photo_swap r k w) L \<longleftrightarrow> lists w L"
  by (simp_all add: do_photo_swap_def Let_def)

lemma status_fields [simp]:
  "object (show_status s w) = object w" "room (show_status s w) = room w" "player_flags (show_status s w) = player_flags w"
  "swap_photo (show_status s w) = swap_photo w" "lists (show_status s w) L \<longleftrightarrow> lists w L"
  by (simp_all add: show_status_def)

lemma flag_fields [simp]:
  "object (player_set_flag fnum w) = object w" "room (player_set_flag fnum w) = room w"
  "swap_photo (player_set_flag fnum w) = swap_photo w" "length (player_flags (player_set_flag fnum w)) = length (player_flags w)"
  "lists (player_set_flag fnum w) L \<longleftrightarrow> lists w L"
  by (simp_all add: player_set_flag_def)

text \<open>The accomplishment flags are a set that only grows.\<close>

lemma flag_bit: "player_flag_is_set fnum w \<longleftrightarrow> bit (player_flags w ! (fnum div 32)) (fnum mod 32)"
  by (simp add: player_flag_is_set_def bit_iff_and_push_bit_not_eq_0)

lemma flag_set [simp]:
  assumes "length (player_flags w) = 1" and "a < 32" "b < 32"
  shows "player_flag_is_set a (player_set_flag b w) \<longleftrightarrow> a = b \<or> player_flag_is_set a w"
  using assms by (auto simp: flag_bit player_set_flag_def bit_simps)

lemma flag_cong: "player_flags w' = player_flags w \<Longrightarrow> player_flag_is_set a w' \<longleftrightarrow> player_flag_is_set a w"
  by (simp add: player_flag_is_set_def)

end
