(* ===== verification/Commands.thy ===== *)
theory Commands
  imports World
begin

text \<open>
  The player's commands of the adventure game (\<^verbatim>\<open>mp2/world.c\<close>): the moves between rooms and the typed
  commands.  A command takes the player's room, its argument and the world, and gives the kind of action, the
  player's room afterwards (\<open>None\<close> when the game is won) and the world.
\<close>

type_synonym outcome = "tc_action_t \<times> nat option \<times> world"

text \<open>Objects at hand.\<close>

abbreviation at :: "world \<Rightarrow> nat \<Rightarrow> nat \<Rightarrow> bool" where
  "at w ob r \<equiv> obj_loc (object w ob) = Some r"

abbreviation has :: "world \<Rightarrow> nat \<Rightarrow> bool" where
  "has w ob \<equiv> at w ob R_INVENTORY"

text \<open>A command that only shows a message.\<close>

definition tell :: "tc_action_t \<Rightarrow> nat \<Rightarrow> string \<Rightarrow> world \<Rightarrow> outcome" where
  "tell a r s w = (a, Some r, show_status s w)"

definition start_in_room :: nat where
  "start_in_room = R_EAST_EVRT"

definition player_has_board :: "world \<Rightarrow> bool" where
  "player_has_board w \<longleftrightarrow> has w 0"

definition player_has_jetpack :: "world \<Rightarrow> bool" where
  "player_has_jetpack w \<longleftrightarrow> has w 1"

subsection \<open>Moves\<close>

text \<open>Going into the room \<open>d\<close>; the picture of the Boneyard Circle is chosen at random.\<close>

definition enter_room :: "nat \<Rightarrow> world \<Rightarrow> outcome" where
  "enter_room d w =
     (if d = R_CIRCLE_N
      then (case rand w of (v, w) \<Rightarrow> (TC_CHANGE_ROOM, Some d, if v mod 2 = 0 then do_photo_swap d SWAP_CIRCLE w else w))
      else (TC_CHANGE_ROOM, Some d, w))"

definition try_to_move_left :: "nat \<Rightarrow> world \<Rightarrow> outcome" where
  "try_to_move_left r w =
     (case room_left (room w r) of
        Some d \<Rightarrow> enter_room d w
      | None \<Rightarrow>
          if r = 0 then tell TC_ALLOW_EDIT r ''Push 'home' or type 'inventory'.'' w
          else tell TC_ALLOW_EDIT r ''You can't go that way.'' w)"

definition try_to_move_right :: "nat \<Rightarrow> world \<Rightarrow> outcome" where
  "try_to_move_right r w =
     (case room_right (room w r) of
        Some d \<Rightarrow> enter_room d w
      | None \<Rightarrow>
          if r = 0 then tell TC_ALLOW_EDIT r ''Push 'home' or type 'inventory'.'' w
          else tell TC_ALLOW_EDIT r ''You can't go that way.'' w)"

definition advice :: "string list" where
  "advice = [
     ''Kevin says, \"Andres' board is FAST!\"'',
     ''Kevin asks, \"Got a jetpack?\"'',
     ''Kevin: \"You can flash hardware in 395.\"'',
     ''Kevin suggests, \"Always carry a fish.\"'',
     ''Kevin asks, \"Have you done your MP2?\"'',
     ''Kevin says, \"Cocomero sells yogurt.\"'',
     ''Kevin asks, \"Maybe you need a Dew?\"'',
     ''Kevin: \"A magnet can charge a battery.\"'']"

definition try_to_enter :: "nat \<Rightarrow> world \<Rightarrow> outcome" where
  "try_to_enter r w =
     (case room_enter (room w r) of
        Some d \<Rightarrow> enter_room d w
      | None \<Rightarrow>
          if r = R_BY_CLEANR
          then if player_flag_is_set FLAG_WEARING_SUIT w then (TC_CHANGE_ROOM, Some R_IN_CLEANR, w)
               else tell TC_ALLOW_EDIT r ''You're not wearing a bunnysuit!'' w
          else if r = R_BY_395LAB
          then if has w O_ICARD then tell TC_CHANGE_ROOM R_IN_395LAB ''You swiped your Icard.'' w
               else tell TC_ALLOW_EDIT r ''You need a valid Icard.'' w
          else if r = R_CSL_DOOR
          then if has w O_ICARD then tell TC_CHANGE_ROOM R_CSL_LOBBY ''You swiped your Icard.'' w
               else tell TC_ALLOW_EDIT r ''You need a valid Icard.'' w
          else if r = R_BECK_DOOR
          then if has w O_ROBOT_LIVE then tell TC_CHANGE_ROOM R_BECKLOBBY ''The robot hand picked the lock!'' w
               else if has w O_ROBOT_DEAD then tell TC_ALLOW_EDIT r ''Flash the robot's code again.'' w
               else tell TC_ALLOW_EDIT r ''Complex lock!  Find a nanotech robot.'' w
          else if r = R_MNTL_LAB1
          then (case rand w of (v, w) \<Rightarrow> tell TC_ALLOW_EDIT r (advice ! (v mod 8)) w)
          else if r = R_COCKPIT then tell TC_ALLOW_EDIT r ''A MIMO transmitter card is missing!'' w
          else tell TC_ALLOW_EDIT r ''You can't go that way.'' w)"

subsection \<open>Typed commands\<close>

definition typed_cmd_buy :: "nat \<Rightarrow> string \<Rightarrow> world \<Rightarrow> outcome" where
  "typed_cmd_buy r arg w =
     (if same_word ''dew'' arg
      then if r \<noteq> R_EVRT_VEND then tell TC_DISCARD_TEXT r ''Great idea!  But ... where?'' w
           else if has w O_MTN_DEW \<or> at w O_MTN_DEW r then tell TC_DISCARD_TEXT r ''Slow down!  One at a time...'' w
           else (TC_REDRAW_ROOM, Some r, move_object_to_inventory O_MTN_DEW
             (show_status (if obj_loc (object w O_MTN_DEW) \<noteq> None then ''Last one get stolen?  Ok...here we go...''
                           else ''You buy a Dew.'') w))
      else if same_word ''yogurt'' arg
      then if r \<noteq> R_IN_COCOMR then tell TC_DISCARD_TEXT r ''Cocomero doesn't deliver here.'' w
           else if player_flag_is_set FLAG_HAS_EATEN w then tell TC_DISCARD_TEXT r ''You're not hungry.'' w
           else tell TC_DISCARD_TEXT r ''So tasty and delicious!'' (player_set_flag FLAG_HAS_EATEN w)
      else tell TC_ALLOW_EDIT r ''Sorry, purchasing options are limited.'' w)"

definition typed_cmd_charge :: "nat \<Rightarrow> string \<Rightarrow> world \<Rightarrow> outcome" where
  "typed_cmd_charge r arg w =
     (if \<not> same_word ''battery'' arg then tell TC_ALLOW_EDIT r ''Electronic devices aren't (always) toys!'' w
      else if \<not> has w O_BATT_EMPTY \<and> \<not> at w O_BATT_EMPTY r \<and> \<not> has w O_BATT_FULL \<and> \<not> at w O_BATT_FULL r
      then tell TC_DISCARD_TEXT r ''What battery?'' w
      else if r \<noteq> R_BECK_MRI then tell TC_DISCARD_TEXT r ''Find a bigger magnet.'' w
      else if has w O_BATT_FULL \<or> at w O_BATT_FULL r then tell TC_DISCARD_TEXT r ''Don't overdo it.'' w
      else tell TC_REDRAW_ROOM r ''Wow!  That's a strong magnet!''
        (move_object_to_inventory O_BATT_FULL (remove_object O_BATT_EMPTY w)))"

definition typed_cmd_do :: "nat \<Rightarrow> string \<Rightarrow> world \<Rightarrow> outcome" where
  "typed_cmd_do r arg w =
     (if r \<noteq> R_IN_391LAB then tell TC_ALLOW_EDIT r ''You can't 'do' anything here.'' w
      else if \<not> same_word ''391'' arg \<and> \<not> same_word ''mp2'' arg
      then tell TC_ALLOW_EDIT r ''Doing the 391 MP2 is more important!'' w
      else if \<not> has w O_BOOK_C then tell TC_DISCARD_TEXT r ''You'd better get a book from Grainger.'' w
      else if \<not> has w O_MP2 then tell TC_DISCARD_TEXT r ''Web's down.  Bring your own MP2.'' w
      else if \<not> at w O_TUX R_IN_391LAB then tell TC_DISCARD_TEXT r ''You'd have better luck if Tux were here.'' w
      else (TC_CHANGE_ROOM, None, w))"

definition typed_cmd_drink :: "nat \<Rightarrow> string \<Rightarrow> world \<Rightarrow> outcome" where
  "typed_cmd_drink r arg w =
     (if \<not> same_word ''dew'' arg then tell TC_ALLOW_EDIT r ''That sounds less refreshing than Dew.'' w
      else if \<not> has w O_MTN_DEW \<and> \<not> at w O_MTN_DEW r
      then tell TC_DISCARD_TEXT r ''Uh-oh.  Hadewcinations.  Buy one soon!'' w
      else tell TC_REDRAW_ROOM r ''Ahhhhhhhhhhhhhhhh...........nother?'' (remove_object O_MTN_DEW w))"

text \<open>The room the player stands in: from the inventory, the one recorded in its \<^verbatim>\<open>enter\<close> direction.\<close>

definition standing_in :: "nat \<Rightarrow> world \<Rightarrow> nat" where
  "standing_in r w = (if r = R_INVENTORY then the (room_enter (room w R_INVENTORY)) else r)"

definition typed_cmd_drop :: "nat \<Rightarrow> string \<Rightarrow> world \<Rightarrow> outcome" where
  "typed_cmd_drop r arg w =
     (case find_in_room R_INVENTORY arg w of
        None \<Rightarrow> tell TC_ALLOW_EDIT r ''You have no such thing.'' w
      | Some ob \<Rightarrow>
          let w = (if ob = O_BATT_FULL \<and> r = R_CAR_SITE \<or> ob = O_MIMO_CARD \<and> r = R_REM_PLANE
                   then show_status ''You may want to install it instead.'' w else w)
          in (TC_REDRAW_ROOM, Some r, insert_object ob (standing_in r w) w))"

definition typed_cmd_fix :: "nat \<Rightarrow> string \<Rightarrow> world \<Rightarrow> outcome" where
  "typed_cmd_fix r arg w =
     (if \<not> same_word ''gps'' arg then tell TC_ALLOW_EDIT r ''In the game, you're not as capable.'' w
      else if has w O_GPS_GOOD \<or> at w O_GPS_GOOD r then tell TC_DISCARD_TEXT r ''It's working fine.'' w
      else if \<not> has w O_GPS_BAD \<and> \<not> at w O_GPS_BAD r then tell TC_DISCARD_TEXT r ''Do you have a GPS?'' w
      else if r \<noteq> R_IN_CLEANR then tell TC_DISCARD_TEXT r ''You'd better go to the cleanroom.'' w
      else if \<not> has w O_GPS_SPEC \<and> \<not> at w O_GPS_SPEC r then tell TC_DISCARD_TEXT r ''Maybe you'd better get a spec?'' w
      else tell TC_CHANGE_ROOM r ''All done--wow, you're good!''
        (move_object_to_inventory O_GPS_GOOD (remove_object O_GPS_SPEC (remove_object O_GPS_BAD w))))"

definition typed_cmd_flash :: "nat \<Rightarrow> string \<Rightarrow> world \<Rightarrow> outcome" where
  "typed_cmd_flash r arg w =
     (if \<not> same_word ''robot'' arg then tell TC_ALLOW_EDIT r ''Don't waste your time.'' w
      else if \<not> has w O_ROBOT_DEAD \<and> \<not> at w O_ROBOT_DEAD r \<and> \<not> has w O_ROBOT_LIVE \<and> \<not> at w O_ROBOT_LIVE r
      then tell TC_DISCARD_TEXT r ''Maybe get the robot first?'' w
      else if r \<noteq> R_IN_395LAB then tell TC_DISCARD_TEXT r ''With spit and a lemon?  Try the lab.'' w
      else if has w O_ROBOT_LIVE \<or> at w O_ROBOT_LIVE r then tell TC_DISCARD_TEXT r ''You flash the robot's ROM again.'' w
      else tell TC_REDRAW_ROOM r ''You flash it with a lockpicking code.''
        (move_object_to_inventory O_ROBOT_LIVE (remove_object O_ROBOT_DEAD w)))"

definition typed_cmd_get :: "nat \<Rightarrow> string \<Rightarrow> world \<Rightarrow> outcome" where
  "typed_cmd_get r arg w =
     (let src = standing_in r w;
          (obj, w) = obj_special_get src arg w
      in case (if obj = None then find_in_room src arg w else obj) of
           None \<Rightarrow> tell TC_ALLOW_EDIT r ''You see no such thing here.'' w
         | Some ob \<Rightarrow>
             if ob = O_TUX \<and> \<not> player_flag_is_set FLAG_LURED_TUX w
             then tell TC_DISCARD_TEXT r ''Tux must choose you!  Try using a fish.'' w
             else (TC_REDRAW_ROOM, Some r, move_object_to_inventory ob w))"

definition typed_cmd_go :: "nat \<Rightarrow> string \<Rightarrow> world \<Rightarrow> outcome" where
  "typed_cmd_go r arg w =
     (if same_word ''allerton'' arg
      then if r = R_ALLERTON then tell TC_DISCARD_TEXT r ''Kazam!  You're at Allerton!'' w
           else if r \<noteq> R_WILLARD \<and> r \<noteq> R_CAR_SITE then tell TC_DISCARD_TEXT r ''That's quite a hike.'' w
           else if \<not> player_flag_is_set FLAG_CAR_FIXED w
           then tell TC_DISCARD_TEXT r (if player_flag_is_set FLAG_CAR_OPEN w then ''The car isn't working.''
                                        else ''Do you want to use that car?'') w
           else if \<not> has w O_GPS_GOOD
           then tell TC_DISCARD_TEXT r (if has w O_GPS_BAD then ''That's a long road with a broken GPS.''
                                        else ''You'll need a GPS to find that place.'') w
           else tell TC_CHANGE_ROOM R_ALLERTON ''You drive to Allerton Park.'' w
      else if same_word ''willard'' arg \<or> same_word ''airport'' arg
      then if r = R_WILLARD then tell TC_DISCARD_TEXT r ''Kazap!  You're at Willard!'' w
           else if r \<noteq> R_ALLERTON \<and> r \<noteq> R_CAR_SITE then tell TC_DISCARD_TEXT r ''That's quite a hike.'' w
           else if \<not> player_flag_is_set FLAG_CAR_FIXED w
           then tell TC_DISCARD_TEXT r (if player_flag_is_set FLAG_CAR_OPEN w then ''The car isn't working.''
                                        else ''Do you want to use that car?'') w
           else tell TC_CHANGE_ROOM R_WILLARD ''You drive to Willard Airport.'' w
      else if same_word ''campus'' arg
      then if r = R_CAR_SITE then tell TC_DISCARD_TEXT r ''Kazar!  You're on campus!'' w
           else if r \<noteq> R_ALLERTON \<and> r \<noteq> R_WILLARD then tell TC_DISCARD_TEXT r ''That's quite a hike.'' w
           else tell TC_CHANGE_ROOM R_CAR_SITE ''You drive back to campus.'' w
      else tell TC_ALLOW_EDIT r ''The game map lacks certain places.'' w)"

definition typed_cmd_install :: "nat \<Rightarrow> string \<Rightarrow> world \<Rightarrow> outcome" where
  "typed_cmd_install r arg w =
     (if same_word ''battery'' arg
      then if \<not> has w O_BATT_EMPTY \<and> \<not> at w O_BATT_EMPTY r \<and> \<not> has w O_BATT_FULL \<and> \<not> at w O_BATT_FULL r
           then tell TC_DISCARD_TEXT r ''What battery?'' w
           else if r \<noteq> R_CAR_SITE then tell TC_DISCARD_TEXT r ''Do you see the car?'' w
           else if has w O_BATT_EMPTY \<or> at w O_BATT_EMPTY r
           then tell TC_DISCARD_TEXT r ''You want to install a dead battery?'' w
           else tell TC_CHANGE_ROOM r ''Nice work!  Now you can use it!''
             (do_photo_swap r SWAP_CAR (player_set_flag FLAG_CAR_FIXED (remove_object O_BATT_FULL w)))
      else if same_word ''mimo'' arg \<or> same_word ''card'' arg \<or> same_word ''transmitter'' arg
      then if \<not> has w O_MIMO_CARD \<and> \<not> at w O_MIMO_CARD r then tell TC_DISCARD_TEXT r ''Do you have one of those?'' w
           else if r \<noteq> R_COCKPIT then tell TC_DISCARD_TEXT r ''Nothing here needs that.'' w
           else let w = remove_object O_MIMO_CARD w
                in tell TC_REDRAW_ROOM r ''Ready for takeoff, captain!''
                     (set_room R_COCKPIT ((room w R_COCKPIT)\<lparr>room_enter := Some R_OVER_WILL\<rparr>) w)
      else tell TC_ALLOW_EDIT r ''What are you playing at?'' w)"

definition typed_cmd_inventory :: "nat \<Rightarrow> string \<Rightarrow> world \<Rightarrow> outcome" where
  "typed_cmd_inventory r arg w =
     (if r = R_INVENTORY then (TC_CHANGE_ROOM, room_enter (room w r), w)
      else (TC_CHANGE_ROOM, Some R_INVENTORY, set_room R_INVENTORY ((room w R_INVENTORY)\<lparr>room_enter := Some r\<rparr>) w))"

definition typed_cmd_sigh :: "nat \<Rightarrow> string \<Rightarrow> world \<Rightarrow> outcome" where
  "typed_cmd_sigh r arg w =
     (if r \<noteq> R_BY_ZAS then tell TC_DISCARD_TEXT r ''MP2 got you down?  Take a break!'' w
      else (TC_DISCARD_TEXT, Some r, player_set_flag FLAG_HAS_EATEN (show_status ''So sad... you lose your appetite.'' w)))"

definition typed_cmd_use :: "nat \<Rightarrow> string \<Rightarrow> world \<Rightarrow> outcome" where
  "typed_cmd_use r arg w =
     (if same_word ''car'' arg
      then if r = R_ALLERTON then tell TC_DISCARD_TEXT r ''Go to campus or Willard Airport?'' w
           else if r = R_WILLARD then tell TC_DISCARD_TEXT r ''Go to Allerton or campus?'' w
           else if r \<noteq> R_CAR_SITE then tell TC_DISCARD_TEXT r ''You have a car?'' w
           else if player_flag_is_set FLAG_CAR_FIXED w then tell TC_DISCARD_TEXT r ''Go to Allerton or Willard Airport?'' w
           else if player_flag_is_set FLAG_CAR_OPEN w then tell TC_DISCARD_TEXT r ''You'll have to charge the battery.'' w
           else if \<not> has w O_CAR_KEY then tell TC_DISCARD_TEXT r ''Perhaps you can find a key?'' w
           else tell TC_CHANGE_ROOM r ''The key works, but the battery's dead.''
             (player_set_flag FLAG_CAR_OPEN
               (insert_object_at O_BATT_CAR r 265 122 (remove_object O_CAR_KEY (do_photo_swap r SWAP_CAR w))))
      else if same_word ''fish'' arg
      then if \<not> has w O_FISH \<and> \<not> at w O_FISH r then tell TC_DISCARD_TEXT r ''Using the invisible fish...no effect!'' w
           else if r \<noteq> R_REM_LAB then tell TC_DISCARD_TEXT r ''I don't think that's sanitary.'' w
           else tell TC_REDRAW_ROOM r ''Tux likes you!''
             (player_set_flag FLAG_LURED_TUX (move_object_to_inventory O_TUX (remove_object O_FISH w)))
      else tell TC_ALLOW_EDIT r ''You want to use what!?'' w)"

definition typed_cmd_wear :: "nat \<Rightarrow> string \<Rightarrow> world \<Rightarrow> outcome" where
  "typed_cmd_wear r arg w =
     (if \<not> same_word ''bunnysuit'' arg then tell TC_ALLOW_EDIT r ''Big Brother forbids fashion statements.'' w
      else if \<not> has w O_BUNNYSUIT \<and> \<not> at w O_BUNNYSUIT r then tell TC_DISCARD_TEXT r ''Do you have a bunnysuit?'' w
      else tell TC_REDRAW_ROOM r ''You look good in pink!''
        (player_set_flag FLAG_WEARING_SUIT (remove_object O_BUNNYSUIT w)))"


subsection \<open>The player's actions\<close>

datatype cmd_id_t = TC_BUY | TC_CHARGE | TC_DO | TC_DRINK | TC_DROP | TC_FIX | TC_FLASH | TC_GET | TC_GO | TC_INSTALL
  | TC_INVENTORY | TC_SIGH | TC_USE | TC_WEAR

fun typed_command :: "cmd_id_t \<Rightarrow> nat \<Rightarrow> string \<Rightarrow> world \<Rightarrow> outcome" where
  "typed_command TC_BUY = typed_cmd_buy"
| "typed_command TC_CHARGE = typed_cmd_charge"
| "typed_command TC_DO = typed_cmd_do"
| "typed_command TC_DRINK = typed_cmd_drink"
| "typed_command TC_DROP = typed_cmd_drop"
| "typed_command TC_FIX = typed_cmd_fix"
| "typed_command TC_FLASH = typed_cmd_flash"
| "typed_command TC_GET = typed_cmd_get"
| "typed_command TC_GO = typed_cmd_go"
| "typed_command TC_INSTALL = typed_cmd_install"
| "typed_command TC_INVENTORY = typed_cmd_inventory"
| "typed_command TC_SIGH = typed_cmd_sigh"
| "typed_command TC_USE = typed_cmd_use"
| "typed_command TC_WEAR = typed_cmd_wear"

datatype action = Move_Left | Enter | Move_Right | Typed cmd_id_t string

fun perform :: "action \<Rightarrow> nat \<Rightarrow> world \<Rightarrow> outcome" where
  "perform Move_Left r w = try_to_move_left r w"
| "perform Enter r w = try_to_enter r w"
| "perform Move_Right r w = try_to_move_right r w"
| "perform (Typed c arg) r w = typed_command c r arg w"

subsection \<open>Pictures and chance do not matter\<close>

text \<open>Two worlds that differ only in pictures, positions of objects and future random numbers.\<close>

definition same_game :: "world \<Rightarrow> world \<Rightarrow> bool" where
  "same_game w w' \<longleftrightarrow> (\<exists>L. lists w L \<and> lists w' L) \<and> (\<forall>ob. obj_name (object w ob) = obj_name (object w' ob)) \<and>
     (\<forall>r. room_left (room w r) = room_left (room w' r) \<and> room_enter (room w r) = room_enter (room w' r) \<and>
        room_right (room w r) = room_right (room w' r)) \<and> player_flags w = player_flags w'"

definition same_outcome :: "outcome \<Rightarrow> outcome \<Rightarrow> bool" where
  "same_outcome x y \<longleftrightarrow> fst x = fst y \<and> fst (snd x) = fst (snd y) \<and> same_game (snd (snd x)) (snd (snd y))"

lemma same_outcome_pair [simp]: "same_outcome (a, d, v) (a', d', v') \<longleftrightarrow> a = a' \<and> d = d' \<and> same_game v v'"
  by (simp add: same_outcome_def)

named_theorems same_rules \<open>operations on worlds that are the same game\<close>

lemma same_loc: "same_game w w' \<Longrightarrow> obj_loc (object w ob) = obj_loc (object w' ob)"
proof -
  assume "same_game w w'"
  then obtain L where "\<And>r. {ob. obj_loc (object w ob) = Some r} = {ob. obj_loc (object w' ob) = Some r}"
    by (auto simp: same_game_def lists_def)
  then have "obj_loc (object w ob) = Some r \<longleftrightarrow> obj_loc (object w' ob) = Some r" for r by blast
  then show ?thesis by (metis option.exhaust)
qed

lemma same_facts:
  assumes "same_game w w'"
  shows "obj_loc (object w ob) = obj_loc (object w' ob)" "obj_name (object w ob) = obj_name (object w' ob)"
    "room_left (room w r) = room_left (room w' r)" "room_enter (room w r) = room_enter (room w' r)"
    "room_right (room w r) = room_right (room w' r)" "player_flags w = player_flags w'"
    "player_flag_is_set a w = player_flag_is_set a w'" "contents_list w r = contents_list w' r"
  using assms same_loc [OF assms] by (auto simp: same_game_def contents_list_lists player_flag_is_set_def)

lemma same_find: "same_game w w' \<Longrightarrow> find_in_room r arg w = find_in_room r arg w'"
  by (simp add: find_in_room_def same_facts [of w w'])

lemma found_object:
  assumes "lists w L" and "find_in_room r arg w = Some ob"
  shows "ob < N_OBJECTS" and "obj_loc (object w ob) = Some r"
proof -
  have "ob \<in> set (contents_list w r)" using assms(2) by (auto simp: find_in_room_def find_Some_iff)
  then show "obj_loc (object w ob) = Some r" using lists_member [OF assms(1)] by simp
  then show "ob < N_OBJECTS" using assms(1) by (auto simp: lists_def not_less [symmetric])
qed

lemma same_status [same_rules]: "same_game w w' \<Longrightarrow> same_game (show_status s w) (show_status s' w')"
  by (simp add: same_game_def)

lemma same_status_left [same_rules]: "same_game w w' \<Longrightarrow> same_game (show_status s w) w'"
  by (simp add: same_game_def)

lemma same_swap [same_rules]: "same_game w w' \<Longrightarrow> same_game (do_photo_swap r k w) (do_photo_swap r k w')"
  by (simp add: same_game_def)

lemma same_flag [same_rules]: "same_game w w' \<Longrightarrow> same_game (player_set_flag f w) (player_set_flag f w')"
  by (simp add: same_game_def) (simp add: player_set_flag_def)

lemma same_remove [same_rules]: "same_game w w' \<Longrightarrow> same_game (remove_object ob w) (remove_object ob w')"
  unfolding same_game_def by (auto dest: lists_remove)

lemma same_inserted:
  assumes "inserted ob r w v" and "inserted ob r w' v'" and "ob < N_OBJECTS" and "same_game w w'"
  shows "same_game v v'"
proof -
  obtain L where "lists w L" "lists w' L" using assms(4) by (auto simp: same_game_def)
  then have "\<exists>L. lists v L \<and> lists v' L" using lists_inserted [OF assms(1) _ assms(3)] lists_inserted [OF assms(2) _ assms(3)] by blast
  then show ?thesis using assms(4) unfolding same_game_def
    by (simp add: inserted_fields [OF assms(1)] inserted_fields [OF assms(2)])
qed

lemma same_move [same_rules]:
  "ob < N_OBJECTS \<Longrightarrow> same_game w w' \<Longrightarrow> same_game (move_object_to_inventory ob w) (move_object_to_inventory ob w')"
  by (rule same_inserted [OF inserted_move inserted_move])

lemma same_insert [same_rules]:
  "ob < N_OBJECTS \<Longrightarrow> same_game w w' \<Longrightarrow> same_game (insert_object ob r w) (insert_object ob r w')"
  by (rule same_inserted [OF inserted_insert inserted_insert])

lemma same_insert_at [same_rules]:
  "ob < N_OBJECTS \<Longrightarrow> same_game w w' \<Longrightarrow> same_game (insert_object_at ob r x y w) (insert_object_at ob r x' y' w')"
  by (rule same_inserted [OF inserted_at inserted_at])

lemma same_enter [same_rules]:
  "same_game w w' \<Longrightarrow> same_game (set_room r ((room w r)\<lparr>room_enter := e\<rparr>) w) (set_room r ((room w' r)\<lparr>room_enter := e\<rparr>) w')"
  by (auto simp: same_game_def)

lemma same_enter_room:
  assumes "same_game w w'"
  shows "same_outcome (enter_room d w) (enter_room d w')"
proof -
  have "same_game (w\<lparr>rands := f\<rparr>) (w'\<lparr>rands := g\<rparr>)" for f g using assms by (simp add: same_game_def)
  moreover have "same_game (do_photo_swap d k v) v'" "same_game v (do_photo_swap d k v')" if "same_game v v'" for k v v'
    using that by (simp_all add: same_game_def)
  ultimately show ?thesis using assms by (auto simp: enter_room_def rand_def same_rules)
qed

lemma same_tell [same_rules]: "same_game w w' \<Longrightarrow> same_outcome (tell a r s w) (tell a r s' w')"
  by (simp add: tell_def same_rules)

lemma same_moves:
  assumes "same_game w w'"
  shows "same_outcome (try_to_move_left r w) (try_to_move_left r w')"
    and "same_outcome (try_to_move_right r w) (try_to_move_right r w')"
    and "same_outcome (try_to_enter r w) (try_to_enter r w')"
proof -
  note f = same_facts [OF assms]
  show "same_outcome (try_to_move_left r w) (try_to_move_left r w')" "same_outcome (try_to_move_right r w) (try_to_move_right r w')"
    using assms same_enter_room [OF assms] by (auto simp: try_to_move_left_def try_to_move_right_def f same_rules split: option.split)
  have "same_game (w\<lparr>rands := g\<rparr>) (w'\<lparr>rands := h\<rparr>)" for g h using assms by (simp add: same_game_def)
  then show "same_outcome (try_to_enter r w) (try_to_enter r w')"
    using assms same_enter_room [OF assms] by (simp add: try_to_enter_def f rand_def same_rules split: option.split)
qed

lemma same_special_get:
  assumes "same_game w w'"
  shows "fst (obj_special_get r arg w) = fst (obj_special_get r arg w')"
    and "same_game (snd (obj_special_get r arg w)) (snd (obj_special_get r arg w'))"
  using assms by (simp_all add: obj_special_get_def same_facts [OF assms] same_rules)

lemma special_get_less: "fst (obj_special_get r arg w) = Some ob \<Longrightarrow> ob < N_OBJECTS"
  by (auto simp: obj_special_get_def split: if_splits)

lemma same_get:
  assumes "same_game w w'"
  shows "same_outcome (typed_cmd_get r arg w) (typed_cmd_get r arg w')"
proof -
  have src: "standing_in r w = standing_in r w'" by (simp add: standing_in_def same_facts [OF assms])
  obtain obj v obj' v' where 1: "obj_special_get (standing_in r w') arg w = (obj, v)" "obj_special_get (standing_in r w') arg w' = (obj', v')"
    by fastforce
  have 2: "obj' = obj" "same_game v v'" using same_special_get [OF assms, of "standing_in r w'" arg] by (simp_all add: 1)
  obtain L where L: "lists v' L" using 2(2) by (auto simp: same_game_def)
  have "ob < N_OBJECTS" if "(if obj = None then find_in_room (standing_in r w') arg v' else obj) = Some ob" for ob
    using that found_object [OF L] special_get_less [of "standing_in r w'" arg w ob] 1(1) by (auto split: if_splits)
  then show ?thesis
    using 2 by (simp add: typed_cmd_get_def Let_def src 1 same_find [OF 2(2)] same_facts [OF 2(2)] same_rules split: option.split)
qed

lemma same_drop:
  assumes "same_game w w'"
  shows "same_outcome (typed_cmd_drop r arg w) (typed_cmd_drop r arg w')"
proof -
  have src: "standing_in r (show_status s w) = standing_in r w'" "standing_in r w = standing_in r w'" "standing_in r (show_status s w') = standing_in r w'" for s
    by (simp_all add: standing_in_def same_facts [OF assms])
  obtain L where L: "lists w' L" using assms by (auto simp: same_game_def)
  have "ob < N_OBJECTS" if "find_in_room R_INVENTORY arg w' = Some ob" for ob using found_object [OF L that] by simp
  then show ?thesis using assms
    by (simp add: typed_cmd_drop_def Let_def src same_find [OF assms] same_rules split: option.split)
qed

lemma same_typed:
  assumes "same_game w w'"
  shows "same_outcome (typed_command c r arg w) (typed_command c r arg w')"
proof -
  note f = same_facts [OF assms]
  show ?thesis using assms same_get same_drop
    by (cases c) (simp_all add: f typed_cmd_buy_def typed_cmd_charge_def typed_cmd_do_def typed_cmd_drink_def typed_cmd_fix_def
      typed_cmd_flash_def typed_cmd_go_def typed_cmd_install_def typed_cmd_inventory_def typed_cmd_sigh_def typed_cmd_use_def
      typed_cmd_wear_def Let_def same_rules)
qed

lemma same_perform:
  assumes "same_game w w'"
  shows "same_outcome (perform act r w) (perform act r w')"
  by (cases act) (simp_all add: same_moves same_typed assms)

end
