(* ===== verification/Game.thy ===== *)
theory Game
  imports Commands
begin

text \<open>
  The game: how \<^verbatim>\<open>build_world\<close> makes the world from its tables and files, and what holds in every state
  the player can reach.  Pictures, positions and random numbers play no part in it (\<open>same_game\<close>), so the
  reachable states are those of the plain world made from the tables alone.
\<close>

subsection \<open>Building the world\<close>

text \<open>What the loading of files depends on: memory, the library's \<^verbatim>\<open>qsort\<close>, the contents of fresh
  memory, and the files.\<close>

record platform =
  pf_malloc :: "nat \<Rightarrow> bool"
  pf_qsort :: "color_t list \<Rightarrow> color_t list"
  pf_palette :: "(u8 \<times> u8 \<times> u8) list"
  pf_cell :: color_t
  pf_bytes :: "nat \<Rightarrow> u8 list"
  pf_file :: "string \<Rightarrow> u8 list option"

datatype build_error = Bad_Index | Duplicate_Index nat | Cannot_Read string
datatype built = Built world | Failed build_error | Crashed

definition load_photo :: "platform \<Rightarrow> string \<Rightarrow> photo_t option option" where
  "load_photo P f = read_photo (pf_malloc P) (pf_qsort P) (pf_palette P) (pf_cell P) (pf_file P f)"

definition zero_room :: room_t where
  "zero_room = \<lparr>room_name = None, view = None, contents = None, room_left = None, room_enter = None, room_right = None\<rparr>"

definition zero_object :: object_t where
  "zero_object = \<lparr>obj_name = None, obj_next = None, obj_loc = None, obj_x = 0, obj_y = 0, obj_img = None\<rparr>"

definition load_room :: "platform \<Rightarrow> nat \<times> string \<times> string \<times> nat option \<times> nat option \<times> nat option \<Rightarrow> world \<Rightarrow> built" where
  "load_room P row w =
     (case row of (which, name, f, l, e, r) \<Rightarrow>
        if N_ROOMS \<le> which then Failed Bad_Index
        else if room_name (room w which) \<noteq> None then Failed (Duplicate_Index which)
        else (case load_photo P f of
            None \<Rightarrow> Crashed
          | Some None \<Rightarrow> Failed (Cannot_Read f)
          | Some (Some p) \<Rightarrow> Built (set_room which \<lparr>room_name = Some name, view = Some p, contents = None,
              room_left = l, room_enter = e, room_right = r\<rparr> w)))"

definition load_object :: "platform \<Rightarrow> nat \<times> string \<times> string \<times> nat option \<times> int \<times> int \<Rightarrow> world \<Rightarrow> built" where
  "load_object P row w =
     (case row of (which, name, f, rm, x, y) \<Rightarrow>
        if N_OBJECTS \<le> which then Failed Bad_Index
        else if obj_name (object w which) \<noteq> None then Failed (Duplicate_Index which)
        else (case read_obj_image (pf_malloc P) (pf_bytes P) (pf_file P f) of
            None \<Rightarrow> Failed (Cannot_Read f)
          | Some im \<Rightarrow>
              let w = set_object which (zero_object\<lparr>obj_name := Some name, obj_img := Some im\<rparr>) w
              in Built (case rm of None \<Rightarrow> w
                 | Some r \<Rightarrow> if x \<noteq> -1 then insert_object_at which r x y w else insert_object which r w)))"

definition load_swap :: "platform \<Rightarrow> nat \<times> string \<Rightarrow> world \<Rightarrow> built" where
  "load_swap P row w =
     (case row of (which, f) \<Rightarrow>
        if N_SWAPS \<le> which then Failed Bad_Index
        else if swap_photo w which \<noteq> None then Failed (Duplicate_Index which)
        else (case load_photo P f of
            None \<Rightarrow> Crashed
          | Some None \<Rightarrow> Failed (Cannot_Read f)
          | Some (Some p) \<Rightarrow> Built (w\<lparr>swap_photo := (swap_photo w)(which := Some p)\<rparr>)))"

fun load_rows :: "('a \<Rightarrow> world \<Rightarrow> built) \<Rightarrow> 'a list \<Rightarrow> world \<Rightarrow> built" where
  "load_rows f [] w = Built w"
| "load_rows f (x # xs) w = (case f x w of Built w \<Rightarrow> load_rows f xs w | e \<Rightarrow> e)"

definition build_world :: "platform \<Rightarrow> world \<Rightarrow> built" where
  "build_world P w =
     (case load_rows (load_room P) room_data (w\<lparr>player_flags := [0], room := \<lambda>_. zero_room\<rparr>) of
        Built w \<Rightarrow>
          (case load_rows (load_object P) obj_data (w\<lparr>object := \<lambda>_. zero_object\<rparr>) of
             Built w \<Rightarrow> load_rows (load_swap P) swap_data (w\<lparr>swap_photo := \<lambda>_. None\<rparr>)
           | e \<Rightarrow> e)
      | e \<Rightarrow> e)"

subsection \<open>The plain world\<close>

text \<open>The world of the tables, with empty pictures.\<close>

definition no_pixels :: photo_header_t where
  "no_pixels = \<lparr>hdr_width = 0, hdr_height = 0\<rparr>"

definition plain_room :: "nat \<times> string \<times> string \<times> nat option \<times> nat option \<times> nat option \<Rightarrow> world \<Rightarrow> world" where
  "plain_room row w = (case row of (which, name, f, l, e, r) \<Rightarrow> set_room which
     \<lparr>room_name = Some name, view = Some \<lparr>photo_hdr = no_pixels, palette = [], photo_img = []\<rparr>, contents = None,
       room_left = l, room_enter = e, room_right = r\<rparr> w)"

definition plain_object :: "nat \<times> string \<times> string \<times> nat option \<times> int \<times> int \<Rightarrow> world \<Rightarrow> world" where
  "plain_object row w =
     (case row of (which, name, f, rm, x, y) \<Rightarrow>
        let w = set_object which (zero_object\<lparr>obj_name := Some name, obj_img := Some \<lparr>image_hdr = no_pixels, image_img = []\<rparr>\<rparr>) w
        in case rm of None \<Rightarrow> w | Some r \<Rightarrow> insert_object_at which r x y w)"

definition plain_world :: world where
  "plain_world = fold plain_object obj_data (fold plain_room room_data
     \<lparr>room = \<lambda>_. zero_room, object = \<lambda>_. zero_object, player_flags = [0], swap_photo = \<lambda>_. None, rands = \<lambda>_. 0, status_msg = []\<rparr>)"

definition same_rooms :: "world \<Rightarrow> world \<Rightarrow> bool" where
  "same_rooms w w' \<longleftrightarrow> (\<forall>r. room_left (room w r) = room_left (room w' r) \<and> room_enter (room w r) = room_enter (room w' r) \<and>
     room_right (room w r) = room_right (room w' r) \<and> contents (room w r) = None \<and> contents (room w' r) = None)"

lemma load_rooms_same:
  assumes "load_rows (load_room P) rows w = Built v" and "same_rooms w w'"
  shows "same_rooms v (fold plain_room rows w') \<and> object v = object w \<and> player_flags v = player_flags w \<and>
    object (fold plain_room rows w') = object w' \<and> player_flags (fold plain_room rows w') = player_flags w'"
  using assms
proof (induction rows arbitrary: w w')
  case (Cons row rows)
  obtain w1 where 1: "load_room P row w = Built w1" "load_rows (load_room P) rows w1 = Built v"
    using Cons.prems(1) by (auto split: built.splits)
  have "same_rooms w1 (plain_room row w')" "object w1 = object w" "player_flags w1 = player_flags w"
    using 1(1) Cons.prems(2) by (auto simp: load_room_def plain_room_def same_rooms_def split: prod.splits if_splits option.splits)
  moreover have "object (plain_room row w') = object w'" "player_flags (plain_room row w') = player_flags w'"
    by (simp_all add: plain_room_def split: prod.split)
  ultimately show ?case using Cons.IH [OF 1(2), of "plain_room row w'"] by simp
qed simp

text \<open>An object without a name is nowhere.\<close>

definition nameless_nowhere :: "world \<Rightarrow> bool" where
  "nameless_nowhere w \<longleftrightarrow> (\<forall>ob. obj_name (object w ob) = None \<longrightarrow> obj_loc (object w ob) = None)"

lemma same_new_object:
  assumes "same_game w w'" and "obj_loc (object w ob) = None" and "obj_name v = obj_name v'" "obj_loc v = None" "obj_loc v' = None"
  shows "same_game (set_object ob v w) (set_object ob v' w')"
proof -
  obtain L where L: "lists w L" "lists w' L" using assms(1) by (auto simp: same_game_def)
  have "lists (set_object ob u x) L" if "lists x L" "obj_loc (object x ob) = None" "obj_loc u = None" for u x
  proof -
    have "linked (nexts (set_object ob u x)) p (L r) \<longleftrightarrow> linked (nexts x) p (L r)" for p r
      using that by (intro linked_cong) (auto simp: lists_def)
    then show ?thesis using that by (auto simp: lists_def)
  qed
  then show ?thesis using L assms same_loc [OF assms(1), of ob] by (auto simp: same_game_def)
qed

lemma load_objects_same:
  assumes "load_rows (load_object P) rows w = Built v" and "same_game w w'" and "nameless_nowhere w"
  shows "same_game v (fold plain_object rows w')"
  using assms
proof (induction rows arbitrary: w w')
  case (Cons row rows)
  obtain w1 where 1: "load_object P row w = Built w1" "load_rows (load_object P) rows w1 = Built v"
    using Cons.prems(1) by (auto split: built.splits)
  obtain which name f rm x y where row: "row = (which, name, f, rm, x, y)" by (cases row)
  from 1(1) obtain im where ok: "which < N_OBJECTS" "obj_name (object w which) = None" and
    w1: "w1 = (let w = set_object which (zero_object\<lparr>obj_name := Some name, obj_img := Some im\<rparr>) w
              in (case rm of None \<Rightarrow> w | Some r \<Rightarrow> if x \<noteq> -1 then insert_object_at which r x y w else insert_object which r w))"
    by (auto simp: load_object_def row Let_def not_le split: if_splits option.splits)
  have "obj_loc (object w which) = None" using Cons.prems(3) ok(2) by (simp add: nameless_nowhere_def)
  then have "same_game (set_object which (zero_object\<lparr>obj_name := Some name, obj_img := Some im\<rparr>) w)
      (set_object which (zero_object\<lparr>obj_name := Some name, obj_img := Some \<lparr>image_hdr = no_pixels, image_img = []\<rparr>\<rparr>) w')"
    using Cons.prems(2) by (intro same_new_object) (simp_all add: zero_object_def)
  then have "same_game w1 (plain_object row w')"
    using ok(1) same_inserted [OF inserted_at inserted_at] same_inserted [OF inserted_insert inserted_at]
    by (auto simp: w1 plain_object_def row Let_def split: option.split)
  moreover have "nameless_nowhere w1"
    using Cons.prems(3) by (auto simp: w1 nameless_nowhere_def Let_def zero_object_def split: option.split)
  ultimately show ?case using Cons.IH [OF 1(2)] by simp
qed simp

lemma load_swaps_same:
  "load_rows (load_swap P) rows w = Built v \<Longrightarrow> same_game w w' \<Longrightarrow> same_game v w'"
proof (induction rows arbitrary: w)
  case (Cons row rows)
  obtain w1 where 1: "load_swap P row w = Built w1" "load_rows (load_swap P) rows w1 = Built v"
    using Cons.prems(1) by (auto split: built.splits)
  have "same_game w1 w'" using 1(1) Cons.prems(2)
    by (auto simp: load_swap_def same_game_def split: prod.splits if_splits option.splits)
  then show ?case using Cons.IH 1(2) by blast
qed simp

lemma build_world_same:
  assumes "build_world P w = Built v"
  shows "same_game v plain_world"
proof -
  let ?w0 = "w\<lparr>player_flags := [0], room := \<lambda>_. zero_room\<rparr>"
  let ?p0 = "\<lparr>room = \<lambda>_. zero_room, object = \<lambda>_. zero_object, player_flags = [0], swap_photo = \<lambda>_. None, rands = \<lambda>_. 0, status_msg = []\<rparr>"
  obtain w1 w2 where 1: "load_rows (load_room P) room_data ?w0 = Built w1"
      "load_rows (load_object P) obj_data (w1\<lparr>object := \<lambda>_. zero_object\<rparr>) = Built w2"
      "load_rows (load_swap P) swap_data (w2\<lparr>swap_photo := \<lambda>_. None\<rparr>) = Built v"
    using assms by (auto simp: build_world_def split: built.splits)
  have "same_rooms ?w0 ?p0" by (simp add: same_rooms_def zero_room_def)
  note R = load_rooms_same [OF 1(1) this]
  have none: "lists (x\<lparr>object := \<lambda>_. zero_object\<rparr>) (\<lambda>_. [])" if "\<forall>r. contents (room x r) = None" for x :: world
    using that by (simp add: lists_def zero_object_def)
  have "lists (w1\<lparr>object := \<lambda>_. zero_object\<rparr>) (\<lambda>_. [])" by (rule none) (use R in \<open>simp add: same_rooms_def\<close>)
  moreover have "lists (fold plain_room room_data ?p0) (\<lambda>_. [])"
    using none [of "fold plain_room room_data ?p0"] R by (simp add: same_rooms_def lists_def zero_object_def)
  ultimately have "same_game (w1\<lparr>object := \<lambda>_. zero_object\<rparr>) (fold plain_room room_data ?p0)"
    using R unfolding same_game_def same_rooms_def by auto
  then have "same_game w2 plain_world"
    unfolding plain_world_def by (rule load_objects_same [OF 1(2)]) (simp add: nameless_nowhere_def zero_object_def)
  then have "same_game (w2\<lparr>swap_photo := \<lambda>_. None\<rparr>) plain_world" by (simp add: same_game_def)
  then show ?thesis by (rule load_swaps_same [OF 1(3)])
qed


subsection \<open>Reachable states of the game\<close>

text \<open>The player's room and the world after any number of actions, from a world that was built.\<close>

inductive reachable :: "world \<Rightarrow> nat \<Rightarrow> world \<Rightarrow> bool" for w0 where
  start: "reachable w0 start_in_room w0"
| act: "reachable w0 r w \<Longrightarrow> perform a r w = (t, Some r', w') \<Longrightarrow> reachable w0 r' w'"

text \<open>The parts of the map that the player gets to with a working car only, and those that take the bunny
  suit as well.\<close>

definition need_car :: "nat \<Rightarrow> bool" where
  "need_car r \<longleftrightarrow> r \<in> {R_ALLERTON, R_FU_DOGS, R_STATUE, R_SUNSINGER, R_WILLARD, R_WILL_SIDE, R_REM_PLANE, R_COCKPIT,
     R_OVER_WILL, R_AIR_RIO, R_REM_ICE, R_REM_LAB}"

definition need_suit :: "nat \<Rightarrow> bool" where
  "need_suit r \<longleftrightarrow> r \<in> {R_IN_CLEANR, R_ALLERTON, R_FU_DOGS, R_STATUE, R_SUNSINGER, R_OVER_WILL, R_AIR_RIO, R_REM_ICE, R_REM_LAB}"

abbreviation wearing_suit where "wearing_suit \<equiv> player_flag_is_set FLAG_WEARING_SUIT"
abbreviation car_open where "car_open \<equiv> player_flag_is_set FLAG_CAR_OPEN"
abbreviation car_fixed where "car_fixed \<equiv> player_flag_is_set FLAG_CAR_FIXED"
abbreviation lured_tux where "lured_tux \<equiv> player_flag_is_set FLAG_LURED_TUX"
abbreviation has_eaten where "has_eaten \<equiv> player_flag_is_set FLAG_HAS_EATEN"

text \<open>The doors of the map: no door leads to the inventory, out of the map, or into a part of the map
  that needs more than the room it is in.\<close>

definition door :: "world \<Rightarrow> nat \<Rightarrow> nat \<Rightarrow> bool" where
  "door w r d \<longleftrightarrow> room_left (room w r) = Some d \<or> room_right (room w r) = Some d \<or> room_enter (room w r) = Some d"

definition doors_ok :: "world \<Rightarrow> bool" where
  "doors_ok w \<longleftrightarrow> room_left (room w R_INVENTORY) = None \<and> room_right (room w R_INVENTORY) = None \<and> (\<forall>r d. door w r d \<longrightarrow> 0 < d \<and> d < N_ROOMS \<and>
     (r = R_INVENTORY \<or> (need_car d \<longrightarrow> need_car r) \<and> (need_suit d \<longrightarrow> need_suit r \<or> r = R_COCKPIT)))"

definition open_doors_ok :: "world \<Rightarrow> bool" where
  "open_doors_ok w \<longleftrightarrow> (\<forall>d. door w R_COCKPIT d \<longrightarrow> need_suit d \<longrightarrow> wearing_suit w)"

definition tasks_ok :: "world \<Rightarrow> bool" where
  "tasks_ok w \<longleftrightarrow> length (player_flags w) = 1 \<and> (car_fixed w \<longrightarrow> car_open w) \<and>
     (obj_loc (object w O_BATT_CAR) \<noteq> None \<or> obj_loc (object w O_BATT_EMPTY) \<noteq> None \<or> obj_loc (object w O_BATT_FULL) \<noteq> None
       \<longrightarrow> car_open w) \<and>
     (obj_loc (object w O_GPS_GOOD) \<noteq> None \<longrightarrow> wearing_suit w) \<and>
     (\<not> at w O_MIMO_CARD R_STATUE \<longrightarrow> wearing_suit w) \<and>
     (lured_tux w \<longrightarrow> car_fixed w \<and> wearing_suit w) \<and> (\<not> lured_tux w \<longrightarrow> at w O_TUX R_REM_LAB) \<and>
     (obj_loc (object w O_BOOK_C) \<noteq> None \<longrightarrow> has_eaten w)"

definition world_ok :: "world \<Rightarrow> bool" where
  "world_ok w \<longleftrightarrow> (\<exists>L. lists w L) \<and> (\<forall>ob r. at w ob r \<longrightarrow> r < N_ROOMS) \<and> doors_ok w \<and> open_doors_ok w \<and> tasks_ok w"

definition place_ok :: "nat \<Rightarrow> world \<Rightarrow> bool" where
  "place_ok r w \<longleftrightarrow> r < N_ROOMS \<and> (r = R_INVENTORY \<longrightarrow> room_enter (room w R_INVENTORY) \<noteq> None) \<and>
     (need_car (standing_in r w) \<longrightarrow> car_fixed w) \<and> (need_suit (standing_in r w) \<longrightarrow> wearing_suit w)"

subsection \<open>The operations keep the world in order\<close>

lemma door_cong:
  "(\<And>r. room_left (room w' r) = room_left (room w r)) \<Longrightarrow> (\<And>r. room_right (room w' r) = room_right (room w r)) \<Longrightarrow>
   (\<And>r. room_enter (room w' r) = room_enter (room w r)) \<Longrightarrow> door w' = door w"
  by (intro ext) (simp add: door_def)

lemma doors_simps [simp]:
  "door (show_status s w) = door w" "door (do_photo_swap r k w) = door w" "door (player_set_flag f w) = door w"
  "door (remove_object ob w) = door w" "door (move_object_to_inventory ob w) = door w" "door (insert_object ob r w) = door w"
  "door (insert_object_at ob r x y w) = door w" "door (w\<lparr>rands := g\<rparr>) = door w"
  by (rule door_cong; simp)+

lemma flags_simps [simp]:
  "player_flag_is_set a (show_status s w) = player_flag_is_set a w" "player_flag_is_set a (do_photo_swap r k w) = player_flag_is_set a w"
  "player_flag_is_set a (remove_object ob w) = player_flag_is_set a w"
  "player_flag_is_set a (move_object_to_inventory ob w) = player_flag_is_set a w"
  "player_flag_is_set a (insert_object ob r w) = player_flag_is_set a w"
  "player_flag_is_set a (insert_object_at ob r x y w) = player_flag_is_set a w"
  "player_flag_is_set a (w\<lparr>rands := g\<rparr>) = player_flag_is_set a w"
  "player_flag_is_set a (set_room r v w) = player_flag_is_set a w"
  by (rule flag_cong; simp)+

lemma world_ok_other [simp]:
  "world_ok (show_status s w) \<longleftrightarrow> world_ok w" "world_ok (do_photo_swap r k w) \<longleftrightarrow> world_ok w" "world_ok (w\<lparr>rands := g\<rparr>) \<longleftrightarrow> world_ok w"
  by (simp_all add: world_ok_def doors_ok_def open_doors_ok_def tasks_ok_def)

lemma world_ok_flag:
  assumes "world_ok w" and "f < 32" and "f = FLAG_CAR_FIXED \<Longrightarrow> car_open w"
    and "f = FLAG_LURED_TUX \<Longrightarrow> car_fixed w \<and> wearing_suit w"
  shows "world_ok (player_set_flag f w)"
  using assms by (auto simp: world_ok_def doors_ok_def open_doors_ok_def tasks_ok_def)

lemma world_ok_remove:
  assumes "world_ok w" and "ob = O_MIMO_CARD \<Longrightarrow> wearing_suit w" and "ob = O_TUX \<Longrightarrow> lured_tux w"
  shows "world_ok (remove_object ob w)"
proof -
  have "\<exists>L. lists (remove_object ob w) L" using assms(1) lists_remove unfolding world_ok_def by blast
  moreover have "\<forall>x r. at (remove_object ob w) x r \<longrightarrow> r < N_ROOMS" using assms(1) by (simp add: world_ok_def)
  moreover have "doors_ok (remove_object ob w)" "open_doors_ok (remove_object ob w)"
    using assms(1) by (simp_all add: world_ok_def doors_ok_def open_doors_ok_def)
  moreover have "tasks_ok w" using assms(1) by (simp add: world_ok_def)
  then have "tasks_ok (remove_object ob w)" using assms(2,3) unfolding tasks_ok_def by (intro conjI) (auto split: if_splits)
  ultimately show ?thesis by (simp add: world_ok_def)
qed

lemma world_ok_inserted:
  assumes ins: "inserted ob r w w'" and "world_ok w" and "ob < N_OBJECTS" and "r < N_ROOMS"
    and "ob \<in> {O_BATT_CAR, O_BATT_EMPTY, O_BATT_FULL} \<Longrightarrow> car_open w" and "ob = O_GPS_GOOD \<Longrightarrow> wearing_suit w"
    and "ob = O_MIMO_CARD \<Longrightarrow> wearing_suit w" and "ob = O_TUX \<Longrightarrow> lured_tux w" and "ob = O_BOOK_C \<Longrightarrow> has_eaten w"
  shows "world_ok w'"
proof -
  have d: "door w' = door w" by (rule door_cong) (simp_all add: inserted_fields [OF ins])
  have f: "player_flag_is_set a w' = player_flag_is_set a w" for a by (rule flag_cong) (simp add: inserted_fields [OF ins])
  have "\<exists>L. lists w' L" using assms(2) lists_inserted [OF ins _ assms(3)] unfolding world_ok_def by blast
  moreover have "\<forall>x r. at w' x r \<longrightarrow> r < N_ROOMS" using assms(2,4) by (simp add: world_ok_def inserted_fields [OF ins])
  moreover have "doors_ok w'" "open_doors_ok w'" using assms(2)
    by (simp_all add: world_ok_def doors_ok_def open_doors_ok_def d f inserted_fields [OF ins])
  moreover have "tasks_ok w" using assms(2) by (simp add: world_ok_def)
  then have "tasks_ok w'" using assms(5-) unfolding tasks_ok_def f inserted_fields [OF ins]
    by (intro conjI) (auto split: if_splits)
  ultimately show ?thesis by (simp add: world_ok_def)
qed

text \<open>An object that is somewhere may be moved anywhere.\<close>

lemma world_ok_moved:
  assumes "inserted ob r w w'" and ok: "world_ok w" and loc: "at w ob s" and "r < N_ROOMS"
    and "ob = O_MIMO_CARD \<Longrightarrow> s = R_STATUE \<Longrightarrow> wearing_suit w" and "ob = O_TUX \<Longrightarrow> lured_tux w"
  shows "world_ok w'"
proof (rule world_ok_inserted [OF assms(1) ok _ assms(4)])
  show "ob < N_OBJECTS" using ok loc by (auto simp: world_ok_def lists_def not_less [symmetric])
qed (use assms(3,5,6) ok in \<open>auto simp: world_ok_def tasks_ok_def\<close>)


subsection \<open>The commands keep the game in order\<close>

definition outcome_ok :: "outcome \<Rightarrow> bool" where
  "outcome_ok x \<longleftrightarrow> (case x of (t, d, w) \<Rightarrow> world_ok w \<and> (case d of None \<Rightarrow> True | Some r \<Rightarrow> place_ok r w))"

lemma outcome_ok_pair [simp]: "outcome_ok (t, Some r, w) \<longleftrightarrow> world_ok w \<and> place_ok r w" "outcome_ok (t, None, w) \<longleftrightarrow> world_ok w"
  by (simp_all add: outcome_ok_def)

lemma standing_simps [simp]:
  "standing_in r (show_status s w) = standing_in r w" "standing_in r (do_photo_swap r' k w) = standing_in r w"
  "standing_in r (remove_object ob w) = standing_in r w" "standing_in r (move_object_to_inventory ob w) = standing_in r w"
  "standing_in r (insert_object ob r' w) = standing_in r w" "standing_in r (insert_object_at ob r' x y w) = standing_in r w"
  "standing_in r (player_set_flag f w) = standing_in r w" "standing_in r (w\<lparr>rands := g\<rparr>) = standing_in r w"
  by (simp_all add: standing_in_def)

lemma place_ok_simps [simp]:
  "place_ok r (show_status s w) \<longleftrightarrow> place_ok r w" "place_ok r (do_photo_swap r' k w) \<longleftrightarrow> place_ok r w"
  "place_ok r (remove_object ob w) \<longleftrightarrow> place_ok r w" "place_ok r (move_object_to_inventory ob w) \<longleftrightarrow> place_ok r w"
  "place_ok r (insert_object ob r' w) \<longleftrightarrow> place_ok r w" "place_ok r (insert_object_at ob r' x y w) \<longleftrightarrow> place_ok r w"
  "place_ok r (w\<lparr>rands := g\<rparr>) \<longleftrightarrow> place_ok r w"
  by (simp_all add: place_ok_def)

lemma world_ok_length: "world_ok w \<Longrightarrow> length (player_flags w) = 1"
  by (simp add: world_ok_def tasks_ok_def)

lemma place_ok_flag: "world_ok w \<Longrightarrow> f < 32 \<Longrightarrow> place_ok r w \<Longrightarrow> place_ok r (player_set_flag f w)"
  using world_ok_length [of w] by (auto simp: place_ok_def)

lemma tell_ok [simp]: "outcome_ok (tell a r s w) \<longleftrightarrow> world_ok w \<and> place_ok r w"
  by (simp add: tell_def)

lemma place_ok_free: "0 < r \<Longrightarrow> r < N_ROOMS \<Longrightarrow> \<not> need_car r \<Longrightarrow> \<not> need_suit r \<Longrightarrow> place_ok r w"
  by (simp add: place_ok_def standing_in_def)

lemma place_ok_door:
  assumes "world_ok w" and "place_ok r w" and "door w r d"
  shows "place_ok d w"
proof -
  have d: "0 < d" "d < N_ROOMS" using assms(1,3) by (auto simp: world_ok_def doors_ok_def)
  have "(need_car d \<longrightarrow> car_fixed w) \<and> (need_suit d \<longrightarrow> wearing_suit w)"
  proof (cases "r = R_INVENTORY")
    case True
    then have "standing_in r w = d" using assms(1,3) by (auto simp: world_ok_def doors_ok_def door_def standing_in_def)
    then show ?thesis using assms(2) by (simp add: place_ok_def)
  next
    case False
    then have "need_car r \<longrightarrow> car_fixed w" "need_suit r \<longrightarrow> wearing_suit w"
      using assms(2) by (simp_all add: place_ok_def standing_in_def)
    moreover have "need_car d \<longrightarrow> need_car r" "need_suit d \<longrightarrow> need_suit r \<or> r = R_COCKPIT"
      using assms(1,3) False unfolding world_ok_def doors_ok_def by blast+
    moreover have "r = R_COCKPIT \<longrightarrow> need_suit d \<longrightarrow> wearing_suit w"
      using assms(1,3) unfolding world_ok_def open_doors_ok_def by blast
    ultimately show ?thesis by blast
  qed
  then show ?thesis using d by (simp add: place_ok_def standing_in_def)
qed

lemma enter_room_ok:
  assumes "world_ok w" and "place_ok d w"
  shows "outcome_ok (enter_room d w)"
  using assms by (auto simp: enter_room_def rand_def)

lemma moves_ok:
  assumes "world_ok w" and "place_ok r w"
  shows "outcome_ok (try_to_move_left r w)" and "outcome_ok (try_to_move_right r w)" and "outcome_ok (try_to_enter r w)"
proof -
  note step = enter_room_ok [OF assms(1) place_ok_door [OF assms]]
  show "outcome_ok (try_to_move_left r w)" "outcome_ok (try_to_move_right r w)"
    using assms step by (auto simp: try_to_move_left_def try_to_move_right_def door_def split: option.split)
  have "place_ok R_IN_CLEANR w" if "wearing_suit w"
    using that by (simp add: place_ok_def standing_in_def need_car_def)
  moreover have "place_ok R_IN_395LAB w" "place_ok R_CSL_LOBBY w" "place_ok R_BECKLOBBY w"
    by (rule place_ok_free; simp add: need_car_def need_suit_def)+
  moreover have "outcome_ok (case rand w of (v, w) \<Rightarrow> tell a r (f v) w)" for a f
    using assms by (simp add: rand_def)
  ultimately show "outcome_ok (try_to_enter r w)"
    using assms step by (auto simp: try_to_enter_def door_def split: option.split)
qed

lemma special_get_ok:
  assumes "world_ok w" and "obj_special_get r arg w = (obj, w')"
  shows "world_ok w'" and "place_ok s w' \<longleftrightarrow> place_ok s w" and "obj = Some ob \<Longrightarrow> world_ok (move_object_to_inventory ob w')"
    and "lured_tux w' \<longleftrightarrow> lured_tux w" and "obj = None \<Longrightarrow> w' = w" and "obj \<noteq> Some O_TUX"
proof -
  have op: "car_open w" if "at w O_BATT_CAR s" for s using assms(1) that by (auto simp: world_ok_def tasks_ok_def)
  have rem: "world_ok (remove_object O_BATT_CAR w)" by (rule world_ok_remove [OF assms(1)]) simp_all
  show "world_ok w'" "place_ok s w' \<longleftrightarrow> place_ok s w" "lured_tux w' \<longleftrightarrow> lured_tux w" "obj = None \<Longrightarrow> w' = w" "obj \<noteq> Some O_TUX"
    using assms rem by (auto simp: obj_special_get_def split: if_splits)
  show "world_ok (move_object_to_inventory ob w')" if "obj = Some ob"
  proof (rule world_ok_inserted [OF inserted_move \<open>world_ok w'\<close>])
    show "ob < N_OBJECTS" using special_get_less [of r arg w ob] assms(2) that by simp
  qed (use assms that op in \<open>auto simp: obj_special_get_def split: if_splits\<close>)
qed

lemma get_ok:
  assumes "world_ok w" and "place_ok r w"
  shows "outcome_ok (typed_cmd_get r arg w)"
proof -
  obtain obj w' where sp: "obj_special_get (standing_in r w) arg w = (obj, w')" by fastforce
  note S = special_get_ok [OF assms(1) sp]
  show ?thesis
  proof (cases obj)
    case None
    then have w': "w' = w" using S(5) by simp
    have "world_ok (move_object_to_inventory ob w)" if "find_in_room (standing_in r w) arg w = Some ob" "ob = O_TUX \<longrightarrow> lured_tux w" for ob
    proof -
      obtain L where L: "lists w L" using assms(1) by (auto simp: world_ok_def)
      show ?thesis
        using that assms(2) by (intro world_ok_moved [OF inserted_move assms(1) found_object(2) [OF L that(1)]])
          (auto simp: place_ok_def need_suit_def)
    qed
    then show ?thesis using assms None by (auto simp: typed_cmd_get_def Let_def sp w' split: option.split)
  next
    case (Some ob)
    then show ?thesis using assms S by (auto simp: typed_cmd_get_def Let_def sp)
  qed
qed

lemma drop_ok:
  assumes "world_ok w" and "place_ok r w"
  shows "outcome_ok (typed_cmd_drop r arg w)"
proof -
  have r: "standing_in r w < N_ROOMS"
  proof (cases "r = R_INVENTORY")
    case True
    then obtain d where "room_enter (room w R_INVENTORY) = Some d" using assms(2) by (auto simp: place_ok_def)
    then show ?thesis using True assms(1) by (auto simp: standing_in_def world_ok_def doors_ok_def door_def)
  qed (use assms(2) in \<open>simp add: standing_in_def place_ok_def\<close>)
  have "world_ok (insert_object ob (standing_in r w) v)"
    if find: "find_in_room R_INVENTORY arg w = Some ob" and v: "v = w \<or> (\<exists>s. v = show_status s w)" for ob v
  proof -
    obtain L where L: "lists w L" using assms(1) by (auto simp: world_ok_def)
    have "world_ok v" "at v ob R_INVENTORY" using v assms(1) found_object(2) [OF L find] by auto
    moreover have "ob = O_TUX \<Longrightarrow> lured_tux v"
      using found_object(2) [OF L find] assms(1) v by (auto simp: world_ok_def tasks_ok_def)
    ultimately show ?thesis using r by (intro world_ok_moved [OF inserted_insert]) auto
  qed
  then show ?thesis using assms by (auto simp: typed_cmd_drop_def Let_def split: option.split)
qed


lemma world_ok_facts:
  assumes "world_ok w"
  shows "at w O_BATT_CAR r \<Longrightarrow> car_open w" "at w O_BATT_EMPTY r \<Longrightarrow> car_open w" "at w O_BATT_FULL r \<Longrightarrow> car_open w"
    "at w O_GPS_GOOD r \<Longrightarrow> wearing_suit w" "at w O_MIMO_CARD r \<Longrightarrow> r \<noteq> R_STATUE \<Longrightarrow> wearing_suit w"
    "lured_tux w \<Longrightarrow> car_fixed w" "lured_tux w \<Longrightarrow> wearing_suit w" "car_fixed w \<Longrightarrow> car_open w"
    "at w O_TUX r \<Longrightarrow> r \<noteq> R_REM_LAB \<Longrightarrow> lured_tux w" "at w O_BOOK_C r \<Longrightarrow> has_eaten w"
  using assms by (auto simp: world_ok_def tasks_ok_def)

lemma place_ok_facts:
  assumes "place_ok r w" and "r \<noteq> R_INVENTORY"
  shows "need_car r \<Longrightarrow> car_fixed w" and "need_suit r \<Longrightarrow> wearing_suit w" and "r < N_ROOMS"
  using assms by (simp_all add: place_ok_def standing_in_def)

lemma buy_ok:
  assumes "world_ok w" and "place_ok r w"
  shows "outcome_ok (typed_cmd_buy r arg w)"
proof -
  have "world_ok (move_object_to_inventory O_MTN_DEW (show_status s w))" for s
    by (rule world_ok_inserted [OF inserted_move]) (simp_all add: assms)
  moreover have "world_ok (player_set_flag FLAG_HAS_EATEN w)" "place_ok r (player_set_flag FLAG_HAS_EATEN w)"
    by (rule world_ok_flag place_ok_flag; simp add: assms)+
  ultimately show ?thesis using assms by (auto simp: typed_cmd_buy_def)
qed

lemma charge_ok:
  assumes "world_ok w" and "place_ok r w"
  shows "outcome_ok (typed_cmd_charge r arg w)"
proof -
  have "world_ok (move_object_to_inventory O_BATT_FULL (remove_object O_BATT_EMPTY w))" if "car_open w"
    using that assms(1) by (intro world_ok_inserted [OF inserted_move] world_ok_remove) simp_all
  then show ?thesis using assms world_ok_facts(2,3) [OF assms(1)] by (auto simp: typed_cmd_charge_def)
qed

lemma do_ok:
  assumes "world_ok w" and "place_ok r w"
  shows "outcome_ok (typed_cmd_do r arg w)"
  using assms by (auto simp: typed_cmd_do_def)

lemma drink_ok:
  assumes "world_ok w" and "place_ok r w"
  shows "outcome_ok (typed_cmd_drink r arg w)"
  using assms world_ok_remove [OF assms(1), of O_MTN_DEW] by (auto simp: typed_cmd_drink_def)

lemma fix_ok:
  assumes "world_ok w" and "place_ok r w"
  shows "outcome_ok (typed_cmd_fix r arg w)"
proof -
  have "world_ok (move_object_to_inventory O_GPS_GOOD (remove_object O_GPS_SPEC (remove_object O_GPS_BAD w)))" if "wearing_suit w"
    using that assms(1) by (intro world_ok_inserted [OF inserted_move] world_ok_remove) simp_all
  moreover have "wearing_suit w" if "r = R_IN_CLEANR"
    using place_ok_facts(2) [OF assms(2)] that by (simp add: need_suit_def)
  ultimately show ?thesis using assms by (auto simp: typed_cmd_fix_def)
qed

lemma flash_ok:
  assumes "world_ok w" and "place_ok r w"
  shows "outcome_ok (typed_cmd_flash r arg w)"
proof -
  have "world_ok (move_object_to_inventory O_ROBOT_LIVE (remove_object O_ROBOT_DEAD w))"
    using assms(1) by (intro world_ok_inserted [OF inserted_move] world_ok_remove) simp_all
  then show ?thesis using assms by (auto simp: typed_cmd_flash_def)
qed

lemma go_ok:
  assumes "world_ok w" and "place_ok r w"
  shows "outcome_ok (typed_cmd_go r arg w)"
proof -
  have "place_ok R_ALLERTON w" if "car_fixed w" "has w O_GPS_GOOD"
    using that world_ok_facts(4) [OF assms(1)] by (simp add: place_ok_def standing_in_def)
  moreover have "place_ok R_WILLARD w" if "car_fixed w" using that by (simp add: place_ok_def standing_in_def need_suit_def)
  moreover have "place_ok R_CAR_SITE w" by (rule place_ok_free) (simp_all add: need_car_def need_suit_def)
  ultimately show ?thesis using assms by (auto simp: typed_cmd_go_def)
qed

lemma world_ok_enter:
  assumes "world_ok w" and "r = R_INVENTORY \<and> 0 < d \<and> d < N_ROOMS \<or> r = R_COCKPIT \<and> d = R_OVER_WILL \<and> car_fixed w \<and> wearing_suit w"
  shows "world_ok (set_room r ((room w r)\<lparr>room_enter := Some d\<rparr>) w)"
proof -
  let ?w = "set_room r ((room w r)\<lparr>room_enter := Some d\<rparr>) w"
  have door: "door ?w a b \<Longrightarrow> door w a b \<or> a = r \<and> b = d" for a b
    by (auto simp: door_def split: if_splits)
  have old: "doors_ok w" "open_doors_ok w" using assms(1) by (simp_all add: world_ok_def)
  have "0 < b \<and> b < N_ROOMS \<and> (a = R_INVENTORY \<or> (need_car b \<longrightarrow> need_car a) \<and> (need_suit b \<longrightarrow> need_suit a \<or> a = R_COCKPIT))"
    if "door ?w a b" for a b
    using door [OF that]
  proof
    assume "door w a b" then show ?thesis using old(1) unfolding doors_ok_def by blast
  next
    assume "a = r \<and> b = d" then show ?thesis using assms(2) by (auto simp: need_car_def)
  qed
  then have "doors_ok ?w" using old(1) unfolding doors_ok_def by auto
  moreover have "open_doors_ok ?w" unfolding open_doors_ok_def
  proof (intro allI impI)
    fix b assume "door ?w R_COCKPIT b" "need_suit b"
    then have "wearing_suit w" using door [of R_COCKPIT b] old(2) assms(2) unfolding open_doors_ok_def by auto
    then show "wearing_suit ?w" by simp
  qed
  moreover have "\<exists>L. lists ?w L" using assms(1) unfolding world_ok_def set_room_fields by simp
  moreover have "tasks_ok ?w" using assms(1) by (simp add: world_ok_def tasks_ok_def)
  moreover have "\<forall>ob a. at ?w ob a \<longrightarrow> a < N_ROOMS" using assms(1) by (simp add: world_ok_def)
  ultimately show ?thesis by (simp only: world_ok_def simp_thms)
qed


lemma install_ok:
  assumes "world_ok w" and "place_ok r w"
  shows "outcome_ok (typed_cmd_install r arg w)"
proof -
  have "world_ok (player_set_flag FLAG_CAR_FIXED (remove_object O_BATT_FULL w))"
    "place_ok r (player_set_flag FLAG_CAR_FIXED (remove_object O_BATT_FULL w))" if "car_open w"
  proof -
    have rem: "world_ok (remove_object O_BATT_FULL w)" by (rule world_ok_remove [OF assms(1)]) simp_all
    show "world_ok (player_set_flag FLAG_CAR_FIXED (remove_object O_BATT_FULL w))" using that by (intro world_ok_flag [OF rem]) simp_all
    show "place_ok r (player_set_flag FLAG_CAR_FIXED (remove_object O_BATT_FULL w))" using assms(2) by (intro place_ok_flag [OF rem]) simp_all
  qed
  note battery = this
  let ?v = "remove_object O_MIMO_CARD w"
  let ?u = "set_room R_COCKPIT ((room ?v R_COCKPIT)\<lparr>room_enter := Some R_OVER_WILL\<rparr>) ?v"
  have "world_ok ?u \<and> place_ok R_COCKPIT ?u" if "r = R_COCKPIT" "at w O_MIMO_CARD R_INVENTORY \<or> at w O_MIMO_CARD r"
  proof -
    have suit: "wearing_suit w" using that world_ok_facts(5) [OF assms(1)] by auto
    have car: "car_fixed w" using place_ok_facts(1) [OF assms(2)] that(1) by (simp add: need_car_def)
    have "world_ok ?v" using suit by (intro world_ok_remove [OF assms(1)]) simp_all
    then have "world_ok ?u" using suit car by (intro world_ok_enter) simp_all
    moreover have "place_ok R_COCKPIT ?u" using suit car by (simp add: place_ok_def standing_in_def)
    ultimately show ?thesis by simp
  qed
  then show ?thesis using assms battery world_ok_facts(2,3) [OF assms(1)] unfolding typed_cmd_install_def Let_def
    by (auto simp del: remove_object_fields)
qed

lemma inventory_ok:
  assumes "world_ok w" and "place_ok r w"
  shows "outcome_ok (typed_cmd_inventory r arg w)"
proof (cases "r = R_INVENTORY")
  case True
  then obtain d where d: "room_enter (room w R_INVENTORY) = Some d" using assms(2) by (auto simp: place_ok_def)
  have "place_ok d w" by (rule place_ok_door [OF assms]) (simp add: door_def d True)
  then show ?thesis using assms True by (simp add: typed_cmd_inventory_def d)
next
  case False
  let ?w = "set_room R_INVENTORY ((room w R_INVENTORY)\<lparr>room_enter := Some r\<rparr>) w"
  have "world_ok ?w" using False assms(2) by (intro world_ok_enter [OF assms(1)]) (simp add: place_ok_def)
  moreover have "place_ok R_INVENTORY ?w" using False assms(2) by (simp add: place_ok_def standing_in_def)
  ultimately show ?thesis using False by (simp add: typed_cmd_inventory_def)
qed

lemma sigh_ok:
  assumes "world_ok w" and "place_ok r w"
  shows "outcome_ok (typed_cmd_sigh r arg w)"
proof -
  have "world_ok (player_set_flag FLAG_HAS_EATEN (show_status s w))" "place_ok r (player_set_flag FLAG_HAS_EATEN (show_status s w))" for s
    by (rule world_ok_flag place_ok_flag; simp add: assms)+
  then show ?thesis using assms by (auto simp: typed_cmd_sigh_def)
qed

lemma use_ok:
  assumes "world_ok w" and "place_ok r w"
  shows "outcome_ok (typed_cmd_use r arg w)"
proof -
  let ?k = "remove_object O_CAR_KEY (do_photo_swap r SWAP_CAR w)"
  let ?b = "insert_object_at O_BATT_CAR r 265 122 ?k"
  let ?f = "move_object_to_inventory O_TUX (remove_object O_FISH w)"
  have r: "r < N_ROOMS" using assms(2) by (simp add: place_ok_def)
  have len: "length (player_flags w) = 1" by (rule world_ok_length [OF assms(1)])
  have lists: "\<exists>L. lists ?b L" "\<exists>L. lists ?f L"
  proof -
    obtain L where "lists w L" using assms(1) by (auto simp: world_ok_def)
    then have k: "lists ?k (\<lambda>r. filter (\<lambda>x. x \<noteq> O_CAR_KEY) (L r))" and f: "lists (remove_object O_FISH w) (\<lambda>r. filter (\<lambda>x. x \<noteq> O_FISH) (L r))"
      by (auto intro: lists_remove)
    show "\<exists>L. lists ?b L" using lists_inserted [OF inserted_at k, of O_BATT_CAR r] by fastforce
    show "\<exists>L. lists ?f L" using lists_inserted [OF inserted_move f, of O_TUX] by fastforce
  qed
  have W: "(\<exists>L. lists w L)" "\<forall>ob r. at w ob r \<longrightarrow> r < N_ROOMS" "doors_ok w" "open_doors_ok w" "tasks_ok w"
    using assms(1) by (simp_all add: world_ok_def)
  have "world_ok (player_set_flag FLAG_CAR_OPEN ?b) \<and> place_ok r (player_set_flag FLAG_CAR_OPEN ?b)"
  proof
    have "tasks_ok (player_set_flag FLAG_CAR_OPEN ?b)" using W(5) len unfolding tasks_ok_def by (intro conjI) (auto split: if_splits)
    moreover have "doors_ok (player_set_flag FLAG_CAR_OPEN ?b)" "open_doors_ok (player_set_flag FLAG_CAR_OPEN ?b)"
      using W(3,4) len by (simp_all add: doors_ok_def open_doors_ok_def)
    moreover have "\<forall>ob a. at (player_set_flag FLAG_CAR_OPEN ?b) ob a \<longrightarrow> a < N_ROOMS" using W(2) r by simp
    ultimately show "world_ok (player_set_flag FLAG_CAR_OPEN ?b)" using lists(1) by (simp add: world_ok_def)
    show "place_ok r (player_set_flag FLAG_CAR_OPEN ?b)" using assms(2) len by (auto simp: place_ok_def)
  qed
  moreover have "world_ok (player_set_flag FLAG_LURED_TUX ?f) \<and> place_ok r (player_set_flag FLAG_LURED_TUX ?f)" if "r = R_REM_LAB"
  proof
    have "car_fixed w" "wearing_suit w" using place_ok_facts(1,2) [OF assms(2)] that by (simp_all add: need_car_def need_suit_def)
    then have "tasks_ok (player_set_flag FLAG_LURED_TUX ?f)" using W(5) len unfolding tasks_ok_def by (intro conjI) (auto split: if_splits)
    moreover have "doors_ok (player_set_flag FLAG_LURED_TUX ?f)" "open_doors_ok (player_set_flag FLAG_LURED_TUX ?f)"
      using W(3,4) len by (simp_all add: doors_ok_def open_doors_ok_def)
    moreover have "\<forall>ob a. at (player_set_flag FLAG_LURED_TUX ?f) ob a \<longrightarrow> a < N_ROOMS" using W(2) by simp
    ultimately show "world_ok (player_set_flag FLAG_LURED_TUX ?f)" using lists(2) by (simp add: world_ok_def)
    show "place_ok r (player_set_flag FLAG_LURED_TUX ?f)" using assms(2) len by (auto simp: place_ok_def)
  qed
  ultimately show ?thesis using assms by (auto simp: typed_cmd_use_def)
qed

lemma wear_ok:
  assumes "world_ok w" and "place_ok r w"
  shows "outcome_ok (typed_cmd_wear r arg w)"
proof -
  have rem: "world_ok (remove_object O_BUNNYSUIT w)" by (rule world_ok_remove [OF assms(1)]) simp_all
  have "world_ok (player_set_flag FLAG_WEARING_SUIT (remove_object O_BUNNYSUIT w))"
    "place_ok r (player_set_flag FLAG_WEARING_SUIT (remove_object O_BUNNYSUIT w))"
    by (rule world_ok_flag [OF rem] place_ok_flag [OF rem]; simp add: assms)+
  then show ?thesis using assms by (simp add: typed_cmd_wear_def)
qed

lemma perform_ok:
  assumes "world_ok w" and "place_ok r w"
  shows "outcome_ok (perform a r w)"
proof (cases a)
  case (Typed c arg)
  show ?thesis unfolding Typed perform.simps
    by (cases c; simp add: assms buy_ok charge_ok do_ok drink_ok drop_ok fix_ok flash_ok get_ok go_ok install_ok inventory_ok
      sigh_ok use_ok wear_ok)
qed (simp_all add: moves_ok assms)


subsection \<open>The plain world is in order\<close>

lemma find_fresh: "distinct (map fst (row # rows)) \<Longrightarrow> find (\<lambda>x. fst x = fst row) rows = None"
proof -
  assume "distinct (map fst (row # rows))"
  then have "fst row \<notin> set (map fst rows)" by simp
  then have "\<forall>x\<in>set rows. fst x \<noteq> fst row" by (metis image_eqI set_map)
  then show ?thesis using find_None_iff [of "\<lambda>x. fst x = fst row" rows] by blast
qed

definition room_row :: "nat \<Rightarrow> (nat \<times> string \<times> string \<times> nat option \<times> nat option \<times> nat option) option" where
  "room_row r = find (\<lambda>row. fst row = r) room_data"

lemma plain_rooms:
  assumes "distinct (map fst rows)"
  shows "room (fold plain_room rows w) r = (case find (\<lambda>row. fst row = r) rows of
      None \<Rightarrow> room w r
    | Some (which, name, f, l, e, rr) \<Rightarrow> \<lparr>room_name = Some name, view = Some \<lparr>photo_hdr = no_pixels, palette = [], photo_img = []\<rparr>,
        contents = None, room_left = l, room_enter = e, room_right = rr\<rparr>)"
  using assms
proof (induction rows arbitrary: w)
  case (Cons row rows)
  have "find (\<lambda>x. fst x = fst row) rows = None" using find_fresh [OF Cons.prems] .
  then show ?case using Cons by (auto simp: plain_room_def split: prod.split option.split)
qed simp

lemma plain_object_fields:
  "room_left (room (plain_object row w) r) = room_left (room w r)" "room_enter (room (plain_object row w) r) = room_enter (room w r)"
  "room_right (room (plain_object row w) r) = room_right (room w r)" "player_flags (plain_object row w) = player_flags w"
  "obj_loc (object (plain_object row w) ob) = (if ob = fst row then fst (snd (snd (snd row))) else obj_loc (object w ob))"
  "obj_name (object (plain_object row w) ob) = (if ob = fst row then Some (fst (snd row)) else obj_name (object w ob))"
  by (simp_all add: plain_object_def zero_object_def Let_def split: prod.split option.split)

lemma plain_objects_fields:
  "room_left (room (fold plain_object rows w) r) = room_left (room w r)" "room_enter (room (fold plain_object rows w) r) = room_enter (room w r)"
  "room_right (room (fold plain_object rows w) r) = room_right (room w r)" "player_flags (fold plain_object rows w) = player_flags w"
  by (induction rows arbitrary: w) (simp_all add: plain_object_fields)

lemma plain_objects_locs:
  assumes "distinct (map fst rows)"
  shows "obj_loc (object (fold plain_object rows w) ob) = (case find (\<lambda>row. fst row = ob) rows of None \<Rightarrow> obj_loc (object w ob)
      | Some row \<Rightarrow> fst (snd (snd (snd row)))) \<and>
    obj_name (object (fold plain_object rows w) ob) = (case find (\<lambda>row. fst row = ob) rows of None \<Rightarrow> obj_name (object w ob)
      | Some row \<Rightarrow> Some (fst (snd row)))"
  using assms
proof (induction rows arbitrary: w)
  case (Cons row rows)
  have "find (\<lambda>x. fst x = fst row) rows = None" using find_fresh [OF Cons.prems] .
  then show ?case using Cons by (cases "fst row = ob") (auto simp: plain_object_fields split: option.split)
qed simp

lemma plain_objects_lists:
  assumes "distinct (map fst rows)" and "\<forall>row\<in>set rows. fst row < N_OBJECTS \<and> obj_loc (object w (fst row)) = None"
    and "\<exists>L. lists w L"
  shows "\<exists>L. lists (fold plain_object rows w) L"
  using assms
proof (induction rows arbitrary: w)
  case (Cons row rows)
  obtain which name f rm x y where row: "row = (which, name, f, rm, x, y)" by (cases row)
  let ?o = "zero_object\<lparr>obj_name := Some name, obj_img := Some \<lparr>image_hdr = no_pixels, image_img = []\<rparr>\<rparr>"
  have loc: "obj_loc (object w which) = None" and less: "which < N_OBJECTS" using Cons.prems(2) by (simp_all add: row)
  have "same_game w w" using Cons.prems(3) by (auto simp: same_game_def)
  then have "same_game (set_object which ?o w) (set_object which ?o w)"
    by (rule same_new_object) (simp_all add: loc zero_object_def)
  then obtain L where L: "lists (set_object which ?o w) L" by (auto simp: same_game_def)
  then have "\<exists>L. lists (plain_object row w) L"
    using lists_inserted [OF inserted_at L less] by (auto simp: plain_object_def row Let_def split: option.split)
  moreover have "\<forall>r\<in>set rows. fst r < N_OBJECTS \<and> obj_loc (object (plain_object row w) (fst r)) = None"
    using Cons.prems(1,2) by (auto simp: plain_object_fields image_iff)
  ultimately show ?case using Cons.IH [of "plain_object row w"] Cons.prems(1) by simp
qed simp

lemma room_data_distinct: "distinct (map fst room_data)"
  by (simp add: room_data_def)

lemma obj_data_distinct: "distinct (map fst obj_data)" and obj_data_less: "\<forall>row\<in>set obj_data. fst row < N_OBJECTS"
  by (simp_all add: obj_data_def)

lemma plain_doors:
  "room_left (room plain_world r) = (case room_row r of None \<Rightarrow> None | Some (which, name, f, l, e, rr) \<Rightarrow> l)"
  "room_enter (room plain_world r) = (case room_row r of None \<Rightarrow> None | Some (which, name, f, l, e, rr) \<Rightarrow> e)"
  "room_right (room plain_world r) = (case room_row r of None \<Rightarrow> None | Some (which, name, f, l, e, rr) \<Rightarrow> rr)"
  by (simp_all add: plain_world_def plain_objects_fields plain_rooms [OF room_data_distinct] room_row_def zero_room_def
      split: option.split prod.split)


lemma plain_locs:
  "obj_loc (object plain_world ob) = (case find (\<lambda>row. fst row = ob) obj_data of None \<Rightarrow> None | Some row \<Rightarrow> fst (snd (snd (snd row))))"
  "obj_name (object plain_world ob) = (case find (\<lambda>row. fst row = ob) obj_data of None \<Rightarrow> None | Some row \<Rightarrow> Some (fst (snd row)))"
proof -
  have "object (fold plain_room rows w) = object w" for rows w
    by (induction rows arbitrary: w) (simp_all add: plain_room_def split: prod.split)
  then show "obj_loc (object plain_world ob) = (case find (\<lambda>row. fst row = ob) obj_data of None \<Rightarrow> None | Some row \<Rightarrow> fst (snd (snd (snd row))))"
    "obj_name (object plain_world ob) = (case find (\<lambda>row. fst row = ob) obj_data of None \<Rightarrow> None | Some row \<Rightarrow> Some (fst (snd row)))"
    using plain_objects_locs [OF obj_data_distinct] by (simp_all add: plain_world_def zero_object_def split: option.split)
qed

lemma plain_flags: "player_flags plain_world = [0]"
proof -
  have "player_flags (fold plain_room rows w) = player_flags w" for rows w
    by (induction rows arbitrary: w) (simp_all add: plain_room_def split: prod.split)
  then show ?thesis by (simp add: plain_world_def plain_objects_fields)
qed

lemma plain_lists: "\<exists>L. lists plain_world L"
  unfolding plain_world_def
proof (rule plain_objects_lists [OF obj_data_distinct])
  let ?w = "\<lparr>room = \<lambda>_. zero_room, object = \<lambda>_. zero_object, player_flags = [0], swap_photo = \<lambda>_. None, rands = \<lambda>_. 0, status_msg = []\<rparr>"
  have ob: "object (fold plain_room rows w) = object w" for rows w
    by (induction rows arbitrary: w) (simp_all add: plain_room_def split: prod.split)
  have "contents (room (fold plain_room room_data ?w) r) = None" for r
    by (simp add: plain_rooms [OF room_data_distinct] zero_room_def split: option.split prod.split)
  then have "lists (fold plain_room room_data ?w) (\<lambda>_. [])" by (simp add: lists_def ob zero_object_def)
  then show "\<exists>L. lists (fold plain_room room_data ?w) L" by blast
  show "\<forall>row\<in>set obj_data. fst row < N_OBJECTS \<and> obj_loc (object (fold plain_room room_data ?w) (fst row)) = None"
    using obj_data_less by (simp add: ob zero_object_def)
qed

text \<open>The map of the tables has the door property; a finite check.\<close>

definition row_doors :: "nat \<times> string \<times> string \<times> nat option \<times> nat option \<times> nat option \<Rightarrow> nat list" where
  "row_doors row = (case row of (which, name, f, l, e, r) \<Rightarrow> concat (map (\<lambda>d. case d of None \<Rightarrow> [] | Some d \<Rightarrow> [d]) [l, e, r]))"

definition row_ok :: "nat \<times> string \<times> string \<times> nat option \<times> nat option \<times> nat option \<Rightarrow> bool" where
  "row_ok row \<longleftrightarrow> list_all (\<lambda>d. 0 < d \<and> d < N_ROOMS \<and> (need_car d \<longrightarrow> need_car (fst row)) \<and> (need_suit d \<longrightarrow> need_suit (fst row)))
     (row_doors row) \<and> (fst row = R_INVENTORY \<longrightarrow> row_doors row = [])"

lemma room_data_ok: "list_all row_ok room_data"
  by (simp add: room_data_def row_ok_def row_doors_def need_car_def need_suit_def)

lemma plain_door:
  assumes "door plain_world r d"
  shows "\<exists>row. row_ok row \<and> fst row = r \<and> d \<in> set (row_doors row)"
proof -
  obtain row where row: "room_row r = Some row" using assms by (cases "room_row r") (auto simp: door_def plain_doors)
  then have "row \<in> set room_data" "fst row = r" by (auto simp: room_row_def find_Some_iff)
  moreover have "d \<in> set (row_doors row)" using assms row by (cases row) (auto simp: door_def plain_doors row_doors_def)
  ultimately show ?thesis using room_data_ok unfolding list_all_iff by blast
qed

lemma plain_world_ok: "world_ok plain_world"
proof -
  have doors: "doors_ok plain_world" unfolding doors_ok_def
  proof (intro conjI allI impI)
    have "room_row R_INVENTORY = Some (R_INVENTORY, ''Inventory'', ''images/backpack.photo'', None, None, None)"
      by (simp add: room_row_def room_data_def)
    then show "room_left (room plain_world R_INVENTORY) = None" "room_right (room plain_world R_INVENTORY) = None"
      by (simp_all add: plain_doors)
    fix r d assume "door plain_world r d"
    then obtain row where "row_ok row" "fst row = r" "d \<in> set (row_doors row)" using plain_door by blast
    then show "0 < d" "d < N_ROOMS" "r = R_INVENTORY \<or> (need_car d \<longrightarrow> need_car r) \<and> (need_suit d \<longrightarrow> need_suit r \<or> r = R_COCKPIT)"
      by (auto simp: row_ok_def list_all_iff)
  qed
  have "open_doors_ok plain_world" unfolding open_doors_ok_def
  proof (intro allI impI)
    fix d assume "door plain_world R_COCKPIT d" "need_suit d"
    then obtain row where "row_ok row" "fst row = R_COCKPIT" "d \<in> set (row_doors row)" using plain_door by blast
    then have "need_suit R_COCKPIT" using \<open>need_suit d\<close> by (auto simp: row_ok_def list_all_iff)
    then show "wearing_suit plain_world" by (simp add: need_suit_def)
  qed
  moreover have "tasks_ok plain_world"
    by (simp add: tasks_ok_def plain_locs plain_flags player_flag_is_set_def obj_data_def)
  moreover have "r < N_ROOMS" if "at plain_world ob r" for ob r
  proof -
    have "find (\<lambda>row. fst row = ob) obj_data \<noteq> None" using that by (metis option.distinct(1) option.simps(4) plain_locs(1))
    then obtain row where f: "find (\<lambda>row. fst row = ob) obj_data = Some row" by blast
    have row: "fst (snd (snd (snd row))) = Some r" using that unfolding plain_locs f by simp
    from f have "row \<in> set obj_data" unfolding find_Some_iff by (metis nth_mem)
    moreover have "list_all (\<lambda>row. case fst (snd (snd (snd row))) of None \<Rightarrow> True | Some r \<Rightarrow> r < N_ROOMS) obj_data"
      by (simp add: obj_data_def)
    ultimately show ?thesis using row unfolding list_all_iff by fastforce
  qed
  ultimately show ?thesis using plain_lists doors by (simp add: world_ok_def)
qed

lemma world_ok_same:
  assumes "same_game w w'"
  shows "world_ok w \<longleftrightarrow> world_ok w'"
proof -
  have "door w = door w'" by (intro ext) (simp add: door_def same_facts [OF assms])
  moreover have "\<exists>L. lists w L" "\<exists>L. lists w' L" using assms by (auto simp: same_game_def)
  ultimately show ?thesis
    by (simp add: world_ok_def doors_ok_def open_doors_ok_def tasks_ok_def same_facts [OF assms])
qed

lemma place_ok_start: "place_ok start_in_room w"
  by (rule place_ok_free) (simp_all add: start_in_room_def need_car_def need_suit_def)

lemma reachable_ok:
  assumes "reachable w0 r w" and "world_ok w0"
  shows "world_ok w \<and> place_ok r w"
  using assms(1)
proof induction
  case start
  then show ?case using assms(2) place_ok_start by simp
next
  case (act r w a t r' w')
  then show ?case using perform_ok [of w r a] by (simp add: outcome_ok_def)
qed

text \<open>The only command that leaves the player without a room.\<close>

lemma perform_leaves:
  assumes "perform a r w = (t, None, w')" and "place_ok r w"
  shows "\<exists>arg. a = Typed TC_DO arg \<and> r = R_IN_391LAB \<and> has w O_BOOK_C \<and> has w O_MP2 \<and> at w O_TUX R_IN_391LAB \<and> w' = w"
proof (cases a)
  case (Typed c arg)
  have enter: "r = R_INVENTORY \<Longrightarrow> room_enter (room w R_INVENTORY) \<noteq> None" using assms(2) by (simp add: place_ok_def)
  show ?thesis using assms(1) enter unfolding Typed
    by (cases c) (auto simp: typed_cmd_buy_def typed_cmd_charge_def typed_cmd_do_def typed_cmd_drink_def typed_cmd_fix_def
      typed_cmd_flash_def typed_cmd_go_def typed_cmd_install_def typed_cmd_inventory_def typed_cmd_sigh_def typed_cmd_use_def
      typed_cmd_wear_def typed_cmd_drop_def typed_cmd_get_def tell_def Let_def split: if_splits option.splits prod.splits)
qed (use assms in \<open>auto simp: try_to_move_left_def try_to_move_right_def try_to_enter_def enter_room_def tell_def rand_def
    split: if_splits option.splits prod.splits\<close>)

end
