(* ===== verification/Rules.thy ===== *)
theory Rules
  imports Game
begin

text \<open>
  The rules of the adventure game as a small specification, and the game played by them.  A summary keeps where
  every object is, which tasks are done, the way back from the inventory and the cockpit's door; a rule says what a
  successful action does to it.  Every rule is carried out by the commands of \<^verbatim>\<open>mp2/world.c\<close> on any world with
  that summary, so a game can be played on summaries, which is done for a walk through the whole game.
\<close>

subsection \<open>Summaries\<close>

record summary =
  locs :: "nat option list"
  tasks :: "bool list"
  way_back :: "nat option"
  cockpit_door :: "nat option"

definition left_of :: "nat \<Rightarrow> nat option" where
  "left_of r = (case room_row r of None \<Rightarrow> None | Some (which, name, f, l, e, rr) \<Rightarrow> l)"

definition enter_of :: "nat \<Rightarrow> nat option" where
  "enter_of r = (case room_row r of None \<Rightarrow> None | Some (which, name, f, l, e, rr) \<Rightarrow> e)"

definition right_of :: "nat \<Rightarrow> nat option" where
  "right_of r = (case room_row r of None \<Rightarrow> None | Some (which, name, f, l, e, rr) \<Rightarrow> rr)"

definition object_names :: "string list" where
  "object_names = map (\<lambda>row. fst (snd row)) obj_data"

definition object_name :: "nat \<Rightarrow> string" where
  "object_name ob = object_names ! ob"

definition summarizes :: "summary \<Rightarrow> world \<Rightarrow> bool" where
  "summarizes s w \<longleftrightarrow> (\<exists>L. lists w L) \<and> length (locs s) = N_OBJECTS \<and> length (tasks s) = NUM_FLAGS \<and>
     length (player_flags w) = 1 \<and>
     (\<forall>ob<N_OBJECTS. obj_loc (object w ob) = locs s ! ob \<and> obj_name (object w ob) = Some (object_name ob)) \<and>
     (\<forall>f<NUM_FLAGS. player_flag_is_set f w = tasks s ! f) \<and>
     (\<forall>r. room_left (room w r) = left_of r \<and> room_right (room w r) = right_of r \<and>
        room_enter (room w r) = (if r = R_INVENTORY then way_back s else if r = R_COCKPIT then cockpit_door s else enter_of r))"

subsection \<open>Rules\<close>

abbreviation loc :: "summary \<Rightarrow> nat \<Rightarrow> nat option" where
  "loc s ob \<equiv> locs s ! ob"

abbreviation near_by :: "summary \<Rightarrow> nat \<Rightarrow> nat \<Rightarrow> bool" where
  "near_by s ob r \<equiv> loc s ob = Some R_INVENTORY \<or> loc s ob = Some r"

abbreviation place :: "nat \<Rightarrow> nat option \<Rightarrow> summary \<Rightarrow> summary" where
  "place ob l s \<equiv> s\<lparr>locs := (locs s)[ob := l]\<rparr>"

abbreviation finish :: "nat \<Rightarrow> summary \<Rightarrow> summary" where
  "finish f s \<equiv> s\<lparr>tasks := (tasks s)[f := True]\<rparr>"

definition stands :: "nat \<Rightarrow> summary \<Rightarrow> nat" where
  "stands r s = (if r = R_INVENTORY then the (way_back s) else r)"

text \<open>The only object of a room with a name.\<close>

definition the_object :: "nat \<Rightarrow> string \<Rightarrow> summary \<Rightarrow> nat option" where
  "the_object r arg s =
     (case filter (\<lambda>ob. loc s ob = Some r \<and> same_word arg (object_name ob)) [0..<N_OBJECTS] of
        [ob] \<Rightarrow> Some ob | _ \<Rightarrow> None)"

fun enter_rule :: "nat \<Rightarrow> summary \<Rightarrow> nat option" where
  "enter_rule r s =
     (case (if r = R_INVENTORY then way_back s else if r = R_COCKPIT then cockpit_door s else enter_of r) of
        Some d \<Rightarrow> Some d
      | None \<Rightarrow>
          if r = R_BY_CLEANR \<and> tasks s ! FLAG_WEARING_SUIT then Some R_IN_CLEANR
          else if r = R_BY_395LAB \<and> loc s O_ICARD = Some R_INVENTORY then Some R_IN_395LAB
          else if r = R_CSL_DOOR \<and> loc s O_ICARD = Some R_INVENTORY then Some R_CSL_LOBBY
          else if r = R_BECK_DOOR \<and> loc s O_ROBOT_LIVE = Some R_INVENTORY then Some R_BECKLOBBY
          else None)"

text \<open>What a typed command does to the summary when it succeeds: the player's new room and the summary.\<close>

fun typed_rule :: "cmd_id_t \<Rightarrow> nat \<Rightarrow> string \<Rightarrow> summary \<Rightarrow> (nat option \<times> summary) option" where
  "typed_rule TC_BUY r arg s =
     (if same_word ''dew'' arg
      then if r = R_EVRT_VEND \<and> \<not> near_by s O_MTN_DEW r then Some (Some r, place O_MTN_DEW (Some R_INVENTORY) s) else None
      else if same_word ''yogurt'' arg \<and> r = R_IN_COCOMR \<and> \<not> tasks s ! FLAG_HAS_EATEN
      then Some (Some r, finish FLAG_HAS_EATEN s) else None)"
| "typed_rule TC_CHARGE r arg s =
     (if same_word ''battery'' arg \<and> r = R_BECK_MRI \<and> near_by s O_BATT_EMPTY r \<and> \<not> near_by s O_BATT_FULL r
      then Some (Some r, place O_BATT_FULL (Some R_INVENTORY) (place O_BATT_EMPTY None s)) else None)"
| "typed_rule TC_DO r arg s =
     (if r = R_IN_391LAB \<and> (same_word ''391'' arg \<or> same_word ''mp2'' arg) \<and> loc s O_BOOK_C = Some R_INVENTORY \<and>
         loc s O_MP2 = Some R_INVENTORY \<and> loc s O_TUX = Some R_IN_391LAB
      then Some (None, s) else None)"
| "typed_rule TC_DRINK r arg s =
     (if same_word ''dew'' arg \<and> near_by s O_MTN_DEW r then Some (Some r, place O_MTN_DEW None s) else None)"
| "typed_rule TC_DROP r arg s =
     (case the_object R_INVENTORY arg s of None \<Rightarrow> None | Some ob \<Rightarrow> Some (Some r, place ob (Some (stands r s)) s))"
| "typed_rule TC_FIX r arg s =
     (if same_word ''gps'' arg \<and> r = R_IN_CLEANR \<and> \<not> near_by s O_GPS_GOOD r \<and> near_by s O_GPS_BAD r \<and> near_by s O_GPS_SPEC r
      then Some (Some r, place O_GPS_GOOD (Some R_INVENTORY) (place O_GPS_SPEC None (place O_GPS_BAD None s))) else None)"
| "typed_rule TC_FLASH r arg s =
     (if same_word ''robot'' arg \<and> r = R_IN_395LAB \<and> near_by s O_ROBOT_DEAD r \<and> \<not> near_by s O_ROBOT_LIVE r
      then Some (Some r, place O_ROBOT_LIVE (Some R_INVENTORY) (place O_ROBOT_DEAD None s)) else None)"
| "typed_rule TC_GET r arg s =
     (let src = stands r s
      in if src = R_RESERVE \<and> same_word ''book'' arg \<and> tasks s ! FLAG_HAS_EATEN \<and> loc s O_BOOK_C = None
         then Some (Some r, place O_BOOK_C (Some R_INVENTORY) s)
         else if src = R_RESERVE \<and> same_word ''book'' arg \<and> \<not> tasks s ! FLAG_HAS_EATEN \<and> loc s O_BOOK_WODE = None
         then Some (Some r, place O_BOOK_WODE (Some R_INVENTORY) s)
         else if src = R_CAR_SITE \<and> loc s O_BATT_CAR = Some src
         then Some (Some r, place O_BATT_EMPTY (Some R_INVENTORY) (place O_BATT_CAR None s))
         else (case the_object src arg s of
             None \<Rightarrow> None
           | Some ob \<Rightarrow> if ob = O_TUX \<and> \<not> tasks s ! FLAG_LURED_TUX then None
                        else Some (Some r, place ob (Some R_INVENTORY) s)))"
| "typed_rule TC_GO r arg s =
     (if same_word ''allerton'' arg
      then if (r = R_WILLARD \<or> r = R_CAR_SITE) \<and> tasks s ! FLAG_CAR_FIXED \<and> loc s O_GPS_GOOD = Some R_INVENTORY
           then Some (Some R_ALLERTON, s) else None
      else if same_word ''willard'' arg \<or> same_word ''airport'' arg
      then if (r = R_ALLERTON \<or> r = R_CAR_SITE) \<and> tasks s ! FLAG_CAR_FIXED then Some (Some R_WILLARD, s) else None
      else if same_word ''campus'' arg \<and> (r = R_ALLERTON \<or> r = R_WILLARD) then Some (Some R_CAR_SITE, s) else None)"
| "typed_rule TC_INSTALL r arg s =
     (if same_word ''battery'' arg
      then if r = R_CAR_SITE \<and> near_by s O_BATT_FULL r \<and> \<not> near_by s O_BATT_EMPTY r
           then Some (Some r, finish FLAG_CAR_FIXED (place O_BATT_FULL None s)) else None
      else if (same_word ''mimo'' arg \<or> same_word ''card'' arg \<or> same_word ''transmitter'' arg) \<and> r = R_COCKPIT \<and>
         near_by s O_MIMO_CARD r
      then Some (Some r, (place O_MIMO_CARD None s)\<lparr>cockpit_door := Some R_OVER_WILL\<rparr>) else None)"
| "typed_rule TC_INVENTORY r arg s =
     (if r = R_INVENTORY then Some (way_back s, s) else Some (Some R_INVENTORY, s\<lparr>way_back := Some r\<rparr>))"
| "typed_rule TC_SIGH r arg s = (if r = R_BY_ZAS then Some (Some r, finish FLAG_HAS_EATEN s) else None)"
| "typed_rule TC_USE r arg s =
     (if same_word ''car'' arg
      then if r = R_CAR_SITE \<and> \<not> tasks s ! FLAG_CAR_FIXED \<and> \<not> tasks s ! FLAG_CAR_OPEN \<and> loc s O_CAR_KEY = Some R_INVENTORY
           then Some (Some r, finish FLAG_CAR_OPEN (place O_BATT_CAR (Some r) (place O_CAR_KEY None s))) else None
      else if same_word ''fish'' arg \<and> r = R_REM_LAB \<and> near_by s O_FISH r
      then Some (Some r, finish FLAG_LURED_TUX (place O_TUX (Some R_INVENTORY) (place O_FISH None s))) else None)"
| "typed_rule TC_WEAR r arg s =
     (if same_word ''bunnysuit'' arg \<and> near_by s O_BUNNYSUIT r
      then Some (Some r, finish FLAG_WEARING_SUIT (place O_BUNNYSUIT None s)) else None)"

fun rule :: "action \<Rightarrow> nat \<Rightarrow> summary \<Rightarrow> (nat option \<times> summary) option" where
  "rule Move_Left r s = map_option (\<lambda>d. (Some d, s)) (left_of r)"
| "rule Move_Right r s = map_option (\<lambda>d. (Some d, s)) (right_of r)"
| "rule Enter r s = map_option (\<lambda>d. (Some d, s)) (enter_rule r s)"
| "rule (Typed c arg) r s = typed_rule c r arg s"

fun play_rules :: "action list \<Rightarrow> nat \<Rightarrow> summary \<Rightarrow> nat option" where
  "play_rules [] r s = Some r"
| "play_rules (a # as) r s =
     (case rule a r s of None \<Rightarrow> Some r | Some (None, s) \<Rightarrow> None | Some (Some r, s) \<Rightarrow> play_rules as r s)"

subsection \<open>The commands carry out the rules\<close>

lemma summarizes_facts:
  assumes "summarizes s w"
  shows "ob < N_OBJECTS \<Longrightarrow> obj_loc (object w ob) = loc s ob" "ob < N_OBJECTS \<Longrightarrow> obj_name (object w ob) = Some (object_name ob)"
    "f < NUM_FLAGS \<Longrightarrow> player_flag_is_set f w = tasks s ! f" "room_left (room w r) = left_of r" "room_right (room w r) = right_of r"
    "room_enter (room w r) = (if r = R_INVENTORY then way_back s else if r = R_COCKPIT then cockpit_door s else enter_of r)"
    "standing_in r w = stands r s"
  using assms by (simp_all add: summarizes_def standing_in_def stands_def)

named_theorems sum_rules \<open>operations on summarized worlds\<close>

lemma sum_status [sum_rules]: "summarizes s w \<Longrightarrow> summarizes s (show_status m w)"
  by (simp add: summarizes_def)

lemma sum_swap [sum_rules]: "summarizes s w \<Longrightarrow> summarizes s (do_photo_swap r k w)"
  by (simp add: summarizes_def)

lemma sum_rands [sum_rules]: "summarizes s w \<Longrightarrow> summarizes s (w\<lparr>rands := f\<rparr>)"
  by (simp add: summarizes_def)

lemma sum_flag [sum_rules]: "f < NUM_FLAGS \<Longrightarrow> summarizes s w \<Longrightarrow> summarizes (finish f s) (player_set_flag f w)"
  by (simp add: summarizes_def nth_list_update)

lemma sum_remove [sum_rules]: "ob < N_OBJECTS \<Longrightarrow> summarizes s w \<Longrightarrow> summarizes (place ob None s) (remove_object ob w)"
  unfolding summarizes_def using lists_remove by (auto simp: nth_list_update)

lemma sum_inserted:
  assumes ins: "inserted ob r w w'" and "ob < N_OBJECTS" and "summarizes s w"
  shows "summarizes (place ob (Some r) s) w'"
proof -
  have "\<exists>L. lists w' L" using assms(3) lists_inserted [OF ins _ assms(2)] unfolding summarizes_def by blast
  moreover have "player_flag_is_set f w' = player_flag_is_set f w" for f by (rule flag_cong) (simp add: inserted_fields [OF ins])
  ultimately show ?thesis using assms(2,3) by (simp add: summarizes_def inserted_fields [OF ins] nth_list_update)
qed

lemmas sum_move [sum_rules] = sum_inserted [OF inserted_move]
lemmas sum_insert [sum_rules] = sum_inserted [OF inserted_insert]
lemmas sum_insert_at [sum_rules] = sum_inserted [OF inserted_at]

lemma sum_way_back [sum_rules]:
  "summarizes s w \<Longrightarrow> summarizes (s\<lparr>way_back := Some r\<rparr>) (set_room R_INVENTORY ((room w R_INVENTORY)\<lparr>room_enter := Some r\<rparr>) w)"
  unfolding summarizes_def set_room_fields by simp

lemma sum_cockpit [sum_rules]:
  "summarizes s w \<Longrightarrow> summarizes (s\<lparr>cockpit_door := Some r\<rparr>) (set_room R_COCKPIT ((room w R_COCKPIT)\<lparr>room_enter := Some r\<rparr>) w)"
  unfolding summarizes_def set_room_fields by simp

lemma find_unique:
  assumes "summarizes s w" and "the_object r arg s = Some ob"
  shows "find_in_room r arg w = Some ob" and "ob < N_OBJECTS"
proof -
  let ?P = "\<lambda>ob. loc s ob = Some r \<and> same_word arg (object_name ob)"
  have f: "filter ?P [0..<N_OBJECTS] = [ob]"
    using assms(2) unfolding the_object_def by (auto split: list.splits)
  have "ob \<in> set (filter ?P [0..<N_OBJECTS])" unfolding f by simp
  then show ob: "ob < N_OBJECTS" by simp
  have uniq: "x = ob" if "x < N_OBJECTS" "?P x" for x
  proof -
    have "x \<in> set (filter ?P [0..<N_OBJECTS])" using that by simp
    then show ?thesis unfolding f by simp
  qed
  obtain L where L: "lists w L" using assms(1) by (auto simp: summarizes_def)
  have mem: "x \<in> set (contents_list w r) \<longleftrightarrow> x < N_OBJECTS \<and> loc s x = Some r" for x
  proof -
    have "x < N_OBJECTS" if "obj_loc (object w x) = Some r" using L that by (auto simp: lists_def not_less [symmetric])
    then show ?thesis using lists_member [OF L] summarizes_facts(1) [OF assms(1)] by metis
  qed
  have "ob \<in> set (contents_list w r)" "?P ob"
    using \<open>ob \<in> set (filter ?P [0..<N_OBJECTS])\<close> mem by simp_all
  moreover have "same_word arg (the (obj_name (object w x))) \<longleftrightarrow> same_word arg (object_name x)" if "x < N_OBJECTS" for x
    using summarizes_facts(2) [OF assms(1) that] by simp
  ultimately have "find (\<lambda>x. same_word arg (the (obj_name (object w x)))) (contents_list w r) \<noteq> None"
    unfolding find_None_iff using ob by blast
  then obtain x where x: "find_in_room r arg w = Some x" by (auto simp: find_in_room_def)
  have "x < N_OBJECTS" "obj_loc (object w x) = Some r" using found_object [OF L x] by simp_all
  moreover have "same_word arg (the (obj_name (object w x)))"
    using x unfolding find_in_room_def find_Some_iff by blast
  ultimately have "?P x" using summarizes_facts(1,2) [OF assms(1)] by simp
  then show "find_in_room r arg w = Some ob" using uniq x \<open>x < N_OBJECTS\<close> by blast
qed

text \<open>An action that ends in room \<open>d\<close> with a world of the summary.\<close>

definition achieves :: "outcome \<Rightarrow> nat option \<times> summary \<Rightarrow> bool" where
  "achieves x g \<longleftrightarrow> fst (snd x) = fst g \<and> summarizes (snd g) (snd (snd x))"

lemma achieves_simps [simp]:
  "achieves (t, d, w) (d', s) \<longleftrightarrow> d = d' \<and> summarizes s w"
  "summarizes s w \<Longrightarrow> achieves (tell t r m w) (Some r, s)"
  by (simp_all add: achieves_def tell_def sum_rules)

lemma enter_room_achieves: "summarizes s w \<Longrightarrow> achieves (enter_room d w) (Some d, s)"
  by (simp add: enter_room_def rand_def sum_rules)


lemma enter_rule_sound:
  assumes "summarizes s w" and "enter_rule r s = Some d"
  shows "achieves (try_to_enter r w) (Some d, s)"
proof (cases "room_enter (room w r)")
  case (Some e)
  then have "d = e" using assms(2) summarizes_facts(6) [OF assms(1), of r] by simp
  then show ?thesis using enter_room_achieves [OF assms(1)] by (simp add: try_to_enter_def Some)
next
  case None
  then show ?thesis using assms summarizes_facts(6) [OF assms(1), of r]
    by (simp add: try_to_enter_def summarizes_facts(1,3) [OF assms(1)] del: summarizes_facts(6) split: if_split_asm)
qed

lemma buy_sound:
  assumes s: "summarizes s w" and "typed_rule TC_BUY r arg s = Some g"
  shows "achieves (typed_cmd_buy r arg w) g"
proof -
  have 1: "summarizes (place O_MTN_DEW (Some R_INVENTORY) s)
      (move_object_to_inventory O_MTN_DEW (show_status m w))" for m
    by (intro sum_rules s) simp_all
  have 2: "summarizes (finish FLAG_HAS_EATEN s) (player_set_flag FLAG_HAS_EATEN w)"
    by (intro sum_rules s) simp_all
  show ?thesis using assms(2) 1 2
    by (auto simp: typed_cmd_buy_def summarizes_facts [OF s] s tell_def achieves_def sum_status Let_def split: if_split_asm)
qed

lemma charge_sound:
  assumes s: "summarizes s w" and "typed_rule TC_CHARGE r arg s = Some g"
  shows "achieves (typed_cmd_charge r arg w) g"
proof -
  have 1: "summarizes (place O_BATT_FULL (Some R_INVENTORY) (place O_BATT_EMPTY None s))
      (move_object_to_inventory O_BATT_FULL (remove_object O_BATT_EMPTY w))"
    by (intro sum_rules s) simp_all
  show ?thesis using assms(2) 1
    by (auto simp: typed_cmd_charge_def summarizes_facts [OF s] s tell_def achieves_def sum_status Let_def split: if_split_asm)
qed

lemma do_sound:
  assumes s: "summarizes s w" and "typed_rule TC_DO r arg s = Some g"
  shows "achieves (typed_cmd_do r arg w) g"
proof -
  show ?thesis using assms(2)
    by (auto simp: typed_cmd_do_def summarizes_facts [OF s] s tell_def achieves_def sum_status Let_def split: if_split_asm)
qed

lemma drink_sound:
  assumes s: "summarizes s w" and "typed_rule TC_DRINK r arg s = Some g"
  shows "achieves (typed_cmd_drink r arg w) g"
proof -
  have 1: "summarizes (place O_MTN_DEW None s) (remove_object O_MTN_DEW w)"
    by (intro sum_rules s) simp_all
  show ?thesis using assms(2) 1
    by (auto simp: typed_cmd_drink_def summarizes_facts [OF s] s tell_def achieves_def sum_status Let_def split: if_split_asm)
qed

lemma fix_sound:
  assumes s: "summarizes s w" and "typed_rule TC_FIX r arg s = Some g"
  shows "achieves (typed_cmd_fix r arg w) g"
proof -
  have 1: "summarizes (place O_GPS_GOOD (Some R_INVENTORY) (place O_GPS_SPEC None (place O_GPS_BAD None s)))
      (move_object_to_inventory O_GPS_GOOD (remove_object O_GPS_SPEC (remove_object O_GPS_BAD w)))"
    by (intro sum_rules s) simp_all
  show ?thesis using assms(2) 1
    by (auto simp: typed_cmd_fix_def summarizes_facts [OF s] s tell_def achieves_def sum_status Let_def split: if_split_asm)
qed

lemma flash_sound:
  assumes s: "summarizes s w" and "typed_rule TC_FLASH r arg s = Some g"
  shows "achieves (typed_cmd_flash r arg w) g"
proof -
  have 1: "summarizes (place O_ROBOT_LIVE (Some R_INVENTORY) (place O_ROBOT_DEAD None s))
      (move_object_to_inventory O_ROBOT_LIVE (remove_object O_ROBOT_DEAD w))"
    by (intro sum_rules s) simp_all
  show ?thesis using assms(2) 1
    by (auto simp: typed_cmd_flash_def summarizes_facts [OF s] s tell_def achieves_def sum_status Let_def split: if_split_asm)
qed

lemma go_sound:
  assumes s: "summarizes s w" and "typed_rule TC_GO r arg s = Some g"
  shows "achieves (typed_cmd_go r arg w) g"
proof -
  note d = typed_cmd_go_def summarizes_facts [OF s] s
  consider "same_word ''allerton'' arg" | "\<not> same_word ''allerton'' arg" "same_word ''willard'' arg \<or> same_word ''airport'' arg"
    | "\<not> same_word ''allerton'' arg" "\<not> (same_word ''willard'' arg \<or> same_word ''airport'' arg)" by blast
  then show ?thesis
  proof cases
    case 1
    then show ?thesis using assms(2) by (simp add: d split: if_split_asm) (elim disjE; auto simp: s)
  next
    case 2
    then show ?thesis using assms(2) by (simp add: d del: de_Morgan_disj split: if_split_asm) (elim disjE; auto simp: s)
  next
    case 3
    then show ?thesis using assms(2) by (simp add: d split: if_split_asm) (elim disjE; auto simp: s)
  qed
qed

lemma install_sound:
  assumes s: "summarizes s w" and "typed_rule TC_INSTALL r arg s = Some g"
  shows "achieves (typed_cmd_install r arg w) g"
proof -
  have 1: "summarizes (finish FLAG_CAR_FIXED (place O_BATT_FULL None s)) (do_photo_swap r SWAP_CAR
      (player_set_flag FLAG_CAR_FIXED (remove_object O_BATT_FULL w)))"
    by (intro sum_rules s) simp_all
  have 2: "summarizes ((place O_MIMO_CARD None s)\<lparr>cockpit_door := Some R_OVER_WILL\<rparr>) (set_room R_COCKPIT ((room (remove_object O_MIMO_CARD w) R_COCKPIT)\<lparr>room_enter := Some R_OVER_WILL\<rparr>) (remove_object O_MIMO_CARD w))"
    by (intro sum_rules s) simp_all
  show ?thesis
  proof (cases "same_word ''battery'' arg")
    case True
    then show ?thesis using assms(2) 1
      by (auto simp: typed_cmd_install_def summarizes_facts [OF s] tell_def achieves_def sum_status split: if_split_asm)
  next
    case False
    then have "r = R_COCKPIT" "near_by s O_MIMO_CARD r" "same_word ''mimo'' arg \<or> same_word ''card'' arg \<or> same_word ''transmitter'' arg"
      "g = (Some r, (place O_MIMO_CARD None s)\<lparr>cockpit_door := Some R_OVER_WILL\<rparr>)"
      using assms(2) by (simp_all split: if_split_asm)
    then show ?thesis using False sum_status [OF 2]
      by (auto simp: typed_cmd_install_def summarizes_facts(1) [OF s] tell_def achieves_def Let_def simp del: remove_object_fields)
  qed
qed

lemma inventory_sound:
  assumes s: "summarizes s w" and "typed_rule TC_INVENTORY r arg s = Some g"
  shows "achieves (typed_cmd_inventory r arg w) g"
proof -
  have 1: "summarizes (s\<lparr>way_back := Some r\<rparr>) (set_room R_INVENTORY ((room w R_INVENTORY)\<lparr>room_enter := Some r\<rparr>) w)"
    by (rule sum_way_back [OF s])
  show ?thesis using assms(2) 1
    by (auto simp: typed_cmd_inventory_def summarizes_facts [OF s] s tell_def achieves_def sum_status Let_def split: if_split_asm)
qed

lemma sigh_sound:
  assumes s: "summarizes s w" and "typed_rule TC_SIGH r arg s = Some g"
  shows "achieves (typed_cmd_sigh r arg w) g"
proof -
  have 1: "summarizes (finish FLAG_HAS_EATEN s) (player_set_flag FLAG_HAS_EATEN (show_status m w))" for m
    by (intro sum_rules s) simp_all
  show ?thesis using assms(2) 1
    by (auto simp: typed_cmd_sigh_def summarizes_facts [OF s] s tell_def achieves_def sum_status Let_def split: if_split_asm)
qed

lemma use_sound:
  assumes s: "summarizes s w" and "typed_rule TC_USE r arg s = Some g"
  shows "achieves (typed_cmd_use r arg w) g"
proof -
  have 1: "summarizes (finish FLAG_CAR_OPEN (place O_BATT_CAR (Some r) (place O_CAR_KEY None s)))
      (player_set_flag FLAG_CAR_OPEN (insert_object_at O_BATT_CAR r 265 122 (remove_object O_CAR_KEY (do_photo_swap r SWAP_CAR w))))"
    by (intro sum_rules s) simp_all
  have 2: "summarizes (finish FLAG_LURED_TUX (place O_TUX (Some R_INVENTORY) (place O_FISH None s)))
      (player_set_flag FLAG_LURED_TUX
      (move_object_to_inventory O_TUX (remove_object O_FISH w)))"
    by (intro sum_rules s) simp_all
  show ?thesis
  proof (cases "same_word ''car'' arg")
    case True
    then show ?thesis using assms(2) 1
      by (auto simp: typed_cmd_use_def summarizes_facts [OF s] tell_def achieves_def sum_status split: if_split_asm)
  next
    case False
    then show ?thesis using assms(2) 2
      by (auto simp: typed_cmd_use_def summarizes_facts [OF s] tell_def achieves_def sum_status split: if_split_asm)
  qed
qed

lemma wear_sound:
  assumes s: "summarizes s w" and "typed_rule TC_WEAR r arg s = Some g"
  shows "achieves (typed_cmd_wear r arg w) g"
proof -
  have 1: "summarizes (finish FLAG_WEARING_SUIT (place O_BUNNYSUIT None s))
      (player_set_flag FLAG_WEARING_SUIT (remove_object O_BUNNYSUIT w))"
    by (intro sum_rules s) simp_all
  show ?thesis using assms(2) 1
    by (auto simp: typed_cmd_wear_def summarizes_facts [OF s] s tell_def achieves_def sum_status Let_def split: if_split_asm)
qed


lemma drop_sound:
  assumes s: "summarizes s w" and "typed_rule TC_DROP r arg s = Some g"
  shows "achieves (typed_cmd_drop r arg w) g"
proof -
  obtain ob where ob: "the_object R_INVENTORY arg s = Some ob" "g = (Some r, place ob (Some (stands r s)) s)"
    using assms(2) by (auto split: option.splits)
  have "summarizes (place ob (Some q) s) (insert_object ob q w)" "summarizes (place ob (Some q) s) (insert_object ob q (show_status m w))" for q m
    using find_unique(2) [OF s ob(1)] s by (intro sum_rules; simp)+
  then show ?thesis using find_unique(1) [OF s ob(1)] ob(2)
    by (simp add: typed_cmd_drop_def achieves_def summarizes_facts(7) [OF s])
qed

lemma get_sound:
  assumes s: "summarizes s w" and "typed_rule TC_GET r arg s = Some g"
  shows "achieves (typed_cmd_get r arg w) g"
proof -
  note f = summarizes_facts [OF s]
  have m: "summarizes (place ob (Some R_INVENTORY) s) (move_object_to_inventory ob (show_status m w))"
    "summarizes (place ob (Some R_INVENTORY) s) (move_object_to_inventory ob w)" if "ob < N_OBJECTS" for ob m
    using that s by (intro sum_rules; simp)+
  have b: "summarizes (place O_BATT_EMPTY (Some R_INVENTORY) (place O_BATT_CAR None s))
      (move_object_to_inventory O_BATT_EMPTY (remove_object O_BATT_CAR w))"
    by (intro sum_rules s) simp_all
  let ?q = "stands r s"
  consider (c) "?q = R_RESERVE" "same_word ''book'' arg" "tasks s ! FLAG_HAS_EATEN" "loc s O_BOOK_C = None"
    | (wode) "?q = R_RESERVE" "same_word ''book'' arg" "\<not> tasks s ! FLAG_HAS_EATEN" "loc s O_BOOK_WODE = None"
    | (battery) "?q = R_CAR_SITE" "loc s O_BATT_CAR = Some ?q"
    | (ob) ob where "obj_special_get ?q arg w = (None, w)" "the_object ?q arg s = Some ob" "ob = O_TUX \<longrightarrow> tasks s ! FLAG_LURED_TUX"
        "g = (Some r, place ob (Some R_INVENTORY) s)"
    using assms(2) by (auto simp: obj_special_get_def f Let_def split: if_split_asm option.splits)
  then show ?thesis
  proof cases
    case c
    then show ?thesis using assms(2) m by (auto simp: typed_cmd_get_def obj_special_get_def f achieves_def)
  next
    case wode
    then show ?thesis using assms(2) m by (auto simp: typed_cmd_get_def obj_special_get_def f achieves_def)
  next
    case battery
    then show ?thesis using assms(2) b by (auto simp: typed_cmd_get_def obj_special_get_def f achieves_def)
  next
    case ob
    then show ?thesis using m find_unique [OF s ob(2)] by (auto simp: typed_cmd_get_def f achieves_def)
  qed
qed

lemma rule_sound:
  assumes s: "summarizes s w" and "rule a r s = Some g"
  shows "achieves (perform a r w) g"
proof (cases a)
  case (Typed c arg)
  have g: "typed_rule c r arg s = Some g" using assms(2) by (simp add: Typed)
  show ?thesis unfolding Typed perform.simps using s g
    by (cases c; simp only: typed_command.simps buy_sound charge_sound do_sound drink_sound drop_sound fix_sound flash_sound
      get_sound go_sound install_sound inventory_sound sigh_sound use_sound wear_sound)
next
  case Enter
  then show ?thesis using assms(2) enter_rule_sound [OF s] by (auto simp del: enter_rule.simps)
qed (use assms(2) enter_room_achieves [OF s] summarizes_facts(4,5) [OF s] in
    \<open>auto simp: try_to_move_left_def try_to_move_right_def\<close>)

text \<open>The doors and the names without the other columns of the tables, for evaluation.\<close>

definition links :: "(nat \<times> nat option \<times> nat option \<times> nat option) list" where
  "links = map (\<lambda>(which, name, f, l). (which, l)) room_data"

lemma links_code [code]: "links = [
     (0, None, None, None), (1, None, Some 2, None), (2, Some 14, Some 1, Some 4), (3, None, Some 4, None),
     (4, Some 2, Some 3, Some 6), (5, None, Some 6, None), (6, Some 4, None, Some 7), (7, Some 6, Some 15, Some 9),
     (8, None, Some 9, None), (9, Some 7, None, Some 10), (10, Some 9, Some 16, None),
     (11, Some 15, Some 15, Some 13), (12, None, Some 13, None), (13, Some 11, Some 12, Some 14),
     (14, Some 13, None, None), (15, Some 11, Some 7, Some 16), (16, Some 15, Some 10, Some 19),
     (17, Some 19, None, Some 18), (18, Some 17, Some 24, Some 20), (19, Some 20, Some 16, Some 18),
     (20, Some 18, None, Some 19), (21, Some 22, Some 20, Some 25), (22, Some 30, Some 23, Some 21),
     (23, None, Some 22, Some 31), (24, Some 19, Some 26, Some 25), (25, Some 24, Some 26, Some 27),
     (26, None, Some 24, None), (27, Some 25, Some 28, Some 29), (28, None, Some 27, None),
     (29, Some 27, None, Some 30), (30, Some 29, Some 32, Some 31), (31, Some 30, Some 23, Some 25),
     (32, Some 30, Some 30, Some 33), (33, Some 34, None, Some 32), (34, Some 33, Some 36, Some 40),
     (35, Some 34, Some 36, Some 46), (36, Some 37, Some 35, Some 38), (37, None, None, Some 36),
     (38, Some 36, Some 39, None), (39, None, Some 38, None), (40, Some 45, Some 41, Some 34),
     (41, Some 45, None, Some 34), (42, Some 43, Some 41, None), (43, None, Some 44, Some 42),
     (44, None, Some 43, None), (45, Some 46, Some 50, Some 40), (46, Some 35, Some 47, Some 45),
     (47, Some 35, None, Some 45), (48, None, Some 49, Some 47), (49, None, Some 48, None),
     (50, Some 45, Some 51, None), (51, None, Some 50, None), (52, Some 53, None, Some 55),
     (53, None, Some 54, Some 52), (54, None, Some 53, None), (55, Some 52, None, None), (56, None, Some 57, None),
     (57, Some 58, None, Some 56), (58, Some 59, None, Some 57), (59, None, None, Some 58),
     (60, None, Some 59, Some 61), (61, Some 60, None, Some 62), (62, Some 61, Some 63, None),
     (63, None, Some 62, None)]"
  by (simp add: links_def room_data_def)

lemma room_row_links:
  "find (\<lambda>row. fst row = r) (map (\<lambda>(which, name, f, l). (which, l)) rows) =
   map_option (\<lambda>(which, name, f, l). (which, l)) (find (\<lambda>row. fst row = r) rows)"
  by (induction rows) auto

lemma doors_code [code]:
  "left_of r = (case find (\<lambda>row. fst row = r) links of None \<Rightarrow> None | Some (which, l, e, rr) \<Rightarrow> l)"
  "enter_of r = (case find (\<lambda>row. fst row = r) links of None \<Rightarrow> None | Some (which, l, e, rr) \<Rightarrow> e)"
  "right_of r = (case find (\<lambda>row. fst row = r) links of None \<Rightarrow> None | Some (which, l, e, rr) \<Rightarrow> rr)"
  by (auto simp: left_of_def enter_of_def right_of_def room_row_def links_def room_row_links split: option.split)

lemma object_names_code [code]: "object_names = [''board'', ''jetpack'', ''tux'', ''mp2'', ''book'', ''book'', ''gps'', ''gps'', ''spec'', ''bunnysuit'', ''battery'', ''battery'', ''battery'', ''dew'', ''fish'', ''Icard'', ''key'', ''robot'', ''robot'', ''mimo'']"
  by (simp add: object_names_def obj_data_def)


subsection \<open>Playing\<close>

text \<open>Actions one after the other, until the game is won.\<close>

fun play :: "action list \<Rightarrow> nat \<Rightarrow> world \<Rightarrow> nat option \<times> world" where
  "play [] r w = (Some r, w)"
| "play (a # as) r w = (case perform a r w of (t, None, w) \<Rightarrow> (None, w) | (t, Some r, w) \<Rightarrow> play as r w)"

text \<open>A way through the game.\<close>

definition walkthrough :: "action list" where
  "walkthrough = [
     Move_Left, Typed TC_WEAR ''bunnysuit'', Move_Right, Enter, Typed TC_BUY ''yogurt'', Enter, Move_Left,
     Move_Left, Move_Right, Move_Right, Move_Right, Enter, Enter, Typed TC_GET ''gps'', Enter, Move_Right,
     Move_Right, Enter, Typed TC_GET ''key'', Enter, Move_Right, Move_Right, Move_Right, Enter,
     Typed TC_GET ''book'', Enter, Move_Right, Typed TC_GET ''Icard'', Enter, Typed TC_GET ''fish'', Move_Left,
     Enter, Move_Right, Move_Right, Move_Right, Move_Right, Enter, Move_Right, Move_Left, Enter, Move_Right,
     Enter, Typed TC_GET ''robot'', Enter, Move_Left, Enter, Move_Left, Move_Right, Enter, Enter, Move_Left,
     Typed TC_GET ''spec'', Enter, Typed TC_GET ''mp2'', Enter, Move_Right, Enter, Move_Right, Move_Left,
     Move_Right, Enter, Move_Right, Move_Right, Move_Left, Move_Left, Enter, Enter, Move_Left, Enter,
     Typed TC_FIX ''gps'', Enter, Move_Left, Move_Left, Enter, Typed TC_FLASH ''robot'', Enter, Move_Right,
     Enter, Move_Right, Move_Right, Move_Right, Enter, Move_Right, Move_Right, Move_Right, Move_Right, Enter,
     Move_Right, Move_Left, Move_Right, Move_Left, Enter, Enter, Typed TC_USE ''car'', Typed TC_GET ''battery'',
     Enter, Move_Left, Move_Left, Enter, Enter, Enter, Typed TC_CHARGE ''battery'', Enter, Move_Right,
     Move_Right, Enter, Enter, Typed TC_INSTALL ''battery'', Typed TC_GO ''allerton'', Move_Left, Enter,
     Typed TC_GET ''mimo'', Enter, Move_Right, Typed TC_GO ''willard'', Enter, Move_Left, Move_Left,
     Typed TC_INSTALL ''mimo'', Enter, Move_Right, Move_Right, Enter, Typed TC_USE ''fish'', Enter, Move_Left,
     Move_Left, Enter, Move_Right, Move_Right, Move_Right, Typed TC_GO ''campus'', Enter, Move_Left, Move_Right,
     Move_Right, Move_Left, Move_Right, Enter, Move_Right, Move_Right, Move_Left, Move_Left, Enter, Move_Left,
     Enter, Move_Left, Move_Left, Move_Left, Enter, Typed TC_DROP ''tux'', Typed TC_DO ''mp2'']"


definition first_summary :: summary where
  "first_summary = \<lparr>locs = map (\<lambda>row. fst (snd (snd (snd row)))) obj_data, tasks = replicate NUM_FLAGS False, way_back = None,
     cockpit_door = None\<rparr>"


lemma walkthrough_wins: "play_rules walkthrough R_EAST_EVRT first_summary = None"
  by code_simp

end
