(* ===== verification/Story.thy ===== *)
theory Story
  imports Rules
begin

text \<open>
  What can happen in a game of \<^verbatim>\<open>mp2\<close> that starts with the built world: when the world is built and when a
  file stops it, the state of the objects at any time, what the player must have done to win, and that the game can
  be won.
\<close>

subsection \<open>Games on worlds with the same summary\<close>

lemma play_sound:
  "summarizes s w \<Longrightarrow> play_rules as r s = None \<Longrightarrow> fst (play as r w) = None"
proof (induction as arbitrary: r s w)
  case (Cons a as)
  obtain d s' where g: "rule a r s = Some (d, s')" using Cons.prems(2) by (auto split: option.splits)
  obtain t e w' where p: "perform a r w = (t, e, w')" by (cases "perform a r w")
  have "e = d" "summarizes s' w'" using rule_sound [OF Cons.prems(1) g] by (simp_all add: p)
  then show ?case using Cons.prems(2) Cons.IH by (cases d) (simp_all add: g p)
qed simp

lemma same_game_sym: "same_game w w' \<Longrightarrow> same_game w' w"
  by (auto simp: same_game_def)

lemma same_game_trans:
  assumes "same_game u v" and "same_game v w"
  shows "same_game u w"
proof -
  obtain L M where L: "lists u L" "lists v L" and M: "lists v M" "lists w M" using assms by (auto simp: same_game_def)
  have "L = M" using contents_list_lists [OF L(2)] contents_list_lists [OF M(1)] by (simp add: fun_eq_iff)
  then show ?thesis using assms L M unfolding same_game_def by auto
qed

lemma sum_same:
  assumes "same_game w w'" and "summarizes s w"
  shows "summarizes s w'"
proof -
  have "\<exists>L. lists w' L" using assms(1) by (auto simp: same_game_def)
  then show ?thesis using assms(2) by (simp add: summarizes_def same_facts [OF assms(1)])
qed

lemma find_numbered:
  assumes "map fst rows = [0..<length rows]" and "k < length rows"
  shows "find (\<lambda>row. fst row = k) rows = Some (rows ! k)"
proof -
  have "fst (rows ! i) = i" if "i < length rows" for i
    using assms(1) that by (metis add_0 nth_map nth_upt)
  then have "k < length rows \<and> fst (rows ! k) = k \<and> (\<forall>j<k. fst (rows ! j) \<noteq> k)" using assms(2) by simp
  then show ?thesis unfolding find_Some_iff by blast
qed

lemma first_summarizes: "summarizes first_summary plain_world"
proof -
  have "obj_loc (object plain_world ob) = locs first_summary ! ob \<and> obj_name (object plain_world ob) = Some (object_name ob)"
    if "ob < N_OBJECTS" for ob
  proof -
    have "map fst obj_data = [0..<N_OBJECTS]" by (simp add: obj_data_def upt_conv_Cons)
    moreover have l: "length obj_data = N_OBJECTS" by (simp add: obj_data_def)
    ultimately have "find (\<lambda>row. fst row = ob) obj_data = Some (obj_data ! ob)"
      using that by (intro find_numbered) simp_all
    then show ?thesis using that l by (simp add: plain_locs first_summary_def object_name_def object_names_def)
  qed
  moreover have "length obj_data = N_OBJECTS" by (simp add: obj_data_def)
  moreover have "\<not> player_flag_is_set f plain_world" if "f < NUM_FLAGS" for f
    using that by (simp add: player_flag_is_set_def plain_flags)
  moreover have "enter_of R_INVENTORY = None" "enter_of R_COCKPIT = None"
    by (simp_all add: enter_of_def room_row_def room_data_def)
  ultimately show ?thesis
    using plain_lists by (simp add: summarizes_def first_summary_def plain_flags plain_doors left_of_def right_of_def enter_of_def)
qed

subsection \<open>When the world is built\<close>

text \<open>The files of the tables in the order they are read; \<open>True\<close> marks the photos.\<close>

definition world_files :: "(bool \<times> string) list" where
  "world_files = map (\<lambda>(which, name, f, doors). (True, f)) room_data @ map (\<lambda>(which, name, f, place). (False, f)) obj_data @
     map (\<lambda>(which, f). (True, f)) swap_data"

definition unreadable :: "platform \<Rightarrow> bool \<times> string \<Rightarrow> bool" where
  "unreadable P = (\<lambda>(photo, f). case pf_file P f of None \<Rightarrow> True
     | Some bytes \<Rightarrow> \<not> (if photo then complete_photo bytes else complete_image bytes))"

lemma load_photo_readable:
  assumes "pf_malloc P = (\<lambda>_. True)"
  shows "unreadable P (True, f) \<Longrightarrow> load_photo P f = Some None"
    and "\<not> unreadable P (True, f) \<Longrightarrow> \<exists>p. load_photo P f = Some (Some p)"
proof -
  have none: "pf_file P f = None \<Longrightarrow> load_photo P f = Some None" by (simp add: load_photo_def read_photo_def)
  have some: "case load_photo P f of None \<Rightarrow> False | Some None \<Rightarrow> \<not> complete_photo b | Some (Some p) \<Rightarrow> complete_photo b"
    if "pf_file P f = Some b" for b
    using read_photo_result [where qsort = "pf_qsort P" and pal = "pf_palette P" and junk = "pf_cell P" and bytes = b]
    by (auto simp: load_photo_def assms that split: option.splits)
  show "unreadable P (True, f) \<Longrightarrow> load_photo P f = Some None"
    using none some by (fastforce simp: unreadable_def split: option.splits)
  show "\<not> unreadable P (True, f) \<Longrightarrow> \<exists>p. load_photo P f = Some (Some p)"
    using some by (fastforce simp: unreadable_def split: option.splits)
qed

lemma read_image_readable:
  assumes "pf_malloc P = (\<lambda>_. True)" and "\<And>n. length (pf_bytes P n) = n"
  shows "unreadable P (False, f) \<longleftrightarrow> read_obj_image (pf_malloc P) (pf_bytes P) (pf_file P f) = None"
proof (cases "pf_file P f")
  case None
  then show ?thesis by (simp add: unreadable_def read_obj_image_def)
next
  case (Some b)
  then show ?thesis using read_obj_image_result [of "pf_bytes P" b, OF assms(2)]
    by (auto simp: unreadable_def assms(1) split: option.splits)
qed

text \<open>Loading a table: rows with distinct numbers, none of them taken.\<close>

lemma load_rows_outcome:
  fixes key :: "'a \<Rightarrow> nat" and taken :: "world \<Rightarrow> nat \<Rightarrow> bool"
  assumes step: "\<And>row w. row \<in> set rows \<Longrightarrow> \<not> taken w (key row) \<Longrightarrow> if bad (file_of row) then f row w = Failed (Cannot_Read (snd (file_of row)))
      else \<exists>w'. f row w = Built w' \<and> (\<forall>k. taken w' k \<longrightarrow> taken w k \<or> k = key row)"
    and "distinct (map key rows)" and "\<forall>row\<in>set rows. \<not> taken w (key row)"
  shows "case find bad (map file_of rows) of None \<Rightarrow> \<exists>v. load_rows f rows w = Built v
    | Some x \<Rightarrow> load_rows f rows w = Failed (Cannot_Read (snd x))"
  using assms
proof (induction rows arbitrary: w)
  case (Cons row rows)
  show ?case
  proof (cases "bad (file_of row)")
    case True
    then show ?thesis using Cons.prems(1) [of row w] Cons.prems(3) by simp
  next
    case False
    then obtain w' where w': "f row w = Built w'" "\<forall>k. taken w' k \<longrightarrow> taken w k \<or> k = key row"
      using Cons.prems(1) [of row w] Cons.prems(3) by auto
    have "key x \<noteq> key row" if "x \<in> set rows" for x using Cons.prems(2) that by (metis distinct.simps(2) image_eqI list.set_map list.simps(9))
    then have "\<forall>row\<in>set rows. \<not> taken w' (key row)" using w'(2) Cons.prems(3) by auto
    then have "case find bad (map file_of rows) of None \<Rightarrow> \<exists>v. load_rows f rows w' = Built v
        | Some x \<Rightarrow> load_rows f rows w' = Failed (Cannot_Read (snd x))"
      using Cons.prems(1,2) by (intro Cons.IH) (simp_all add: set_ConsD)
    then show ?thesis using w'(1) False by (auto split: option.splits)
  qed
qed simp

lemma find_append: "find p (xs @ ys) = (case find p xs of None \<Rightarrow> find p ys | Some x \<Rightarrow> Some x)"
  by (induction xs) simp_all

lemma build_world_result:
  assumes "pf_malloc P = (\<lambda>_. True)" and "\<And>n. length (pf_bytes P n) = n"
  shows "case find (unreadable P) world_files of None \<Rightarrow> \<exists>v. build_world P w = Built v
    | Some x \<Rightarrow> build_world P w = Failed (Cannot_Read (snd x))"
proof -
  note photo = load_photo_readable [OF assms(1)] and image = read_image_readable [OF assms]
  have R: "case find (unreadable P) (map (\<lambda>(which, name, f, doors). (True, f)) room_data) of
      None \<Rightarrow> \<exists>v. load_rows (load_room P) room_data (w\<lparr>player_flags := [0], room := \<lambda>_. zero_room\<rparr>) = Built v
    | Some x \<Rightarrow> load_rows (load_room P) room_data (w\<lparr>player_flags := [0], room := \<lambda>_. zero_room\<rparr>) = Failed (Cannot_Read (snd x))"
  proof (rule load_rows_outcome [where key = fst and taken = "\<lambda>w k. room_name (room w k) \<noteq> None", OF _ room_data_distinct])
    fix row and w :: world assume 1: "row \<in> set room_data" "\<not> room_name (room w (fst row)) \<noteq> None"
    have 2: "list_all (\<lambda>row. fst row < N_ROOMS) room_data" by (simp add: room_data_def)
    note row = 1 2 [unfolded list_all_iff]
    show "if unreadable P ((\<lambda>(which, name, f, doors). (True, f)) row)
        then load_room P row w = Failed (Cannot_Read (snd ((\<lambda>(which, name, f, doors). (True, f)) row)))
        else \<exists>w'. load_room P row w = Built w' \<and> (\<forall>k. room_name (room w' k) \<noteq> None \<longrightarrow> room_name (room w k) \<noteq> None \<or> k = fst row)"
    proof (cases "unreadable P (True, fst (snd (snd row)))")
      case False
      then obtain p where "load_photo P (fst (snd (snd row))) = Some (Some p)" using photo by blast
      then show ?thesis using row False by (auto simp: load_room_def list_all_iff split: prod.split)
    qed (use row photo in \<open>auto simp: load_room_def list_all_iff split: prod.split\<close>)
  qed (simp add: zero_room_def)
  have O: "case find (unreadable P) (map (\<lambda>(which, name, f, place). (False, f)) obj_data) of
      None \<Rightarrow> \<exists>v. load_rows (load_object P) obj_data (w1\<lparr>object := \<lambda>_. zero_object\<rparr>) = Built v
    | Some x \<Rightarrow> load_rows (load_object P) obj_data (w1\<lparr>object := \<lambda>_. zero_object\<rparr>) = Failed (Cannot_Read (snd x))" for w1
  proof (rule load_rows_outcome [where key = fst and taken = "\<lambda>w k. obj_name (object w k) \<noteq> None", OF _ obj_data_distinct])
    fix row and w :: world assume "row \<in> set obj_data" "\<not> obj_name (object w (fst row)) \<noteq> None"
    then show "if unreadable P ((\<lambda>(which, name, f, place). (False, f)) row)
        then load_object P row w = Failed (Cannot_Read (snd ((\<lambda>(which, name, f, place). (False, f)) row)))
        else \<exists>w'. load_object P row w = Built w' \<and> (\<forall>k. obj_name (object w' k) \<noteq> None \<longrightarrow> obj_name (object w k) \<noteq> None \<or> k = fst row)"
      using image obj_data_less by (auto simp: load_object_def Let_def split: prod.split option.split)
  qed (simp add: zero_object_def)
  have S: "case find (unreadable P) (map (\<lambda>(which, f). (True, f)) swap_data) of
      None \<Rightarrow> \<exists>v. load_rows (load_swap P) swap_data (w2\<lparr>swap_photo := \<lambda>_. None\<rparr>) = Built v
    | Some x \<Rightarrow> load_rows (load_swap P) swap_data (w2\<lparr>swap_photo := \<lambda>_. None\<rparr>) = Failed (Cannot_Read (snd x))" for w2
  proof (rule load_rows_outcome [where key = fst and taken = "\<lambda>w k. swap_photo w k \<noteq> None"])
    fix row and w :: world assume 1: "row \<in> set swap_data" "\<not> swap_photo w (fst row) \<noteq> None"
    have 2: "list_all (\<lambda>row. fst row < N_SWAPS) swap_data" by (simp add: swap_data_def)
    note row = 1 2 [unfolded list_all_iff]
    show "if unreadable P ((\<lambda>(which, f). (True, f)) row)
        then load_swap P row w = Failed (Cannot_Read (snd ((\<lambda>(which, f). (True, f)) row)))
        else \<exists>w'. load_swap P row w = Built w' \<and> (\<forall>k. swap_photo w' k \<noteq> None \<longrightarrow> swap_photo w k \<noteq> None \<or> k = fst row)"
    proof (cases "unreadable P (True, snd row)")
      case False
      then obtain p where "load_photo P (snd row) = Some (Some p)" using photo by blast
      then show ?thesis using row False by (auto simp: load_swap_def list_all_iff split: prod.split)
    qed (use row photo in \<open>auto simp: load_swap_def list_all_iff split: prod.split\<close>)
  qed (simp_all add: swap_data_def)
  show ?thesis
  proof (cases "find (unreadable P) (map (\<lambda>(which, name, f, doors). (True, f)) room_data)")
    case None
    then obtain v1 where v1: "load_rows (load_room P) room_data (w\<lparr>player_flags := [0], room := \<lambda>_. zero_room\<rparr>) = Built v1"
      using R by auto
    show ?thesis
    proof (cases "find (unreadable P) (map (\<lambda>(which, name, f, place). (False, f)) obj_data)")
      case None': None
      then obtain v2 where "load_rows (load_object P) obj_data (v1\<lparr>object := \<lambda>_. zero_object\<rparr>) = Built v2"
        using O [of v1] by auto
      then show ?thesis using S [of v2] unfolding world_files_def find_append build_world_def None None' v1 by (auto split: option.splits)
    next
      case (Some x)
      then show ?thesis using O [of v1] unfolding world_files_def find_append build_world_def None v1 by simp
    qed
  next
    case (Some x)
    then show ?thesis using R unfolding world_files_def find_append build_world_def by simp
  qed
qed

text \<open>C34: Given memory, \<^verbatim>\<open>build_world\<close> makes the world exactly if every file of its tables is there, complete and
  within the limits; otherwise it reports the first file that is not.\<close>

theorem build_world_outcome:
  assumes "pf_malloc P = (\<lambda>_. True)" and "\<And>n. length (pf_bytes P n) = n"
  shows "case find (unreadable P) world_files of None \<Rightarrow> \<exists>v. build_world P w = Built v
    | Some x \<Rightarrow> build_world P w = Failed (Cannot_Read (snd x))"
  by (rule build_world_result [OF assms])

text \<open>A platform with enough memory where every file holds the photo of three pixels.\<close>

definition tiny_platform :: platform where
  "tiny_platform = \<lparr>pf_malloc = \<lambda>_. True, pf_qsort = sort_cells, pf_palette = replicate 192 (0, 0, 0), pf_cell = cell_4 0,
     pf_bytes = \<lambda>n. replicate n 0, pf_file = \<lambda>_. Some tiny\<rparr>"

lemma tiny_readable: "find (unreadable tiny_platform) world_files = None"
proof -
  have "complete_photo tiny" "complete_image tiny"
    by (simp_all add: complete_photo_def complete_image_def tiny_header) (simp_all add: tiny_def)
  then have "\<not> unreadable tiny_platform x" for x by (cases x) (simp add: unreadable_def tiny_platform_def)
  then show ?thesis unfolding find_None_iff by blast
qed

lemma tiny_builds:
  obtains v where "build_world tiny_platform w = Built v"
  using build_world_result [of tiny_platform w] tiny_readable by (auto simp: tiny_platform_def)

theorem build_world_outcome_witness: "\<exists>v. build_world tiny_platform plain_world = Built v"
  using build_world_outcome [of tiny_platform plain_world] tiny_readable by (simp add: tiny_platform_def)

subsection \<open>Winning\<close>

text \<open>C13: The game can be won: whatever the pictures, the positions and the random numbers are, the walk through
  the game ends it on every world that \<^verbatim>\<open>build_world\<close> makes.\<close>

theorem game_can_be_won:
  assumes "build_world P w = Built w0"
  shows "fst (play walkthrough start_in_room w0) = None"
proof -
  have "summarizes first_summary w0"
    using sum_same first_summarizes build_world_same [OF assms] same_game_sym by blast
  then show ?thesis using play_sound walkthrough_wins by (simp add: start_in_room_def)
qed

theorem game_can_be_won_witness:
  "\<exists>v. build_world tiny_platform plain_world = Built v \<and> fst (play walkthrough start_in_room v) = None"
proof -
  obtain v where v: "build_world tiny_platform plain_world = Built v" by (rule tiny_builds)
  then show ?thesis using game_can_be_won [OF v] by blast
qed

lemma play_reaches:
  "reachable w0 r w \<Longrightarrow> fst (play as r w) = None \<Longrightarrow> \<exists>r' v a t v'. reachable w0 r' v \<and> perform a r' v = (t, None, v')"
proof (induction as arbitrary: r w)
  case (Cons a as)
  obtain t d v where p: "perform a r w = (t, d, v)" by (cases "perform a r w")
  show ?case
  proof (cases d)
    case None
    then show ?thesis using Cons.prems(1) p by blast
  next
    case (Some r')
    then show ?thesis using Cons.IH [of r' v] Cons.prems p reachable.act [OF Cons.prems(1), of a t r' v] by simp
  qed
qed simp

text \<open>C12: The game is won only by doing the machine problem in the 391 laboratory with the C book and the program in
  the inventory and the penguin in the laboratory, and then the player has eaten, wears the bunny suit, has opened
  and repaired the car and has lured the penguin.\<close>

theorem game_won_only_with_all_tasks:
  assumes "build_world P w = Built w0" and "reachable w0 r v" and "perform a r v = (t, None, v')"
  shows "(\<exists>arg. a = Typed TC_DO arg) \<and> r = R_IN_391LAB \<and> has v O_BOOK_C \<and> has v O_MP2 \<and> at v O_TUX R_IN_391LAB \<and>
    player_flag_is_set FLAG_HAS_EATEN v \<and> player_flag_is_set FLAG_WEARING_SUIT v \<and> player_flag_is_set FLAG_CAR_OPEN v \<and>
    player_flag_is_set FLAG_CAR_FIXED v \<and> player_flag_is_set FLAG_LURED_TUX v"
proof -
  have "world_ok w0" using world_ok_same [OF build_world_same [OF assms(1)]] plain_world_ok by blast
  then have ok: "world_ok v" "place_ok r v" using reachable_ok [OF assms(2)] by blast+
  then show ?thesis using perform_leaves [OF assms(3) ok(2)] by (auto simp: world_ok_def tasks_ok_def)
qed

theorem game_won_only_with_all_tasks_witness:
  "\<exists>v r u a t u'. build_world tiny_platform plain_world = Built v \<and> reachable v r u \<and> perform a r u = (t, None, u') \<and>
     at u O_TUX R_IN_391LAB \<and> player_flag_is_set FLAG_LURED_TUX u"
proof -
  obtain v where v: "build_world tiny_platform plain_world = Built v" by (rule tiny_builds)
  have "summarizes first_summary v" using sum_same first_summarizes build_world_same [OF v] same_game_sym by blast
  then have "fst (play walkthrough R_EAST_EVRT v) = None" using play_sound walkthrough_wins by blast
  then obtain r u a t u' where p: "reachable v r u" "perform a r u = (t, None, u')"
    using play_reaches [OF reachable.start [of v], of walkthrough] by (auto simp: start_in_room_def)
  then show ?thesis using v game_won_only_with_all_tasks [OF v p] by blast
qed

text \<open>C24: The commands carry out the rules of the game: where a rule applies to the summary of a world, the action leads
  to the room the rule says and to a world with the summary it gives.\<close>

theorem rules_refined:
  assumes "summarizes s w" and "rule a r s = Some (d, s')"
  shows "case perform a r w of (t, e, w') \<Rightarrow> e = d \<and> summarizes s' w'"
  using rule_sound [OF assms] by (auto simp: achieves_def split: prod.split)

theorem rules_refined_witness:
  "case perform (Typed TC_DROP ''board'') R_EAST_EVRT (move_object_to_inventory O_BOARD plain_world) of
     (t, e, w') \<Rightarrow> e = Some R_EAST_EVRT \<and> summarizes (place O_BOARD (Some R_EAST_EVRT) first_summary) w'"
proof -
  have s: "summarizes (place O_BOARD (Some R_INVENTORY) first_summary) (move_object_to_inventory O_BOARD plain_world)"
    by (intro sum_rules first_summarizes) simp
  have "rule (Typed TC_DROP ''board'') R_EAST_EVRT (place O_BOARD (Some R_INVENTORY) first_summary) =
      Some (Some R_EAST_EVRT, place O_BOARD (Some R_EAST_EVRT) first_summary)"
    by code_simp
  then show ?thesis by (rule rules_refined [OF s])
qed

subsection \<open>The objects\<close>

text \<open>C25: At any time of a game the player is in a room of the map, every room's list has each of its objects once, and
  an object is in the list of the room it is said to be in, and in no other.\<close>

theorem reachable_objects:
  assumes "build_world P w = Built w0" and "reachable w0 r v"
  shows "r < N_ROOMS \<and> distinct (contents_list v q) \<and> (ob \<in> set (contents_list v q) \<longleftrightarrow> obj_loc (object v ob) = Some q) \<and>
    (ob \<in> set (contents_list v q) \<longrightarrow> ob < N_OBJECTS \<and> q < N_ROOMS)"
proof -
  have "world_ok w0" using world_ok_same [OF build_world_same [OF assms(1)]] plain_world_ok by blast
  then have ok: "world_ok v" "place_ok r v" using reachable_ok [OF assms(2)] by blast+
  then obtain L where L: "lists v L" by (auto simp: world_ok_def)
  have "ob < N_OBJECTS" if "obj_loc (object v ob) = Some q" using L that by (auto simp: lists_def not_less [symmetric])
  moreover have "distinct (contents_list v q)" using L by (simp add: contents_list_lists [OF L] lists_def)
  ultimately show ?thesis using lists_member [OF L] ok by (auto simp: world_ok_def place_ok_def)
qed

theorem reachable_objects_witness:
  "\<exists>v. build_world tiny_platform plain_world = Built v \<and> O_TUX \<in> set (contents_list v R_REM_LAB)"
proof -
  obtain v where v: "build_world tiny_platform plain_world = Built v" by (rule tiny_builds)
  have "obj_loc (object v O_TUX) = Some R_REM_LAB"
    using same_facts(1) [OF build_world_same [OF v], of O_TUX] by (simp add: plain_locs obj_data_def)
  then show ?thesis using v reachable_objects [OF v reachable.start, of R_REM_LAB O_TUX] by blast
qed

text \<open>The lists of the rooms behave as lists: taking an object away removes it from the list it is in, and putting
  it somewhere makes it the first of that room's list and removes it everywhere else.\<close>

theorem object_lists:
  assumes "lists w L" and "ob < N_OBJECTS"
  shows "contents_list (remove_object ob w) q = filter (\<lambda>x. x \<noteq> ob) (contents_list w q) \<and>
    contents_list (insert_object_at ob r x y w) q = (if q = r then [ob] else []) @ filter (\<lambda>x. x \<noteq> ob) (contents_list w q) \<and>
    contents_list (insert_object ob r w) q = (if q = r then [ob] else []) @ filter (\<lambda>x. x \<noteq> ob) (contents_list w q) \<and>
    contents_list (move_object_to_inventory ob w) q =
      (if q = R_INVENTORY then [ob] else []) @ filter (\<lambda>x. x \<noteq> ob) (contents_list w q)"
  using contents_list_lists [OF assms(1)] contents_list_lists [OF lists_remove [OF assms(1)]]
    contents_list_lists [OF lists_inserted [OF inserted_at assms]] contents_list_lists [OF lists_inserted [OF inserted_insert assms]]
    contents_list_lists [OF lists_inserted [OF inserted_move assms]]
  by simp

theorem object_lists_witness:
  "contents_list (insert_object_at O_TUX R_IN_391LAB 5 5 plain_world) R_IN_391LAB =
     O_TUX # filter (\<lambda>x. x \<noteq> O_TUX) (contents_list plain_world R_IN_391LAB)"
proof -
  obtain L where "lists plain_world L" using plain_lists by blast
  then show ?thesis using object_lists [of plain_world L O_TUX R_IN_391LAB R_IN_391LAB 5 5] by simp
qed

subsection \<open>What the course of the game depends on\<close>

lemma play_same: "same_game w w' \<Longrightarrow> fst (play as r w) = fst (play as r w')"
proof (induction as arbitrary: r w w')
  case (Cons a as)
  obtain t d v where p: "perform a r w = (t, d, v)" by (cases "perform a r w")
  obtain t' d' v' where p': "perform a r w' = (t', d', v')" by (cases "perform a r w'")
  have "d = d'" "same_game v v'" using same_perform [OF Cons.prems, of a r] by (simp_all add: p p')
  then show ?case using Cons.IH by (cases d') (simp_all add: p p')
qed simp

text \<open>Pictures, positions and random numbers play no part: the same actions lead to the same room in any two worlds
  that \<^verbatim>\<open>build_world\<close> made, from whatever files and memory.\<close>

theorem game_course:
  assumes "build_world P w = Built v" and "build_world P' w' = Built v'"
  shows "fst (play as start_in_room v) = fst (play as start_in_room v')"
proof -
  have "same_game v v'"
    using build_world_same [OF assms(1)] same_game_sym [OF build_world_same [OF assms(2)]] by (rule same_game_trans)
  then show ?thesis by (rule play_same)
qed

theorem game_course_witness:
  "\<exists>v v'. build_world tiny_platform plain_world = Built v \<and> build_world (tiny_platform\<lparr>pf_palette := []\<rparr>) plain_world = Built v' \<and>
     fst (play walkthrough start_in_room v) = fst (play walkthrough start_in_room v')"
proof -
  obtain v where v: "build_world tiny_platform plain_world = Built v" by (rule tiny_builds)
  have "unreadable (tiny_platform\<lparr>pf_palette := []\<rparr>) = unreadable tiny_platform" by (simp add: unreadable_def fun_eq_iff)
  then obtain v' where v': "build_world (tiny_platform\<lparr>pf_palette := []\<rparr>) plain_world = Built v'"
    using build_world_result [of "tiny_platform\<lparr>pf_palette := []\<rparr>" plain_world] tiny_readable by (auto simp: tiny_platform_def)
  show ?thesis using v v' game_course [OF v v'] by blast
qed

end
