(* ===== verification/Vga.thy ===== *)
theory Vga
  imports Prelude
begin

text \<open>
  The VGA adapter of the adventure game, \<^verbatim>\<open>mp2/modex.c\<close>: a model of the adapter's registers, palette and four
  planes of memory as far as the game uses them, and the routines that program it for mode X.  Reading and
  writing ports act on the adapter; the assembly macros of the source are sequences of such accesses.
\<close>

subsection \<open>The adapter\<close>

record vga =
  seq_index :: u8
  seq :: "u8 \<Rightarrow> u8"
  crtc_index :: u8
  crtc :: "u8 \<Rightarrow> u8"
  gfx_index :: u8
  gfx :: "u8 \<Rightarrow> u8"
  attr_data :: bool
  attr_index :: u8
  attr :: "u8 \<Rightarrow> u8"
  misc :: u8
  dac_index :: u8
  dac_buf :: "u8 list"
  dac :: "u8 \<Rightarrow> u8 list"
  vmem :: "nat \<Rightarrow> nat \<Rightarrow> u8"

text \<open>While bit 7 of register 0x11 is set, the first eight CRT registers are write protected but for the
  bit of the line compare value in register 7.\<close>

definition write_crtc :: "u8 \<Rightarrow> u8 \<Rightarrow> 'a vga_scheme \<Rightarrow> 'a vga_scheme" where
  "write_crtc i v d =
     (if bit (crtc d 0x11) 7 \<and> i \<le> 7
      then if i = 7 then d\<lparr>crtc := (crtc d)(7 := (crtc d 7 AND 0xEF) OR (v AND 0x10))\<rparr> else d
      else d\<lparr>crtc := (crtc d)(i := v)\<rparr>)"

text \<open>A colour of the palette is taken over when its three parts have been written.\<close>

definition write_dac :: "u8 \<Rightarrow> 'a vga_scheme \<Rightarrow> 'a vga_scheme" where
  "write_dac v d =
     (if length (dac_buf d) = 2
      then d\<lparr>dac := (dac d)(dac_index d := dac_buf d @ [v]), dac_index := dac_index d + 1, dac_buf := []\<rparr>
      else d\<lparr>dac_buf := dac_buf d @ [v]\<rparr>)"

text \<open>The attribute port takes an index and data in turn; bit 5 of the index enables the display.\<close>

definition write_attr :: "u8 \<Rightarrow> 'a vga_scheme \<Rightarrow> 'a vga_scheme" where
  "write_attr v d =
     (if attr_data d then d\<lparr>attr := (attr d)(attr_index d AND 0x1F := v), attr_data := False\<rparr>
      else d\<lparr>attr_index := v, attr_data := True\<rparr>)"

definition vga_outb :: "u16 \<Rightarrow> u8 \<Rightarrow> 'a vga_scheme \<Rightarrow> 'a vga_scheme" where
  "vga_outb port v d =
     (if port = 0x3C0 then write_attr v d
      else if port = 0x3C2 then d\<lparr>misc := v\<rparr>
      else if port = 0x3C4 then d\<lparr>seq_index := v\<rparr>
      else if port = 0x3C5 then d\<lparr>seq := (seq d)(seq_index d := v)\<rparr>
      else if port = 0x3C8 then d\<lparr>dac_index := v, dac_buf := []\<rparr>
      else if port = 0x3C9 then write_dac v d
      else if port = 0x3CE then d\<lparr>gfx_index := v\<rparr>
      else if port = 0x3CF then d\<lparr>gfx := (gfx d)(gfx_index d := v)\<rparr>
      else if port = 0x3D4 then d\<lparr>crtc_index := v\<rparr>
      else if port = 0x3D5 then write_crtc (crtc_index d) v d
      else d)"

text \<open>A word written to a port goes to this port and the next.\<close>

definition vga_outw :: "u16 \<Rightarrow> u16 \<Rightarrow> 'a vga_scheme \<Rightarrow> 'a vga_scheme" where
  "vga_outw port v d = vga_outb (port + 1) (ucast (drop_bit 8 v)) (vga_outb port (ucast v) d)"

text \<open>Reading the sequencer's data port, and the status port, which makes the attribute port expect an index.\<close>

definition read_seq :: "'a vga_scheme \<Rightarrow> u8" where
  "read_seq d = seq d (seq_index d)"

definition read_status :: "'a vga_scheme \<Rightarrow> 'a vga_scheme" where
  "read_status d = d\<lparr>attr_data := False\<rparr>"

text \<open>A byte written to video memory goes to the planes that the map mask (sequencer register 2) selects.\<close>

definition vput :: "nat \<Rightarrow> u8 \<Rightarrow> 'a vga_scheme \<Rightarrow> 'a vga_scheme" where
  "vput a v d = d\<lparr>vmem := \<lambda>p b. if b = a \<and> p < 4 \<and> bit (seq d 2) p then v else vmem d p b\<rparr>"

subsection \<open>The macros\<close>

definition REP_OUTSW :: "u16 \<Rightarrow> u16 list \<Rightarrow> 'a vga_scheme \<Rightarrow> 'a vga_scheme" where
  "REP_OUTSW port source d = fold (vga_outw port) source d"

definition REP_OUTSB :: "u16 \<Rightarrow> u8 list \<Rightarrow> 'a vga_scheme \<Rightarrow> 'a vga_scheme" where
  "REP_OUTSB port source d = fold (vga_outb port) source d"

definition SET_WRITE_MASK :: "u16 \<Rightarrow> 'a vga_scheme \<Rightarrow> 'a vga_scheme" where
  "SET_WRITE_MASK mask_hi_bits d = vga_outw 0x3C4 ((mask_hi_bits AND 0xFF00) OR 2) d"

subsection \<open>Setting the registers\<close>

definition mode_X_seq :: "u16 list" where
  "mode_X_seq = [0x0100, 0x2101, 0x0F02, 0x0003, 0x0604]"

definition mode_X_CRTC :: "u16 list" where
  "mode_X_CRTC = [0x5F00, 0x4F01, 0x5002, 0x8203, 0x5404, 0x8005, 0xBF06, 0x1F07, 0x0008,
     0x0109, 0x000A, 0x000B, 0x000C, 0x000D, 0x000E, 0x000F, 0x9C10, 0x8E11,
     0x8F12, 0x2813, 0x0014, 0x9615, 0xB916, 0xE317, 0x6B18]"

definition mode_X_attr :: "u8 list" where
  "mode_X_attr = [0x00, 0x00, 0x01, 0x01, 0x02, 0x02, 0x03, 0x03, 0x04, 0x04, 0x05, 0x05, 0x06, 0x06, 0x07, 0x07,
     0x08, 0x08, 0x09, 0x09, 0x0A, 0x0A, 0x0B, 0x0B, 0x0C, 0x0C, 0x0D, 0x0D, 0x0E, 0x0E, 0x0F, 0x0F,
     0x10, 0x61, 0x11, 0x00, 0x12, 0x0F, 0x13, 0x00, 0x14, 0x00, 0x15, 0x00]"

definition mode_X_graphics :: "u16 list" where
  "mode_X_graphics = [0x0000, 0x0001, 0x0002, 0x0003, 0x0004, 0x4005, 0x0506, 0x0F07, 0xFF08]"

definition VGA_blank :: "u8 \<Rightarrow> 'a vga_scheme \<Rightarrow> 'a vga_scheme" where
  "VGA_blank blank_bit d =
     (let d = vga_outb 0x3C4 1 d;
          d = vga_outb 0x3C5 ((read_seq d AND 0xDF) OR push_bit 5 (blank_bit AND 1)) d;
          d = read_status d
      in vga_outb 0x3C0 0x20 d)"

definition set_seq_regs_and_reset :: "u16 list \<Rightarrow> u8 \<Rightarrow> 'a vga_scheme \<Rightarrow> 'a vga_scheme" where
  "set_seq_regs_and_reset table val d = vga_outw 0x3C4 0x0300 (vga_outb 0x3C2 val (REP_OUTSW 0x3C4 table d))"

definition set_CRTC_registers :: "u16 list \<Rightarrow> 'a vga_scheme \<Rightarrow> 'a vga_scheme" where
  "set_CRTC_registers table d = REP_OUTSW 0x3D4 table (vga_outw 0x3D4 0x0011 d)"

definition set_attr_registers :: "u8 list \<Rightarrow> 'a vga_scheme \<Rightarrow> 'a vga_scheme" where
  "set_attr_registers table d = REP_OUTSB 0x3C0 table (read_status d)"

definition set_graphics_registers :: "u16 list \<Rightarrow> 'a vga_scheme \<Rightarrow> 'a vga_scheme" where
  "set_graphics_registers table d = REP_OUTSW 0x3CE table d"

subsection \<open>The palette\<close>

abbreviation rgb :: "u8 \<times> u8 \<times> u8 \<Rightarrow> u8 list" where
  "rgb c \<equiv> (case c of (r, g, b) \<Rightarrow> [r, g, b])"

definition set_palette_color :: "(u8 \<times> u8 \<times> u8) list \<Rightarrow> 'a vga_scheme \<Rightarrow> 'a vga_scheme" where
  "set_palette_color palette d = REP_OUTSB 0x3C9 (concat (map rgb palette)) (vga_outb 0x3C8 0x40 d)"

definition palette_RGB :: "(u8 \<times> u8 \<times> u8) list" where
  "palette_RGB = [(0x00, 0x00, 0x00), (0x00, 0x00, 0x15), (0x00, 0x00, 0x2A), (0x00, 0x00, 0x3F), (0x00, 0x15, 0x00),
     (0x00, 0x15, 0x15), (0x00, 0x15, 0x2A), (0x00, 0x15, 0x3F), (0x00, 0x2A, 0x00), (0x00, 0x2A, 0x15),
     (0x00, 0x2A, 0x2A), (0x00, 0x2A, 0x3F), (0x00, 0x3F, 0x00), (0x00, 0x3F, 0x15), (0x00, 0x3F, 0x2A),
     (0x00, 0x3F, 0x3F), (0x15, 0x00, 0x00), (0x15, 0x00, 0x15), (0x15, 0x00, 0x2A), (0x15, 0x00, 0x3F),
     (0x15, 0x15, 0x00), (0x15, 0x15, 0x15), (0x15, 0x15, 0x2A), (0x15, 0x15, 0x3F), (0x15, 0x2A, 0x00),
     (0x15, 0x2A, 0x15), (0x15, 0x2A, 0x2A), (0x15, 0x2A, 0x3F), (0x15, 0x3F, 0x00), (0x15, 0x3F, 0x15),
     (0x15, 0x3F, 0x2A), (0x15, 0x3F, 0x3F), (0x2A, 0x00, 0x00), (0x2A, 0x00, 0x15), (0x2A, 0x00, 0x2A),
     (0x2A, 0x00, 0x3F), (0x2A, 0x15, 0x00), (0x2A, 0x15, 0x15), (0x2A, 0x15, 0x2A), (0x2A, 0x15, 0x3F),
     (0x2A, 0x2A, 0x00), (0x2A, 0x2A, 0x15), (0x2A, 0x2A, 0x2A), (0x2A, 0x2A, 0x3F), (0x2A, 0x3F, 0x00),
     (0x2A, 0x3F, 0x15), (0x2A, 0x3F, 0x2A), (0x2A, 0x3F, 0x3F), (0x3F, 0x00, 0x00), (0x3F, 0x00, 0x15),
     (0x3F, 0x00, 0x2A), (0x3F, 0x00, 0x3F), (0x3F, 0x15, 0x00), (0x3F, 0x15, 0x15), (0x3F, 0x15, 0x2A),
     (0x3F, 0x15, 0x3F), (0x3F, 0x2A, 0x00), (0x3F, 0x2A, 0x15), (0x3F, 0x2A, 0x2A), (0x3F, 0x2A, 0x3F),
     (0x3F, 0x3F, 0x00), (0x3F, 0x3F, 0x15), (0x3F, 0x3F, 0x2A), (0x3F, 0x3F, 0x3F)]"

definition fill_palette_mode_x :: "'a vga_scheme \<Rightarrow> 'a vga_scheme" where
  "fill_palette_mode_x d = REP_OUTSB 0x3C9 (concat (map rgb palette_RGB)) (vga_outb 0x3C8 0 d)"

text \<open>All four planes are cleared at once.\<close>

definition clear_screens :: "'a vga_scheme \<Rightarrow> 'a vga_scheme" where
  "clear_screens d = fold (\<lambda>a. vput a 0) [0..<65536] (SET_WRITE_MASK 0x0F00 d)"

text \<open>The part of \<^verbatim>\<open>set_mode_X\<close> that programs the adapter.\<close>

definition mode_X_registers :: "'a vga_scheme \<Rightarrow> 'a vga_scheme" where
  "mode_X_registers d =
     (let d = VGA_blank 1 d;
          d = set_seq_regs_and_reset mode_X_seq 0x63 d;
          d = set_CRTC_registers mode_X_CRTC d;
          d = set_attr_registers mode_X_attr d;
          d = set_graphics_registers mode_X_graphics d;
          d = fill_palette_mode_x d;
          d = clear_screens d
      in VGA_blank 0 d)"

subsection \<open>What the screen shows\<close>

text \<open>The picture starts at the start address; below the row where the line counter meets the line compare value
  it goes on at the beginning of video memory.\<close>

definition start_address :: "'a vga_scheme \<Rightarrow> nat" where
  "start_address d = 256 * unat (crtc d 0x0C) + unat (crtc d 0x0D)"

definition line_compare :: "'a vga_scheme \<Rightarrow> nat" where
  "line_compare d = unat (crtc d 0x18) + (if bit (crtc d 7) 4 then 256 else 0) + (if bit (crtc d 9) 6 then 512 else 0)"

definition split_row :: "'a vga_scheme \<Rightarrow> nat" where
  "split_row d = (line_compare d + 1) div (unat (crtc d 9 AND 0x1F) + 1)"

definition row_bytes :: "'a vga_scheme \<Rightarrow> nat" where
  "row_bytes d = 2 * unat (crtc d 0x13)"

definition displayed :: "'a vga_scheme \<Rightarrow> nat \<Rightarrow> nat \<Rightarrow> u8" where
  "displayed d sx sy =
     (if sy < split_row d then vmem d (sx mod 4) ((start_address d + row_bytes d * sy + sx div 4) mod 65536)
      else vmem d (sx mod 4) (row_bytes d * (sy - split_row d) + sx div 4))"

definition shown_colour :: "'a vga_scheme \<Rightarrow> nat \<Rightarrow> nat \<Rightarrow> u8 list" where
  "shown_colour d sx sy = dac d (displayed d sx sy)"

subsection \<open>Frames of the accesses\<close>

named_theorems vga_frame \<open>what the routines leave alone\<close>

lemma fold_frame: "(\<And>v d. g (f v d) = g d) \<Longrightarrow> g (fold f vs d) = g d"
  by (induction vs arbitrary: d) simp_all

lemma outw_seq_frame [vga_frame]:
  "crtc (vga_outw 0x3C4 v d) = crtc d" "gfx (vga_outw 0x3C4 v d) = gfx d" "attr (vga_outw 0x3C4 v d) = attr d" "misc (vga_outw 0x3C4 v d) = misc d"
  "dac (vga_outw 0x3C4 v d) = dac d" "vmem (vga_outw 0x3C4 v d) = vmem d" "attr_data (vga_outw 0x3C4 v d) = attr_data d"
  "vga.more (vga_outw 0x3C4 v d) = vga.more d" "dac_buf (vga_outw 0x3C4 v d) = dac_buf d"
  by (simp_all add: vga_outw_def vga_outb_def)

lemma outw_crtc_frame [vga_frame]:
  "seq (vga_outw 0x3D4 v d) = seq d" "gfx (vga_outw 0x3D4 v d) = gfx d" "attr (vga_outw 0x3D4 v d) = attr d" "misc (vga_outw 0x3D4 v d) = misc d"
  "dac (vga_outw 0x3D4 v d) = dac d" "vmem (vga_outw 0x3D4 v d) = vmem d" "attr_data (vga_outw 0x3D4 v d) = attr_data d"
  "vga.more (vga_outw 0x3D4 v d) = vga.more d"
  by (simp_all add: vga_outw_def vga_outb_def write_crtc_def)

lemma outw_gfx_frame [vga_frame]:
  "seq (vga_outw 0x3CE v d) = seq d" "crtc (vga_outw 0x3CE v d) = crtc d" "attr (vga_outw 0x3CE v d) = attr d" "misc (vga_outw 0x3CE v d) = misc d"
  "dac (vga_outw 0x3CE v d) = dac d" "vmem (vga_outw 0x3CE v d) = vmem d"
  by (simp_all add: vga_outw_def vga_outb_def)

lemma outb_attr_frame [vga_frame]:
  "seq (vga_outb 0x3C0 v d) = seq d" "crtc (vga_outb 0x3C0 v d) = crtc d" "gfx (vga_outb 0x3C0 v d) = gfx d" "misc (vga_outb 0x3C0 v d) = misc d"
  "dac (vga_outb 0x3C0 v d) = dac d" "vmem (vga_outb 0x3C0 v d) = vmem d"
  by (simp_all add: vga_outb_def write_attr_def)

lemma outb_dac_frame [vga_frame]:
  "seq (vga_outb 0x3C9 v d) = seq d" "crtc (vga_outb 0x3C9 v d) = crtc d" "gfx (vga_outb 0x3C9 v d) = gfx d" "misc (vga_outb 0x3C9 v d) = misc d"
  "attr (vga_outb 0x3C9 v d) = attr d" "vmem (vga_outb 0x3C9 v d) = vmem d" "vga.more (vga_outb 0x3C9 v d) = vga.more d"
  by (simp_all add: vga_outb_def write_dac_def)

lemma vput_frame [vga_frame]:
  "seq (vput a v d) = seq d" "crtc (vput a v d) = crtc d" "gfx (vput a v d) = gfx d" "misc (vput a v d) = misc d"
  "attr (vput a v d) = attr d" "dac (vput a v d) = dac d" "attr_index (vput a v d) = attr_index d"
  "attr_data (vput a v d) = attr_data d" "vga.more (vput a v d) = vga.more d"
  by (simp_all add: vput_def)

lemmas folds_frame [vga_frame] =
  fold_frame [where g = seq, OF outw_crtc_frame(1)] fold_frame [where g = seq, OF outw_gfx_frame(1)]
  fold_frame [where g = seq, OF outb_attr_frame(1)] fold_frame [where g = seq, OF outb_dac_frame(1)]
  fold_frame [where g = crtc, OF outw_seq_frame(1)] fold_frame [where g = crtc, OF outw_gfx_frame(2)]
  fold_frame [where g = crtc, OF outb_attr_frame(2)] fold_frame [where g = crtc, OF outb_dac_frame(2)]
  fold_frame [where g = gfx, OF outw_seq_frame(2)] fold_frame [where g = gfx, OF outw_crtc_frame(2)]
  fold_frame [where g = gfx, OF outb_attr_frame(3)] fold_frame [where g = gfx, OF outb_dac_frame(3)]
  fold_frame [where g = attr, OF outw_seq_frame(3)] fold_frame [where g = attr, OF outw_crtc_frame(3)]
  fold_frame [where g = attr, OF outw_gfx_frame(3)] fold_frame [where g = attr, OF outb_dac_frame(5)]
  fold_frame [where g = misc, OF outw_seq_frame(4)] fold_frame [where g = misc, OF outw_crtc_frame(4)]
  fold_frame [where g = misc, OF outw_gfx_frame(4)] fold_frame [where g = misc, OF outb_attr_frame(4)]
  fold_frame [where g = misc, OF outb_dac_frame(4)]
  fold_frame [where g = dac, OF outw_seq_frame(5)] fold_frame [where g = dac, OF outw_crtc_frame(5)]
  fold_frame [where g = dac, OF outw_gfx_frame(5)] fold_frame [where g = dac, OF outb_attr_frame(5)]
  fold_frame [where g = vmem, OF outw_seq_frame(6)] fold_frame [where g = vmem, OF outw_crtc_frame(6)]
  fold_frame [where g = vmem, OF outw_gfx_frame(6)] fold_frame [where g = vmem, OF outb_attr_frame(6)]
  fold_frame [where g = vmem, OF outb_dac_frame(6)]

subsection \<open>Palettes\<close>

lemma write_colour:
  assumes "dac_buf d = []"
  shows "fold (vga_outb 0x3C9) (rgb c) d = d\<lparr>dac := (dac d)(dac_index d := rgb c), dac_index := dac_index d + 1\<rparr>"
  using assms by (cases c) (simp add: vga_outb_def write_dac_def)

lemma write_colours:
  assumes "dac_buf d = []" and "unat (dac_index d) + length cs \<le> 256"
  shows "dac (fold (vga_outb 0x3C9) (concat (map rgb cs)) d) c =
    (if dac_index d \<le> c \<and> unat c < unat (dac_index d) + length cs then rgb (cs ! (unat c - unat (dac_index d))) else dac d c)"
  using assms
proof (induction cs arbitrary: d)
  case (Cons x cs)
  let ?d = "d\<lparr>dac := (dac d)(dac_index d := rgb x), dac_index := dac_index d + 1\<rparr>"
  show ?case
  proof (cases cs)
    case Nil
    then show ?thesis using Cons.prems(1) by (auto simp: write_colour word_le_nat_alt word_unat_eq_iff split: prod.split)
  next
    case (Cons y ys)
    then have n: "unat (dac_index d + 1) = unat (dac_index d) + 1"
      using Cons.prems by (simp add: unat_word_ariths take_bit_nat_eq_self)
    have "dac (fold (vga_outb 0x3C9) (concat (map rgb (x # cs))) d) c = dac (fold (vga_outb 0x3C9) (concat (map rgb cs)) ?d) c"
      by (simp add: write_colour [OF Cons.prems(1)])
    also have "\<dots> = (if dac_index ?d \<le> c \<and> unat c < unat (dac_index ?d) + length cs
        then rgb (cs ! (unat c - unat (dac_index ?d))) else dac ?d c)"
      using Cons.prems n by (intro Cons.IH) simp_all
    finally show ?thesis
      by (auto simp: n word_le_nat_alt word_unat_eq_iff nth_Cons' split: if_splits)
  qed
qed (auto simp: word_le_nat_alt)

lemma set_palette_color_dac:
  assumes "length palette = 192"
  shows "dac (set_palette_color palette d) c = (if 64 \<le> c then rgb (palette ! (unat c - 64)) else dac d c)"
proof -
  have "unat c < 256" using unsigned_less [of c] by simp
  then show ?thesis
    using write_colours [of "vga_outb 0x3C8 0x40 d" palette c] assms
    by (simp add: set_palette_color_def REP_OUTSB_def vga_outb_def)
qed

text \<open>A colour number below 64 has two bits for each of red, green and blue.\<close>

definition two_bits :: "u8 \<Rightarrow> u8 list" where
  "two_bits c = map (\<lambda>i. 0x15 * (drop_bit i c AND 3)) [4, 2, 0]"

lemma palette_RGB_two_bits: "map rgb palette_RGB = map (\<lambda>i. two_bits (of_nat i)) [0..<64]"
  by code_simp

lemma fill_palette_mode_x_dac:
  "dac (fill_palette_mode_x d) c = (if c < 64 then two_bits c else dac d c)"
proof -
  have len: "length palette_RGB = 64" by (simp add: palette_RGB_def)
  have "rgb (palette_RGB ! unat c) = two_bits c" if "unat c < 64"
    using that arg_cong [OF palette_RGB_two_bits, of "\<lambda>xs. xs ! unat c"] by (simp add: len)
  then show ?thesis
    using write_colours [of "vga_outb 0x3C8 0 d" palette_RGB c]
    by (simp add: fill_palette_mode_x_def REP_OUTSB_def vga_outb_def len word_less_nat_alt)
qed

subsection \<open>Mode X\<close>

text \<open>The settings that the display relies on: 80 bytes in a row, the split after 182 rows.\<close>

definition in_mode_X :: "'a vga_scheme \<Rightarrow> bool" where
  "in_mode_X d \<longleftrightarrow> split_row d = 182 \<and> row_bytes d = 80"

text \<open>A register pair as the tables have it: the index in the low byte, the value in the high byte.\<close>

definition holds :: "(u8 \<Rightarrow> u8) \<Rightarrow> u16 \<Rightarrow> bool" where
  "holds regs v \<longleftrightarrow> regs (ucast v) = ucast (drop_bit 8 v)"

lemma crtc_table: "list_all (holds (crtc (set_CRTC_registers mode_X_CRTC d))) mode_X_CRTC"
  by (simp add: set_CRTC_registers_def REP_OUTSW_def mode_X_CRTC_def vga_outw_def vga_outb_def write_crtc_def holds_def)

lemma gfx_table: "list_all (holds (gfx (set_graphics_registers mode_X_graphics d))) mode_X_graphics"
  by (simp add: set_graphics_registers_def REP_OUTSW_def mode_X_graphics_def vga_outw_def vga_outb_def holds_def)

lemma attr_table: "list_all (\<lambda>i. attr (set_attr_registers mode_X_attr d) (mode_X_attr ! (2 * i)) = mode_X_attr ! (2 * i + 1)) [0..<22]"
  by (simp add: set_attr_registers_def REP_OUTSB_def read_status_def mode_X_attr_def vga_outb_def write_attr_def upt_conv_Cons)

lemma seq_table:
  "seq (set_seq_regs_and_reset mode_X_seq val d) = (seq d)(0 := 3, 1 := 0x21, 2 := 0x0F, 3 := 0, 4 := 6)"
  "misc (set_seq_regs_and_reset mode_X_seq val d) = val"
  by (simp_all add: set_seq_regs_and_reset_def REP_OUTSW_def mode_X_seq_def vga_outw_def vga_outb_def fun_eq_iff)

lemma clear_planes:
  "vmem (fold (\<lambda>a. vput a 0) as d) p b = (if b \<in> set as \<and> p < 4 \<and> bit (seq d 2) p then 0 else vmem d p b)"
  by (induction as arbitrary: d) (auto simp: vga_frame, auto simp: vput_def)

lemma clear_screens_vmem:
  assumes "p < 4" and "a < 65536"
  shows "vmem (clear_screens d) p a = 0"
proof -
  have "seq (SET_WRITE_MASK 0x0F00 d) 2 = 0x0F" by (simp add: SET_WRITE_MASK_def vga_outw_def vga_outb_def)
  moreover have "bit (0x0F :: u8) p" using assms(1) by (simp add: bit_numeral_rec less_Suc_eq numeral_eq_Suc) auto
  ultimately show ?thesis using assms by (simp add: clear_screens_def clear_planes del: upt_rec_numeral)
qed

lemma VGA_blank_frame [vga_frame]:
  "crtc (VGA_blank b d) = crtc d" "gfx (VGA_blank b d) = gfx d" "misc (VGA_blank b d) = misc d" "attr (VGA_blank b d) = attr d"
  "dac (VGA_blank b d) = dac d" "vmem (VGA_blank b d) = vmem d" "attr_index (VGA_blank b d) = 0x20" "vga.more (VGA_blank b d) = vga.more d"
  "seq (VGA_blank b d) = (seq d)(1 := (seq d 1 AND 0xDF) OR push_bit 5 (b AND 1))"
  by (simp_all add: VGA_blank_def Let_def vga_outb_def read_seq_def read_status_def write_attr_def)

lemma routines_frame [vga_frame]:
  "crtc (set_seq_regs_and_reset t v d) = crtc d" "gfx (set_seq_regs_and_reset t v d) = gfx d"
  "attr (set_seq_regs_and_reset t v d) = attr d" "dac (set_seq_regs_and_reset t v d) = dac d"
  "seq (set_CRTC_registers t d) = seq d" "misc (set_CRTC_registers t d) = misc d"
  "seq (set_attr_registers a d) = seq d" "misc (set_attr_registers a d) = misc d" "crtc (set_attr_registers a d) = crtc d"
  "seq (set_graphics_registers t d) = seq d" "misc (set_graphics_registers t d) = misc d" "crtc (set_graphics_registers t d) = crtc d"
  "attr (set_graphics_registers t d) = attr d"
  "seq (fill_palette_mode_x d) = seq d" "misc (fill_palette_mode_x d) = misc d" "crtc (fill_palette_mode_x d) = crtc d"
  "attr (fill_palette_mode_x d) = attr d" "gfx (fill_palette_mode_x d) = gfx d"
  "seq (set_palette_color p d) = seq d" "crtc (set_palette_color p d) = crtc d" "vmem (set_palette_color p d) = vmem d"
  "gfx (set_palette_color p d) = gfx d" "attr (set_palette_color p d) = attr d" "misc (set_palette_color p d) = misc d"
  "vga.more (set_palette_color p d) = vga.more d"
  by (simp_all add: set_seq_regs_and_reset_def set_CRTC_registers_def set_attr_registers_def set_graphics_registers_def
      fill_palette_mode_x_def set_palette_color_def REP_OUTSW_def REP_OUTSB_def read_status_def vga_frame
      fold_frame [where g = vga.more, OF outb_dac_frame(7)] del: fun_upd_apply)
    (simp_all add: vga_outb_def vga_frame)

text \<open>Low bytes of some words.\<close>

lemma low_bytes: "(3842 :: u8) = 2" "(7943 :: u8) = 7" "(265 :: u8) = 9" "(10259 :: u8) = 0x13" "(27416 :: u8) = 0x18"
  by simp_all

lemma clear_screens_frame [vga_frame]:
  "crtc (clear_screens d) = crtc d" "gfx (clear_screens d) = gfx d" "attr (clear_screens d) = attr d" "misc (clear_screens d) = misc d"
  "dac (clear_screens d) = dac d" "seq (clear_screens d) = (seq d)(2 := 0x0F)"
  by (simp_all add: clear_screens_def SET_WRITE_MASK_def vga_frame fold_frame [where g = crtc, OF vput_frame(2)]
      fold_frame [where g = gfx, OF vput_frame(3)] fold_frame [where g = attr, OF vput_frame(5)]
      fold_frame [where g = misc, OF vput_frame(4)] fold_frame [where g = dac, OF vput_frame(6)]
      fold_frame [where g = seq, OF vput_frame(1)] del: upt_rec_numeral)
    (simp add: vga_outw_def vga_outb_def low_bytes)

lemma table_in_mode_X:
  assumes "list_all (holds (crtc d)) mode_X_CRTC"
  shows "in_mode_X d"
proof -
  have "holds (crtc d) 0x1F07" "holds (crtc d) 0x0109" "holds (crtc d) 0x2813" "holds (crtc d) 0x6B18"
    using assms by (simp_all add: mode_X_CRTC_def)
  then have "crtc d 7 = 0x1F" "crtc d 9 = 1" "crtc d 0x13 = 0x28" "crtc d 0x18 = 0x6B"
    by (simp_all add: holds_def low_bytes)
  then show ?thesis by (simp add: in_mode_X_def split_row_def line_compare_def row_bytes_def bit_numeral_rec numeral_2_eq_2 [symmetric])
qed

text \<open>The programs that use the adapter keep their own state beside it.\<close>

lemma mode_X_registers_more: "vga.more (mode_X_registers d) = vga.more d"
proof -
  have bytes: "vga.more (vga_outb port v d) = vga.more d" for port v and d :: "'b vga_scheme"
    by (simp add: vga_outb_def write_attr_def write_crtc_def write_dac_def)
  have words: "vga.more (vga_outw port v d) = vga.more d" for port v and d :: "'b vga_scheme"
    by (simp add: vga_outw_def bytes)
  note folds = fold_frame [where g = vga.more, OF bytes] fold_frame [where g = vga.more, OF words]
    fold_frame [where g = vga.more, OF vput_frame(9)]
  show ?thesis
    by (simp add: mode_X_registers_def Let_def VGA_blank_frame(8) set_seq_regs_and_reset_def set_CRTC_registers_def set_attr_registers_def
        set_graphics_registers_def fill_palette_mode_x_def clear_screens_def SET_WRITE_MASK_def REP_OUTSW_def REP_OUTSB_def
        read_status_def folds bytes words del: upt_rec_numeral)
qed

text \<open>Whatever state the adapter is in, \<^verbatim>\<open>set_mode_X\<close> leaves every register of its tables with its value, also the
  write-protected ones, the screen on, 182 rows of 80 addresses above the split, black memory, and the first 64
  colours with two bits for each of red, green and blue.\<close>

theorem mode_X_registers_set:
  "list_all (holds (crtc (mode_X_registers d))) mode_X_CRTC \<and> list_all (holds (gfx (mode_X_registers d))) mode_X_graphics \<and>
   list_all (\<lambda>i. attr (mode_X_registers d) (mode_X_attr ! (2 * i)) = mode_X_attr ! (2 * i + 1)) [0..<22] \<and>
   map (seq (mode_X_registers d)) [0, 1, 2, 3, 4] = [3, 1, 0x0F, 0, 6] \<and> misc (mode_X_registers d) = 0x63 \<and>
   attr_index (mode_X_registers d) = 0x20 \<and> split_row (mode_X_registers d) = 182 \<and> row_bytes (mode_X_registers d) = 80 \<and>
   (\<forall>p a. \<not> (p < 4 \<and> a < 65536 \<and> vmem (mode_X_registers d) p a \<noteq> 0)) \<and> dac (mode_X_registers d) c = (if c < 64 then two_bits c else dac d c)"
proof -
  have crtc: "list_all (holds (crtc (mode_X_registers d))) mode_X_CRTC"
    unfolding mode_X_registers_def Let_def vga_frame by (rule crtc_table)
  then have "split_row (mode_X_registers d) = 182 \<and> row_bytes (mode_X_registers d) = 80"
    using table_in_mode_X by (simp add: in_mode_X_def)
  moreover have "list_all (holds (gfx (mode_X_registers d))) mode_X_graphics"
    unfolding mode_X_registers_def Let_def vga_frame by (rule gfx_table)
  moreover have "list_all (\<lambda>i. attr (mode_X_registers d) (mode_X_attr ! (2 * i)) = mode_X_attr ! (2 * i + 1)) [0..<22]"
    unfolding mode_X_registers_def Let_def vga_frame by (rule attr_table)
  moreover have "map (seq (mode_X_registers d)) [0, 1, 2, 3, 4] = [3, 1, 0x0F, 0, 6]" "misc (mode_X_registers d) = 0x63"
    "attr_index (mode_X_registers d) = 0x20"
    by (simp_all add: mode_X_registers_def Let_def vga_frame seq_table)
  moreover have "vmem (mode_X_registers d) p a = 0" if "p < 4" "a < 65536" for p a
    using clear_screens_vmem [OF that] by (simp add: mode_X_registers_def Let_def vga_frame)
  moreover have "dac (mode_X_registers d) c = (if c < 64 then two_bits c else dac d c)"
    by (simp add: mode_X_registers_def Let_def vga_frame fill_palette_mode_x_dac)
      (simp add: set_graphics_registers_def set_attr_registers_def set_CRTC_registers_def REP_OUTSW_def REP_OUTSB_def read_status_def vga_frame)
  ultimately show ?thesis using crtc by blast
qed

end
