(* ===== verification/Modex.thy ===== *)
theory Modex
  imports Vga
begin

text \<open>
  Scrolling in mode X, \<^verbatim>\<open>mp2/modex.c\<close>: the build buffer with its four planes in reverse order, the logical view
  window that moves over it, the drawing of lines and the copy to the screen.  The buffer is a function of the
  offset from its first byte; an access outside its \<open>BUILD_BUF_SIZE\<close> bytes has the result \<open>None\<close>.  The
  pointer \<^verbatim>\<open>img3\<close> is always \<^verbatim>\<open>build + img3_off + MEM_FENCE_WIDTH\<close>, so \<open>img3_off\<close> stands for both.  Shifting a
  coordinate right by two bits and taking its two low bits are \<open>div 4\<close> and \<open>mod 4\<close> on the integers.
\<close>

subsection \<open>Dimensions\<close>

abbreviation (input) SCROLL_X_DIM :: int where "SCROLL_X_DIM \<equiv> 320"
abbreviation (input) SCROLL_Y_DIM :: int where "SCROLL_Y_DIM \<equiv> 182"
abbreviation (input) SCROLL_X_WIDTH :: int where "SCROLL_X_WIDTH \<equiv> 80"
abbreviation (input) SCROLL_SIZE :: int where "SCROLL_SIZE \<equiv> 14560"
abbreviation (input) SCREEN_SIZE :: int where "SCREEN_SIZE \<equiv> 58241"
abbreviation (input) BUILD_BUF_SIZE :: int where "BUILD_BUF_SIZE \<equiv> 78241"
abbreviation (input) BUILD_BASE_INIT :: int where "BUILD_BASE_INIT \<equiv> 10000"

lemma dimensions:
  "SCROLL_SIZE = SCROLL_X_WIDTH * SCROLL_Y_DIM" "SCREEN_SIZE = SCROLL_SIZE * 4 + 1" "BUILD_BUF_SIZE = SCREEN_SIZE + 20000"
  "BUILD_BASE_INIT = (BUILD_BUF_SIZE - SCREEN_SIZE) div 2"
  by simp_all

subsection \<open>State and memory\<close>

record modex = vga +
  build :: "int \<Rightarrow> u8"
  img3_off :: int
  show_x :: int
  show_y :: int
  target_img :: u16

definition load :: "int \<Rightarrow> 'a modex_scheme \<Rightarrow> u8 option" where
  "load a s = (if 0 \<le> a \<and> a < BUILD_BUF_SIZE then Some (build s a) else None)"

definition store :: "int \<Rightarrow> u8 \<Rightarrow> 'a modex_scheme \<Rightarrow> 'a modex_scheme option" where
  "store a v s = (if 0 \<le> a \<and> a < BUILD_BUF_SIZE then Some (s\<lparr>build := (build s)(a := v)\<rparr>) else None)"

subsection \<open>Routines\<close>

text \<open>\<^verbatim>\<open>set_mode_X\<close> with the outcome of \<^verbatim>\<open>open_memory_and_ports\<close>; the callbacks are given to the drawing
  routines, and the fence around the buffer is the range check of \<open>load\<close> and \<open>store\<close>.\<close>

definition set_mode_X :: "bool \<Rightarrow> bool \<Rightarrow> 'a modex_scheme \<Rightarrow> int \<times> 'a modex_scheme" where
  "set_mode_X callbacks opened s =
     (if \<not> callbacks then (-1, s)
      else let s = s\<lparr>show_x := 0, show_y := 0, img3_off := BUILD_BASE_INIT, target_img := 0x5A00\<rparr>
           in if \<not> opened then (-1, s) else (0, mode_X_registers s))"

fun copy_bytes :: "nat list \<Rightarrow> int \<Rightarrow> int \<Rightarrow> 'a modex_scheme \<Rightarrow> 'a modex_scheme option" where
  "copy_bytes [] target start s = Some s"
| "copy_bytes (i # is) target start s =
     Option.bind (load (start + int i) s) (\<lambda>b. Option.bind (store (target + int i) b s) (copy_bytes is target start))"

definition set_view_window :: "int \<Rightarrow> int \<Rightarrow> 'a modex_scheme \<Rightarrow> 'a modex_scheme option" where
  "set_view_window scr_x scr_y s =
     (let old_x = show_x s; old_y = show_y s;
          s = s\<lparr>show_x := scr_x, show_y := scr_y\<rparr>
      in if 0 \<le> img3_off s + scr_x div 4 + scr_y * SCROLL_X_WIDTH \<and>
            img3_off s + 3 * SCROLL_SIZE + (scr_x + SCROLL_X_DIM - 1) div 4 + (scr_y + SCROLL_Y_DIM - 1) * SCROLL_X_WIDTH < BUILD_BUF_SIZE
         then Some s
         else if scr_x \<le> old_x - SCROLL_X_DIM \<or> old_x + SCROLL_X_DIM \<le> scr_x \<or> scr_y \<le> old_y - SCROLL_Y_DIM \<or>
            old_y + SCROLL_Y_DIM \<le> scr_y
         then Some (s\<lparr>img3_off := BUILD_BASE_INIT - scr_x div 4 - scr_y * SCROLL_X_WIDTH\<rparr>)
         else
           let (start_x, end_x) = (if old_x < scr_x then (scr_x, old_x) else (old_x, scr_x));
               end_x = end_x + SCROLL_X_DIM - 1;
               (start_y, end_y) = (if old_y < scr_y then (scr_y, old_y) else (old_y, scr_y));
               end_y = end_y + SCROLL_Y_DIM - 1;
               start_off = start_x div 4 + start_y * SCROLL_X_WIDTH;
               start_addr = img3_off s + start_off;
               length = end_x div 4 + end_y * SCROLL_X_WIDTH + 1 - start_off + 3 * SCROLL_SIZE;
               s = s\<lparr>img3_off := BUILD_BASE_INIT - show_x s div 4 - show_y s * SCROLL_X_WIDTH\<rparr>;
               target_addr = img3_off s + start_off
           in copy_bytes (if start_addr < target_addr then rev [0..<nat length] else [0..<nat length]) target_addr start_addr s)"

text \<open>One plane of the screen, from the buffer to video memory.\<close>

fun copy_plane :: "nat \<Rightarrow> int \<Rightarrow> nat \<Rightarrow> 'a modex_scheme \<Rightarrow> 'a modex_scheme option" where
  "copy_plane 0 img a s = Some s"
| "copy_plane (Suc n) img a s = Option.bind (load img s) (\<lambda>b. copy_plane n (img + 1) (a + 1) (vput a b s))"

definition copy_image :: "int \<Rightarrow> u16 \<Rightarrow> 'a modex_scheme \<Rightarrow> 'a modex_scheme option" where
  "copy_image img scr_addr s = copy_plane (16000 - 1440) img (unat scr_addr) s"

fun show_planes :: "nat list \<Rightarrow> int \<Rightarrow> int \<Rightarrow> 'a modex_scheme \<Rightarrow> 'a modex_scheme option" where
  "show_planes [] p_off addr s = Some s"
| "show_planes (i # is) p_off addr s =
     Option.bind (copy_image (addr + ((p_off - int i + 4) mod 4) * SCROLL_SIZE + (if p_off < int i then 1 else 0)) (target_img s)
         (SET_WRITE_MASK (push_bit (i + 8) 1) s))
       (show_planes is p_off addr)"

definition show_screen :: "'a modex_scheme \<Rightarrow> 'a modex_scheme option" where
  "show_screen s =
     (let p_off = 3 - show_x s mod 4;
          s = s\<lparr>target_img := target_img s XOR 0x4000\<rparr>;
          addr = img3_off s + show_x s div 4 + show_y s * SCROLL_X_WIDTH
      in map_option (\<lambda>s. vga_outw 0x3D4 (push_bit 8 (target_img s AND 0xFF) OR 0x0D) (vga_outw 0x3D4 ((target_img s AND 0xFF00) OR 0x0C) s))
           (show_planes [0..<4] p_off addr s))"

text \<open>Drawing a line: the callback gives its pixels.\<close>

fun vert_loop :: "u8 list \<Rightarrow> int \<Rightarrow> int \<Rightarrow> 'a modex_scheme \<Rightarrow> 'a modex_scheme option" where
  "vert_loop [] p_off addr s = Some s"
| "vert_loop (b # buf) p_off addr s =
     Option.bind (store (addr + p_off * SCROLL_SIZE) b s) (vert_loop buf p_off (addr + SCROLL_X_WIDTH))"

definition draw_vert_line :: "(int \<Rightarrow> int \<Rightarrow> u8 list) \<Rightarrow> int \<Rightarrow> 'a modex_scheme \<Rightarrow> (int \<times> 'a modex_scheme) option" where
  "draw_vert_line vert_line_fn x s =
     (if x < 0 \<or> SCROLL_X_DIM \<le> x then Some (-1, s)
      else let x = x + show_x s;
               buf = vert_line_fn x (show_y s);
               addr = img3_off s + x div 4 + show_y s * SCROLL_X_WIDTH;
               p_off = 3 - x mod 4
           in map_option (Pair 0) (vert_loop buf p_off addr s))"

fun horiz_loop :: "u8 list \<Rightarrow> int \<Rightarrow> int \<Rightarrow> 'a modex_scheme \<Rightarrow> 'a modex_scheme option" where
  "horiz_loop [] p_off addr s = Some s"
| "horiz_loop (b # buf) p_off addr s =
     Option.bind (store (addr + p_off * SCROLL_SIZE) b s)
       (if p_off - 1 < 0 then horiz_loop buf 3 (addr + 1) else horiz_loop buf (p_off - 1) addr)"

definition draw_horiz_line :: "(int \<Rightarrow> int \<Rightarrow> u8 list) \<Rightarrow> int \<Rightarrow> 'a modex_scheme \<Rightarrow> (int \<times> 'a modex_scheme) option" where
  "draw_horiz_line horiz_line_fn y s =
     (if y < 0 \<or> SCROLL_Y_DIM \<le> y then Some (-1, s)
      else let y = y + show_y s;
               buf = horiz_line_fn (show_x s) y;
               addr = img3_off s + show_x s div 4 + y * SCROLL_X_WIDTH;
               p_off = 3 - show_x s mod 4
           in map_option (Pair 0) (horiz_loop buf p_off addr s))"

subsection \<open>The pixels of the view window\<close>

definition address :: "'a modex_scheme \<Rightarrow> int \<Rightarrow> int \<Rightarrow> int" where
  "address s x y = img3_off s + x div 4 + y * SCROLL_X_WIDTH + (3 - x mod 4) * SCROLL_SIZE"

definition pixel :: "'a modex_scheme \<Rightarrow> int \<Rightarrow> int \<Rightarrow> u8" where
  "pixel s x y = build s (address s x y)"

definition in_window :: "'a modex_scheme \<Rightarrow> int \<Rightarrow> int \<Rightarrow> bool" where
  "in_window s x y \<longleftrightarrow> show_x s \<le> x \<and> x < show_x s + SCROLL_X_DIM \<and> show_y s \<le> y \<and> y < show_y s + SCROLL_Y_DIM"

definition window_fits :: "'a modex_scheme \<Rightarrow> bool" where
  "window_fits s \<longleftrightarrow> 0 \<le> img3_off s + show_x s div 4 + show_y s * SCROLL_X_WIDTH \<and>
     img3_off s + 3 * SCROLL_SIZE + (show_x s + SCROLL_X_DIM - 1) div 4 + (show_y s + SCROLL_Y_DIM - 1) * SCROLL_X_WIDTH < BUILD_BUF_SIZE"

lemma address_bounds:
  assumes "window_fits s" and "in_window s x y"
  shows "0 \<le> address s x y" and "address s x y < BUILD_BUF_SIZE"
proof -
  have d: "show_x s div 4 \<le> x div 4" "x div 4 \<le> (show_x s + 320 - 1) div 4"
    using assms(2) by (auto simp: in_window_def intro!: zdiv_mono1)
  have r: "0 \<le> x mod 4" "x mod 4 \<le> 3" by simp_all
  define a b c e where abce: "a = show_x s div 4" "b = (show_x s + 320 - 1) div 4" "c = x div 4" "e = x mod 4"
  note facts = assms [unfolded window_fits_def in_window_def, folded abce] d [folded abce] r [folded abce]
  show "0 \<le> address s x y" "address s x y < BUILD_BUF_SIZE"
    using facts unfolding address_def abce(3,4) [symmetric] by - (elim conjE, simp)+
qed

text \<open>Pixels of the window never share a byte; this is why the planes are in reverse order.\<close>

lemma address_inj:
  assumes "in_window s x y" and "in_window s x' y'" and "address s x y = address s x' y'"
  shows "x = x' \<and> y = y'"
proof -
  define dc dr dy where d: "dc = x div 4 - x' div 4" "dr = x mod 4 - x' mod 4" "dy = y - y'"
  have x: "x - x' = 4 * dc + dr" unfolding d by (simp add: algebra_simps)
  have e: "dc + 80 * dy = 14560 * dr" using assms(3) unfolding address_def d by (simp add: algebra_simps)
  have w: "-320 < 4 * dc + dr" "4 * dc + dr < 320" "-182 < dy" "dy < 182"
    using assms(1,2) unfolding in_window_def x [symmetric] d(3) by linarith+
  have "x mod 4 < 4" "x' mod 4 < 4" "0 \<le> x mod 4" "0 \<le> x' mod 4" by simp_all
  then consider "dr \<le> -2" | "dr = -1" | "dr = 0" | "dr = 1" | "2 \<le> dr" by linarith
  then have "dr = 0"
  proof cases
    case 1
    then show ?thesis using e w by linarith
  next
    case 2
    then have "-79 \<le> dc" using w by presburger
    then show ?thesis using 2 e w by linarith
  next
    case 4
    then have "dc \<le> 79" using w by presburger
    then show ?thesis using 4 e w by linarith
  next
    case 5
    then show ?thesis using e w by linarith
  qed
  moreover have "dc = 0 \<and> dy = 0" using e w \<open>dr = 0\<close> by presburger
  ultimately show ?thesis using x d(3) by simp
qed

subsection \<open>Drawing lines\<close>

text \<open>What a routine may change of the state: the build buffer only.\<close>

definition same_view :: "'a modex_scheme \<Rightarrow> 'a modex_scheme \<Rightarrow> bool" where
  "same_view s s' \<longleftrightarrow> (\<exists>f. s' = s\<lparr>build := f\<rparr>)"

lemma same_view_simps:
  assumes "same_view s s'"
  shows "show_x s' = show_x s" "show_y s' = show_y s" "img3_off s' = img3_off s" "address s' x y = address s x y"
    "in_window s' x y = in_window s x y" "window_fits s' = window_fits s" "target_img s' = target_img s"
  using assms by (auto simp: same_view_def address_def in_window_def window_fits_def)

lemma same_view_refl [simp]: "same_view s s"
  unfolding same_view_def by (rule exI [of _ "build s"]) simp

lemma same_view_trans: "same_view s s' \<Longrightarrow> same_view s' s'' \<Longrightarrow> same_view s s''"
  by (auto simp: same_view_def)

text \<open>Storing the pixels of a run of positions of the window.\<close>

lemma store_pixel:
  assumes "window_fits s" and "in_window s x y"
  obtains s' where "store (address s x y) v s = Some s'" "same_view s s'"
    "\<And>x' y'. in_window s x' y' \<Longrightarrow> pixel s' x' y' = (if x' = x \<and> y' = y then v else pixel s x' y')"
proof
  let ?s = "s\<lparr>build := (build s)(address s x y := v)\<rparr>"
  show "store (address s x y) v s = Some ?s" using address_bounds [OF assms] by (simp add: store_def)
  show v: "same_view s ?s" by (auto simp: same_view_def)
  show "pixel ?s x' y' = (if x' = x \<and> y' = y then v else pixel s x' y')" if "in_window s x' y'" for x' y'
    using address_inj [OF that assms(2)] by (auto simp: pixel_def same_view_simps [OF v])
qed

lemma vert_loop_draws:
  assumes "window_fits s" and "show_x s \<le> x" "x < show_x s + SCROLL_X_DIM" "show_y s \<le> y" "y + int (length buf) \<le> show_y s + SCROLL_Y_DIM"
  shows "\<exists>s'. vert_loop buf (3 - x mod 4) (img3_off s + x div 4 + y * SCROLL_X_WIDTH) s = Some s' \<and> same_view s s' \<and>
    (\<forall>x' y'. in_window s x' y' \<longrightarrow> pixel s' x' y' =
      (if x' = x \<and> y \<le> y' \<and> y' < y + int (length buf) then buf ! nat (y' - y) else pixel s x' y'))"
  using assms
proof (induction buf arbitrary: y s)
  case (Cons b buf)
  have "in_window s x y" using Cons.prems by (simp add: in_window_def)
  then obtain s1 where s1: "store (address s x y) b s = Some s1" and v: "same_view s s1" and
    p: "\<And>x' y'. in_window s x' y' \<Longrightarrow> pixel s1 x' y' = (if x' = x \<and> y' = y then b else pixel s x' y')"
    using store_pixel [OF Cons.prems(1)] by blast
  note v = v same_view_simps [OF v]
  obtain s' where s': "vert_loop buf (3 - x mod 4) (img3_off s1 + x div 4 + (y + 1) * SCROLL_X_WIDTH) s1 = Some s'" "same_view s1 s'" and
    p': "\<And>x' y'. in_window s1 x' y' \<Longrightarrow> pixel s' x' y' =
      (if x' = x \<and> y + 1 \<le> y' \<and> y' < y + 1 + int (length buf) then buf ! nat (y' - (y + 1)) else pixel s1 x' y')"
    using Cons.IH [of s1 "y + 1"] Cons.prems by (auto simp: v)
  have "vert_loop (b # buf) (3 - x mod 4) (img3_off s + x div 4 + y * SCROLL_X_WIDTH) s = Some s'"
    using s1 s'(1) by (simp add: address_def v algebra_simps)
  moreover have "pixel s' x' y' = (if x' = x \<and> y \<le> y' \<and> y' < y + int (length (b # buf)) then (b # buf) ! nat (y' - y) else pixel s x' y')"
    if "in_window s x' y'" for x' y'
  proof (cases "x' = x \<and> y < y'")
    case True
    then have "nat (y' - y) = Suc (nat (y' - (y + 1)))" by arith
    then show ?thesis using True p [OF that] p' [of x' y'] that by (auto simp: v)
  next
    case False
    then show ?thesis using p [OF that] p' [of x' y'] that by (auto simp: v)
  qed
  ultimately show ?case using same_view_trans [OF v(1) s'(2)] by blast
qed (use same_view_refl in \<open>auto simp del: same_view_refl\<close>)

lemma horiz_loop_draws:
  assumes "window_fits s" and "show_y s \<le> y" "y < show_y s + SCROLL_Y_DIM" "show_x s \<le> x" "x + int (length buf) \<le> show_x s + SCROLL_X_DIM"
  shows "\<exists>s'. horiz_loop buf (3 - x mod 4) (img3_off s + x div 4 + y * SCROLL_X_WIDTH) s = Some s' \<and> same_view s s' \<and>
    (\<forall>x' y'. in_window s x' y' \<longrightarrow> pixel s' x' y' =
      (if y' = y \<and> x \<le> x' \<and> x' < x + int (length buf) then buf ! nat (x' - x) else pixel s x' y'))"
  using assms
proof (induction buf arbitrary: x s)
  case (Cons b buf)
  have "in_window s x y" using Cons.prems by (simp add: in_window_def)
  then obtain s1 where s1: "store (address s x y) b s = Some s1" and v: "same_view s s1" and
    p: "\<And>x' y'. in_window s x' y' \<Longrightarrow> pixel s1 x' y' = (if x' = x \<and> y' = y then b else pixel s x' y')"
    using store_pixel [OF Cons.prems(1)] by blast
  note v = v same_view_simps [OF v]
  obtain s' where s': "horiz_loop buf (3 - (x + 1) mod 4) (img3_off s1 + (x + 1) div 4 + y * SCROLL_X_WIDTH) s1 = Some s'" "same_view s1 s'" and
    p': "\<And>x' y'. in_window s1 x' y' \<Longrightarrow> pixel s' x' y' =
      (if y' = y \<and> x + 1 \<le> x' \<and> x' < x + 1 + int (length buf) then buf ! nat (x' - (x + 1)) else pixel s1 x' y')"
    using Cons.IH [of s1 "x + 1"] Cons.prems by (auto simp: v)
  have "(if 3 - x mod 4 - 1 < 0 then horiz_loop buf 3 (img3_off s + x div 4 + y * SCROLL_X_WIDTH + 1)
      else horiz_loop buf (3 - x mod 4 - 1) (img3_off s + x div 4 + y * SCROLL_X_WIDTH)) s1 = Some s'"
  proof (cases "x mod 4 = 3")
    case True
    then have "(x + 1) mod 4 = 0" "(x + 1) div 4 = x div 4 + 1" by presburger+
    then show ?thesis using s'(1) True by (simp add: v algebra_simps)
  next
    case False
    then have "(x + 1) mod 4 = x mod 4 + 1" "(x + 1) div 4 = x div 4" "\<not> 3 - x mod 4 - 1 < 0" by presburger+
    then show ?thesis using s'(1) by (simp add: v algebra_simps)
  qed
  then have "horiz_loop (b # buf) (3 - x mod 4) (img3_off s + x div 4 + y * SCROLL_X_WIDTH) s = Some s'"
    using s1 by (simp add: address_def)
  moreover have "pixel s' x' y' = (if y' = y \<and> x \<le> x' \<and> x' < x + int (length (b # buf)) then (b # buf) ! nat (x' - x) else pixel s x' y')"
    if "in_window s x' y'" for x' y'
  proof (cases "y' = y \<and> x < x'")
    case True
    then have "nat (x' - x) = Suc (nat (x' - (x + 1)))" by arith
    then show ?thesis using True p [OF that] p' [of x' y'] that by (auto simp: v)
  next
    case False
    then show ?thesis using p [OF that] p' [of x' y'] that by (auto simp: v)
  qed
  ultimately show ?case using same_view_trans [OF v(1) s'(2)] by blast
qed (use same_view_refl in \<open>auto simp del: same_view_refl\<close>)

lemma draw_vert_line_draws:
  assumes "window_fits s" and "0 \<le> x" "x < SCROLL_X_DIM" and "length (v (x + show_x s) (show_y s)) = 182"
  shows "\<exists>s'. draw_vert_line v x s = Some (0, s') \<and> same_view s s' \<and> (\<forall>x' y'. in_window s x' y' \<longrightarrow> pixel s' x' y' =
    (if x' = x + show_x s then v (x + show_x s) (show_y s) ! nat (y' - show_y s) else pixel s x' y'))"
proof -
  obtain s' where "vert_loop (v (x + show_x s) (show_y s)) (3 - (x + show_x s) mod 4)
      (img3_off s + (x + show_x s) div 4 + show_y s * SCROLL_X_WIDTH) s = Some s'" "same_view s s'"
    "\<And>x' y'. in_window s x' y' \<Longrightarrow> pixel s' x' y' = (if x' = x + show_x s \<and> show_y s \<le> y' \<and> y' < show_y s + 182
       then v (x + show_x s) (show_y s) ! nat (y' - show_y s) else pixel s x' y')"
    using vert_loop_draws [of s "x + show_x s" "show_y s" "v (x + show_x s) (show_y s)"] assms by auto
  then show ?thesis using assms(2,3) by (auto simp: draw_vert_line_def Let_def in_window_def)
qed

lemma draw_horiz_line_draws:
  assumes "window_fits s" and "0 \<le> y" "y < SCROLL_Y_DIM" and "length (h (show_x s) (y + show_y s)) = 320"
  shows "\<exists>s'. draw_horiz_line h y s = Some (0, s') \<and> same_view s s' \<and> (\<forall>x' y'. in_window s x' y' \<longrightarrow> pixel s' x' y' =
    (if y' = y + show_y s then h (show_x s) (y + show_y s) ! nat (x' - show_x s) else pixel s x' y'))"
proof -
  obtain s' where "horiz_loop (h (show_x s) (y + show_y s)) (3 - show_x s mod 4)
      (img3_off s + show_x s div 4 + (y + show_y s) * SCROLL_X_WIDTH) s = Some s'" "same_view s s'"
    "\<And>x' y'. in_window s x' y' \<Longrightarrow> pixel s' x' y' = (if y' = y + show_y s \<and> show_x s \<le> x' \<and> x' < show_x s + 320
       then h (show_x s) (y + show_y s) ! nat (x' - show_x s) else pixel s x' y')"
    using horiz_loop_draws [of s "y + show_y s" "show_x s" "h (show_x s) (y + show_y s)"] assms by auto
  then show ?thesis using assms(2,3) by (auto simp: draw_horiz_line_def Let_def in_window_def)
qed

lemma lines_outside: 
  "x < 0 \<or> SCROLL_X_DIM \<le> x \<Longrightarrow> draw_vert_line v x s = Some (-1, s)" "y < 0 \<or> SCROLL_Y_DIM \<le> y \<Longrightarrow> draw_horiz_line h y s = Some (-1, s)"
  by (simp_all add: draw_vert_line_def draw_horiz_line_def)

subsection \<open>Moving the window\<close>

lemma copy_bytes_moves:
  assumes "distinct is" and "\<forall>i\<in>set is. 0 \<le> start + int i \<and> start + int i < BUILD_BUF_SIZE \<and> 0 \<le> target + int i \<and> target + int i < BUILD_BUF_SIZE"
    and "sorted_wrt (\<lambda>i j. start + int j \<noteq> target + int i) is"
  shows "\<exists>s'. copy_bytes is target start s = Some s' \<and> same_view s s' \<and>
    (\<forall>i\<in>set is. build s' (target + int i) = build s (start + int i))"
  using assms
proof (induction "is" arbitrary: s)
  case (Cons i "is")
  let ?s = "s\<lparr>build := (build s)(target + int i := build s (start + int i))\<rparr>"
  have v: "same_view s ?s" by (auto simp: same_view_def)
  have frame: "build s' a = build u a" if "copy_bytes js target start u = Some s'" "\<forall>j\<in>set js. a \<noteq> target + int j" for js u s' a
    using that by (induction js arbitrary: u) (auto simp: load_def store_def bind_eq_Some_conv split: if_splits)
  obtain s' where s': "copy_bytes is target start ?s = Some s'" "same_view ?s s'"
    "\<And>j. j \<in> set is \<Longrightarrow> build s' (target + int j) = build ?s (start + int j)"
    using Cons.IH [of ?s] Cons.prems by (auto simp del: fun_upd_apply)
  have "copy_bytes (i # is) target start s = Some s'" using Cons.prems(2) s'(1) by (simp add: load_def store_def)
  moreover have "build s' (target + int j) = build s (start + int j)" if "j \<in> set (i # is)" for j
  proof (cases "j = i")
    case True
    then have "\<forall>k\<in>set is. target + int j \<noteq> target + int k" using Cons.prems(1) by auto
    then have "build s' (target + int j) = build ?s (target + int j)" by (rule frame [OF s'(1)])
    then show ?thesis using True by simp
  next
    case False
    then show ?thesis using s'(3) [of j] that Cons.prems(3) by auto
  qed
  ultimately show ?case using same_view_trans [OF v s'(2)] by blast
qed simp

text \<open>The two directions of the copy.\<close>

lemma copy_order:
  "sorted_wrt (\<lambda>i j. start + int j \<noteq> target + int i) (if start < target then rev [0..<n] else [0..<n])"
  by (auto simp: sorted_wrt_iff_nth_less rev_nth)

lemma set_view_window_moves:
  fixes s :: "'a modex_scheme" and nx ny :: int
  defines "so \<equiv> max nx (show_x s) div 4 + max ny (show_y s) * SCROLL_X_WIDTH"
  defines "len \<equiv> (min nx (show_x s) + 320 - 1) div 4 + (min ny (show_y s) + 182 - 1) * SCROLL_X_WIDTH + 1 - so + 3 * SCROLL_SIZE"
  defines "t \<equiv> s\<lparr>show_x := nx, show_y := ny, img3_off := BUILD_BASE_INIT - nx div 4 - ny * SCROLL_X_WIDTH\<rparr>"
  shows "set_view_window nx ny s = (if window_fits (s\<lparr>show_x := nx, show_y := ny\<rparr>) then Some (s\<lparr>show_x := nx, show_y := ny\<rparr>)
    else if nx \<le> show_x s - SCROLL_X_DIM \<or> show_x s + SCROLL_X_DIM \<le> nx \<or> ny \<le> show_y s - SCROLL_Y_DIM \<or> show_y s + SCROLL_Y_DIM \<le> ny
    then Some t
    else copy_bytes (if img3_off s + so < img3_off t + so then rev [0..<nat len] else [0..<nat len]) (img3_off t + so) (img3_off s + so) t)"
  unfolding so_def len_def t_def set_view_window_def Let_def window_fits_def
  by (simp add: max_def min_def split del: if_split) (simp split: if_split)

text \<open>The adapter, as the window moves.\<close>

definition same_screen :: "'a modex_scheme \<Rightarrow> 'a modex_scheme \<Rightarrow> bool" where
  "same_screen s s' \<longleftrightarrow> (\<exists>b off x y. s' = s\<lparr>build := b, img3_off := off, show_x := x, show_y := y\<rparr>)"

lemma same_screen_view: "same_view s s' \<Longrightarrow> same_screen s s'"
proof -
  assume "same_view s s'"
  then obtain f where "s' = s\<lparr>build := f\<rparr>" by (auto simp: same_view_def)
  then have "s' = s\<lparr>build := f, img3_off := img3_off s, show_x := show_x s, show_y := show_y s\<rparr>" by simp
  then show ?thesis unfolding same_screen_def by blast
qed

lemma same_screen_moved:
  "same_screen s (s\<lparr>show_x := x, show_y := y\<rparr>)" "same_screen s (s\<lparr>show_x := x, show_y := y, img3_off := off\<rparr>)"
proof -
  have "s\<lparr>show_x := x, show_y := y\<rparr> = s\<lparr>build := build s, img3_off := img3_off s, show_x := x, show_y := y\<rparr>"
    "s\<lparr>show_x := x, show_y := y, img3_off := off\<rparr> = s\<lparr>build := build s, img3_off := off, show_x := x, show_y := y\<rparr>" by simp_all
  then show "same_screen s (s\<lparr>show_x := x, show_y := y\<rparr>)" "same_screen s (s\<lparr>show_x := x, show_y := y, img3_off := off\<rparr>)"
    unfolding same_screen_def by blast+
qed

lemma same_screen_trans:
  assumes "same_screen s s'" and "same_screen s' s''"
  shows "same_screen s s''"
proof -
  obtain b off x y where 1: "s' = s\<lparr>build := b, img3_off := off, show_x := x, show_y := y\<rparr>"
    using assms(1) by (auto simp: same_screen_def)
  obtain b' off' x' y' where "s'' = s'\<lparr>build := b', img3_off := off', show_x := x', show_y := y'\<rparr>"
    using assms(2) by (auto simp: same_screen_def)
  then have "s'' = s\<lparr>build := b', img3_off := off', show_x := x', show_y := y'\<rparr>" by (simp add: 1)
  then show ?thesis unfolding same_screen_def by blast
qed

lemma window_recentred:
  "window_fits (s\<lparr>show_x := nx, show_y := ny, img3_off := BUILD_BASE_INIT - nx div 4 - ny * SCROLL_X_WIDTH\<rparr>)"
proof -
  have "(nx + 320 - 1) div 4 \<le> nx div 4 + 80" by presburger
  then show ?thesis by (simp add: window_fits_def)
qed

lemma window_copied:
  fixes s :: "'a modex_scheme" and nx ny :: int
  defines "so \<equiv> max nx (show_x s) div 4 + max ny (show_y s) * SCROLL_X_WIDTH"
  defines "len \<equiv> (min nx (show_x s) + 320 - 1) div 4 + (min ny (show_y s) + 182 - 1) * SCROLL_X_WIDTH + 1 - so + 3 * SCROLL_SIZE"
  assumes "window_fits s" and "in_window s x y" and "nx \<le> x" "x < nx + 320" "ny \<le> y" "y < ny + 182"
  obtains i where "i < nat len" "address s x y = img3_off s + so + int i"
proof
  define c r where cr: "c = x div 4" "r = x mod 4"
  have r: "0 \<le> r" "r \<le> 3" by (simp_all add: cr)
  have c: "max nx (show_x s) div 4 \<le> c" "c \<le> (min nx (show_x s) + 320 - 1) div 4"
    unfolding cr using assms(4-6) by (auto simp: in_window_def intro!: zdiv_mono1)
  have y: "max ny (show_y s) \<le> y" "y \<le> min ny (show_y s) + 182 - 1" using assms(4,7,8) by (auto simp: in_window_def)
  define k where k: "k = c + y * 80 + (3 - r) * 14560 - so"
  have k': "k = c + y * 80 + 43680 - 14560 * r - so" by (simp add: k)
  define a b my ny' where q: "a = max nx (show_x s) div 4" "b = (min nx (show_x s) + 320 - 1) div 4"
    "my = max ny (show_y s)" "ny' = min ny (show_y s)"
  have "0 \<le> k" "k < len" using k' r c y unfolding so_def len_def q [symmetric] by - simp_all
  then show "nat k < nat len" "address s x y = img3_off s + so + int (nat k)"
    by (simp_all add: address_def k cr [symmetric])
qed

lemma copy_in_range:
  fixes s :: "'a modex_scheme" and nx ny :: int
  defines "so \<equiv> max nx (show_x s) div 4 + max ny (show_y s) * SCROLL_X_WIDTH"
  defines "len \<equiv> (min nx (show_x s) + 320 - 1) div 4 + (min ny (show_y s) + 182 - 1) * SCROLL_X_WIDTH + 1 - so + 3 * SCROLL_SIZE"
  assumes "window_fits s" and "i < nat len"
  shows "0 \<le> img3_off s + so + int i" and "img3_off s + so + int i < BUILD_BUF_SIZE"
    and "0 \<le> BUILD_BASE_INIT - nx div 4 - ny * SCROLL_X_WIDTH + so + int i"
    and "BUILD_BASE_INIT - nx div 4 - ny * SCROLL_X_WIDTH + so + int i < BUILD_BUF_SIZE"
proof -
  have y: "show_y s \<le> max ny (show_y s)" "ny \<le> max ny (show_y s)" "min ny (show_y s) \<le> show_y s" "min ny (show_y s) \<le> ny" by simp_all
  have m: "show_x s div 4 \<le> max nx (show_x s) div 4" "nx div 4 \<le> max nx (show_x s) div 4"
    "(min nx (show_x s) + 320 - 1) div 4 \<le> (show_x s + 320 - 1) div 4" "(min nx (show_x s) + 320 - 1) div 4 \<le> (nx + 320 - 1) div 4"
    by (auto intro!: zdiv_mono1)
  have n: "(nx + 320 - 1) div 4 \<le> nx div 4 + 80" by presburger
  define a a' b b' c c' my ny' where q: "a = show_x s div 4" "a' = nx div 4" "b = max nx (show_x s) div 4"
    "b' = (min nx (show_x s) + 320 - 1) div 4" "c = (show_x s + 320 - 1) div 4" "c' = (nx + 320 - 1) div 4"
    "my = max ny (show_y s)" "ny' = min ny (show_y s)"
  have i: "int i < len" using assms(4) by linarith
  note facts = assms(3) [unfolded window_fits_def, folded q, THEN conjunct1] assms(3) [unfolded window_fits_def, folded q, THEN conjunct2]
    m [folded q] n [folded q] y [folded q] i [unfolded len_def so_def, folded q]
  show "0 \<le> img3_off s + so + int i" "img3_off s + so + int i < BUILD_BUF_SIZE"
    "0 \<le> BUILD_BASE_INIT - nx div 4 - ny * SCROLL_X_WIDTH + so + int i"
    "BUILD_BASE_INIT - nx div 4 - ny * SCROLL_X_WIDTH + so + int i < BUILD_BUF_SIZE"
    using facts unfolding so_def q [symmetric] by - simp_all
qed

lemma set_view_window_keeps:
  assumes "window_fits s"
  shows "\<exists>s'. set_view_window nx ny s = Some s' \<and> same_screen s s' \<and> show_x s' = nx \<and> show_y s' = ny \<and> window_fits s' \<and>
    (\<forall>x y. in_window s x y \<longrightarrow> in_window s' x y \<longrightarrow> pixel s' x y = pixel s x y)"
proof -
  let ?t = "s\<lparr>show_x := nx, show_y := ny, img3_off := BUILD_BASE_INIT - nx div 4 - ny * SCROLL_X_WIDTH\<rparr>"
  let ?so = "max nx (show_x s) div 4 + max ny (show_y s) * SCROLL_X_WIDTH"
  let ?len = "(min nx (show_x s) + 320 - 1) div 4 + (min ny (show_y s) + 182 - 1) * SCROLL_X_WIDTH + 1 - ?so + 3 * SCROLL_SIZE"
  note cases = set_view_window_moves [of nx ny s]
  have t: "same_screen s ?t" by (rule same_screen_moved)
  consider (fits) "window_fits (s\<lparr>show_x := nx, show_y := ny\<rparr>)"
    | (far) "\<not> window_fits (s\<lparr>show_x := nx, show_y := ny\<rparr>)" "nx \<le> show_x s - SCROLL_X_DIM \<or> show_x s + SCROLL_X_DIM \<le> nx \<or>
        ny \<le> show_y s - SCROLL_Y_DIM \<or> show_y s + SCROLL_Y_DIM \<le> ny"
    | (copy) "\<not> window_fits (s\<lparr>show_x := nx, show_y := ny\<rparr>)" "\<not> (nx \<le> show_x s - SCROLL_X_DIM \<or> show_x s + SCROLL_X_DIM \<le> nx \<or>
        ny \<le> show_y s - SCROLL_Y_DIM \<or> show_y s + SCROLL_Y_DIM \<le> ny)" by blast
  then show ?thesis
  proof cases
    case fits
    have "same_screen s (s\<lparr>show_x := nx, show_y := ny\<rparr>)" by (rule same_screen_moved)
    then show ?thesis using fits cases by (auto simp: pixel_def address_def)
  next
    case far
    have "\<not> (in_window s x y \<and> in_window ?t x y)" for x y using far(2) by (auto simp: in_window_def)
    then show ?thesis using far cases t window_recentred [of nx ny s] by auto
  next
    case copy
    let ?is = "if img3_off s + ?so < img3_off ?t + ?so then rev [0..<nat ?len] else [0..<nat ?len]"
    have sorted: "sorted_wrt (\<lambda>i j. img3_off s + ?so + int j \<noteq> img3_off ?t + ?so + int i) ?is" by (rule copy_order)
    have "distinct ?is" and elems: "set ?is = {..<nat ?len}" by auto
    have t_off: "img3_off ?t = BUILD_BASE_INIT - nx div 4 - ny * SCROLL_X_WIDTH" by simp
    have range: "\<forall>i\<in>set ?is. 0 \<le> img3_off s + ?so + int i \<and> img3_off s + ?so + int i < BUILD_BUF_SIZE \<and>
        0 \<le> img3_off ?t + ?so + int i \<and> img3_off ?t + ?so + int i < BUILD_BUF_SIZE"
      unfolding elems unfolding t_off using copy_in_range [OF assms, of _ nx ny] by blast
    obtain s' where s': "copy_bytes ?is (img3_off ?t + ?so) (img3_off s + ?so) ?t = Some s'" "same_view ?t s'"
      and copied: "\<forall>i\<in>set ?is. build s' (img3_off ?t + ?so + int i) = build ?t (img3_off s + ?so + int i)"
      using copy_bytes_moves [OF \<open>distinct ?is\<close> range sorted, of ?t] by blast
    have s'3: "build s' (img3_off ?t + ?so + int i) = build s (img3_off s + ?so + int i)" if "i < nat ?len" for i
      using copied that unfolding elems by simp
    have "pixel s' x y = pixel s x y" if xy: "in_window s x y" "in_window s' x y" for x y
    proof -
      have new: "nx \<le> x" "x < nx + 320" "ny \<le> y" "y < ny + 182" using xy(2) by (simp_all add: in_window_def same_view_simps [OF s'(2)])
      obtain i where i: "i < nat ?len" "address s x y = img3_off s + ?so + int i" by (rule window_copied [OF assms xy(1) new])
      have "address s' x y = img3_off ?t + ?so + int i" using i(2) by (simp add: address_def same_view_simps [OF s'(2)])
      then show ?thesis using s'3 [OF i(1)] by (simp only: pixel_def i(2))
    qed
    moreover have "set_view_window nx ny s = Some s'" using copy cases s'(1) by (simp only: if_False)
    moreover have "same_screen s s'" using t same_screen_view [OF s'(2)] by (rule same_screen_trans)
    ultimately show ?thesis using window_recentred [of nx ny s] by (auto simp: same_view_simps [OF s'(2)])
  qed
qed

end
