(* ===== verification/Viewport.thy ===== *)
theory Viewport
  imports Modex
begin

text \<open>
  The logical view window on the screen: \<^verbatim>\<open>show_screen\<close> of \<^verbatim>\<open>mp2/modex.c\<close> copies the four planes to the page of
  video memory that is not shown and then shows it, so that a pixel of the window appears at its place on the
  screen.
\<close>

subsection \<open>Copying planes\<close>

lemma copy_plane_copies:
  assumes "0 \<le> img" and "img + int n \<le> BUILD_BUF_SIZE"
  shows "\<exists>m. copy_plane n img a s = Some (s\<lparr>vmem := m\<rparr>) \<and>
    (\<forall>p b. m p b = (if a \<le> b \<and> b < a + n \<and> p < 4 \<and> bit (seq s 2) p then build s (img + int (b - a)) else vmem s p b))"
  using assms
proof (induction n arbitrary: img a s)
  case 0
  then show ?case by (intro exI [of _ "vmem s"]) auto
next
  case (Suc n)
  have load: "load img s = Some (build s img)" using Suc.prems by (simp add: load_def)
  let ?s = "vput a (build s img) s"
  obtain m where m: "copy_plane n (img + 1) (a + 1) ?s = Some (?s\<lparr>vmem := m\<rparr>)"
    "\<And>p b. m p b = (if a + 1 \<le> b \<and> b < a + 1 + n \<and> p < 4 \<and> bit (seq ?s 2) p then build ?s (img + 1 + int (b - (a + 1))) else vmem ?s p b)"
    using Suc.IH [of "img + 1" "a + 1" ?s] Suc.prems by auto
  have "copy_plane (Suc n) img a s = Some (s\<lparr>vmem := m\<rparr>)" using m(1) by (simp add: load vput_def)
  moreover have "m p b = (if a \<le> b \<and> b < a + Suc n \<and> p < 4 \<and> bit (seq s 2) p then build s (img + int (b - a)) else vmem s p b)" for p b
  proof (cases "a < b")
    case True
    then have "img + 1 + int (b - (a + 1)) = img + int (b - a)" by simp
    then show ?thesis using True unfolding m(2) by (auto simp: vput_def)
  next
    case False
    then show ?thesis unfolding m(2) by (auto simp: vput_def)
  qed
  ultimately show ?case by blast
qed

lemma write_mask_plane:
  assumes "i < 4"
  shows "SET_WRITE_MASK (push_bit (i + 8) 1) s = s\<lparr>seq_index := 2, seq := (seq s)(2 := push_bit i 1)\<rparr>"
proof -
  have low: "(258 :: u8) = 2" "(514 :: u8) = 2" "(1026 :: u8) = 2" "(2050 :: u8) = 2" by simp_all
  have "i \<in> {0, 1, 2, 3}" using assms by auto
  then show ?thesis by (auto simp: SET_WRITE_MASK_def vga_outw_def vga_outb_def push_bit_eq_mult low)
qed

lemma mask_bit: "i < 4 \<Longrightarrow> p < 4 \<Longrightarrow> bit (push_bit i 1 :: u8) p \<longleftrightarrow> p = i"
  by (auto simp: bit_push_bit_iff bit_1_iff simp del: push_bit_of_1)

text \<open>The planes that are copied, whatever was selected before.\<close>

definition plane_source :: "int \<Rightarrow> int \<Rightarrow> nat \<Rightarrow> int" where
  "plane_source p_off addr i = addr + ((p_off - int i + 4) mod 4) * SCROLL_SIZE + (if p_off < int i then 1 else 0)"

lemma show_planes_copies:
  assumes "distinct is" and "\<forall>i\<in>set is. i < 4 \<and> 0 \<le> plane_source p_off addr i \<and> plane_source p_off addr i + SCROLL_SIZE \<le> BUILD_BUF_SIZE"
  shows "\<exists>f g m. show_planes is p_off addr s = Some (s\<lparr>seq_index := f, seq := g, vmem := m\<rparr>) \<and>
    (\<forall>p b. m p b = (if p \<in> set is \<and> unat (target_img s) \<le> b \<and> b < unat (target_img s) + 14560
       then build s (plane_source p_off addr p + int (b - unat (target_img s))) else vmem s p b))"
  using assms
proof (induction "is" arbitrary: s)
  case Nil
  have "s = s\<lparr>seq_index := seq_index s, seq := seq s, vmem := vmem s\<rparr>" by simp
  then show ?case by (intro exI [of _ "seq_index s"] exI [of _ "seq s"] exI [of _ "vmem s"]) simp
next
  case (Cons i "is")
  let ?m = "s\<lparr>seq_index := 2, seq := (seq s)(2 := push_bit i 1)\<rparr>"
  let ?t = "unat (target_img s)"
  have i: "i < 4" "0 \<le> plane_source p_off addr i" "plane_source p_off addr i + int 14560 \<le> BUILD_BUF_SIZE" using Cons.prems(2) by simp_all
  obtain m where m: "copy_plane 14560 (plane_source p_off addr i) ?t ?m = Some (?m\<lparr>vmem := m\<rparr>)"
    "\<And>p b. m p b = (if ?t \<le> b \<and> b < ?t + 14560 \<and> p < 4 \<and> bit (push_bit i 1 :: u8) p
       then build s (plane_source p_off addr i + int (b - ?t)) else vmem s p b)"
    using copy_plane_copies [OF i(2,3), of ?t ?m] by auto
  obtain f g m' where m': "show_planes is p_off addr (?m\<lparr>vmem := m\<rparr>) = Some (?m\<lparr>vmem := m\<rparr>\<lparr>seq_index := f, seq := g, vmem := m'\<rparr>)"
    "\<And>p b. m' p b = (if p \<in> set is \<and> ?t \<le> b \<and> b < ?t + 14560 then build s (plane_source p_off addr p + int (b - ?t)) else m p b)"
    using Cons.IH [of "?m\<lparr>vmem := m\<rparr>"] Cons.prems by auto
  have "show_planes (i # is) p_off addr s = Some (s\<lparr>seq_index := f, seq := g, vmem := m'\<rparr>)"
    using m(1) m'(1) by (simp add: write_mask_plane [OF i(1)] copy_image_def plane_source_def del: push_bit_of_1)
  moreover have "m' p b = (if p \<in> set (i # is) \<and> ?t \<le> b \<and> b < ?t + 14560 then build s (plane_source p_off addr p + int (b - ?t)) else vmem s p b)" for p b
  proof (cases "p < 4")
    case True
    then show ?thesis unfolding m' m mask_bit [OF i(1) True] by auto
  next
    case False
    then have "p \<notin> set (i # is)" using Cons.prems(2) by auto
    then show ?thesis using False unfolding m' m by auto
  qed
  ultimately show ?case by blast
qed

subsection \<open>The screen\<close>

text \<open>The place of a pixel of the window in the source of its plane.\<close>

lemma address_plane:
  "address s (show_x s + int sx) (show_y s + int sy) =
    plane_source (3 - show_x s mod 4) (img3_off s + show_x s div 4 + show_y s * SCROLL_X_WIDTH) (sx mod 4) + int (80 * sy + sx div 4)"
proof -
  obtain q r where x: "show_x s = 4 * q + r" "0 \<le> r" "r < 4"
    using div_mult_mod_eq [of "show_x s" 4] by (metis mult.commute pos_mod_bound pos_mod_sign zero_less_numeral)
  obtain c i where i: "sx = 4 * c + i" "i < 4" using that [of "sx div 4" "sx mod 4"] by simp
  have m: "show_x s mod 4 = r" "show_x s div 4 = q" "sx mod 4 = i" "sx div 4 = c" using x i by simp_all
  have X: "show_x s + int sx = 4 * (q + int c) + (r + int i)" using x i by simp
  have "r + int i < 4 \<or> 4 \<le> r + int i" by linarith
  then show ?thesis
  proof
    assume lt: "r + int i < 4"
    have "(show_x s + int sx) div 4 = q + int c" "(show_x s + int sx) mod 4 = r + int i" unfolding X using lt x(2) by presburger+
    moreover have "(3 - r - int i + 4) mod 4 = 3 - r - int i" using lt x(2) by presburger
    ultimately show ?thesis using lt by (simp add: address_def plane_source_def m algebra_simps)
  next
    assume ge: "4 \<le> r + int i"
    have X': "show_x s + int sx = 4 * (q + int c + 1) + (r + int i - 4)" unfolding X by simp
    have "(show_x s + int sx) div 4 = q + int c + 1" "(show_x s + int sx) mod 4 = r + int i - 4" unfolding X' using ge x(3) i(2) by presburger+
    moreover have "(3 - r - int i + 4) mod 4 = 7 - r - int i" using ge x(3) i(2) by simp
    ultimately show ?thesis using ge by (simp add: address_def plane_source_def m algebra_simps)
  qed
qed

lemma plane_source_bounds:
  assumes "window_fits s" and "i < 4"
  shows "0 \<le> plane_source (3 - show_x s mod 4) (img3_off s + show_x s div 4 + show_y s * SCROLL_X_WIDTH) i"
    and "plane_source (3 - show_x s mod 4) (img3_off s + show_x s div 4 + show_y s * SCROLL_X_WIDTH) i + SCROLL_SIZE \<le> BUILD_BUF_SIZE"
proof -
  have corner: "in_window s (show_x s + int i) (show_y s)" "in_window s (show_x s + int (316 + i)) (show_y s + 181)"
    using assms(2) by (simp_all add: in_window_def)
  have "i mod 4 = i" "i div 4 = 0" "(316 + i) mod 4 = i" "(316 + i) div 4 = 79"
  proof -
    show "i mod 4 = i" "i div 4 = 0" using assms(2) by simp_all
    show "(316 + i) mod 4 = i" "(316 + i) div 4 = 79" using assms(2) by presburger+
  qed
  then show "0 \<le> plane_source (3 - show_x s mod 4) (img3_off s + show_x s div 4 + show_y s * SCROLL_X_WIDTH) i"
    "plane_source (3 - show_x s mod 4) (img3_off s + show_x s div 4 + show_y s * SCROLL_X_WIDTH) i + SCROLL_SIZE \<le> BUILD_BUF_SIZE"
    using address_bounds(1) [OF assms(1) corner(1)] address_bounds(2) [OF assms(1) corner(2)]
      address_plane [of s i 0] address_plane [of s "316 + i" 181] by simp_all
qed

text \<open>The two pages of video memory that \<^verbatim>\<open>show_screen\<close> takes turns with.\<close>

definition a_page :: "u16 \<Rightarrow> bool" where
  "a_page t \<longleftrightarrow> t = 0x5A00 \<or> t = 0x1A00"

lemma other_page: "a_page t \<Longrightarrow> a_page (t XOR 0x4000)"
  by (auto simp: a_page_def)

text \<open>The start address registers, set by two words.\<close>

lemma set_start_address:
  assumes "a_page t"
  shows "\<exists>i f. vga_outw 0x3D4 (push_bit 8 (t AND 0xFF) OR 0x0D) (vga_outw 0x3D4 ((t AND 0xFF00) OR 0x0C) d) = d\<lparr>crtc_index := i, crtc := f\<rparr> \<and>
    start_address (d\<lparr>crtc_index := i, crtc := f\<rparr>) = unat t \<and> split_row (d\<lparr>crtc_index := i, crtc := f\<rparr>) = split_row d \<and>
    row_bytes (d\<lparr>crtc_index := i, crtc := f\<rparr>) = row_bytes d"
proof -
  have low: "(23052 :: u8) = 0x0C" "(6668 :: u8) = 0x0C" "(0x5A0C :: u8) = 0x0C" "(0x1A0C :: u8) = 0x0C" by simp_all
  define f where "f = (crtc d)(0x0C := ucast (drop_bit 8 t), 0x0D := 0)"
  have "vga_outw 0x3D4 (push_bit 8 (t AND 0xFF) OR 0x0D) (vga_outw 0x3D4 ((t AND 0xFF00) OR 0x0C) d) = d\<lparr>crtc_index := 0x0D, crtc := f\<rparr>"
    using assms by (auto simp: a_page_def vga_outw_def vga_outb_def write_crtc_def low f_def)
  moreover have "start_address (d\<lparr>crtc_index := 0x0D, crtc := f\<rparr>) = unat t"
    using assms by (auto simp: a_page_def start_address_def f_def)
  moreover have "split_row (d\<lparr>crtc_index := 0x0D, crtc := f\<rparr>) = split_row d" "row_bytes (d\<lparr>crtc_index := 0x0D, crtc := f\<rparr>) = row_bytes d"
    by (simp_all add: split_row_def line_compare_def row_bytes_def f_def)
  ultimately show ?thesis by blast
qed

text \<open>What \<^verbatim>\<open>show_screen\<close> leaves: the buffer and the window, the palette, and video memory outside the new page.\<close>

lemma show_screen_result:
  assumes "window_fits s" and "a_page (target_img s)" and "in_mode_X s"
  shows "\<exists>s'. show_screen s = Some s' \<and> in_mode_X s' \<and> a_page (target_img s') \<and> target_img s' = target_img s XOR 0x4000 \<and>
    build s' = build s \<and> img3_off s' = img3_off s \<and> show_x s' = show_x s \<and> show_y s' = show_y s \<and> dac s' = dac s \<and>
    modex.more s' = modex.more s \<and> start_address s' = unat (target_img s') \<and>
    (\<forall>p b. \<not> (unat (target_img s') \<le> b \<and> b < unat (target_img s') + 14560) \<longrightarrow> vmem s' p b = vmem s p b) \<and>
    (\<forall>sx sy. sx < 320 \<longrightarrow> sy < 182 \<longrightarrow> displayed s' sx sy = pixel s (show_x s + int sx) (show_y s + int sy))"
proof -
  let ?t = "target_img s XOR 0x4000"
  let ?s = "s\<lparr>target_img := ?t\<rparr>"
  let ?addr = "img3_off s + show_x s div 4 + show_y s * SCROLL_X_WIDTH" and ?p = "3 - show_x s mod 4"
  have page: "a_page ?t" by (rule other_page [OF assms(2)])
  have "\<forall>i\<in>set [0..<4]. i < 4 \<and> 0 \<le> plane_source ?p ?addr i \<and> plane_source ?p ?addr i + SCROLL_SIZE \<le> BUILD_BUF_SIZE"
    using plane_source_bounds [OF assms(1)] by (auto simp del: upt_rec_numeral)
  then obtain f g m where m: "show_planes [0..<4] ?p ?addr ?s = Some (?s\<lparr>seq_index := f, seq := g, vmem := m\<rparr>)"
    "\<And>p b. m p b = (if p \<in> set [0..<4] \<and> unat ?t \<le> b \<and> b < unat ?t + 14560 then build s (plane_source ?p ?addr p + int (b - unat ?t)) else vmem s p b)"
    using show_planes_copies [of "[0..<4]" ?p ?addr ?s] by (auto simp del: upt_rec_numeral)
  let ?u = "?s\<lparr>seq_index := f, seq := g, vmem := m\<rparr>"
  obtain i c where ic: "vga_outw 0x3D4 (push_bit 8 (?t AND 0xFF) OR 0x0D) (vga_outw 0x3D4 ((?t AND 0xFF00) OR 0x0C) ?u) = ?u\<lparr>crtc_index := i, crtc := c\<rparr>"
    "start_address (?u\<lparr>crtc_index := i, crtc := c\<rparr>) = unat ?t" "split_row (?u\<lparr>crtc_index := i, crtc := c\<rparr>) = split_row ?u"
    "row_bytes (?u\<lparr>crtc_index := i, crtc := c\<rparr>) = row_bytes ?u"
    using set_start_address [OF page, of ?u] by blast
  let ?v = "?u\<lparr>crtc_index := i, crtc := c\<rparr>"
  have X: "split_row ?v = 182" "row_bytes ?v = 80" "in_mode_X ?v"
    using assms(3) ic(3,4) by (simp_all add: in_mode_X_def split_row_def row_bytes_def line_compare_def)
  have "displayed ?v sx sy = pixel s (show_x s + int sx) (show_y s + int sy)" if "sx < 320" "sy < 182" for sx sy
  proof -
    have k: "80 * sy + sx div 4 < 14560" using that by linarith
    have T: "unat ?t + 14560 \<le> 65536" using page by (auto simp: a_page_def)
    have "displayed ?v sx sy = m (sx mod 4) (unat ?t + (80 * sy + sx div 4))"
      using that k T ic(2) by (simp add: displayed_def X add.assoc)
    also have "\<dots> = build s (plane_source ?p ?addr (sx mod 4) + int (80 * sy + sx div 4))"
      using k unfolding m(2) by (simp del: upt_rec_numeral)
    finally show ?thesis unfolding pixel_def address_plane .
  qed
  moreover have "show_screen s = Some ?v"
    unfolding show_screen_def Let_def using m(1) ic(1) by (simp del: upt_rec_numeral vga_outw_def)
  ultimately show ?thesis using page X(3) ic(2) by (intro exI [of _ ?v]) (auto simp: m(2))
qed

end
