(* ===== verification/Statusbar.thy ===== *)
theory Statusbar
  imports Viewport Font
begin

text \<open>
  The status bar under the picture: \<^verbatim>\<open>text_to_image\<close> of \<^verbatim>\<open>mp2/text.c\<close> draws a message, or the name of the room and the
  player's typing, into a buffer of four planes; \<^verbatim>\<open>show_status_bar\<close> of \<^verbatim>\<open>mp2/modex.c\<close> copies it to the part of video
  memory that is shown below the split.  A character with the highest bit set would be a negative index into the
  font; it has the result \<open>None\<close>, as a write outside the buffer has.
\<close>

subsection \<open>Drawing text\<close>

text \<open>The address in the buffer, in the machine's unsigned arithmetic.\<close>

definition text_index :: "u32 \<Rightarrow> nat \<Rightarrow> int \<Rightarrow> nat \<Rightarrow> nat \<Rightarrow> nat" where
  "text_index base s offset row col =
     unat (2 * of_nat s + base + word_of_int ((offset - int col) mod 4) * 1440 + of_nat row * 80 + (if 3 < col then 1 else 0))"

definition text_cells :: "(nat \<times> nat) list" where
  "text_cells = [(row, col). row \<leftarrow> [1..<17], col \<leftarrow> [0..<8]]"

fun put_cells :: "(nat \<times> nat) list \<Rightarrow> nat \<Rightarrow> u32 \<Rightarrow> nat \<Rightarrow> int \<Rightarrow> u8 list \<Rightarrow> u8 list option" where
  "put_cells [] c base s offset buffer = Some buffer"
| "put_cells ((row, col) # cells) c base s offset buffer =
     (if glyph c (row - 1) col
      then let k = text_index base s offset row col
           in if k < 5760 then put_cells cells c base s offset (buffer[k := 0]) else None
      else put_cells cells c base s offset buffer)"

fun put_text :: "string \<Rightarrow> u32 \<Rightarrow> nat \<Rightarrow> int \<Rightarrow> u8 list \<Rightarrow> u8 list option" where
  "put_text [] base s offset buffer = Some buffer"
| "put_text (c # cs) base s offset buffer =
     (if 128 \<le> (of_char c :: nat) then None
      else Option.bind (put_cells text_cells (of_char c) base s offset buffer) (put_text cs base (s + 1) offset))"

definition text_to_image :: "bool \<Rightarrow> string \<Rightarrow> string \<Rightarrow> string \<Rightarrow> int \<Rightarrow> u8 list option" where
  "text_to_image memory cmd name msg offset =
     (if \<not> memory then None
      else let buffer = replicate (4 * 18 * 80) 3
           in if msg \<noteq> [] then put_text msg ((80 - 2 * of_nat (length msg)) div 2) 0 offset buffer
              else Option.bind (put_text name 0 0 offset buffer) (put_text cmd (2 * (79 - of_nat (length cmd) + 1)) 0 offset))"

definition copy_status_bar :: "u8 list \<Rightarrow> u16 \<Rightarrow> 'a modex_scheme \<Rightarrow> 'a modex_scheme" where
  "copy_status_bar img scr_addr s = fold (\<lambda>i. vput (unat scr_addr + i) (img ! i)) [0..<1440] s"

definition show_status_bar :: "bool \<Rightarrow> string \<Rightarrow> string \<Rightarrow> string \<Rightarrow> 'a modex_scheme \<Rightarrow> 'a modex_scheme option" where
  "show_status_bar memory cmd name msg s =
     (let p_off = 3 - show_x s mod 4
      in map_option (\<lambda>buffer. fold (\<lambda>i s. copy_status_bar (drop (nat ((p_off - int i + 4) mod 4) * 18 * 80) buffer) 0
             (SET_WRITE_MASK (push_bit (i + 8) 1) s)) [0..<4] s)
           (text_to_image memory cmd name msg p_off))"

subsection \<open>The text in the bar\<close>

text \<open>A string whose first character has its upper left pixel at \<open>(left, upper)\<close>.\<close>

definition black :: "nat \<Rightarrow> nat \<Rightarrow> string \<Rightarrow> nat \<Rightarrow> nat \<Rightarrow> bool" where
  "black left upper str x y \<longleftrightarrow> upper \<le> y \<and> y < upper + 16 \<and> left \<le> x \<and> x < left + 8 * length str \<and>
     glyph (of_char (str ! ((x - left) div 8))) (y - upper) ((x - left) mod 8)"

definition bar_text :: "string \<Rightarrow> string \<Rightarrow> string \<Rightarrow> nat \<Rightarrow> nat \<Rightarrow> bool" where
  "bar_text cmd name msg x y \<longleftrightarrow>
     (if msg \<noteq> [] then black (4 * (40 - length msg)) 1 msg x y
      else black 0 1 name x y \<or> black (320 - 8 * length cmd) 2 cmd x y)"

definition ascii :: "string \<Rightarrow> bool" where
  "ascii str \<longleftrightarrow> list_all (\<lambda>c. (of_char c :: nat) < 128) str"

text \<open>The place of a pixel of the bar in the buffer.\<close>

definition bar_address :: "int \<Rightarrow> nat \<Rightarrow> nat \<Rightarrow> nat" where
  "bar_address offset x y = nat ((offset - int x) mod 4) * 1440 + 80 * y + x div 4"

lemma put_cells_draws:
  assumes "length buffer = 5760" and "\<And>row col. (row, col) \<in> set cells \<Longrightarrow> text_index base s offset row col < 5760"
  shows "\<exists>b. put_cells cells c base s offset buffer = Some b \<and> length b = 5760 \<and> (\<forall>k<5760. b ! k =
    (if \<exists>(row, col)\<in>set cells. glyph c (row - 1) col \<and> k = text_index base s offset row col then 0 else buffer ! k))"
  using assms
proof (induction cells arbitrary: buffer)
  case (Cons p cells)
  obtain row col where p: "p = (row, col)" by (cases p)
  let ?k = "text_index base s offset row col"
  let ?buffer = "if glyph c (row - 1) col then buffer[?k := 0] else buffer"
  have k: "?k < 5760" using Cons.prems(2) by (simp add: p)
  have len: "length ?buffer = 5760" using Cons.prems(1) by simp
  have range: "text_index base s offset row col < 5760" if "(row, col) \<in> set cells" for row col using that Cons.prems(2) by simp
  obtain b where b: "put_cells cells c base s offset ?buffer = Some b" "length b = 5760" "\<And>k. k < 5760 \<Longrightarrow> b ! k =
      (if \<exists>(row, col)\<in>set cells. glyph c (row - 1) col \<and> k = text_index base s offset row col then 0 else ?buffer ! k)"
    using Cons.IH [OF len range] by blast
  have "put_cells (p # cells) c base s offset buffer = Some b" using b(1) k by (auto simp: p Let_def split: if_splits)
  moreover have "b ! k = (if \<exists>(row, col)\<in>set (p # cells). glyph c (row - 1) col \<and> k = text_index base s offset row col then 0 else buffer ! k)"
    if "k < 5760" for k
    using b(3) [OF that] Cons.prems(1) that by (auto simp: p nth_list_update)
  ultimately show ?case using b(2) by blast
qed simp

lemma put_string_draws:
  assumes "length buffer = 5760" and "ascii str"
    and "\<And>i row col. i < length str \<Longrightarrow> (row, col) \<in> set text_cells \<Longrightarrow> text_index base (s + i) offset row col < 5760"
  shows "\<exists>b. put_text str base s offset buffer = Some b \<and> length b = 5760 \<and> (\<forall>k<5760. b ! k =
    (if \<exists>i<length str. \<exists>(row, col)\<in>set text_cells. glyph (of_char (str ! i)) (row - 1) col \<and> k = text_index base (s + i) offset row col
     then 0 else buffer ! k))"
  using assms
proof (induction str arbitrary: s buffer)
  case (Cons c str)
  obtain b1 where b1: "put_cells text_cells (of_char c) base s offset buffer = Some b1" "length b1 = 5760" "\<And>k. k < 5760 \<Longrightarrow> b1 ! k =
      (if \<exists>(row, col)\<in>set text_cells. glyph (of_char c) (row - 1) col \<and> k = text_index base s offset row col then 0 else buffer ! k)"
    using put_cells_draws [of buffer text_cells base s offset "of_char c"] Cons.prems(1) Cons.prems(3) [of 0] by auto
  have range: "text_index base (s + 1 + i) offset row col < 5760" if "i < length str" "(row, col) \<in> set text_cells" for i row col
    using Cons.prems(3) [of "Suc i" row col] that by simp
  obtain b where b: "put_text str base (s + 1) offset b1 = Some b" "length b = 5760" "\<And>k. k < 5760 \<Longrightarrow> b ! k =
      (if \<exists>i<length str. \<exists>(row, col)\<in>set text_cells. glyph (of_char (str ! i)) (row - 1) col \<and> k = text_index base (s + 1 + i) offset row col
       then 0 else b1 ! k)"
    using Cons.IH [OF b1(2) _ range] Cons.prems(2) by (auto simp: ascii_def)
  have "put_text (c # str) base s offset buffer = Some b" using b1(1) b(1) Cons.prems(2) by (simp add: ascii_def)
  moreover have "b ! k = (if \<exists>i<length (c # str). \<exists>(row, col)\<in>set text_cells. glyph (of_char ((c # str) ! i)) (row - 1) col \<and>
      k = text_index base (s + i) offset row col then 0 else buffer ! k)" if "k < 5760" for k
    unfolding b(3) [OF that] b1(3) [OF that] length_Cons Ex_less_Suc2 by auto
  ultimately show ?case using b(2) by blast
qed simp

text \<open>A string at the word \<open>80 * t + c\<close> of a plane is at the column \<open>4 * c\<close> and the row \<open>t + 1\<close>.\<close>

lemma text_cells_set: "(row, col) \<in> set text_cells \<longleftrightarrow> 1 \<le> row \<and> row < 17 \<and> col < 8"
  by (auto simp: text_cells_def image_iff simp del: upt_rec_numeral One_nat_def)

lemma text_index_place:
  assumes "base = of_nat (80 * t + c)" and "t \<le> 1" and "c + 2 * n \<le> 80" and "i < n" and "(row, col) \<in> set text_cells"
  shows "text_index base i offset row col =
    nat ((offset - int col) mod 4) * 1440 + (80 * (row + t) + (c + 2 * i + col div 4))" and "text_index base i offset row col < 5760"
proof -
  let ?q = "nat ((offset - int col) mod 4)"
  let ?k = "?q * 1440 + (80 * (row + t) + (c + 2 * i + col div 4))"
  have rc: "1 \<le> row" "row < 17" "col < 8" using assms(5) by (simp_all add: text_cells_set)
  have q: "?q < 4" by (simp add: nat_less_iff)
  have "col div 4 \<le> 1" using rc(3) by linarith
  then have b: "80 * (row + t) + (c + 2 * i + col div 4) < 1440" using assms(2-4) rc by simp
  have h: "(if 3 < col then 1 else 0 :: u32) = of_nat (col div 4)"
  proof (cases "3 < col")
    case True
    then have "col div 4 = 1" using rc(3) by simp
    then show ?thesis using True by simp
  qed simp
  have "(word_of_int ((offset - int col) mod 4) :: u32) = of_nat ?q" by simp
  then have "2 * of_nat i + base + word_of_int ((offset - int col) mod 4) * 1440 + of_nat row * 80 + (if 3 < col then 1 else 0) = (of_nat ?k :: u32)"
    unfolding h assms(1) by (simp only: of_nat_add of_nat_mult of_nat_numeral) (simp add: algebra_simps)
  then have "text_index base i offset row col = unat (of_nat ?k :: u32)" unfolding text_index_def by (rule arg_cong)
  also have "\<dots> = ?k" using q b by (subst unat_of_nat) (simp add: take_bit_nat_eq_self)
  finally show k: "text_index base i offset row col = ?k" .
  show "text_index base i offset row col < 5760" unfolding k using q b by linarith
qed

lemma bar_address_less:
  assumes "x < 320" and "y < 18"
  shows "80 * y + x div 4 < 1440" and "bar_address offset x y < 5760"
proof -
  show "80 * y + x div 4 < 1440" using assms by linarith
  moreover have "nat ((offset - int x) mod 4) < 4" by (simp add: nat_less_iff)
  ultimately show "bar_address offset x y < 5760" unfolding bar_address_def by linarith
qed

lemma text_index_pixel:
  assumes "base = of_nat (80 * t + c)" and "t \<le> 1" and "c + 2 * n \<le> 80" and "i < n" and "(row, col) \<in> set text_cells"
    and "x < 320" and "y < 18"
  shows "bar_address offset x y = text_index base i offset row col \<longleftrightarrow> y = row + t \<and> x = 4 * c + 8 * i + col"
proof
  let ?a = "nat ((offset - int x) mod 4)" and ?b = "nat ((offset - int col) mod 4)"
  let ?u = "80 * y + x div 4" and ?v = "80 * (row + t) + (c + 2 * i + col div 4)"
  have rc: "1 \<le> row" "row < 17" "col < 8" using assms(5) by (simp_all add: text_cells_set)
  note index = text_index_place(1) [OF assms(1-5), of offset]
  {
    assume "bar_address offset x y = text_index base i offset row col"
    then have e: "?a * 1440 + ?u = ?b * 1440 + ?v" by (simp add: index bar_address_def)
    have u: "?u < 1440" by (rule bar_address_less(1) [OF assms(6,7)])
    have col: "col div 4 \<le> 1" using rc(3) by linarith
    then have v: "?v < 1440" using assms(2-4) rc by simp
    have "?a = ?b" using arg_cong [OF e, of "\<lambda>k. k div 1440"] u v by simp
    then have "(offset - int x) mod 4 = (offset - int col) mod 4" by (simp add: nat_eq_iff)
    then have "4 dvd int col - int x" by (simp add: mod_eq_dvd_iff)
    then have m: "x mod 4 = col mod 4" by presburger
    have uv: "?u = ?v" using e \<open>?a = ?b\<close> by simp
    have "x div 4 < 80" "c + 2 * i + col div 4 < 80" using assms(3,4,6) col by simp_all
    moreover have "a = a' \<and> b = b'" if "80 * a + b = 80 * a' + b'" "b < 80" "b' < 80" for a b a' b' :: nat
      using that by (cases a a' rule: linorder_cases) simp_all
    ultimately have "y = row + t" "x div 4 = c + 2 * i + col div 4" using uv by blast+
    then show "y = row + t \<and> x = 4 * c + 8 * i + col"
      using m div_mult_mod_eq [of x 4] div_mult_mod_eq [of col 4] by linarith
  }
  assume xy: "y = row + t \<and> x = 4 * c + 8 * i + col"
  then have "x = col + 4 * (c + 2 * i)" by simp
  then have "x div 4 = c + 2 * i + col div 4" by presburger
  moreover have "(offset - int x) mod 4 = (offset - int col) mod 4"
    unfolding mod_eq_dvd_iff by (rule dvdI [of _ _ "- (int c + 2 * int i)"]) (simp add: \<open>x = col + 4 * (c + 2 * i)\<close>)
  ultimately have "x div 4 = c + 2 * i + col div 4" "(offset - int x) mod 4 = (offset - int col) mod 4" by simp_all
  then show "bar_address offset x y = text_index base i offset row col" using xy by (simp add: index bar_address_def)
qed

lemma put_string_black:
  assumes "base = of_nat (80 * t + c)" and "t \<le> 1" and "c + 2 * length str \<le> 80" and "length buffer = 5760" and "ascii str"
  shows "\<exists>b. put_text str base 0 offset buffer = Some b \<and> length b = 5760 \<and> (\<forall>x y. x < 320 \<longrightarrow> y < 18 \<longrightarrow>
    b ! bar_address offset x y = (if black (4 * c) (t + 1) str x y then 0 else buffer ! bar_address offset x y))"
proof -
  note place = text_index_place(2) [OF assms(1-3), of _ _ _ offset]
  obtain b where b: "put_text str base 0 offset buffer = Some b" "length b = 5760" "\<And>k. k < 5760 \<Longrightarrow> b ! k =
    (if \<exists>i<length str. \<exists>(row, col)\<in>set text_cells. glyph (of_char (str ! i)) (row - 1) col \<and> k = text_index base i offset row col
     then 0 else buffer ! k)"
    using put_string_draws [OF assms(4,5), of base 0 offset] place by auto
  have "b ! bar_address offset x y = (if black (4 * c) (t + 1) str x y then 0 else buffer ! bar_address offset x y)" if xy: "x < 320" "y < 18" for x y
  proof -
    have "(\<exists>i<length str. \<exists>(row, col)\<in>set text_cells. glyph (of_char (str ! i)) (row - 1) col \<and>
        bar_address offset x y = text_index base i offset row col) \<longleftrightarrow>
      (\<exists>i<length str. \<exists>(row, col)\<in>set text_cells. glyph (of_char (str ! i)) (row - 1) col \<and> y = row + t \<and> x = 4 * c + 8 * i + col)"
      using text_index_pixel [OF assms(1-3) _ _ xy, of _ _ _ offset] by blast
    also have "\<dots> \<longleftrightarrow> black (4 * c) (t + 1) str x y"
    proof
      assume "black (4 * c) (t + 1) str x y"
      then have bl: "t + 1 \<le> y" "y < t + 17" "4 * c \<le> x" "x < 4 * c + 8 * length str"
        "glyph (of_char (str ! ((x - 4 * c) div 8))) (y - (t + 1)) ((x - 4 * c) mod 8)" by (simp_all add: black_def)
      have "(x - 4 * c) div 8 < length str" "x = 4 * c + 8 * ((x - 4 * c) div 8) + (x - 4 * c) mod 8" "(x - 4 * c) mod 8 < 8"
        using bl(3,4) by (auto simp: less_mult_imp_div_less mult.commute)
      moreover have "(y - t, (x - 4 * c) mod 8) \<in> set text_cells" using bl(1,2) by (auto simp: text_cells_set)
      moreover have "y - t - 1 = y - (t + 1)" "y = y - t + t" using bl(1) by simp_all
      ultimately show "\<exists>i<length str. \<exists>(row, col)\<in>set text_cells. glyph (of_char (str ! i)) (row - 1) col \<and> y = row + t \<and> x = 4 * c + 8 * i + col"
        using bl(5) by (metis (mono_tags, lifting) case_prodI)
    next
      assume "\<exists>i<length str. \<exists>(row, col)\<in>set text_cells. glyph (of_char (str ! i)) (row - 1) col \<and> y = row + t \<and> x = 4 * c + 8 * i + col"
      then obtain i row col where "i < length str" "(row, col) \<in> set text_cells" "glyph (of_char (str ! i)) (row - 1) col"
        "y = row + t" "x = 4 * c + (8 * i + col)" by auto
      moreover have "(8 * i + col) div 8 = i" "(8 * i + col) mod 8 = col" using calculation(2) by (simp_all add: text_cells_set)
      ultimately show "black (4 * c) (t + 1) str x y" by (auto simp: black_def text_cells_set)
    qed
    finally show ?thesis unfolding b(3) [OF bar_address_less(2) [OF xy]] by simp
  qed
  then show ?thesis using b(1,2) by blast
qed

lemma text_to_image_text:
  assumes "ascii msg" "length msg \<le> 40" and "ascii name" "length name \<le> 40" and "ascii cmd" "length cmd \<le> 40"
  shows "\<exists>b. text_to_image True cmd name msg offset = Some b \<and> length b = 5760 \<and> (\<forall>x y. x < 320 \<longrightarrow> y < 18 \<longrightarrow>
    b ! bar_address offset x y = (if bar_text cmd name msg x y then 0 else 3))"
proof -
  let ?buffer = "replicate 5760 (3 :: u8)"
  have empty: "?buffer ! bar_address offset x y = 3" if "x < 320" "y < 18" for x y
    using bar_address_less(2) [OF that] by simp
  show ?thesis
  proof (cases "msg = []")
    case False
    have two: "80 - 2 * of_nat (length msg) = (of_nat (80 - 2 * length msg) :: u32)" using assms(2) by (simp add: of_nat_diff)
    have "(of_nat (80 - 2 * length msg) :: u32) div 2 = of_nat (80 * 0 + (40 - length msg))"
      using assms(2) by (simp add: word_unat_eq_iff unat_div_distrib unat_of_nat take_bit_nat_eq_self del: of_nat_diff)
    then obtain b where "put_text msg ((80 - 2 * of_nat (length msg)) div 2) 0 offset ?buffer = Some b" "length b = 5760"
      "\<And>x y. x < 320 \<Longrightarrow> y < 18 \<Longrightarrow> b ! bar_address offset x y =
         (if black (4 * (40 - length msg)) (0 + 1) msg x y then 0 else ?buffer ! bar_address offset x y)"
      using put_string_black [of "(80 - 2 * of_nat (length msg)) div 2" 0 "40 - length msg" msg ?buffer offset] assms(1,2)
      unfolding two by auto
    then show ?thesis using False empty by (auto simp: text_to_image_def bar_text_def)
  next
    case True
    obtain b1 where b1: "put_text name 0 0 offset ?buffer = Some b1" "length b1 = 5760"
      "\<And>x y. x < 320 \<Longrightarrow> y < 18 \<Longrightarrow> b1 ! bar_address offset x y =
         (if black (4 * 0) (0 + 1) name x y then 0 else ?buffer ! bar_address offset x y)"
      using put_string_black [of 0 0 0 name ?buffer offset] assms(3,4) by auto
    have "2 * (79 - of_nat (length cmd) + 1) = (of_nat (80 * 1 + (80 - 2 * length cmd)) :: u32)" using assms(6) by (simp add: of_nat_diff)
    then obtain b where "put_text cmd (2 * (79 - of_nat (length cmd) + 1)) 0 offset b1 = Some b" "length b = 5760"
      "\<And>x y. x < 320 \<Longrightarrow> y < 18 \<Longrightarrow> b ! bar_address offset x y =
         (if black (4 * (80 - 2 * length cmd)) (1 + 1) cmd x y then 0 else b1 ! bar_address offset x y)"
      using put_string_black [of "2 * (79 - of_nat (length cmd) + 1)" 1 "80 - 2 * length cmd" cmd b1 offset] assms(5,6) b1(2) by auto
    moreover have "4 * (80 - 2 * length cmd) = 320 - 8 * length cmd" "(1 + 1 :: nat) = 2" by simp_all
    ultimately show ?thesis using True b1(1,3) empty by (auto simp: text_to_image_def bar_text_def numeral_2_eq_2 [symmetric])
  qed
qed

subsection \<open>The bar on the screen\<close>

lemma copy_status_bar_copies:
  "\<exists>m. copy_status_bar img a s = s\<lparr>vmem := m\<rparr> \<and> (\<forall>p b. m p b =
     (if unat a \<le> b \<and> b < unat a + 1440 \<and> p < 4 \<and> bit (seq s 2) p then img ! (b - unat a) else vmem s p b))"
proof -
  have "\<exists>m. fold (\<lambda>i. vput (unat a + i) (img ! i)) [0..<n] s = s\<lparr>vmem := m\<rparr> \<and> (\<forall>p b. m p b =
     (if unat a \<le> b \<and> b < unat a + n \<and> p < 4 \<and> bit (seq s 2) p then img ! (b - unat a) else vmem s p b))" for n
  proof (induction n)
    case 0
    then show ?case by (intro exI [of _ "vmem s"]) auto
  next
    case (Suc n)
    then obtain m where "fold (\<lambda>i. vput (unat a + i) (img ! i)) [0..<n] s = s\<lparr>vmem := m\<rparr>" and m: "\<forall>p b. m p b =
      (if unat a \<le> b \<and> b < unat a + n \<and> p < 4 \<and> bit (seq s 2) p then img ! (b - unat a) else vmem s p b)" by blast
    then have "fold (\<lambda>i. vput (unat a + i) (img ! i)) [0..<Suc n] s =
        s\<lparr>vmem := \<lambda>p b. if b = unat a + n \<and> p < 4 \<and> bit (seq s 2) p then img ! n else m p b\<rparr>"
      by (simp add: vput_def cong: if_cong)
    then show ?case by (intro exI conjI) (assumption, auto simp: m)
  qed
  then show ?thesis unfolding copy_status_bar_def by blast
qed

lemma show_bar_planes:
  assumes "distinct is" and "\<forall>i\<in>set is. i < 4"
  shows "\<exists>f g m. fold (\<lambda>i s. copy_status_bar (img i) 0 (SET_WRITE_MASK (push_bit (i + 8) 1) s)) is s = s\<lparr>seq_index := f, seq := g, vmem := m\<rparr> \<and>
    (\<forall>p b. m p b = (if p \<in> set is \<and> b < 1440 then img p ! b else vmem s p b))"
  using assms
proof (induction "is" arbitrary: s)
  case Nil
  have "s = s\<lparr>seq_index := seq_index s, seq := seq s, vmem := vmem s\<rparr>" by simp
  then show ?case by (intro exI [of _ "seq_index s"] exI [of _ "seq s"] exI [of _ "vmem s"]) simp
next
  case (Cons i "is")
  have i: "i < 4" using Cons.prems(2) by simp
  let ?m = "s\<lparr>seq_index := 2, seq := (seq s)(2 := push_bit i 1)\<rparr>"
  obtain m where m: "copy_status_bar (img i) 0 ?m = ?m\<lparr>vmem := m\<rparr>"
    "\<And>p b. m p b = (if b < 1440 \<and> p < 4 \<and> bit (push_bit i 1 :: u8) p then img i ! b else vmem s p b)"
    using copy_status_bar_copies [of "img i" 0 ?m] by auto
  obtain f g m' where m': "fold (\<lambda>i s. copy_status_bar (img i) 0 (SET_WRITE_MASK (push_bit (i + 8) 1) s)) is (?m\<lparr>vmem := m\<rparr>) =
      ?m\<lparr>vmem := m\<rparr>\<lparr>seq_index := f, seq := g, vmem := m'\<rparr>"
    "\<And>p b. m' p b = (if p \<in> set is \<and> b < 1440 then img p ! b else m p b)"
    using Cons.IH [of "?m\<lparr>vmem := m\<rparr>"] Cons.prems by auto
  have "fold (\<lambda>i s. copy_status_bar (img i) 0 (SET_WRITE_MASK (push_bit (i + 8) 1) s)) (i # is) s = s\<lparr>seq_index := f, seq := g, vmem := m'\<rparr>"
    using m(1) m'(1) by (simp add: write_mask_plane [OF i] del: push_bit_of_1)
  moreover have "m' p b = (if p \<in> set (i # is) \<and> b < 1440 then img p ! b else vmem s p b)" for p b
  proof (cases "p < 4")
    case True
    then show ?thesis unfolding m' m mask_bit [OF i True] by auto
  next
    case False
    then have "p \<notin> set (i # is)" using Cons.prems(2) by auto
    then show ?thesis using False unfolding m' m by auto
  qed
  ultimately show ?case by blast
qed

text \<open>The bar is shown below the split, and the picture above it stays.\<close>

lemma show_status_bar_result:
  assumes "ascii msg" "length msg \<le> 40" and "ascii name" "length name \<le> 40" and "ascii cmd" "length cmd \<le> 40"
    and "in_mode_X s" and "start_address s \<in> {0x1A00, 0x5A00}"
  shows "\<exists>f g m. show_status_bar True cmd name msg s = Some (s\<lparr>seq_index := f, seq := g, vmem := m\<rparr>) \<and>
    (\<forall>x y. x < 320 \<longrightarrow> y < 18 \<longrightarrow> displayed (s\<lparr>seq_index := f, seq := g, vmem := m\<rparr>) x (182 + y) = (if bar_text cmd name msg x y then 0 else 3)) \<and>
    (\<forall>x y. x < 320 \<longrightarrow> y < 182 \<longrightarrow> displayed (s\<lparr>seq_index := f, seq := g, vmem := m\<rparr>) x y = displayed s x y) \<and>
    (\<forall>p b. 1440 \<le> b \<longrightarrow> m p b = vmem s p b)"
proof -
  let ?p = "3 - show_x s mod 4"
  obtain b where b: "text_to_image True cmd name msg ?p = Some b" "length b = 5760"
    "\<And>x y. x < 320 \<Longrightarrow> y < 18 \<Longrightarrow> b ! bar_address ?p x y = (if bar_text cmd name msg x y then 0 else 3)"
    using text_to_image_text [OF assms(1-6), of ?p] by blast
  let ?img = "\<lambda>i. drop (nat ((?p - int i + 4) mod 4) * 18 * 80) b"
  obtain f g m where m: "fold (\<lambda>i s. copy_status_bar (?img i) 0 (SET_WRITE_MASK (push_bit (i + 8) 1) s)) [0..<4] s = s\<lparr>seq_index := f, seq := g, vmem := m\<rparr>"
    "\<And>p k. m p k = (if p \<in> set [0..<4] \<and> k < 1440 then ?img p ! k else vmem s p k)"
    using show_bar_planes [of "[0..<4]" ?img s] by (auto simp del: upt_rec_numeral)
  let ?v = "s\<lparr>seq_index := f, seq := g, vmem := m\<rparr>"
  have X: "split_row ?v = 182" "row_bytes ?v = 80" "split_row s = 182" "row_bytes s = 80" "start_address ?v = start_address s"
    using assms(7) by (simp_all add: in_mode_X_def split_row_def row_bytes_def line_compare_def start_address_def)
  have "displayed ?v x (182 + y) = (if bar_text cmd name msg x y then 0 else 3)" if "x < 320" "y < 18" for x y
  proof -
    have k: "80 * y + x div 4 < 1440" by (rule bar_address_less(1) [OF that])
    have "4 * int (x div 4) + int (x mod 4) = int x" by (simp add: zdiv_int zmod_int)
    then have "?p - int (x mod 4) + 4 = ?p - int x + 4 * (int (x div 4) + 1)" by simp
    then have plane: "(?p - int (x mod 4) + 4) mod 4 = (?p - int x) mod 4" by (metis mod_mult_self2)
    have "displayed ?v x (182 + y) = ?img (x mod 4) ! (80 * y + x div 4)"
      using k by (simp add: displayed_def X m(2))
    also have "\<dots> = b ! bar_address ?p x y"
      unfolding plane bar_address_def using k b(2) bar_address_less(2) [OF that, of ?p, unfolded bar_address_def]
      by (subst nth_drop) (simp_all add: add.assoc mult.assoc)
    finally show ?thesis using b(3) [OF that] by simp
  qed
  moreover have "displayed ?v x y = displayed s x y" if "x < 320" "y < 182" for x y
  proof -
    have "80 * y + x div 4 < 14560" using that by linarith
    then have "1440 \<le> (start_address s + 80 * y + x div 4) mod 65536" using assms(8) by auto
    then show ?thesis using that by (simp add: displayed_def X m(2))
  qed
  moreover have "show_status_bar True cmd name msg s = Some ?v"
    unfolding show_status_bar_def Let_def b(1) using m(1) by (simp del: upt_rec_numeral)
  ultimately show ?thesis using m(2) by (intro exI [of _ f] exI [of _ g] exI [of _ m]) auto
qed

end
