(* ===== verification/Looks.thy ===== *)
theory Looks
  imports Game Statusbar
begin

text \<open>
  What the commands of the game mean for the display: a command that does not ask for drawing leaves every room and
  object as they are, one that asks for drawing keeps the player's room and the photos, and photos, names and messages
  always suit the screen.
\<close>

subsection \<open>Photos, names and messages that suit the screen\<close>

definition good_photo :: "photo_t \<Rightarrow> bool" where
  "good_photo p \<longleftrightarrow> 320 \<le> uint (hdr_width (photo_hdr p)) \<and> 182 \<le> uint (hdr_height (photo_hdr p)) \<and> length (palette p) = 192"

definition pictures_ok :: "world \<Rightarrow> bool" where
  "pictures_ok w \<longleftrightarrow> (\<forall>r. r < N_ROOMS \<longrightarrow> (\<exists>p. view (room w r) = Some p \<and> good_photo p)) \<and>
     (\<forall>k. k < N_SWAPS \<longrightarrow> (\<exists>p. swap_photo w k = Some p \<and> good_photo p))"

definition names_ok :: "world \<Rightarrow> bool" where
  "names_ok w \<longleftrightarrow> (\<forall>r. r < N_ROOMS \<longrightarrow> (\<exists>n. room_name (room w r) = Some n \<and> ascii n \<and> length n \<le> 40))"

definition message_ok :: "world \<Rightarrow> bool" where
  "message_ok w \<longleftrightarrow> ascii (status_msg w) \<and> length (status_msg w) \<le> 40"

lemma ascii_simps [simp]: "ascii []" "ascii (c # cs) \<longleftrightarrow> \<not> digit7 c \<and> ascii cs"
proof -
  have "(of_char c :: nat) < 128 \<longleftrightarrow> \<not> digit7 c"
    by (cases c) (auto simp: of_char_Char of_bool_def)
  then show "ascii []" "ascii (c # cs) \<longleftrightarrow> \<not> digit7 c \<and> ascii cs" by (simp_all add: ascii_def)
qed

lemma ascii_take: "ascii s \<Longrightarrow> ascii (take n s)"
  by (auto simp: ascii_def list_all_iff dest: in_set_takeD)

lemma message_simps [simp]:
  "ascii s \<Longrightarrow> message_ok (show_status s w)" "message_ok (do_photo_swap r k w) = message_ok w" "message_ok (player_set_flag f w) = message_ok w"
  "message_ok (remove_object ob w) = message_ok w" "message_ok (insert_object_at ob r x y w) = message_ok w"
  "message_ok (w\<lparr>rands := g\<rparr>) = message_ok w" "message_ok (set_room r v w) = message_ok w"
  by (simp_all add: message_ok_def show_status_def ascii_take do_photo_swap_def Let_def player_set_flag_def)

lemma message_inserted: "inserted ob r w w' \<Longrightarrow> message_ok w' = message_ok w"
  by (auto simp: inserted_def)

lemmas message_inserts [simp] = message_inserted [OF inserted_move] message_inserted [OF inserted_insert]

lemma pictures_simps [simp]:
  "pictures_ok (show_status s w) = pictures_ok w" "pictures_ok (player_set_flag f w) = pictures_ok w"
  "pictures_ok (remove_object ob w) = pictures_ok w" "pictures_ok (insert_object_at ob r x y w) = pictures_ok w"
  "pictures_ok (move_object_to_inventory ob w) = pictures_ok w" "pictures_ok (insert_object ob r w) = pictures_ok w"
  "pictures_ok (w\<lparr>rands := g\<rparr>) = pictures_ok w" "pictures_ok (set_room r ((room w r)\<lparr>room_enter := e\<rparr>) w) = pictures_ok w"
  by (simp_all add: pictures_ok_def) auto

lemma pictures_swap [simp]: "pictures_ok w \<Longrightarrow> r < N_ROOMS \<Longrightarrow> k < N_SWAPS \<Longrightarrow> pictures_ok (do_photo_swap r k w)"
  by (auto simp: pictures_ok_def do_photo_swap_def Let_def)

subsection \<open>What a command asks for\<close>

definition suits :: "nat \<Rightarrow> world \<Rightarrow> outcome \<Rightarrow> bool" where
  "suits r w x \<longleftrightarrow> (case x of (t, d, w') \<Rightarrow> pictures_ok w' \<and> message_ok w' \<and> (\<forall>q. room_name (room w' q) = room_name (room w q)) \<and>
     (t \<in> {TC_ALLOW_EDIT, TC_DISCARD_TEXT} \<longrightarrow> d = Some r \<and> room w' = room w \<and> object w' = object w) \<and>
     (t = TC_REDRAW_ROOM \<longrightarrow> d = Some r \<and> (\<forall>q. view (room w' q) = view (room w q))))"

lemma suits_pair [simp]:
  "suits r w (TC_ALLOW_EDIT, d, v) \<longleftrightarrow> pictures_ok v \<and> message_ok v \<and> d = Some r \<and> room v = room w \<and> object v = object w"
  "suits r w (TC_DISCARD_TEXT, d, v) \<longleftrightarrow> pictures_ok v \<and> message_ok v \<and> d = Some r \<and> room v = room w \<and> object v = object w"
  "suits r w (TC_REDRAW_ROOM, d, v) \<longleftrightarrow> pictures_ok v \<and> message_ok v \<and> (\<forall>q. room_name (room v q) = room_name (room w q)) \<and> d = Some r \<and>
     (\<forall>q. view (room v q) = view (room w q))"
  "suits r w (TC_CHANGE_ROOM, d, v) \<longleftrightarrow> pictures_ok v \<and> message_ok v \<and> (\<forall>q. room_name (room v q) = room_name (room w q))"
  by (auto simp: suits_def)

lemma suits_tell [simp]:
  "suits r w (tell TC_ALLOW_EDIT d s v) \<longleftrightarrow> pictures_ok v \<and> message_ok (show_status s v) \<and> d = r \<and> room v = room w \<and> object v = object w"
  "suits r w (tell TC_DISCARD_TEXT d s v) \<longleftrightarrow> pictures_ok v \<and> message_ok (show_status s v) \<and> d = r \<and> room v = room w \<and> object v = object w"
  "suits r w (tell TC_REDRAW_ROOM d s v) \<longleftrightarrow> pictures_ok v \<and> message_ok (show_status s v) \<and> (\<forall>q. room_name (room v q) = room_name (room w q)) \<and>
     d = r \<and> (\<forall>q. view (room v q) = view (room w q))"
  "suits r w (tell TC_CHANGE_ROOM d s v) \<longleftrightarrow> pictures_ok v \<and> message_ok (show_status s v) \<and> (\<forall>q. room_name (room v q) = room_name (room w q))"
  by (simp_all add: tell_def)

lemma moves_suit:
  assumes "pictures_ok w" and "message_ok w"
  shows "suits r w (enter_room d w)" "suits r w (try_to_move_left r w)" "suits r w (try_to_move_right r w)"
proof -
  show e: "suits r w (enter_room d w)" for d using assms by (auto simp: enter_room_def rand_def)
  show "suits r w (try_to_move_left r w)" "suits r w (try_to_move_right r w)"
    using assms e by (auto simp: try_to_move_left_def try_to_move_right_def split: option.split)
qed

lemma enter_suits:
  assumes "pictures_ok w" and "message_ok w"
  shows "suits r w (try_to_enter r w)"
proof -
  have "ascii (advice ! (v mod 8))" for v
  proof -
    have "list_all ascii advice" by (simp add: advice_def)
    moreover have "length advice = 8" by (simp add: advice_def)
    ultimately show ?thesis by (simp add: list_all_length)
  qed
  then show ?thesis using assms moves_suit(1) [OF assms] by (simp add: try_to_enter_def rand_def split: option.split)
qed

lemma typed_suits:
  assumes "pictures_ok w" and "message_ok w" and "r < N_ROOMS"
  shows "suits r w (typed_cmd_buy r arg w)" "suits r w (typed_cmd_charge r arg w)" "suits r w (typed_cmd_do r arg w)"
    "suits r w (typed_cmd_drink r arg w)" "suits r w (typed_cmd_fix r arg w)" "suits r w (typed_cmd_flash r arg w)"
    "suits r w (typed_cmd_go r arg w)" "suits r w (typed_cmd_install r arg w)" "suits r w (typed_cmd_inventory r arg w)"
    "suits r w (typed_cmd_sigh r arg w)" "suits r w (typed_cmd_use r arg w)" "suits r w (typed_cmd_wear r arg w)"
proof -
  show "suits r w (typed_cmd_buy r arg w)" using assms by (simp add: typed_cmd_buy_def)
  show "suits r w (typed_cmd_charge r arg w)" using assms by (simp add: typed_cmd_charge_def)
  show "suits r w (typed_cmd_do r arg w)" using assms by (simp add: typed_cmd_do_def)
  show "suits r w (typed_cmd_drink r arg w)" using assms by (simp add: typed_cmd_drink_def)
  show "suits r w (typed_cmd_fix r arg w)" using assms by (simp add: typed_cmd_fix_def)
  show "suits r w (typed_cmd_flash r arg w)" using assms by (simp add: typed_cmd_flash_def)
  show "suits r w (typed_cmd_go r arg w)" using assms by (simp add: typed_cmd_go_def)
  show "suits r w (typed_cmd_install r arg w)" using assms by (simp add: typed_cmd_install_def Let_def)
  show "suits r w (typed_cmd_inventory r arg w)" using assms by (simp add: typed_cmd_inventory_def)
  show "suits r w (typed_cmd_sigh r arg w)" using assms by (simp add: typed_cmd_sigh_def)
  show "suits r w (typed_cmd_use r arg w)" using assms by (simp add: typed_cmd_use_def)
  show "suits r w (typed_cmd_wear r arg w)" using assms by (simp add: typed_cmd_wear_def)
qed

lemma drop_suits:
  assumes "pictures_ok w" and "message_ok w"
  shows "suits r w (typed_cmd_drop r arg w)"
  using assms by (simp add: typed_cmd_drop_def Let_def split: option.split)

lemma get_suits:
  assumes "pictures_ok w" and "message_ok w"
  shows "suits r w (typed_cmd_get r arg w)"
proof -
  obtain obj v where g: "obj_special_get (standing_in r w) arg w = (obj, v)" by (cases "obj_special_get (standing_in r w) arg w")
  have v: "pictures_ok v" "message_ok v" "\<And>q. room_name (room v q) = room_name (room w q)" "\<And>q. view (room v q) = view (room w q)"
    using g assms by (auto simp: obj_special_get_def split: if_splits)
  have "room v = room w \<and> object v = object w" if "obj = None \<or> obj = Some O_TUX"
    using g that by (auto simp: obj_special_get_def split: if_splits)
  then show ?thesis using assms v by (auto simp: typed_cmd_get_def Let_def g split: option.split)
qed

lemma perform_suits:
  assumes "pictures_ok w" and "message_ok w" and "r < N_ROOMS"
  shows "suits r w (perform a r w)"
proof (cases a)
  case (Typed c arg)
  then show ?thesis using typed_suits [OF assms] drop_suits [OF assms(1,2)] get_suits [OF assms(1,2)] by (cases c) simp_all
qed (use moves_suit [OF assms(1,2)] enter_suits [OF assms(1,2)] in simp_all)

end
