(* ===== verification/Scene.thy ===== *)
theory Scene
  imports World
begin

text \<open>
  The picture of a room, \<^verbatim>\<open>mp2/photo.c\<close>: the routines that give the mode X code the lines of pixels to draw, and
  the picture they agree on, the room's photo with the objects of the room painted over it in the order of the
  list.
\<close>

subsection \<open>Lines of a room\<close>

abbreviation (input) OBJ_CLR_TRANSP :: u8 where "OBJ_CLR_TRANSP \<equiv> 0x40"

text \<open>The loop that copies the pixels of an object: from index \<open>idx\<close> of a line of \<open>n\<close> pixels and index \<open>k\<close> of
  an object's line of \<open>m\<close> pixels on.\<close>

function copy_pixels :: "nat \<Rightarrow> nat \<Rightarrow> (nat \<Rightarrow> u8) \<Rightarrow> nat \<Rightarrow> nat \<Rightarrow> u8 list \<Rightarrow> u8 list" where
  "copy_pixels n m pix idx k buf =
     (if idx < n \<and> k < m
      then copy_pixels n m pix (idx + 1) (k + 1) (if pix k \<noteq> OBJ_CLR_TRANSP then buf[idx := pix k] else buf)
      else buf)"
  by auto
termination by (relation "measure (\<lambda>(n, m, pix, idx, k, buf). n - idx)") auto

declare copy_pixels.simps [simp del]

abbreviation object_image :: "world \<Rightarrow> nat \<Rightarrow> image_t" where
  "object_image w ob \<equiv> the (obj_img (object w ob))"

definition horiz_object :: "world \<Rightarrow> int \<Rightarrow> int \<Rightarrow> nat \<Rightarrow> u8 list \<Rightarrow> u8 list" where
  "horiz_object w x y ob buf =
     (let ox = uint (obj_x (object w ob)); oy = uint (obj_y (object w ob)); img = object_image w ob;
          iw = uint (hdr_width (image_hdr img)); ih = uint (hdr_height (image_hdr img))
      in if y < oy \<or> oy + ih \<le> y \<or> x + 320 \<le> ox \<or> ox + iw \<le> x then buf
         else let yoff = nat ((y - oy) * iw);
                  (idx, imgx) = (if x \<le> ox then (ox - x, 0) else (0, x - ox))
              in copy_pixels 320 (nat iw) (\<lambda>imgx. image_img img ! (yoff + imgx)) (nat idx) (nat imgx) buf)"

definition fill_horiz_buffer :: "world \<Rightarrow> nat \<Rightarrow> int \<Rightarrow> int \<Rightarrow> u8 list" where
  "fill_horiz_buffer w cur_room x y =
     (let p = the (view (room w cur_room)); pw = uint (hdr_width (photo_hdr p));
          buf = map (\<lambda>idx. if 0 \<le> x + int idx \<and> x + int idx < pw then photo_img p ! nat (pw * y + x + int idx) else 0) [0..<320]
      in fold (horiz_object w x y) (contents_list w cur_room) buf)"

definition vert_object :: "world \<Rightarrow> int \<Rightarrow> int \<Rightarrow> nat \<Rightarrow> u8 list \<Rightarrow> u8 list" where
  "vert_object w x y ob buf =
     (let ox = uint (obj_x (object w ob)); oy = uint (obj_y (object w ob)); img = object_image w ob;
          iw = uint (hdr_width (image_hdr img)); ih = uint (hdr_height (image_hdr img))
      in if x < ox \<or> ox + iw \<le> x \<or> y + 182 \<le> oy \<or> oy + ih \<le> y then buf
         else let xoff = nat (x - ox);
                  (idx, imgy) = (if y \<le> oy then (oy - y, 0) else (0, y - oy))
              in copy_pixels 182 (nat ih) (\<lambda>imgy. image_img img ! (xoff + nat iw * imgy)) (nat idx) (nat imgy) buf)"

definition fill_vert_buffer :: "world \<Rightarrow> nat \<Rightarrow> int \<Rightarrow> int \<Rightarrow> u8 list" where
  "fill_vert_buffer w cur_room x y =
     (let p = the (view (room w cur_room)); pw = uint (hdr_width (photo_hdr p)); ph = uint (hdr_height (photo_hdr p));
          buf = map (\<lambda>idx. if 0 \<le> y + int idx \<and> y + int idx < ph then photo_img p ! nat (pw * (y + int idx) + x) else 0) [0..<182]
      in fold (vert_object w x y) (contents_list w cur_room) buf)"

subsection \<open>The picture\<close>

text \<open>An object painted over a colour, and the photo with the objects of a room painted over it.\<close>

definition paint :: "world \<Rightarrow> int \<Rightarrow> int \<Rightarrow> nat \<Rightarrow> u8 \<Rightarrow> u8" where
  "paint w x y ob c =
     (let ox = uint (obj_x (object w ob)); oy = uint (obj_y (object w ob)); img = object_image w ob;
          iw = uint (hdr_width (image_hdr img)); ih = uint (hdr_height (image_hdr img));
          p = image_img img ! nat ((y - oy) * iw + (x - ox))
      in if ox \<le> x \<and> x < ox + iw \<and> oy \<le> y \<and> y < oy + ih \<and> p \<noteq> OBJ_CLR_TRANSP then p else c)"

definition scene :: "world \<Rightarrow> nat \<Rightarrow> int \<Rightarrow> int \<Rightarrow> u8" where
  "scene w r x y =
     (let p = the (view (room w r)); pw = uint (hdr_width (photo_hdr p)); ph = uint (hdr_height (photo_hdr p))
      in fold (paint w x y) (contents_list w r)
           (if 0 \<le> x \<and> x < pw \<and> 0 \<le> y \<and> y < ph then photo_img p ! nat (pw * y + x) else 0))"

subsection \<open>The lines agree with the picture\<close>

lemma copy_pixels_spec:
  "length buf = n \<Longrightarrow> length (copy_pixels n m pix idx k buf) = n \<and> (\<forall>i<n. copy_pixels n m pix idx k buf ! i =
    (if idx \<le> i \<and> k + (i - idx) < m \<and> pix (k + (i - idx)) \<noteq> OBJ_CLR_TRANSP then pix (k + (i - idx)) else buf ! i))"
proof (induction n m pix idx k buf rule: copy_pixels.induct)
  case (1 n m pix idx k buf)
  show ?case
  proof (cases "idx < n \<and> k < m")
    case True
    let ?buf = "if pix k \<noteq> OBJ_CLR_TRANSP then buf[idx := pix k] else buf"
    have IH: "length (copy_pixels n m pix (idx + 1) (k + 1) ?buf) = n"
      "\<And>i. i < n \<Longrightarrow> copy_pixels n m pix (idx + 1) (k + 1) ?buf ! i =
        (if idx + 1 \<le> i \<and> k + 1 + (i - (idx + 1)) < m \<and> pix (k + 1 + (i - (idx + 1))) \<noteq> OBJ_CLR_TRANSP
         then pix (k + 1 + (i - (idx + 1))) else ?buf ! i)"
      using 1 True by simp_all
    have step: "copy_pixels n m pix idx k buf = copy_pixels n m pix (idx + 1) (k + 1) ?buf"
      using True by (subst copy_pixels.simps) simp
    have "copy_pixels n m pix idx k buf ! i =
        (if idx \<le> i \<and> k + (i - idx) < m \<and> pix (k + (i - idx)) \<noteq> OBJ_CLR_TRANSP then pix (k + (i - idx)) else buf ! i)" if "i < n" for i
    proof (cases "idx < i")
      case less: True
      then have "k + 1 + (i - (idx + 1)) = k + (i - idx)" by simp
      then show ?thesis unfolding step IH(2) [OF that] using less by auto
    next
      case False
      then show ?thesis unfolding step IH(2) [OF that] using True 1(2) that by (auto simp: nth_list_update)
    qed
    then show ?thesis using IH(1) step by simp
  next
    case False
    then show ?thesis using 1(2) by (subst (1 2) copy_pixels.simps) auto
  qed
qed

lemma horiz_object_paints:
  assumes "length buf = 320"
  shows "length (horiz_object w x y ob buf) = 320"
    and "i < 320 \<Longrightarrow> horiz_object w x y ob buf ! i = paint w (x + int i) y ob (buf ! i)"
proof -
  let ?img = "object_image w ob"
  define ox oy iw ih where o: "ox = uint (obj_x (object w ob))" "oy = uint (obj_y (object w ob))"
    "iw = uint (hdr_width (image_hdr ?img))" "ih = uint (hdr_height (image_hdr ?img))"
  have nn: "0 \<le> ox" "0 \<le> oy" "0 \<le> iw" "0 \<le> ih" by (simp_all add: o)
  note d = horiz_object_def Let_def o [symmetric]
  show "length (horiz_object w x y ob buf) = 320" unfolding d using copy_pixels_spec [OF assms] assms by (simp split: prod.split)
  assume i: "i < 320"
  show "horiz_object w x y ob buf ! i = paint w (x + int i) y ob (buf ! i)"
  proof (cases "y < oy \<or> oy + ih \<le> y \<or> x + 320 \<le> ox \<or> ox + iw \<le> x")
    case True
    then show ?thesis using i unfolding d paint_def by auto
  next
    case False
    define idx k where ik: "idx = nat (if x \<le> ox then ox - x else 0)" "k = nat (if x \<le> ox then 0 else x - ox)"
    have "horiz_object w x y ob buf ! i = copy_pixels 320 (nat iw) (\<lambda>imgx. image_img ?img ! (nat ((y - oy) * iw) + imgx)) idx k buf ! i"
      using False unfolding d ik by (auto split: if_splits)
    also have "\<dots> = (if idx \<le> i \<and> k + (i - idx) < nat iw \<and> image_img ?img ! (nat ((y - oy) * iw) + (k + (i - idx))) \<noteq> OBJ_CLR_TRANSP
        then image_img ?img ! (nat ((y - oy) * iw) + (k + (i - idx))) else buf ! i)"
      using copy_pixels_spec [OF assms, of "nat iw" "\<lambda>imgx. image_img ?img ! (nat ((y - oy) * iw) + imgx)" idx k] i by blast
    also have "\<dots> = paint w (x + int i) y ob (buf ! i)"
    proof (cases "ox \<le> x + int i")
      case True
      then have "idx \<le> i" "int (k + (i - idx)) = x + int i - ox" using False i unfolding ik by (auto split: if_splits)
      moreover have "nat ((y - oy) * iw + (x + int i - ox)) = nat ((y - oy) * iw) + (k + (i - idx))"
        using False nn calculation(2) by (subst nat_add_distrib) (auto simp flip: calculation(2))
      moreover have "k + (i - idx) < nat iw \<longleftrightarrow> x + int i < ox + iw" using calculation(2) nn(3) by linarith
      ultimately show ?thesis using False True by (simp add: paint_def Let_def o [symmetric])
    next
      case not: False
      then have "\<not> idx \<le> i" unfolding ik by (auto split: if_splits)
      then show ?thesis using not by (simp add: paint_def Let_def o [symmetric])
    qed
    finally show ?thesis .
  qed
qed

lemma vert_object_paints:
  assumes "length buf = 182"
  shows "length (vert_object w x y ob buf) = 182"
    and "i < 182 \<Longrightarrow> vert_object w x y ob buf ! i = paint w x (y + int i) ob (buf ! i)"
proof -
  let ?img = "object_image w ob"
  define ox oy iw ih where o: "ox = uint (obj_x (object w ob))" "oy = uint (obj_y (object w ob))"
    "iw = uint (hdr_width (image_hdr ?img))" "ih = uint (hdr_height (image_hdr ?img))"
  have nn: "0 \<le> ox" "0 \<le> oy" "0 \<le> iw" "0 \<le> ih" by (simp_all add: o)
  note d = vert_object_def Let_def o [symmetric]
  show "length (vert_object w x y ob buf) = 182" unfolding d using copy_pixels_spec [OF assms] assms by (simp split: prod.split)
  assume i: "i < 182"
  show "vert_object w x y ob buf ! i = paint w x (y + int i) ob (buf ! i)"
  proof (cases "x < ox \<or> ox + iw \<le> x \<or> y + 182 \<le> oy \<or> oy + ih \<le> y")
    case True
    then show ?thesis using i unfolding d paint_def by auto
  next
    case False
    define idx k where ik: "idx = nat (if y \<le> oy then oy - y else 0)" "k = nat (if y \<le> oy then 0 else y - oy)"
    have "vert_object w x y ob buf ! i = copy_pixels 182 (nat ih) (\<lambda>imgy. image_img ?img ! (nat (x - ox) + nat iw * imgy)) idx k buf ! i"
      using False unfolding d ik by (auto split: if_splits)
    also have "\<dots> = (if idx \<le> i \<and> k + (i - idx) < nat ih \<and> image_img ?img ! (nat (x - ox) + nat iw * (k + (i - idx))) \<noteq> OBJ_CLR_TRANSP
        then image_img ?img ! (nat (x - ox) + nat iw * (k + (i - idx))) else buf ! i)"
      using copy_pixels_spec [OF assms, of "nat ih" "\<lambda>imgy. image_img ?img ! (nat (x - ox) + nat iw * imgy)" idx k] i by blast
    also have "\<dots> = paint w x (y + int i) ob (buf ! i)"
    proof (cases "oy \<le> y + int i")
      case True
      then have "idx \<le> i" and k: "y + int i - oy = int (k + (i - idx))" using False i unfolding ik by (auto split: if_splits)
      moreover have "nat ((y + int i - oy) * iw + (x - ox)) = nat (x - ox) + nat iw * (k + (i - idx))"
        unfolding k using False nn by (subst nat_add_distrib) (simp_all add: nat_mult_distrib)
      moreover have "k + (i - idx) < nat ih \<longleftrightarrow> y + int i < oy + ih" using k nn(4) by linarith
      ultimately show ?thesis using False True by (simp add: paint_def Let_def o [symmetric])
    next
      case not: False
      then have "\<not> idx \<le> i" unfolding ik by (auto split: if_splits)
      then show ?thesis using not by (simp add: paint_def Let_def o [symmetric])
    qed
    finally show ?thesis .
  qed
qed

lemma fold_paint:
  assumes "\<And>ob buf. length buf = n \<Longrightarrow> length (f ob buf) = n"
    and "\<And>ob buf i. length buf = n \<Longrightarrow> i < n \<Longrightarrow> f ob buf ! i = g i ob (buf ! i)"
    and "length buf = n" and "i < n"
  shows "length (fold f obs buf) = n \<and> fold f obs buf ! i = fold (g i) obs (buf ! i)"
  using assms(3) by (induction obs arbitrary: buf) (simp_all add: assms(1,2,4))

lemma fill_horiz_buffer_scene:
  assumes "0 \<le> y" and "y < uint (hdr_height (photo_hdr (the (view (room w r)))))" and "i < 320"
  shows "length (fill_horiz_buffer w r x y) = 320" and "fill_horiz_buffer w r x y ! i = scene w r (x + int i) y"
  using fold_paint [where f = "horiz_object w x y" and g = "\<lambda>i. paint w (x + int i) y" and n = 320 and i = i,
      OF horiz_object_paints(1,2)] assms
  by (simp_all add: fill_horiz_buffer_def scene_def Let_def add.assoc del: upt_rec_numeral)

lemma fill_vert_buffer_scene:
  assumes "0 \<le> x" and "x < uint (hdr_width (photo_hdr (the (view (room w r)))))" and "i < 182"
  shows "length (fill_vert_buffer w r x y) = 182" and "fill_vert_buffer w r x y ! i = scene w r x (y + int i)"
  using fold_paint [where f = "vert_object w x y" and g = "\<lambda>i. paint w x (y + int i)" and n = 182 and i = i,
      OF vert_object_paints(1,2)] assms
  by (simp_all add: fill_vert_buffer_def scene_def Let_def del: upt_rec_numeral)

end
