(* ===== verification/Display.thy ===== *)
theory Display
  imports Scene Viewport
begin

text \<open>
  Drawing and scrolling a room, \<^verbatim>\<open>mp2/adventure.c\<close> and \<^verbatim>\<open>prep_room\<close> of \<^verbatim>\<open>mp2/photo.c\<close>: the client of the mode X
  code.  The routines that give lines of pixels are an interface (\<open>line_source\<close>): their lines must agree with one
  picture.  Under that contract the window shows the picture after every move, and the routines of \<open>Scene\<close>
  meet it.
\<close>

subsection \<open>State and routines\<close>

record game_info = modex +
  cur_room :: nat
  here :: "nat option"
  map_x :: u32
  map_y :: u32
  x_speed :: int
  y_speed :: int
  typing :: string

abbreviation (input) MOTION_SPEED :: int where "MOTION_SPEED \<equiv> 2"

fun draw_lines :: "(int \<Rightarrow> 'a modex_scheme \<Rightarrow> (int \<times> 'a modex_scheme) option) \<Rightarrow> int list \<Rightarrow> 'a modex_scheme \<Rightarrow> 'a modex_scheme option" where
  "draw_lines draw [] s = Some s"
| "draw_lines draw (i # is) s = Option.bind (draw i s) (\<lambda>(r, s). draw_lines draw is s)"

abbreviation horiz_line :: "world \<Rightarrow> 'a game_info_scheme \<Rightarrow> int \<Rightarrow> 'a game_info_scheme \<Rightarrow> (int \<times> 'a game_info_scheme) option" where
  "horiz_line w s \<equiv> draw_horiz_line (fill_horiz_buffer w (cur_room s))"

abbreviation vert_line :: "world \<Rightarrow> 'a game_info_scheme \<Rightarrow> int \<Rightarrow> 'a game_info_scheme \<Rightarrow> (int \<times> 'a game_info_scheme) option" where
  "vert_line w s \<equiv> draw_vert_line (fill_vert_buffer w (cur_room s))"

definition room_photo_width :: "nat \<Rightarrow> world \<Rightarrow> u32" where
  "room_photo_width r w = photo_width (the (view (room w r)))"

definition room_photo_height :: "nat \<Rightarrow> world \<Rightarrow> u32" where
  "room_photo_height r w = photo_height (the (view (room w r)))"

definition init_game :: "'a game_info_scheme \<Rightarrow> 'a game_info_scheme" where
  "init_game s = s\<lparr>here := Some R_EAST_EVRT, map_x := 0, map_y := 0, x_speed := MOTION_SPEED, y_speed := MOTION_SPEED\<rparr>"

definition redraw_room :: "world \<Rightarrow> 'a game_info_scheme \<Rightarrow> 'a game_info_scheme option" where
  "redraw_room w s = draw_lines (horiz_line w s) (map int [0..<182]) s"

definition prep_room :: "nat \<Rightarrow> world \<Rightarrow> 'a game_info_scheme \<Rightarrow> 'a game_info_scheme" where
  "prep_room r w s = set_palette_color (palette (the (view (room w r)))) (s\<lparr>cur_room := r\<rparr>)"

definition move_photo_down :: "world \<Rightarrow> 'a game_info_scheme \<Rightarrow> 'a game_info_scheme option" where
  "move_photo_down w s =
     (let delta = (if map_y s < word_of_int (y_speed s) then sint (map_y s) else y_speed s);
          s = s\<lparr>map_y := map_y s - word_of_int delta\<rparr>
      in Option.bind (set_view_window (sint (map_x s)) (sint (map_y s)) s)
           (draw_lines (horiz_line w s) (map int [0..<nat delta])))"

definition move_photo_left :: "world \<Rightarrow> 'a game_info_scheme \<Rightarrow> 'a game_info_scheme option" where
  "move_photo_left w s =
     (let delta = sint (room_photo_width (the (here s)) w - 320 - map_x s);
          delta = (if delta < x_speed s then delta else x_speed s);
          s = s\<lparr>map_x := map_x s + word_of_int delta\<rparr>
      in Option.bind (set_view_window (sint (map_x s)) (sint (map_y s)) s)
           (draw_lines (vert_line w s) (map (\<lambda>i. SCROLL_X_DIM - int i) [1..<nat (delta + 1)])))"

definition move_photo_right :: "world \<Rightarrow> 'a game_info_scheme \<Rightarrow> 'a game_info_scheme option" where
  "move_photo_right w s =
     (let delta = (if map_x s < word_of_int (x_speed s) then sint (map_x s) else x_speed s);
          s = s\<lparr>map_x := map_x s - word_of_int delta\<rparr>
      in Option.bind (set_view_window (sint (map_x s)) (sint (map_y s)) s)
           (draw_lines (vert_line w s) (map int [0..<nat delta])))"

definition move_photo_up :: "world \<Rightarrow> 'a game_info_scheme \<Rightarrow> 'a game_info_scheme option" where
  "move_photo_up w s =
     (let delta = sint (room_photo_height (the (here s)) w - 182 - map_y s);
          delta = (if delta < y_speed s then delta else y_speed s);
          s = s\<lparr>map_y := map_y s + word_of_int delta\<rparr>
      in Option.bind (set_view_window (sint (map_x s)) (sint (map_y s)) s)
           (draw_lines (horiz_line w s) (map (\<lambda>i. SCROLL_Y_DIM - int i) [1..<nat (delta + 1)])))"

text \<open>The first part of a turn of \<^verbatim>\<open>game_loop\<close> when the player has entered a room.\<close>

definition enter_view :: "world \<Rightarrow> 'a game_info_scheme \<Rightarrow> 'a game_info_scheme option" where
  "enter_view w s =
     Option.bind (set_view_window 0 0 (s\<lparr>map_x := 0, map_y := 0\<rparr>))
       (\<lambda>s. redraw_room w (prep_room (the (here s)) w (s\<lparr>typing := []\<rparr>)))"

subsection \<open>The contract of the line routines\<close>

text \<open>Lines of a picture of the size \<open>W\<close> by \<open>H\<close>.\<close>

locale line_source =
  fixes horiz :: "int \<Rightarrow> int \<Rightarrow> u8 list" and vert :: "int \<Rightarrow> int \<Rightarrow> u8 list" and picture :: "int \<Rightarrow> int \<Rightarrow> u8"
    and W :: int and H :: int
  assumes horiz_length: "0 \<le> y \<Longrightarrow> y < H \<Longrightarrow> length (horiz x y) = 320"
    and horiz_picture: "0 \<le> y \<Longrightarrow> y < H \<Longrightarrow> i < 320 \<Longrightarrow> horiz x y ! i = picture (x + int i) y"
    and vert_length: "0 \<le> x \<Longrightarrow> x < W \<Longrightarrow> length (vert x y) = 182"
    and vert_picture: "0 \<le> x \<Longrightarrow> x < W \<Longrightarrow> i < 182 \<Longrightarrow> vert x y ! i = picture x (y + int i)"
begin

definition inside :: "'a modex_scheme \<Rightarrow> bool" where
  "inside s \<longleftrightarrow> 0 \<le> show_x s \<and> show_x s + SCROLL_X_DIM \<le> W \<and> 0 \<le> show_y s \<and> show_y s + SCROLL_Y_DIM \<le> H"

definition shows_picture :: "'a modex_scheme \<Rightarrow> bool" where
  "shows_picture s \<longleftrightarrow> window_fits s \<and> (\<forall>x y. in_window s x y \<longrightarrow> pixel s x y = picture x y)"

lemma inside_view: "same_view s s' \<Longrightarrow> inside s' = inside s"
  by (simp add: inside_def same_view_simps)

lemma draw_horiz_lines:
  assumes "window_fits s" and "inside s" and "\<forall>i\<in>set is. 0 \<le> i \<and> i < SCROLL_Y_DIM"
  shows "\<exists>s'. draw_lines (draw_horiz_line horiz) is s = Some s' \<and> same_view s s' \<and> (\<forall>x y. in_window s x y \<longrightarrow>
    pixel s' x y = (if y - show_y s \<in> set is then picture x y else pixel s x y))"
  using assms
proof (induction "is" arbitrary: s)
  case (Cons i "is")
  have i: "0 \<le> i" "i < SCROLL_Y_DIM" using Cons.prems(3) by simp_all
  have row: "0 \<le> i + show_y s" "i + show_y s < H" using i Cons.prems(2) by (simp_all add: inside_def)
  obtain s1 where s1: "draw_horiz_line horiz i s = Some (0, s1)" "same_view s s1"
    "\<And>x y. in_window s x y \<Longrightarrow> pixel s1 x y = (if y = i + show_y s then horiz (show_x s) (i + show_y s) ! nat (x - show_x s) else pixel s x y)"
    using draw_horiz_line_draws [OF Cons.prems(1) i, of horiz] horiz_length [OF row] by blast
  note v = same_view_simps [OF s1(2)]
  have line: "pixel s1 x y = (if y = i + show_y s then picture x y else pixel s x y)" if "in_window s x y" for x y
    using that horiz_picture [OF row, of "nat (x - show_x s)" "show_x s"] unfolding s1(3) [OF that] by (auto simp: in_window_def)
  obtain s' where s': "draw_lines (draw_horiz_line horiz) is s1 = Some s'" "same_view s1 s'"
    "\<And>x y. in_window s1 x y \<Longrightarrow> pixel s' x y = (if y - show_y s1 \<in> set is then picture x y else pixel s1 x y)"
    using Cons.IH [of s1] Cons.prems by (auto simp: v inside_view [OF s1(2)])
  have "draw_lines (draw_horiz_line horiz) (i # is) s = Some s'" using s1(1) s'(1) by simp
  moreover have "pixel s' x y = (if y - show_y s \<in> set (i # is) then picture x y else pixel s x y)" if "in_window s x y" for x y
    using s'(3) [of x y] line [OF that] that by (auto simp: v)
  ultimately show ?case using same_view_trans [OF s1(2) s'(2)] by blast
qed auto

lemma draw_vert_lines:
  assumes "window_fits s" and "inside s" and "\<forall>i\<in>set is. 0 \<le> i \<and> i < SCROLL_X_DIM"
  shows "\<exists>s'. draw_lines (draw_vert_line vert) is s = Some s' \<and> same_view s s' \<and> (\<forall>x y. in_window s x y \<longrightarrow>
    pixel s' x y = (if x - show_x s \<in> set is then picture x y else pixel s x y))"
  using assms
proof (induction "is" arbitrary: s)
  case (Cons i "is")
  have i: "0 \<le> i" "i < SCROLL_X_DIM" using Cons.prems(3) by simp_all
  have col: "0 \<le> i + show_x s" "i + show_x s < W" using i Cons.prems(2) by (simp_all add: inside_def)
  obtain s1 where s1: "draw_vert_line vert i s = Some (0, s1)" "same_view s s1"
    "\<And>x y. in_window s x y \<Longrightarrow> pixel s1 x y = (if x = i + show_x s then vert (i + show_x s) (show_y s) ! nat (y - show_y s) else pixel s x y)"
    using draw_vert_line_draws [OF Cons.prems(1) i, of vert] vert_length [OF col] by blast
  note v = same_view_simps [OF s1(2)]
  have line: "pixel s1 x y = (if x = i + show_x s then picture x y else pixel s x y)" if "in_window s x y" for x y
    using that vert_picture [OF col, of "nat (y - show_y s)" "show_y s"] unfolding s1(3) [OF that] by (auto simp: in_window_def)
  obtain s' where s': "draw_lines (draw_vert_line vert) is s1 = Some s'" "same_view s1 s'"
    "\<And>x y. in_window s1 x y \<Longrightarrow> pixel s' x y = (if x - show_x s1 \<in> set is then picture x y else pixel s1 x y)"
    using Cons.IH [of s1] Cons.prems by (auto simp: v inside_view [OF s1(2)])
  have "draw_lines (draw_vert_line vert) (i # is) s = Some s'" using s1(1) s'(1) by simp
  moreover have "pixel s' x y = (if x - show_x s \<in> set (i # is) then picture x y else pixel s x y)" if "in_window s x y" for x y
    using s'(3) [of x y] line [OF that] that by (auto simp: v)
  ultimately show ?case using same_view_trans [OF s1(2) s'(2)] by blast
qed auto

lemma draw_all:
  assumes "window_fits s" and "inside s"
  shows "\<exists>s'. draw_lines (draw_horiz_line horiz) (map int [0..<182]) s = Some s' \<and> same_view s s' \<and> shows_picture s'"
proof -
  have rows: "set (map int [0..<182]) = {0..<182}" by (simp del: upt_rec_numeral add: image_int_atLeastLessThan)
  have "\<forall>i\<in>set (map int [0..<182]). 0 \<le> i \<and> i < SCROLL_Y_DIM" unfolding rows by simp
  then obtain s' where s': "draw_lines (draw_horiz_line horiz) (map int [0..<182]) s = Some s'" "same_view s s'"
    "\<And>x y. in_window s x y \<Longrightarrow> pixel s' x y = (if y - show_y s \<in> set (map int [0..<182]) then picture x y else pixel s x y)"
    using draw_horiz_lines [OF assms, of "map int [0..<182]"] by blast
  have "pixel s' x y = picture x y" if "in_window s x y" for x y
    using s'(3) [OF that] that unfolding rows by (simp add: in_window_def)
  then show ?thesis using s'(1,2) assms(1) by (auto simp: shows_picture_def same_view_simps [OF s'(2)])
qed

text \<open>Moving the window and drawing the lines that come into view.\<close>

lemma scroll_rows:
  assumes "shows_picture s" and "0 \<le> show_x s" "show_x s + SCROLL_X_DIM \<le> W" "0 \<le> ny" "ny + SCROLL_Y_DIM \<le> H"
    and "\<forall>i\<in>set is. 0 \<le> i \<and> i < SCROLL_Y_DIM"
    and "\<And>y. ny \<le> y \<Longrightarrow> y < ny + SCROLL_Y_DIM \<Longrightarrow> y - ny \<in> set is \<or> show_y s \<le> y \<and> y < show_y s + SCROLL_Y_DIM"
  shows "\<exists>s'. Option.bind (set_view_window (show_x s) ny s) (draw_lines (draw_horiz_line horiz) is) = Some s' \<and> same_screen s s' \<and>
    show_x s' = show_x s \<and> show_y s' = ny \<and> shows_picture s'"
proof -
  have fits: "window_fits s" using assms(1) by (simp add: shows_picture_def)
  obtain s1 where s1: "set_view_window (show_x s) ny s = Some s1" "same_screen s s1" "show_x s1 = show_x s" "show_y s1 = ny" "window_fits s1"
    "\<And>x y. in_window s x y \<Longrightarrow> in_window s1 x y \<Longrightarrow> pixel s1 x y = pixel s x y"
    using set_view_window_keeps [OF fits, of "show_x s" ny] by blast
  have "inside s1" using assms(2-5) by (simp add: inside_def s1)
  then obtain s' where s': "draw_lines (draw_horiz_line horiz) is s1 = Some s'" "same_view s1 s'"
    "\<And>x y. in_window s1 x y \<Longrightarrow> pixel s' x y = (if y - show_y s1 \<in> set is then picture x y else pixel s1 x y)"
    using draw_horiz_lines [OF s1(5) _ assms(6)] by blast
  have "pixel s' x y = picture x y" if w: "in_window s1 x y" for x y
  proof (cases "y - ny \<in> set is")
    case True
    then show ?thesis using s'(3) [OF w] by (simp add: s1)
  next
    case False
    then have "in_window s x y" using w assms(7) [of y] by (simp add: in_window_def s1)
    then show ?thesis using s'(3) [OF w] s1(6) [OF _ w] False assms(1) by (simp add: s1(4) shows_picture_def)
  qed
  then have "shows_picture s'" using s1(5) by (simp add: shows_picture_def same_view_simps [OF s'(2)])
  moreover have "same_screen s s'" using s1(2) same_screen_view [OF s'(2)] by (rule same_screen_trans)
  ultimately show ?thesis using s1 s'(1) by (auto simp: same_view_simps [OF s'(2)])
qed

lemma scroll_columns:
  assumes "shows_picture s" and "0 \<le> nx" "nx + SCROLL_X_DIM \<le> W" "0 \<le> show_y s" "show_y s + SCROLL_Y_DIM \<le> H"
    and "\<forall>i\<in>set is. 0 \<le> i \<and> i < SCROLL_X_DIM"
    and "\<And>x. nx \<le> x \<Longrightarrow> x < nx + SCROLL_X_DIM \<Longrightarrow> x - nx \<in> set is \<or> show_x s \<le> x \<and> x < show_x s + SCROLL_X_DIM"
  shows "\<exists>s'. Option.bind (set_view_window nx (show_y s) s) (draw_lines (draw_vert_line vert) is) = Some s' \<and> same_screen s s' \<and>
    show_x s' = nx \<and> show_y s' = show_y s \<and> shows_picture s'"
proof -
  have fits: "window_fits s" using assms(1) by (simp add: shows_picture_def)
  obtain s1 where s1: "set_view_window nx (show_y s) s = Some s1" "same_screen s s1" "show_x s1 = nx" "show_y s1 = show_y s" "window_fits s1"
    "\<And>x y. in_window s x y \<Longrightarrow> in_window s1 x y \<Longrightarrow> pixel s1 x y = pixel s x y"
    using set_view_window_keeps [OF fits, of nx "show_y s"] by blast
  have "inside s1" using assms(2-5) by (simp add: inside_def s1)
  then obtain s' where s': "draw_lines (draw_vert_line vert) is s1 = Some s'" "same_view s1 s'"
    "\<And>x y. in_window s1 x y \<Longrightarrow> pixel s' x y = (if x - show_x s1 \<in> set is then picture x y else pixel s1 x y)"
    using draw_vert_lines [OF s1(5) _ assms(6)] by blast
  have "pixel s' x y = picture x y" if w: "in_window s1 x y" for x y
  proof (cases "x - nx \<in> set is")
    case True
    then show ?thesis using s'(3) [OF w] by (simp add: s1)
  next
    case False
    then have "in_window s x y" using w assms(7) [of x] by (simp add: in_window_def s1)
    then show ?thesis using s'(3) [OF w] s1(6) [OF _ w] False assms(1) by (simp add: s1(3) shows_picture_def)
  qed
  then have "shows_picture s'" using s1(5) by (simp add: shows_picture_def same_view_simps [OF s'(2)])
  moreover have "same_screen s s'" using s1(2) same_screen_view [OF s'(2)] by (rule same_screen_trans)
  ultimately show ?thesis using s1 s'(1) by (auto simp: same_view_simps [OF s'(2)])
qed

end

text \<open>The routines of \<^verbatim>\<open>photo.c\<close> meet the contract with the picture of the room.\<close>

interpretation scene: line_source "fill_horiz_buffer w r" "fill_vert_buffer w r" "scene w r"
  "uint (hdr_width (photo_hdr (the (view (room w r)))))" "uint (hdr_height (photo_hdr (the (view (room w r)))))" for w r
  by unfold_locales (auto simp: fill_horiz_buffer_scene fill_vert_buffer_scene intro: fill_horiz_buffer_scene(1) [of _ _ _ 0] fill_vert_buffer_scene(1) [of _ _ _ 0])

subsection \<open>The window shows the room\<close>

definition room_shown :: "world \<Rightarrow> 'a game_info_scheme \<Rightarrow> bool" where
  "room_shown w s \<longleftrightarrow> window_fits s \<and> (\<forall>x y. in_window s x y \<longrightarrow> pixel s x y = scene w (cur_room s) x y)"

definition photo_size :: "world \<Rightarrow> nat \<Rightarrow> int \<times> int" where
  "photo_size w r = (let hdr = photo_hdr (the (view (room w r))) in (uint (hdr_width hdr), uint (hdr_height hdr)))"

text \<open>The state of the display between two turns of the game: in the room that is shown, the window inside its photo
  at the position that the game keeps.\<close>

definition placed :: "world \<Rightarrow> 'a game_info_scheme \<Rightarrow> bool" where
  "placed w s \<longleftrightarrow> here s = Some (cur_room s) \<and> x_speed s \<in> {2, 6} \<and> y_speed s \<in> {2, 6} \<and>
     map_x s = word_of_int (show_x s) \<and> map_y s = word_of_int (show_y s) \<and> 0 \<le> show_x s \<and> 0 \<le> show_y s \<and>
     show_x s + 320 \<le> fst (photo_size w (cur_room s)) \<and> show_y s + 182 \<le> snd (photo_size w (cur_room s))"

definition view_ok :: "world \<Rightarrow> 'a game_info_scheme \<Rightarrow> bool" where
  "view_ok w s \<longleftrightarrow> placed w s \<and> room_shown w s \<and> in_mode_X s \<and> a_page (target_img s)"

lemma room_shown_scene: "room_shown w s \<longleftrightarrow> scene.shows_picture w (cur_room s) s"
  by (simp add: room_shown_def scene.shows_picture_def)

lemma same_screen_fields:
  assumes "same_screen s s'"
  shows "here s' = here s" "cur_room s' = cur_room s" "map_x s' = map_x s" "map_y s' = map_y s" "x_speed s' = x_speed s"
    "y_speed s' = y_speed s" "typing s' = typing s" "in_mode_X s' = in_mode_X s" "target_img s' = target_img s" "dac s' = dac s"
    "vmem s' = vmem s" "game_info.more s' = game_info.more s"
  using assms by (auto simp: same_screen_def in_mode_X_def split_row_def line_compare_def row_bytes_def)

lemma position_words:
  assumes "0 \<le> k" and "k < 65536"
  shows "sint (word_of_int k :: u32) = k" and "0 \<le> j \<Longrightarrow> j < 65536 \<Longrightarrow> (word_of_int k :: u32) < word_of_int j \<longleftrightarrow> k < j"
proof -
  have u: "uint (word_of_int i :: u32) = i" if "0 \<le> i" "i < 65536" for i using that by (simp add: uint_word_of_int)
  show "sint (word_of_int k :: u32) = k"
    using assms by (simp add: sint_sbintrunc' signed_take_bit_int_eq_self)
  show "(word_of_int k :: u32) < word_of_int j \<longleftrightarrow> k < j" if "0 \<le> j" "j < 65536"
    using that assms by (simp add: word_less_def u)
qed

lemma photo_size_words:
  "room_photo_width r w = word_of_int (fst (photo_size w r))" "room_photo_height r w = word_of_int (snd (photo_size w r))"
  "fst (photo_size w r) < 65536" "snd (photo_size w r) < 65536"
proof -
  show "room_photo_width r w = word_of_int (fst (photo_size w r))" "room_photo_height r w = word_of_int (snd (photo_size w r))"
    by (simp_all only: room_photo_width_def room_photo_height_def photo_width_def photo_height_def photo_size_def Let_def ucast_eq fst_conv snd_conv)
  show "fst (photo_size w r) < 65536" "snd (photo_size w r) < 65536"
    using uint_bounded [of "hdr_width (photo_hdr (the (view (room w r))))"] uint_bounded [of "hdr_height (photo_hdr (the (view (room w r))))"]
    by (simp_all add: photo_size_def Let_def)
qed

lemma shown_positions:
  "scene.shows_picture w r (s\<lparr>map_x := a\<rparr>) \<longleftrightarrow> scene.shows_picture w r s"
  "scene.shows_picture w r (s\<lparr>map_y := a\<rparr>) \<longleftrightarrow> scene.shows_picture w r s"
  by (simp_all add: scene.shows_picture_def window_fits_def in_window_def pixel_def address_def)

lemma mode_X_positions: "in_mode_X (s\<lparr>map_x := a\<rparr>) = in_mode_X s" "in_mode_X (s\<lparr>map_y := a\<rparr>) = in_mode_X s"
  by (simp_all add: in_mode_X_def split_row_def line_compare_def row_bytes_def)

lemma first_rows: "set (map int [0..<nat d]) = {0..<d}"
  by (auto simp: image_int_atLeastLessThan)

lemma last_rows: "set (map (\<lambda>i. n - int i) [1..<nat (d + 1)]) = {n - d..<n}"
proof -
  have "x \<in> (\<lambda>i. n - int i) ` {1..<nat (d + 1)}" if "n - d \<le> x" "x < n" for x
    using that by (intro image_eqI [of _ _ "nat (n - x)"]) auto
  then show ?thesis by auto
qed

lemma placed_bounds:
  assumes "placed w s"
  shows "0 \<le> show_x s" "show_x s < 65536" "0 \<le> show_y s" "show_y s < 65536" "sint (map_x s) = show_x s" "sint (map_y s) = show_y s"
proof -
  show X: "0 \<le> show_x s" "show_x s < 65536" and Y: "0 \<le> show_y s" "show_y s < 65536"
    using assms photo_size_words(3,4) [of w "cur_room s"] by (auto simp: placed_def)
  show "sint (map_x s) = show_x s" "sint (map_y s) = show_y s"
    using assms position_words(1) [OF X] position_words(1) [OF Y] by (simp_all add: placed_def)
qed

lemma moved_rows:
  assumes ok: "view_ok w s" and "0 \<le> ny" "ny + 182 \<le> snd (photo_size w (cur_room s))"
    and lines: "\<forall>i\<in>set is. 0 \<le> i \<and> i < SCROLL_Y_DIM"
    and cover: "\<And>y. ny \<le> y \<Longrightarrow> y < ny + SCROLL_Y_DIM \<Longrightarrow> y - ny \<in> set is \<or> show_y s \<le> y \<and> y < show_y s + SCROLL_Y_DIM"
  shows "\<exists>s'. Option.bind (set_view_window (sint (map_x s)) (sint (word_of_int ny :: u32)) (s\<lparr>map_y := word_of_int ny\<rparr>))
      (draw_lines (horiz_line w s) is) = Some s' \<and> view_ok w s' \<and> same_screen (s\<lparr>map_y := word_of_int ny\<rparr>) s' \<and>
      show_x s' = show_x s \<and> show_y s' = ny"
proof -
  let ?s = "s\<lparr>map_y := word_of_int ny\<rparr>"
  have p: "placed w s" and room: "room_shown w s" using ok by (simp_all add: view_ok_def)
  have shown: "scene.shows_picture w (cur_room s) ?s" using room by (simp add: room_shown_scene shown_positions)
  have pos: "0 \<le> show_x ?s" "show_x ?s + 320 \<le> fst (photo_size w (cur_room s))" using p by (simp_all add: placed_def)
  obtain s' where s': "Option.bind (set_view_window (show_x s) ny ?s) (draw_lines (horiz_line w s) is) = Some s'"
    "same_screen ?s s'" "show_x s' = show_x s" "show_y s' = ny" "scene.shows_picture w (cur_room s) s'"
    using scene.scroll_rows [OF shown pos(1) pos(2) [unfolded photo_size_def Let_def fst_conv] assms(2)
        assms(3) [unfolded photo_size_def Let_def snd_conv] lines] cover by auto
  note f = same_screen_fields [OF s'(2)]
  have "sint (word_of_int ny :: u32) = ny" using assms(2,3) photo_size_words(4) [of w "cur_room s"] by (intro position_words(1)) simp_all
  then have "Option.bind (set_view_window (sint (map_x s)) (sint (word_of_int ny :: u32)) ?s) (draw_lines (horiz_line w s) is) = Some s'"
    using s'(1) placed_bounds(5) [OF p] by simp
  moreover have "view_ok w s'" using ok s'(5) assms(2,3)
    by (simp add: view_ok_def placed_def room_shown_scene f s'(3,4) mode_X_positions)
  ultimately show ?thesis using s'(2-4) by blast
qed

lemma moved_columns:
  assumes ok: "view_ok w s" and "0 \<le> nx" "nx + 320 \<le> fst (photo_size w (cur_room s))"
    and lines: "\<forall>i\<in>set is. 0 \<le> i \<and> i < SCROLL_X_DIM"
    and cover: "\<And>x. nx \<le> x \<Longrightarrow> x < nx + SCROLL_X_DIM \<Longrightarrow> x - nx \<in> set is \<or> show_x s \<le> x \<and> x < show_x s + SCROLL_X_DIM"
  shows "\<exists>s'. Option.bind (set_view_window (sint (word_of_int nx :: u32)) (sint (map_y s)) (s\<lparr>map_x := word_of_int nx\<rparr>))
      (draw_lines (vert_line w s) is) = Some s' \<and> view_ok w s' \<and> same_screen (s\<lparr>map_x := word_of_int nx\<rparr>) s' \<and>
      show_x s' = nx \<and> show_y s' = show_y s"
proof -
  let ?s = "s\<lparr>map_x := word_of_int nx\<rparr>"
  have p: "placed w s" and room: "room_shown w s" using ok by (simp_all add: view_ok_def)
  have shown: "scene.shows_picture w (cur_room s) ?s" using room by (simp add: room_shown_scene shown_positions)
  have pos: "0 \<le> show_y ?s" "show_y ?s + 182 \<le> snd (photo_size w (cur_room s))" using p by (simp_all add: placed_def)
  obtain s' where s': "Option.bind (set_view_window nx (show_y s) ?s) (draw_lines (vert_line w s) is) = Some s'"
    "same_screen ?s s'" "show_x s' = nx" "show_y s' = show_y s" "scene.shows_picture w (cur_room s) s'"
    using scene.scroll_columns [OF shown assms(2) assms(3) [unfolded photo_size_def Let_def fst_conv] pos(1)
        pos(2) [unfolded photo_size_def Let_def snd_conv] lines] cover by auto
  note f = same_screen_fields [OF s'(2)]
  have "sint (word_of_int nx :: u32) = nx" using assms(2,3) photo_size_words(3) [of w "cur_room s"] by (intro position_words(1)) simp_all
  then have "Option.bind (set_view_window (sint (word_of_int nx :: u32)) (sint (map_y s)) ?s) (draw_lines (vert_line w s) is) = Some s'"
    using s'(1) placed_bounds(6) [OF p] by simp
  moreover have "view_ok w s'" using ok s'(5) assms(2,3)
    by (simp add: view_ok_def placed_def room_shown_scene f s'(3,4) mode_X_positions)
  ultimately show ?thesis using s'(2-4) by blast
qed

text \<open>The four moves.  \<open>goes w s x y s'\<close>: the display has moved to \<open>(x, y)\<close> and nothing else has changed.\<close>

definition goes :: "world \<Rightarrow> 'a game_info_scheme \<Rightarrow> int \<Rightarrow> int \<Rightarrow> 'a game_info_scheme option \<Rightarrow> bool" where
  "goes w s x y r \<longleftrightarrow> (\<exists>s'. r = Some s' \<and> view_ok w s' \<and> show_x s' = x \<and> show_y s' = y \<and>
     same_screen (s\<lparr>map_x := map_x s', map_y := map_y s'\<rparr>) s')"

lemma move_photo_down_goes:
  assumes ok: "view_ok w s"
  shows "goes w s (show_x s) (max 0 (show_y s - y_speed s)) (move_photo_down w s)"
proof -
  have p: "placed w s" using ok by (simp add: view_ok_def)
  note b = placed_bounds [OF p]
  define d where d: "d = min (show_y s) (y_speed s)"
  have v: "0 \<le> y_speed s" "y_speed s < 182" "y_speed s < 65536" using p by (auto simp: placed_def)
  have delta: "(if map_y s < word_of_int (y_speed s) then sint (map_y s) else y_speed s) = d"
    using p position_words(2) [OF b(3,4) v(1,3)] b(6) by (auto simp: placed_def d)
  have m: "map_y s - word_of_int d = word_of_int (show_y s - d)" using p by (simp add: placed_def)
  have dd: "0 \<le> d" "d \<le> show_y s" "d < 182" "show_y s - d = max 0 (show_y s - y_speed s)" using b(3) v by (auto simp: d)
  have room: "0 \<le> show_y s - d" "show_y s - d + 182 \<le> snd (photo_size w (cur_room s))" using p dd(1,2) by (simp_all add: placed_def)
  have lines: "\<forall>i\<in>{0..<d}. 0 \<le> i \<and> i < SCROLL_Y_DIM"
    "\<And>y. show_y s - d \<le> y \<Longrightarrow> y < show_y s - d + SCROLL_Y_DIM \<Longrightarrow> y - (show_y s - d) \<in> {0..<d} \<or> show_y s \<le> y \<and> y < show_y s + SCROLL_Y_DIM"
    using dd(1,3) by auto
  obtain s' where s': "Option.bind (set_view_window (sint (map_x s)) (sint (word_of_int (show_y s - d) :: u32)) (s\<lparr>map_y := word_of_int (show_y s - d)\<rparr>))
      (draw_lines (horiz_line w s) (map int [0..<nat d])) = Some s'" "view_ok w s'"
    "same_screen (s\<lparr>map_y := word_of_int (show_y s - d)\<rparr>) s'" "show_x s' = show_x s" "show_y s' = show_y s - d"
    using moved_rows [OF ok room(1,2), of "map int [0..<nat d]"] lines by (auto simp only: first_rows)
  have "move_photo_down w s = Some s'" using s'(1) by (simp add: move_photo_down_def delta Let_def m)
  then show ?thesis using s'(2-5) dd(4) same_screen_fields(3,4) [OF s'(3)] unfolding goes_def by auto
qed

lemma move_photo_right_goes:
  assumes ok: "view_ok w s"
  shows "goes w s (max 0 (show_x s - x_speed s)) (show_y s) (move_photo_right w s)"
proof -
  have p: "placed w s" using ok by (simp add: view_ok_def)
  note b = placed_bounds [OF p]
  define d where d: "d = min (show_x s) (x_speed s)"
  have v: "0 \<le> x_speed s" "x_speed s < 320" "x_speed s < 65536" using p by (auto simp: placed_def)
  have delta: "(if map_x s < word_of_int (x_speed s) then sint (map_x s) else x_speed s) = d"
    using p position_words(2) [OF b(1,2) v(1,3)] b(5) by (auto simp: placed_def d)
  have m: "map_x s - word_of_int d = word_of_int (show_x s - d)" using p by (simp add: placed_def)
  have dd: "0 \<le> d" "d \<le> show_x s" "d < 320" "show_x s - d = max 0 (show_x s - x_speed s)" using b(1) v by (auto simp: d)
  have room: "0 \<le> show_x s - d" "show_x s - d + 320 \<le> fst (photo_size w (cur_room s))" using p dd(1,2) by (simp_all add: placed_def)
  have lines: "\<forall>i\<in>{0..<d}. 0 \<le> i \<and> i < SCROLL_X_DIM"
    "\<And>x. show_x s - d \<le> x \<Longrightarrow> x < show_x s - d + SCROLL_X_DIM \<Longrightarrow> x - (show_x s - d) \<in> {0..<d} \<or> show_x s \<le> x \<and> x < show_x s + SCROLL_X_DIM"
    using dd(1,3) by auto
  obtain s' where s': "Option.bind (set_view_window (sint (word_of_int (show_x s - d) :: u32)) (sint (map_y s)) (s\<lparr>map_x := word_of_int (show_x s - d)\<rparr>))
      (draw_lines (vert_line w s) (map int [0..<nat d])) = Some s'" "view_ok w s'"
    "same_screen (s\<lparr>map_x := word_of_int (show_x s - d)\<rparr>) s'" "show_x s' = show_x s - d" "show_y s' = show_y s"
    using moved_columns [OF ok room(1,2), of "map int [0..<nat d]"] lines by (auto simp only: first_rows)
  have "move_photo_right w s = Some s'" using s'(1) by (simp add: move_photo_right_def delta Let_def m)
  then show ?thesis using s'(2-5) dd(4) same_screen_fields(3,4) [OF s'(3)] unfolding goes_def by auto
qed

lemma move_photo_up_goes:
  assumes ok: "view_ok w s"
  shows "goes w s (show_x s) (min (snd (photo_size w (cur_room s)) - 182) (show_y s + y_speed s)) (move_photo_up w s)"
proof -
  have p: "placed w s" using ok by (simp add: view_ok_def)
  note b = placed_bounds [OF p]
  let ?H = "snd (photo_size w (cur_room s))"
  define d where d: "d = min (?H - 182 - show_y s) (y_speed s)"
  have v: "0 \<le> y_speed s" "y_speed s < 182" using p by (auto simp: placed_def)
  have room: "0 \<le> ?H - 182 - show_y s" "?H - 182 - show_y s < 65536" using p b(3) photo_size_words(4) [of w "cur_room s"] by (auto simp: placed_def)
  have eq: "room_photo_height (the (here s)) w - 182 - map_y s = word_of_int (?H - 182 - show_y s)"
    using p by (simp add: placed_def photo_size_words)
  have delta: "(if sint (room_photo_height (the (here s)) w - 182 - map_y s) < y_speed s
      then sint (room_photo_height (the (here s)) w - 182 - map_y s) else y_speed s) = d"
    unfolding eq position_words(1) [OF room] by (simp only: d min_def) auto
  have m: "map_y s + word_of_int d = word_of_int (show_y s + d)" using p by (simp add: placed_def)
  have dd: "0 \<le> d" "show_y s + d + 182 \<le> ?H" "d < 182" "show_y s + d = min (?H - 182) (show_y s + y_speed s)" using room v by (auto simp: d)
  have pos: "0 \<le> show_y s + d" using b(3) dd(1) by simp
  have lines: "\<forall>i\<in>{SCROLL_Y_DIM - d..<SCROLL_Y_DIM}. 0 \<le> i \<and> i < SCROLL_Y_DIM"
    "\<And>y. show_y s + d \<le> y \<Longrightarrow> y < show_y s + d + SCROLL_Y_DIM \<Longrightarrow> y - (show_y s + d) \<in> {SCROLL_Y_DIM - d..<SCROLL_Y_DIM} \<or> show_y s \<le> y \<and> y < show_y s + SCROLL_Y_DIM"
    using dd(1,3) by auto
  obtain s' where s': "Option.bind (set_view_window (sint (map_x s)) (sint (word_of_int (show_y s + d) :: u32)) (s\<lparr>map_y := word_of_int (show_y s + d)\<rparr>))
      (draw_lines (horiz_line w s) (map (\<lambda>i. SCROLL_Y_DIM - int i) [1..<nat (d + 1)])) = Some s'" "view_ok w s'"
    "same_screen (s\<lparr>map_y := word_of_int (show_y s + d)\<rparr>) s'" "show_x s' = show_x s" "show_y s' = show_y s + d"
    using moved_rows [OF ok pos dd(2), of "map (\<lambda>i. SCROLL_Y_DIM - int i) [1..<nat (d + 1)]"] lines by (auto simp only: last_rows)
  have "move_photo_up w s = Some s'" using s'(1) by (simp add: move_photo_up_def Let_def delta [unfolded if_distrib] m delta)
  then show ?thesis using s'(2-5) dd(4) same_screen_fields(3,4) [OF s'(3)] unfolding goes_def by auto
qed

lemma move_photo_left_goes:
  assumes ok: "view_ok w s"
  shows "goes w s (min (fst (photo_size w (cur_room s)) - 320) (show_x s + x_speed s)) (show_y s) (move_photo_left w s)"
proof -
  have p: "placed w s" using ok by (simp add: view_ok_def)
  note b = placed_bounds [OF p]
  let ?W = "fst (photo_size w (cur_room s))"
  define d where d: "d = min (?W - 320 - show_x s) (x_speed s)"
  have v: "0 \<le> x_speed s" "x_speed s < 320" using p by (auto simp: placed_def)
  have room: "0 \<le> ?W - 320 - show_x s" "?W - 320 - show_x s < 65536" using p b(1) photo_size_words(3) [of w "cur_room s"] by (auto simp: placed_def)
  have eq: "room_photo_width (the (here s)) w - 320 - map_x s = word_of_int (?W - 320 - show_x s)"
    using p by (simp add: placed_def photo_size_words)
  have delta: "(if sint (room_photo_width (the (here s)) w - 320 - map_x s) < x_speed s
      then sint (room_photo_width (the (here s)) w - 320 - map_x s) else x_speed s) = d"
    unfolding eq position_words(1) [OF room] by (simp only: d min_def) auto
  have m: "map_x s + word_of_int d = word_of_int (show_x s + d)" using p by (simp add: placed_def)
  have dd: "0 \<le> d" "show_x s + d + 320 \<le> ?W" "d < 320" "show_x s + d = min (?W - 320) (show_x s + x_speed s)" using room v by (auto simp: d)
  have pos: "0 \<le> show_x s + d" using b(1) dd(1) by simp
  have lines: "\<forall>i\<in>{SCROLL_X_DIM - d..<SCROLL_X_DIM}. 0 \<le> i \<and> i < SCROLL_X_DIM"
    "\<And>x. show_x s + d \<le> x \<Longrightarrow> x < show_x s + d + SCROLL_X_DIM \<Longrightarrow> x - (show_x s + d) \<in> {SCROLL_X_DIM - d..<SCROLL_X_DIM} \<or> show_x s \<le> x \<and> x < show_x s + SCROLL_X_DIM"
    using dd(1,3) by auto
  obtain s' where s': "Option.bind (set_view_window (sint (word_of_int (show_x s + d) :: u32)) (sint (map_y s)) (s\<lparr>map_x := word_of_int (show_x s + d)\<rparr>))
      (draw_lines (vert_line w s) (map (\<lambda>i. SCROLL_X_DIM - int i) [1..<nat (d + 1)])) = Some s'" "view_ok w s'"
    "same_screen (s\<lparr>map_x := word_of_int (show_x s + d)\<rparr>) s'" "show_x s' = show_x s + d" "show_y s' = show_y s"
    using moved_columns [OF ok pos dd(2), of "map (\<lambda>i. SCROLL_X_DIM - int i) [1..<nat (d + 1)]"] lines by (auto simp only: last_rows)
  have "move_photo_left w s = Some s'" using s'(1) by (simp add: move_photo_left_def Let_def m delta)
  then show ?thesis using s'(2-5) dd(4) same_screen_fields(3,4) [OF s'(3)] unfolding goes_def by auto
qed

subsection \<open>Entering a room\<close>

lemma ready_for_display:
  "set_mode_X True True s = (0, s') \<Longrightarrow> in_mode_X s' \<and> a_page (target_img s') \<and> window_fits s' \<and> show_x s' = 0 \<and> show_y s' = 0 \<and>
     modex.more s' = modex.more s"
proof -
  define t where "t = s\<lparr>show_x := 0, show_y := 0, img3_off := BUILD_BASE_INIT, target_img := 0x5A00\<rparr>"
  assume "set_mode_X True True s = (0, s')"
  then have s': "s' = mode_X_registers t" by (simp add: set_mode_X_def t_def)
  have "vga.more s' = vga.more t" unfolding s' by (rule mode_X_registers_more)
  then have "show_x s' = 0" "show_y s' = 0" "img3_off s' = BUILD_BASE_INIT" "target_img s' = 0x5A00" "modex.more s' = modex.more s"
    by (cases s, cases s', simp add: t_def)+
  moreover have "in_mode_X s'" unfolding s' mode_X_registers_def Let_def in_mode_X_def split_row_def line_compare_def row_bytes_def vga_frame
    by (rule table_in_mode_X [OF crtc_table, unfolded in_mode_X_def split_row_def line_compare_def row_bytes_def])
  ultimately show ?thesis by (simp add: window_fits_def a_page_def)
qed

lemma palette_frame:
  fixes s :: "'a game_info_scheme" and p :: "(u8 \<times> u8 \<times> u8) list"
  defines "s' \<equiv> set_palette_color p s"
  shows "in_mode_X s' = in_mode_X s" "vmem s' = vmem s" "build s' = build s" "img3_off s' = img3_off s" "show_x s' = show_x s"
    "show_y s' = show_y s" "target_img s' = target_img s" "cur_room s' = cur_room s" "here s' = here s" "map_x s' = map_x s"
    "map_y s' = map_y s" "x_speed s' = x_speed s" "y_speed s' = y_speed s" "typing s' = typing s" "game_info.more s' = game_info.more s"
proof -
  have "vga.more s' = vga.more s" by (simp add: s'_def vga_frame)
  then show "build s' = build s" "img3_off s' = img3_off s" "show_x s' = show_x s"
    "show_y s' = show_y s" "target_img s' = target_img s" "cur_room s' = cur_room s" "here s' = here s" "map_x s' = map_x s"
    "map_y s' = map_y s" "x_speed s' = x_speed s" "y_speed s' = y_speed s" "typing s' = typing s" "game_info.more s' = game_info.more s"
    by (cases s, cases s', simp)+
  show "in_mode_X s' = in_mode_X s" "vmem s' = vmem s"
    by (simp_all add: s'_def in_mode_X_def split_row_def line_compare_def row_bytes_def vga_frame)
qed

lemma display_ready_positions:
  "window_fits (s\<lparr>map_x := a, map_y := b\<rparr>) = window_fits s"
  by (simp add: window_fits_def)

lemma redraw_room_result:
  assumes "window_fits s" and "scene.inside w (cur_room s) s"
  shows "\<exists>s'. redraw_room w s = Some s' \<and> same_screen s s' \<and> show_x s' = show_x s \<and> show_y s' = show_y s \<and> room_shown w s'"
proof -
  obtain s' where s': "draw_lines (horiz_line w s) (map int [0..<182]) s = Some s'" "same_view s s'" "scene.shows_picture w (cur_room s) s'"
    using scene.draw_all [OF assms] by blast
  have v: "same_screen s s'" using s'(2) by (rule same_screen_view)
  have "redraw_room w s = Some s'" using s'(1) by (simp only: redraw_room_def)
  then show ?thesis using s'(3) v same_screen_fields(2) [OF v] same_view_simps(1,2) [OF s'(2)] by (auto simp: room_shown_scene)
qed

lemma redraw_room_again:
  assumes "placed w s" and "window_fits s"
  shows "\<exists>s'. redraw_room w s = Some s' \<and> same_screen s s' \<and> show_x s' = show_x s \<and> show_y s' = show_y s \<and> room_shown w s'"
  using assms by (intro redraw_room_result) (simp_all add: scene.inside_def placed_def photo_size_def Let_def)

lemma enter_view_result:
  fixes s :: "'a game_info_scheme"
  assumes "window_fits s" and "in_mode_X s" and "a_page (target_img s)" and "here s = Some r"
    and "x_speed s \<in> {2, 6}" "y_speed s \<in> {2, 6}" and size: "320 \<le> fst (photo_size w r)" "182 \<le> snd (photo_size w r)"
    and colours: "length (palette (the (view (room w r)))) = 192"
  shows "\<exists>s'. enter_view w s = Some s' \<and> view_ok w s' \<and> show_x s' = 0 \<and> show_y s' = 0 \<and> here s' = Some r \<and> x_speed s' = x_speed s \<and>
    y_speed s' = y_speed s \<and> typing s' = [] \<and> vmem s' = vmem s \<and> target_img s' = target_img s \<and> game_info.more s' = game_info.more s \<and>
    (\<forall>c. dac s' c = (if 64 \<le> c then rgb (palette (the (view (room w r))) ! (unat c - 64)) else dac s c))"
proof -
  let ?p = "palette (the (view (room w r)))"
  define t where t: "t = s\<lparr>map_x := 0, map_y := 0\<rparr>"
  have fits: "window_fits t" using assms(1) by (simp add: t window_fits_def)
  obtain u where u: "set_view_window 0 0 t = Some u" "same_screen t u" "show_x u = 0" "show_y u = 0" "window_fits u"
    using set_view_window_keeps [OF fits, of 0 0] by blast
  define v where v: "v = prep_room r w (u\<lparr>typing := []\<rparr>)"
  note f = same_screen_fields [OF u(2)]
  have v_eq: "v = set_palette_color ?p (u\<lparr>typing := [], cur_room := r\<rparr>)" by (simp add: v prep_room_def)
  note vf = palette_frame [of ?p "u\<lparr>typing := [], cur_room := r\<rparr>", folded v_eq]
  have fits_v: "window_fits v" using u(5) by (simp add: window_fits_def vf)
  have X: "in_mode_X v" using assms(2) f(8) vf(1) by (simp add: t in_mode_X_def split_row_def line_compare_def row_bytes_def)
  have "scene.inside w (cur_room v) v" using size u(3,4) by (simp add: scene.inside_def vf photo_size_def Let_def)
  then obtain s' where s': "redraw_room w v = Some s'" "same_screen v s'" "show_x s' = show_x v" "show_y s' = show_y v" "room_shown w s'"
    using redraw_room_result [OF fits_v, of w] by blast
  note g = same_screen_fields [OF s'(2)]
  have "enter_view w s = Some s'" using u(1) s'(1) f(1) assms(4) by (simp add: enter_view_def t [symmetric] v) (simp add: t)
  moreover have "view_ok w s'" using assms(3-8) X s'(5) by (simp add: view_ok_def placed_def s'(3,4) g vf f u(3,4) t)
  moreover have "dac s' c = (if 64 \<le> c then rgb (?p ! (unat c - 64)) else dac s c)" for c
    unfolding g(10) v_eq set_palette_color_dac [OF colours] by (simp add: f t)
  ultimately show ?thesis using assms(4) by (intro exI [of _ s']) (simp add: s'(3,4) g vf f u(3,4) t)
qed

end
