(* ===== verification/Input.thy ===== *)
theory Input
  imports Prelude
begin

text \<open>
  The player's input, \<^verbatim>\<open>mp2/input.c\<close>: the state machine that turns the bytes of the keyboard into commands and typing,
  the commands of the Tux controller, and the time on its display.  The static variables of the source are arguments
  and results; \<^verbatim>\<open>ioctl\<close> gives the buttons and takes the display's word.
\<close>

datatype cmd_t = CMD_NONE | CMD_RIGHT | CMD_LEFT | CMD_UP | CMD_DOWN | CMD_MOVE_LEFT | CMD_ENTER | CMD_MOVE_RIGHT
  | CMD_TYPED | CMD_QUIT

abbreviation (input) MAX_TYPED_LEN :: nat where "MAX_TYPED_LEN \<equiv> 20"

subsection \<open>Typing\<close>

text \<open>\<^verbatim>\<open>isalpha\<close> and \<^verbatim>\<open>isdigit\<close> in the C locale.\<close>

definition valid_typing :: "char \<Rightarrow> bool" where
  "valid_typing c \<longleftrightarrow>
     (let n = of_char c :: nat
      in 65 \<le> n \<and> n \<le> 90 \<or> 97 \<le> n \<and> n \<le> 122 \<or> 48 \<le> n \<and> n \<le> 57 \<or> n = 32 \<or> n = 8 \<or> n = 127)"

definition typed_a_char :: "char \<Rightarrow> string \<Rightarrow> string" where
  "typed_a_char c typing =
     (if c = CHR 0x08 \<or> c = CHR 0x7F then (if 0 < length typing then butlast typing else typing)
      else if length typing < MAX_TYPED_LEN then typing @ [c]
      else typing)"

subsection \<open>Commands of the keyboard\<close>

text \<open>What every state does with a byte that continues no key: type it or take the line.\<close>

definition other_key :: "char \<Rightarrow> cmd_t \<times> string \<Rightarrow> cmd_t \<times> string" where
  "other_key ch = (\<lambda>(pushed, typing).
     if valid_typing ch then (pushed, typed_a_char ch typing)
     else if ch = CHR 0x0A \<or> ch = CHR 0x0D then (CMD_TYPED, typing)
     else (pushed, typing))"

definition arrow_key :: "char \<Rightarrow> cmd_t option" where
  "arrow_key ch =
     (if ch = CHR ''A'' then Some CMD_UP else if ch = CHR ''B'' then Some CMD_DOWN
      else if ch = CHR ''C'' then Some CMD_RIGHT else if ch = CHR ''D'' then Some CMD_LEFT else None)"

definition edit_key :: "char \<Rightarrow> cmd_t option" where
  "edit_key ch =
     (if ch = CHR ''2'' then Some CMD_MOVE_LEFT else if ch = CHR ''1'' then Some CMD_ENTER
      else if ch = CHR ''5'' then Some CMD_MOVE_RIGHT else None)"

definition key_step :: "char \<Rightarrow> nat \<times> cmd_t \<times> string \<Rightarrow> nat \<times> cmd_t \<times> string" where
  "key_step ch = (\<lambda>(state, pushed, typing).
     if state = 0 then (if ch = CHR 0x1B then (1, pushed, typing) else (0, other_key ch (pushed, typing)))
     else if state = 1 then (if ch = CHR 0x5B then (2, pushed, typing) else (0, other_key ch (pushed, typing)))
     else if state = 2 then
       (case arrow_key ch of Some c \<Rightarrow> (0, c, typing)
        | None \<Rightarrow> (case edit_key ch of Some c \<Rightarrow> (3, c, typing) | None \<Rightarrow> (0, other_key ch (pushed, typing))))
     else if state = 3 then (0, if ch = CHR ''~'' then (pushed, typing) else other_key ch (pushed, typing))
     else (state, pushed, typing))"

fun read_keys :: "string \<Rightarrow> nat \<times> cmd_t \<times> string \<Rightarrow> cmd_t \<times> nat \<times> string \<times> string" where
  "read_keys [] (state, pushed, typing) = (pushed, state, typing, [])"
| "read_keys (ch # keys) k = (if ch = CHR ''`'' then (CMD_QUIT, fst k, snd (snd k), keys) else read_keys keys (key_step ch k))"

text \<open>The waiting bytes, the state of the machine and the typing; gives the command and what is left of the three.\<close>

definition get_command :: "string \<Rightarrow> nat \<Rightarrow> string \<Rightarrow> cmd_t \<times> nat \<times> string \<times> string" where
  "get_command keys state typing = read_keys keys (state, CMD_NONE, typing)"

subsection \<open>The Tux controller\<close>

text \<open>The word that \<^verbatim>\<open>TUX_BUTTONS\<close> gives and the command before; the command of this turn is the new one.\<close>

definition get_tux_command :: "u32 \<Rightarrow> cmd_t \<Rightarrow> cmd_t" where
  "get_tux_command arg pre_command =
     (let pre_command = (if arg AND 0x0F = 0x01 then CMD_NONE else pre_command);
          pre_command = (if arg AND 0x0F = 0x02
            then let cur_command = (if pre_command = CMD_MOVE_LEFT then CMD_NONE else CMD_MOVE_LEFT)
                 in if cur_command = CMD_MOVE_LEFT then cur_command else pre_command
            else pre_command);
          pre_command = (if arg AND 0x0F = 0x04
            then let cur_command = (if pre_command = CMD_ENTER then CMD_NONE else CMD_ENTER)
                 in if cur_command = CMD_MOVE_LEFT then cur_command else pre_command
            else pre_command);
          pre_command = (if arg AND 0x0F = 0x08
            then let cur_command = (if pre_command = CMD_MOVE_RIGHT then CMD_NONE else CMD_MOVE_RIGHT)
                 in if cur_command = CMD_MOVE_RIGHT then cur_command else pre_command
            else pre_command);
          pre_command = (if arg AND 0xF0 = 0x10 then CMD_UP else pre_command);
          pre_command = (if arg AND 0xF0 = 0x20 then CMD_DOWN else pre_command);
          pre_command = (if arg AND 0xF0 = 0x40 then CMD_LEFT else pre_command)
      in if arg AND 0xF0 = 0x80 then CMD_RIGHT else pre_command)"

text \<open>Division of C's \<^verbatim>\<open>int\<close> on the times that occur, which are not negative.\<close>

definition display_time_on_tux :: "nat \<Rightarrow> u32" where
  "display_time_on_tux num_seconds =
     (let min1 = of_nat (num_seconds div 60 div 10) AND 0x0F;
          min2 = of_nat (num_seconds div 60 mod 10) AND 0x0F;
          sec1 = of_nat (num_seconds mod 60 div 10) AND 0x0F;
          sec2 = of_nat (num_seconds mod 60 mod 10) AND 0x0F
      in 0x04000000 OR (if min1 \<noteq> 0 then 0x000F0000 else 0x00070000) OR
           (push_bit 12 min1 OR push_bit 8 min2 OR push_bit 4 sec1 OR sec2))"

subsection \<open>Typing is bounded, and keys are recognised\<close>

definition typing_ok :: "string \<Rightarrow> bool" where
  "typing_ok typing \<longleftrightarrow> length typing \<le> MAX_TYPED_LEN \<and>
     list_all (\<lambda>c. valid_typing c \<and> c \<noteq> CHR 0x08 \<and> c \<noteq> CHR 0x7F) typing"

lemma typing_ok_Nil [simp]: "typing_ok []"
  by (simp add: typing_ok_def)

lemma list_all_butlast: "list_all P xs \<Longrightarrow> list_all P (butlast xs)"
  by (auto simp: list_all_iff dest: in_set_butlastD)

lemma typed_a_char_ok:
  assumes "valid_typing c" and "typing_ok typing"
  shows "typing_ok (typed_a_char c typing)"
proof (cases "c = CHR 0x08 \<or> c = CHR 0x7F")
  case True
  then show ?thesis using assms(2) list_all_butlast [of _ typing] unfolding typed_a_char_def typing_ok_def by auto
next
  case False
  then show ?thesis using assms unfolding typed_a_char_def typing_ok_def by simp
qed

lemma plain_key_ok: "typing_ok (snd p) \<Longrightarrow> typing_ok (snd (other_key ch p))"
  by (cases p) (simp add: other_key_def typed_a_char_ok)

lemma key_step_ok:
  assumes "typing_ok (snd (snd k))" and "fst k \<le> 3"
  shows "typing_ok (snd (snd (key_step ch k))) \<and> fst (key_step ch k) \<le> 3"
proof -
  obtain state pushed typing where k: "k = (state, pushed, typing)" by (cases k)
  have p: "typing_ok (snd (other_key ch (pushed, typing)))" using plain_key_ok [of "(pushed, typing)"] assms(1) by (simp add: k)
  have "state = 0 \<or> state = 1 \<or> state = 2 \<or> state = 3" using assms(2) by (auto simp: k)
  then show ?thesis using p assms(1) unfolding k by (elim disjE) (simp_all add: key_step_def split: option.split)
qed

lemma read_keys_ok:
  assumes "typing_ok (snd (snd k))" and "fst k \<le> 3"
  shows "case read_keys keys k of (c, state, typing, rest) \<Rightarrow> typing_ok typing \<and> state \<le> 3"
  using assms
proof (induction keys arbitrary: k)
  case Nil
  then show ?case by (cases k) simp
next
  case (Cons ch keys)
  then show ?case using key_step_ok [OF Cons.prems, of ch] by (auto split: prod.splits)
qed

lemma get_command_ok:
  assumes "typing_ok typing" and "state \<le> 3" and "get_command keys state typing = (c, state', typing', rest)"
  shows "typing_ok typing'" and "state' \<le> 3"
  using read_keys_ok [of "(state, CMD_NONE, typing)" keys] assms by (simp_all add: get_command_def)

text \<open>C37: What has been typed is always a line of at most twenty letters, digits and spaces, and the machine is in one of its four
  states, whatever bytes arrive.\<close>

theorem typing_well_formed:
  assumes "typing_ok typing" and "state \<le> 3"
  shows "case get_command keys state typing of (c, state', typing', rest) \<Rightarrow> state' \<le> 3 \<and> length typing' \<le> 20 \<and>
    list_all (\<lambda>c. valid_typing c \<and> c \<noteq> CHR 0x08 \<and> c \<noteq> CHR 0x7F) typing'"
  using get_command_ok [OF assms] by (cases "get_command keys state typing") (simp add: typing_ok_def)

theorem typing_well_formed_witness:
  "case get_command [CHR 0x1B, CHR ''x'', CHR 0x08, CHR ''#'', CHR ''7''] 3 ''ab'' of (c, state', typing', rest) \<Rightarrow> state' \<le> 3 \<and> length typing' \<le> 20"
proof -
  have "typing_ok ''ab''" by (simp add: typing_ok_def valid_typing_def)
  then show ?thesis
    using typing_well_formed [of "''ab''" 3 "[CHR 0x1B, CHR ''x'', CHR 0x08, CHR ''#'', CHR ''7'']"]
    by (cases "get_command [CHR 0x1B, CHR ''x'', CHR 0x08, CHR ''#'', CHR ''7''] 3 ''ab''") simp
qed

text \<open>A key as the terminal sends it, and its effect.\<close>

datatype key = Arrow cmd_t | Edit cmd_t | Letter char | Newline

fun key_bytes :: "key \<Rightarrow> string" where
  "key_bytes (Arrow c) = [CHR 0x1B, CHR 0x5B,
     if c = CMD_UP then CHR ''A'' else if c = CMD_DOWN then CHR ''B'' else if c = CMD_RIGHT then CHR ''C'' else CHR ''D'']"
| "key_bytes (Edit c) = [CHR 0x1B, CHR 0x5B,
     if c = CMD_MOVE_LEFT then CHR ''2'' else if c = CMD_ENTER then CHR ''1'' else CHR ''5'', CHR ''~'']"
| "key_bytes (Letter c) = [c]"
| "key_bytes Newline = [CHR 0x0A]"

fun a_key :: "key \<Rightarrow> bool" where
  "a_key (Arrow c) \<longleftrightarrow> c \<in> {CMD_UP, CMD_DOWN, CMD_LEFT, CMD_RIGHT}"
| "a_key (Edit c) \<longleftrightarrow> c \<in> {CMD_MOVE_LEFT, CMD_ENTER, CMD_MOVE_RIGHT}"
| "a_key (Letter c) \<longleftrightarrow> valid_typing c"
| "a_key Newline \<longleftrightarrow> True"

fun press :: "key \<Rightarrow> cmd_t \<times> string \<Rightarrow> cmd_t \<times> string" where
  "press (Arrow c) (pushed, typing) = (c, typing)"
| "press (Edit c) (pushed, typing) = (c, typing)"
| "press (Letter c) (pushed, typing) = (pushed, typed_a_char c typing)"
| "press Newline (pushed, typing) = (CMD_TYPED, typing)"

lemma valid_typing_char: "valid_typing c \<Longrightarrow> c \<noteq> CHR ''`'' \<and> c \<noteq> CHR 0x1B"
  by (auto simp: valid_typing_def Let_def)

lemma key_steps:
  "key_step (CHR 0x1B) (0, p) = (Suc 0, p)" "key_step (CHR 0x5B) (Suc 0, p) = (2, p)" "key_step (CHR ''~'') (3, p) = (0, p)"
  "arrow_key ch = Some c \<Longrightarrow> key_step ch (2, p) = (0, c, snd p)"
  "arrow_key ch = None \<Longrightarrow> edit_key ch = Some c \<Longrightarrow> key_step ch (2, p) = (3, c, snd p)"
  "ch \<noteq> CHR 0x1B \<Longrightarrow> key_step ch (0, p) = (0, other_key ch p)"
  by (cases p, simp add: key_step_def)+

lemma plain_newline: "other_key (CHR 0x0A) p = (CMD_TYPED, snd p)"
  by (cases p) (simp add: other_key_def valid_typing_def)

lemma read_keys_key:
  assumes "a_key k"
  shows "read_keys (key_bytes k @ keys) (0, p) = read_keys keys (0, press k p)"
proof (cases k)
  case (Arrow c)
  define ch where "ch = (if c = CMD_UP then CHR ''A'' else if c = CMD_DOWN then CHR ''B'' else if c = CMD_RIGHT then CHR ''C'' else CHR ''D'')"
  have "arrow_key ch = Some c" "ch \<noteq> CHR ''`''" using assms by (auto simp: Arrow ch_def arrow_key_def)
  then show ?thesis by (cases p) (simp add: Arrow ch_def [symmetric] key_steps)
next
  case (Edit c)
  define ch where "ch = (if c = CMD_MOVE_LEFT then CHR ''2'' else if c = CMD_ENTER then CHR ''1'' else CHR ''5'')"
  have "arrow_key ch = None" "edit_key ch = Some c" "ch \<noteq> CHR ''`''" using assms by (auto simp: Edit ch_def arrow_key_def edit_key_def)
  then show ?thesis by (cases p) (simp add: Edit ch_def [symmetric] key_steps)
next
  case (Letter c)
  then show ?thesis using assms valid_typing_char [of c] by (cases p) (simp add: key_steps other_key_def)
next
  case Newline
  then show ?thesis by (cases p) (simp add: key_steps plain_newline)
qed

lemma read_keys_all:
  "list_all a_key ks \<Longrightarrow> read_keys (concat (map key_bytes ks)) (0, p) = (case fold press ks p of (c, t) \<Rightarrow> (c, 0, t, []))"
proof (induction ks arbitrary: p)
  case Nil
  then show ?case by (cases p) simp
next
  case (Cons k ks)
  then show ?case by (simp add: read_keys_key)
qed

text \<open>C36: The bytes of any sequence of keys that have arrived are read as these keys: the last command pressed is the
  command, letters and deletions act on the line in order, and the machine is back in its first state.\<close>

theorem get_command_keys:
  assumes "list_all a_key ks"
  shows "get_command (concat (map key_bytes ks)) 0 typing = (case fold press ks (CMD_NONE, typing) of (c, t) \<Rightarrow> (c, 0, t, []))"
  using read_keys_all [OF assms] by (simp add: get_command_def)

theorem get_command_keys_witness:
  "get_command (concat (map key_bytes [Letter CHR ''g'', Arrow CMD_UP, Letter (CHR 0x08), Newline, Edit CMD_ENTER])) 0 ''go'' =
     (CMD_ENTER, 0, ''go'', [])"
proof -
  have "list_all a_key [Letter CHR ''g'', Arrow CMD_UP, Letter (CHR 0x08), Newline, Edit CMD_ENTER]"
    by (simp add: valid_typing_def)
  from get_command_keys [OF this, of "''go''"] show ?thesis by (simp add: typed_a_char_def)
qed

subsection \<open>The Tux controller\<close>

lemma get_tux_command_cases: "get_tux_command a p \<in> {p, CMD_NONE, CMD_MOVE_LEFT, CMD_MOVE_RIGHT, CMD_UP, CMD_DOWN, CMD_LEFT, CMD_RIGHT}"
  by (simp add: get_tux_command_def Let_def)

text \<open>Whatever is pressed on the Tux controller, its commands are the arrows and the moves to the left and the right;
  the button for entering a room has no effect, and without a button pressed the last command is given again.\<close>

theorem tux_commands:
  "fold get_tux_command args CMD_NONE \<notin> {CMD_ENTER, CMD_TYPED, CMD_QUIT} \<and> get_tux_command 4 p = p \<and> get_tux_command 0 p = p"
proof -
  have "fold get_tux_command args p \<notin> {CMD_ENTER, CMD_TYPED, CMD_QUIT}" if "p \<notin> {CMD_ENTER, CMD_TYPED, CMD_QUIT}" for p
    using that
  proof (induction args arbitrary: p)
    case (Cons a args)
    have "get_tux_command a p \<notin> {CMD_ENTER, CMD_TYPED, CMD_QUIT}" using get_tux_command_cases [of a p] Cons.prems by auto
    then show ?case using Cons.IH by simp
  qed simp
  then show ?thesis by (simp add: get_tux_command_def Let_def)
qed

text \<open>The hexadecimal digits of the display's word.\<close>

definition nibble :: "nat \<Rightarrow> u32 \<Rightarrow> nat" where
  "nibble k v = unat (take_bit 4 (drop_bit (4 * k) v))"

lemma nibbles:
  fixes a b c d :: u32
  assumes "v = 0x04000000 OR (if big then 0x000F0000 else 0x00070000) OR
    (push_bit 12 (a AND 0x0F) OR push_bit 8 (b AND 0x0F) OR push_bit 4 (c AND 0x0F) OR d AND 0x0F)"
  shows "nibble 3 v = unat (take_bit 4 a)" "nibble 2 v = unat (take_bit 4 b)" "nibble 1 v = unat (take_bit 4 c)" "nibble 0 v = unat (take_bit 4 d)"
    "nibble 4 v = (if big then 0xF else 7)" "nibble 6 v = 4"
proof -
  have m: "x AND 0x0F = take_bit 4 x" for x :: u32 by (simp add: take_bit_eq_mask mask_eq_exp_minus_1)
  have four: "x = y" if "bit x 0 = bit y 0" "bit x 1 = bit y 1" "bit x 2 = bit y 2" "bit x 3 = bit y 3"
    "take_bit 4 x = x" "take_bit 4 y = y" for x y :: u32
  proof (rule bit_eqI)
    fix n :: nat
    have "n < 4 \<Longrightarrow> n = 0 \<or> n = 1 \<or> n = 2 \<or> n = 3" by auto
    then show "bit x n = bit y n" using that by (metis bit_take_bit_iff)
  qed
  have "take_bit 4 (drop_bit 12 v) = take_bit 4 a" "take_bit 4 (drop_bit 8 v) = take_bit 4 b" "take_bit 4 (drop_bit 4 v) = take_bit 4 c"
    "take_bit 4 v = take_bit 4 d" "take_bit 4 (drop_bit 16 v) = (if big then 0xF else 7)" "take_bit 4 (drop_bit 24 v) = 4"
    by (rule four; simp add: assms m bit_simps bit_numeral_rec)+
  then show "nibble 3 v = unat (take_bit 4 a)" "nibble 2 v = unat (take_bit 4 b)" "nibble 1 v = unat (take_bit 4 c)"
    "nibble 0 v = unat (take_bit 4 d)" "nibble 4 v = (if big then 0xF else 7)" "nibble 6 v = 4" by (simp_all add: nibble_def)
qed

lemma take_bit_digit: "k < 16 \<Longrightarrow> unat (take_bit 4 (of_nat k :: u32)) = k"
  by (simp add: unsigned_take_bit_eq unat_of_nat take_bit_nat_eq_self)

lemma time_digits:
  assumes "num_seconds < 6000"
  defines "v \<equiv> display_time_on_tux num_seconds"
  shows "nibble 3 v = num_seconds div 60 div 10" "nibble 2 v = num_seconds div 60 mod 10" "nibble 1 v = num_seconds mod 60 div 10"
    "nibble 0 v = num_seconds mod 60 mod 10" "nibble 4 v = (if num_seconds < 600 then 7 else 15)" "nibble 6 v = 4"
proof -
  let ?a = "num_seconds div 60 div 10" and ?b = "num_seconds div 60 mod 10" and ?c = "num_seconds mod 60 div 10" and ?d = "num_seconds mod 60 mod 10"
  let ?big = "of_nat ?a AND (0x0F :: u32) \<noteq> 0"
  have digits: "?a < 10" "?b < 10" "?c < 10" "?d < 10" using assms(1) by (simp_all add: div_less_iff_less_mult)
  have "v = 0x04000000 OR (if ?big then 0x000F0000 else 0x00070000) OR
      (push_bit 12 (of_nat ?a AND 0x0F) OR push_bit 8 (of_nat ?b AND 0x0F) OR push_bit 4 (of_nat ?c AND 0x0F) OR of_nat ?d AND 0x0F)"
    by (simp only: v_def display_time_on_tux_def Let_def)
  note n = nibbles [OF this]
  show "nibble 3 v = ?a" "nibble 2 v = ?b" "nibble 1 v = ?c" "nibble 0 v = ?d"
    using digits by (simp_all only: n(1-4)) (rule take_bit_digit; simp)+
  have "?a = 0 \<longleftrightarrow> num_seconds < 600" by auto
  moreover have "of_nat ?a AND (0x0F :: u32) = take_bit 4 (of_nat ?a)" by (simp add: take_bit_eq_mask mask_eq_exp_minus_1)
  then have "unat (of_nat ?a AND (0x0F :: u32)) = ?a" using take_bit_digit [of ?a] digits(1) by simp
  then have "?big \<longleftrightarrow> ?a \<noteq> 0" by (metis unat_0 unat_eq_0)
  ultimately show "nibble 4 v = (if num_seconds < 600 then 7 else 15)" "nibble 6 v = 4" using n(5,6) by simp_all
qed

text \<open>For the first hundred minutes the display shows the minutes and seconds as decimal digits, the first digit only
  when it is not zero, and the dot between them.\<close>

theorem tux_shows_time:
  assumes "num_seconds < 6000"
  defines "v \<equiv> display_time_on_tux num_seconds"
  shows "10 * nibble 3 v + nibble 2 v = num_seconds div 60 \<and> 10 * nibble 1 v + nibble 0 v = num_seconds mod 60 \<and>
    list_all (\<lambda>k. nibble k v < 10) [0, 1, 2, 3] \<and> nibble 4 v = (if num_seconds < 600 then 7 else 15) \<and> nibble 6 v = 4"
  using assms(1) unfolding v_def by (simp add: time_digits div_less_iff_less_mult del: One_nat_def)

theorem tux_shows_time_witness:
  "nibble 3 (display_time_on_tux 754) = 1 \<and> nibble 2 (display_time_on_tux 754) = 2 \<and> nibble 1 (display_time_on_tux 754) = 3 \<and>
   nibble 0 (display_time_on_tux 754) = 4"
  using tux_shows_time [of 754] by simp presburger

end
