(* ===== verification/Adventure.thy ===== *)
theory Adventure
  imports Looks Display Input
begin

text \<open>
  The adventure game itself, \<^verbatim>\<open>mp2/adventure.c\<close>: the parsing of typed commands, the turns of the game loop and the
  body of the Tux thread, on the state of display, world and input together.  Every turn and every command of
  the Tux thread is one step; they alternate in any way.  Memory for the status bar, the clock, the waiting
  bytes of the keyboard and the buttons of the controller are inputs of a turn.
\<close>

subsection \<open>Typed commands\<close>

definition cmd_list :: "(string \<times> nat \<times> cmd_id_t) list" where
  "cmd_list = [
     (''buy'', 3, TC_BUY),
     (''charge'', 2, TC_CHARGE),
     (''do'', 2, TC_DO),
     (''drink'', 3, TC_DRINK),
     (''drop'', 2, TC_DROP),
     (''fix'', 3, TC_FIX),
     (''flash'', 5, TC_FLASH),
     (''get'', 1, TC_GET),
     (''go'', 2, TC_GO),
     (''grab'', 2, TC_GET),
     (''install'', 3, TC_INSTALL),
     (''inventory'', 1, TC_INVENTORY),
     (''sigh'', 4, TC_SIGH),
     (''use'', 3, TC_USE),
     (''wear'', 4, TC_WEAR)]"

text \<open>The verb and the argument of a line, if there is a verb.\<close>

definition split_command :: "string \<Rightarrow> (string \<times> string) option" where
  "split_command line =
     (let cmd = dropWhile (\<lambda>c. c = CHR '' '') line
      in if cmd = [] then None
         else let verb = takeWhile (\<lambda>c. c \<noteq> CHR '' '') cmd
              in Some (verb, dropWhile (\<lambda>c. c = CHR '' '') (drop (length verb) cmd)))"

text \<open>\<^verbatim>\<open>0 == strncasecmp (a, b, n)\<close>.\<close>

definition same_prefix :: "nat \<Rightarrow> string \<Rightarrow> string \<Rightarrow> bool" where
  "same_prefix n a b \<longleftrightarrow> map tolower (take n a) = map tolower (take n b)"

definition verb_matches :: "string \<Rightarrow> string \<times> nat \<times> cmd_id_t \<Rightarrow> bool" where
  "verb_matches verb = (\<lambda>(name, min_len, c). min_len \<le> length verb \<and> same_prefix (length verb) name verb)"

definition find_command :: "string \<Rightarrow> cmd_id_t option" where
  "find_command verb = map_option (\<lambda>(name, min_len, c). c) (find (verb_matches verb) cmd_list)"

definition all_commands :: "cmd_id_t list" where
  "all_commands = [TC_BUY, TC_CHARGE, TC_DO, TC_DRINK, TC_DROP, TC_FIX, TC_FLASH, TC_GET, TC_GO, TC_INSTALL, TC_INVENTORY, TC_SIGH,
     TC_USE, TC_WEAR]"

text \<open>The checks of the table: entries that can match, and an entry for every command.\<close>

definition entry_ok :: "string \<times> nat \<times> cmd_id_t \<Rightarrow> bool" where
  "entry_ok = (\<lambda>(name, min_len, c). 1 \<le> min_len \<and> min_len \<le> length name)"

definition sanity_check :: int where
  "sanity_check =
     (if list_all entry_ok cmd_list \<and> list_all (\<lambda>c. list_ex (\<lambda>e. entry_ok e \<and> snd (snd e) = c) cmd_list) all_commands then 0 else -1)"

subsection \<open>The state of the game\<close>

type_synonym timeval = "nat \<times> nat"

record game = game_info +
  the_world :: world
  entering :: bool
  key_state :: nat
  pre_command :: cmd_t
  buttons :: cmd_t
  button_pressed :: bool
  tux_display :: u32
  start_time :: timeval
  tick_time :: timeval

subsection \<open>Commands\<close>

definition change_speeds :: "cmd_id_t \<Rightarrow> game \<Rightarrow> game" where
  "change_speeds c s =
     (if c = TC_DROP
      then let s = (if \<not> player_has_board (the_world s) then s\<lparr>x_speed := MOTION_SPEED\<rparr> else s)
           in if \<not> player_has_jetpack (the_world s) then s\<lparr>y_speed := MOTION_SPEED\<rparr> else s
      else if c = TC_GET
      then let s = (if player_has_board (the_world s) then s\<lparr>x_speed := MOTION_SPEED * 3\<rparr> else s)
           in if player_has_jetpack (the_world s) then s\<lparr>y_speed := MOTION_SPEED * 3\<rparr> else s
      else s)"

definition handle_typing :: "game \<Rightarrow> (bool \<times> game) option" where
  "handle_typing s =
     (case split_command (typing s) of
        None \<Rightarrow> Some (False, s)
      | Some (verb, arg) \<Rightarrow>
          (case find_command verb of
             None \<Rightarrow> Some (False, s\<lparr>the_world := show_status ''What are you babbling about?'' (the_world s)\<rparr>)
           | Some c \<Rightarrow>
               let (result, d, w) = typed_command c (the (here s)) arg (the_world s);
                   s = change_speeds c (s\<lparr>here := d, the_world := w\<rparr>)
               in if result = TC_CHANGE_ROOM then Some (True, s)
                  else if result \<noteq> TC_ALLOW_EDIT
                  then let s = s\<lparr>typing := []\<rparr>
                       in if result = TC_REDRAW_ROOM then map_option (Pair False) (redraw_room (the_world s) s) else Some (False, s)
                  else Some (False, s)))"

definition move_player :: "(nat \<Rightarrow> world \<Rightarrow> outcome) \<Rightarrow> game \<Rightarrow> game" where
  "move_player try s = (case try (the (here s)) (the_world s) of
     (result, d, w) \<Rightarrow> s\<lparr>here := d, the_world := w, entering := (result = TC_CHANGE_ROOM)\<rparr>)"

text \<open>The commands that the keyboard and the controller share.\<close>

fun player_command :: "cmd_t \<Rightarrow> game \<Rightarrow> game option" where
  "player_command CMD_UP s = move_photo_down (the_world s) s"
| "player_command CMD_RIGHT s = move_photo_left (the_world s) s"
| "player_command CMD_DOWN s = move_photo_up (the_world s) s"
| "player_command CMD_LEFT s = move_photo_right (the_world s) s"
| "player_command CMD_MOVE_LEFT s = Some (move_player try_to_move_left s)"
| "player_command CMD_ENTER s = Some (move_player try_to_enter s)"
| "player_command CMD_MOVE_RIGHT s = Some (move_player try_to_move_right s)"
| "player_command _ s = Some s"

text \<open>A round of the Tux thread, which waits for \<open>button_pressed\<close>.\<close>

definition tux_round :: "game \<Rightarrow> game option" where
  "tux_round s = map_option (\<lambda>s. s\<lparr>button_pressed := False\<rparr>) (player_command (buttons s) s)"

subsection \<open>The clock\<close>

abbreviation (input) TICK_USEC :: nat where "TICK_USEC \<equiv> 50000"

fun time_is_after :: "timeval \<Rightarrow> timeval \<Rightarrow> bool" where
  "time_is_after (s1, u1) (s2, u2) \<longleftrightarrow> (if s1 = s2 then u2 \<le> u1 else s2 < s1)"

fun add_tick :: "timeval \<Rightarrow> timeval" where
  "add_tick (s, u) = (if 1000000 < u + TICK_USEC then (s + 1, u + TICK_USEC - 1000000) else (s, u + TICK_USEC))"

function advance_tick :: "timeval \<Rightarrow> timeval \<Rightarrow> timeval" where
  "advance_tick cur tick = (let tick = add_tick tick in if time_is_after cur tick then advance_tick cur tick else tick)"
  by auto
termination
proof (relation "measures [\<lambda>(cur, tick). fst cur + 1 - fst tick, \<lambda>(cur, tick). 1000001 - snd tick]")
  fix cur tick x :: timeval
  assume "x = add_tick tick" and "time_is_after cur x"
  then show "((cur, x), (cur, tick)) \<in> measures [\<lambda>(cur, tick). fst cur + 1 - fst tick, \<lambda>(cur, tick). 1000001 - snd tick]"
    by (cases cur; cases tick) (auto split: if_splits)
qed simp

declare advance_tick.simps [simp del]

datatype waited = Waiting | Clock_Failed | Tick timeval

text \<open>Reading the clock until the tick has come.\<close>

fun wait_for_tick :: "timeval option list \<Rightarrow> timeval \<Rightarrow> waited" where
  "wait_for_tick [] tick = Waiting"
| "wait_for_tick (None # clock) tick = Clock_Failed"
| "wait_for_tick (Some cur # clock) tick = (if time_is_after cur tick then Tick cur else wait_for_tick clock tick)"

subsection \<open>The loop\<close>

definition draw_turn :: "bool \<Rightarrow> game \<Rightarrow> game option" where
  "draw_turn memory s =
     Option.bind (if entering s then map_option (\<lambda>s. s\<lparr>entering := False\<rparr>) (enter_view (the_world s) s) else Some s)
       (\<lambda>s. Option.bind (show_screen s)
         (\<lambda>s. show_status_bar memory (typing s) (the (room_name (room (the_world s) (the (here s))))) (status_msg (the_world s)) s))"

datatype game_condition_t = GAME_WON | GAME_QUIT
datatype turn = Goes_On game | Over game_condition_t game | Waits game | Exits

definition key_command :: "cmd_t \<Rightarrow> game \<Rightarrow> turn option" where
  "key_command cmd s =
     (if cmd = CMD_QUIT then Some (Over GAME_QUIT s)
      else map_option (\<lambda>s. if here s = None then Over GAME_WON s else Goes_On s)
        (if cmd = CMD_TYPED then map_option (\<lambda>(changed, s). if changed then s\<lparr>entering := True\<rparr> else s) (handle_typing s)
         else player_command cmd s))"

definition take_input :: "string \<Rightarrow> u32 \<Rightarrow> game \<Rightarrow> cmd_t \<times> game" where
  "take_input keys arg s =
     (case get_command keys (key_state s) (typing s) of
        (cmd, state, typed, rest) \<Rightarrow>
          let command = get_tux_command arg (pre_command s)
          in (cmd, s\<lparr>key_state := state, typing := typed, pre_command := command, buttons := command,
                button_pressed := (command \<noteq> CMD_NONE)\<rparr>))"

definition next_tick :: "timeval \<Rightarrow> game \<Rightarrow> game" where
  "next_tick cur s =
     (let tick = advance_tick cur (tick_time s)
      in s\<lparr>tick_time := tick, tux_display := display_time_on_tux (fst tick - fst (start_time s))\<rparr>)"

definition game_turn :: "bool \<Rightarrow> timeval option list \<Rightarrow> string \<Rightarrow> u32 \<Rightarrow> game \<Rightarrow> turn option" where
  "game_turn memory clock keys arg s =
     Option.bind (draw_turn memory s) (\<lambda>s.
       (case wait_for_tick clock (tick_time s) of
          Waiting \<Rightarrow> Some (Waits s)
        | Clock_Failed \<Rightarrow> Some Exits
        | Tick cur \<Rightarrow>
            let (cmd, s) = take_input keys arg (next_tick cur s)
            in if button_pressed s then Some (if here s = None then Over GAME_WON s else Goes_On s) else key_command cmd s))"

subsection \<open>Starting\<close>

datatype started = Panics string | Crashes | Plays game

definition start_loop :: "timeval \<Rightarrow> game \<Rightarrow> game" where
  "start_loop cur s = s\<lparr>start_time := cur, tick_time := add_tick cur, entering := True\<rparr>"

text \<open>\<^verbatim>\<open>main\<close> up to the loop, from the state that the static variables have when the program is loaded.\<close>

definition loaded :: "game \<Rightarrow> bool" where
  "loaded s \<longleftrightarrow> typing s = [] \<and> key_state s = 0 \<and> pre_command s = CMD_NONE \<and> \<not> button_pressed s \<and> status_msg (the_world s) = []"

definition adventure :: "platform \<Rightarrow> bool \<Rightarrow> bool \<Rightarrow> bool \<Rightarrow> bool \<Rightarrow> timeval \<Rightarrow> game \<Rightarrow> started" where
  "adventure P status_thread tux_thread opened input cur s =
     (case build_world P (the_world s) of
        Crashed \<Rightarrow> Crashes
      | Failed e \<Rightarrow> Panics ''can't build world''
      | Built w \<Rightarrow>
          let s = init_game (s\<lparr>the_world := w\<rparr>)
          in if sanity_check \<noteq> 0 then Panics ''failed sanity checks''
             else if \<not> status_thread then Panics ''failed to create status thread''
             else if \<not> tux_thread then Panics ''failed to create tux thread''
             else case set_mode_X True opened s of
                 (r, s) \<Rightarrow> if r \<noteq> 0 then Panics ''cannot initialize mode X''
                   else if \<not> input then Panics ''cannot initialize input''
                   else Plays (start_loop cur s))"

subsection \<open>Verbs\<close>

text \<open>No verb, however much it is shortened, matches entries of two different commands.\<close>

definition distinguished :: "string \<times> nat \<times> cmd_id_t \<Rightarrow> string \<times> nat \<times> cmd_id_t \<Rightarrow> bool" where
  "distinguished = (\<lambda>(n1, m1, c1) (n2, m2, c2). c1 = c2 \<or> take (max m1 m2) n1 \<noteq> take (max m1 m2) n2)"

lemma entries_distinguished: "list_all (\<lambda>e. list_all (distinguished e) cmd_list) cmd_list"
  by code_simp

lemma names_lower_case: "list_all (\<lambda>(name, m, c). map tolower name = name) cmd_list"
  by code_simp

lemma verb_matches_prefix:
  assumes "(name, m, c) \<in> set cmd_list"
  shows "verb_matches verb (name, m, c) \<longleftrightarrow> m \<le> length verb \<and> length verb \<le> length name \<and> take (length verb) name = map tolower verb"
proof -
  have lower: "map tolower name = name" using assms names_lower_case by (auto simp: list_all_iff)
  have eq: "map tolower (take (length verb) name) = take (length verb) name" by (metis lower take_map)
  have "length verb \<le> length name" if "take (length verb) name = map tolower verb"
    using arg_cong [OF that, of length] by simp
  then show ?thesis by (auto simp: verb_matches_def same_prefix_def eq)
qed

lemma one_command:
  assumes "(n1, m1, c1) \<in> set cmd_list" and "(n2, m2, c2) \<in> set cmd_list" and "verb_matches verb (n1, m1, c1)" and "verb_matches verb (n2, m2, c2)"
  shows "c1 = c2"
proof -
  let ?k = "max m1 m2"
  have "take (length verb) n1 = take (length verb) n2" "?k \<le> length verb"
    using assms verb_matches_prefix by simp_all
  then have "take ?k n1 = take ?k n2" by (metis min.absorb1 take_take)
  moreover have "distinguished (n1, m1, c1) (n2, m2, c2)" using entries_distinguished assms(1,2) by (auto simp: list_all_iff)
  ultimately show ?thesis by (simp add: distinguished_def)
qed

text \<open>C38: A typed verb stands for a command exactly if it is an abbreviation of one of the command's names, in any case and not
  shorter than the name allows: the order of the table does not matter, and the table passes its checks.\<close>

theorem typed_verbs:
  "(find_command verb = Some c \<longleftrightarrow> (\<exists>name min_len. (name, min_len, c) \<in> set cmd_list \<and> min_len \<le> length verb \<and>
     length verb \<le> length name \<and> take (length verb) name = map tolower verb)) \<and> sanity_check = 0"
proof -
  have "find_command verb = Some c \<longleftrightarrow> (\<exists>name min_len. (name, min_len, c) \<in> set cmd_list \<and> verb_matches verb (name, min_len, c))"
  proof
    assume "find_command verb = Some c"
    then obtain name m where "find (verb_matches verb) cmd_list = Some (name, m, c)" by (auto simp: find_command_def)
    then have "(name, m, c) \<in> set cmd_list" "verb_matches verb (name, m, c)" unfolding find_Some_iff by (metis nth_mem)+
    then show "\<exists>name min_len. (name, min_len, c) \<in> set cmd_list \<and> verb_matches verb (name, min_len, c)" by blast
  next
    assume "\<exists>name min_len. (name, min_len, c) \<in> set cmd_list \<and> verb_matches verb (name, min_len, c)"
    then obtain name m where e: "(name, m, c) \<in> set cmd_list" "verb_matches verb (name, m, c)" by blast
    then obtain n2 m2 c2 where f: "find (verb_matches verb) cmd_list = Some (n2, m2, c2)"
      by (metis find_None_iff option.exhaust prod_cases3)
    then have "(n2, m2, c2) \<in> set cmd_list" "verb_matches verb (n2, m2, c2)" unfolding find_Some_iff by (metis nth_mem)+
    then have "c2 = c" using one_command e by blast
    then show "find_command verb = Some c" by (simp add: find_command_def f)
  qed
  moreover have "sanity_check = 0" by code_simp
  ultimately show ?thesis using verb_matches_prefix by blast
qed

subsection \<open>Ticks\<close>

definition usecs :: "timeval \<Rightarrow> nat" where
  "usecs t = 1000000 * fst t + snd t"

lemma time_is_after_usecs:
  "snd cur < 1000000 \<Longrightarrow> snd tick \<le> 1000000 \<Longrightarrow> time_is_after cur tick \<longleftrightarrow> usecs tick \<le> usecs cur"
  by (cases cur; cases tick) (auto simp: usecs_def)

lemma add_tick_usecs: "snd tick \<le> 1000000 \<Longrightarrow> usecs (add_tick tick) = usecs tick + TICK_USEC \<and> snd (add_tick tick) \<le> 1000000"
  by (cases tick) (auto simp: usecs_def)

text \<open>After a turn the next tick is the first of the regular ticks that the clock has not reached: missed ticks are left
  out, and the distance to the clock is at most one tick.\<close>

theorem next_tick_regular:
  assumes "snd cur < 1000000" and "snd tick \<le> 1000000" and "time_is_after cur tick"
  shows "usecs cur < usecs (advance_tick cur tick) \<and> usecs (advance_tick cur tick) \<le> usecs cur + TICK_USEC \<and>
    (\<exists>n. usecs (advance_tick cur tick) = usecs tick + TICK_USEC * n) \<and> snd (advance_tick cur tick) \<le> 1000000"
  using assms
proof (induction cur tick rule: advance_tick.induct)
  case (1 cur tick)
  let ?t = "add_tick tick"
  have t: "usecs ?t = usecs tick + TICK_USEC" "snd ?t \<le> 1000000" using add_tick_usecs [OF 1(3)] by simp_all
  show ?case
  proof (cases "time_is_after cur ?t")
    case True
    have eq: "advance_tick cur tick = advance_tick cur ?t" using True by (subst advance_tick.simps) (simp add: Let_def)
    note IH = 1(1) [OF refl True 1(2) t(2) True]
    then obtain n where "usecs (advance_tick cur ?t) = usecs ?t + TICK_USEC * n" by blast
    then have "usecs (advance_tick cur ?t) = usecs tick + TICK_USEC * Suc n" using t(1) by simp
    then show ?thesis unfolding eq using IH by blast
  next
    case False
    have "advance_tick cur tick = ?t" using False by (subst advance_tick.simps) (simp add: Let_def)
    moreover have "usecs cur < usecs ?t" using False time_is_after_usecs [OF 1(2) t(2)] by simp
    moreover have "usecs tick \<le> usecs cur" using 1(4) time_is_after_usecs [OF 1(2,3)] by simp
    moreover have "usecs ?t = usecs tick + TICK_USEC * 1" using t(1) by simp
    ultimately show ?thesis using t by (metis add_le_mono1)
  qed
qed

theorem next_tick_regular_witness:
  "time_is_after (7, 120000) (6, 970000) \<and> usecs (advance_tick (7, 120000) (6, 970000)) \<le> 7170000"
  using next_tick_regular [of "(7, 120000)" "(6, 970000)"] by (simp add: usecs_def)

end
