(* ===== verification/Opening.thy ===== *)
theory Opening
  imports Looks
begin

text \<open>
  The pictures of a world that \<^verbatim>\<open>build_world\<close> made: every room has its name of the table and the photo of its file,
  with the size of the file's header and a full palette.
\<close>

subsection \<open>Loading a photo\<close>

lemma read_photo_header:
  assumes "read_photo malloc qsort pal junk file = Some (Some p)"
  shows "\<exists>bytes rest. file = Some bytes \<and> read_header bytes = Some (photo_hdr p, rest) \<and> length (palette p) = length pal"
proof -
  obtain bytes hdr rest s where p: "file = Some bytes" "read_header bytes = Some (hdr, rest)"
    "p = quantize qsort junk (unat (hdr_width hdr)) (unat (hdr_height hdr)) s \<lparr>photo_hdr = hdr, palette = pal,
       photo_img = replicate (unat (hdr_width hdr) * unat (hdr_height hdr)) 0\<rparr>"
    using assms by (auto simp: read_photo_def Let_def split: option.splits if_splits)
  have second: "length (fold (second_colour cs) is q) = length q" for cs "is" and q :: "(u8 \<times> u8 \<times> u8) list"
    by (induction "is" arbitrary: q) (simp_all add: second_colour_def Let_def)
  have rank: "length (snd (fold (rank_cell cs) is st)) = length (snd st)" for cs "is" and st :: "u16 list \<times> (u8 \<times> u8 \<times> u8) list"
    by (induction "is" arbitrary: st) (simp_all add: rank_cell_def split: prod.split)
  have "length (palette (quantize qsort junk a b s q)) = length (palette q)" for a b and q :: photo_t
    using rank [of "qsort (level_4 s)" "[0..<4096]" "(replicate 4096 0, palette q)"]
    by (auto simp: quantize_def rank_cells_def Let_def second simp del: upt_rec_numeral split: prod.splits)
  then show ?thesis using p by (simp add: quantize_hdr)
qed

text \<open>The photo files are those of the rooms and of the two pictures to exchange; the screen needs them large enough.\<close>

definition photo_files :: "string list" where
  "photo_files = map (\<lambda>(which, name, f, doors). f) room_data @ map snd swap_data"

definition large_photos :: "platform \<Rightarrow> bool" where
  "large_photos P \<longleftrightarrow> length (pf_palette P) = 192 \<and> list_all (\<lambda>f. case pf_file P f of None \<Rightarrow> True
     | Some bytes \<Rightarrow> (case read_header bytes of None \<Rightarrow> True
         | Some (hdr, rest) \<Rightarrow> 320 \<le> hdr_width hdr \<and> 182 \<le> hdr_height hdr)) photo_files"

lemma load_photo_good:
  assumes "large_photos P" and "f \<in> set photo_files" and "load_photo P f = Some (Some p)"
  shows "good_photo p"
proof -
  obtain bytes rest where b: "pf_file P f = Some bytes" "read_header bytes = Some (photo_hdr p, rest)" "length (palette p) = length (pf_palette P)"
    using read_photo_header assms(3) unfolding load_photo_def by blast
  then have "320 \<le> hdr_width (photo_hdr p)" "182 \<le> hdr_height (photo_hdr p)" "length (palette p) = 192"
    using assms(1,2) by (auto simp: large_photos_def list_all_iff)
  then show ?thesis by (simp add: good_photo_def word_le_def)
qed

subsection \<open>Loading the tables\<close>

lemma load_rooms_looks:
  assumes "load_rows (load_room P) rows w = Built v"
  shows "(\<forall>r. room_name (room w r) \<noteq> None \<longrightarrow> room v r = room w r) \<and> status_msg v = status_msg w \<and>
    (\<forall>(which, name, f, doors)\<in>set rows. room_name (room v which) = Some name \<and>
       (\<exists>p. view (room v which) = Some p \<and> load_photo P f = Some (Some p)))"
  using assms
proof (induction rows arbitrary: w)
  case (Cons row rows)
  obtain which name f l e r where row: "row = (which, name, f, l, e, r)" by (cases row) auto
  obtain w1 where w1: "load_room P row w = Built w1" "load_rows (load_room P) rows w1 = Built v"
    using Cons.prems by (auto split: built.splits)
  obtain p where p: "load_photo P f = Some (Some p)" "room_name (room w which) = None" and
    rest: "load_rows (load_room P) rows (set_room which \<lparr>room_name = Some name, view = Some p, contents = None, room_left = l, room_enter = e,
      room_right = r\<rparr> w) = Built v"
    using w1 by (auto simp: row load_room_def[of P "(which, name, f, l, e, r)" w] split: if_splits option.splits)
  let ?w = "set_room which \<lparr>room_name = Some name, view = Some p, contents = None, room_left = l, room_enter = e, room_right = r\<rparr> w"
  note IH = Cons.IH [OF rest]
  have "room v which = room ?w which" using IH by simp
  moreover have "room v q = room w q" if "room_name (room w q) \<noteq> None" for q
  proof -
    have "q \<noteq> which" using that p(2) by auto
    then show ?thesis using IH that by simp
  qed
  ultimately show ?case using IH p(1) by (auto simp: row)
qed simp

lemma load_objects_looks:
  assumes "load_rows (load_object P) rows w = Built v"
  shows "(\<forall>r. room_name (room v r) = room_name (room w r) \<and> view (room v r) = view (room w r)) \<and> status_msg v = status_msg w"
  using assms
proof (induction rows arbitrary: w)
  case (Cons row rows)
  obtain w1 where w1: "load_object P row w = Built w1" "load_rows (load_object P) rows w1 = Built v"
    using Cons.prems by (auto split: built.splits)
  have ins: "status_msg (insert_object ob r u) = status_msg u" for ob r u using insert_object_form [of ob r u] by auto
  have "(\<forall>r. room_name (room w1 r) = room_name (room w r) \<and> view (room w1 r) = view (room w r)) \<and> status_msg w1 = status_msg w"
    using w1(1) by (auto simp: load_object_def Let_def ins split: prod.splits if_splits option.splits)
  then show ?case using Cons.IH [OF w1(2)] by simp
qed simp

lemma load_swaps_looks:
  assumes "load_rows (load_swap P) rows w = Built v"
  shows "(\<forall>k. swap_photo w k \<noteq> None \<longrightarrow> swap_photo v k = swap_photo w k) \<and> room v = room w \<and> status_msg v = status_msg w \<and>
    (\<forall>(which, f)\<in>set rows. \<exists>p. swap_photo v which = Some p \<and> load_photo P f = Some (Some p))"
  using assms
proof (induction rows arbitrary: w)
  case (Cons row rows)
  obtain which f where row: "row = (which, f)" by (cases row) auto
  obtain w1 where w1: "load_swap P row w = Built w1" "load_rows (load_swap P) rows w1 = Built v"
    using Cons.prems by (auto split: built.splits)
  obtain p where p: "load_photo P f = Some (Some p)" "swap_photo w which = None" and
    rest: "load_rows (load_swap P) rows (w\<lparr>swap_photo := (swap_photo w)(which := Some p)\<rparr>) = Built v"
    using w1 by (auto simp: row load_swap_def[of P "(which, f)" w] split: if_splits option.splits)
  note IH = Cons.IH [OF rest]
  have "swap_photo v which = Some p" using IH by simp
  moreover have "swap_photo v k = swap_photo w k" if "swap_photo w k \<noteq> None" for k
  proof -
    have "k \<noteq> which" using that p(2) by auto
    then show ?thesis using IH that by simp
  qed
  ultimately show ?case using IH p(1) by (auto simp: row)
qed simp

lemma table_names: "list_all (\<lambda>(which, name, f, doors). ascii name \<and> length name \<le> 40) room_data"
  by (simp add: room_data_def)

lemma table_rooms: "set (map fst room_data) = {..<N_ROOMS}" "set (map fst swap_data) = {..<N_SWAPS}"
proof -
  have "distinct (map fst room_data)" by (rule room_data_distinct)
  moreover have "length room_data = N_ROOMS" "list_all (\<lambda>r. r < N_ROOMS) (map fst room_data)" by (simp_all add: room_data_def)
  moreover have "card (set (map fst room_data)) = N_ROOMS" using calculation(1,2) by (simp only: distinct_card length_map)
  ultimately show "set (map fst room_data) = {..<N_ROOMS}"
    by (intro card_subset_eq) (auto simp: list_all_iff)
  show "set (map fst swap_data) = {..<N_SWAPS}" by (auto simp: swap_data_def)
qed

lemma built_world_looks:
  assumes built: "build_world P w = Built v" and large: "large_photos P"
  shows "pictures_ok v \<and> names_ok v \<and> status_msg v = status_msg w"
proof -
  obtain w1 w2 where w: "load_rows (load_room P) room_data (w\<lparr>player_flags := [0], room := \<lambda>_. zero_room\<rparr>) = Built w1"
    "load_rows (load_object P) obj_data (w1\<lparr>object := \<lambda>_. zero_object\<rparr>) = Built w2"
    "load_rows (load_swap P) swap_data (w2\<lparr>swap_photo := \<lambda>_. None\<rparr>) = Built v"
    using built by (auto simp: build_world_def split: built.splits)
  note R = load_rooms_looks [OF w(1)] and O = load_objects_looks [OF w(2)] and S = load_swaps_looks [OF w(3)]
  have rooms: "(\<exists>n. room_name (room v r) = Some n \<and> ascii n \<and> length n \<le> 40) \<and> (\<exists>p. view (room v r) = Some p \<and> good_photo p)"
    if r: "r < N_ROOMS" for r
  proof -
    have "r \<in> set (map fst room_data)" using r by (simp only: table_rooms(1) lessThan_iff)
    then obtain name f doors where row: "(r, name, f, doors) \<in> set room_data" by auto
    have used: "f \<in> set photo_files" using row by (force simp: photo_files_def)
    have "ascii name \<and> length name \<le> 40" using row table_names by (auto simp: list_all_iff)
    moreover have "room_name (room w1 r) = Some name" "\<exists>p. view (room w1 r) = Some p \<and> load_photo P f = Some (Some p)" using R row by auto
    ultimately show ?thesis using O S load_photo_good [OF large used] by auto
  qed
  have swaps: "\<exists>p. swap_photo v k = Some p \<and> good_photo p" if k: "k < N_SWAPS" for k
  proof -
    have "k \<in> set (map fst swap_data)" using k by (simp only: table_rooms(2) lessThan_iff)
    then obtain f where row: "(k, f) \<in> set swap_data" by auto
    have used: "f \<in> set photo_files" using row by (force simp: photo_files_def)
    show ?thesis using S row load_photo_good [OF large used] by fastforce
  qed
  show ?thesis using rooms swaps R O S by (simp add: pictures_ok_def names_ok_def)
qed

end
