(* ===== verification/Play.thy ===== *)
theory Play
  imports Adventure Opening Story
begin

text \<open>
  A whole session of the adventure game: between any two steps the state is in order (\<open>game_ok\<close>), so that no step fails and
  every turn shows the player's room and the status bar.
\<close>

subsection \<open>The state between two steps\<close>

definition colours_ok :: "world \<Rightarrow> 'a game_info_scheme \<Rightarrow> bool" where
  "colours_ok w s \<longleftrightarrow> (\<forall>c. \<not> (64 \<le> c \<and> dac s c \<noteq> rgb (palette (the (view (room w (cur_room s)))) ! (unat c - 64))))"

definition story_ok :: "nat \<Rightarrow> world \<Rightarrow> bool" where
  "story_ok r w \<longleftrightarrow> world_ok w \<and> place_ok r w \<and> pictures_ok w \<and> names_ok w \<and> message_ok w"

definition device_ok :: "'a game_info_scheme \<Rightarrow> bool" where
  "device_ok s \<longleftrightarrow> in_mode_X s \<and> a_page (target_img s) \<and> window_fits s \<and> x_speed s \<in> {2, 6} \<and> y_speed s \<in> {2, 6}"

definition shows_room :: "world \<Rightarrow> 'a game_info_scheme \<Rightarrow> bool" where
  "shows_room w s \<longleftrightarrow> view_ok w s \<and> colours_ok w s"

definition game_ok :: "game \<Rightarrow> bool" where
  "game_ok s \<longleftrightarrow> (\<exists>r. here s = Some r \<and> story_ok r (the_world s)) \<and> typing_ok (typing s) \<and> key_state s \<le> 3 \<and> device_ok s \<and>
     (entering s \<or> shows_room (the_world s) s) \<and> \<not> (entering s \<and> button_pressed s)"

subsection \<open>What the parts of the state depend on\<close>

lemma place_good:
  assumes "story_ok r w"
  shows "r < N_ROOMS" "320 \<le> fst (photo_size w r)" "182 \<le> snd (photo_size w r)" "length (palette (the (view (room w r)))) = 192"
    "\<exists>n. room_name (room w r) = Some n \<and> ascii n \<and> length n \<le> 40"
proof -
  show r: "r < N_ROOMS" using assms by (simp add: story_ok_def place_ok_def)
  then obtain p where "view (room w r) = Some p" "good_photo p" using assms by (auto simp: story_ok_def pictures_ok_def)
  then show "320 \<le> fst (photo_size w r)" "182 \<le> snd (photo_size w r)" "length (palette (the (view (room w r)))) = 192"
    by (simp_all add: photo_size_def good_photo_def Let_def)
  show "\<exists>n. room_name (room w r) = Some n \<and> ascii n \<and> length n \<le> 40" using assms r by (auto simp: story_ok_def names_ok_def)
qed

lemma view_ok_device: "view_ok w s \<Longrightarrow> device_ok s"
  by (simp add: view_ok_def device_ok_def placed_def room_shown_def)

lemma scene_world:
  assumes "room w' = room w" and "object w' = object w"
  shows "scene w' = scene w"
proof -
  have "paint w' = paint w" by (intro ext) (simp add: paint_def assms)
  then show ?thesis by (intro ext) (simp add: scene_def contents_list_def assms)
qed

lemma shows_room_world:
  assumes "room w' = room w" and "object w' = object w"
  shows "shows_room w' s = shows_room w s"
  by (simp add: shows_room_def view_ok_def placed_def room_shown_def photo_size_def colours_ok_def scene_world [OF assms] assms)

text \<open>The display, after a step that changes the adapter's indices or the other parts of the state only.\<close>

lemma shows_room_cong:
  fixes s :: "'a game_info_scheme" and s' :: "'b game_info_scheme"
  assumes "here s' = here s" "cur_room s' = cur_room s" "map_x s' = map_x s" "map_y s' = map_y s" "x_speed s' = x_speed s" "y_speed s' = y_speed s"
    "build s' = build s" "img3_off s' = img3_off s" "show_x s' = show_x s" "show_y s' = show_y s" "dac s' = dac s"
    "in_mode_X s'" "a_page (target_img s')" and "shows_room w s"
  shows "shows_room w s'"
  using assms by (simp add: shows_room_def view_ok_def placed_def room_shown_def window_fits_def in_window_def pixel_def address_def colours_ok_def)

lemma device_ok_cong:
  fixes s :: "'a game_info_scheme" and s' :: "'b game_info_scheme"
  assumes "x_speed s' = x_speed s" "y_speed s' = y_speed s" "img3_off s' = img3_off s" "show_x s' = show_x s" "show_y s' = show_y s"
    "in_mode_X s'" "a_page (target_img s')" and "device_ok s"
  shows "device_ok s'"
  using assms by (simp add: device_ok_def window_fits_def)

lemma device_parts: "device_ok s \<Longrightarrow> in_mode_X s \<and> a_page (target_img s) \<and> window_fits s"
  by (simp add: device_ok_def)

subsection \<open>Drawing a turn\<close>

text \<open>What a turn puts on the screen.\<close>

definition on_screen :: "game \<Rightarrow> bool" where
  "on_screen s \<longleftrightarrow> (let w = the_world s; r = the (here s) in
     (\<forall>x y. x < 320 \<longrightarrow> y < 182 \<longrightarrow> displayed s x y = scene w r (show_x s + int x) (show_y s + int y)) \<and>
     (\<forall>x y. x < 320 \<longrightarrow> y < 18 \<longrightarrow>
        displayed s x (182 + y) = (if bar_text (typing s) (the (room_name (room w r))) (status_msg w) x y then 0 else 3)))"

definition keeps_game :: "game \<Rightarrow> game \<Rightarrow> bool" where
  "keeps_game s s' \<longleftrightarrow> here s' = here s \<and> typing s' = typing s \<and> game_info.more s' = game_info.more s"

lemma keeps_fields:
  assumes "keeps_game s s'"
  shows "here s' = here s" "typing s' = typing s" "the_world s' = the_world s" "entering s' = entering s" "key_state s' = key_state s"
    "pre_command s' = pre_command s" "buttons s' = buttons s" "button_pressed s' = button_pressed s" "tux_display s' = tux_display s"
    "start_time s' = start_time s" "tick_time s' = tick_time s"
proof -
  show "here s' = here s" "typing s' = typing s" using assms by (simp_all add: keeps_game_def)
  have "game_info.more s' = game_info.more s" using assms by (simp add: keeps_game_def)
  then show "the_world s' = the_world s" "entering s' = entering s" "key_state s' = key_state s"
    "pre_command s' = pre_command s" "buttons s' = buttons s" "button_pressed s' = button_pressed s" "tux_display s' = tux_display s"
    "start_time s' = start_time s" "tick_time s' = tick_time s"
    by (cases s, cases s', simp)+
qed

lemma game_ok_keeps:
  assumes "keeps_game s s'" and "game_ok s" and "device_ok s'" and "\<not> entering s \<Longrightarrow> shows_room (the_world s) s'"
  shows "game_ok s'"
  using assms by (auto simp: game_ok_def keeps_fields [OF assms(1)])

lemma draw_enter:
  assumes ok: "game_ok s" and "entering s"
  shows "\<exists>s'. enter_view (the_world s) s = Some s' \<and> game_ok (s'\<lparr>entering := False\<rparr>) \<and> here s' = here s \<and> typing s' = [] \<and>
    game_info.more s' = game_info.more s"
proof -
  obtain r where r: "here s = Some r" "story_ok r (the_world s)" using ok by (auto simp: game_ok_def)
  have d: "device_ok s" using ok by (simp add: game_ok_def)
  obtain s' where s': "enter_view (the_world s) s = Some s'" "view_ok (the_world s) s'" "here s' = Some r" "typing s' = []"
    "game_info.more s' = game_info.more s"
    "\<And>c. dac s' c = (if 64 \<le> c then rgb (palette (the (view (room (the_world s) r))) ! (unat c - 64)) else dac s c)"
    using enter_view_result [of s r "the_world s"] d r(1) place_good(2-4) [OF r(2)] unfolding device_ok_def by blast
  let ?t = "s'\<lparr>entering := False\<rparr>"
  have f: "the_world s' = the_world s" "key_state s' = key_state s" using s'(5) by (cases s, cases s', simp)+
  have "cur_room s' = r" using s'(2,3) by (simp add: view_ok_def placed_def)
  then have "colours_ok (the_world s) s'" unfolding colours_ok_def s'(6) by auto
  then have shows_it: "shows_room (the_world s) s'" using s'(2) by (simp add: shows_room_def)
  have X: "in_mode_X s'" "a_page (target_img s')" using s'(2) by (simp_all add: view_ok_def)
  then have X': "in_mode_X ?t" "a_page (target_img ?t)" by (simp_all add: in_mode_X_def split_row_def line_compare_def row_bytes_def)
  have "shows_room (the_world s) ?t" by (rule shows_room_cong [OF _ _ _ _ _ _ _ _ _ _ _ X' shows_it]) simp_all
  moreover have "device_ok ?t" by (rule device_ok_cong [OF _ _ _ _ _ X' view_ok_device [OF s'(2)]]) simp_all
  ultimately have "game_ok ?t" using r ok s'(3,4) f by (simp add: game_ok_def)
  then show ?thesis using s' r(1) by auto
qed

lemma draw_show:
  assumes ok: "game_ok s"
  shows "\<exists>s'. show_screen s = Some s' \<and> game_ok s' \<and> keeps_game s s' \<and> show_x s' = show_x s \<and> show_y s' = show_y s \<and>
    start_address s' \<in> {0x1A00, 0x5A00} \<and>
    (\<forall>x y. x < 320 \<longrightarrow> y < 182 \<longrightarrow> displayed s' x y = pixel s (show_x s + int x) (show_y s + int y))"
proof -
  have d: "device_ok s" using ok by (simp add: game_ok_def)
  obtain s' where s': "show_screen s = Some s'" "in_mode_X s'" "a_page (target_img s')" "build s' = build s" "img3_off s' = img3_off s"
    "show_x s' = show_x s" "show_y s' = show_y s" "dac s' = dac s" "modex.more s' = modex.more s" "start_address s' = unat (target_img s')"
    "\<And>x y. x < 320 \<Longrightarrow> y < 182 \<Longrightarrow> displayed s' x y = pixel s (show_x s + int x) (show_y s + int y)"
    using show_screen_result [of s] device_parts [OF d] by blast
  have f: "cur_room s' = cur_room s" "here s' = here s" "map_x s' = map_x s" "map_y s' = map_y s" "x_speed s' = x_speed s"
    "y_speed s' = y_speed s" "typing s' = typing s" "game_info.more s' = game_info.more s"
    using s'(9) by (cases s, cases s', simp)+
  have k: "keeps_game s s'" using f by (simp add: keeps_game_def)
  have "device_ok s'" by (rule device_ok_cong [OF f(5,6) s'(5-7) s'(2,3) d])
  moreover have "shows_room (the_world s) s'" if "\<not> entering s"
  proof -
    have "shows_room (the_world s) s" using ok that by (simp add: game_ok_def)
    then show ?thesis by (rule shows_room_cong [OF f(2,1,3,4,5,6) s'(4-8) s'(2,3)])
  qed
  ultimately have "game_ok s'" by (rule game_ok_keeps [OF k ok])
  moreover have "start_address s' \<in> {0x1A00, 0x5A00}" using s'(3,10) by (auto simp: a_page_def)
  ultimately show ?thesis using s' k by blast
qed

lemma draw_bar:
  assumes ok: "game_ok s" and "start_address s \<in> {0x1A00, 0x5A00}"
  defines "w \<equiv> the_world s" and "name \<equiv> the (room_name (room (the_world s) (the (here s))))"
  shows "\<exists>s'. show_status_bar True (typing s) name (status_msg w) s = Some s' \<and> game_ok s' \<and> keeps_game s s' \<and>
    show_x s' = show_x s \<and> show_y s' = show_y s \<and>
    (\<forall>x y. x < 320 \<longrightarrow> y < 18 \<longrightarrow> displayed s' x (182 + y) = (if bar_text (typing s) name (status_msg w) x y then 0 else 3)) \<and>
    (\<forall>x y. x < 320 \<longrightarrow> y < 182 \<longrightarrow> displayed s' x y = displayed s x y)"
proof -
  obtain r where r: "here s = Some r" "story_ok r (the_world s)" using ok by (auto simp: game_ok_def)
  have d: "device_ok s" and typed: "typing_ok (typing s)" using ok by (simp_all add: game_ok_def)
  obtain n where n: "room_name (room w r) = Some n" "ascii n" "length n \<le> 40" using place_good(5) [OF r(2)] by (auto simp: w_def)
  have msg: "ascii (status_msg w)" "length (status_msg w) \<le> 40" using r(2) by (simp_all add: story_ok_def message_ok_def w_def)
  have name: "ascii name" "length name \<le> 40" using n by (simp_all add: name_def r(1) w_def)
  have cmd: "ascii (typing s)" "length (typing s) \<le> 40"
  proof -
    have "valid_typing c \<Longrightarrow> (of_char c :: nat) < 128" for c by (auto simp: valid_typing_def Let_def)
    then show "ascii (typing s)" using typed by (auto simp: typing_ok_def ascii_def list_all_iff)
    show "length (typing s) \<le> 40" using typed by (simp add: typing_ok_def)
  qed
  obtain f g m where m: "show_status_bar True (typing s) name (status_msg w) s = Some (s\<lparr>seq_index := f, seq := g, vmem := m\<rparr>)"
    "\<And>x y. x < 320 \<Longrightarrow> y < 18 \<Longrightarrow> displayed (s\<lparr>seq_index := f, seq := g, vmem := m\<rparr>) x (182 + y) =
       (if bar_text (typing s) name (status_msg w) x y then 0 else 3)"
    "\<And>x y. x < 320 \<Longrightarrow> y < 182 \<Longrightarrow> displayed (s\<lparr>seq_index := f, seq := g, vmem := m\<rparr>) x y = displayed s x y"
    using show_status_bar_result [OF msg name cmd _ assms(2)] d unfolding device_ok_def by blast
  let ?s = "s\<lparr>seq_index := f, seq := g, vmem := m\<rparr>"
  have k: "keeps_game s ?s" by (simp add: keeps_game_def)
  have X: "in_mode_X ?s" "a_page (target_img ?s)"
    using d by (simp_all add: device_ok_def in_mode_X_def split_row_def line_compare_def row_bytes_def)
  have "device_ok ?s" by (rule device_ok_cong [OF _ _ _ _ _ X d]) simp_all
  moreover have "shows_room (the_world s) ?s" if "\<not> entering s"
  proof -
    have S: "shows_room (the_world s) s" using ok that by (simp add: game_ok_def)
    show ?thesis by (rule shows_room_cong [OF _ _ _ _ _ _ _ _ _ _ _ X S]) simp_all
  qed
  ultimately have "game_ok ?s" by (rule game_ok_keeps [OF k ok])
  then show ?thesis using m k by (intro exI [of _ ?s]) simp
qed

lemma draw_turn_result:
  assumes ok: "game_ok s"
  shows "\<exists>s'. draw_turn True s = Some s' \<and> game_ok s' \<and> \<not> entering s' \<and> here s' = here s \<and> the_world s' = the_world s \<and>
    tick_time s' = tick_time s \<and> on_screen s'"
proof -
  let ?enter = "if entering s then map_option (\<lambda>s. s\<lparr>entering := False\<rparr>) (enter_view (the_world s) s) else Some s"
  obtain s1 where s1: "?enter = Some s1" "game_ok s1" "\<not> entering s1" "here s1 = here s" "the_world s1 = the_world s" "tick_time s1 = tick_time s"
  proof (cases "entering s")
    case True
    obtain t where t: "enter_view (the_world s) s = Some t" "game_ok (t\<lparr>entering := False\<rparr>)" "here t = here s" "game_info.more t = game_info.more s"
      using draw_enter [OF ok True] by blast
    have "the_world t = the_world s" "tick_time t = tick_time s" using t(4) by (cases s, cases t, simp)+
    then show ?thesis using t True by (intro that [of "t\<lparr>entering := False\<rparr>"]) simp_all
  next
    case False
    then show ?thesis using ok by (intro that [of s]) simp_all
  qed
  obtain s2 where s2: "show_screen s1 = Some s2" "game_ok s2" "keeps_game s1 s2" "show_x s2 = show_x s1" "show_y s2 = show_y s1"
    "start_address s2 \<in> {0x1A00, 0x5A00}"
    "\<And>x y. x < 320 \<Longrightarrow> y < 182 \<Longrightarrow> displayed s2 x y = pixel s1 (show_x s1 + int x) (show_y s1 + int y)"
    using draw_show [OF s1(2)] by blast
  obtain s3 where s3: "show_status_bar True (typing s2) (the (room_name (room (the_world s2) (the (here s2))))) (status_msg (the_world s2)) s2 = Some s3"
    "game_ok s3" "keeps_game s2 s3" "show_x s3 = show_x s2" "show_y s3 = show_y s2"
    "\<And>x y. x < 320 \<Longrightarrow> y < 18 \<Longrightarrow> displayed s3 x (182 + y) =
       (if bar_text (typing s2) (the (room_name (room (the_world s2) (the (here s2))))) (status_msg (the_world s2)) x y then 0 else 3)"
    "\<And>x y. x < 320 \<Longrightarrow> y < 182 \<Longrightarrow> displayed s3 x y = displayed s2 x y"
    using draw_bar [OF s2(2,6)] by blast
  note f = keeps_fields [OF s2(3)] keeps_fields [OF s3(3)]
  have shown: "shows_room (the_world s1) s1" using s1(2,3) by (simp add: game_ok_def)
  have here: "the (here s1) = cur_room s1" using shown by (simp add: shows_room_def view_ok_def placed_def)
  have "pixel s1 (show_x s1 + int x) (show_y s1 + int y) = scene (the_world s1) (the (here s1)) (show_x s1 + int x) (show_y s1 + int y)"
    if "x < 320" "y < 182" for x y
  proof -
    have "in_window s1 (show_x s1 + int x) (show_y s1 + int y)" using that by (simp add: in_window_def)
    then show ?thesis using shown unfolding here by (simp add: shows_room_def view_ok_def room_shown_def)
  qed
  then have "on_screen s3" unfolding on_screen_def Let_def f by (simp add: s3(4-7) s2(4,5,7) f)
  moreover have "draw_turn True s = Some s3" using s1(1) s2(1) s3(1) by (simp only: draw_turn_def bind.bind_lunit Option.bind.simps)
  ultimately show ?thesis using s3(2) s1 by (auto simp: f)
qed

subsection \<open>Commands\<close>

lemma mode_X_game [simp]:
  fixes s :: game
  shows "in_mode_X (s\<lparr>the_world := w\<rparr>) = in_mode_X s" "in_mode_X (s\<lparr>entering := e\<rparr>) = in_mode_X s" "in_mode_X (s\<lparr>here := h\<rparr>) = in_mode_X s"
    "in_mode_X (s\<lparr>typing := t\<rparr>) = in_mode_X s" "in_mode_X (s\<lparr>key_state := k\<rparr>) = in_mode_X s" "in_mode_X (s\<lparr>pre_command := c\<rparr>) = in_mode_X s"
    "in_mode_X (s\<lparr>buttons := c\<rparr>) = in_mode_X s" "in_mode_X (s\<lparr>button_pressed := e\<rparr>) = in_mode_X s"
    "in_mode_X (s\<lparr>tux_display := d\<rparr>) = in_mode_X s" "in_mode_X (s\<lparr>start_time := v\<rparr>) = in_mode_X s" "in_mode_X (s\<lparr>tick_time := v\<rparr>) = in_mode_X s"
    "in_mode_X (s\<lparr>x_speed := x\<rparr>) = in_mode_X s" "in_mode_X (s\<lparr>y_speed := x\<rparr>) = in_mode_X s"
  by (simp_all add: in_mode_X_def split_row_def line_compare_def row_bytes_def)

lemma shows_room_game [simp]:
  fixes s :: game
  shows "shows_room v (s\<lparr>the_world := w\<rparr>) = shows_room v s" "shows_room v (s\<lparr>entering := e\<rparr>) = shows_room v s"
    "shows_room v (s\<lparr>typing := t\<rparr>) = shows_room v s" "shows_room v (s\<lparr>key_state := k\<rparr>) = shows_room v s"
    "shows_room v (s\<lparr>pre_command := c\<rparr>) = shows_room v s" "shows_room v (s\<lparr>buttons := c\<rparr>) = shows_room v s"
    "shows_room v (s\<lparr>button_pressed := e\<rparr>) = shows_room v s" "shows_room v (s\<lparr>tux_display := d\<rparr>) = shows_room v s"
    "shows_room v (s\<lparr>start_time := u\<rparr>) = shows_room v s" "shows_room v (s\<lparr>tick_time := u\<rparr>) = shows_room v s"
  by (simp_all add: shows_room_def view_ok_def placed_def room_shown_def window_fits_def in_window_def pixel_def address_def colours_ok_def)

lemma shows_room_here: "here s = h \<Longrightarrow> shows_room w (s\<lparr>here := h\<rparr>) = shows_room w s"
  by (simp add: shows_room_def view_ok_def placed_def room_shown_def window_fits_def in_window_def pixel_def address_def colours_ok_def
      in_mode_X_def split_row_def line_compare_def row_bytes_def)

lemma device_ok_game [simp]:
  fixes s :: game
  shows "device_ok (s\<lparr>the_world := w\<rparr>) = device_ok s" "device_ok (s\<lparr>entering := e\<rparr>) = device_ok s" "device_ok (s\<lparr>here := h\<rparr>) = device_ok s"
    "device_ok (s\<lparr>typing := t\<rparr>) = device_ok s" "device_ok (s\<lparr>key_state := k\<rparr>) = device_ok s"
    "device_ok (s\<lparr>pre_command := c\<rparr>) = device_ok s" "device_ok (s\<lparr>buttons := c\<rparr>) = device_ok s"
    "device_ok (s\<lparr>button_pressed := e\<rparr>) = device_ok s" "device_ok (s\<lparr>tux_display := d\<rparr>) = device_ok s"
    "device_ok (s\<lparr>start_time := u\<rparr>) = device_ok s" "device_ok (s\<lparr>tick_time := u\<rparr>) = device_ok s"
  by (simp_all add: device_ok_def window_fits_def)

lemma speeds_ok:
  fixes s :: game
  assumes "x \<in> {2, 6}" and "y \<in> {2, 6}"
  shows "device_ok s \<Longrightarrow> device_ok (s\<lparr>x_speed := x, y_speed := y\<rparr>)"
    and "shows_room w s \<Longrightarrow> shows_room w (s\<lparr>x_speed := x, y_speed := y\<rparr>)"
  using assms by (simp_all add: shows_room_def view_ok_def placed_def room_shown_def window_fits_def in_window_def pixel_def address_def
      colours_ok_def device_ok_def)

lemma perform_step:
  assumes "story_ok r w" and "perform a r w = (t, d, w')"
  shows "\<forall>r'. d = Some r' \<longrightarrow> story_ok r' w'" and "t \<noteq> TC_CHANGE_ROOM \<Longrightarrow> d = Some r"
    and "t \<in> {TC_ALLOW_EDIT, TC_DISCARD_TEXT} \<Longrightarrow> room w' = room w \<and> object w' = object w"
    and "t = TC_REDRAW_ROOM \<Longrightarrow> \<forall>q. view (room w' q) = view (room w q)"
proof -
  have parts: "world_ok w" "place_ok r w" "pictures_ok w" "names_ok w" "message_ok w" "r < N_ROOMS"
    using assms(1) by (simp_all add: story_ok_def place_ok_def)
  have o: "outcome_ok (t, d, w')" using perform_ok [OF parts(1,2), of a] assms(2) by simp
  have s: "suits r w (t, d, w')" using perform_suits [OF parts(3,5,6), of a] assms(2) by simp
  have "names_ok w'" using parts(4) s by (simp add: names_ok_def suits_def)
  then show "\<forall>r'. d = Some r' \<longrightarrow> story_ok r' w'" using o s by (auto simp: story_ok_def suits_def)
  show "t \<noteq> TC_CHANGE_ROOM \<Longrightarrow> d = Some r" using s by (cases t) (simp_all add: suits_def)
  show "t \<in> {TC_ALLOW_EDIT, TC_DISCARD_TEXT} \<Longrightarrow> room w' = room w \<and> object w' = object w"
    "t = TC_REDRAW_ROOM \<Longrightarrow> \<forall>q. view (room w' q) = view (room w q)" using s by (auto simp: suits_def)
qed

text \<open>The four scrolling commands.\<close>

lemma goes_shows:
  fixes s :: game
  assumes "goes w s x y r" and "shows_room w s"
  shows "\<exists>s'. r = Some s' \<and> shows_room w s' \<and> keeps_game s s' \<and> show_x s' = x \<and> show_y s' = y"
proof -
  obtain s' where s': "r = Some s'" "view_ok w s'" "show_x s' = x" "show_y s' = y" "same_screen (s\<lparr>map_x := map_x s', map_y := map_y s'\<rparr>) s'"
    using assms(1) unfolding goes_def by blast
  note f = same_screen_fields(1,2,7,10,12) [OF s'(5)]
  have "shows_room w s'" using assms(2) s'(2) by (simp add: shows_room_def colours_ok_def f)
  moreover have "keeps_game s s'" by (simp add: keeps_game_def f)
  ultimately show ?thesis using s' by blast
qed

lemma scroll_command:
  assumes ok: "game_ok s" and "\<not> entering s" and c: "c \<in> {CMD_UP, CMD_DOWN, CMD_LEFT, CMD_RIGHT}"
  shows "\<exists>s'. player_command c s = Some s' \<and> game_ok s' \<and> keeps_game s s'"
proof -
  have sh: "shows_room (the_world s) s" and v: "view_ok (the_world s) s" using ok assms(2) by (simp_all add: game_ok_def shows_room_def)
  have "\<exists>x y. goes (the_world s) s x y (player_command c s)"
    using c by (elim insertE emptyE; simp only: player_command.simps)
      (blast intro: move_photo_down_goes [OF v] move_photo_up_goes [OF v] move_photo_left_goes [OF v] move_photo_right_goes [OF v])+
  then obtain s' where s': "player_command c s = Some s'" "shows_room (the_world s) s'" "keeps_game s s'"
    using goes_shows [OF _ sh] by blast
  have "view_ok (the_world s) s'" using s'(2) by (simp add: shows_room_def)
  then have "device_ok s'" by (rule view_ok_device)
  then have "game_ok s'" using s'(2) by (intro game_ok_keeps [OF s'(3) ok]) simp_all
  then show ?thesis using s' by blast
qed

text \<open>The moves between rooms do not ask for drawing.\<close>

lemma moves_ask:
  "fst (try_to_move_left r w) \<in> {TC_ALLOW_EDIT, TC_CHANGE_ROOM}" "fst (try_to_move_right r w) \<in> {TC_ALLOW_EDIT, TC_CHANGE_ROOM}"
  "fst (try_to_enter r w) \<in> {TC_ALLOW_EDIT, TC_CHANGE_ROOM}"
proof -
  have e: "fst (enter_room d w) \<in> {TC_ALLOW_EDIT, TC_CHANGE_ROOM}" for d by (simp add: enter_room_def rand_def)
  have t: "fst (tell t d s w) = t" for t d s and w :: world by (simp add: tell_def)
  show "fst (try_to_move_left r w) \<in> {TC_ALLOW_EDIT, TC_CHANGE_ROOM}" "fst (try_to_move_right r w) \<in> {TC_ALLOW_EDIT, TC_CHANGE_ROOM}"
    using e by (simp_all add: try_to_move_left_def try_to_move_right_def t split: option.split)
  show "fst (try_to_enter r w) \<in> {TC_ALLOW_EDIT, TC_CHANGE_ROOM}"
    using e by (simp add: try_to_enter_def t rand_def split: option.split)
qed

lemma move_player_ok:
  assumes ok: "game_ok s" and "\<not> entering s" and p: "\<And>r w. perform a r w = try r w" "\<And>arg. a \<noteq> Typed TC_DO arg"
    and ask: "\<And>r w. fst (try r w) \<in> {TC_ALLOW_EDIT, TC_CHANGE_ROOM}"
  shows "game_ok ((move_player try s)\<lparr>button_pressed := False\<rparr>)" and "here (move_player try s) \<noteq> None"
    and "button_pressed (move_player try s) = button_pressed s"
proof -
  obtain r where r: "here s = Some r" "story_ok r (the_world s)" using ok by (auto simp: game_ok_def)
  obtain t d w' where x: "try r (the_world s) = (t, d, w')" by (cases "try r (the_world s)")
  then have x': "perform a r (the_world s) = (t, d, w')" by (simp add: p(1))
  note st = perform_step [OF r(2) x']
  have "d \<noteq> None" using perform_leaves [of a r "the_world s" t w'] x' r(2) p(2) by (auto simp: story_ok_def)
  then obtain r' where r': "d = Some r'" by blast
  have "t = TC_ALLOW_EDIT \<or> t = TC_CHANGE_ROOM" using ask [of r "the_world s"] x by simp
  moreover have "shows_room w' s" "r' = r" if "t = TC_ALLOW_EDIT"
  proof -
    show "r' = r" using st(2) that r' by simp
    show "shows_room w' s" using st(3) that ok assms(2) shows_room_world [of w' "the_world s" s] by (simp add: game_ok_def)
  qed
  moreover have "shows_room w (s\<lparr>here := Some r\<rparr>) = shows_room w s" for w using r(1) by (rule shows_room_here)
  ultimately show "game_ok ((move_player try s)\<lparr>button_pressed := False\<rparr>)"
    using ok st(1) r' r by (auto simp: game_ok_def move_player_def x)
  show "here (move_player try s) \<noteq> None" "button_pressed (move_player try s) = button_pressed s" using r r' by (simp_all add: move_player_def x)
qed

lemma player_command_ok:
  assumes ok: "game_ok s" and "\<not> entering s"
  shows "\<exists>s'. player_command c s = Some s' \<and> game_ok (s'\<lparr>button_pressed := False\<rparr>) \<and> here s' \<noteq> None \<and> button_pressed s' = button_pressed s"
proof -
  have here: "here s \<noteq> None" using ok by (auto simp: game_ok_def)
  have unpressed: "game_ok (s'\<lparr>button_pressed := False\<rparr>)" if "game_ok s'" for s' using that by (simp add: game_ok_def)
  consider "c \<in> {CMD_UP, CMD_DOWN, CMD_LEFT, CMD_RIGHT}" | "c = CMD_MOVE_LEFT" | "c = CMD_ENTER" | "c = CMD_MOVE_RIGHT"
    | "c \<in> {CMD_NONE, CMD_TYPED, CMD_QUIT}" by (cases c) simp_all
  then show ?thesis
  proof cases
    case 1
    then obtain s' where s': "player_command c s = Some s'" "game_ok s'" "keeps_game s s'" using scroll_command [OF ok assms(2)] by blast
    then show ?thesis using unpressed [OF s'(2)] here by (simp add: keeps_fields [OF s'(3)])
  next
    case 2
    then show ?thesis using move_player_ok [OF ok assms(2), of Move_Left try_to_move_left] moves_ask by simp
  next
    case 3
    then show ?thesis using move_player_ok [OF ok assms(2), of Enter try_to_enter] moves_ask by simp
  next
    case 4
    then show ?thesis using move_player_ok [OF ok assms(2), of Move_Right try_to_move_right] moves_ask by simp
  next
    case 5
    then show ?thesis using unpressed [OF ok] here by auto
  qed
qed

text \<open>Typed commands.\<close>

lemma change_speeds_form:
  assumes "device_ok s"
  shows "\<exists>x y. change_speeds c s = s\<lparr>x_speed := x, y_speed := y\<rparr> \<and> x \<in> {2, 6} \<and> y \<in> {2, 6}"
proof -
  let ?x = "if c = TC_DROP \<and> \<not> player_has_board (the_world s) then 2 else if c = TC_GET \<and> player_has_board (the_world s) then 6 else x_speed s"
  let ?y = "if c = TC_DROP \<and> \<not> player_has_jetpack (the_world s) then 2 else if c = TC_GET \<and> player_has_jetpack (the_world s) then 6 else y_speed s"
  have "change_speeds c s = s\<lparr>x_speed := ?x, y_speed := ?y\<rparr>" by (simp add: change_speeds_def Let_def)
  moreover have "?x \<in> {2, 6}" "?y \<in> {2, 6}" using assms by (auto simp: device_ok_def)
  ultimately show ?thesis by blast
qed

lemma redraw_ok:
  fixes s :: game
  assumes sh: "shows_room w0 s" and v: "\<And>q. view (room w q) = view (room w0 q)"
  shows "\<exists>s'. redraw_room w s = Some s' \<and> shows_room w s' \<and> keeps_game s s'"
proof -
  have "photo_size w = photo_size w0" by (intro ext) (simp add: photo_size_def v)
  then have p: "placed w s" and fits: "window_fits s" using sh by (simp_all add: shows_room_def view_ok_def placed_def room_shown_def)
  obtain s' where s': "redraw_room w s = Some s'" "same_screen s s'" "show_x s' = show_x s" "show_y s' = show_y s" "room_shown w s'"
    using redraw_room_again [OF p fits] by blast
  note f = same_screen_fields [OF s'(2)]
  have "shows_room w s'" using sh p s'(5) by (simp add: shows_room_def view_ok_def placed_def colours_ok_def f s'(3,4) v)
  moreover have "keeps_game s s'" by (simp add: keeps_game_def f)
  ultimately show ?thesis using s'(1) by blast
qed

lemma handle_typing_ok:
  assumes ok: "game_ok s" and now: "\<not> entering s" "\<not> button_pressed s"
  shows "\<exists>changed s'. handle_typing s = Some (changed, s') \<and> \<not> button_pressed s' \<and>
    (here s' = None \<or> game_ok (if changed then s'\<lparr>entering := True\<rparr> else s'))"
proof (cases "split_command (typing s)")
  case None
  then have "handle_typing s = Some (False, s)" by (simp add: handle_typing_def)
  then show ?thesis using ok now(2) by auto
next
  case (Some line)
  obtain verb arg where line: "line = (verb, arg)" by (cases line)
  obtain r where r: "here s = Some r" "story_ok r (the_world s)" using ok by (auto simp: game_ok_def)
  have sh: "shows_room (the_world s) s" using ok now(1) by (simp add: game_ok_def)
  have dev: "device_ok s" using ok by (simp add: game_ok_def)
  show ?thesis
  proof (cases "find_command verb")
    case None
    let ?w = "show_status ''What are you babbling about?'' (the_world s)"
    have st: "story_ok r ?w" using r(2) by (simp add: story_ok_def names_ok_def)
    have "shows_room ?w s" using sh shows_room_world [of ?w "the_world s" s] by simp
    then have "game_ok (s\<lparr>the_world := ?w\<rparr>)" using ok now r(1) st by (simp add: game_ok_def)
    moreover have "handle_typing s = Some (False, s\<lparr>the_world := ?w\<rparr>)" by (simp add: handle_typing_def Some line None)
    ultimately show ?thesis using now(2) by auto
  next
    case (Some c)
    obtain t d w where x: "typed_command c r arg (the_world s) = (t, d, w)" by (cases "typed_command c r arg (the_world s)")
    have x': "perform (Typed c arg) r (the_world s) = (t, d, w)" using x by simp
    note st = perform_step [OF r(2) x']
    let ?u = "s\<lparr>here := d, the_world := w\<rparr>"
    have "device_ok ?u" using dev by simp
    then obtain vx vy where u: "change_speeds c ?u = ?u\<lparr>x_speed := vx, y_speed := vy\<rparr>" "vx \<in> {2, 6}" "vy \<in> {2, 6}"
      using change_speeds_form by blast
    let ?v = "?u\<lparr>x_speed := vx, y_speed := vy\<rparr>"
    have dev_v: "device_ok ?v" using speeds_ok(1) [OF u(2,3), of ?u] dev by simp
    have h: "handle_typing s = (if t = TC_CHANGE_ROOM then Some (True, ?v) else if t \<noteq> TC_ALLOW_EDIT
        then (if t = TC_REDRAW_ROOM then map_option (Pair False) (redraw_room w (?v\<lparr>typing := []\<rparr>)) else Some (False, ?v\<lparr>typing := []\<rparr>))
        else Some (False, ?v))"
      unfolding handle_typing_def \<open>split_command (typing s) = Some line\<close> line using Some x r(1) u(1) by (simp add: Let_def)
    have typed: "typing_ok (typing s)" "key_state s \<le> 3" using ok by (simp_all add: game_ok_def)
    show ?thesis
    proof (cases "t = TC_CHANGE_ROOM")
      case True
      have "d = None \<or> game_ok (?v\<lparr>entering := True\<rparr>)"
        using st(1) typed dev_v now(2) by (cases d) (simp_all add: game_ok_def)
      then show ?thesis unfolding h using True now(2) by auto
    next
      case False
      then have d: "d = Some r" using st(2) by blast
      have r_ok: "story_ok r w" using st(1) d by blast
      have quiet: "shows_room w ?v" if "t \<noteq> TC_REDRAW_ROOM"
      proof -
        have "t \<in> {TC_ALLOW_EDIT, TC_DISCARD_TEXT}" using False that by (cases t) simp_all
        then have "shows_room w s" using sh st(3) shows_room_world [of w "the_world s" s] by blast
        then have "shows_room w (s\<lparr>here := d\<rparr>)" using shows_room_here [of s d w] r(1) d by simp
        then have "shows_room w ?u" using shows_room_game(1) [of w w "s\<lparr>here := d\<rparr>"] by simp
        then show ?thesis by (rule speeds_ok(2) [OF u(2,3)])
      qed
      have ok_v: "game_ok (?v\<lparr>typing := l\<rparr>)" if "t \<noteq> TC_REDRAW_ROOM" "typing_ok l" for l
        using quiet [OF that(1)] that(2) typed(2) dev_v now d r_ok by (simp add: game_ok_def)
      consider "t = TC_ALLOW_EDIT" | "t = TC_DISCARD_TEXT" | "t = TC_REDRAW_ROOM" using False by (cases t) simp_all
      then show ?thesis
      proof cases
        case 1
        have "game_ok ?v" using ok_v [OF _ typed(1)] 1 by simp
        then show ?thesis unfolding h using 1 now(2) by auto
      next
        case 2
        then show ?thesis unfolding h using ok_v [of "[]"] now(2) by auto
      next
        case 3
        let ?t = "?v\<lparr>typing := []\<rparr>"
        have "shows_room (the_world s) (s\<lparr>here := d\<rparr>)" using sh shows_room_here [of s d "the_world s"] r(1) d by simp
        then have "shows_room (the_world s) ?u" using shows_room_game(1) [of "the_world s" w "s\<lparr>here := d\<rparr>"] by simp
        then have "shows_room (the_world s) ?v" by (rule speeds_ok(2) [OF u(2,3)])
        then have "shows_room (the_world s) ?t" by simp
        then obtain s' where s': "redraw_room w ?t = Some s'" "shows_room w s'" "keeps_game ?t s'"
          using redraw_ok [of "the_world s" ?t w] st(4) 3 by blast
        note f = keeps_fields [OF s'(3)]
        have "view_ok w s'" using s'(2) by (simp add: shows_room_def)
        then have "device_ok s'" by (rule view_ok_device)
        then have "game_ok s'" using s'(2) d r_ok typed(2) now by (simp add: game_ok_def f)
        then show ?thesis unfolding h using 3 s'(1) now(2) by (auto simp: f)
      qed
    qed
  qed
qed

subsection \<open>Turns and sessions\<close>

definition turn_ok :: "turn \<Rightarrow> bool" where
  "turn_ok t \<longleftrightarrow> (case t of Goes_On s \<Rightarrow> game_ok s | Over c s \<Rightarrow> (c = GAME_WON \<longleftrightarrow> here s = None) | Waits s \<Rightarrow> game_ok s | Exits \<Rightarrow> True)"

lemma key_command_ok:
  assumes ok: "game_ok s" and now: "\<not> entering s" "\<not> button_pressed s"
  shows "\<exists>t. key_command cmd s = Some t \<and> turn_ok t"
proof -
  have here: "here s \<noteq> None" using ok by (auto simp: game_ok_def)
  consider "cmd = CMD_QUIT" | "cmd = CMD_TYPED" | "cmd \<noteq> CMD_QUIT" "cmd \<noteq> CMD_TYPED" by blast
  then show ?thesis
  proof cases
    case 1
    then show ?thesis using here by (simp add: key_command_def turn_ok_def)
  next
    case 2
    obtain changed s' where s': "handle_typing s = Some (changed, s')"
      "here s' = None \<or> game_ok (if changed then s'\<lparr>entering := True\<rparr> else s')"
      using handle_typing_ok [OF ok now] by blast
    then show ?thesis using 2 by (auto simp: key_command_def turn_ok_def)
  next
    case 3
    obtain s' where s': "player_command cmd s = Some s'" "game_ok (s'\<lparr>button_pressed := False\<rparr>)" "here s' \<noteq> None"
      "button_pressed s' = button_pressed s"
      using player_command_ok [OF ok now(1)] by blast
    have "game_ok s'" using s'(2,4) now(2) by (simp add: game_ok_def)
    then show ?thesis using 3 s'(1,3) by (simp add: key_command_def turn_ok_def)
  qed
qed

lemma take_input_ok:
  assumes ok: "game_ok s" and now: "\<not> entering s" and x: "take_input keys arg s = (cmd, s')"
  shows "game_ok s'" and "\<not> entering s'"
proof -
  obtain state typed rest where c: "get_command keys (key_state s) (typing s) = (cmd, state, typed, rest)"
    using x by (auto simp: take_input_def Let_def split: prod.splits)
  have "typing_ok typed" "state \<le> 3" using get_command_ok [OF _ _ c] ok by (simp_all add: game_ok_def)
  then show "game_ok s'" "\<not> entering s'" using ok now x by (auto simp: take_input_def c Let_def game_ok_def)
qed

lemma game_turn_ok:
  assumes ok: "game_ok s"
  shows "\<exists>t. game_turn True clock keys arg s = Some t \<and> turn_ok t"
proof -
  obtain s1 where s1: "draw_turn True s = Some s1" "game_ok s1" "\<not> entering s1" using draw_turn_result [OF ok] by blast
  show ?thesis
  proof (cases "wait_for_tick clock (tick_time s1)")
    case (Tick cur)
    have ok2: "game_ok (next_tick cur s1)" "\<not> entering (next_tick cur s1)" using s1(2,3) by (simp_all add: next_tick_def Let_def game_ok_def)
    obtain cmd s2 where s2: "take_input keys arg (next_tick cur s1) = (cmd, s2)" by (cases "take_input keys arg (next_tick cur s1)")
    note ok3 = take_input_ok [OF ok2 s2]
    have "here s2 \<noteq> None" using ok3(1) by (auto simp: game_ok_def)
    then show ?thesis using key_command_ok [OF ok3] ok3(1) by (simp add: game_turn_def s1(1) Tick s2 turn_ok_def)
  qed (use s1 in \<open>simp_all add: game_turn_def turn_ok_def\<close>)
qed

lemma tux_round_ok:
  assumes ok: "game_ok s" and "button_pressed s"
  shows "\<exists>s'. tux_round s = Some s' \<and> game_ok s'"
proof -
  have now: "\<not> entering s" using ok assms(2) by (simp add: game_ok_def)
  show ?thesis using player_command_ok [OF ok now, of "buttons s"] by (auto simp: tux_round_def)
qed

text \<open>The status thread takes a message away after its time.\<close>

definition clear_status :: "game \<Rightarrow> game" where
  "clear_status s = s\<lparr>the_world := (the_world s)\<lparr>status_msg := []\<rparr>\<rparr>"

lemma clear_status_ok: "game_ok s \<Longrightarrow> game_ok (clear_status s)"
proof -
  assume ok: "game_ok s"
  let ?w = "(the_world s)\<lparr>status_msg := []\<rparr>"
  have w: "?w = show_status [] (the_world s)" by (simp add: show_status_def)
  have "story_ok r ?w" if "story_ok r (the_world s)" for r
    using that unfolding w by (simp add: story_ok_def names_ok_def)
  moreover have "shows_room ?w s = shows_room (the_world s) s" by (rule shows_room_world) simp_all
  ultimately show ?thesis using ok by (auto simp: game_ok_def clear_status_def)
qed

text \<open>A session: turns of the loop, rounds of the Tux thread when a button is pressed, and messages taken away, in any order.\<close>

inductive session :: "game \<Rightarrow> game \<Rightarrow> bool" for s0 where
  start: "session s0 s0"
| turn: "session s0 s \<Longrightarrow> game_turn True clock keys arg s = Some (Goes_On s') \<Longrightarrow> session s0 s'"
| tux: "session s0 s \<Longrightarrow> button_pressed s \<Longrightarrow> tux_round s = Some s' \<Longrightarrow> session s0 s'"
| message: "session s0 s \<Longrightarrow> session s0 (clear_status s)"

lemma session_ok:
  assumes "session s0 s" and "game_ok s0"
  shows "game_ok s"
  using assms(1)
proof induction
  case (turn s clock keys arg s')
  then show ?case using game_turn_ok [of s clock keys arg] by (auto simp: turn_ok_def)
next
  case (tux s s')
  then show ?case using tux_round_ok [of s] by auto
qed (use assms(2) clear_status_ok in simp_all)

lemma adventure_starts:
  assumes "adventure P st tux opened inp cur s = Plays s0" and "loaded s" and "large_photos P"
  shows "game_ok s0" and "tick_time s0 = add_tick cur" and "here s0 = Some start_in_room" and "entering s0"
proof -
  obtain w where w: "build_world P (the_world s) = Built w" using assms(1) by (auto simp: adventure_def split: built.splits)
  define s1 where "s1 = init_game (s\<lparr>the_world := w\<rparr>)"
  obtain r s2 where s2: "set_mode_X True opened s1 = (r, s2)" by (cases "set_mode_X True opened s1")
  have p: "r = 0" "s0 = start_loop cur s2"
    using assms(1) s2 by (auto simp: adventure_def w Let_def s1_def split: if_splits)
  have "opened" using s2 p(1) by (auto simp: set_mode_X_def Let_def split: if_splits)
  then have ready: "in_mode_X s2" "a_page (target_img s2)" "window_fits s2" "modex.more s2 = modex.more s1"
    using ready_for_display [of s1 s2] s2 p(1) by simp_all
  have f: "here s2 = here s1" "x_speed s2 = x_speed s1" "y_speed s2 = y_speed s1" "typing s2 = typing s1" "the_world s2 = the_world s1"
    "key_state s2 = key_state s1" "button_pressed s2 = button_pressed s1"
    using ready(4) by (cases s1, cases s2, simp)+
  have g: "here s1 = Some start_in_room" "x_speed s1 = 2" "y_speed s1 = 2" "typing s1 = []" "the_world s1 = w" "key_state s1 = 0"
    "\<not> button_pressed s1" using assms(2) by (simp_all add: s1_def init_game_def start_in_room_def loaded_def)
  have looks: "pictures_ok w" "names_ok w" "status_msg w = []" using built_world_looks [OF w assms(3)] assms(2) by (simp_all add: loaded_def)
  have "world_ok w" using world_ok_same [OF build_world_same [OF w]] plain_world_ok by blast
  then have "story_ok start_in_room w" using looks place_ok_start by (simp add: story_ok_def message_ok_def)
  moreover have "device_ok s2" using ready(1-3) by (simp add: device_ok_def f g)
  ultimately show "game_ok s0" by (simp add: game_ok_def p(2) start_loop_def f g)
  show "tick_time s0 = add_tick cur" "here s0 = Some start_in_room" "entering s0" by (simp_all add: p(2) start_loop_def f g)
qed

subsection \<open>A world with photos that fill the screen\<close>

definition wide :: "u8 list" where
  "wide = [0x40, 1, 182, 0] @ replicate (2 * (320 * 182)) 0"

definition wide_platform :: platform where
  "wide_platform = tiny_platform\<lparr>pf_file := \<lambda>f. Some (if f \<in> set photo_files then wide else tiny)\<rparr>"

lemma wide_header: "read_header wide = Some (\<lparr>hdr_width = 320, hdr_height = 182\<rparr>, replicate (2 * (320 * 182)) 0)"
  by (simp add: wide_def)

lemma wide_complete: "complete_photo wide"
  unfolding complete_photo_def wide_header by simp

lemma object_files: "list_all (\<lambda>(photo, f). photo \<longleftrightarrow> f \<in> set photo_files) world_files"
  by code_simp

lemma wide_large: "large_photos wide_platform"
proof -
  have "pf_palette wide_platform = replicate 192 (0, 0, 0)" "f \<in> set photo_files \<Longrightarrow> pf_file wide_platform f = Some wide" for f
    by (simp_all add: wide_platform_def tiny_platform_def)
  then show ?thesis by (simp add: large_photos_def list_all_iff wide_header)
qed

lemma wide_builds:
  obtains v where "build_world wide_platform w = Built v"
proof -
  have tiny: "complete_photo tiny" "complete_image tiny"
    by (simp_all add: complete_photo_def complete_image_def tiny_header) (simp_all add: tiny_def)
  have "\<not> unreadable wide_platform x" if "x \<in> set world_files" for x
    using that object_files tiny wide_complete by (auto simp: unreadable_def wide_platform_def list_all_iff)
  then have none: "find (unreadable wide_platform) world_files = None" unfolding find_None_iff by blast
  have "pf_malloc wide_platform = (\<lambda>_. True)" "length (pf_bytes wide_platform n) = n" for n
    by (simp_all add: wide_platform_def tiny_platform_def)
  then show ?thesis using build_world_result [of wide_platform w] none that by auto
qed

end
