(* ===== verification/Session.thy ===== *)
theory Session
  imports Play
begin

text \<open>
  The properties of the adventure game on the screen: from the start of the program, through any session, every turn
  shows the player's room and the status bar, and no step of the program fails.
\<close>

subsection \<open>Sessions\<close>

lemma wide_plays:
  obtains s s0 where "loaded s" and "adventure wide_platform True True True True (5, 0) s = Plays s0"
proof -
  obtain s :: game where s: "loaded s"
  proof
    show "loaded (undefined\<lparr>typing := [], key_state := 0, pre_command := CMD_NONE, button_pressed := False, the_world := plain_world\<lparr>status_msg := []\<rparr>\<rparr>)"
      by (simp add: loaded_def)
  qed
  obtain w where w: "build_world wide_platform (the_world s) = Built w" by (rule wide_builds)
  have "sanity_check = 0" by code_simp
  then have "\<exists>s0. adventure wide_platform True True True True (5, 0) s = Plays s0"
    by (simp add: adventure_def w Let_def set_mode_X_def)
  then show ?thesis using s that by blast
qed

text \<open>C14: In every state of a session the next turn shows the player's room: the screen above the bar is the room's photo with
  the objects painted on it at the position of the window, in the photo's colours, and the bar shows the status
  message or the room's name and what the player has typed.\<close>

theorem session_shows_room:
  assumes "adventure P status tux opened inp cur s = Plays s0" and "loaded s" and "large_photos P" and "session s0 s1"
  shows "\<exists>s2 r. draw_turn True s1 = Some s2 \<and> here s1 = Some r \<and> here s2 = Some r \<and> the_world s2 = the_world s1 \<and> on_screen s2 \<and>
    view_ok (the_world s2) s2 \<and> colours_ok (the_world s2) s2"
proof -
  have ok: "game_ok s1" using session_ok [OF assms(4)] adventure_starts(1) [OF assms(1-3)] by blast
  then obtain r where r: "here s1 = Some r" by (auto simp: game_ok_def)
  obtain s2 where s2: "draw_turn True s1 = Some s2" "game_ok s2" "\<not> entering s2" "here s2 = here s1" "the_world s2 = the_world s1" "on_screen s2"
    using draw_turn_result [OF ok] by blast
  then have "shows_room (the_world s2) s2" by (simp add: game_ok_def)
  then show ?thesis using s2 r by (simp add: shows_room_def)
qed

theorem session_shows_room_witness:
  "\<exists>s s0 s2. adventure wide_platform True True True True (5, 0) s = Plays s0 \<and> draw_turn True s0 = Some s2 \<and> on_screen s2 \<and>
     here s2 = Some R_EAST_EVRT"
proof -
  obtain s s0 where s: "loaded s" "adventure wide_platform True True True True (5, 0) s = Plays s0" by (rule wide_plays)
  have "here s0 = Some start_in_room" by (rule adventure_starts(3) [OF s(2,1) wide_large])
  then show ?thesis using session_shows_room [OF s(2,1) wide_large session.start] s(2) by (auto simp: start_in_room_def)
qed

lemma read_keys_quit:
  "CHR ''`'' \<notin> set keys \<Longrightarrow> fst (snd k) \<noteq> CMD_QUIT \<Longrightarrow> fst (read_keys keys k) \<noteq> CMD_QUIT"
proof (induction keys arbitrary: k)
  case Nil
  then show ?case by (cases k) simp
next
  case (Cons ch keys)
  have plain: "fst p \<noteq> CMD_QUIT \<Longrightarrow> fst (other_key c p) \<noteq> CMD_QUIT" for c p by (cases p) (simp add: other_key_def)
  have other: "arrow_key c \<noteq> Some CMD_QUIT" "edit_key c \<noteq> Some CMD_QUIT" for c by (simp_all add: arrow_key_def edit_key_def)
  obtain state pushed typing where k: "k = (state, pushed, typing)" by (cases k)
  have "fst (other_key c (pushed, typing)) \<noteq> CMD_QUIT" for c using plain Cons.prems(2) by (simp add: k)
  then have "fst (snd (key_step ch k)) \<noteq> CMD_QUIT"
    using Cons.prems(2) other unfolding k by (simp add: key_step_def split: option.split) blast
  then show ?case using Cons by auto
qed

lemma take_input_quit: "CHR ''`'' \<notin> set keys \<Longrightarrow> fst (take_input keys arg s) \<noteq> CMD_QUIT"
  using read_keys_quit [of keys "(key_state s, CMD_NONE, typing s)"]
  by (cases "read_keys keys (key_state s, CMD_NONE, typing s)") (simp add: take_input_def get_command_def Let_def)

lemma key_command_over: "key_command cmd s = Some (Over GAME_QUIT s') \<Longrightarrow> cmd = CMD_QUIT"
  by (auto simp: key_command_def split: if_splits)

lemma key_command_goes: "key_command cmd s = Some t \<Longrightarrow> (\<exists>s'. t = Goes_On s') \<or> (\<exists>c s'. t = Over c s')"
  by (auto simp: key_command_def split: if_splits)



subsection \<open>The window\<close>

text \<open>A state to start from: mode X has been set and the first screen is shown.\<close>

lemma first_screen:
  obtains s :: modex where "window_fits s" "a_page (target_img s)" "in_mode_X s" "start_address s \<in> {0x1A00, 0x5A00}" "show_x s = 0" "show_y s = 0"
proof -
  obtain s1 where s1: "set_mode_X True True (undefined :: modex) = (0, s1)" by (simp add: set_mode_X_def Let_def)
  note r = ready_for_display [OF s1]
  obtain s2 where s2: "show_screen s1 = Some s2" "in_mode_X s2" "a_page (target_img s2)" "img3_off s2 = img3_off s1" "show_x s2 = show_x s1"
    "show_y s2 = show_y s1" "start_address s2 = unat (target_img s2)"
    using show_screen_result [of s1] r by blast
  have "window_fits s2 = window_fits s1" by (simp only: window_fits_def s2(4-6))
  then have "window_fits s2" using r by simp
  moreover have "start_address s2 \<in> {0x1A00, 0x5A00}" using s2(3,7) by (auto simp: a_page_def)
  ultimately show ?thesis using s2 r that [of s2] by simp
qed



text \<open>C17: \<^verbatim>\<open>show_screen\<close> shows the window: every pixel of the screen above the status bar is the pixel of the build buffer at
  its place, drawn in the page that was not shown before; the shown page is complete before it is shown.\<close>

theorem show_screen_shows:
  assumes "window_fits s" and "a_page (target_img s)" and "in_mode_X s"
  shows "\<exists>s'. show_screen s = Some s' \<and> target_img s' = target_img s XOR 0x4000 \<and> start_address s' = unat (target_img s') \<and>
    (\<forall>p b. \<not> (unat (target_img s') \<le> b \<and> b < unat (target_img s') + 14560) \<longrightarrow> vmem s' p b = vmem s p b) \<and>
    (\<forall>sx sy. sx < 320 \<longrightarrow> sy < 182 \<longrightarrow> displayed s' sx sy = pixel s (show_x s + int sx) (show_y s + int sy))"
  using show_screen_result [OF assms] by blast

theorem show_screen_shows_witness:
  "\<exists>s s' :: modex. show_screen s = Some s' \<and> displayed s' 5 7 = pixel s 5 7"
proof -
  obtain s :: modex where s: "window_fits s" "a_page (target_img s)" "in_mode_X s" "show_x s = 0" "show_y s = 0" by (rule first_screen)
  obtain s' where "show_screen s = Some s'" "\<forall>sx sy. sx < 320 \<longrightarrow> sy < 182 \<longrightarrow> displayed s' sx sy = pixel s (show_x s + int sx) (show_y s + int sy)"
    using show_screen_shows [OF s(1-3)] by blast
  then have "show_screen s = Some s' \<and> displayed s' 5 7 = pixel s 5 7" using s(4,5) by simp
  then show ?thesis by blast
qed

text \<open>C18: Each of the four scrolling commands moves the window by its speed up to the edge of the photo, and the window shows the
  room as before: drawing the lines that come into view is enough.\<close>

theorem scrolling_shows_room:
  assumes "view_ok w s"
  shows "goes w s (show_x s) (max 0 (show_y s - y_speed s)) (move_photo_down w s) \<and>
    goes w s (show_x s) (min (snd (photo_size w (cur_room s)) - 182) (show_y s + y_speed s)) (move_photo_up w s) \<and>
    goes w s (max 0 (show_x s - x_speed s)) (show_y s) (move_photo_right w s) \<and>
    goes w s (min (fst (photo_size w (cur_room s)) - 320) (show_x s + x_speed s)) (show_y s) (move_photo_left w s)"
  using move_photo_down_goes [OF assms] move_photo_up_goes [OF assms] move_photo_right_goes [OF assms] move_photo_left_goes [OF assms] by blast

theorem scrolling_shows_room_witness:
  "\<exists>w (s :: game). view_ok w s \<and> goes w s (min (fst (photo_size w (cur_room s)) - 320) (show_x s + x_speed s)) (show_y s) (move_photo_left w s)"
proof -
  obtain s s0 where s: "loaded s" "adventure wide_platform True True True True (5, 0) s = Plays s0" by (rule wide_plays)
  obtain s1 where "game_ok s1" "\<not> entering s1" using draw_turn_result [OF adventure_starts(1) [OF s(2,1) wide_large]] by blast
  then have "view_ok (the_world s1) s1" by (simp add: game_ok_def shows_room_def)
  then show ?thesis using scrolling_shows_room by blast
qed

text \<open>C19: The lines of pixels that \<^verbatim>\<open>photo.c\<close> gives for drawing, horizontal and vertical, are lines of one picture: the photo with
  the objects of the room painted over it in the order of the list, except where they are transparent.\<close>

theorem lines_of_the_scene:
  assumes "0 \<le> x" and "x < fst (photo_size w r)" and "0 \<le> y" and "y < snd (photo_size w r)"
  shows "fill_horiz_buffer w r x y = map (\<lambda>i. scene w r (x + int i) y) [0..<320] \<and> fill_vert_buffer w r x y = map (\<lambda>i. scene w r x (y + int i)) [0..<182]"
proof -
  have y: "0 \<le> y" "y < uint (hdr_height (photo_hdr (the (view (room w r)))))" and x: "0 \<le> x" "x < uint (hdr_width (photo_hdr (the (view (room w r)))))"
    using assms by (simp_all add: photo_size_def Let_def)
  have "length (fill_horiz_buffer w r x y) = 320" "length (fill_vert_buffer w r x y) = 182"
    using fill_horiz_buffer_scene(1) [OF y, of 0] fill_vert_buffer_scene(1) [OF x, of 0] by simp_all
  then show ?thesis using fill_horiz_buffer_scene(2) [OF y] fill_vert_buffer_scene(2) [OF x]
    by (simp add: list_eq_iff_nth_eq del: upt_rec_numeral)
qed

theorem lines_of_the_scene_witness:
  "\<exists>w. build_world wide_platform plain_world = Built w \<and> length (fill_vert_buffer w R_EAST_EVRT 7 9) = 182"
proof -
  obtain w where w: "build_world wide_platform plain_world = Built w" by (rule wide_builds)
  have "\<exists>p. view (room w R_EAST_EVRT) = Some p \<and> good_photo p" using built_world_looks [OF w wide_large] by (simp add: pictures_ok_def)
  then have "7 < fst (photo_size w R_EAST_EVRT)" "9 < snd (photo_size w R_EAST_EVRT)" by (auto simp: photo_size_def good_photo_def Let_def)
  then have "fill_vert_buffer w R_EAST_EVRT 7 9 = map (\<lambda>i. scene w R_EAST_EVRT 7 (9 + int i)) [0..<182]"
    using lines_of_the_scene [of 7 w R_EAST_EVRT 9] by simp
  then show ?thesis using w by (simp del: upt_rec_numeral)
qed

subsection \<open>The status bar\<close>

text \<open>C35: The bar shows the message in the middle, or the room's name on the left and the typed line on the right, with the
  pixels of the font in black on blue, and leaves the picture above it alone; the typed line is one row lower than
  the name.\<close>

theorem status_bar_shown:
  assumes "ascii msg" "length msg \<le> 40" and "ascii name" "length name \<le> 40" and "ascii cmd" "length cmd \<le> 40"
    and "in_mode_X s" and "start_address s \<in> {0x1A00, 0x5A00}"
  shows "\<exists>s'. show_status_bar True cmd name msg s = Some s' \<and>
    (\<forall>x y. x < 320 \<longrightarrow> y < 18 \<longrightarrow> displayed s' x (182 + y) = (if bar_text cmd name msg x y then 0 else 3)) \<and>
    (\<forall>x y. x < 320 \<longrightarrow> y < 182 \<longrightarrow> displayed s' x y = displayed s x y)"
  using show_status_bar_result [OF assms] by blast

theorem status_bar_shown_witness:
  "\<exists>s s' :: modex. show_status_bar True ''go'' ''Lab'' [] s = Some s' \<and> displayed s' 1 191 = 0 \<and> displayed s' 8 183 = 3"
proof -
  obtain s :: modex where s: "in_mode_X s" "start_address s \<in> {0x1A00, 0x5A00}" by (rule first_screen)
  obtain s' where s': "show_status_bar True ''go'' ''Lab'' [] s = Some s'"
    "\<forall>x y. x < 320 \<longrightarrow> y < 18 \<longrightarrow> displayed s' x (182 + y) = (if bar_text ''go'' ''Lab'' [] x y then 0 else 3)"
    using status_bar_shown [of "[]" "''Lab''" "''go''" s] s by auto
  have "bar_text ''go'' ''Lab'' [] 1 9" "\<not> bar_text ''go'' ''Lab'' [] 8 1" by code_simp+
  then have "displayed s' 1 191 = 0 \<and> displayed s' 8 183 = 3"
    using s'(2) [rule_format, of 1 9] s'(2) [rule_format, of 8 1] by simp
  then show ?thesis using s'(1) by blast
qed

end
