(* ===== verification/Ldisc.thy ===== *)
theory Ldisc
  imports Prelude
begin

text \<open>
  The buffers of the line discipline for the Tux controller, \<^verbatim>\<open>mp2/module/tuxctl-ld.c\<close>: two arrays of 64 bytes used
  in a circle, one for the bytes received and one for the bytes to send.  The contract of such a buffer is the
  locale \<open>byte_queue\<close>: it behaves as a queue of at most 63 bytes.  The serial driver below the discipline is
  not part of the repository; it is a parameter with two functions.
\<close>

subsection \<open>Buffers used in a circle\<close>

abbreviation (input) TUXCTL_BUFSIZE :: nat where "TUXCTL_BUFSIZE \<equiv> 64"

definition buf_used :: "nat \<Rightarrow> nat \<Rightarrow> nat" where
  "buf_used s e = (if s \<le> e then e - s else TUXCTL_BUFSIZE + e - s)"

definition buf_empty :: "nat \<Rightarrow> nat \<Rightarrow> bool" where
  "buf_empty s e \<longleftrightarrow> s = e"

definition buf_full :: "nat \<Rightarrow> nat \<Rightarrow> bool" where
  "buf_full s e \<longleftrightarrow> (e + 1) mod TUXCTL_BUFSIZE = s"

definition buf_incidx :: "nat \<Rightarrow> nat" where
  "buf_incidx idx = (idx + 1) mod TUXCTL_BUFSIZE"

text \<open>An array with its two indices, as \<^verbatim>\<open>rx_buf\<close>, \<^verbatim>\<open>rx_start\<close>, \<^verbatim>\<open>rx_end\<close>.\<close>

record ring =
  ring_buf :: "u8 list"
  ring_start :: nat
  ring_end :: nat

definition ring_put :: "u8 \<Rightarrow> ring \<Rightarrow> ring" where
  "ring_put c r = r\<lparr>ring_buf := (ring_buf r)[ring_end r := c], ring_end := buf_incidx (ring_end r)\<rparr>"

definition ring_first :: "ring \<Rightarrow> u8" where
  "ring_first r = ring_buf r ! ring_start r"

definition ring_rest :: "ring \<Rightarrow> ring" where
  "ring_rest r = r\<lparr>ring_start := buf_incidx (ring_start r)\<rparr>"

text \<open>The loops that fill a buffer while there is room, with the number of bytes left over, and that take at most
  \<open>n\<close> bytes out of it.\<close>

fun ring_fill :: "u8 list \<Rightarrow> ring \<Rightarrow> nat \<times> ring" where
  "ring_fill [] r = (0, r)"
| "ring_fill (c # cs) r = (if buf_full (ring_start r) (ring_end r) then (length (c # cs), r) else ring_fill cs (ring_put c r))"

fun ring_drain :: "nat \<Rightarrow> ring \<Rightarrow> u8 list \<times> ring" where
  "ring_drain 0 r = ([], r)"
| "ring_drain (Suc n) r =
     (if buf_empty (ring_start r) (ring_end r) then ([], r)
      else case ring_drain n (ring_rest r) of (cs, r') \<Rightarrow> (ring_first r # cs, r'))"

subsection \<open>The contract of a buffer\<close>

locale byte_queue =
  fixes ok :: "'q \<Rightarrow> bool" and contents :: "'q \<Rightarrow> u8 list" and capacity :: nat
    and full :: "'q \<Rightarrow> bool" and empty :: "'q \<Rightarrow> bool"
    and put :: "u8 \<Rightarrow> 'q \<Rightarrow> 'q" and first :: "'q \<Rightarrow> u8" and rest :: "'q \<Rightarrow> 'q"
  assumes bounded: "ok q \<Longrightarrow> length (contents q) \<le> capacity"
    and full_iff: "ok q \<Longrightarrow> full q \<longleftrightarrow> length (contents q) = capacity"
    and empty_iff: "ok q \<Longrightarrow> empty q \<longleftrightarrow> contents q = []"
    and put_ok: "ok q \<Longrightarrow> \<not> full q \<Longrightarrow> ok (put c q)"
    and put_contents: "ok q \<Longrightarrow> \<not> full q \<Longrightarrow> contents (put c q) = contents q @ [c]"
    and rest_ok: "ok q \<Longrightarrow> \<not> empty q \<Longrightarrow> ok (rest q)"
    and rest_contents: "ok q \<Longrightarrow> \<not> empty q \<Longrightarrow> contents q = first q # contents (rest q)"
begin

lemma fill_queue:
  assumes "\<And>q. fill [] q = (0, q)" and "\<And>c cs q. fill (c # cs) q = (if full q then (length (c # cs), q) else fill cs (put c q))" and "ok q"
  shows "ok (snd (fill cs q)) \<and> contents (snd (fill cs q)) = contents q @ take (capacity - length (contents q)) cs \<and>
    fst (fill cs q) = length cs - (capacity - length (contents q))"
  using assms(3)
proof (induction cs arbitrary: q)
  case Nil
  then show ?case by (simp add: assms(1))
next
  case (Cons c cs)
  show ?case
  proof (cases "full q")
    case True
    then show ?thesis using Cons.prems full_iff by (simp add: assms(2))
  next
    case False
    then have "length (contents q) < capacity" using Cons.prems full_iff bounded by (metis le_neq_implies_less)
    then show ?thesis
      using Cons.IH [OF put_ok [OF Cons.prems False], of c] put_contents [OF Cons.prems False] False
      by (auto simp: assms(2) Suc_diff_Suc take_Cons')
  qed
qed

lemma drain_queue:
  assumes "\<And>q. drain 0 q = ([], q)"
    and "\<And>n q. drain (Suc n) q = (if empty q then ([], q) else case drain n (rest q) of (cs, q') \<Rightarrow> (first q # cs, q'))" and "ok q"
  shows "ok (snd (drain n q)) \<and> fst (drain n q) = take n (contents q) \<and> contents (snd (drain n q)) = drop n (contents q)"
  using assms(3)
proof (induction n arbitrary: q)
  case 0
  then show ?case by (simp add: assms(1))
next
  case (Suc n)
  show ?case
  proof (cases "empty q")
    case True
    then show ?thesis using Suc.prems empty_iff by (simp add: assms(2))
  next
    case False
    then show ?thesis
      using Suc.IH [OF rest_ok [OF Suc.prems False]] rest_contents [OF Suc.prems False]
      by (cases "drain n (rest q)") (simp add: assms(2))
  qed
qed

end

definition ring_ok :: "ring \<Rightarrow> bool" where
  "ring_ok r \<longleftrightarrow> length (ring_buf r) = TUXCTL_BUFSIZE \<and> ring_start r < TUXCTL_BUFSIZE \<and> ring_end r < TUXCTL_BUFSIZE"

definition ring_contents :: "ring \<Rightarrow> u8 list" where
  "ring_contents r = map (\<lambda>i. ring_buf r ! ((ring_start r + i) mod TUXCTL_BUFSIZE)) [0..<buf_used (ring_start r) (ring_end r)]"

lemma used_put: "s < 64 \<Longrightarrow> e < 64 \<Longrightarrow> \<not> buf_full s e \<Longrightarrow> buf_used s (buf_incidx e) = Suc (buf_used s e) \<and> (s + buf_used s e) mod 64 = e"
  by (auto simp: buf_full_def buf_used_def buf_incidx_def mod_Suc)

lemma used_rest: "s < 64 \<Longrightarrow> e < 64 \<Longrightarrow> \<not> buf_empty s e \<Longrightarrow> buf_used s e = Suc (buf_used (buf_incidx s) e)"
  by (auto simp: buf_empty_def buf_used_def buf_incidx_def mod_Suc)

lemma used_other: "s < 64 \<Longrightarrow> e < 64 \<Longrightarrow> i < buf_used s e \<Longrightarrow> (s + i) mod 64 \<noteq> e"
proof -
  assume a: "s < 64" "e < 64" "i < buf_used s e"
  then have "s + i < 128" by (auto simp: buf_used_def split: if_splits)
  then have "(s + i) mod 64 = (if s + i < 64 then s + i else s + i - 64)" by (simp add: le_mod_geq)
  then show ?thesis using a by (auto simp: buf_used_def split: if_splits)
qed

lemma ring_contents_put:
  assumes "ring_ok r" and "\<not> buf_full (ring_start r) (ring_end r)"
  shows "ring_contents (ring_put c r) = ring_contents r @ [c]"
proof -
  have r: "ring_start r < 64" "ring_end r < 64" "length (ring_buf r) = 64" using assms(1) by (simp_all add: ring_ok_def)
  note u = used_put [OF r(1,2) assms(2)]
  have "map (\<lambda>i. (ring_buf r)[ring_end r := c] ! ((ring_start r + i) mod 64)) [0..<buf_used (ring_start r) (ring_end r)] = ring_contents r"
    unfolding ring_contents_def
    by (rule map_cong) (simp_all add: used_other [OF r(1,2), THEN not_sym])
  then show ?thesis using u r by (simp add: ring_contents_def ring_put_def)
qed

lemma ring_contents_rest:
  assumes "ring_ok r" and "\<not> buf_empty (ring_start r) (ring_end r)"
  shows "ring_contents r = ring_first r # ring_contents (ring_rest r)"
proof -
  have r: "ring_start r < 64" "ring_end r < 64" using assms(1) by (simp_all add: ring_ok_def)
  have "(buf_incidx s + i) mod 64 = (s + Suc i) mod 64" for s i by (simp add: buf_incidx_def mod_simps)
  then show ?thesis
    using used_rest [OF r assms(2)] r
    by (simp add: ring_contents_def ring_rest_def ring_first_def upt_conv_Cons map_Suc_upt [symmetric] comp_def del: upt_Suc)
qed

interpretation ring: byte_queue ring_ok ring_contents 63 "\<lambda>r. buf_full (ring_start r) (ring_end r)"
  "\<lambda>r. buf_empty (ring_start r) (ring_end r)" ring_put ring_first ring_rest
proof unfold_locales
  fix q c
  assume ok: "ring_ok q"
  then show "length (ring_contents q) \<le> 63" "buf_full (ring_start q) (ring_end q) \<longleftrightarrow> length (ring_contents q) = 63"
    "buf_empty (ring_start q) (ring_end q) \<longleftrightarrow> ring_contents q = []"
    by (auto simp: ring_ok_def ring_contents_def buf_used_def buf_full_def buf_empty_def mod_Suc split: if_splits)
  show "\<not> buf_full (ring_start q) (ring_end q) \<Longrightarrow> ring_ok (ring_put c q)" "\<not> buf_empty (ring_start q) (ring_end q) \<Longrightarrow> ring_ok (ring_rest q)"
    using ok by (simp_all add: ring_ok_def ring_put_def ring_rest_def buf_incidx_def)
qed (rule ring_contents_put ring_contents_rest; assumption)+

lemma ring_fill_queue:
  assumes "ring_ok r"
  shows "ring_ok (snd (ring_fill cs r))" and "ring_contents (snd (ring_fill cs r)) = ring_contents r @ take (63 - length (ring_contents r)) cs"
    and "fst (ring_fill cs r) = length cs - (63 - length (ring_contents r))"
  using ring.fill_queue [of ring_fill, OF _ _ assms] by simp_all

lemma ring_drain_queue:
  assumes "ring_ok r"
  shows "ring_ok (snd (ring_drain n r))" and "fst (ring_drain n r) = take n (ring_contents r)" and "ring_contents (snd (ring_drain n r)) = drop n (ring_contents r)"
  using ring.drain_queue [of ring_drain, OF _ _ assms] by simp_all

end
