(* ===== verification/Tuxctl.thy ===== *)
theory Tuxctl
  imports Ldisc
begin

text \<open>
  The driver of the Tux controller: the line discipline \<^verbatim>\<open>mp2/module/tuxctl-ld.c\<close>, the commands and responses of the
  protocol (\<^verbatim>\<open>mtcp.h\<close>) and the operations of \<^verbatim>\<open>tuxctl-ioctl.c\<close>.  Interrupts and calls are atomic, as the source's
  lock makes the accesses to the buffers.  Using the buffers of a line that is not open has the result \<open>None\<close>.
\<close>

subsection \<open>State\<close>

record ldisc_data =
  magic :: u32
  rx :: ring
  tx :: ring

text \<open>The serial driver, with a state \<open>'d\<close> of its own.\<close>

record 'd tty_driver =
  write_room :: "'d \<Rightarrow> int"
  tty_write :: "u8 list \<Rightarrow> 'd \<Rightarrow> int \<times> 'd"

text \<open>The line's data, the bytes saved by the callback, the variables of the driver, and the line.\<close>

record 'd tux =
  disc_data :: "ldisc_data option"
  saved :: "u8 list"
  ack :: bool
  button :: u8
  led :: u32
  serial :: 'd

subsection \<open>The line discipline\<close>

abbreviation (input) TUXCTL_MAGIC :: u32 where "TUXCTL_MAGIC \<equiv> 0x74757863"
abbreviation (input) ENOMEM :: int where "ENOMEM \<equiv> 12"
abbreviation (input) EINVAL :: int where "EINVAL \<equiv> 22"

text \<open>\<^verbatim>\<open>kmalloc\<close> gives memory with any contents, or none.\<close>

definition tuxctl_ldisc_open :: "ldisc_data option \<Rightarrow> 'd tux \<Rightarrow> int \<times> 'd tux" where
  "tuxctl_ldisc_open kmalloc s =
     (case kmalloc of
        None \<Rightarrow> (- ENOMEM, s)
      | Some d \<Rightarrow> (0, s\<lparr>disc_data := Some (d\<lparr>magic := TUXCTL_MAGIC, rx := (rx d)\<lparr>ring_start := 0, ring_end := 0\<rparr>,
          tx := (tx d)\<lparr>ring_start := 0, ring_end := 0\<rparr>\<rparr>)\<rparr>))"

definition tuxctl_ldisc_close :: "'d tux \<Rightarrow> 'd tux" where
  "tuxctl_ldisc_close s = s\<lparr>disc_data := None\<rparr>"

text \<open>The loop of \<^verbatim>\<open>write_wakeup\<close> runs while \<open>n \<le> room\<close>, at most \<open>room + 1\<close> times.\<close>

definition tuxctl_ldisc_write_wakeup :: "'d tty_driver \<Rightarrow> 'd tux \<Rightarrow> 'd tux option" where
  "tuxctl_ldisc_write_wakeup drv s =
     (let room = write_room drv (serial s)
      in case disc_data s of
           None \<Rightarrow> None
         | Some d \<Rightarrow>
             (case ring_drain (nat (room + 1)) (tx d) of
                (buf, r) \<Rightarrow> (case tty_write drv buf (serial s) of
                   (sent, l) \<Rightarrow> Some (s\<lparr>disc_data := Some (d\<lparr>tx := r\<rparr>), serial := l\<rparr>))))"

definition tuxctl_ldisc_get :: "nat \<Rightarrow> 'd tux \<Rightarrow> (u8 list \<times> 'd tux) option" where
  "tuxctl_ldisc_get n s =
     (case disc_data s of
        None \<Rightarrow> None
      | Some d \<Rightarrow> (case ring_drain n (rx d) of (buf, r) \<Rightarrow> Some (buf, s\<lparr>disc_data := Some (d\<lparr>rx := r\<rparr>)\<rparr>)))"

definition tuxctl_ldisc_put :: "'d tty_driver \<Rightarrow> u8 list \<Rightarrow> 'd tux \<Rightarrow> (nat \<times> 'd tux) option" where
  "tuxctl_ldisc_put drv buf s =
     (case disc_data s of
        None \<Rightarrow> None
      | Some d \<Rightarrow>
          (case ring_fill buf (tx d) of
             (n, r) \<Rightarrow> map_option (Pair n) (tuxctl_ldisc_write_wakeup drv (s\<lparr>disc_data := Some (d\<lparr>tx := r\<rparr>)\<rparr>))))"

subsection \<open>The protocol\<close>

definition MTCP_RESP :: "u8 \<Rightarrow> u8" where
  "MTCP_RESP n = (n AND 7) OR push_bit 1 (n AND 0x18) OR 0x40"

definition MTCP_CMD :: "u8 \<Rightarrow> u8" where
  "MTCP_CMD c = 0xC0 OR c"

abbreviation (input) MTCP_ACK :: u8 where "MTCP_ACK \<equiv> MTCP_RESP 0x0"
abbreviation (input) MTCP_BIOC_EVENT :: u8 where "MTCP_BIOC_EVENT \<equiv> MTCP_RESP 0x1"
abbreviation (input) MTCP_RESET :: u8 where "MTCP_RESET \<equiv> MTCP_RESP 0x6"
abbreviation (input) MTCP_BIOC_ON :: u8 where "MTCP_BIOC_ON \<equiv> MTCP_CMD 0x3"
abbreviation (input) MTCP_LED_SET :: u8 where "MTCP_LED_SET \<equiv> MTCP_CMD 0x6"
abbreviation (input) MTCP_LED_USR :: u8 where "MTCP_LED_USR \<equiv> MTCP_CMD 0x8"

lemma protocol_bytes:
  "MTCP_ACK = 0x40" "MTCP_BIOC_EVENT = 0x41" "MTCP_RESET = 0x46" "MTCP_BIOC_ON = 0xC3" "MTCP_LED_SET = 0xC6" "MTCP_LED_USR = 0xC8"
  by (simp_all add: MTCP_RESP_def MTCP_CMD_def push_bit_eq_mult)

subsection \<open>The operations\<close>

definition tux_init :: "'d tty_driver \<Rightarrow> u32 \<Rightarrow> 'd tux \<Rightarrow> 'd tux option" where
  "tux_init drv arg s =
     Option.bind (tuxctl_ldisc_put drv [MTCP_BIOC_ON] s) (\<lambda>(n, s).
       map_option (\<lambda>(n, s). s\<lparr>led := 0, ack := False, button := 0\<rparr>) (tuxctl_ldisc_put drv [MTCP_LED_USR] s))"

text \<open>\<^verbatim>\<open>copy_to_user\<close> copies four bytes from the address of the one-byte variable \<open>button\<close>: the other three
  are those that follow it, \<open>beyond\<close>.  The result is the return value and the word that is written at \<open>arg\<close>.\<close>

definition tux_buttons :: "u32 \<Rightarrow> u32 \<Rightarrow> 'd tux \<Rightarrow> int \<times> u32 option" where
  "tux_buttons beyond arg s = (if arg = 0 then (- EINVAL, None) else (0, Some ((beyond AND 0xFFFFFF00) OR ucast (button s))))"

text \<open>The segments of the digits 0 to F.\<close>

definition number :: "u8 list" where
  "number = [0xE7, 0x06, 0xCB, 0x8F, 0x2E, 0xAD, 0xED, 0x86, 0xEF, 0xAF, 0xEE, 0x6D, 0xE1, 0x4F, 0xE9, 0xE8]"

definition led_byte :: "u32 \<Rightarrow> u32 \<Rightarrow> nat \<Rightarrow> u8" where
  "led_byte arg decimal i = (number ! unat (drop_bit (i * 4) arg AND 0x0F)) OR (if 0 < decimal AND push_bit i 1 then 1 else 0)"

definition tux_set_led :: "'d tty_driver \<Rightarrow> u32 \<Rightarrow> 'd tux \<Rightarrow> 'd tux option" where
  "tux_set_led drv arg s =
     (let which = drop_bit 16 (arg AND 0x000F0000); decimal = drop_bit 24 (arg AND 0x0F000000)
      in Option.bind (tuxctl_ldisc_put drv [MTCP_LED_USR] s) (\<lambda>(n, s).
           if \<not> ack s then Some s
           else let s = s\<lparr>ack := False\<rparr>;
                    buf = [MTCP_LED_SET, ucast which] @ map (led_byte arg decimal) (filter (\<lambda>i. drop_bit i which AND 1 \<noteq> 0) [0..<4])
                in map_option (\<lambda>(n, s). s\<lparr>led := arg\<rparr>) (tuxctl_ldisc_put drv buf s)))"

abbreviation (input) TUX_SET_LED :: u32 where "TUX_SET_LED \<equiv> 0x80044510"
abbreviation (input) TUX_READ_LED :: u32 where "TUX_READ_LED \<equiv> 0x40044511"
abbreviation (input) TUX_BUTTONS :: u32 where "TUX_BUTTONS \<equiv> 0x40044512"
abbreviation (input) TUX_INIT :: u32 where "TUX_INIT \<equiv> 0x4513"

text \<open>The return value, the word written for the caller, and the new state.\<close>

definition tuxctl_ioctl :: "'d tty_driver \<Rightarrow> u32 \<Rightarrow> u32 \<Rightarrow> u32 \<Rightarrow> 'd tux \<Rightarrow> (int \<times> u32 option \<times> 'd tux) option" where
  "tuxctl_ioctl drv beyond cmd arg s =
     (if cmd = TUX_INIT then map_option (\<lambda>s. (0, None, s)) (tux_init drv arg s)
      else if cmd = TUX_BUTTONS then Some (0, snd (tux_buttons beyond arg s), s)
      else if cmd = TUX_SET_LED then map_option (\<lambda>s. (0, None, s)) (tux_set_led drv arg s)
      else Some (- EINVAL, None, s))"

definition tuxctl_handle_packet :: "'d tty_driver \<Rightarrow> u8 \<times> u8 \<times> u8 \<Rightarrow> 'd tux \<Rightarrow> 'd tux option" where
  "tuxctl_handle_packet drv = (\<lambda>(a, b, c) s.
     let s = (if a = MTCP_ACK then s\<lparr>ack := True\<rparr> else s);
         s = (if a = MTCP_BIOC_EVENT
              then let direction = NOT c AND 0x0F;
                       button = push_bit 4 (push_bit 1 (direction AND 0x02) OR drop_bit 1 (direction AND 0x04) OR (direction AND 0x09))
                   in s\<lparr>button := button OR (NOT b AND 0x0F)\<rparr>
              else s)
     in if a = MTCP_RESET then Option.bind (tux_init drv 0 s) (\<lambda>s. tux_set_led drv (led s) s) else Some s)"

subsection \<open>Receiving\<close>

text \<open>The loop over the packet's array from index \<open>i\<close> on; it gives the index where it ends.\<close>

definition framed :: "u8 \<times> u8 \<times> u8 \<Rightarrow> bool" where
  "framed = (\<lambda>(a, b, c). a AND 0x80 = 0 \<and> b AND 0x80 \<noteq> 0 \<and> c AND 0x80 \<noteq> 0)"

function scan :: "'d tty_driver \<Rightarrow> u8 list \<Rightarrow> nat \<Rightarrow> 'd tux \<Rightarrow> (nat \<times> 'd tux) option" where
  "scan drv packet i s =
     (if i + 2 < length packet
      then let p = (packet ! i, packet ! (i + 1), packet ! (i + 2))
           in if framed p then Option.bind (tuxctl_handle_packet drv p s) (scan drv packet (i + 3)) else scan drv packet (i + 1) s
      else Some (i, s))"
  by auto
termination by (relation "measure (\<lambda>(drv, packet, i, s). length packet - i)") auto

declare scan.simps [simp del]

definition tuxctl_ldisc_data_callback :: "'d tty_driver \<Rightarrow> 'd tux \<Rightarrow> 'd tux option" where
  "tuxctl_ldisc_data_callback drv s =
     Option.bind (tuxctl_ldisc_get (12 - length (saved s)) s) (\<lambda>(got, t).
       let packet = saved s @ got
       in map_option (\<lambda>(i, t). t\<lparr>saved := drop i packet\<rparr>) (scan drv packet 0 t))"

definition tuxctl_ldisc_rcv_buf :: "'d tty_driver \<Rightarrow> u8 list \<Rightarrow> 'd tux \<Rightarrow> 'd tux option" where
  "tuxctl_ldisc_rcv_buf drv cp s =
     (case disc_data s of
        None \<Rightarrow> Some s
      | Some d \<Rightarrow> tuxctl_ldisc_data_callback drv (s\<lparr>disc_data := Some (d\<lparr>rx := snd (ring_fill cp (rx d))\<rparr>)\<rparr>))"

end
