(* ===== verification/Controller.thy ===== *)
theory Controller
  imports Tuxctl Input
begin

text \<open>
  The Tux controller on its line and in the game: packets are recognised in order however the serial line cuts them
  into pieces, what is put on the line goes out in order, and the game's display and commands reach the
  controller's segments and come from its buttons.
\<close>

subsection \<open>What an operation does to the line\<close>

text \<open>The received bytes are left alone by all that the driver does with a packet.\<close>

definition with_input :: "u8 list \<Rightarrow> ring \<Rightarrow> 'd tux \<Rightarrow> 'd tux" where
  "with_input sv r s = s\<lparr>saved := sv, disc_data := map_option (\<lambda>d. d\<lparr>rx := r\<rparr>) (disc_data s)\<rparr>"

definition line_ok :: "'d tux \<Rightarrow> bool" where
  "line_ok s \<longleftrightarrow> (\<exists>d. disc_data s = Some d \<and> ring_ok (rx d) \<and> ring_ok (tx d)) \<and> length (saved s) \<le> 2"

definition input_ring :: "'d tux \<Rightarrow> ring" where
  "input_ring s = rx (the (disc_data s))"

definition output_ring :: "'d tux \<Rightarrow> ring" where
  "output_ring s = tx (the (disc_data s))"

definition same_input :: "'d tux \<Rightarrow> 'd tux \<Rightarrow> bool" where
  "same_input s s' \<longleftrightarrow> line_ok s' \<and> input_ring s' = input_ring s \<and> saved s' = saved s"

lemma same_input_trans: "same_input s t \<Longrightarrow> same_input t u \<Longrightarrow> same_input s u"
  by (simp add: same_input_def)

lemma same_input_ok: "same_input s t \<Longrightarrow> line_ok t"
  by (simp add: same_input_def)

lemma same_input_refl: "line_ok s \<Longrightarrow> same_input s s"
  by (simp add: same_input_def)

lemma same_input_update [simp]:
  "same_input s (t\<lparr>ack := x\<rparr>) = same_input s t" "same_input s (t\<lparr>button := y\<rparr>) = same_input s t" "same_input s (t\<lparr>led := z\<rparr>) = same_input s t"
  by (simp_all add: same_input_def line_ok_def input_ring_def)

lemma line_ok_update [simp]: "line_ok (t\<lparr>ack := x\<rparr>) = line_ok t" "line_ok (t\<lparr>button := y\<rparr>) = line_ok t"
  by (simp_all add: line_ok_def)

lemma wakeup_result:
  assumes "line_ok s" and "tty_write drv (fst (ring_drain (nat (write_room drv (serial s) + 1)) (output_ring s))) (serial s) = (sent, l)"
  shows "\<exists>s'. tuxctl_ldisc_write_wakeup drv s = Some s' \<and> same_input s s' \<and> serial s' = l \<and>
    ring_contents (output_ring s') = drop (nat (write_room drv (serial s) + 1)) (ring_contents (output_ring s)) \<and>
    ack s' = ack s \<and> button s' = button s \<and> led s' = led s"
proof -
  obtain d where d: "disc_data s = Some d" "ring_ok (rx d)" "ring_ok (tx d)" "length (saved s) \<le> 2" using assms(1) by (auto simp: line_ok_def)
  obtain buf r where r: "ring_drain (nat (write_room drv (serial s) + 1)) (tx d) = (buf, r)" by fastforce
  then show ?thesis using assms(2) d ring_drain_queue [OF d(3), of "nat (write_room drv (serial s) + 1)"]
    by (simp add: tuxctl_ldisc_write_wakeup_def same_input_def line_ok_def input_ring_def output_ring_def)
qed

lemma put_result:
  assumes "line_ok s"
  shows "\<exists>n s'. tuxctl_ldisc_put drv buf s = Some (n, s') \<and> same_input s s' \<and> ack s' = ack s \<and> button s' = button s \<and> led s' = led s"
proof -
  obtain d where d: "disc_data s = Some d" "ring_ok (rx d)" "ring_ok (tx d)" "length (saved s) \<le> 2" using assms by (auto simp: line_ok_def)
  obtain n r where r: "ring_fill buf (tx d) = (n, r)" by fastforce
  let ?s = "s\<lparr>disc_data := Some (d\<lparr>tx := r\<rparr>)\<rparr>"
  have ok: "line_ok ?s" using d ring_fill_queue(1) [OF d(3), of buf] r by (simp add: line_ok_def)
  obtain sent l where "tty_write drv (fst (ring_drain (nat (write_room drv (serial ?s) + 1)) (output_ring ?s))) (serial ?s) = (sent, l)"
    by fastforce
  from wakeup_result [OF ok this] show ?thesis using d r
    by (auto simp: tuxctl_ldisc_put_def same_input_def input_ring_def)
qed

lemma init_result:
  assumes "line_ok s"
  shows "\<exists>s'. tux_init drv arg s = Some s' \<and> same_input s s' \<and> \<not> ack s' \<and> button s' = 0 \<and> led s' = 0"
proof -
  obtain n s1 where s1: "tuxctl_ldisc_put drv [MTCP_BIOC_ON] s = Some (n, s1)" "same_input s s1" using put_result [OF assms] by blast
  obtain m s2 where "tuxctl_ldisc_put drv [MTCP_LED_USR] s1 = Some (m, s2)" "same_input s1 s2"
    using put_result [OF same_input_ok [OF s1(2)]] by blast
  then show ?thesis using s1 same_input_trans [OF s1(2), of s2] by (simp add: tux_init_def)
qed

lemma set_led_result:
  assumes "line_ok s"
  shows "\<exists>s'. tux_set_led drv arg s = Some s' \<and> same_input s s'"
proof -
  obtain n s1 where s1: "tuxctl_ldisc_put drv [MTCP_LED_USR] s = Some (n, s1)" "same_input s s1" using put_result [OF assms] by blast
  have "\<exists>n s2. tuxctl_ldisc_put drv buf (s1\<lparr>ack := False\<rparr>) = Some (n, s2) \<and> same_input s s2" for buf
  proof -
    have "same_input s (s1\<lparr>ack := False\<rparr>)" using s1(2) by simp
    then show ?thesis using put_result same_input_ok same_input_trans by blast
  qed
  then show ?thesis using s1 by (fastforce simp: tux_set_led_def Let_def)
qed

lemma packet_result:
  assumes "line_ok s"
  shows "\<exists>s'. tuxctl_handle_packet drv p s = Some s' \<and> same_input s s'"
proof -
  obtain a b c where p: "p = (a, b, c)" by (cases p)
  have "\<exists>s'. Option.bind (tux_init drv 0 t) (\<lambda>s. tux_set_led drv (led s) s) = Some s' \<and> same_input s s'" if same: "same_input s t" for t
  proof -
    obtain t1 where t1: "tux_init drv 0 t = Some t1" "same_input t t1" using init_result same_input_ok [OF same] by blast
    obtain t2 where "tux_set_led drv (led t1) t1 = Some t2" "same_input t1 t2" using set_led_result same_input_ok [OF t1(2)] by blast
    then show ?thesis using t1 same_input_trans same by simp blast
  qed
  then show ?thesis using same_input_refl [OF assms] by (simp add: tuxctl_handle_packet_def p Let_def)
qed

subsection \<open>Commuting with the bytes received\<close>

lemma with_input_simps [simp]:
  "ack (with_input sv r s) = ack s" "button (with_input sv r s) = button s" "led (with_input sv r s) = led s"
  "(with_input sv r s)\<lparr>ack := a\<rparr> = with_input sv r (s\<lparr>ack := a\<rparr>)" "(with_input sv r s)\<lparr>button := b\<rparr> = with_input sv r (s\<lparr>button := b\<rparr>)"
  "(with_input sv r s)\<lparr>led := l\<rparr> = with_input sv r (s\<lparr>led := l\<rparr>)"
  by (simp_all add: with_input_def)

lemma wakeup_input: "tuxctl_ldisc_write_wakeup drv (with_input sv r s) = map_option (with_input sv r) (tuxctl_ldisc_write_wakeup drv s)"
  by (simp add: tuxctl_ldisc_write_wakeup_def with_input_def Let_def split: option.split prod.split)

lemma put_input: "tuxctl_ldisc_put drv buf (with_input sv r s) = map_option (map_prod id (with_input sv r)) (tuxctl_ldisc_put drv buf s)"
proof (cases "disc_data s")
  case None
  then show ?thesis by (simp add: tuxctl_ldisc_put_def with_input_def)
next
  case (Some d)
  obtain n q where q: "ring_fill buf (tx d) = (n, q)" by fastforce
  let ?s = "s\<lparr>disc_data := Some (d\<lparr>tx := q\<rparr>)\<rparr>"
  have swap: "d\<lparr>rx := r, tx := q\<rparr> = d\<lparr>tx := q, rx := r\<rparr>" by simp
  have "tuxctl_ldisc_put drv buf (with_input sv r s) = map_option (Pair n) (tuxctl_ldisc_write_wakeup drv (with_input sv r ?s))"
    using Some q by (simp add: tuxctl_ldisc_put_def with_input_def swap)
  also have "\<dots> = map_option (map_prod id (with_input sv r)) (tuxctl_ldisc_put drv buf s)"
    using Some q by (simp add: wakeup_input tuxctl_ldisc_put_def option.map_comp comp_def)
  finally show ?thesis .
qed

lemma init_input: "tux_init drv arg (with_input sv r s) = map_option (with_input sv r) (tux_init drv arg s)"
  by (cases "tuxctl_ldisc_put drv [MTCP_BIOC_ON] s")
    (auto simp: tux_init_def put_input option.map_comp comp_def map_prod_def intro!: arg_cong2 [where f = map_option] split: prod.split)

lemma set_led_input: "tux_set_led drv arg (with_input sv r s) = map_option (with_input sv r) (tux_set_led drv arg s)"
proof -
  have put: "map_option (\<lambda>(n, s). s\<lparr>led := arg\<rparr>) (map_option (map_prod id (with_input sv r)) x) =
      map_option (with_input sv r) (map_option (\<lambda>(n, s). s\<lparr>led := arg\<rparr>) x)" for x :: "(nat \<times> 'a tux) option"
    by (cases x) auto
  show ?thesis
    by (cases "tuxctl_ldisc_put drv [MTCP_LED_USR] s") (auto simp: tux_set_led_def Let_def put_input put)
qed

lemma packet_input: "tuxctl_handle_packet drv p (with_input sv r s) = map_option (with_input sv r) (tuxctl_handle_packet drv p s)"
proof -
  have "Option.bind (tux_init drv 0 (with_input sv r t)) (\<lambda>s. tux_set_led drv (led s) s) =
      map_option (with_input sv r) (Option.bind (tux_init drv 0 t) (\<lambda>s. tux_set_led drv (led s) s))" for t
    by (cases "tux_init drv 0 t") (simp_all add: init_input set_led_input)
  then show ?thesis by (cases p) (simp add: tuxctl_handle_packet_def Let_def)
qed

subsection \<open>Packets in a stream of bytes\<close>

fun frames :: "u8 list \<Rightarrow> (u8 \<times> u8 \<times> u8) list" where
  "frames (a # b # c # xs) = (if framed (a, b, c) then (a, b, c) # frames xs else frames (b # c # xs))"
| "frames xs = []"

fun handle_all :: "'d tty_driver \<Rightarrow> (u8 \<times> u8 \<times> u8) list \<Rightarrow> 'd tux \<Rightarrow> 'd tux option" where
  "handle_all drv [] s = Some s"
| "handle_all drv (p # ps) s = Option.bind (tuxctl_handle_packet drv p s) (handle_all drv ps)"

lemma handle_all_result: "line_ok s \<Longrightarrow> \<exists>s'. handle_all drv ps s = Some s' \<and> same_input s s'"
proof (induction ps arbitrary: s)
  case (Cons p ps)
  obtain s1 where s1: "tuxctl_handle_packet drv p s = Some s1" "same_input s s1" using packet_result [OF Cons.prems] by blast
  obtain s2 where "handle_all drv ps s1 = Some s2" "same_input s1 s2" using Cons.IH [OF same_input_ok [OF s1(2)]] by blast
  then show ?case using s1 same_input_trans by simp blast
qed (simp add: same_input_refl)

lemma handle_all_input: "handle_all drv ps (with_input sv r s) = map_option (with_input sv r) (handle_all drv ps s)"
proof (induction ps arbitrary: s)
  case (Cons p ps)
  then show ?case by (cases "tuxctl_handle_packet drv p s") (simp_all add: packet_input)
qed simp

lemma handle_all_append: "handle_all drv (ps @ qs) s = Option.bind (handle_all drv ps s) (handle_all drv qs)"
proof (induction ps arbitrary: s)
  case (Cons p ps)
  then show ?case by (cases "tuxctl_handle_packet drv p s") simp_all
qed simp

lemma scan_frames:
  assumes "line_ok s" and "i \<le> length packet"
  shows "\<exists>H j s'. scan drv packet i s = Some (j, s') \<and> handle_all drv H s = Some s' \<and> length packet \<le> j + 2 \<and> j \<le> length packet \<and>
    (\<forall>ys. frames (drop i packet @ ys) = H @ frames (drop j packet @ ys))"
  using assms
proof (induction "length packet - i" arbitrary: i s rule: less_induct)
  case less
  show ?case
  proof (cases "i + 2 < length packet")
    case False
    then show ?thesis using less.prems by (subst scan.simps) (auto intro!: exI [of _ "[]"])
  next
    case True
    let ?p = "(packet ! i, packet ! (i + 1), packet ! (i + 2))"
    have d: "drop i packet = packet ! i # packet ! (i + 1) # packet ! (i + 2) # drop (i + 3) packet"
      using True by (simp add: Cons_nth_drop_Suc numeral_3_eq_3)
    show ?thesis
    proof (cases "framed ?p")
      case True
      obtain s1 where s1: "tuxctl_handle_packet drv ?p s = Some s1" "same_input s s1" using packet_result [OF less.prems(1)] by blast
      have "length packet - (i + 3) < length packet - i" "i + 3 \<le> length packet" using \<open>i + 2 < length packet\<close> by simp_all
      from less.hyps [OF this(1) same_input_ok [OF s1(2)] this(2)] obtain H j s' where H: "scan drv packet (i + 3) s1 = Some (j, s')"
        "handle_all drv H s1 = Some s'" "length packet \<le> j + 2" "j \<le> length packet"
        "\<forall>ys. frames (drop (i + 3) packet @ ys) = H @ frames (drop j packet @ ys)" by blast
      have "scan drv packet i s = Some (j, s')" using True \<open>i + 2 < length packet\<close> s1 H(1) by (subst scan.simps) simp
      moreover have "handle_all drv (?p # H) s = Some s'" using s1 H(2) by simp
      moreover have "\<forall>ys. frames (drop i packet @ ys) = (?p # H) @ frames (drop j packet @ ys)" using True H(5) by (simp add: d)
      ultimately show ?thesis using H(3,4) by blast
    next
      case False
      have "length packet - (i + 1) < length packet - i" "i + 1 \<le> length packet" using \<open>i + 2 < length packet\<close> by simp_all
      from less.hyps [OF this(1) less.prems(1) this(2)] obtain H j s' where H: "scan drv packet (i + 1) s = Some (j, s')"
        "handle_all drv H s = Some s'" "length packet \<le> j + 2" "j \<le> length packet"
        "\<forall>ys. frames (drop (i + 1) packet @ ys) = H @ frames (drop j packet @ ys)" by blast
      have "scan drv packet i s = Some (j, s')" using False \<open>i + 2 < length packet\<close> H(1) by (subst scan.simps) simp
      moreover have "drop (i + 1) packet = packet ! (i + 1) # packet ! (i + 2) # drop (i + 3) packet"
        using \<open>i + 2 < length packet\<close> by (simp add: Cons_nth_drop_Suc numeral_3_eq_3)
      then have "\<forall>ys. frames (drop i packet @ ys) = H @ frames (drop j packet @ ys)" using False H(5) by (simp add: d)
      ultimately show ?thesis using H(2-4) by blast
    qed
  qed
qed

text \<open>The bytes that have arrived and belong to no packet yet.\<close>

definition pending :: "'d tux \<Rightarrow> u8 list" where
  "pending s = saved s @ ring_contents (input_ring s)"

text \<open>The same state but for the bytes received.\<close>

definition same_device :: "'d tux \<Rightarrow> 'd tux \<Rightarrow> bool" where
  "same_device s t \<longleftrightarrow> with_input (saved s) (input_ring s) t = s"

lemma same_device_input: "same_device s (with_input sv r t) = same_device s t"
  by (simp add: same_device_def with_input_def option.map_comp comp_def)

lemma with_input_same: "line_ok s \<Longrightarrow> with_input (saved s) (input_ring s) s = s"
  by (auto simp: with_input_def line_ok_def input_ring_def)

lemma callback_result:
  assumes "line_ok s"
  shows "\<exists>H s' t. tuxctl_ldisc_data_callback drv s = Some s' \<and> handle_all drv H s = Some t \<and> same_device s' t \<and>
    line_ok s' \<and> (\<forall>ys. frames (pending s @ ys) = H @ frames (pending s' @ ys)) \<and>
    ring_contents (input_ring s') = drop (12 - length (saved s)) (ring_contents (input_ring s))"
proof -
  obtain d where d: "disc_data s = Some d" "ring_ok (rx d)" "ring_ok (tx d)" "length (saved s) \<le> 2" using assms by (auto simp: line_ok_def)
  obtain got r where r: "ring_drain (12 - length (saved s)) (rx d) = (got, r)" by fastforce
  have got: "ring_ok r" "got = take (12 - length (saved s)) (ring_contents (rx d))" "ring_contents r = drop (12 - length (saved s)) (ring_contents (rx d))"
    using ring_drain_queue [OF d(2), of "12 - length (saved s)"] r by simp_all
  let ?t = "with_input (saved s) r s" and ?packet = "saved s @ got"
  have get: "tuxctl_ldisc_get (12 - length (saved s)) s = Some (got, ?t)" using d r by (simp add: tuxctl_ldisc_get_def with_input_def)
  have t: "line_ok ?t" "input_ring ?t = r" using d got(1) by (simp_all add: line_ok_def with_input_def input_ring_def)
  obtain H j u where H: "scan drv ?packet 0 ?t = Some (j, u)" "handle_all drv H ?t = Some u" "length ?packet \<le> j + 2" "j \<le> length ?packet"
    "\<forall>ys. frames (drop 0 ?packet @ ys) = H @ frames (drop j ?packet @ ys)" using scan_frames [OF t(1), of 0 ?packet drv] by auto
  obtain v where v: "handle_all drv H s = Some v" "same_input s v" using handle_all_result [OF assms] by blast
  then have u: "u = with_input (saved s) r v" using H(2) by (simp add: handle_all_input)
  define s' where "s' = u\<lparr>saved := drop j ?packet\<rparr>"
  have eq: "s' = with_input (drop j ?packet) r v" by (simp add: s'_def u with_input_def)
  obtain dv where dv: "disc_data v = Some dv" "ring_ok (tx dv)" using same_input_ok [OF v(2)] by (auto simp: line_ok_def)
  then have s': "saved s' = drop j ?packet" "input_ring s' = r" by (simp_all add: eq with_input_def input_ring_def)
  have "line_ok s'" using dv got(1) H(3) by (simp add: eq line_ok_def with_input_def)
  moreover have "tuxctl_ldisc_data_callback drv s = Some s'" by (simp add: tuxctl_ldisc_data_callback_def get Let_def H(1) s'_def)
  moreover have "frames (pending s @ ys) = H @ frames (pending s' @ ys)" for ys
  proof -
    have "pending s = ?packet @ ring_contents r" using got d by (simp add: pending_def input_ring_def)
    moreover have "pending s' = drop j ?packet @ ring_contents r" by (simp add: pending_def s')
    ultimately show ?thesis using H(5) by simp
  qed
  moreover have "same_device s' v" unfolding same_device_def s' by (rule eq [symmetric])
  moreover have "ring_contents (input_ring s') = drop (12 - length (saved s)) (ring_contents (input_ring s))"
    using got(3) s'(2) d(1) by (simp add: input_ring_def)
  ultimately show ?thesis using v(1) by blast
qed

fun receive :: "'d tty_driver \<Rightarrow> u8 list list \<Rightarrow> 'd tux \<Rightarrow> 'd tux option" where
  "receive drv [] s = Some s"
| "receive drv (cp # cps) s = Option.bind (tuxctl_ldisc_rcv_buf drv cp s) (receive drv cps)"

text \<open>Between two interrupts of the line: open, and every byte has been looked at.\<close>

definition ready :: "'d tux \<Rightarrow> bool" where
  "ready s \<longleftrightarrow> line_ok s \<and> ring_contents (input_ring s) = []"

lemma rcv_buf_result:
  assumes "ready s" and "length cp \<le> 10"
  shows "\<exists>H s' t. tuxctl_ldisc_rcv_buf drv cp s = Some s' \<and> handle_all drv H s = Some t \<and> same_device s' t \<and>
    ready s' \<and> (\<forall>ys. frames (saved s @ cp @ ys) = H @ frames (saved s' @ ys))"
proof -
  obtain d where d: "disc_data s = Some d" "ring_ok (rx d)" "ring_ok (tx d)" "length (saved s) \<le> 2" "ring_contents (rx d) = []"
    using assms(1) by (auto simp: ready_def line_ok_def input_ring_def)
  let ?r = "snd (ring_fill cp (rx d))" let ?s = "with_input (saved s) ?r s"
  have r: "ring_ok ?r" "ring_contents ?r = cp" using ring_fill_queue(1,2) [OF d(2), of cp] assms(2) d(5) by simp_all
  have ok: "line_ok ?s" "input_ring ?s = ?r" "saved ?s = saved s" using d r by (simp_all add: line_ok_def with_input_def input_ring_def)
  have "s\<lparr>disc_data := Some (d\<lparr>rx := ?r\<rparr>)\<rparr> = ?s" using d(1) by (cases s) (simp add: with_input_def)
  then have rcv: "tuxctl_ldisc_rcv_buf drv cp s = tuxctl_ldisc_data_callback drv ?s" by (simp add: tuxctl_ldisc_rcv_buf_def d(1))
  obtain H s' u where H: "tuxctl_ldisc_data_callback drv ?s = Some s'" "handle_all drv H ?s = Some u" "same_device s' u"
    "line_ok s'" "\<forall>ys. frames (pending ?s @ ys) = H @ frames (pending s' @ ys)"
    "ring_contents (input_ring s') = drop (12 - length (saved ?s)) (ring_contents (input_ring ?s))" using callback_result [OF ok(1)] by blast
  have empty: "ring_contents (input_ring s') = []" using H(6) assms(2) d(4) by (simp add: ok r(2))
  obtain t where t: "handle_all drv H s = Some t" using handle_all_result assms(1) ready_def by blast
  then have "u = with_input (saved s) ?r t" using H(2) by (simp add: handle_all_input)
  then have "same_device s' t" using H(3) by (simp add: same_device_input)
  moreover have "\<forall>ys. frames (saved s @ cp @ ys) = H @ frames (saved s' @ ys)"
    using H(5) empty by (simp add: pending_def ok r(2))
  ultimately show ?thesis using rcv H(1,4) t empty by (simp add: ready_def)
qed

lemma receive_frames:
  assumes "ready s" and "\<forall>cp\<in>set chunks. length cp \<le> 10"
  shows "\<exists>H s' t. receive drv chunks s = Some s' \<and> handle_all drv H s = Some t \<and> same_device s' t \<and> ready s' \<and>
    (\<forall>ys. frames (saved s @ concat chunks @ ys) = H @ frames (saved s' @ ys))"
  using assms
proof (induction chunks arbitrary: s)
  case Nil
  then have "same_device s s" by (simp add: ready_def same_device_def with_input_same)
  then show ?case using Nil.prems(1) by (intro exI [of _ "[]"]) simp
next
  case (Cons cp chunks)
  obtain H1 s1 t1 where s1: "tuxctl_ldisc_rcv_buf drv cp s = Some s1" "handle_all drv H1 s = Some t1" "same_device s1 t1" "ready s1"
    "\<forall>ys. frames (saved s @ cp @ ys) = H1 @ frames (saved s1 @ ys)" using rcv_buf_result [OF Cons.prems(1)] Cons.prems(2) by force
  obtain H2 s2 t2 where s2: "receive drv chunks s1 = Some s2" "handle_all drv H2 s1 = Some t2" "same_device s2 t2" "ready s2"
    "\<forall>ys. frames (saved s1 @ concat chunks @ ys) = H2 @ frames (saved s2 @ ys)" using Cons.IH [OF s1(4)] Cons.prems(2) by force
  have "handle_all drv H2 (with_input (saved s1) (input_ring s1) t1) = Some t2" using s1(3) s2(2) by (simp add: same_device_def)
  then obtain t where t: "handle_all drv H2 t1 = Some t" "t2 = with_input (saved s1) (input_ring s1) t"
    by (auto simp: handle_all_input)
  have "handle_all drv (H1 @ H2) s = Some t" using s1(2) t(1) by (simp add: handle_all_append)
  moreover have "same_device s2 t" using s2(3) t(2) by (simp add: same_device_input)
  moreover have "\<forall>ys. frames (saved s @ concat (cp # chunks) @ ys) = (H1 @ H2) @ frames (saved s2 @ ys)" using s1(5) s2(5) by simp
  ultimately show ?case using s1(1) s2(1,4) by (intro exI [of _ "H1 @ H2"] exI [of _ s2] exI [of _ t]) simp
qed

lemma short_frames: "length xs \<le> 2 \<Longrightarrow> frames xs = []"
  by (cases xs rule: frames.cases) auto

text \<open>A line that has just been opened, and a driver that takes all it is given.\<close>

lemma open_ready:
  assumes "length (ring_buf (rx d)) = 64" and "length (ring_buf (tx d)) = 64" and "length (saved s) \<le> 2"
  shows "fst (tuxctl_ldisc_open (Some d) s) = 0 \<and> ready (snd (tuxctl_ldisc_open (Some d) s)) \<and>
    ring_contents (output_ring (snd (tuxctl_ldisc_open (Some d) s))) = []"
  using assms by (simp add: tuxctl_ldisc_open_def ready_def line_ok_def input_ring_def output_ring_def ring_ok_def ring_contents_def buf_used_def)

definition wide_line :: "u8 list tty_driver" where
  "wide_line = \<lparr>write_room = \<lambda>l. 100, tty_write = \<lambda>buf l. (int (length (take 100 buf)), l @ take 100 buf)\<rparr>"

definition opened :: "u8 list tux" where
  "opened = snd (tuxctl_ldisc_open (Some \<lparr>magic = 0, rx = \<lparr>ring_buf = replicate 64 0, ring_start = 0, ring_end = 0\<rparr>,
     tx = \<lparr>ring_buf = replicate 64 0, ring_start = 0, ring_end = 0\<rparr>\<rparr>) \<lparr>disc_data = None, saved = [], ack = False, button = 0, led = 0, serial = []\<rparr>)"

lemma opened_ready: "ready opened" "ring_contents (output_ring opened) = []" "saved opened = []" "serial opened = []"
  unfolding opened_def by (simp_all add: open_ready) (simp_all add: tuxctl_ldisc_open_def)

lemma receive_packets:
  assumes "ready s" and "\<forall>cp\<in>set chunks. length cp \<le> 10"
  shows "\<exists>s' t. receive drv chunks s = Some s' \<and> handle_all drv (frames (saved s @ concat chunks)) s = Some t \<and> same_device s' t \<and> ready s'"
proof -
  obtain H s' t where H: "receive drv chunks s = Some s'" "handle_all drv H s = Some t" "same_device s' t" "ready s'"
    "\<forall>ys. frames (saved s @ concat chunks @ ys) = H @ frames (saved s' @ ys)" using receive_frames [OF assms] by blast
  have "frames (saved s') = []" using H(4) by (simp add: ready_def line_ok_def short_frames)
  then have "frames (saved s @ concat chunks) = H" using H(5) [rule_format, of "[]"] by simp
  then show ?thesis using H by blast
qed



subsection \<open>Sending\<close>

text \<open>A serial driver takes the bytes for which it has announced room, in order, and does not announce less room than it
  had for those that it has not been given.\<close>

definition takes_room :: "'d tty_driver \<Rightarrow> ('d \<Rightarrow> u8 list) \<Rightarrow> bool" where
  "takes_room drv out \<longleftrightarrow> (\<forall>buf l. 0 \<le> write_room drv l \<and> (case tty_write drv buf l of (sent, l') \<Rightarrow>
     sent = min (int (length buf)) (write_room drv l) \<and> out l' = out l @ take (nat (write_room drv l)) buf \<and>
     write_room drv l - sent \<le> write_room drv l'))"

lemma wide_line_takes_room: "takes_room wide_line id"
  by (simp add: takes_room_def wide_line_def min_def)

text \<open>C40: When the serial driver calls for more, the bytes that wait for sending go out in order as far as it has room; but when
  more bytes wait than it has room for, the next one is taken from the queue and lost.\<close>

theorem write_wakeup_sends:
  assumes "line_ok s" and "takes_room drv out"
  defines "room \<equiv> nat (write_room drv (serial s))"
  shows "\<exists>s'. tuxctl_ldisc_write_wakeup drv s = Some s' \<and> same_input s s' \<and>
    out (serial s') = out (serial s) @ take room (ring_contents (output_ring s)) \<and>
    ring_contents (output_ring s') = drop (Suc room) (ring_contents (output_ring s))"
proof -
  let ?buf = "fst (ring_drain (nat (write_room drv (serial s) + 1)) (output_ring s))"
  obtain sent l where l: "tty_write drv ?buf (serial s) = (sent, l)" by fastforce
  have pos: "0 \<le> write_room drv (serial s)" and out: "out l = out (serial s) @ take room ?buf"
    using assms(2) l unfolding takes_room_def room_def by (metis (mono_tags, lifting) case_prod_conv)+
  have n: "nat (write_room drv (serial s) + 1) = Suc room" using pos by (simp add: room_def Suc_nat_eq_nat_zadd1)
  have "ring_ok (output_ring s)" using assms(1) by (auto simp: line_ok_def output_ring_def)
  then have "?buf = take (Suc room) (ring_contents (output_ring s))" unfolding n by (rule ring_drain_queue(2))
  then show ?thesis using wakeup_result [OF assms(1) l] out by (auto simp: n min_def)
qed

theorem write_wakeup_sends_witness:
  "\<exists>s'. tuxctl_ldisc_write_wakeup wide_line opened = Some s' \<and> serial s' = []"
  using write_wakeup_sends [OF _ wide_line_takes_room, of opened] opened_ready by (auto simp: ready_def)

lemma put_sends:
  assumes "line_ok s" and "takes_room drv out" and "ring_contents (output_ring s) = []" and "int (length buf) \<le> write_room drv (serial s)"
    and "length buf \<le> 63"
  shows "\<exists>s'. tuxctl_ldisc_put drv buf s = Some (0, s') \<and> same_input s s' \<and> out (serial s') = out (serial s) @ buf \<and>
    ring_contents (output_ring s') = [] \<and> write_room drv (serial s) - int (length buf) \<le> write_room drv (serial s') \<and>
    ack s' = ack s \<and> button s' = button s \<and> led s' = led s"
proof -
  obtain d where d: "disc_data s = Some d" "ring_ok (rx d)" "ring_ok (tx d)" "length (saved s) \<le> 2" using assms(1) by (auto simp: line_ok_def)
  have e: "ring_contents (tx d) = []" using assms(3) d(1) by (simp add: output_ring_def)
  obtain n r where r: "ring_fill buf (tx d) = (n, r)" by fastforce
  then have f: "ring_ok r" "ring_contents r = buf" "n = 0" using ring_fill_queue [OF d(3), of buf] e assms(5) by simp_all
  let ?s = "s\<lparr>disc_data := Some (d\<lparr>tx := r\<rparr>)\<rparr>"
  have s: "line_ok ?s" "output_ring ?s = r" "serial ?s = serial s" "same_input s ?s"
    using d f(1) by (simp_all add: line_ok_def output_ring_def same_input_def input_ring_def)
  let ?room = "write_room drv (serial s)"
  have drained: "fst (ring_drain (nat (?room + 1)) r) = buf" using ring_drain_queue(2) [OF f(1)] f(2) assms(4) by simp
  obtain sent l where l: "tty_write drv buf (serial s) = (sent, l)" by fastforce
  have t: "sent = min (int (length buf)) ?room \<and> out l = out (serial s) @ take (nat ?room) buf \<and> ?room - sent \<le> write_room drv l"
    using assms(2) l unfolding takes_room_def by (metis (mono_tags, lifting) case_prod_conv)
  obtain s' where s': "tuxctl_ldisc_write_wakeup drv ?s = Some s'" "same_input ?s s'" "serial s' = l"
    "ring_contents (output_ring s') = drop (nat (?room + 1)) buf" "ack s' = ack s" "button s' = button s" "led s' = led s"
    using wakeup_result [OF s(1), of drv sent l] l by (auto simp: s(2,3) drained f(2))
  have "tuxctl_ldisc_put drv buf s = Some (0, s')" using s'(1) by (simp add: tuxctl_ldisc_put_def d(1) r f(3))
  moreover have "same_input s s'" using same_input_trans [OF s(4) s'(2)] .
  ultimately show ?thesis using s' t assms(4) by (intro exI [of _ s']) simp
qed

subsection \<open>The display\<close>

lemma nibble_and: "drop_bit (i * 4) v AND 0x0F = take_bit 4 (drop_bit (4 * i) v)" for v :: u32
  by (simp add: take_bit_eq_mask mask_eq_exp_minus_1 mult.commute)

lemma led_byte_nibble:
  "led_byte arg decimal i = (number ! nibble i arg) OR (if 0 < decimal AND push_bit i 1 then 1 else 0)"
  by (simp only: led_byte_def nibble_and nibble_def)

lemma mask_nibbles:
  "drop_bit 16 (arg AND 0x000F0000) = word_of_nat (nibble 4 arg)" "drop_bit 24 (arg AND 0x0F000000) = word_of_nat (nibble 6 arg)" for arg :: u32
  using nibble_and [of 4 arg] nibble_and [of 6 arg] by (simp_all add: nibble_def)

text \<open>The bytes that the game's time gives: the segments of the digits, from the seconds up; the one of the minutes has bit 0
  set.\<close>

definition time_bytes :: "nat \<Rightarrow> u8 list" where
  "time_bytes t = [number ! (t mod 60 mod 10), number ! (t mod 60 div 10), number ! (t div 60 mod 10) OR 1] @
     (if t < 600 then [] else [number ! (t div 60 div 10)])"

lemma time_leds:
  assumes "t < 6000"
  defines "arg \<equiv> display_time_on_tux t"
  shows "[MTCP_LED_SET, ucast (drop_bit 16 (arg AND 0x000F0000))] @ map (led_byte arg (drop_bit 24 (arg AND 0x0F000000)))
      (filter (\<lambda>i. drop_bit i (drop_bit 16 (arg AND 0x000F0000)) AND 1 \<noteq> 0) [0..<4]) =
    [0xC6, if t < 600 then 7 else 15] @ time_bytes t"
proof -
  note d = time_digits [OF assms(1), folded arg_def]
  have w: "drop_bit 16 (arg AND 0x000F0000) = (if t < 600 then 7 else 15)" "drop_bit 24 (arg AND 0x0F000000) = 4"
    by (simp_all only: mask_nibbles d) simp_all
  have b: "led_byte arg 4 0 = number ! (t mod 60 mod 10)" "led_byte arg 4 1 = number ! (t mod 60 div 10)"
    "led_byte arg 4 2 = number ! (t div 60 mod 10) OR 1" "led_byte arg 4 3 = number ! (t div 60 div 10)"
    by (simp_all only: led_byte_nibble d) (simp_all add: push_bit_eq_mult)
  have "filter (\<lambda>i. drop_bit i (7 :: u32) AND 1 \<noteq> 0) [0..<4] = [0, 1, 2]" "filter (\<lambda>i. drop_bit i (15 :: u32) AND 1 \<noteq> 0) [0..<4] = [0, 1, 2, 3]"
    by code_simp+
  then show ?thesis unfolding w by (simp add: b time_bytes_def protocol_bytes del: One_nat_def)
qed

text \<open>C39: When the last command for the display has been acknowledged, the game's time goes out as one command with the segments of
  its digits, and no other is sent before the next acknowledgement.  The dot that the game asks for is never lit:
  bit 0 is set instead, the segment at the bottom, which makes the digits 1, 4 and 7 of the minutes no digits.\<close>

theorem time_on_leds:
  assumes "line_ok s" and "takes_room drv out" and "ring_contents (output_ring s) = []" and "7 \<le> write_room drv (serial s)" and "t < 6000"
  shows "\<exists>s'. tuxctl_ioctl drv beyond TUX_SET_LED (display_time_on_tux t) s = Some (0, None, s') \<and> same_input s s' \<and>
    out (serial s') = out (serial s) @ [0xC8] @ (if ack s then [0xC6, if t < 600 then 7 else 15] @ time_bytes t else []) \<and>
    \<not> ack s' \<and> (\<forall>b\<in>set (time_bytes t). \<not> bit b 4) \<and>
    (time_bytes t ! 2 \<in> set number \<longleftrightarrow> t div 60 mod 10 \<notin> {1, 4, 7})"
proof -
  let ?arg = "display_time_on_tux t"
  let ?buf = "[MTCP_LED_SET, ucast (drop_bit 16 (?arg AND 0x000F0000))] @ map (led_byte ?arg (drop_bit 24 (?arg AND 0x0F000000)))
      (filter (\<lambda>i. drop_bit i (drop_bit 16 (?arg AND 0x000F0000)) AND 1 \<noteq> 0) [0..<4])"
  note buf = time_leds [OF assms(5)]
  have len: "length ?buf \<le> 6" unfolding buf by (simp add: time_bytes_def)
  obtain s1 where s1: "tuxctl_ldisc_put drv [MTCP_LED_USR] s = Some (0, s1)" "same_input s s1" "out (serial s1) = out (serial s) @ [MTCP_LED_USR]"
    "ring_contents (output_ring s1) = []" "write_room drv (serial s) - 1 \<le> write_room drv (serial s1)" "ack s1 = ack s"
    using put_sends [OF assms(1-3), of "[MTCP_LED_USR]"] assms(4) by auto
  have leds: "tux_set_led drv ?arg s = (if \<not> ack s then Some s1
      else map_option (\<lambda>(n, s). s\<lparr>led := ?arg\<rparr>) (tuxctl_ldisc_put drv ?buf (s1\<lparr>ack := False\<rparr>)))"
    by (simp only: tux_set_led_def Let_def s1(1,6) Option.bind_lunit prod.case)
  have segments: "\<forall>b\<in>set (time_bytes t). \<not> bit b 4"
  proof -
    have "list_all (\<lambda>k. \<not> bit (number ! k) 4 \<and> \<not> bit (number ! k OR 1) 4) [0..<10]" by code_simp
    then have "\<not> bit (number ! k) 4 \<and> \<not> bit (number ! k OR 1) 4" if "k < 10" for k
      using that unfolding list_all_iff atLeast_upt [symmetric] by blast
    moreover have "t mod 60 mod 10 < 10" "t mod 60 div 10 < 10" "t div 60 mod 10 < 10" "t div 60 div 10 < 10"
      using assms(5) by (simp_all add: div_less_iff_less_mult)
    ultimately show ?thesis by (simp add: time_bytes_def)
  qed
  have third: "time_bytes t ! 2 \<in> set number \<longleftrightarrow> t div 60 mod 10 \<notin> {1, 4, 7}"
  proof -
    have "list_all (\<lambda>k. (number ! k OR 1 \<in> set number) = (k \<notin> {1, 4, 7})) [0..<10]" by code_simp
    moreover have "t div 60 mod 10 \<in> set [0..<10]" by simp
    ultimately show ?thesis unfolding list_all_iff time_bytes_def by simp
  qed
  show ?thesis
  proof (cases "ack s")
    case False
    then show ?thesis using leds s1 segments third by (simp add: tuxctl_ioctl_def protocol_bytes)
  next
    case True
    let ?s1 = "s1\<lparr>ack := False\<rparr>"
    have "line_ok ?s1" "output_ring ?s1 = output_ring s1" "int (length ?buf) \<le> write_room drv (serial ?s1)" "length ?buf \<le> 63"
      using same_input_ok [OF s1(2)] len s1(5) assms(4) by (simp_all add: output_ring_def)
    then obtain s2 where s2: "tuxctl_ldisc_put drv ?buf ?s1 = Some (0, s2)" "same_input ?s1 s2" "out (serial s2) = out (serial ?s1) @ ?buf" "\<not> ack s2"
      using put_sends [of ?s1 drv out ?buf] assms(2) s1(4) by auto
    have "same_input s s2" using s1(2) s2(2) by (simp add: same_input_def input_ring_def)
    then show ?thesis using leds s2 s1(3) True segments third buf
      by (intro exI [of _ "s2\<lparr>led := ?arg\<rparr>"]) (simp add: tuxctl_ioctl_def protocol_bytes)
  qed
qed

theorem time_on_leds_witness:
  "\<exists>s'. tuxctl_ioctl wide_line 0 TUX_SET_LED (display_time_on_tux 754) (opened\<lparr>ack := True\<rparr>) = Some (0, None, s') \<and>
     serial s' = [0xC8, 0xC6, 15, 0x2E, 0x8F, 0xCB, 0x06]"
proof -
  have ok: "line_ok (opened\<lparr>ack := True\<rparr>)" "ring_contents (output_ring (opened\<lparr>ack := True\<rparr>)) = []"
    "7 \<le> write_room wide_line (serial (opened\<lparr>ack := True\<rparr>))"
    using opened_ready by (simp_all add: ready_def output_ring_def wide_line_def)
  have "time_bytes 754 = [0x2E, 0x8F, 0xCB, 0x06]" by code_simp
  then show ?thesis using time_on_leds [OF ok(1) wide_line_takes_room ok(2,3), of 754 0] by (auto simp: opened_ready)
qed

text \<open>A controller that has been reset is initialised again, but what it displayed is lost: the driver forgets the value before
  it would send it, and it does not send without an acknowledgement.\<close>

theorem reset_forgets_display:
  assumes "line_ok s" and "takes_room drv out" and "ring_contents (output_ring s) = []" and "3 \<le> write_room drv (serial s)"
  shows "\<exists>s'. tuxctl_handle_packet drv (MTCP_RESET, b, c) s = Some s' \<and> same_input s s' \<and>
    out (serial s') = out (serial s) @ [0xC3, 0xC8, 0xC8] \<and> led s' = 0 \<and> button s' = 0 \<and> \<not> ack s'"
proof -
  obtain s1 where s1: "tuxctl_ldisc_put drv [MTCP_BIOC_ON] s = Some (0, s1)" "same_input s s1" "out (serial s1) = out (serial s) @ [MTCP_BIOC_ON]"
    "ring_contents (output_ring s1) = []" "write_room drv (serial s) - 1 \<le> write_room drv (serial s1)"
    using put_sends [OF assms(1-3), of "[MTCP_BIOC_ON]"] assms(4) by auto
  have "int (length [MTCP_LED_USR]) \<le> write_room drv (serial s1)" using s1(5) assms(4) by simp
  then obtain s2 where s2: "tuxctl_ldisc_put drv [MTCP_LED_USR] s1 = Some (0, s2)" "same_input s1 s2" "out (serial s2) = out (serial s1) @ [MTCP_LED_USR]"
    "ring_contents (output_ring s2) = []" "write_room drv (serial s1) - 1 \<le> write_room drv (serial s2)"
    using put_sends [OF same_input_ok [OF s1(2)] assms(2) s1(4), of "[MTCP_LED_USR]"] by auto
  let ?t = "s2\<lparr>led := 0, ack := False, button := 0\<rparr>"
  have init: "tux_init drv 0 s = Some ?t" by (simp add: tux_init_def s1(1) s2(1))
  have t: "same_input s ?t" "ring_contents (output_ring ?t) = []" "int (length [MTCP_LED_USR]) \<le> write_room drv (serial ?t)"
    using same_input_trans [OF s1(2) s2(2)] s1(5) s2(4,5) assms(4) by (simp_all add: output_ring_def)
  obtain s3 where s3: "tuxctl_ldisc_put drv [MTCP_LED_USR] ?t = Some (0, s3)" "same_input ?t s3" "out (serial s3) = out (serial ?t) @ [MTCP_LED_USR]"
    "ack s3 = ack ?t" "button s3 = button ?t" "led s3 = led ?t"
    using put_sends [OF same_input_ok [OF t(1)] assms(2) t(2,3)] by auto
  have "tuxctl_handle_packet drv (MTCP_RESET, b, c) s = Option.bind (tux_init drv 0 s) (\<lambda>s. tux_set_led drv (led s) s)"
    by (simp add: tuxctl_handle_packet_def protocol_bytes)
  also have "\<dots> = Some s3" using s3(4) by (simp add: init tux_set_led_def Let_def s3(1))
  finally have "tuxctl_handle_packet drv (MTCP_RESET, b, c) s = Some s3" .
  then show ?thesis using s1(3) s2(3) s3 same_input_trans [OF t(1) s3(2)] by (simp add: protocol_bytes)
qed

theorem reset_forgets_display_witness:
  "\<exists>s'. tuxctl_handle_packet wide_line (MTCP_RESET, 0x80, 0x80) (opened\<lparr>led := 0x000F1234\<rparr>) = Some s' \<and> led s' = 0"
proof -
  have "line_ok (opened\<lparr>led := 0x000F1234\<rparr>)" "ring_contents (output_ring (opened\<lparr>led := 0x000F1234\<rparr>)) = []"
    "3 \<le> write_room wide_line (serial (opened\<lparr>led := 0x000F1234\<rparr>))"
    using opened_ready by (simp_all add: ready_def output_ring_def wide_line_def line_ok_def)
  from reset_forgets_display [OF this(1) wide_line_takes_room this(2,3), of "0x80" "0x80"] show ?thesis by blast
qed

subsection \<open>The buttons\<close>

datatype tux_button = Start | A | B | C | Up | Left | Down | Right

text \<open>The bytes with which the controller reports a button, as \<^verbatim>\<open>mtcp.h\<close> has them: the bit of a button that is pressed is
  clear.\<close>

fun button_report :: "tux_button \<Rightarrow> u8 list" where
  "button_report Start = [0x41, 0xFE, 0xFF]"
| "button_report A = [0x41, 0xFD, 0xFF]"
| "button_report B = [0x41, 0xFB, 0xFF]"
| "button_report C = [0x41, 0xF7, 0xFF]"
| "button_report Up = [0x41, 0xFF, 0xFE]"
| "button_report Left = [0x41, 0xFF, 0xFD]"
| "button_report Down = [0x41, 0xFF, 0xFB]"
| "button_report Right = [0x41, 0xFF, 0xF7]"

fun button_command :: "cmd_t \<Rightarrow> tux_button \<Rightarrow> cmd_t" where
  "button_command pre Start = CMD_NONE"
| "button_command pre A = CMD_MOVE_LEFT"
| "button_command pre B = pre"
| "button_command pre C = CMD_MOVE_RIGHT"
| "button_command pre Up = CMD_UP"
| "button_command pre Left = CMD_LEFT"
| "button_command pre Down = CMD_DOWN"
| "button_command pre Right = CMD_RIGHT"

text \<open>What the driver makes of the two bytes.\<close>

definition button_value :: "u8 \<Rightarrow> u8 \<Rightarrow> u8" where
  "button_value b c =
     (let direction = NOT c AND 0x0F
      in push_bit 4 (push_bit 1 (direction AND 0x02) OR drop_bit 1 (direction AND 0x04) OR (direction AND 0x09)) OR (NOT b AND 0x0F))"

lemma handle_button_event: "tuxctl_handle_packet drv (0x41, b, c) s = Some (s\<lparr>button := button_value b c\<rparr>)"
  by (simp add: tuxctl_handle_packet_def button_value_def protocol_bytes Let_def)

lemma report_handled:
  "frames (button_report k) = [(0x41, button_report k ! 1, button_report k ! 2)] \<and>
   get_tux_command ((beyond AND 0xFFFFFF00) OR ucast (button_value (button_report k ! 1) (button_report k ! 2))) pre = button_command pre k"
proof -
  have low: "((beyond AND 0xFFFFFF00) OR m) AND 0x0F = m AND 0x0F" "((beyond AND 0xFFFFFF00) OR m) AND 0xF0 = m AND 0xF0" for m :: u32
    by (simp_all add: bit.conj_disj_distrib2 and.assoc)
  show ?thesis
    by (cases k) (simp_all add: framed_def get_tux_command_def Let_def low push_bit_eq_mult button_value_def)
qed

text \<open>C21: From the button to the command: when the report of a button has come over the line, in whatever pieces, the word that the
  driver gives the game makes it the command of this button, whatever the bytes next to the driver's variable; the
  button B has none.\<close>

theorem buttons_give_commands:
  assumes "ready s" and "saved s = []" and "concat chunks = button_report k" and "arg \<noteq> 0"
  shows "\<exists>s' w. receive drv chunks s = Some s' \<and> ready s' \<and> tuxctl_ioctl drv beyond TUX_BUTTONS arg s' = Some (0, Some w, s') \<and>
    get_tux_command w pre = button_command pre k"
proof -
  have "length (button_report k) = 3" by (cases k) simp_all
  have "length cp \<le> 10" if cp: "cp \<in> set chunks" for cp
  proof -
    obtain xs ys where "chunks = xs @ cp # ys" using split_list [OF cp] by blast
    then have "length cp \<le> length (concat chunks)" by simp
    then show ?thesis using assms(3) \<open>length (button_report k) = 3\<close> by simp
  qed
  then obtain s' t where s': "receive drv chunks s = Some s'" "handle_all drv (frames (button_report k)) s = Some t" "same_device s' t" "ready s'"
    using receive_packets [OF assms(1)] assms(2,3) by fastforce
  let ?b = "button_value (button_report k ! 1) (button_report k ! 2)"
  have "handle_all drv (frames (button_report k)) s = Some (s\<lparr>button := ?b\<rparr>)"
    using report_handled [of k] by (simp add: handle_button_event)
  then have "button t = ?b" using s'(2) by auto
  moreover have "button s' = button t" using s'(3) by (metis same_device_def with_input_simps(2))
  ultimately have "tuxctl_ioctl drv beyond TUX_BUTTONS arg s' = Some (0, Some ((beyond AND 0xFFFFFF00) OR ucast ?b), s')"
    using assms(4) by (simp add: tuxctl_ioctl_def tux_buttons_def)
  then show ?thesis using s'(1,4) report_handled [of k beyond pre] by blast
qed

theorem buttons_give_commands_witness:
  "\<exists>s' w. receive wide_line [[0x41], [0xFF, 0xF7]] opened = Some s' \<and>
     tuxctl_ioctl wide_line 0xABCDEF12 TUX_BUTTONS 0xBFFF0000 s' = Some (0, Some w, s') \<and> get_tux_command w CMD_NONE = CMD_RIGHT"
  using buttons_give_commands [OF opened_ready(1,3), of "[[0x41], [0xFF, 0xF7]]" Right "0xBFFF0000" wide_line "0xABCDEF12" CMD_NONE] by auto

end
