(* ===== verification/Programs.thy ===== *)
theory Programs
  imports Services
begin

text \<open>
  Programs that run on the kernel, \<^verbatim>\<open>mp3/syscalls\<close>: the routines of \<^verbatim>\<open>ece391support.c\<close> that they use, and the
  programs \<^verbatim>\<open>cat\<close> and \<^verbatim>\<open>testprint\<close>.  A program is a function on the state of the kernel: its calls
  are the kernel's handlers, its memory is the page of its process as the processor sees it.  The stubs of
  \<^verbatim>\<open>ece391syscall.S\<close> pass the arguments on and are left out.  Addresses of buffers and of
  constant strings are arguments.
\<close>

subsection \<open>Support\<close>

partial_function (option) ece391_strlen_from :: "mem \<Rightarrow> u32 \<Rightarrow> u32 \<Rightarrow> u32 option" where
  "ece391_strlen_from m s len = (if m s \<noteq> 0 then ece391_strlen_from m (s + 1) (len + 1) else Some len)"

declare ece391_strlen_from.simps [code]

definition ece391_strlen :: "mem \<Rightarrow> u32 \<Rightarrow> u32 option" where
  "ece391_strlen m s = ece391_strlen_from m s 0"

definition ece391_fdputs :: "int \<Rightarrow> u32 \<Rightarrow> 'a kernel_scheme \<Rightarrow> 'a kernel_scheme option" where
  "ece391_fdputs fd p s = map_option (\<lambda>n. snd (sys_write fd p (sint n) s)) (ece391_strlen (kmem s) p)"

subsection \<open>The programs\<close>

text \<open>\<^verbatim>\<open>cat\<close>: the loop has fuel for the number of calls of \<^verbatim>\<open>read\<close>; the result is the value that \<^verbatim>\<open>main\<close> returns.\<close>

fun cat_loop :: "nat \<Rightarrow> events \<Rightarrow> u32 \<Rightarrow> int \<Rightarrow> u32 \<Rightarrow> 'a kernel_scheme \<Rightarrow> (int \<times> 'a kernel_scheme) option" where
  "cat_loop 0 ev read_failed fd buf s = None"
| "cat_loop (Suc k) ev read_failed fd buf s = do {
     (cnt, s) \<leftarrow> sys_read ev fd buf 1024 s;
     if cnt = 0 then Some (0, s)
     else if cnt = -1 then map_option (Pair 3) (ece391_fdputs 1 read_failed s)
     else case sys_write 1 buf cnt s of
       (r, s) \<Rightarrow> if r = -1 then Some (3, s) else cat_loop k ev read_failed fd buf s
   }"

definition ece391cat :: "nat \<Rightarrow> events \<Rightarrow> u8 list \<Rightarrow> u32 \<times> u32 \<times> u32 \<Rightarrow> u32 \<Rightarrow> 'a kernel_scheme \<Rightarrow> (int \<times> 'a kernel_scheme) option" where
  "ece391cat k ev beyond = (\<lambda>(no_arguments, not_found, read_failed) buf s. do {
     (r, s) \<leftarrow> getargs beyond buf 1024 s;
     if r \<noteq> 0 then map_option (Pair 3) (ece391_fdputs 1 no_arguments s)
     else do {
       (fd, s) \<leftarrow> sys_open buf s;
       if fd = -1 then map_option (Pair 2) (ece391_fdputs 1 not_found s)
       else cat_loop k ev read_failed fd buf s
     }
   })"

definition ece391testprint :: "u32 \<Rightarrow> 'a kernel_scheme \<Rightarrow> (int \<times> 'a kernel_scheme) option" where
  "ece391testprint text s = map_option (Pair 0) (ece391_fdputs 1 text s)"

subsection \<open>What the calls keep\<close>

definition stdout_open :: "'a kernel_scheme \<Rightarrow> bool" where
  "stdout_open s \<longleftrightarrow> length (open_files s) = 8 \<and> flags (open_files s ! 1) \<noteq> 0 \<and> op_write (file_operations (open_files s ! 1)) = Terminal_write"

text \<open>A process that runs, with its output open; and what a call that is no output leaves as it was.\<close>

definition program_runs :: "u32 \<Rightarrow> 'a kernel_scheme \<Rightarrow> bool" where
  "program_runs p s \<longleftrightarrow> mapped (Some p) s \<and> mounted s \<and> screen_ok s \<and> stdout_open s"

definition same_kernel :: "'a kernel_scheme \<Rightarrow> 'a kernel_scheme \<Rightarrow> bool" where
  "same_kernel s s' \<longleftrightarrow> kfs s' = kfs s \<and> (\<forall>x. drop_bit 22 x = 1 \<longrightarrow> kmem s' x = kmem s x) \<and> run_terminal s' = run_terminal s"

definition same_displays :: "'a kernel_scheme \<Rightarrow> 'a kernel_scheme \<Rightarrow> bool" where
  "same_displays s s' \<longleftrightarrow> (\<forall>t\<in>{0, 1, 2}. display_of s' t = display_of s t)"

lemma same_kernel_refl: "same_kernel s s"
  by (simp add: same_kernel_def)

lemma same_kernel_trans: "same_kernel s t \<Longrightarrow> same_kernel t u \<Longrightarrow> same_kernel s u"
  by (simp add: same_kernel_def)

lemma commit_low_memory:
  assumes "mapped (Some p) s" and "user_range buf (length bs)" and "unat pa < 0x400000"
  shows "pmem (commit (write_bytes (kmem s) buf bs) s) pa = pmem s pa"
proof -
  let ?m = "write_bytes (kmem s) buf bs"
  have low: "drop_bit 22 pa = 0" using page_iff [of 0 pa] assms(3) by simp
  have "\<not> (access s va = Some pa \<and> ?m va \<noteq> kmem s va)" for va
  proof
    assume a: "access s va = Some pa \<and> ?m va \<noteq> kmem s va"
    then have "va \<in> span buf (length bs)"
      using user_range_bounds [OF assms(2)] by (auto simp: write_bytes_apply split: if_splits)
    then have "drop_bit 22 va = 32" by (rule user_range_page [OF assms(2)])
    moreover have "p < 6" using assms(1) by (simp add: mapped_def)
    ultimately show False
      using a low mapped_access(2) [OF assms(1), of va] frame_number [of p va] frame_not_kernel [of p] by auto
  qed
  then have "find (\<lambda>va. access s va = Some pa \<and> ?m va \<noteq> kmem s va) (aliases pa) = None" unfolding find_None_iff by blast
  then show ?thesis by (simp add: commit_def)
qed

lemma commit_screen:
  assumes "mapped (Some p) s" and "user_range buf (length bs)" and "screen_ok s"
  defines "s' \<equiv> commit (write_bytes (kmem s) buf bs) s"
  shows "screen_ok s'" and "t \<in> {0, 1, 2} \<Longrightarrow> display_of s' t = display_of s t"
proof -
  have f: "terminal s' = terminal s" "frame_of s' = frame_of s" "cur_terminal s' = cur_terminal s" "run_terminal s' = run_terminal s"
    by (simp_all add: s'_def commit_def frame_of_def fun_eq_iff)
  have "video_at fr s' = video_at fr s" for fr by (simp add: s'_def commit_def video_at_def kernel_maps_def paging_on_def layout_ok_def directory_entry_def)
  then show "screen_ok s'" using assms(3) f by (simp add: screen_ok_def)
  assume t: "t \<in> {0, 1, 2}"
  have "pmem s' (cell (frame_of s t) (2 * k)) = pmem s (cell (frame_of s t) (2 * k))" if "k < 2000" for k
    unfolding s'_def by (rule commit_low_memory [OF assms(1,2)]) (rule page_of_cell [OF frame_of_video [OF t]], use that in simp)
  then show "display_of s' t = display_of s t" by (auto simp: display_of_def shown_def f)
qed

lemma program_files:
  assumes "mounted s" and "same_kernel s s'"
  shows "mounted s'" and "inode_ok (kmem s) (kfs s) i \<Longrightarrow> inode_ok (kmem s') (kfs s') i"
    and "inode_ok (kmem s) (kfs s) i \<Longrightarrow> file_bytes (kmem s') (kfs s') i = file_bytes (kmem s) (kfs s) i"
  using mounted_step [OF assms(1), of s'] assms(2) by (simp_all add: same_kernel_def)

subsection \<open>Single calls\<close>

lemma update_pcb_screen [simp]: "screen_ok (update_pcb a g s) = screen_ok s" "display_of (update_pcb a g s) t = display_of s t"
  by (simp_all add: update_pcb_def screen_ok_def display_of_def shown_def frame_of_def video_at_def kernel_maps_def
      paging_on_def layout_ok_def directory_entry_def cong: if_cong)

lemma read_step:
  assumes run: "program_runs p s" and at: "file_at fd inode pos s" and ino: "inode_ok (kmem s) (kfs s) inode" and buf: "user_range buf (nat n)"
    and n: "0 < n" and pos: "pos \<le> length (file_bytes (kmem s) (kfs s) inode)"
  defines "bs \<equiv> take (nat n) (drop pos (file_bytes (kmem s) (kfs s) inode))"
  shows "\<exists>s'. sys_read ev fd buf n s = Some (int (length bs), s') \<and> read_bytes (kmem s') buf (length bs) = bs \<and> program_runs p s' \<and>
    file_at fd inode (pos + length bs) s' \<and> same_kernel s s' \<and> same_displays s s'"
proof -
  have maps: "mapped (Some p) s" and mnt: "mounted s" and scr: "screen_ok s" and out: "stdout_open s" using run by (simp_all add: program_runs_def)
  note read = read_data_user [OF mnt ino buf n pos, folded bs_def]
  have lb: "length bs \<le> nat n" by (simp add: bs_def)
  have range: "user_range buf (length bs)" using buf lb by (simp add: user_range_def)
  let ?c = "commit (write_bytes (kmem s) buf bs) s"
  let ?s = "update_pcb (get_cur_pcb_ptr s) (update_fd (nat fd) (\<lambda>d. d\<lparr>file_position := file_position d + word_of_int (int (length bs))\<rparr>)) ?c"
  have "sys_read ev fd buf n s = Some (int (length bs), ?s)"
    using at n user_range_bounds [OF buf] read lb by (simp add: sys_read_def file_at_def call_read_def file_read_def Let_def sint_of_nat_u32)
  moreover have "read_bytes (kmem ?s) buf (length bs) = bs" using commit_write_user(1) [OF maps range] by simp
  moreover have kern: "same_kernel s ?s" using commit_write_user(2) [OF maps range] by (simp add: same_kernel_def)
  moreover have fd: "nat fd < length (open_files s)" using at by (auto simp: file_at_def)
  then have "file_at fd inode (pos + length bs) ?s" using at by (simp add: file_at_def Let_def)
  moreover have "stdout_open ?s" using out fd by (simp add: stdout_open_def nth_list_update)
  moreover have "same_displays s ?s" using commit_screen(2) [OF maps range scr] by (simp add: same_displays_def)
  ultimately show ?thesis using maps program_files(1) [OF mnt kern] commit_screen(1) [OF maps range scr] by (simp add: program_runs_def)
qed

text \<open>Output on the terminal of the process.\<close>

definition prints :: "u8 list \<Rightarrow> 'a kernel_scheme \<Rightarrow> 'a kernel_scheme \<Rightarrow> bool" where
  "prints cs s s' \<longleftrightarrow> run_terminal s' = run_terminal s \<and>
     (\<forall>t\<in>{0, 1, 2}. display_of s' t = (if t = run_terminal s then fold display_putc cs (display_of s t) else display_of s t))"

lemma prints_trans: "prints cs s t \<Longrightarrow> prints ds t u \<Longrightarrow> prints (cs @ ds) s u"
  by (auto simp: prints_def)

lemma prints_nothing: "same_kernel s s' \<Longrightarrow> same_displays s s' \<Longrightarrow> prints [] s s'"
  by (simp add: prints_def same_kernel_def same_displays_def)

lemma write_step:
  assumes run: "program_runs p s" and buf: "buf \<noteq> 0" and n: "0 < n" "n < 2 ^ 31"
  defines "s' \<equiv> put_string (read_bytes (kmem s) buf (nat n)) s"
  shows "sys_write 1 buf n s = (n, s')" and "program_runs p s'" and "same_kernel s s'" and "prints (read_bytes (kmem s) buf (nat n)) s s'"
    and "file_at fd inode pos s' = file_at fd inode pos s"
proof -
  have maps: "mapped (Some p) s" and mnt: "mounted s" and scr: "screen_ok s" and out: "stdout_open s" using run by (simp_all add: program_runs_def)
  have cur: "get_cur_pcb_ptr s' = get_cur_pcb_ptr s" "pcbs s' = pcbs s" "kfs s' = kfs s" by (simp_all add: s'_def get_cur_pcb_ptr_def)
  have "(word_of_int n :: u32) = of_nat (nat n)" using n(1) by simp
  then have "sint (word_of_int n :: u32) = n" using n sint_of_nat_u32 [of "nat n"] by simp
  then show "sys_write 1 buf n s = (n, s')"
    using out buf n by (simp add: sys_write_def stdout_open_def call_write_def terminal_write_def Let_def s'_def)
  have maps': "mapped (Some p) s'" using maps by (simp add: s'_def)
  have "kmem s' x = kmem s x" if "drop_bit 22 x = 1" for x
  proof -
    have "0x400000 \<le> unat x" using that by (simp add: kernel_page)
    then show ?thesis using that put_string_memory [OF scr] kmem_kernel_page [OF maps] kmem_kernel_page [OF maps'] by (simp add: s'_def)
  qed
  then show kern: "same_kernel s s'" using cur(3) put_string_facts(2) [OF scr] by (simp add: same_kernel_def s'_def)
  show "program_runs p s'"
    using maps' program_files(1) [OF mnt kern] put_string_facts(1) [OF scr] out cur by (simp add: program_runs_def stdout_open_def s'_def)
  show "prints (read_bytes (kmem s) buf (nat n)) s s'" using put_string_facts(2,3) [OF scr] by (simp add: prints_def s'_def)
  show "file_at fd inode pos s' = file_at fd inode pos s" by (simp add: file_at_def cur)
qed

lemma cat_loop_prints:
  assumes "program_runs p s" and "file_at fd inode pos s" and "inode_ok (kmem s) (kfs s) inode" and "user_range buf 1024"
    and "pos \<le> length (file_bytes (kmem s) (kfs s) inode)"
    and "length (file_bytes (kmem s) (kfs s) inode) - pos + 1024 \<le> k * 1024"
  shows "\<exists>s'. cat_loop k ev msg fd buf s = Some (0, s') \<and> program_runs p s' \<and> same_kernel s s' \<and> prints (drop pos (file_bytes (kmem s) (kfs s) inode)) s s'"
  using assms
proof (induction k arbitrary: pos s)
  case 0
  then show ?case by simp
next
  case (Suc k)
  let ?file = "file_bytes (kmem s) (kfs s) inode"
  let ?bs = "take 1024 (drop pos ?file)"
  have "user_range buf (nat 1024)" using Suc.prems(4) by simp
  from read_step [OF Suc.prems(1-3) this _ Suc.prems(5)] obtain s1 where
    s1: "sys_read ev fd buf 1024 s = Some (int (length ?bs), s1)" "read_bytes (kmem s1) buf (length ?bs) = ?bs" "program_runs p s1"
      "file_at fd inode (pos + length ?bs) s1" "same_kernel s s1" "same_displays s s1" by (auto simp del: length_take)
  note quiet = prints_nothing [OF s1(5,6)]
  show ?case
  proof (cases "pos = length ?file")
    case True
    then show ?thesis using s1 quiet by simp
  next
    case False
    then have "0 < k" using Suc.prems(5,6) by (cases k) auto
    then have len: "0 < length ?bs" "length ?bs \<le> 1024" "pos + length ?bs \<le> length ?file" "length ?file - (pos + length ?bs) + 1024 \<le> k * 1024"
      using False Suc.prems(5,6) by (auto simp: min_def)
    have buf0: "buf \<noteq> 0" using user_range_bounds [OF Suc.prems(4)] by simp
    define s2 where "s2 = put_string (read_bytes (kmem s1) buf (nat (int (length ?bs)))) s1"
    have w: "sys_write 1 buf (int (length ?bs)) s1 = (int (length ?bs), s2)" "program_runs p s2" "same_kernel s1 s2" "prints ?bs s1 s2"
      "file_at fd inode (pos + length ?bs) s2"
      using write_step [OF s1(3) buf0, of "int (length ?bs)", folded s2_def] len(1,2) s1(2,4) by (simp_all del: length_take)
    note kern = same_kernel_trans [OF s1(5) w(3)]
    have mnt: "mounted s" using Suc.prems(1) by (simp add: program_runs_def)
    note files = program_files(2,3) [OF mnt kern Suc.prems(3)]
    obtain s' where s': "cat_loop k ev msg fd buf s2 = Some (0, s')" "program_runs p s'" "same_kernel s2 s'" "prints (drop (pos + length ?bs) ?file) s2 s'"
      using Suc.IH [OF w(2,5) files(1) Suc.prems(4)] len(3,4) unfolding files(2) by blast
    have "?bs @ drop (pos + length ?bs) ?file = drop pos ?file"
      using append_take_drop_id [of "length ?bs" "drop pos ?file"] by (simp add: min_def add.commute split: if_splits)
    then have "prints (drop pos ?file) s s'" using prints_trans [OF prints_trans [OF quiet w(4)] s'(4)] by simp
    moreover have "cat_loop (Suc k) ev msg fd buf s = Some (0, s')" using s1(1) w(1) s'(1) len(1) by (simp del: length_take)
    ultimately show ?thesis using s'(2) same_kernel_trans [OF kern s'(3)] by blast
  qed
qed

subsection \<open>Arguments, names and messages\<close>

lemma commit_user_elsewhere:
  assumes "mapped (Some p) s" and "user_range buf (length bs)" and "drop_bit 22 x = 32" and "x \<notin> span buf (length bs)"
  shows "kmem (commit (write_bytes (kmem s) buf bs) s) x = kmem s x"
  using commit_user [OF assms(1,3)] assms(4) user_range_bounds [OF assms(2)] by (simp add: write_bytes_apply)

text \<open>Bytes that a call puts into the buffer of the program.\<close>

lemma commit_step:
  assumes run: "program_runs p s" and buf: "user_range buf (length bs)"
  defines "s' \<equiv> commit (write_bytes (kmem s) buf bs) s"
  shows "program_runs p s'" and "same_kernel s s'" and "same_displays s s'" and "read_bytes (kmem s') buf (length bs) = bs"
    and "drop_bit 22 x = 32 \<Longrightarrow> x \<notin> span buf (length bs) \<Longrightarrow> kmem s' x = kmem s x"
proof -
  have maps: "mapped (Some p) s" and mnt: "mounted s" and scr: "screen_ok s" and out: "stdout_open s" using run by (simp_all add: program_runs_def)
  show kern: "same_kernel s s'" using commit_write_user(2) [OF maps buf] by (simp add: same_kernel_def s'_def)
  show "program_runs p s'"
    using maps program_files(1) [OF mnt kern] scr out by (simp add: program_runs_def stdout_open_def s'_def)
  show "same_displays s s'" using commit_screen(2) [OF maps buf scr] by (simp add: same_displays_def s'_def)
  show "read_bytes (kmem s') buf (length bs) = bs" unfolding s'_def by (rule commit_write_user(1) [OF maps buf])
  show "drop_bit 22 x = 32 \<Longrightarrow> x \<notin> span buf (length bs) \<Longrightarrow> kmem s' x = kmem s x"
    unfolding s'_def by (rule commit_user_elsewhere [OF maps buf])
qed

lemma is_cstr_prefix:
  assumes "read_bytes m a n = take n (bs @ 0 # rest)" and "length bs < n" and "length bs < 2 ^ 32" and "0 \<notin> set bs"
  shows "is_cstr m a bs"
proof -
  obtain k where n: "n = length bs + Suc k" using assms(2) by (metis less_imp_Suc_add add_Suc_right)
  have "read_bytes m a (length bs) @ m (a + of_nat (length bs)) # read_bytes m (a + of_nat (length bs) + 1) k = bs @ 0 # take k rest"
    using assms(1) unfolding n by (simp only: read_bytes_add read_bytes_Suc) simp
  then have "read_bytes m a (length bs) = bs" "m (a + of_nat (length bs)) = 0" by (simp_all add: append_eq_append_conv)
  then show ?thesis using assms(2-4) by (simp add: is_cstr_def)
qed

text \<open>The rest of the call \<^verbatim>\<open>getargs\<close>: what it leaves as it was.\<close>

definition argument :: "u8 list \<Rightarrow> u8 list \<Rightarrow> 'a kernel_scheme \<Rightarrow> bool" where
  "argument beyond arg s \<longleftrightarrow> 0 \<notin> set arg \<and> length arg < 1024 \<and> 1024 \<le> length (pcb_args (cur_pcb s) @ beyond) \<and>
     (\<exists>junk. pcb_args (cur_pcb s) = arg @ 0 # junk)"

lemma getargs_step:
  assumes run: "program_runs p s" and arg: "argument beyond arg s" "arg \<noteq> []" and buf: "user_range buf 1024"
  shows "\<exists>s'. getargs beyond buf 1024 s = Some (0, s') \<and> is_cstr (kmem s') buf arg \<and> program_runs p s' \<and> same_kernel s s' \<and>
    same_displays s s' \<and> open_files s' = open_files s \<and> (\<forall>x. drop_bit 22 x = 32 \<and> x \<notin> span buf 1024 \<longrightarrow> kmem s' x = kmem s x)"
proof -
  obtain junk where junk: "pcb_args (cur_pcb s) = arg @ 0 # junk" and z: "0 \<notin> set arg" and len: "length arg < 1024"
      and room: "1024 \<le> length (pcb_args (cur_pcb s) @ beyond)"
    using arg(1) by (auto simp: argument_def)
  define bs where "bs = take 1024 (arg @ 0 # junk @ beyond)"
  have lb: "length bs = 1024" using room by (simp add: bs_def junk)
  let ?s = "commit (write_bytes (kmem s) buf bs) s"
  note step = commit_step [OF run, of buf bs, unfolded lb, OF buf]
  have "hd (arg @ 0 # junk) \<noteq> 0" using z arg(2) by (cases arg) auto
  then have "getargs beyond buf 1024 s = Some (0, ?s)"
    using user_range_signed [OF buf] user_range_bounds [OF buf] args_length_terminated [OF z, of junk] len
    by (simp add: getargs_def Let_def junk bs_def)
  moreover have "is_cstr (kmem ?s) buf arg" using step(4) len z by (intro is_cstr_prefix) (simp_all add: bs_def)
  ultimately show ?thesis using step(1-3,5) by (intro exI [of _ ?s]) simp
qed

text \<open>The entry of the directory that a name stands for; longer names than an entry holds stand for none.\<close>

definition find_file :: "'a kernel_scheme \<Rightarrow> u8 list \<Rightarrow> dentry_t option" where
  "find_file s name = (if 32 < length name then None else dir_lookup (kmem s) (kfs s) name)"

lemma find_file_same:
  assumes "mounted s" and "same_kernel s s'" and "unat (num_dir_entries (kmem s) (kfs s)) \<le> 63"
  shows "find_file s' name = find_file s name"
proof -
  have "image_ok (kmem s) (kfs s)" using assms(1) by (simp add: mounted_def)
  from dir_lookup_cong [OF this assms(3), of "kmem s'"] mounted_page [OF assms(1)] assms(2)
  show ?thesis by (simp add: find_file_def same_kernel_def)
qed

lemma open_step:
  assumes run: "program_runs p s" and name: "is_cstr (kmem s) buf arg" "buf \<noteq> 0"
  shows "find_file s arg = None \<Longrightarrow> sys_open buf s = Some (-1, s)"
    and "find_file s arg = Some d \<Longrightarrow> open_ops (file_type d) = Some ops \<Longrightarrow> op_open ops \<in> {Dir_open, File_open} \<Longrightarrow>
      free_descriptors s \<noteq> {} \<Longrightarrow>
      \<exists>i s'. sys_open buf s = Some (int i, s') \<and> i < 8 \<and> length (open_files s') = 8 \<and> open_files s' ! i = opened d ops \<and>
        program_runs p s' \<and> same_kernel s s' \<and> same_displays s s'"
proof -
  have found: "read_dentry_by_name (kmem s) (kfs s) buf 1 = Some (find_file s arg)"
    using read_dentry_lookup [OF name, of 1 "kfs s"] by (simp add: find_file_def dir_lookup_def)
  show "find_file s arg = None \<Longrightarrow> sys_open buf s = Some (-1, s)" using found name(2) by (simp add: sys_open_def)
  assume d: "find_file s arg = Some d" "open_ops (file_type d) = Some ops" "op_open ops \<in> {Dir_open, File_open}"
    and "free_descriptors s \<noteq> {}"
  then obtain i where i: "free_fd (open_files s) = Some i" using free_fd_iff [of s] by auto
  have i8: "i < 8" "flags (open_files s ! i) = 0" using fds.alloc_Some [OF i] by auto
  have out: "length (open_files s) = 8" "i \<noteq> 1" using run i8(2) by (auto simp: program_runs_def stdout_open_def)
  let ?g = "\<lambda>e. e\<lparr>flags := 1, file_position := 0, fd_inode := inode_num d, file_operations := ops\<rparr>"
  let ?s = "update_pcb (get_cur_pcb_ptr s) (update_fd i ?g) s"
  have "sys_open buf s = Some (int i, ?s)"
    using found d i name(2) by (auto simp: sys_open_def call_open_def file_open_def dir_open_def Let_def)
  moreover have "?g e = opened d ops" for e by (cases e) (simp add: opened_def)
  then have "length (open_files ?s) = 8" "open_files ?s ! i = opened d ops" using i8(1) out(1) by simp_all
  moreover have kern: "same_kernel s ?s" by (simp add: same_kernel_def)
  moreover have "program_runs p ?s"
    using run out program_files(1) [OF _ kern] by (simp add: program_runs_def stdout_open_def)
  moreover have "same_displays s ?s" by (simp add: same_displays_def)
  ultimately show "\<exists>i s'. sys_open buf s = Some (int i, s') \<and> i < 8 \<and> length (open_files s') = 8 \<and> open_files s' ! i = opened d ops \<and>
      program_runs p s' \<and> same_kernel s s' \<and> same_displays s s'"
    using i8(1) by blast
qed

lemma is_cstr_cong:
  assumes "is_cstr m a bs" and "\<And>x. x \<in> span a (Suc (length bs)) \<Longrightarrow> m' x = m x"
  shows "is_cstr m' a bs"
proof -
  have len: "length bs < 2 ^ 32" using assms(1) by (simp add: is_cstr_def)
  have "a + of_nat i \<in> span a (Suc (length bs))" if "i \<le> length bs" for i
    using that len by (simp add: unat_of_nat take_bit_nat_eq_self)
  then have same: "m' (a + of_nat i) = m (a + of_nat i)" if "i \<le> length bs" for i using that assms(2) by blast
  then have "read_bytes m' a (length bs) = read_bytes m a (length bs)" by (simp add: list_eq_iff_nth_eq)
  then show ?thesis using assms(1) same by (simp add: is_cstr_def)
qed

lemma ece391_strlen_run:
  assumes "is_cstr m a bs"
  shows "ece391_strlen m a = Some (of_nat (length bs))"
proof -
  have "ece391_strlen_from m (a + of_nat i) (of_nat i) = Some (of_nat (length bs))" if "i \<le> length bs" for i
    using that
  proof (induction "length bs - i" arbitrary: i)
    case 0
    then show ?case using assms by (subst ece391_strlen_from.simps) (simp add: is_cstr_def)
  next
    case (Suc k)
    have "ece391_strlen_from m (a + of_nat (Suc i)) (of_nat (Suc i)) = Some (of_nat (length bs))"
      by (rule Suc.hyps(1)) (use Suc.hyps(2) in simp_all)
    moreover have "m (a + of_nat i) \<noteq> 0" using is_cstr_nonzero [OF assms] Suc.hyps(2) by simp
    ultimately show ?case by (subst ece391_strlen_from.simps) (simp add: ac_simps)
  qed
  from this [of 0] show ?thesis by (simp add: ece391_strlen_def)
qed

text \<open>A constant string of the program: in its page, and not where the buffer is.\<close>

definition constant_text :: "u32 \<Rightarrow> u32 \<Rightarrow> u8 list \<Rightarrow> 'a kernel_scheme \<Rightarrow> bool" where
  "constant_text buf a text s \<longleftrightarrow> is_cstr (kmem s) a text \<and> text \<noteq> [] \<and> user_range a (Suc (length text)) \<and>
     span a (Suc (length text)) \<inter> span buf 1024 = {}"

lemma fdputs_step:
  assumes "program_runs p s" and "constant_text buf a text s"
  shows "\<exists>s'. ece391_fdputs 1 a s = Some s' \<and> program_runs p s' \<and> same_kernel s s' \<and> prints text s s'"
proof -
  have str: "is_cstr (kmem s) a text" and n: "0 < length text" "length text < 2 ^ 31" and a: "a \<noteq> 0"
    using assms(2) user_range_bounds [of a "Suc (length text)"] by (auto simp: constant_text_def)
  have "ece391_fdputs 1 a s = Some (snd (sys_write 1 a (int (length text)) s))"
    using ece391_strlen_run [OF str] sint_of_nat_u32 [of "length text"] n by (simp add: ece391_fdputs_def)
  moreover have "read_bytes (kmem s) a (length text) = text" using str by (simp add: is_cstr_def)
  ultimately show ?thesis using write_step [OF assms(1) a, of "int (length text)"] n by simp
qed

lemma testprint_prints:
  assumes "program_runs p s" and "constant_text buf text bs s"
  shows "\<exists>s'. ece391testprint text s = Some (0, s') \<and> prints bs s s'"
  using fdputs_step [OF assms] by (auto simp: ece391testprint_def)

subsection \<open>\<^verbatim>\<open>cat\<close> as a whole\<close>

text \<open>C9: \<^verbatim>\<open>cat\<close> prints a file.  With the name of a file as its argument, the program returns 0, and all that has
  happened to the three displays is that the bytes of the file were written, in order, on the display of the terminal that
  runs it; the calls of \<^verbatim>\<open>read\<close> are one more than the pieces of 1024 bytes and the last part.\<close>

theorem cat_prints_file:
  assumes "program_runs p s" and "argument beyond name s" and "name \<noteq> []" and "user_range buf 1024"
    and "unat (num_dir_entries (kmem s) (kfs s)) \<le> 63" and "free_descriptors s \<noteq> {}"
    and "find_file s name = Some d" and "file_type d = 2" and "inode_ok (kmem s) (kfs s) (inode_num d)"
  defines "file \<equiv> file_bytes (kmem s) (kfs s) (inode_num d)"
  shows "\<exists>s'. ece391cat (length file div 1024 + 2) ev beyond msgs buf s = Some (0, s') \<and> prints file s s'"
proof -
  have mnt: "mounted s" using assms(1) by (simp add: program_runs_def)
  have buf0: "buf \<noteq> 0" using user_range_bounds [OF assms(4)] by simp
  obtain s1 where s1: "getargs beyond buf 1024 s = Some (0, s1)" "is_cstr (kmem s1) buf name" "program_runs p s1" "same_kernel s s1"
      "same_displays s s1" "open_files s1 = open_files s"
    using getargs_step [OF assms(1-4)] by blast
  have "find_file s1 name = Some d" "free_descriptors s1 \<noteq> {}"
    using find_file_same [OF mnt s1(4) assms(5)] assms(6,7) s1(6) by (simp_all add: free_descriptors_def)
  moreover obtain ops where ops: "open_ops (file_type d) = Some ops" "op_open ops = File_open" "op_read ops = File_read"
    using assms(8) by (simp add: open_ops_def)
  ultimately obtain i s2 where s2i: "sys_open buf s1 = Some (int i, s2)" "i < 8" "length (open_files s2) = 8"
      "open_files s2 ! i = opened d ops" "program_runs p s2" "same_kernel s1 s2" "same_displays s1 s2"
    using open_step(2) [OF s1(3,2) buf0, of d ops] by auto
  define fd where "fd = int i"
  have s2: "sys_open buf s1 = Some (fd, s2)" "file_at fd (inode_num d) 0 s2" "program_runs p s2" "same_kernel s1 s2" "same_displays s1 s2"
    using s2i ops(3) by (simp_all add: fd_def file_at_def opened_def)
  have fd: "fd \<noteq> -1" using s2(2) by (auto simp: file_at_def)
  note kern = same_kernel_trans [OF s1(4) s2(4)]
  note files = program_files(2,3) [OF mnt kern assms(9), folded file_def]
  have "length file + 1024 \<le> (length file div 1024 + 2) * 1024" using dividend_less_div_times [of 1024 "length file"] by simp
  then obtain s3 where s3: "cat_loop (length file div 1024 + 2) ev (snd (snd msgs)) fd buf s2 = Some (0, s3)" "prints file s2 s3"
    using cat_loop_prints [OF s2(3,2) files(1) assms(4), of "length file div 1024 + 2" ev "snd (snd msgs)"] unfolding files(2) by auto
  have "ece391cat (length file div 1024 + 2) ev beyond msgs buf s = Some (0, s3)"
    using s1(1) s2(1) s3(1) fd by (simp add: ece391cat_def split_beta del: cat_loop.simps)
  moreover have "prints file s s3"
    using prints_trans [OF prints_trans [OF prints_nothing [OF s1(4,5)] prints_nothing [OF s2(4,5)]] s3(2)] by simp
  ultimately show ?thesis by blast
qed

text \<open>\<^verbatim>\<open>cat\<close> without an argument returns 3 and with a name that is not in the directory 2; what it prints is
  its message for that.\<close>

theorem cat_reports_errors:
  assumes "program_runs p s" and "argument beyond name s" and "user_range buf 1024"
    and "unat (num_dir_entries (kmem s) (kfs s)) \<le> 63"
    and "constant_text buf no_arguments text1 s" and "constant_text buf not_found text2 s"
    and "name = [] \<or> find_file s name = None"
  shows "\<exists>s'. ece391cat k ev beyond (no_arguments, not_found, read_failed) buf s = Some (if name = [] then 3 else 2, s') \<and>
    prints (if name = [] then text1 else text2) s s'"
proof (cases "name = []")
  case True
  then have "getargs beyond buf 1024 s = Some (-1, s)" using assms(2) by (auto simp: getargs_def argument_def Let_def)
  then show ?thesis using True fdputs_step [OF assms(1,5)] by (auto simp: ece391cat_def)
next
  case False
  have mnt: "mounted s" using assms(1) by (simp add: program_runs_def)
  obtain s1 where s1: "getargs beyond buf 1024 s = Some (0, s1)" "is_cstr (kmem s1) buf name" "program_runs p s1" "same_kernel s s1"
      "same_displays s s1" "\<And>x. drop_bit 22 x = 32 \<Longrightarrow> x \<notin> span buf 1024 \<Longrightarrow> kmem s1 x = kmem s x"
    using getargs_step [OF assms(1,2) False assms(3)] by blast
  have "find_file s1 name = None" using find_file_same [OF mnt s1(4) assms(4)] False assms(7) by simp
  then have "sys_open buf s1 = Some (-1, s1)" using open_step(1) [OF s1(3,2)] user_range_bounds [OF assms(3)] by simp
  moreover have "kmem s1 x = kmem s x" if "x \<in> span not_found (Suc (length text2))" for x
    using that user_range_page [of not_found "Suc (length text2)" x] assms(6) s1(6) by (auto simp: constant_text_def simp del: in_span)
  then have "constant_text buf not_found text2 s1"
    using assms(6) is_cstr_cong [of "kmem s" not_found text2 "kmem s1"] by (simp add: constant_text_def)
  from fdputs_step [OF s1(3) this] obtain s2 where "ece391_fdputs 1 not_found s1 = Some s2" "prints text2 s1 s2" by blast
  ultimately show ?thesis using s1(1) False prints_trans [OF prints_nothing [OF s1(4,5)]] by (auto simp: ece391cat_def)
qed

subsection \<open>A run on the file system of the examples\<close>

lemma demo_running_screen: "screen_ok demo_running" "run_terminal demo_running = 0"
proof -
  have f: "terminal demo_process = (\<lambda>_. demo_terminal)" "cur_terminal demo_process = 0" "run_terminal demo_process = 0"
    by (simp_all add: demo_process_def update_pcb_def boot_kernel_def)
  have "kernel_maps None False 0xB8 (page_init demo_process)"
    using page_init_maps [of demo_process] by (simp add: demo_process_def boot_kernel_def layout_ok_def update_pcb_def)
  then have "video_at 0xB8 (page_init demo_process)" by (auto simp: video_at_def)
  then have "screen_ok (page_init demo_process)"
    by (simp add: screen_ok_def f frame_of_def demo_terminal_def cursor_ok_def)
  then show "screen_ok demo_running" "run_terminal demo_running = 0" by (simp_all add: demo_running_def f screen_ok_map_process)
qed

text \<open>\<^verbatim>\<open>cat\<close> with argument \<open>arg\<close>, with two messages and the name of the directory in its page.\<close>

definition demo_start_cat :: "u8 list \<Rightarrow> kernel" where
  "demo_start_cat arg = update_pcb 0x7FA000 (\<lambda>p. p\<lparr>pcb_args := arg @ 0 # replicate 126 9\<rparr>) demo_running"

definition demo_cat :: "u8 list \<Rightarrow> kernel" where
  "demo_cat arg = commit (write_bytes (kmem (demo_start_cat arg)) 0x8050000 [63, 10, 0, 33, 10, 0, 46, 0]) (demo_start_cat arg)"

lemma demo_start_cat_ok: "mapped (Some 2) (demo_start_cat arg)" "mounted (demo_start_cat arg)"
  "same_kernel demo_running (demo_start_cat arg)" "program_runs 2 (demo_start_cat arg)"
proof -
  let ?s = "demo_start_cat arg"
  show maps: "mapped (Some 2) ?s" using demo_running_maps by (simp add: demo_start_cat_def)
  show "same_kernel demo_running ?s" by (simp add: same_kernel_def demo_start_cat_def)
  then show mnt: "mounted ?s" using program_files(1) [OF demo_running_files(2)] by blast
  have cur: "get_cur_pcb_ptr ?s = 0x7FA000" by (simp add: demo_start_cat_def demo_running_files)
  have "open_files ?s = [stdin_fd empty_fd, stdout_fd empty_fd] @ replicate 6 empty_fd"
    using demo_process_view(4) unfolding cur demo_process_view(3) by (simp add: demo_start_cat_def demo_running_fields)
  then show "program_runs 2 ?s"
    using maps mnt demo_running_screen(1) by (simp add: program_runs_def stdout_open_def stdout_fd_def) (simp add: demo_start_cat_def)
qed

lemma demo_cat_range: "user_range 0x8050000 (length [63, 10, 0, 33, 10, 0, 46, 0 :: u8])"
  by (simp add: user_range_def)

lemma demo_cat_ok: "program_runs 2 (demo_cat arg)" "same_kernel demo_running (demo_cat arg)"
  "open_files (demo_cat arg) = open_files demo_process" "run_terminal (demo_cat arg) = 0"
  "argument (replicate 1024 0) arg (demo_cat arg) \<longleftrightarrow> 0 \<notin> set arg \<and> length arg < 1024"
proof -
  note start = demo_start_cat_ok [of arg]
  let ?s = "demo_start_cat arg"
  have cur: "get_cur_pcb_ptr (demo_cat arg) = 0x7FA000" by (simp add: demo_cat_def demo_start_cat_def demo_running_files)
  have kern: "same_kernel ?s (demo_cat arg)"
    using commit_write_user(2) [OF start(1) demo_cat_range] unfolding demo_cat_def by (simp add: same_kernel_def)
  show "same_kernel demo_running (demo_cat arg)" by (rule same_kernel_trans [OF start(3) kern])
  have "mapped (Some 2) (demo_cat arg)" using start(1) by (simp add: demo_cat_def)
  moreover have "screen_ok (demo_cat arg)" using start(4) by (simp add: demo_cat_def program_runs_def)
  moreover have "stdout_open (demo_cat arg)" using start(4) by (simp add: demo_cat_def program_runs_def stdout_open_def)
  ultimately show "program_runs 2 (demo_cat arg)" using program_files(1) [OF start(2) kern] by (simp add: program_runs_def)
  show "open_files (demo_cat arg) = open_files demo_process"
    unfolding cur demo_process_view(3) by (simp add: demo_cat_def demo_start_cat_def demo_running_fields)
  show "run_terminal (demo_cat arg) = 0" by (simp add: demo_cat_def demo_start_cat_def demo_running_screen(2))
  have "pcb_args (cur_pcb (demo_cat arg)) = arg @ 0 # replicate 126 9"
    unfolding cur by (simp add: demo_cat_def demo_start_cat_def)
  then show "argument (replicate 1024 0) arg (demo_cat arg) \<longleftrightarrow> 0 \<notin> set arg \<and> length arg < 1024"
    by (auto simp: argument_def)
qed

lemma demo_cat_image: "kfs (demo_cat arg) = demo_fs"
  "x \<in> span (boot_block_ptr demo_fs) (image_size demo_image demo_fs) \<Longrightarrow> kmem (demo_cat arg) x = demo_image x"
  "find_file (demo_cat arg) name = (if 32 < length name then None else dir_lookup demo_image demo_fs name)"
proof -
  note kern = demo_cat_ok(2) [of arg]
  show fs: "kfs (demo_cat arg) = demo_fs" using kern by (simp add: same_kernel_def demo_running_fields)
  show same: "kmem (demo_cat arg) x = demo_image x" if "x \<in> span (boot_block_ptr demo_fs) (image_size demo_image demo_fs)" for x
  proof -
    have "drop_bit 22 x = 1"
      using that by (simp add: kernel_page demo_fs_simps demo_image_counts in_span_interval del: in_span)
    then show ?thesis
      using kern kmem_kernel_page [OF demo_running_maps] by (simp add: same_kernel_def demo_running_fields)
  qed
  show "find_file (demo_cat arg) name = (if 32 < length name then None else dir_lookup demo_image demo_fs name)"
    unfolding find_file_def fs using dir_lookup_cong [OF demo_image_ok(1) _ same] by (simp add: demo_image_counts)
qed

lemma demo_names: "entry_name demo_image demo_fs 0 = [46]" "entry_name demo_image demo_fs (Suc 0) = [97]"
proof -
  have "is_cstr demo_image 0x400040 [46]" "is_cstr demo_image 0x400080 [97]"
    by (simp_all add: is_cstr_def demo_image_at read_bytes_Suc)
  then show "entry_name demo_image demo_fs 0 = [46]" "entry_name demo_image demo_fs (Suc 0) = [97]"
    by (auto simp: entry_name_def dir_entry_addr_def demo_fs_simps dest: cstr_prefix [where n = 32])
qed

lemma demo_cat_files: "unat (num_dir_entries (kmem (demo_cat arg)) (kfs (demo_cat arg))) = 2"
  "find_file (demo_cat arg) [97] = Some (dentry_at demo_image 0x400080)" "find_file (demo_cat arg) [98] = None"
  "find_file (demo_cat arg) [46] = Some (dentry_at demo_image 0x400040)"
  "inode_ok (kmem (demo_cat arg)) (kfs (demo_cat arg)) 0" "file_bytes (kmem (demo_cat arg)) (kfs (demo_cat arg)) 0 = [72, 105, 33]"
  using image_cong(1) [OF demo_image_ok(1) demo_cat_image(2) [of _ arg]]
    program_files(2,3) [OF demo_running_files(2) demo_cat_ok(2) [of arg] demo_running_files(3)] demo_running_files(4)
  by (simp_all add: demo_cat_image(1,3) demo_image_counts dir_lookup_def upt_rec demo_names dir_entry_addr_def demo_fs_simps)

lemma demo_cat_free: "free_descriptors (demo_cat arg) \<noteq> {}"
  using demo_process_free unfolding free_descriptors_def demo_cat_ok(3) by auto

theorem cat_prints_file_witness:
  "\<exists>s'. ece391cat 2 \<lparr>keys = [], ticks = 0\<rparr> (replicate 1024 0) (0x8050000, 0x8050003, 0x8050000) 0x8060000 (demo_cat [97]) = Some (0, s') \<and>
    display_of s' 0 = fold display_putc [72, 105, 33] (display_of (demo_cat [97]) 0) \<and> display_of s' 1 = display_of (demo_cat [97]) 1"
proof -
  have arg: "argument (replicate 1024 0) [97] (demo_cat [97])" by (simp add: demo_cat_ok(5))
  have range: "user_range 0x8060000 1024" by (simp add: user_range_def)
  obtain s' where s': "ece391cat (3 div 1024 + 2) \<lparr>keys = [], ticks = 0\<rparr> (replicate 1024 0)
      (0x8050000, 0x8050003, 0x8050000) 0x8060000 (demo_cat [97]) = Some (0, s')" "prints [72, 105, 33] (demo_cat [97]) s'"
    using cat_prints_file [OF demo_cat_ok(1) arg _ range _ demo_cat_free demo_cat_files(2), of "\<lparr>keys = [], ticks = 0\<rparr>" "(0x8050000, 0x8050003, 0x8050000)"]
    by (auto simp: demo_cat_files demo_lookup)
  have two: "3 div 1024 + 2 = (2 :: nat)" by simp
  show ?thesis using s'(1) [unfolded two] s'(2) by (auto simp: prints_def demo_cat_ok(4))
qed

lemma read_bytes_part: "k + n \<le> l \<Longrightarrow> read_bytes m (a + of_nat k) n = take n (drop k (read_bytes m a l))"
  by (simp add: list_eq_iff_nth_eq add.assoc)

lemma demo_cat_strings: "is_cstr (kmem (demo_cat arg)) 0x8050000 [63, 10]" "is_cstr (kmem (demo_cat arg)) 0x8050003 [33, 10]"
  "is_cstr (kmem (demo_cat arg)) 0x8050006 [46]"
proof -
  have eight: "length [63, 10, 0, 33, 10, 0, 46, 0 :: u8] = 8" by simp
  have r: "read_bytes (kmem (demo_cat arg)) 0x8050000 8 = [63, 10, 0, 33, 10, 0, 46, 0]"
    using commit_write_user(1) [OF demo_start_cat_ok(1) demo_cat_range] unfolding eight demo_cat_def .
  note part = read_bytes_part [where m = "kmem (demo_cat arg)" and a = "0x8050000" and l = 8, unfolded r]
  show "is_cstr (kmem (demo_cat arg)) 0x8050000 [63, 10]" using part [of 0 3] by (intro is_cstr_prefix [where n = 3 and rest = "[]"]) simp_all
  show "is_cstr (kmem (demo_cat arg)) 0x8050003 [33, 10]" using part [of 3 3] by (intro is_cstr_prefix [where n = 3 and rest = "[]"]) simp_all
  show "is_cstr (kmem (demo_cat arg)) 0x8050006 [46]" using part [of 6 2] by (intro is_cstr_prefix [where n = 2 and rest = "[]"]) simp_all
qed

lemma demo_cat_messages: "constant_text 0x8060000 0x8050000 [63, 10] (demo_cat arg)" "constant_text 0x8060000 0x8050003 [33, 10] (demo_cat arg)"
proof -
  have "apart 0x8050000 3 0x8060000 1024" "apart 0x8050003 3 0x8060000 1024" by (rule apart_below; simp)+
  then show "constant_text 0x8060000 0x8050000 [63, 10] (demo_cat arg)" "constant_text 0x8060000 0x8050003 [33, 10] (demo_cat arg)"
    using demo_cat_strings by (simp_all add: constant_text_def user_range_def apart_def numeral_3_eq_3 del: in_span)
qed

theorem cat_reports_errors_witness:
  "(\<exists>s'. ece391cat 1 \<lparr>keys = [], ticks = 0\<rparr> (replicate 1024 0) (0x8050000, 0x8050003, 0x8050000) 0x8060000 (demo_cat []) = Some (3, s')) \<and>
    (\<exists>s'. ece391cat 1 \<lparr>keys = [], ticks = 0\<rparr> (replicate 1024 0) (0x8050000, 0x8050003, 0x8050000) 0x8060000 (demo_cat [98]) = Some (2, s') \<and>
      display_of s' 0 = fold display_putc [33, 10] (display_of (demo_cat [98]) 0))"
proof -
  have a: "argument (replicate 1024 0) arg (demo_cat arg)" if "0 \<notin> set arg" "length arg < 1024" for arg using that by (simp add: demo_cat_ok(5))
  note run = cat_reports_errors [OF demo_cat_ok(1) a _ _ demo_cat_messages, of _ 1 "\<lparr>keys = [], ticks = 0\<rparr>"]
  show ?thesis using run [of "[]"] run [of "[98]"] by (simp add: prints_def demo_cat_ok(4) demo_cat_files user_range_def) auto
qed

end
