(* ===== verification/Listing.thy ===== *)
theory Listing
  imports Programs
begin

text \<open>
  The program \<^verbatim>\<open>ls\<close> (\<^verbatim>\<open>mp3/syscalls/ece391ls.c\<close>) on the kernel.  Its reads go through the counter of
  \<^verbatim>\<open>dir_read\<close>, which is one for the whole kernel: a listing starts where the last reader stopped.
\<close>

fun ls_loop :: "nat \<Rightarrow> events \<Rightarrow> u32 \<Rightarrow> int \<Rightarrow> u32 \<Rightarrow> 'a kernel_scheme \<Rightarrow> (int \<times> 'a kernel_scheme) option" where
  "ls_loop 0 ev read_failed fd buf s = None"
| "ls_loop (Suc k) ev read_failed fd buf s = do {
     (cnt, s) \<leftarrow> sys_read ev fd buf 32 s;
     if cnt = 0 then Some (0, s)
     else if cnt = -1 then map_option (Pair 3) (ece391_fdputs 1 read_failed s)
     else let s = commit ((kmem s)(buf + of_int cnt := 10)) s
       in case sys_write 1 buf (cnt + 1) s of
         (r, s) \<Rightarrow> if r = -1 then Some (3, s) else ls_loop k ev read_failed fd buf s
   }"

definition ece391ls :: "nat \<Rightarrow> events \<Rightarrow> u32 \<times> u32 \<times> u32 \<Rightarrow> u32 \<Rightarrow> 'a kernel_scheme \<Rightarrow> (int \<times> 'a kernel_scheme) option" where
  "ece391ls k ev = (\<lambda>(dot, open_failed, read_failed) buf s. do {
     (fd, s) \<leftarrow> sys_open dot s;
     if fd = -1 then map_option (Pair 2) (ece391_fdputs 1 open_failed s)
     else ls_loop k ev read_failed fd buf s
   })"

subsection \<open>The directory under the kernel's counter\<close>

definition entries :: "'a kernel_scheme \<Rightarrow> nat" where
  "entries s = unat (num_dir_entries (kmem s) (kfs s))"

definition entry_bytes :: "'a kernel_scheme \<Rightarrow> nat \<Rightarrow> u8 list" where
  "entry_bytes s i = read_bytes (kmem s) (dir_entry_addr (kfs s) (of_nat i)) 32"

text \<open>The lines for the entries from number \<open>i\<close> on.\<close>

definition lines_from :: "nat \<Rightarrow> 'a kernel_scheme \<Rightarrow> u8 list" where
  "lines_from i s = concat (map (\<lambda>j. entry_bytes s j @ [10]) [i..<entries s])"

definition same_directory :: "'a kernel_scheme \<Rightarrow> 'a kernel_scheme \<Rightarrow> bool" where
  "same_directory s s' \<longleftrightarrow> (kfs s')\<lparr>file_idx := 0\<rparr> = (kfs s)\<lparr>file_idx := 0\<rparr> \<and>
     (\<forall>x. drop_bit 22 x = 1 \<longrightarrow> kmem s' x = kmem s x) \<and> run_terminal s' = run_terminal s"

lemma same_directory_trans: "same_directory s t \<Longrightarrow> same_directory t u \<Longrightarrow> same_directory s u"
  by (simp add: same_directory_def)

lemma same_kernel_directory: "same_kernel s s' \<Longrightarrow> same_directory s s'"
  by (simp add: same_kernel_def same_directory_def)

lemma counter_irrelevant [simp]:
  "image_size m (f\<lparr>file_idx := x\<rparr>) = image_size m f" "image_ok m (f\<lparr>file_idx := x\<rparr>) = image_ok m f"
  by (simp_all add: image_size_def image_ok_def num_inodes_def num_data_blocks_def)

lemma mounted_counter [simp]: "mounted (s\<lparr>kfs := (kfs s)\<lparr>file_idx := x\<rparr>\<rparr>) = mounted s"
  by (simp add: mounted_def)

lemma same_directory_entries:
  assumes "mounted s" and "same_directory s s'"
  shows "mounted s'" and "entries s' = entries s" and "entries s \<le> 63 \<Longrightarrow> i < entries s \<Longrightarrow> entry_bytes s' i = entry_bytes s i"
    and "entries s \<le> 63 \<Longrightarrow> lines_from i s' = lines_from i s"
proof -
  obtain x where f: "kfs s' = (kfs s)\<lparr>file_idx := x\<rparr>"
    using assms(2) by (cases "kfs s", cases "kfs s'") (simp add: same_directory_def)
  let ?s = "s\<lparr>kfs := (kfs s)\<lparr>file_idx := x\<rparr>\<rparr>"
  have same: "\<forall>x. drop_bit 22 x = 1 \<longrightarrow> kmem s' x = kmem s x" using assms(2) by (simp add: same_directory_def)
  then show "mounted s'" using mounted_step(1) [of ?s s'] assms(1) f by simp
  have ok: "image_ok (kmem s) (kfs s)" using assms(1) by (simp add: mounted_def)
  have im: "kmem s' y = kmem s y" if "y \<in> span (boot_block_ptr (kfs s)) (image_size (kmem s) (kfs s))" for y
    using mounted_page [OF assms(1) that] same by blast
  show n: "entries s' = entries s" using image_cong(1) [OF ok im] f by (simp add: entries_def)
  show entry: "entry_bytes s' i = entry_bytes s i" if "entries s \<le> 63" "i < entries s" for i
  proof -
    have "span (dir_entry_addr (kfs s) (of_nat i)) 32 \<subseteq> span (boot_block_ptr (kfs s)) 4096"
      using dir_entry_in_boot that by (simp add: entries_def)
    also have "\<dots> \<subseteq> span (boot_block_ptr (kfs s)) (image_size (kmem s) (kfs s))" by (auto simp: image_size_def)
    finally show ?thesis using im f by (auto simp: entry_bytes_def intro!: read_bytes_cong)
  qed
  show "lines_from i s' = lines_from i s" if "entries s \<le> 63"
    unfolding lines_from_def n using entry [OF that] by (auto intro!: arg_cong [where f = concat] map_cong)
qed

lemma length_entry_bytes [simp]: "length (entry_bytes s i) = 32"
  by (simp add: entry_bytes_def)

lemma lines_from_step: "i < entries s \<Longrightarrow> lines_from i s = (entry_bytes s i @ [10]) @ lines_from (Suc i) s"
  by (simp add: lines_from_def upt_conv_Cons)

subsection \<open>Single steps\<close>

definition dir_at :: "int \<Rightarrow> 'a kernel_scheme \<Rightarrow> bool" where
  "dir_at fd s \<longleftrightarrow> 0 \<le> fd \<and> fd < 8 \<and> length (open_files s) = 8 \<and>
     flags (open_files s ! nat fd) \<noteq> 0 \<and> op_read (file_operations (open_files s ! nat fd)) = Dir_read"

lemma counter_screen [simp]: "screen_ok (kfs_update g s) = screen_ok s" "display_of (kfs_update g s) t = display_of s t"
  by (rule screen_ok_cong; simp) (simp add: display_of_def shown_def frame_of_def cong: if_cong)

lemma counter_pcbs [simp]: "get_cur_pcb_ptr (kfs_update g s) = get_cur_pcb_ptr s" "pcbs (kfs_update g s) = pcbs s"
  "run_terminal (kfs_update g s) = run_terminal s"
  by (simp_all add: get_cur_pcb_ptr_def)

text \<open>A call of \<^verbatim>\<open>read\<close> on the directory, within the entries and behind the last.\<close>

lemma counter_runs: "program_runs p (s\<lparr>kfs := (kfs s)\<lparr>file_idx := x\<rparr>\<rparr>) = program_runs p s"
  by (simp add: program_runs_def stdout_open_def)

lemma dir_buffer:
  fixes x :: u32 and g :: "file_descriptor \<Rightarrow> u32"
  assumes "program_runs p s" and "dir_at fd s" and "user_range buf (length bs)"
  defines "s' \<equiv> update_pcb (get_cur_pcb_ptr s) (update_fd (nat fd) (\<lambda>d. d\<lparr>file_position := g d\<rparr>))
    (commit (write_bytes (kmem s) buf bs) (s\<lparr>kfs := (kfs s)\<lparr>file_idx := x\<rparr>\<rparr>))"
  shows "program_runs p s'" and "dir_at fd s'" and "same_directory s s'" and "same_displays s s'"
    and "read_bytes (kmem s') buf (length bs) = bs" and "file_idx (kfs s') = x"
proof -
  let ?t = "s\<lparr>kfs := (kfs s)\<lparr>file_idx := x\<rparr>\<rparr>"
  have run: "program_runs p ?t" using assms(1) by (simp add: counter_runs)
  note step = commit_step [OF run assms(3)]
  have at: "nat fd < 8" "length (open_files s) = 8" using assms(2) by (auto simp: dir_at_def)
  show "program_runs p s'" using step(1) at assms(1) unfolding s'_def
    by (simp add: program_runs_def stdout_open_def mounted_def nth_list_update)
  show "dir_at fd s'" using assms(2) at by (simp add: dir_at_def s'_def)
  show "same_directory s s'" using step(2) by (simp add: same_directory_def same_kernel_def s'_def)
  show "same_displays s s'" using step(3) by (simp add: same_displays_def s'_def)
  show "read_bytes (kmem s') buf (length bs) = bs" using step(4) by (simp add: s'_def)
  show "file_idx (kfs s') = x" by (simp add: s'_def)
qed

lemma ls_step:
  assumes run: "program_runs p s" and at: "dir_at fd s" and buf: "user_range buf 33"
    and i: "file_idx (kfs s) = of_nat i" "i < entries s" and small: "entries s \<le> 63"
  shows "\<exists>s1 s2. sys_read ev fd buf 32 s = Some (32, s1) \<and>
    sys_write 1 buf 33 (commit ((kmem s1)(buf + 32 := 10)) s1) = (33, s2) \<and> program_runs p s2 \<and> dir_at fd s2 \<and>
    same_directory s s2 \<and> file_idx (kfs s2) = of_nat (Suc i) \<and> prints (entry_bytes s i @ [10]) s s2"
proof -
  let ?bs = "entry_bytes s i"
  have buf32: "user_range buf (length ?bs)" using buf by (simp add: user_range_def)
  have buf1: "user_range (buf + 32) (length [10 :: u8])" using buf by (auto simp: user_range_def unat_word_ariths)
  have buf0: "buf \<noteq> 0" using user_range_bounds [OF buf] by simp
  have less: "(of_nat i :: u32) < num_dir_entries (kmem s) (kfs s)" using i(2) small by (simp add: entries_def word_less_nat_alt)
  define s1 where "s1 = update_pcb (get_cur_pcb_ptr s) (update_fd (nat fd) (\<lambda>d. d\<lparr>file_position := file_position d + 32\<rparr>))
    (commit (write_bytes (kmem s) buf ?bs) (s\<lparr>kfs := (kfs s)\<lparr>file_idx := of_nat (Suc i)\<rparr>\<rparr>))"
  have read: "sys_read ev fd buf 32 s = Some (32, s1)"
    using at buf0 less i(1) by (simp add: sys_read_def dir_at_def call_read_def dir_read_def dentry_at_def entry_bytes_def Let_def s1_def add.commute)
  note s1 = dir_buffer [OF run at buf32, of "\<lambda>d. file_position d + 32" "of_nat (Suc i)", folded s1_def]
  let ?t = "commit (write_bytes (kmem s1) (buf + 32) [10]) s1"
  note t = commit_step [OF s1(1) buf1]
  have "read_bytes (kmem ?t) buf 32 = ?bs"
  proof -
    have "kmem ?t (buf + of_nat k) = kmem s1 (buf + of_nat k)" if "k < 32" for k
    proof (rule t(5))
      have "buf + of_nat k \<in> span buf 33" using that by simp
      then show "drop_bit 22 (buf + of_nat k) = 32" by (rule user_range_page [OF buf])
      have "apart buf 32 (buf + 32) 1" using buf by (intro apart_below) (auto simp: user_range_def unat_word_ariths)
      then show "buf + of_nat k \<notin> span (buf + 32) (length [10 :: u8])" using apart_nth [of buf 32 "buf + 32" 1 k] that by simp
    qed
    then have "read_bytes (kmem ?t) buf 32 = read_bytes (kmem s1) buf 32" by (simp add: list_eq_iff_nth_eq)
    then show ?thesis using s1(5) by simp
  qed
  moreover have "read_bytes (kmem ?t) (buf + of_nat 32) 1 = [10]" using t(4) by simp
  ultimately have line: "read_bytes (kmem ?t) buf (32 + 1) = ?bs @ [10]" by (simp only: read_bytes_add)
  define s2 where "s2 = put_string (?bs @ [10]) ?t"
  have w: "sys_write 1 buf 33 ?t = (33, s2)" "program_runs p s2" "same_kernel ?t s2" "prints (?bs @ [10]) ?t s2"
    using write_step [OF t(1) buf0, of 33] line by (simp_all add: s2_def)
  have d: "same_directory s s2" by (rule same_directory_trans [OF s1(3) same_kernel_directory [OF same_kernel_trans [OF t(2) w(3)]]])
  moreover have "dir_at fd s2" using s1(2) by (simp add: dir_at_def s2_def get_cur_pcb_ptr_def)
  moreover have "file_idx (kfs s2) = of_nat (Suc i)" using s1(6) by (simp add: s2_def)
  moreover have none: "prints [] s s1" using s1(3,4) by (simp add: prints_def same_directory_def same_displays_def)
  have "prints (?bs @ [10]) s s2" using prints_trans [OF prints_trans [OF none prints_nothing [OF t(2,3)]] w(4)] by simp
  ultimately show ?thesis using read w(1,2) by auto
qed

lemma ls_loop_prints:
  assumes "program_runs p s" and "dir_at fd s" and "user_range buf 33" and "file_idx (kfs s) = of_nat i" and "i \<le> entries s"
    and "entries s \<le> 63" and "entries s - i < k"
  shows "\<exists>s'. ls_loop k ev msg fd buf s = Some (0, s') \<and> prints (lines_from i s) s s' \<and> file_idx (kfs s') = 0"
  using assms
proof (induction k arbitrary: i s)
  case 0
  then show ?case by simp
next
  case (Suc k)
  have mnt: "mounted s" using Suc.prems(1) by (simp add: program_runs_def)
  show ?case
  proof (cases "i = entries s")
    case True
    then have "\<not> file_idx (kfs s) < num_dir_entries (kmem s) (kfs s)" using Suc.prems(4) by (simp add: entries_def)
    moreover have "user_range buf (length ([] :: u8 list))" using Suc.prems(3) by (simp add: user_range_def)
    note stop = dir_buffer [OF Suc.prems(1,2) this, of file_position 0]
    ultimately obtain s' where s': "sys_read ev fd buf 32 s = Some (0, s')" "same_directory s s'" "same_displays s s'" "file_idx (kfs s') = 0"
      using Suc.prems(2) user_range_bounds [OF Suc.prems(3)]
      by (simp add: sys_read_def dir_at_def call_read_def dir_read_def Let_def)
    then show ?thesis using True by (simp add: lines_from_def prints_def same_directory_def same_displays_def)
  next
    case False
    then have i: "i < entries s" using Suc.prems(5) by simp
    obtain s1 s2 where s: "sys_read ev fd buf 32 s = Some (32, s1)"
        "sys_write 1 buf 33 (commit ((kmem s1)(buf + 32 := 10)) s1) = (33, s2)" "program_runs p s2" "dir_at fd s2"
        "same_directory s s2" "file_idx (kfs s2) = of_nat (Suc i)" "prints (entry_bytes s i @ [10]) s s2"
      using ls_step [OF Suc.prems(1-4) i Suc.prems(6)] by blast
    note same = same_directory_entries [OF mnt s(5)]
    have k: "entries s - Suc i < k" using i Suc.prems(7) by linarith
    obtain s' where s': "ls_loop k ev msg fd buf s2 = Some (0, s')" "prints (lines_from (Suc i) s2) s2 s'" "file_idx (kfs s') = 0"
      using Suc.IH [OF s(3,4) Suc.prems(3) s(6)] i k Suc.prems(6) same(2) by auto
    have "prints (lines_from i s) s s'"
      unfolding lines_from_step [OF i] using prints_trans [OF s(7) s'(2)] same(4) [OF Suc.prems(6)] by simp
    then show ?thesis using s(1,2) s'(1,3) by simp
  qed
qed

text \<open>C10: \<^verbatim>\<open>ls\<close> prints the names of the directory, each with its padding to 32 bytes and a new line, in order, beginning
  with the entry where the counter of \<^verbatim>\<open>dir_read\<close> stands; it returns 0 and leaves the counter at the first entry.\<close>

theorem ls_lists_directory:
  assumes "program_runs p s" and "is_cstr (kmem s) dot [46]" and "dot \<noteq> 0" and "user_range buf 33" and "free_descriptors s \<noteq> {}"
    and "find_file s [46] = Some d" and "file_type d = 1"
    and "entries s \<le> 63" and "file_idx (kfs s) = of_nat i" and "i \<le> entries s"
  shows "\<exists>s'. ece391ls (entries s - i + 1) ev (dot, open_failed, read_failed) buf s = Some (0, s') \<and>
    prints (lines_from i s) s s' \<and> file_idx (kfs s') = 0"
proof -
  have mnt: "mounted s" using assms(1) by (simp add: program_runs_def)
  obtain ops where ops: "open_ops (file_type d) = Some ops" "op_open ops = Dir_open" "op_read ops = Dir_read"
    using assms(7) by (simp add: open_ops_def)
  then obtain k s1 where s1: "sys_open dot s = Some (int k, s1)" "k < 8" "length (open_files s1) = 8"
      "open_files s1 ! k = opened d ops" "program_runs p s1" "same_kernel s s1" "same_displays s s1"
    using open_step(2) [OF assms(1-3,6), of ops] assms(5) by auto
  have at: "dir_at (int k) s1" using s1(2-4) ops(3) by (simp add: dir_at_def opened_def)
  note same = same_directory_entries [OF mnt same_kernel_directory [OF s1(6)]]
  have idx: "file_idx (kfs s1) = of_nat i" using s1(6) assms(9) by (simp add: same_kernel_def)
  obtain s' where s': "ls_loop (entries s - i + 1) ev read_failed (int k) buf s1 = Some (0, s')" "prints (lines_from i s1) s1 s'"
      "file_idx (kfs s') = 0"
    using ls_loop_prints [OF s1(5) at assms(4) idx, of "entries s - i + 1" ev read_failed] assms(8,10) same(2) by auto
  have "prints (lines_from i s) s s'"
    using prints_trans [OF prints_nothing [OF s1(6,7)] s'(2)] same(4) [OF assms(8)] by simp
  then show ?thesis using s1(1) s'(1,3) by (auto simp: ece391ls_def simp del: ls_loop.simps)
qed

text \<open>The counter stands at the second of the two entries.\<close>

definition demo_ls :: kernel where
  "demo_ls = (demo_cat [])\<lparr>kfs := (kfs (demo_cat []))\<lparr>file_idx := 1\<rparr>\<rparr>"

lemma demo_ls_ok: "program_runs 2 demo_ls" "free_descriptors demo_ls \<noteq> {}" "entries demo_ls = 2" "file_idx (kfs demo_ls) = 1"
  "is_cstr (kmem demo_ls) 0x8050006 [46]" "find_file demo_ls [46] = Some (dentry_at demo_image 0x400040)" "run_terminal demo_ls = 0"
  using demo_cat_ok(1,4) demo_cat_free demo_cat_files(1,4) demo_cat_strings(3)
  by (simp_all add: demo_ls_def counter_runs free_descriptors_def entries_def find_file_def dir_lookup_def entry_name_def)

lemma demo_ls_line: "lines_from 1 demo_ls = 97 # replicate 31 0 @ [10]"
proof -
  have "span (dir_entry_addr demo_fs (of_nat 1)) 32 \<subseteq> span (boot_block_ptr demo_fs) 4096"
    by (rule dir_entry_in_boot [where m = demo_image]) (simp_all add: demo_image_counts)
  also have "\<dots> \<subseteq> span (boot_block_ptr demo_fs) (image_size demo_image demo_fs)" by (auto simp: demo_image_counts)
  finally have sub: "span (dir_entry_addr demo_fs (of_nat 1)) 32 \<subseteq> span (boot_block_ptr demo_fs) (image_size demo_image demo_fs)" .
  have "dir_entry_addr (kfs demo_ls) = dir_entry_addr demo_fs" "kmem demo_ls = kmem (demo_cat [])"
    by (simp_all add: demo_ls_def demo_cat_image(1))
  then have "entry_bytes demo_ls 1 = read_bytes (kmem (demo_cat [])) (dir_entry_addr demo_fs (of_nat 1)) 32" by (simp add: entry_bytes_def)
  also have "\<dots> = read_bytes demo_image (dir_entry_addr demo_fs (of_nat 1)) 32"
    by (rule read_bytes_cong, rule demo_cat_image(2)) (use sub in blast, simp)
  also have "\<dots> = read_bytes demo_image 0x400080 32" by (simp add: dir_entry_addr_def demo_fs_simps)
  also have "\<dots> = 97 # replicate 31 0"
  proof (rule nth_equalityI)
    fix i assume "i < length (read_bytes demo_image 0x400080 32)"
    then have i: "i < 32" by simp
    have rest: "demo_image x = 0" if "0x400080 < unat x" "unat x < 0x4000A0" for x
      using that by (auto simp: demo_image_at)
    show "read_bytes demo_image 0x400080 32 ! i = (97 # replicate 31 0) ! i"
    proof (cases "i = 0")
      case False
      then have "unat (0x400080 + of_nat i :: u32) = 0x400080 + i" using i by (simp add: unat_word_ariths)
      then show ?thesis using False i rest [of "0x400080 + of_nat i"] by (simp add: nth_Cons')
    qed (simp add: demo_image_at)
  qed simp
  finally show ?thesis by (simp add: lines_from_def demo_ls_ok(3) upt_rec)
qed

theorem ls_lists_directory_witness:
  "\<exists>s'. ece391ls 2 \<lparr>keys = [], ticks = 0\<rparr> (0x8050006, 0x8050000, 0x8050003) 0x8060000 demo_ls = Some (0, s') \<and> file_idx (kfs s') = 0 \<and>
    display_of s' 0 = fold display_putc (97 # replicate 31 0 @ [10]) (display_of demo_ls 0)"
proof -
  have "file_type (dentry_at demo_image 0x400040) = 1" by (simp add: dentry_at_def load32_def demo_image_at)
  from ls_lists_directory [OF demo_ls_ok(1,5) _ _ demo_ls_ok(2,6) this, of "0x8060000" 1 "\<lparr>keys = [], ticks = 0\<rparr>" "0x8050000" "0x8050003"]
  obtain s' where "ece391ls (2 - 1 + 1) \<lparr>keys = [], ticks = 0\<rparr> (0x8050006, 0x8050000, 0x8050003) 0x8060000 demo_ls = Some (0, s')"
      "prints (97 # replicate 31 0 @ [10]) demo_ls s'" "file_idx (kfs s') = 0"
    by (auto simp: demo_ls_ok(3,4) demo_ls_line [simplified One_nat_def] user_range_def)
  moreover have "2 - 1 + 1 = (2 :: nat)" by simp
  ultimately show ?thesis unfolding prints_def demo_ls_ok(7) by (metis insertI1)
qed

end
