(* ===== verification/Spec2Isabelle.thy ===== *)
theory Spec2Isabelle
  imports Boot Story Session Controller Listing
begin

text \<open>
  A model of the two large programs of this repository: the operating system under
  \<^verbatim>\<open>src/mp3/student-distrib\<close> and the adventure game under \<^verbatim>\<open>src/mp2\<close>.

  \<^bold>\<open>The kernel.\<close>  A small 32-bit x86 kernel with three text terminals.  The boot loader calls
  \<^verbatim>\<open>entry\<close> (\<^verbatim>\<open>kernel.c\<close>), which sets up descriptors, interrupts and paging and starts a shell; the
  timer (\<^verbatim>\<open>pit.c\<close>) starts a shell on each other terminal and then switches between the three
  terminals.  A shell starts programs with \<^verbatim>\<open>execute\<close>, which end with \<^verbatim>\<open>halt\<close>
  (\<^verbatim>\<open>system_calls.c\<close>).  Programs read and write through eight descriptors per process whose
  operations are those of the terminal, the real-time clock, the directory or a file.

  \<^bold>\<open>The game.\<close>  \<^verbatim>\<open>build_world\<close> (\<^verbatim>\<open>world.c\<close>) connects the rooms and places the objects from its tables
  and reads their pictures (\<^verbatim>\<open>photo.c\<close>), choosing a palette for each photo.  The player then moves
  between rooms and types commands, until the last task wins the game.  The world is one record
  \<open>world\<close>: rooms and objects by number, the linked lists through the \<open>obj_next\<close> fields, the flags of
  finished tasks, the stream of random numbers.  The loop of \<^verbatim>\<open>adventure.c\<close> shows the room through a view window
  over a build buffer (\<^verbatim>\<open>modex.c\<close>), draws the status bar (\<^verbatim>\<open>text.c\<close>), waits for the tick, and takes a
  command from the keyboard or the Tux controller (\<^verbatim>\<open>input.c\<close>).  Its state is again one record that
  grows: \<open>vga\<close> (the adapter), \<open>modex\<close> (the build buffer and the window), \<open>game_info\<close> (where the player is) and
  \<open>game\<close> (the world, the input and the times).

  \<^bold>\<open>State of the kernel.\<close>  One record that grows theory by theory, in the order in which the code builds on itself:
  \<open>paging\<close> (the three tables and the control registers), \<open>devices\<close> (ports as a log of accesses, the
  interrupt masks), \<open>screen\<close> (physical memory and the terminals), \<open>rtc\<close>, \<open>keyboard\<close>, \<open>kernel\<close>
  (control blocks by address, the process table, the schedule, the task state, the stack and
  frame registers, the mounted file system) and \<open>machine\<close> (the descriptor tables).  Operations are
  functions on any extension of the record they need.  Machine integers are words of their
  width; C integers that cannot overflow are \<open>int\<close>.  A call that need not return, or that would
  access memory outside an array, has an option type, and \<open>None\<close> is that outcome.  How a
  system call leaves the kernel (return, entering user mode, continuing another frame) is a
  value of the datatype \<open>control\<close>.

  \<^bold>\<open>Theories.\<close>
  \<^item> \<open>Prelude\<close>: bytes, 32-bit words, memory as a function, spans of addresses, byte order.
  \<^item> \<open>Lib_Memory\<close>, \<open>Lib_String\<close>: \<^verbatim>\<open>lib.c\<close>.  The memory routines equal byte-by-byte references at every
    alignment and overlap; strings, \<^verbatim>\<open>itoa\<close> and \<^verbatim>\<open>printf\<close> conversions meet zero-terminated
    specifications, and partial loops are shown to return.
  \<^item> \<open>Filesystem\<close>: \<^verbatim>\<open>filesystem.c\<close> on an image in memory; \<^verbatim>\<open>read_data\<close> delivers a slice of the file.
  \<^item> \<open>Paging\<close>, \<open>Devices\<close>: \<^verbatim>\<open>page.c\<close>, \<^verbatim>\<open>i8259.c\<close>, \<^verbatim>\<open>cursor.c\<close>.  The walk of the processor through the
    tables is the specification of the mappings.
  \<^item> \<open>Terminal\<close>, \<open>Output\<close>: \<^verbatim>\<open>terminal.c\<close> and the console part of \<^verbatim>\<open>lib.c\<close>.  Output refines an
    abstract 25 by 80 display per terminal.  \<open>Output\<close> states, as a locale, which relations between
    states survive any output, and interprets it three times.
  \<^item> \<open>Rtc\<close>, \<open>Keyboard\<close>: \<^verbatim>\<open>rtc.c\<close>, \<^verbatim>\<open>keyboard.c\<close>.  Waiting loops consume a list of interrupts (clock
    ticks or scan codes) and are proved to end when enough of them arrive.
  \<^item> \<open>Process\<close>, \<open>Syscalls\<close>: \<^verbatim>\<open>system_calls.h\<close> and \<^verbatim>\<open>system_calls.c\<close>.  Tables of slots (descriptors,
    process numbers) share the locale \<open>slot_table\<close>.
  \<^item> \<open>Files\<close>, \<open>Exec\<close>, \<open>Services\<close>: what the calls promise to a program: descriptors, whole-file reading,
    starting and ending programs, arguments, video memory and handlers.
  \<^item> \<open>Programs\<close>, \<open>Listing\<close>: \<^verbatim>\<open>cat\<close>, \<^verbatim>\<open>testprint\<close> and \<^verbatim>\<open>ls\<close> of \<^verbatim>\<open>mp3/syscalls\<close> as functions on the state of
    the kernel, made of its calls; what they print, and that they return.  The loops have fuel for one call
    of \<^verbatim>\<open>read\<close> per piece of 1024 bytes or entry and the last one, which finds nothing.
  \<^item> \<open>Scheduler\<close>: \<^verbatim>\<open>pit.c\<close>.
  \<^item> \<open>System\<close>: the kernel as a state machine with steps \<open>Call\<close>, \<open>Work\<close>, \<open>Execute\<close>, \<open>Halt\<close> and \<open>Tick\<close>, and
    the invariant \<open>system_ok\<close>, proved step by step over an abstract tree of processes.
  \<^item> \<open>Interrupts\<close>: \<^verbatim>\<open>idt.c\<close>, \<^verbatim>\<open>x86_desc.h\<close>, \<^verbatim>\<open>assembly_linkage.S\<close>.
  \<^item> \<open>Boot\<close>: \<^verbatim>\<open>kernel.c\<close>, \<^verbatim>\<open>multiboot.h\<close>.  The boot reaches \<open>starting 1\<close>, two ticks later the invariant
    of \<open>System\<close> holds.
  \<^item> \<open>Photo\<close>: \<^verbatim>\<open>photo.c\<close>.  Loading succeeds exactly for complete files; every pixel is shown in a colour near
    its own, the more frequent colours more closely.
  \<^item> \<open>World\<close>, \<open>Commands\<close>: \<^verbatim>\<open>world.c\<close>.  The linked lists of objects represent lists, and no command depends on
    pictures, positions or chance.
  \<^item> \<open>Game\<close>: building the world, the reachable states, and the invariant that ties places to tasks.
  \<^item> \<open>Rules\<close>: the rules of the game on a small summary of the world; the commands carry them out.
  \<^item> \<open>Story\<close>: when the world can be built, what has been done when the game is won, and that it can be won.
  \<^item> \<open>Vga\<close>, \<open>Modex\<close>, \<open>Viewport\<close>: \<^verbatim>\<open>modex.c\<close> on a model of the adapter.  The window over the build buffer can be
    moved anywhere, and what the adapter then displays is the pixels of the window.
  \<^item> \<open>Font\<close>, \<open>Statusbar\<close>: \<^verbatim>\<open>text.c\<close>.  The bar below the picture shows its text in the pixels of the font.
  \<^item> \<open>Scene\<close>, \<open>Display\<close>: the lines of pixels of a room (\<^verbatim>\<open>photo.c\<close>) and scrolling (\<^verbatim>\<open>adventure.c\<close>).  The locale
    \<open>line_source\<close> is the contract of the two routines that \<^verbatim>\<open>modex.c\<close> calls back; \<open>Scene\<close> meets it with one
    picture, the photo with the objects painted over it.
  \<^item> \<open>Input\<close>: \<^verbatim>\<open>input.c\<close>.  The bytes of keys give their commands; the line typed is bounded.
  \<^item> \<open>Ldisc\<close>, \<open>Tuxctl\<close>, \<open>Controller\<close>: \<^verbatim>\<open>module/tuxctl-ld.c\<close>, \<^verbatim>\<open>tuxctl-ioctl.c\<close>, \<^verbatim>\<open>mtcp.h\<close>.  The two circular buffers
    are queues (locale \<open>byte_queue\<close>), packets are recognised however the line cuts them, and buttons and the time
    pass between the controller and the game.
  \<^item> \<open>Looks\<close>: which commands of the game leave the picture of the room alone.
  \<^item> \<open>Adventure\<close>, \<open>Opening\<close>, \<open>Play\<close>, \<open>Session\<close>: \<^verbatim>\<open>adventure.c\<close>.  Turns of the loop, rounds of the Tux thread and
    messages that vanish are the steps of the relation \<open>session\<close>; by induction over it no step fails and every
    turn shows the room of the player.

  \<^bold>\<open>Bounds and fuel.\<close>  \<^verbatim>\<open>read_blocks\<close> counts the blocks still to copy, which \<^verbatim>\<open>read_data\<close> computes before
  the loop, so it never runs short.  \<open>read_all\<close> has fuel for the number of system calls; the theorem
  gives a number that suffices.  Loops that wait for an interrupt take the list of interrupts that
  arrive.  The walks along
  the lists of a room have fuel for as many objects as there are, and a list is never longer.
  Every other loop is a total function with a measure or an optional partial function.

  \<^bold>\<open>What is assumed.\<close>  The processor is as the Intel manual describes the parts used: the page
  walk, the decoding of gates and segments, \<^verbatim>\<open>leave\<close>/\<^verbatim>\<open>ret\<close>/\<^verbatim>\<open>iret\<close>.  Linker-chosen addresses and the
  stack addresses of local arrays are parameters.  The step \<open>Work\<close> stands for the other calls and
  for user code; it may change memory outside the file system, the screen, descriptors and
  arguments, and \<open>System\<close> shows that output, user-mode stores and updates of the other parts of a
  control block are such work.  In the game a turn of the loop and a round of a helper thread are atomic and
  alternate in any order; the source does not lock the drawing against the Tux thread.  The clock, the bytes of
  the keyboard, the buttons and the success of memory allocation, of starting threads and of mapping video memory are
  inputs of the steps.

  \<^bold>\<open>Not modelled.\<close>  The test suite \<^verbatim>\<open>tests.c\<close> (none of its tests is enabled), the macros of \<^verbatim>\<open>debug.h\<close>,
  the assembly before \<^verbatim>\<open>entry\<close>, the saving of registers in the interrupt stubs, word and
  double-word ports.  The other user programs (\<^verbatim>\<open>mp3/syscalls\<close>, \<^verbatim>\<open>mp3/fish\<close>)
  and the assembly exercise (\<^verbatim>\<open>mp1\<close>) are programs of their own.  Of the game, the return to text mode and the
  mapping of video memory in \<^verbatim>\<open>modex.c\<close>, the terminal settings of \<^verbatim>\<open>input.c\<close>, the clean-up stack of \<^verbatim>\<open>assert.c\<close>,
  the registration of the line discipline and the preemption of threads.  The library's
  \<^verbatim>\<open>qsort\<close> is a parameter with the law that it sorts, and the serial driver below the line discipline is one with
  the law \<open>takes_room\<close>: it takes the bytes it has announced room for, in order.
\<close>

end
